(* ===== verification/Go_Prelude.thy ===== *)
theory Go_Prelude
  imports Main "HOL-Library.Char_ord" "HOL-Library.List_Lexorder" "HOL-Library.Multiset"
begin

text \<open>
  The parts of the Go language and of its standard library that several components use, and the
  generic facts about them. A Go string is a sequence of bytes, which is exactly \<open>string\<close>
  (a list of 8-bit characters); \<open><\<close> on it is the bytewise lexicographic order of the imported
  order theories. A Go \<open>int\<close> is a 64-bit two's complement number: it is kept as \<open>int\<close>, and
  \<open>wrap64\<close> is written wherever an operation of the source can leave its range.

  Two interfaces are stated as locales: \<open>strict_weak\<close>, the contract of a Go \<open>less\<close> function,
  with its two clients (a stable sort and a keep-the-best loop), and \<open>three_way\<close>, the contract
  of a comparison returning a negative, zero or positive number.
\<close>

named_theorems go_string "defining equations of the string functions"
named_theorems wf_intros "introduction rules for well-formedness invariants"

section \<open>64-bit integers\<close>

definition wrap64 :: "int \<Rightarrow> int" where
  "wrap64 x = (x + 2 ^ 63) mod 2 ^ 64 - 2 ^ 63"

definition in_int64 :: "int \<Rightarrow> bool" where
  "in_int64 x \<longleftrightarrow> - (2 ^ 63) \<le> x \<and> x < 2 ^ 63"

lemma wrap64_id [simp]: "in_int64 x \<Longrightarrow> wrap64 x = x"
  by (simp add: wrap64_def in_int64_def)

lemma in_int64_wrap64 [simp, intro]: "in_int64 (wrap64 x)"
  using pos_mod_bound [of "2 ^ 64" "x + 2 ^ 63"] pos_mod_sign [of "2 ^ 64" "x + 2 ^ 63"]
  by (simp add: wrap64_def in_int64_def)

lemma in_int64_mono: "in_int64 b \<Longrightarrow> 0 \<le> a \<Longrightarrow> a \<le> b \<Longrightarrow> in_int64 a"
  by (simp add: in_int64_def)

text \<open>\<open>sign\<close> and \<open>cmp\<close>-style results: the source returns -1, 0 or 1.\<close>

definition sign_of :: "int \<Rightarrow> int" where
  "sign_of d = (if d < 0 then -1 else if d > 0 then 1 else 0)"

lemma sign_of_simps [simp]:
  "(sign_of d < 0) = (d < 0)" "(0 < sign_of d) = (0 < d)" "(sign_of d = 0) = (d = 0)"
  "(sign_of d \<le> 0) = (d \<le> 0)" "sign_of 0 = 0"
  by (auto simp: sign_of_def)

lemma sign_of_minus: "sign_of (- d) = - sign_of d"
  by (simp add: sign_of_def)

section \<open>Strings\<close>

definition HasPrefix :: "string \<Rightarrow> string \<Rightarrow> bool" where
  "HasPrefix s p = (take (length p) s = p)"

definition HasSuffix :: "string \<Rightarrow> string \<Rightarrow> bool" where
  "HasSuffix s p = (length p \<le> length s \<and> drop (length s - length p) s = p)"

definition TrimPrefix :: "string \<Rightarrow> string \<Rightarrow> string" where
  "TrimPrefix s p = (if HasPrefix s p then drop (length p) s else s)"

definition TrimSuffix :: "string \<Rightarrow> string \<Rightarrow> string" where
  "TrimSuffix s p = (if HasSuffix s p then take (length s - length p) s else s)"

definition CutPrefix :: "string \<Rightarrow> string \<Rightarrow> string option" where
  "CutPrefix s p = (if HasPrefix s p then Some (drop (length p) s) else None)"

text \<open>\<open>strings.Index\<close>, for a non-empty needle.\<close>

fun IndexStr :: "string \<Rightarrow> string \<Rightarrow> nat option" where
  "IndexStr [] p = (if p = [] then Some 0 else None)"
| "IndexStr (c # cs) p =
     (if HasPrefix (c # cs) p then Some 0 else map_option Suc (IndexStr cs p))"

definition ContainsStr :: "string \<Rightarrow> string \<Rightarrow> bool" where
  "ContainsStr s p = (IndexStr s p \<noteq> None)"

text \<open>\<open>strings.Cut\<close> around the first occurrence of a one-byte separator: before, after, found.\<close>

fun CutChar :: "string \<Rightarrow> char \<Rightarrow> string \<times> string \<times> bool" where
  "CutChar [] sep = ([], [], False)"
| "CutChar (c # cs) sep =
     (if c = sep then ([], cs, True)
      else (case CutChar cs sep of (b, a, f) \<Rightarrow> (c # b, a, f)))"

text \<open>\<open>strings.Split\<close> on a one-byte separator: never empty.\<close>

fun SplitChar :: "string \<Rightarrow> char \<Rightarrow> string list" where
  "SplitChar [] sep = [[]]"
| "SplitChar (c # cs) sep =
     (if c = sep then [] # SplitChar cs sep
      else (case SplitChar cs sep of [] \<Rightarrow> [[c]] | p # ps \<Rightarrow> (c # p) # ps))"

fun JoinStr :: "string list \<Rightarrow> string \<Rightarrow> string" where
  "JoinStr [] sep = []"
| "JoinStr [x] sep = x"
| "JoinStr (x # y # xs) sep = x @ sep @ JoinStr (y # xs) sep"

text \<open>
  \<open>unicode.IsSpace\<close> on UTF-8: the byte sequences of the code points it accepts. \<open>TrimSpace\<close>
  strips them at both ends; a lead byte never occurs inside another character, so matching the
  sequences as prefixes and suffixes is what decoding runes does.
\<close>

definition space_seqs :: "string list" where
  "space_seqs =
     [[CHR 0x09], [CHR 0x0A], [CHR 0x0B], [CHR 0x0C], [CHR 0x0D], [CHR 0x20],
      [CHR 0xC2, CHR 0x85], [CHR 0xC2, CHR 0xA0], [CHR 0xE1, CHR 0x9A, CHR 0x80],
      [CHR 0xE2, CHR 0x80, CHR 0x80], [CHR 0xE2, CHR 0x80, CHR 0x81],
      [CHR 0xE2, CHR 0x80, CHR 0x82], [CHR 0xE2, CHR 0x80, CHR 0x83],
      [CHR 0xE2, CHR 0x80, CHR 0x84], [CHR 0xE2, CHR 0x80, CHR 0x85],
      [CHR 0xE2, CHR 0x80, CHR 0x86], [CHR 0xE2, CHR 0x80, CHR 0x87],
      [CHR 0xE2, CHR 0x80, CHR 0x88], [CHR 0xE2, CHR 0x80, CHR 0x89],
      [CHR 0xE2, CHR 0x80, CHR 0x8A], [CHR 0xE2, CHR 0x80, CHR 0xA8],
      [CHR 0xE2, CHR 0x80, CHR 0xA9], [CHR 0xE2, CHR 0x80, CHR 0xAF],
      [CHR 0xE2, CHR 0x81, CHR 0x9F], [CHR 0xE3, CHR 0x80, CHR 0x80]]"

fun trim_left_fuel :: "nat \<Rightarrow> string list \<Rightarrow> string \<Rightarrow> string" where
  "trim_left_fuel 0 seqs s = s"
| "trim_left_fuel (Suc n) seqs s =
     (case filter (\<lambda>q. q \<noteq> [] \<and> HasPrefix s q) seqs of
        [] \<Rightarrow> s
      | q # _ \<Rightarrow> trim_left_fuel n seqs (drop (length q) s))"

text \<open>Every round drops at least one byte, so the length of the string is enough fuel.\<close>

definition TrimLeftSeqs :: "string list \<Rightarrow> string \<Rightarrow> string" where
  "TrimLeftSeqs seqs s = trim_left_fuel (length s) seqs s"

definition TrimRightSeqs :: "string list \<Rightarrow> string \<Rightarrow> string" where
  "TrimRightSeqs seqs s = rev (TrimLeftSeqs (map rev seqs) (rev s))"

definition TrimSpace :: "string \<Rightarrow> string" where
  "TrimSpace s = TrimRightSeqs space_seqs (TrimLeftSeqs space_seqs s)"

definition TrimRightChar :: "string \<Rightarrow> char \<Rightarrow> string" where
  "TrimRightChar s c = rev (dropWhile (\<lambda>x. x = c) (rev s))"

definition TrimChar :: "string \<Rightarrow> char \<Rightarrow> string" where
  "TrimChar s c = TrimRightChar (dropWhile (\<lambda>x. x = c) s) c"

definition lower_char :: "char \<Rightarrow> char" where
  "lower_char c = (if (of_char c :: nat) \<in> {65..90} then char_of (of_char c + 32 :: nat) else c)"

text \<open>
  \<open>strings.ToLower\<close> on the ASCII letters; every other byte is left alone. (Go also folds non-ASCII
  letters; the header of each component says why that does not show in its results.)
\<close>

definition ToLower :: "string \<Rightarrow> string" where
  "ToLower s = map lower_char s"

definition upper_char :: "char \<Rightarrow> char" where
  "upper_char c = (if (of_char c :: nat) \<in> {97..122} then char_of (of_char c - 32 :: nat) else c)"

text \<open>
  \<open>strings.ToUpper\<close> as far as its result can be ASCII: the ASCII letters, and the two other letters
  whose upper case is an ASCII letter (U+0131 and U+017F, bytes C4 B1 and C5 BF).
\<close>

fun ToUpper :: "string \<Rightarrow> string" where
  "ToUpper [] = []"
| "ToUpper [c] = [upper_char c]"
| "ToUpper (c # d # s) =
     (if of_char c = (196 :: nat) \<and> of_char d = (177 :: nat) then CHR ''I'' # ToUpper s
      else if of_char c = (197 :: nat) \<and> of_char d = (191 :: nat) then CHR ''S'' # ToUpper s
      else upper_char c # ToUpper (d # s))"

definition is_digit :: "char \<Rightarrow> bool" where
  "is_digit c = ((of_char c :: nat) \<in> {48..57})"

definition is_alpha :: "char \<Rightarrow> bool" where
  "is_alpha c = ((of_char c :: nat) \<in> {65..90} \<or> (of_char c :: nat) \<in> {97..122})"

section \<open>Decimal numbers\<close>

definition digit_val :: "char \<Rightarrow> int" where
  "digit_val c = int (of_char c) - 48"

definition digits_val :: "string \<Rightarrow> int" where
  "digits_val s = foldl (\<lambda>acc c. 10 * acc + digit_val c) 0 s"

text \<open>
  \<open>strconv.Atoi\<close>: an optional sign, at least one digit, and a value in the range of \<open>int\<close>.
\<close>

definition parse_int :: "string \<Rightarrow> int option" where
  "parse_int s =
     (let (neg, ds) = (case s of [] \<Rightarrow> (False, [])
                       | c # cs \<Rightarrow> if c = CHR ''-'' then (True, cs)
                                  else if c = CHR ''+'' then (False, cs) else (False, s))
      in if ds = [] \<or> \<not> list_all is_digit ds then None
         else Some (if neg then - digits_val ds else digits_val ds))"

definition Atoi :: "string \<Rightarrow> int option" where
  "Atoi s = (case parse_int s of
               None \<Rightarrow> None
             | Some v \<Rightarrow> if in_int64 v then Some v else None)"

text \<open>The number \<open>Atoi\<close> returns when its error is ignored: 0, or the nearest bound.\<close>

definition Atoi0 :: "string \<Rightarrow> int" where
  "Atoi0 s = (case parse_int s of
                None \<Rightarrow> 0
              | Some v \<Rightarrow> max (- (2 ^ 63)) (min (2 ^ 63 - 1) v))"

fun nat_digits :: "nat \<Rightarrow> string" where
  "nat_digits n =
     (if n < 10 then [char_of (48 + n)] else nat_digits (n div 10) @ [char_of (48 + n mod 10)])"

declare nat_digits.simps [simp del]

definition Itoa :: "int \<Rightarrow> string" where
  "Itoa i = (if i < 0 then CHR ''-'' # nat_digits (nat (- i)) else nat_digits (nat i))"


subsection \<open>Facts about numbers\<close>

lemma of_char_digit [simp]: "n < 10 \<Longrightarrow> of_char (char_of (48 + n) :: char) = (48 + n :: nat)"
  by (simp add: of_char_of)

lemma is_digit_char_of [simp]: "n < 10 \<Longrightarrow> is_digit (char_of (48 + n :: nat))"
  by (simp add: is_digit_def)

lemma digit_val_char_of [simp]: "n < 10 \<Longrightarrow> digit_val (char_of (48 + n :: nat)) = int n"
  by (simp add: digit_val_def del: of_char_of)

lemma digits_val_append [simp]: "digits_val (s @ [c]) = 10 * digits_val s + digit_val c"
  by (simp add: digits_val_def)

lemma nat_digits_not_Nil [simp]: "nat_digits n \<noteq> []"
  by (subst nat_digits.simps) simp

lemma nat_digits_are_digits: "list_all is_digit (nat_digits n)"
proof (induction n rule: nat_digits.induct)
  case (1 n)
  then show ?case
    by (cases "n < 10") (simp_all add: nat_digits.simps [of n])
qed

lemma digits_val_nat_digits: "digits_val (nat_digits n) = int n"
proof (induction n rule: nat_digits.induct)
  case (1 n)
  show ?case
  proof (cases "n < 10")
    case True
    then show ?thesis by (simp add: nat_digits.simps [of n] digits_val_def)
  next
    case False
    with 1 have "digits_val (nat_digits n) = 10 * int (n div 10) + int (n mod 10)"
      by (simp add: nat_digits.simps [of n])
    then show ?thesis by (simp add: zdiv_int zmod_int)
  qed
qed

lemma is_digit_not: "is_digit c \<Longrightarrow> c \<noteq> CHR ''-'' \<and> c \<noteq> CHR ''+'' \<and> c \<noteq> CHR ''.''"
  by (auto simp: is_digit_def)

lemma nat_digits_inj [simp]: "nat_digits m = nat_digits n \<longleftrightarrow> m = n"
  using digits_val_nat_digits by (metis of_nat_eq_iff)

lemma Atoi_nat_digits:
  assumes "in_int64 (int n)"
  shows "Atoi (nat_digits n) = Some (int n)"
proof -
  obtain c cs where cs: "nat_digits n = c # cs"
    by (cases "nat_digits n") auto
  with nat_digits_are_digits [of n] have "is_digit c" by simp
  then have "c \<noteq> CHR ''-''" and "c \<noteq> CHR ''+''" by (auto dest: is_digit_not)
  moreover have "digits_val (c # cs) = int n" and "list_all is_digit (c # cs)"
    using digits_val_nat_digits [of n] nat_digits_are_digits [of n] cs by simp_all
  ultimately show ?thesis using assms by (simp add: Atoi_def parse_int_def cs)
qed

text \<open>Printing and reading back an \<open>int\<close> gives the same number.\<close>

lemma Atoi_Itoa: "0 \<le> i \<Longrightarrow> in_int64 i \<Longrightarrow> Atoi (Itoa i) = Some i"
  using Atoi_nat_digits [of "nat i"] by (simp add: Itoa_def)

lemma Itoa_inj: "0 \<le> i \<Longrightarrow> 0 \<le> j \<Longrightarrow> Itoa i = Itoa j \<longleftrightarrow> i = j"
  by (auto simp: Itoa_def)

lemma Itoa_digits: "0 \<le> i \<Longrightarrow> list_all is_digit (Itoa i)"
  by (simp add: Itoa_def nat_digits_are_digits)

lemma Itoa_not_Nil [simp]: "Itoa i \<noteq> []"
  by (simp add: Itoa_def)

lemma Itoa_no_char:
  assumes "0 \<le> i" and "\<not> is_digit c"
  shows "c \<notin> set (Itoa i)"
  using Itoa_digits [OF assms(1)] assms(2) by (auto simp: list_all_iff)

lemma nat_digits_no_leading_zero: "n \<ge> 10 \<Longrightarrow> hd (nat_digits n) \<noteq> CHR ''0''"
proof (induction n rule: nat_digits.induct)
  case (1 n)
  show ?case
  proof (cases "n div 10 < 10")
    case True
    have d: "hd (nat_digits (n div 10)) = char_of (48 + n div 10)"
      using True by (simp add: nat_digits.simps [of "n div 10"])
    have "char_of (48 + n div 10) \<noteq> CHR ''0''"
    proof
      assume "char_of (48 + n div 10) = CHR ''0''"
      then have "(of_char (char_of (48 + n div 10) :: char) :: nat) = 48" by simp
      then show False using True 1 by simp
    qed
    with d 1 show ?thesis by (simp add: nat_digits.simps [of n])
  next
    case False
    with 1 have "hd (nat_digits (n div 10)) \<noteq> CHR ''0''" by simp
    with 1 show ?thesis by (simp add: nat_digits.simps [of n])
  qed
qed

lemma Itoa_no_leading_zero:
  assumes "0 \<le> i" and "length (Itoa i) > 1"
  shows "hd (Itoa i) \<noteq> CHR ''0''"
proof -
  have "nat i \<ge> 10"
  proof (rule ccontr)
    assume "\<not> 10 \<le> nat i"
    with assms show False by (simp add: Itoa_def nat_digits.simps [of "nat i"])
  qed
  then show ?thesis using assms(1) nat_digits_no_leading_zero [of "nat i"] by (simp add: Itoa_def)
qed

subsection \<open>Facts about splitting, joining and trimming\<close>

lemma HasPrefix_append [simp]: "HasPrefix (p @ s) p"
  by (simp add: HasPrefix_def)

lemma HasPrefix_iff: "HasPrefix s p \<longleftrightarrow> (\<exists>r. s = p @ r)"
  unfolding HasPrefix_def by (metis append_eq_conv_conj append_take_drop_id)

lemma CutPrefix_append [simp]: "CutPrefix (p @ s) p = Some s"
  by (simp add: CutPrefix_def)

lemma CutPrefix_SomeD: "CutPrefix s p = Some r \<Longrightarrow> s = p @ r"
  by (auto simp: CutPrefix_def HasPrefix_iff split: if_splits)

lemma SplitChar_not_Nil [simp]: "SplitChar s c \<noteq> []"
  by (cases s) (auto split: list.splits)

lemma SplitChar_none: "c \<notin> set s \<Longrightarrow> SplitChar s c = [s]"
  by (induction s) auto

lemma SplitChar_append: "c \<notin> set s \<Longrightarrow> SplitChar (s @ c # t) c = s # SplitChar t c"
  by (induction s) auto

lemma CutChar_none: "c \<notin> set s \<Longrightarrow> CutChar s c = (s, [], False)"
  by (induction s) auto

lemma CutChar_append: "c \<notin> set s \<Longrightarrow> CutChar (s @ c # t) c = (s, t, True)"
  by (induction s) auto

lemma trim_left_fuel_none:
  assumes "\<And>q. q \<in> set seqs \<Longrightarrow> q \<noteq> [] \<Longrightarrow> \<not> HasPrefix s q"
  shows "trim_left_fuel n seqs s = s"
proof (cases n)
  case (Suc m)
  have none: "filter (\<lambda>q. q \<noteq> [] \<and> HasPrefix s q) seqs = []"
    using assms by (auto simp: filter_empty_conv)
  show ?thesis unfolding Suc trim_left_fuel.simps none by simp
qed simp

lemma trim_left_fuel_drop: "\<exists>k. trim_left_fuel n seqs s = drop k s"
proof (induction n arbitrary: s)
  case 0
  show ?case by (rule exI [of _ 0]) simp
next
  case (Suc n)
  show ?case
  proof (cases "filter (\<lambda>q. q \<noteq> [] \<and> HasPrefix s q) seqs")
    case Nil
    then show ?thesis by (intro exI [of _ 0]) simp
  next
    case (Cons q qs)
    with Suc.IH [of "drop (length q) s"] show ?thesis by auto
  qed
qed

text \<open>With the length as fuel no sequence is left at the front.\<close>

lemma trim_left_fuel_done:
  "length s \<le> n \<Longrightarrow> q \<in> set seqs \<Longrightarrow> q \<noteq> [] \<Longrightarrow> \<not> HasPrefix (trim_left_fuel n seqs s) q"
proof (induction n arbitrary: s)
  case 0
  then show ?case by (simp add: HasPrefix_def)
next
  case (Suc n)
  show ?case
  proof (cases "filter (\<lambda>q. q \<noteq> [] \<and> HasPrefix s q) seqs")
    case Nil
    with Suc.prems show ?thesis by (auto simp: filter_empty_conv)
  next
    case (Cons r rs)
    then have "r \<in> set (filter (\<lambda>q. q \<noteq> [] \<and> HasPrefix s q) seqs)" by simp
    then have "r \<noteq> []" "HasPrefix s r" by simp_all
    then have "length (drop (length r) s) \<le> n" using Suc.prems(1) by (cases r) auto
    with Suc Cons show ?thesis by simp
  qed
qed

lemma HasPrefix_take: "HasPrefix (take k s) q \<Longrightarrow> HasPrefix s q"
  by (metis HasPrefix_iff append.assoc append_take_drop_id)

lemma TrimSpace_idem: "TrimSpace (TrimSpace s) = TrimSpace s"
proof -
  let ?l = "TrimLeftSeqs space_seqs s" and ?r = "TrimSpace s"
  obtain k where "TrimLeftSeqs (map rev space_seqs) (rev ?l) = drop k (rev ?l)"
    unfolding TrimLeftSeqs_def using trim_left_fuel_drop by metis
  then have r: "?r = take (length ?l - k) ?l"
    by (simp add: TrimSpace_def TrimRightSeqs_def rev_drop)
  have "\<not> HasPrefix ?r q" if "q \<in> set space_seqs" "q \<noteq> []" for q
    using that trim_left_fuel_done [of s "length s" q space_seqs] HasPrefix_take r
    by (metis TrimLeftSeqs_def le_refl)
  then have left: "TrimLeftSeqs space_seqs ?r = ?r"
    unfolding TrimLeftSeqs_def by (rule trim_left_fuel_none)
  have "\<not> HasPrefix (rev ?r) q" if "q \<in> set (map rev space_seqs)" "q \<noteq> []" for q
    using that trim_left_fuel_done [of "rev ?l" "length (rev ?l)" q "map rev space_seqs"]
    by (simp add: TrimSpace_def TrimRightSeqs_def TrimLeftSeqs_def)
  then have "TrimLeftSeqs (map rev space_seqs) (rev ?r) = rev ?r"
    unfolding TrimLeftSeqs_def by (rule trim_left_fuel_none)
  with left show ?thesis by (simp add: TrimSpace_def [of "TrimSpace s"] TrimRightSeqs_def)
qed

text \<open>No printable ASCII character is a byte of a white space sequence, so a string of them is its
  own trimmed form.\<close>

definition plain_char :: "char \<Rightarrow> bool" where
  "plain_char c = ((of_char c :: nat) \<in> {33..126})"

lemma space_seqs_bytes: "q \<in> set space_seqs \<Longrightarrow> c \<in> set q \<Longrightarrow> \<not> plain_char c"
proof -
  have "list_all (\<lambda>q. list_all (\<lambda>c. \<not> plain_char c) q) space_seqs"
    by (simp add: space_seqs_def plain_char_def)
  then show "q \<in> set space_seqs \<Longrightarrow> c \<in> set q \<Longrightarrow> \<not> plain_char c"
    by (auto simp: list_all_iff)
qed

lemma HasPrefix_Cons_plain:
  assumes "\<And>c. c \<in> set q \<Longrightarrow> \<not> plain_char c" and "list_all plain_char s" and "q \<noteq> []"
  shows "\<not> HasPrefix s q"
  using assms by (cases q) (auto simp: HasPrefix_iff list_all_iff)

lemma TrimSpace_plain: "list_all plain_char s \<Longrightarrow> TrimSpace s = s"
proof -
  assume s: "list_all plain_char s"
  have "TrimLeftSeqs space_seqs s = s"
    unfolding TrimLeftSeqs_def
    by (intro trim_left_fuel_none HasPrefix_Cons_plain) (auto simp: s dest: space_seqs_bytes)
  moreover have "TrimLeftSeqs (map rev space_seqs) (rev s) = rev s"
    unfolding TrimLeftSeqs_def
  proof (intro trim_left_fuel_none HasPrefix_Cons_plain)
    fix q c assume "q \<in> set (map rev space_seqs)" "c \<in> set q"
    then show "\<not> plain_char c" by (auto dest: space_seqs_bytes)
  qed (use s in \<open>auto simp: list_all_iff\<close>)
  ultimately show ?thesis by (simp add: TrimSpace_def TrimRightSeqs_def)
qed

lemma plain_charI [simp]: "is_digit c \<Longrightarrow> plain_char c" "is_alpha c \<Longrightarrow> plain_char c"
  "plain_char CHR ''.''" "plain_char CHR ''-''"
  by (auto simp: is_digit_def is_alpha_def plain_char_def)

lemma lower_char_digit [simp]: "is_digit c \<Longrightarrow> lower_char c = c"
  by (auto simp: is_digit_def lower_char_def)

section \<open>Lists of rows\<close>

lemma distinct_map_unique: "\<lbrakk>distinct (map f xs); x \<in> set xs; y \<in> set xs; f x = f y\<rbrakk> \<Longrightarrow> x = y"
  by (auto simp: distinct_map dest: inj_onD)

lemma set_map_filter: "set (List.map_filter f xs) = {y. \<exists>x\<in>set xs. f x = Some y}"
  by (induction xs) (auto simp: List.map_filter_simps split: option.splits)

section \<open>Sorting and selecting with a Go \<open>less\<close> function\<close>

text \<open>
  \<open>sort.SliceStable\<close>: every stable sort computes the same list, here by insertion from the right.
\<close>

fun insert_stable :: "('a \<Rightarrow> 'a \<Rightarrow> bool) \<Rightarrow> 'a \<Rightarrow> 'a list \<Rightarrow> 'a list" where
  "insert_stable lt x [] = [x]"
| "insert_stable lt x (y # ys) =
     (if lt y x then y # insert_stable lt x ys else x # y # ys)"

definition SliceStable :: "('a \<Rightarrow> 'a \<Rightarrow> bool) \<Rightarrow> 'a list \<Rightarrow> 'a list" where
  "SliceStable lt xs = foldr (insert_stable lt) xs []"

text \<open>
  The loop \<open>for x { if !ok(x) {continue}; if best == nil || better(x, best) {best = x} }\<close> that the
  scheduler, the placement service and the version planner share.
\<close>

fun keep_best :: "('a \<Rightarrow> bool) \<Rightarrow> ('a \<Rightarrow> 'a \<Rightarrow> bool) \<Rightarrow> 'a option \<Rightarrow> 'a list \<Rightarrow> 'a option" where
  "keep_best ok better best [] = best"
| "keep_best ok better best (x # xs) =
     keep_best ok better
       (if ok x \<and> (case best of None \<Rightarrow> True | Some b \<Rightarrow> better x b) then Some x else best) xs"

lemma mset_insert_stable [simp]: "mset (insert_stable lt x xs) = add_mset x (mset xs)"
  by (induction xs) auto

lemma mset_SliceStable [simp]: "mset (SliceStable lt xs) = mset xs"
  by (induction xs) (auto simp: SliceStable_def)

lemma set_insert_stable [simp]: "set (insert_stable lt x xs) = insert x (set xs)"
  using mset_insert_stable [of lt x xs] by (metis set_mset_add_mset_insert set_mset_mset)

lemma set_SliceStable [simp]: "set (SliceStable lt xs) = set xs"
  using mset_SliceStable [of lt xs] by (metis set_mset_mset)

lemma length_SliceStable [simp]: "length (SliceStable lt xs) = length xs"
  using mset_SliceStable [of lt xs] by (metis size_mset)

lemma distinct_SliceStable [simp]: "distinct (SliceStable lt xs) = distinct xs"
  using mset_SliceStable [of lt xs] by (metis mset_eq_imp_distinct_iff)

lemma SliceStable_simps [simp]:
  "SliceStable lt [] = []"
  "SliceStable lt (x # xs) = insert_stable lt x (SliceStable lt xs)"
  by (simp_all add: SliceStable_def)

locale strict_weak =
  fixes lt :: "'a \<Rightarrow> 'a \<Rightarrow> bool"
    and dom :: "'a \<Rightarrow> bool"
  assumes irrefl: "dom x \<Longrightarrow> \<not> lt x x"
    and trans: "\<lbrakk>dom x; dom y; dom z; lt x y; lt y z\<rbrakk> \<Longrightarrow> lt x z"
    and cotrans: "\<lbrakk>dom x; dom y; dom z; lt x z\<rbrakk> \<Longrightarrow> lt x y \<or> lt y z"
begin

lemma asym: "\<lbrakk>dom x; dom y; lt x y\<rbrakk> \<Longrightarrow> \<not> lt y x"
  using irrefl trans by blast

lemma sorted_insert_stable:
  assumes "sorted_wrt (\<lambda>a b. \<not> lt b a) xs" and "dom x" and "\<And>y. y \<in> set xs \<Longrightarrow> dom y"
  shows "sorted_wrt (\<lambda>a b. \<not> lt b a) (insert_stable lt x xs)"
  using assms
proof (induction xs)
  case (Cons y ys)
  show ?case
  proof (cases "lt y x")
    case True
    with Cons show ?thesis using asym by auto
  next
    case False
    have "\<not> lt z x" if "z \<in> set ys" for z
      using Cons.prems that False cotrans [of z y x] by auto
    with Cons.prems False show ?thesis by auto
  qed
qed simp

lemma SliceStable_sorted:
  assumes "\<And>x. x \<in> set xs \<Longrightarrow> dom x"
  shows "sorted_wrt (\<lambda>a b. \<not> lt b a) (SliceStable lt xs)"
  using assms by (induction xs) (auto intro!: sorted_insert_stable)

lemma filter_insert_stable:
  assumes "dom x" and "dom a" and "\<And>y. y \<in> set xs \<Longrightarrow> dom y"
    and "sorted_wrt (\<lambda>a b. \<not> lt b a) xs"
  shows "filter (\<lambda>y. \<not> lt a y \<and> \<not> lt y a) (insert_stable lt x xs) =
         filter (\<lambda>y. \<not> lt a y \<and> \<not> lt y a) (x # xs)"
  using assms
proof (induction xs)
  case (Cons y ys)
  have "\<not> (lt y x \<and> \<not> lt a y \<and> \<not> lt y a \<and> \<not> lt a x \<and> \<not> lt x a)"
    using Cons.prems cotrans [of y a x] by auto
  with Cons show ?case by auto
qed simp

text \<open>Elements the order does not separate keep their input order.\<close>

lemma SliceStable_stable:
  assumes "dom a" and "\<And>x. x \<in> set xs \<Longrightarrow> dom x"
  shows "filter (\<lambda>y. \<not> lt a y \<and> \<not> lt y a) (SliceStable lt xs) =
         filter (\<lambda>y. \<not> lt a y \<and> \<not> lt y a) xs"
  using assms
proof (induction xs)
  case (Cons x xs)
  then have "filter (\<lambda>y. \<not> lt a y \<and> \<not> lt y a) (insert_stable lt x (SliceStable lt xs)) =
      filter (\<lambda>y. \<not> lt a y \<and> \<not> lt y a) (x # SliceStable lt xs)"
    by (intro filter_insert_stable SliceStable_sorted) auto
  with Cons show ?case by simp
qed simp

lemma keep_best_invariant:
  assumes "\<And>x. x \<in> set xs \<Longrightarrow> ok x \<Longrightarrow> dom x"
    and "\<And>b. best = Some b \<Longrightarrow> dom b"
    and "keep_best ok lt best xs = Some b"
  shows "(best = Some b \<or> b \<in> set xs \<and> ok b) \<and> dom b \<and>
         (\<forall>x \<in> set xs. ok x \<longrightarrow> \<not> lt x b) \<and> (\<forall>b'. best = Some b' \<longrightarrow> \<not> lt b' b)"
  using assms
proof (induction xs arbitrary: best)
  case Nil
  then show ?case using irrefl by auto
next
  case (Cons x xs)
  let ?best = "if ok x \<and> (case best of None \<Rightarrow> True | Some b \<Rightarrow> lt x b) then Some x else best"
  have IH: "(?best = Some b \<or> b \<in> set xs \<and> ok b) \<and> dom b \<and>
      (\<forall>x \<in> set xs. ok x \<longrightarrow> \<not> lt x b) \<and> (\<forall>b'. ?best = Some b' \<longrightarrow> \<not> lt b' b)"
    by (rule Cons.IH) (use Cons.prems in \<open>auto split: if_splits\<close>)
  have new: "\<not> lt x b" if "ok x"
    using IH that Cons.prems cotrans [of x _ b] by (cases best) (auto split: if_splits)
  have old: "\<not> lt b' b" if "best = Some b'" for b'
  proof (cases "ok x \<and> lt x b'")
    case True
    with IH that have "\<not> lt x b" by simp
    moreover have "dom x" "dom b'" "dom b" using Cons.prems True that IH by auto
    ultimately show ?thesis using True trans by blast
  next
    case False
    with IH that show ?thesis by (auto split: if_splits)
  qed
  from IH new old show ?case by (auto split: if_splits)
qed

lemma keep_best_Some:
  assumes "\<And>x. x \<in> set xs \<Longrightarrow> ok x \<Longrightarrow> dom x" and "keep_best ok lt None xs = Some b"
  shows "b \<in> set xs" and "ok b" and "\<And>x. \<lbrakk>x \<in> set xs; ok x\<rbrakk> \<Longrightarrow> \<not> lt x b"
  using keep_best_invariant [of xs ok None b] assms by auto

end

lemma keep_best_None: "keep_best ok better best xs = None \<longleftrightarrow> best = None \<and> (\<forall>x \<in> set xs. \<not> ok x)"
  by (induction xs arbitrary: best) (auto split: option.splits)

locale three_way =
  fixes cmp :: "'a \<Rightarrow> 'a \<Rightarrow> int"
    and dom :: "'a \<Rightarrow> bool"
  assumes cmp_anti: "\<lbrakk>dom x; dom y\<rbrakk> \<Longrightarrow> cmp y x = - cmp x y"
    and cmp_trans: "\<lbrakk>dom x; dom y; dom z; cmp x y \<le> 0; cmp y z \<le> 0\<rbrakk> \<Longrightarrow> cmp x z \<le> 0"
begin

lemma cmp_refl: "dom x \<Longrightarrow> cmp x x = 0"
  using cmp_anti [of x x] by simp

lemma cmp_trans_less: "\<lbrakk>dom x; dom y; dom z; cmp x y < 0; cmp y z \<le> 0\<rbrakk> \<Longrightarrow> cmp x z < 0"
  using cmp_trans [of x y z] cmp_trans [of y z x] cmp_anti [of x y] cmp_anti [of x z]
  by (smt (verit))

end

text \<open>A comparison gives a \<open>less\<close> function in either direction.\<close>

sublocale three_way \<subseteq> asc: strict_weak "\<lambda>x y. cmp x y < 0" dom
proof unfold_locales
  show "\<not> cmp x x < 0" if "dom x" for x
    using that cmp_refl by simp
  show "cmp x z < 0" if "dom x" "dom y" "dom z" "cmp x y < 0" "cmp y z < 0" for x y z
    using that cmp_trans_less [of x y z] by simp
  show "cmp x y < 0 \<or> cmp y z < 0" if "dom x" "dom y" "dom z" "cmp x z < 0" for x y z
    using that cmp_trans [of z y x] cmp_anti [of x y] cmp_anti [of y z] cmp_anti [of x z] by force
qed

sublocale three_way \<subseteq> desc: strict_weak "\<lambda>x y. 0 < cmp x y" dom
proof unfold_locales
  show "\<not> 0 < cmp x x" if "dom x" for x
    using that cmp_refl by simp
  show "0 < cmp x z" if "dom x" "dom y" "dom z" "0 < cmp x y" "0 < cmp y z" for x y z
    using that cmp_trans_less [of z y x] cmp_anti [of x y] cmp_anti [of y z] cmp_anti [of x z] by simp
  show "0 < cmp x y \<or> 0 < cmp y z" if "dom x" "dom y" "dom z" "0 < cmp x z" for x y z
    using that cmp_trans [of x y z] by force
qed

subsection \<open>Building comparisons\<close>

text \<open>The difference of two non-negative \<open>int\<close>s does not wrap.\<close>

definition go_count :: "int \<Rightarrow> bool" where
  "go_count x \<longleftrightarrow> 0 \<le> x \<and> x < 2 ^ 63"

lemma go_count_in_int64: "go_count x \<Longrightarrow> in_int64 x"
  by (simp add: go_count_def in_int64_def)

lemma wrap64_diff: "go_count x \<Longrightarrow> go_count y \<Longrightarrow> wrap64 (x - y) = x - y"
  by (rule wrap64_id) (simp add: in_int64_def go_count_def)

definition int_cmp :: "int \<Rightarrow> int \<Rightarrow> int" where
  "int_cmp x y = sign_of (wrap64 (x - y))"

lemma int_cmp_eq: "go_count x \<Longrightarrow> go_count y \<Longrightarrow> int_cmp x y = sign_of (x - y)"
  by (simp only: int_cmp_def wrap64_diff)

interpretation int_order: three_way int_cmp go_count
proof unfold_locales
  show "int_cmp y x = - int_cmp x y" if "go_count x" "go_count y" for x y
    using that sign_of_minus [of "x - y"] by (simp only: int_cmp_eq) (simp add: sign_of_def)
  show "int_cmp x z \<le> 0"
    if "go_count x" "go_count y" "go_count z" "int_cmp x y \<le> 0" "int_cmp y z \<le> 0" for x y z
    using that by (simp only: int_cmp_eq) simp
qed

text \<open>\<open>strings.Compare\<close>.\<close>

definition CompareStr :: "string \<Rightarrow> string \<Rightarrow> int" where
  "CompareStr a b = (if a = b then 0 else if a < b then -1 else 1)"

interpretation str_order: three_way CompareStr "\<lambda>_. True"
  by unfold_locales (auto simp: CompareStr_def split: if_splits)

lemma CompareStr_eq_0 [simp]: "CompareStr a b = 0 \<longleftrightarrow> a = b"
  by (simp add: CompareStr_def)

text \<open>Compare by one key and, where it ties, by another.\<close>

lemma three_way_then:
  assumes "three_way c1 d1" and "three_way c2 d2"
  shows "three_way (\<lambda>x y. if c1 (f x) (f y) \<noteq> 0 then c1 (f x) (f y) else c2 (g x) (g y))
           (\<lambda>x. d1 (f x) \<and> d2 (g x))"
proof unfold_locales
  fix x y assume "d1 (f x) \<and> d2 (g x)" "d1 (f y) \<and> d2 (g y)"
  then show "(if c1 (f y) (f x) \<noteq> 0 then c1 (f y) (f x) else c2 (g y) (g x)) =
      - (if c1 (f x) (f y) \<noteq> 0 then c1 (f x) (f y) else c2 (g x) (g y))"
    using three_way.cmp_anti [OF assms(1), of "f x" "f y"] three_way.cmp_anti [OF assms(2), of "g x" "g y"]
    by auto
next
  fix x y z
  assume d: "d1 (f x) \<and> d2 (g x)" "d1 (f y) \<and> d2 (g y)" "d1 (f z) \<and> d2 (g z)"
    and xy: "(if c1 (f x) (f y) \<noteq> 0 then c1 (f x) (f y) else c2 (g x) (g y)) \<le> 0"
    and yz: "(if c1 (f y) (f z) \<noteq> 0 then c1 (f y) (f z) else c2 (g y) (g z)) \<le> 0"
  have le1: "c1 (f x) (f y) \<le> 0" "c1 (f y) (f z) \<le> 0"
    using xy yz by (auto split: if_splits)
  then have le: "c1 (f x) (f z) \<le> 0" using three_way.cmp_trans [OF assms(1)] d by blast
  show "(if c1 (f x) (f z) \<noteq> 0 then c1 (f x) (f z) else c2 (g x) (g z)) \<le> 0"
  proof (cases "c1 (f x) (f z) = 0")
    case True
    have "c1 (f z) (f y) \<le> 0" "c1 (f y) (f x) \<le> 0"
      using True le1 d three_way.cmp_trans [OF assms(1), of "f z" "f x" "f y"]
        three_way.cmp_trans [OF assms(1), of "f y" "f z" "f x"]
        three_way.cmp_anti [OF assms(1), of "f x" "f z"] by auto
    then have "c1 (f x) (f y) = 0" "c1 (f y) (f z) = 0"
      using le1 d three_way.cmp_anti [OF assms(1), of "f y" "f z"]
        three_way.cmp_anti [OF assms(1), of "f x" "f y"] by auto
    with xy yz d True show ?thesis
      using three_way.cmp_trans [OF assms(2), of "g x" "g y" "g z"] by simp
  qed (use le in simp)
qed

text \<open>Compare lists element by element; a proper prefix comes first.\<close>

fun lex_cmp :: "('a \<Rightarrow> 'a \<Rightarrow> int) \<Rightarrow> 'a list \<Rightarrow> 'a list \<Rightarrow> int" where
  "lex_cmp c [] [] = 0"
| "lex_cmp c [] (y # ys) = -1"
| "lex_cmp c (x # xs) [] = 1"
| "lex_cmp c (x # xs) (y # ys) = (if c x y \<noteq> 0 then c x y else lex_cmp c xs ys)"

context three_way
begin

lemma eq_trans: "\<lbrakk>dom x; dom y; dom z; cmp x y \<le> 0; cmp y z \<le> 0; cmp x z = 0\<rbrakk> \<Longrightarrow> cmp x y = 0 \<and> cmp y z = 0"
  using cmp_trans [of z x y] cmp_trans [of y z x] cmp_anti [of x z] cmp_anti [of y z] cmp_anti [of x y]
  by force

lemma lex_cmp_anti: "list_all dom xs \<Longrightarrow> list_all dom ys \<Longrightarrow> lex_cmp cmp ys xs = - lex_cmp cmp xs ys"
proof (induction xs arbitrary: ys)
  case Nil
  then show ?case by (cases ys) auto
next
  case step: (Cons x xs)
  show ?case
  proof (cases ys)
    case (Cons y us)
    with step.IH [of us] step.prems cmp_anti [of x y] show ?thesis by simp
  qed simp
qed

lemma lex_cmp_trans:
  "\<lbrakk>list_all dom xs; list_all dom ys; list_all dom zs; lex_cmp cmp xs ys \<le> 0; lex_cmp cmp ys zs \<le> 0\<rbrakk>
   \<Longrightarrow> lex_cmp cmp xs zs \<le> 0"
proof (induction xs arbitrary: ys zs)
  case Nil
  then show ?case by (cases ys; cases zs) auto
next
  case (Cons x xs)
  from Cons.prems obtain y us where ys: "ys = y # us" by (cases ys) auto
  with Cons.prems obtain z vs where zs: "zs = z # vs" by (cases zs) auto
  have "cmp x y \<le> 0" "cmp y z \<le> 0"
    using Cons.prems ys zs by (auto split: if_splits)
  then have "cmp x z \<le> 0" "cmp x z = 0 \<Longrightarrow> cmp x y = 0 \<and> cmp y z = 0"
    using Cons.prems ys zs cmp_trans [of x y z] eq_trans [of x y z] by auto
  moreover have "lex_cmp cmp xs vs \<le> 0" if "cmp x y = 0" "cmp y z = 0"
    using Cons.prems Cons.IH [of us vs] ys zs that by simp
  ultimately show ?case by (simp add: zs)
qed

lemma three_way_lex: "three_way (lex_cmp cmp) (list_all dom)"
  using lex_cmp_anti lex_cmp_trans by unfold_locales blast+

end

lemma sorted_mset_unique:
  assumes "\<And>a b. P a b \<Longrightarrow> P b a \<Longrightarrow> a = b"
  shows "sorted_wrt P xs \<Longrightarrow> sorted_wrt P ys \<Longrightarrow> mset xs = mset ys \<Longrightarrow> xs = ys"
proof (induction xs arbitrary: ys)
  case (Cons x xs)
  obtain y us where ys: "ys = y # us" using Cons.prems(3) by (cases ys) auto
  have "x = y"
  proof (rule ccontr)
    assume ne: "x \<noteq> y"
    have "set (x # xs) = set (y # us)" using Cons.prems(3) ys mset_eq_setD by blast
    then have "x \<in> set us" "y \<in> set xs" using ne by auto
    then have "P y x" "P x y" using Cons.prems(1,2) ys by auto
    then show False using assms ne by blast
  qed
  then show ?case using Cons ys by simp
qed simp

lemma find_map: "find P (map f xs) = map_option f (find (\<lambda>x. P (f x)) xs)"
  by (induction xs) auto

end
