(* ===== verification/Semver.thy ===== *)
theory Semver
  imports Go_Prelude
begin

text \<open>
  Semantic versions and version series: \<^verbatim>\<open>internal/services/versioning/semver.go\<close> and the tag
  templates of \<^verbatim>\<open>render.go\<close>. The lemmas show that \<open>Compare\<close> is a total preorder (an interpretation
  of \<open>three_way\<close>), that versions and series survive printing and parsing, and that a bump the
  series allows moves a version forward on it.

  An error is the sentinel the source wraps; the text formatted around it is not kept.
\<close>

datatype version_error =
    ErrInvalidVersion
  | ErrInvalidSeries
  | ErrInvalidTag
  | ErrInvalidSettings
  | ErrBumpOutsideSeries
  | ErrOutsideSeries
  | ErrNotGreater
  | ErrVersionTaken
  | ErrOverrideNotSupported

section \<open>Versions\<close>

record Version =
  Major :: int
  Minor :: int
  Patch :: int
  Pre :: string

definition parse_part :: "string \<Rightarrow> int option" where
  "parse_part p =
     (case Atoi p of
        None \<Rightarrow> None
      | Some v \<Rightarrow> if v < 0 \<or> (length p > 1 \<and> hd p = CHR ''0'') then None else Some v)"

definition ParseVersion :: "string \<Rightarrow> version_error + Version" where
  "ParseVersion s0 =
     (let s = TrimPrefix (TrimSpace s0) ''v'';
          (core, pre, _) = CutChar s CHR ''-''
      in case SplitChar core CHR ''.'' of
           [a, b, c] \<Rightarrow>
             (case (parse_part a, parse_part b, parse_part c) of
                (Some x, Some y, Some z) \<Rightarrow> Inr \<lparr>Major = x, Minor = y, Patch = z, Pre = pre\<rparr>
              | _ \<Rightarrow> Inl ErrInvalidVersion)
         | _ \<Rightarrow> Inl ErrInvalidVersion)"

definition Version_String :: "Version \<Rightarrow> string" where
  "Version_String v =
     (let s = Itoa (Major v) @ ''.'' @ Itoa (Minor v) @ ''.'' @ Itoa (Patch v)
      in if Pre v \<noteq> [] then s @ ''-'' @ Pre v else s)"

definition Core :: "Version \<Rightarrow> Version" where
  "Core v = v\<lparr>Pre := []\<rparr>"

fun comparePre_loop :: "string list \<Rightarrow> string list \<Rightarrow> int option" where
  "comparePre_loop (a # as) (b # bs) =
     (case (Atoi a, Atoi b) of
        (Some an, Some bn) \<Rightarrow>
          if an \<noteq> bn then Some (sign_of (wrap64 (an - bn))) else comparePre_loop as bs
      | (Some _, None) \<Rightarrow> Some (-1)
      | (None, Some _) \<Rightarrow> Some 1
      | (None, None) \<Rightarrow>
          (let c = CompareStr a b in if c \<noteq> 0 then Some c else comparePre_loop as bs))"
| "comparePre_loop _ _ = None"

definition comparePre :: "string \<Rightarrow> string \<Rightarrow> int" where
  "comparePre a b =
     (let as = SplitChar a CHR ''.''; bs = SplitChar b CHR ''.''
      in case comparePre_loop as bs of
           Some c \<Rightarrow> c
         | None \<Rightarrow> sign_of (int (length as) - int (length bs)))"

definition Compare :: "Version \<Rightarrow> Version \<Rightarrow> int" where
  "Compare v w =
     (case filter (\<lambda>d. d \<noteq> 0)
             [wrap64 (Major v - Major w), wrap64 (Minor v - Minor w), wrap64 (Patch v - Patch w)] of
        d # _ \<Rightarrow> sign_of d
      | [] \<Rightarrow> if Pre v = Pre w then 0
             else if Pre v = [] then 1
             else if Pre w = [] then -1
             else comparePre (Pre v) (Pre w))"

text \<open>\<open>VersionBump\<close> is a Go string type; any string may arrive from a request.\<close>

type_synonym VersionBump = string

abbreviation BumpPatch :: VersionBump where "BumpPatch \<equiv> ''patch''"
abbreviation BumpMinor :: VersionBump where "BumpMinor \<equiv> ''minor''"
abbreviation BumpMajor :: VersionBump where "BumpMajor \<equiv> ''major''"

definition Bump :: "Version \<Rightarrow> VersionBump \<Rightarrow> Version" where
  "Bump v b =
     (if b = BumpMajor then \<lparr>Major = wrap64 (Major v + 1), Minor = 0, Patch = 0, Pre = []\<rparr>
      else if b = BumpMinor then \<lparr>Major = Major v, Minor = wrap64 (Minor v + 1), Patch = 0, Pre = []\<rparr>
      else \<lparr>Major = Major v, Minor = Minor v, Patch = wrap64 (Patch v + 1), Pre = []\<rparr>)"

definition ValidBump :: "VersionBump \<Rightarrow> bool" where
  "ValidBump b = (b = BumpPatch \<or> b = BumpMinor \<or> b = BumpMajor)"

definition bumpRank :: "VersionBump \<Rightarrow> int" where
  "bumpRank b = (if b = BumpMajor then 2 else if b = BumpMinor then 1 else 0)"

section \<open>Series\<close>

record Series =
  raw :: string
  fixed :: "int list"

text \<open>The loop of \<open>ParseSeries\<close>: \<open>opn\<close> records that an \<open>x\<close> was seen.\<close>

fun series_loop :: "string list \<Rightarrow> bool \<Rightarrow> int list \<Rightarrow> int list option" where
  "series_loop [] opn fx = Some fx"
| "series_loop (p # ps) opn fx =
     (if p = ''x'' \<or> p = ''*'' then series_loop ps True fx
      else (case Atoi p of
              None \<Rightarrow> None
            | Some n \<Rightarrow> if n < 0 \<or> opn then None else series_loop ps opn (fx @ [n])))"

definition seriesString :: "int list \<Rightarrow> string" where
  "seriesString fx = JoinStr (map Itoa fx @ replicate (3 - length fx) ''x'') ''.''"

definition ParseSeries :: "string \<Rightarrow> version_error + Series" where
  "ParseSeries s0 =
     (let parts = SplitChar (ToLower (TrimPrefix (TrimSpace s0) ''v'')) CHR ''.''
      in if length parts \<noteq> 3 then Inl ErrInvalidSeries
         else (case series_loop parts False [] of
                 None \<Rightarrow> Inl ErrInvalidSeries
               | Some fx \<Rightarrow> if length fx = 3 then Inl ErrInvalidSeries
                           else Inr \<lparr>raw = seriesString fx, fixed = fx\<rparr>))"

text \<open>\<open>fixed\<close> has at most two entries (\<open>ParseSeries\<close> is its only constructor), so no index panics.\<close>

definition Contains :: "Series \<Rightarrow> Version \<Rightarrow> bool" where
  "Contains s v = (\<forall>(c, n) \<in> set (zip [Major v, Minor v, Patch v] (fixed s)). c = n)"

definition Allows :: "Series \<Rightarrow> VersionBump \<Rightarrow> bool" where
  "Allows s b =
     (if b = BumpMajor then length (fixed s) = 0
      else if b = BumpMinor then length (fixed s) \<le> 1
      else True)"

definition Clamp :: "Series \<Rightarrow> VersionBump \<Rightarrow> VersionBump" where
  "Clamp s b =
     (case filter (\<lambda>c. bumpRank c \<le> bumpRank b \<and> Allows s c) [b, BumpMinor, BumpPatch] of
        c # _ \<Rightarrow> c
      | [] \<Rightarrow> BumpPatch)"

definition First :: "Series \<Rightarrow> string \<Rightarrow> Version" where
  "First s start =
     (let dflt = (let n = fixed s @ replicate (3 - length (fixed s)) 0;
                      n = (if length (fixed s) = 0 then n[0 := 1] else n)
                  in \<lparr>Major = n ! 0, Minor = n ! 1, Patch = n ! 2, Pre = []\<rparr>)
      in case ParseVersion start of
           Inl _ \<Rightarrow> dflt
         | Inr v \<Rightarrow> if Pre v = [] \<and> Contains s v then v else dflt)"

section \<open>Tags\<close>

record tagVars =
  tv_version :: string
  tv_major :: string
  tv_minor :: string
  tv_patch :: string
  tv_sha :: string

definition DefaultTemplate :: string where
  "DefaultTemplate = ''v{version}''"

definition shortSHA :: "string \<Rightarrow> string" where
  "shortSHA commit = (if length commit > 7 then take 7 commit else commit)"

definition semverVars :: "Version \<Rightarrow> string \<Rightarrow> tagVars" where
  "semverVars v commit =
     \<lparr>tv_version = Version_String v, tv_major = Itoa (Major v), tv_minor = Itoa (Minor v),
      tv_patch = Itoa (Patch v), tv_sha = shortSHA commit\<rparr>"

text \<open>\<open>strings.NewReplacer\<close>: at each position the first key that matches is replaced, and
  the scan goes on after it. The keys are not prefixes of one another.\<close>

fun replacer :: "nat \<Rightarrow> (string \<times> string) list \<Rightarrow> string \<Rightarrow> string" where
  "replacer 0 kvs s = s"
| "replacer (Suc n) kvs [] = []"
| "replacer (Suc n) kvs (c # cs) =
     (case filter (\<lambda>(k, _). HasPrefix (c # cs) k) kvs of
        [] \<Rightarrow> c # replacer n kvs cs
      | (k, v) # _ \<Rightarrow> v @ replacer n kvs (drop (length k) (c # cs)))"

definition render :: "string \<Rightarrow> tagVars \<Rightarrow> string" where
  "render tmpl v =
     replacer (length tmpl)
       [(''{version}'', tv_version v), (''{major}'', tv_major v), (''{minor}'', tv_minor v),
        (''{patch}'', tv_patch v), (''{sha}'', tv_sha v)] tmpl"

text \<open>The tag grammar \<^verbatim>\<open>^[A-Za-z0-9_][A-Za-z0-9_.-]{0,127}$\<close>.\<close>

definition tag_first :: "char \<Rightarrow> bool" where
  "tag_first c = (is_alpha c \<or> is_digit c \<or> c = CHR ''_'')"

definition dockerTag :: "string \<Rightarrow> bool" where
  "dockerTag s =
     (case s of [] \<Rightarrow> False
      | c # cs \<Rightarrow> tag_first c \<and> length cs \<le> 127 \<and>
                 list_all (\<lambda>x. tag_first x \<or> x = CHR ''.'' \<or> x = CHR ''-'') cs)"

definition RenderTag :: "string \<Rightarrow> tagVars \<Rightarrow> version_error + string" where
  "RenderTag tmpl v = (let tag = render tmpl v in if dockerTag tag then Inr tag else Inl ErrInvalidTag)"

definition validateTemplate :: "string \<Rightarrow> version_error option" where
  "validateTemplate tmpl =
     (if \<not> ContainsStr tmpl ''{version}'' then Some ErrInvalidTag
      else (case RenderTag tmpl \<lparr>tv_version = ''1.0.0-x.1'', tv_major = ''1'', tv_minor = ''0'',
                                 tv_patch = ''0'', tv_sha = ''abcdef0''\<rparr> of
              Inl e \<Rightarrow> Some e | Inr _ \<Rightarrow> None))"

fun validateFloating :: "string list \<Rightarrow> version_error option" where
  "validateFloating [] = None"
| "validateFloating (t # ts) =
     (if ContainsStr t ''{version}'' \<or> ContainsStr t ''{patch}'' \<or> ContainsStr t ''{sha}''
      then Some ErrInvalidTag
      else if HasPrefix t ''run-'' \<or> HasPrefix t ''cache-'' then Some ErrInvalidTag
      else (case RenderTag t \<lparr>tv_version = [], tv_major = ''1'', tv_minor = ''0'', tv_patch = [], tv_sha = []\<rparr> of
              Inl e \<Rightarrow> Some e
            | Inr _ \<Rightarrow> validateFloating ts))"

text \<open>
  \<open>prereleaseBranch\<close>. The source walks runes; a multi-byte rune becomes one dash there and a run of
  dashes here, which the next step collapses. (The Kelvin sign and the dotted capital I, which Go
  folds to ASCII letters, are the two runes on which the byte model differs.)
\<close>

text \<open>\<open>strings.ReplaceAll(s, "--", "-")\<close>, one left-to-right pass over disjoint matches.\<close>

fun dash_pass :: "string \<Rightarrow> string" where
  "dash_pass (a # b # cs) =
     (if a = CHR ''-'' \<and> b = CHR ''-'' then CHR ''-'' # dash_pass cs else a # dash_pass (b # cs))"
| "dash_pass s = s"

text \<open>The loop \<open>for strings.Contains(s, "--")\<close>; each pass that changes the string shortens it, so
  its length is enough fuel.\<close>

fun collapse_dashes :: "nat \<Rightarrow> string \<Rightarrow> string" where
  "collapse_dashes 0 s = s"
| "collapse_dashes (Suc n) s = (if ContainsStr s ''--'' then collapse_dashes n (dash_pass s) else s)"

definition maxBranchPart :: nat where
  "maxBranchPart = 40"

definition branch_char :: "char \<Rightarrow> char" where
  "branch_char c = (if (is_alpha c \<and> lower_char c = c) \<or> is_digit c then c else CHR ''-'')"

definition prereleaseBranch :: "string \<Rightarrow> string" where
  "prereleaseBranch branch =
     (let b = map branch_char (ToLower (TrimSpace branch));
          s = TrimChar b CHR ''-'';
          s = collapse_dashes (length s) s;
          s = (if length s > maxBranchPart then TrimRightChar (take maxBranchPart s) CHR ''-'' else s)
      in if s = [] then ''branch'' else s)"

section \<open>Conventional commits\<close>

text \<open>
  The header \<^verbatim>\<open>^([a-zA-Z]+)(\([^)]*\))?(!)?:\<close>: the type word and whether the bang is there. The
  letters, the parenthesis and the bang are disjoint, so no backtracking is needed.
\<close>

definition conventionalHeader :: "string \<Rightarrow> (string \<times> bool) option" where
  "conventionalHeader subject =
     (let w = takeWhile is_alpha subject;
          r = dropWhile is_alpha subject;
          r = (case r of
                 c # cs \<Rightarrow> if c = CHR ''('' then
                            (case dropWhile (\<lambda>x. x \<noteq> CHR '')'') cs of [] \<Rightarrow> None | _ # ds \<Rightarrow> Some ds)
                          else Some r
               | [] \<Rightarrow> Some [])
      in if w = [] then None
         else (case r of
                 None \<Rightarrow> None
               | Some t \<Rightarrow>
                   (case t of
                      c # d # _ \<Rightarrow> if c = CHR ''!'' \<and> d = CHR '':'' then Some (w, True)
                                  else if c = CHR '':'' then Some (w, False) else None
                    | [c] \<Rightarrow> if c = CHR '':'' then Some (w, False) else None
                    | [] \<Rightarrow> None)))"

definition BumpFromCommit :: "string \<Rightarrow> VersionBump option" where
  "BumpFromCommit msg0 =
     (let msg = TrimSpace msg0;
          (subject, body, _) = CutChar msg (char_of (10 :: nat))
      in case conventionalHeader subject of
           None \<Rightarrow> None
         | Some (w, bang) \<Rightarrow>
             if bang \<or> ContainsStr body ''BREAKING CHANGE'' \<or> ContainsStr body ''BREAKING-CHANGE''
             then Some BumpMajor
             else if ToLower w = ''feat'' then Some BumpMinor
             else Some BumpPatch)"

section \<open>\<open>Compare\<close> is a total preorder\<close>

definition id_ok :: "string \<Rightarrow> bool" where
  "id_ok i = (case Atoi i of Some n \<Rightarrow> 0 \<le> n | None \<Rightarrow> True)"

definition version_ok :: "Version \<Rightarrow> bool" where
  "version_ok v \<longleftrightarrow> go_count (Major v) \<and> go_count (Minor v) \<and> go_count (Patch v) \<and>
     list_all id_ok (SplitChar (Pre v) CHR ''.'')"

definition id_cmp :: "string \<Rightarrow> string \<Rightarrow> int" where
  "id_cmp a b =
     (case (Atoi a, Atoi b) of
        (Some x, Some y) \<Rightarrow> int_cmp x y
      | (Some _, None) \<Rightarrow> -1
      | (None, Some _) \<Rightarrow> 1
      | (None, None) \<Rightarrow> CompareStr a b)"

lemma Atoi_in_int64: "Atoi s = Some n \<Longrightarrow> in_int64 n"
  by (auto simp: Atoi_def split: if_splits option.splits)

lemma id_ok_go_count: "id_ok i \<Longrightarrow> Atoi i = Some n \<Longrightarrow> go_count n"
  using Atoi_in_int64 [of i n] by (simp add: id_ok_def in_int64_def go_count_def)

interpretation id_order: three_way id_cmp id_ok
proof unfold_locales
  show "id_cmp y x = - id_cmp x y" if "id_ok x" "id_ok y" for x y
    using that str_order.cmp_anti [of x y]
    by (auto simp: id_cmp_def split: option.splits intro!: int_order.cmp_anti dest: id_ok_go_count)
  show "id_cmp x z \<le> 0"
    if "id_ok x" "id_ok y" "id_ok z" "id_cmp x y \<le> 0" "id_cmp y z \<le> 0" for x y z
  proof (cases "Atoi x"; cases "Atoi y"; cases "Atoi z")
    fix a b c assume "Atoi x = Some a" "Atoi y = Some b" "Atoi z = Some c"
    with that show ?thesis using int_order.cmp_trans [of a b c]
      by (simp add: id_cmp_def id_ok_go_count)
  qed (use that str_order.cmp_trans [of x y z] in \<open>simp_all add: id_cmp_def\<close>)
qed

lemma int_cmp_0: "go_count x \<Longrightarrow> go_count y \<Longrightarrow> int_cmp x y = 0 \<longleftrightarrow> x = y"
  by (simp add: int_cmp_eq)

lemma comparePre_loop_lex:
  assumes "list_all id_ok as" and "list_all id_ok bs"
  shows "(case comparePre_loop as bs of Some c \<Rightarrow> c | None \<Rightarrow> sign_of (int (length as) - int (length bs))) =
         lex_cmp id_cmp as bs"
  using assms
proof (induction as arbitrary: bs)
  case Nil
  then show ?case by (cases bs) (simp_all add: sign_of_def)
next
  case step: (Cons a as)
  show ?case
  proof (cases bs)
    case (Cons b bs')
    have eq: "int_cmp x y = 0 \<longleftrightarrow> x = y" if "Atoi a = Some x" "Atoi b = Some y" for x y
      using step.prems that Cons by (intro int_cmp_0) (auto dest: id_ok_go_count)
    have "id_cmp a b = (case (Atoi a, Atoi b) of (Some x, Some y) \<Rightarrow> int_cmp x y | (Some _, None) \<Rightarrow> -1
        | (None, Some _) \<Rightarrow> 1 | (None, None) \<Rightarrow> CompareStr a b)"
      by (rule id_cmp_def)
    with step.IH [of bs'] step.prems Cons eq show ?thesis
      by (cases "Atoi a"; cases "Atoi b") (simp_all add: int_cmp_def [symmetric] cong: option.case_cong)
  qed (simp add: sign_of_def)
qed

lemma comparePre_lex:
  "list_all id_ok (SplitChar a CHR ''.'') \<Longrightarrow> list_all id_ok (SplitChar b CHR ''.'') \<Longrightarrow>
   comparePre a b = lex_cmp id_cmp (SplitChar a CHR ''.'') (SplitChar b CHR ''.'')"
  using comparePre_loop_lex by (simp add: comparePre_def)

text \<open>A release sorts after its prereleases.\<close>

definition release_cmp :: "string \<Rightarrow> string \<Rightarrow> int" where
  "release_cmp a b = (if (a = []) = (b = []) then 0 else if a = [] then 1 else -1)"

interpretation release_order: three_way release_cmp "\<lambda>_. True"
  by unfold_locales (auto simp: release_cmp_def split: if_splits)

lemma Compare_nested:
  assumes "version_ok v" and "version_ok w"
  shows "Compare v w =
    (if int_cmp (Major v) (Major w) \<noteq> 0 then int_cmp (Major v) (Major w)
     else if int_cmp (Minor v) (Minor w) \<noteq> 0 then int_cmp (Minor v) (Minor w)
     else if int_cmp (Patch v) (Patch w) \<noteq> 0 then int_cmp (Patch v) (Patch w)
     else if release_cmp (Pre v) (Pre w) \<noteq> 0 then release_cmp (Pre v) (Pre w)
     else lex_cmp id_cmp (SplitChar (Pre v) CHR ''.'') (SplitChar (Pre w) CHR ''.''))"
proof -
  have refl: "lex_cmp id_cmp xs xs = 0" if "list_all id_ok xs" for xs
    using that id_order.cmp_refl by (induction xs) simp_all
  have "comparePre (Pre v) (Pre w) =
      lex_cmp id_cmp (SplitChar (Pre v) CHR ''.'') (SplitChar (Pre w) CHR ''.'')"
    using assms by (intro comparePre_lex) (simp_all add: version_ok_def)
  moreover have "lex_cmp id_cmp (SplitChar (Pre v) CHR ''.'') (SplitChar (Pre v) CHR ''.'') = 0"
    using assms(1) by (intro refl) (simp add: version_ok_def)
  ultimately show ?thesis
    by (auto simp: Compare_def int_cmp_def release_cmp_def)
qed

interpretation version_order: three_way Compare version_ok
proof -
  have lex: "three_way (lex_cmp id_cmp) (list_all id_ok)"
    by (rule id_order.three_way_lex)
  have pre: "three_way (\<lambda>x y. if release_cmp x y \<noteq> 0 then release_cmp x y
      else lex_cmp id_cmp (SplitChar x CHR ''.'') (SplitChar y CHR ''.''))
      (\<lambda>x. True \<and> list_all id_ok (SplitChar x CHR ''.''))"
    by (rule three_way_then [OF release_order.three_way_axioms lex, where f = "\<lambda>x. x"])
  note int = int_order.three_way_axioms
  note nested = three_way_then [OF int three_way_then [OF int three_way_then [OF int pre,
      where f = Patch and g = Pre], where f = Minor and g = "\<lambda>v. v"], where f = Major and g = "\<lambda>v. v"]
  show "three_way Compare version_ok"
    using nested unfolding three_way_def by (simp add: Compare_nested version_ok_def)
qed


section \<open>Bumps and series\<close>

definition series_ok :: "Series \<Rightarrow> bool" where
  "series_ok s \<longleftrightarrow> length (fixed s) \<le> 2 \<and> list_all go_count (fixed s) \<and> raw s = seriesString (fixed s)"

text \<open>The largest \<open>int\<close> is the one component a bump cannot increase.\<close>

definition max_int64 :: int where
  "max_int64 = 2 ^ 63 - 1"

definition bumpable :: "Version \<Rightarrow> bool" where
  "bumpable v \<longleftrightarrow> version_ok v \<and> Major v < max_int64 \<and> Minor v < max_int64 \<and> Patch v < max_int64"

lemma wrap64_Suc: "go_count x \<Longrightarrow> x < max_int64 \<Longrightarrow> wrap64 (x + 1) = x + 1 \<and> go_count (x + 1)"
  by (simp add: go_count_def max_int64_def in_int64_def)

lemma go_count_0 [simp]: "go_count 0" "go_count 1"
  by (simp_all add: go_count_def)

lemma id_ok_Nil [simp]: "id_ok []"
  by (simp add: id_ok_def Atoi_def parse_int_def)

lemma int_cmp_less: "go_count x \<Longrightarrow> go_count y \<Longrightarrow> int_cmp x y < 0 \<longleftrightarrow> x < y"
  "go_count x \<Longrightarrow> go_count y \<Longrightarrow> 0 < int_cmp x y \<longleftrightarrow> y < x"
  by (simp_all add: int_cmp_eq)

lemma Bump_ok: "bumpable v \<Longrightarrow> version_ok (Bump v b)"
  by (auto simp: bumpable_def version_ok_def Bump_def wrap64_Suc)

lemma Bump_Pre [simp]: "Pre (Bump v b) = []"
  by (simp add: Bump_def)

lemma Bump_greater:
  assumes "bumpable v"
  shows "Compare (Bump v b) v > 0"
proof -
  have "Compare (Bump v b) v =
    (if b = BumpMajor then int_cmp (Major v + 1) (Major v)
     else if b = BumpMinor then int_cmp (Minor v + 1) (Minor v) else int_cmp (Patch v + 1) (Patch v))"
    using assms Bump_ok [OF assms, of b]
    by (simp add: Compare_nested bumpable_def version_ok_def Bump_def wrap64_Suc int_cmp_0)
  with assms show ?thesis
    by (auto simp: int_cmp_less wrap64_Suc bumpable_def version_ok_def)
qed

lemma Contains_cases:
  assumes "length (fixed s) \<le> 2"
  shows "Contains s v \<longleftrightarrow>
    (case fixed s of [] \<Rightarrow> True | [a] \<Rightarrow> Major v = a | a # b # _ \<Rightarrow> Major v = a \<and> Minor v = b)"
  using assms by (auto simp: Contains_def split: list.splits)

text \<open>A bump the series allows keeps the version on the series.\<close>

lemma Contains_Bump:
  "series_ok s \<Longrightarrow> Contains s v \<Longrightarrow> Allows s b \<Longrightarrow> Contains s (Bump v b)"
  by (auto simp: series_ok_def Contains_cases Allows_def Bump_def split: list.splits if_splits)

lemma Clamp_allowed: "Allows s (Clamp s b) \<and> bumpRank (Clamp s b) \<le> bumpRank b"
  by (auto simp: Clamp_def Allows_def bumpRank_def)

lemma Clamp_greatest:
  "Allows s c \<Longrightarrow> bumpRank c \<le> bumpRank b \<Longrightarrow> bumpRank c \<le> bumpRank (Clamp s b)"
  by (auto simp: Clamp_def Allows_def bumpRank_def split: if_splits)

section \<open>Printing and parsing\<close>

definition pre_char :: "char \<Rightarrow> bool" where
  "pre_char c = (is_digit c \<or> is_alpha c \<or> c = CHR ''-'' \<or> c = CHR ''.'')"

definition printable :: "Version \<Rightarrow> bool" where
  "printable v \<longleftrightarrow> go_count (Major v) \<and> go_count (Minor v) \<and> go_count (Patch v) \<and> list_all pre_char (Pre v)"

lemma go_count_nonneg [simp]: "go_count x \<Longrightarrow> 0 \<le> x"
  by (simp add: go_count_def)

lemma go_count_not_neg [simp]: "go_count x \<Longrightarrow> \<not> x < 0"
  by (simp add: go_count_def)

lemma parse_part_Itoa: "go_count i \<Longrightarrow> parse_part (Itoa i) = Some i"
  using Itoa_no_leading_zero [of i]
  by (auto simp: parse_part_def Atoi_Itoa go_count_in_int64 go_count_def)

lemma Itoa_plain: "go_count i \<Longrightarrow> list_all plain_char (Itoa i)"
  using Itoa_digits [of i] by (auto simp: list_all_iff)

lemma Version_String_plain: "printable v \<Longrightarrow> list_all plain_char (Version_String v)"
  by (auto simp: Version_String_def printable_def Let_def Itoa_plain pre_char_def list_all_iff
      dest!: Itoa_plain)

lemma Itoa_Cons: "0 \<le> i \<Longrightarrow> \<exists>c cs. Itoa i = c # cs \<and> is_digit c"
  using Itoa_digits [of i] by (cases "Itoa i") auto

lemma not_digit [simp]: "\<not> is_digit CHR ''v''" "\<not> is_digit CHR ''-''" "\<not> is_digit CHR ''.''"
  "\<not> is_digit CHR ''x''" "\<not> is_digit CHR ''*''"
  by (simp_all add: is_digit_def)

lemma TrimPrefix_v_digits: "0 \<le> i \<Longrightarrow> TrimPrefix (Itoa i @ s) ''v'' = Itoa i @ s"
  using Itoa_Cons [of i] by (auto simp: TrimPrefix_def HasPrefix_def)

lemma Itoa_no_sep: "go_count i \<Longrightarrow> CHR ''-'' \<notin> set (Itoa i)" "go_count i \<Longrightarrow> CHR ''.'' \<notin> set (Itoa i)"
  using Itoa_no_char [of i] by auto

lemma ParseVersion_String:
  assumes "printable v"
  shows "ParseVersion (Version_String v) = Inr v"
proof -
  let ?core = "Itoa (Major v) @ ''.'' @ Itoa (Minor v) @ ''.'' @ Itoa (Patch v)"
  have gc: "go_count (Major v)" "go_count (Minor v)" "go_count (Patch v)"
    using assms by (simp_all add: printable_def)
  have "TrimPrefix (TrimSpace (Version_String v)) ''v'' = Version_String v"
    using gc TrimSpace_plain [OF Version_String_plain [OF assms]]
    by (simp add: Version_String_def Let_def TrimPrefix_v_digits)
  moreover have "CHR ''-'' \<notin> set ?core" using gc by (simp add: Itoa_no_sep)
  then have "\<exists>f. CutChar (Version_String v) CHR ''-'' = (?core, Pre v, f)"
    using CutChar_none [of "CHR ''-''" ?core] CutChar_append [of "CHR ''-''" ?core "Pre v"]
    by (auto simp: Version_String_def Let_def)
  moreover have "SplitChar ?core CHR ''.'' = [Itoa (Major v), Itoa (Minor v), Itoa (Patch v)]"
    using gc by (simp add: Itoa_no_sep SplitChar_append SplitChar_none)
  ultimately show ?thesis
    using gc by (auto simp: ParseVersion_def parse_part_Itoa)
qed

lemma parse_part_count: "parse_part p = Some n \<Longrightarrow> go_count n"
  by (auto simp: parse_part_def go_count_def in_int64_def dest!: Atoi_in_int64 split: option.splits if_splits)

lemma ParseVersion_counts:
  "ParseVersion s = Inr v \<Longrightarrow> go_count (Major v) \<and> go_count (Minor v) \<and> go_count (Patch v)"
  by (auto simp: ParseVersion_def Let_def dest!: parse_part_count
      split: prod.splits list.splits option.splits)

lemma ParseVersion_release_ok: "ParseVersion s = Inr v \<Longrightarrow> Pre v = [] \<Longrightarrow> version_ok v \<and> printable v"
  using ParseVersion_counts [of s v] by (simp add: version_ok_def printable_def)

lemma Version_String_inj:
  "printable v \<Longrightarrow> printable w \<Longrightarrow> Version_String v = Version_String w \<Longrightarrow> v = w"
  using ParseVersion_String by (metis sum.inject(2))

subsection \<open>Series\<close>

lemma series_loop_count:
  "series_loop ps opn fx = Some gx \<Longrightarrow> list_all go_count fx \<Longrightarrow>
   list_all go_count gx \<and> length gx \<le> length fx + length ps"
proof (induction ps opn fx rule: series_loop.induct)
  case (2 p ps opn fx)
  show ?case
  proof (cases "p = ''x'' \<or> p = ''*''")
    case True
    with 2 show ?thesis by auto
  next
    case False
    with 2 show ?thesis
      by (auto simp: go_count_def in_int64_def dest: Atoi_in_int64 split: option.splits if_splits)
  qed
qed simp

lemma ParseSeries_ok: "ParseSeries s = Inr ser \<Longrightarrow> series_ok ser"
  by (auto simp: ParseSeries_def Let_def series_ok_def dest!: series_loop_count
      split: option.splits if_splits)

lemma Itoa_not_x: "0 \<le> i \<Longrightarrow> Itoa i \<noteq> ''x'' \<and> Itoa i \<noteq> ''*''"
  using Itoa_Cons [of i] by auto

lemma ToLower_digits: "list_all is_digit s \<Longrightarrow> ToLower s = s"
  by (simp add: ToLower_def list_all_iff map_idI)

lemma ToLower_Itoa [simp]: "go_count i \<Longrightarrow> ToLower (Itoa i) = Itoa i"
  by (simp add: ToLower_digits Itoa_digits)

lemma ToLower_append [simp]: "ToLower (s @ t) = ToLower s @ ToLower t"
  by (simp add: ToLower_def)

lemma ToLower_lits: "ToLower [] = []" "ToLower (CHR ''x'' # s) = CHR ''x'' # ToLower s"
  "ToLower (CHR ''.'' # s) = CHR ''.'' # ToLower s"
  by (simp_all add: ToLower_def lower_char_def)

lemma series_cases:
  assumes "series_ok s"
  obtains "fixed s = []" "raw s = ''x.x.x''"
  | a where "fixed s = [a]" "go_count a" "raw s = Itoa a @ ''.x.x''"
  | a b where "fixed s = [a, b]" "go_count a" "go_count b" "raw s = Itoa a @ ''.'' @ Itoa b @ ''.x''"
proof -
  consider "fixed s = []" | a where "fixed s = [a]" | a b where "fixed s = [a, b]"
    using assms by (cases "fixed s" rule: remdups_adj.cases) (auto simp: series_ok_def)
  then show ?thesis
    using assms that by cases (auto simp: series_ok_def seriesString_def numeral_2_eq_2 numeral_3_eq_3)
qed

lemma TrimSpace_raw: "series_ok s \<Longrightarrow> TrimSpace (raw s) = raw s"
  by (rule TrimSpace_plain, erule series_cases)
     (auto simp: Itoa_plain plain_char_def)

lemma ParseSeries_raw:
  assumes "series_ok s"
  shows "ParseSeries (raw s) = Inr s"
  using assms
proof (cases rule: series_cases)
  case 1
  then have s: "s = \<lparr>raw = ''x.x.x'', fixed = []\<rparr>" by simp
  show ?thesis unfolding s by code_simp
next
  case (2 a)
  have "SplitChar (ToLower (TrimPrefix (TrimSpace (raw s)) ''v'')) CHR ''.'' = [Itoa a, ''x'', ''x'']"
    using 2(2,3) TrimSpace_raw [OF assms] by (simp add: TrimPrefix_v_digits ToLower_lits SplitChar_append Itoa_no_sep)
  with 2 show ?thesis using assms
    by (simp add: ParseSeries_def Atoi_Itoa go_count_in_int64 Itoa_not_x series_ok_def)
next
  case (3 a b)
  have "SplitChar (ToLower (TrimPrefix (TrimSpace (raw s)) ''v'')) CHR ''.'' = [Itoa a, Itoa b, ''x'']"
    using 3(2-4) TrimSpace_raw [OF assms] TrimPrefix_v_digits [of a "''.'' @ Itoa b @ ''.x''"]
    by (simp add: ToLower_lits SplitChar_append Itoa_no_sep)
  with 3 show ?thesis using assms
    by (simp add: ParseSeries_def Atoi_Itoa go_count_in_int64 Itoa_not_x series_ok_def)
qed

lemma First_on_series:
  assumes "series_ok s"
  shows "Contains s (First s start) \<and> Pre (First s start) = [] \<and> version_ok (First s start)"
proof (cases "\<exists>v. ParseVersion start = Inr v \<and> Pre v = [] \<and> Contains s v")
  case True
  then show ?thesis using ParseVersion_release_ok by (auto simp: First_def)
next
  case False
  have eq: "First s start = (let n = fixed s @ replicate (3 - length (fixed s)) 0;
      n = (if length (fixed s) = 0 then n[0 := 1] else n)
      in \<lparr>Major = n ! 0, Minor = n ! 1, Patch = n ! 2, Pre = []\<rparr>)"
    using False by (auto simp: First_def Let_def split: sum.splits)
  show ?thesis
    by (rule series_cases [OF assms])
       (auto simp: eq Contains_def version_ok_def numeral_3_eq_3 numeral_2_eq_2)
qed

lemma Compare_release_eq:
  assumes "version_ok u" and "version_ok v" and "Pre u = []" and "Pre v = []" and "Compare u v = 0"
  shows "u = v"
proof -
  have "int_cmp (Major u) (Major v) = 0" "int_cmp (Minor u) (Minor v) = 0" "int_cmp (Patch u) (Patch v) = 0"
    using assms by (simp_all add: Compare_nested split: if_splits)
  then show ?thesis using assms(1-4) by (intro Version.equality) (auto simp: version_ok_def int_cmp_0)
qed

section \<open>Properties\<close>

text \<open>On versions whose numbers are nonnegative \<open>int\<close>s, \<open>Compare\<close> is a total preorder: a version
  equals itself, exchanging the arguments flips the sign, and the order is transitive; two releases
  compare equal only when they are the same version.\<close>

theorem Compare_total_order:
  assumes "version_ok u" and "version_ok v" and "version_ok w"
  shows "Compare u u = 0 \<and> (Compare u v < 0) = (0 < Compare v u) \<and>
    (Compare u v \<le> 0 \<and> Compare v w \<le> 0 \<longrightarrow> Compare u w \<le> 0) \<and>
    (Pre u = [] \<and> Pre v = [] \<and> Compare u v = 0 \<longrightarrow> u = v)"
  using assms version_order.cmp_refl version_order.cmp_anti [of u v] version_order.cmp_trans [of u v w]
    Compare_release_eq by auto

theorem Compare_total_order_witness:
  "Compare \<lparr>Major = 1, Minor = 4, Patch = 0, Pre = ''rc.1''\<rparr> \<lparr>Major = 1, Minor = 10, Patch = 0, Pre = []\<rparr> < 0 \<and>
   0 < Compare \<lparr>Major = 1, Minor = 10, Patch = 0, Pre = []\<rparr> \<lparr>Major = 1, Minor = 4, Patch = 0, Pre = ''rc.1''\<rparr>"
proof -
  let ?u = "\<lparr>Major = 1, Minor = 4, Patch = 0, Pre = ''rc.1''\<rparr>"
  let ?v = "\<lparr>Major = 1, Minor = 10, Patch = 0, Pre = []\<rparr>"
  have ok: "version_ok ?u" "version_ok ?v" by code_simp+
  have "Compare ?u ?v < 0" by code_simp
  with Compare_total_order [OF ok(1) ok(2) ok(2)] show ?thesis by simp
qed

text \<open>Printing and parsing are inverse: a version whose prerelease part is made of letters,
  digits, dashes and dots is read back from its text.\<close>

theorem Version_round_trip:
  assumes "printable v"
  shows "ParseVersion (Version_String v) = Inr v"
  by (rule ParseVersion_String [OF assms])

theorem Version_round_trip_witness:
  "ParseVersion (Version_String \<lparr>Major = 1, Minor = 20, Patch = 3, Pre = ''main.7''\<rparr>) =
   Inr \<lparr>Major = 1, Minor = 20, Patch = 3, Pre = ''main.7''\<rparr>"
proof -
  have "printable \<lparr>Major = 1, Minor = 20, Patch = 3, Pre = ''main.7''\<rparr>" by code_simp
  then show ?thesis by (rule Version_round_trip)
qed

text \<open>A parsed series is canonical (its text parses to itself), and the first version of a
  series, whatever the configured start, is a release that lies on it.\<close>

theorem Series_canonical:
  assumes "ParseSeries s = Inr ser"
  shows "ParseSeries (raw ser) = Inr ser \<and> Contains ser (First ser start) \<and> Pre (First ser start) = []"
  using ParseSeries_raw First_on_series ParseSeries_ok [OF assms] by blast

theorem Series_canonical_witness:
  "ParseSeries ''1.4.x'' = Inr \<lparr>raw = ''1.4.x'', fixed = [1, 4]\<rparr> \<and>
   Contains \<lparr>raw = ''1.4.x'', fixed = [1, 4]\<rparr> (First \<lparr>raw = ''1.4.x'', fixed = [1, 4]\<rparr> ''2.0.0'')"
proof -
  have "ParseSeries '' v1.4.X'' = Inr \<lparr>raw = ''1.4.x'', fixed = [1, 4]\<rparr>" by code_simp
  from Series_canonical [OF this, of "''2.0.0''"] show ?thesis by simp
qed

text \<open>A bump that the series allows gives a strictly greater release of the same series, and
  clamping a bump gives the greatest bump the series allows that is not above the wanted one.\<close>

theorem Bump_on_series:
  assumes "series_ok s" and "Contains s v" and "bumpable v"
  shows "Contains s (Bump v (Clamp s b)) \<and> Compare (Bump v (Clamp s b)) v > 0 \<and>
    (\<forall>c. Allows s c \<and> bumpRank c \<le> bumpRank b \<longrightarrow> bumpRank c \<le> bumpRank (Clamp s b))"
  using assms Contains_Bump Clamp_allowed Bump_greater Clamp_greatest by blast

theorem Bump_on_series_witness:
  "Contains \<lparr>raw = ''1.4.x'', fixed = [1, 4]\<rparr> (Bump \<lparr>Major = 1, Minor = 4, Patch = 9, Pre = []\<rparr>
     (Clamp \<lparr>raw = ''1.4.x'', fixed = [1, 4]\<rparr> BumpMajor))"
proof -
  let ?s = "\<lparr>raw = ''1.4.x'', fixed = [1, 4]\<rparr>" and ?v = "\<lparr>Major = 1, Minor = 4, Patch = 9, Pre = []\<rparr>"
  have "series_ok ?s" and "Contains ?s ?v" and "bumpable ?v" by code_simp+
  then show ?thesis using Bump_on_series [of ?s ?v BumpMajor] by blast
qed

end
