(* ===== verification/Version_Planner.thy ===== *)
theory Version_Planner
  imports Semver
begin

text \<open>
  The version planner: \<^verbatim>\<open>internal/services/versioning/next.go\<close> (which version a pipeline run
  receives), the branch patterns and calendar versions of \<^verbatim>\<open>render.go\<close>, and the policy settings of
  \<^verbatim>\<open>settings.go\<close>. The lemmas show that a release build always moves its series forward and stays on
  it, that a planned version is never one already handed out, and that \<open>Normalize\<close> is idempotent.

  The clock is an argument (\<open>clock\<close>) where the source calls \<open>time.Now\<close>. A Go map is the list of its
  entries, whose order the source never depends on.
\<close>

section \<open>Branch patterns\<close>

text \<open>
  \<open>path.Match\<close> on bytes: \<open>*\<close> matches a run without a slash, \<open>?\<close> one such byte, \<open>[...]\<close> a class,
  a backslash escapes. A malformed pattern (\<open>None\<close>) counts as no match for \<open>branchMatches\<close>.
\<close>

fun scan_chunk :: "bool \<Rightarrow> string \<Rightarrow> string \<times> string" where
  "scan_chunk inrange [] = ([], [])"
| "scan_chunk inrange (c # cs) =
     (if c = CHR ''*'' \<and> \<not> inrange then ([], c # cs)
      else if c = char_of (92 :: nat) then
        (case cs of
           [] \<Rightarrow> ([c], [])
         | d # ds \<Rightarrow> (case scan_chunk inrange ds of (a, b) \<Rightarrow> (c # d # a, b)))
      else (let inr = (if c = CHR ''['' then True else if c = CHR '']'' then False else inrange)
            in case scan_chunk inr cs of (a, b) \<Rightarrow> (c # a, b)))"

definition getEsc :: "string \<Rightarrow> (char \<times> string) option" where
  "getEsc chunk =
     (case chunk of
        [] \<Rightarrow> None
      | c # cs \<Rightarrow>
          if c = CHR ''-'' \<or> c = CHR '']'' then None
          else if c = char_of (92 :: nat) then
            (case cs of [] \<Rightarrow> None | d # ds \<Rightarrow> if ds = [] then None else Some (d, ds))
          else if cs = [] then None
          else Some (c, cs))"

text \<open>The ranges of a class up to its closing bracket: whether one holds \<open>r\<close>, and the rest.\<close>

fun class_ranges :: "nat \<Rightarrow> string \<Rightarrow> char \<Rightarrow> nat \<Rightarrow> bool \<Rightarrow> (bool \<times> string) option" where
  "class_ranges 0 chunk r nrange m = None"
| "class_ranges (Suc k) chunk r nrange m =
     (if chunk \<noteq> [] \<and> hd chunk = CHR '']'' \<and> nrange > 0 then Some (m, tl chunk)
      else (case getEsc chunk of
              None \<Rightarrow> None
            | Some (lo, rest) \<Rightarrow>
                if rest \<noteq> [] \<and> hd rest = CHR ''-''
                then (case getEsc (tl rest) of
                        None \<Rightarrow> None
                      | Some (hi, rest') \<Rightarrow> class_ranges k rest' r (Suc nrange) (m \<or> lo \<le> r \<and> r \<le> hi))
                else class_ranges k rest r (Suc nrange) (m \<or> lo = r)))"

text \<open>\<open>matchChunk\<close>: the unmatched rest of the name (\<open>Some (Some rest)\<close>), no match
  (\<open>Some None\<close>) or a bad pattern (\<open>None\<close>). Once the match has failed the chunk is still parsed.\<close>

fun matchChunk :: "nat \<Rightarrow> string \<Rightarrow> string option \<Rightarrow> string option option" where
  "matchChunk 0 chunk s = None"
| "matchChunk (Suc k) [] s = Some s"
| "matchChunk (Suc k) (c # cs) s0 =
     (let s = (case s0 of Some [] \<Rightarrow> None | _ \<Rightarrow> s0)
      in if c = CHR ''['' then
           (let neg = (cs \<noteq> [] \<and> hd cs = CHR ''^'');
                cs' = (if neg then tl cs else cs)
            in case class_ranges (Suc (length cs')) cs' (case s of Some (r # _) \<Rightarrow> r | _ \<Rightarrow> char_of (0 :: nat)) 0 False of
                 None \<Rightarrow> None
               | Some (m, rest) \<Rightarrow>
                   matchChunk k rest
                     (case s of Some (_ # t) \<Rightarrow> if m = (\<not> neg) then Some t else None | _ \<Rightarrow> None))
         else if c = CHR ''?'' then
           matchChunk k cs (case s of Some (x # t) \<Rightarrow> if x = CHR ''/'' then None else Some t | _ \<Rightarrow> None)
         else if c = char_of (92 :: nat) then
           (case cs of
              [] \<Rightarrow> None
            | d # ds \<Rightarrow> matchChunk k ds (case s of Some (x # t) \<Rightarrow> if x = d then Some t else None | _ \<Rightarrow> None))
         else matchChunk k cs (case s of Some (x # t) \<Rightarrow> if x = c then Some t else None | _ \<Rightarrow> None))"

definition match_chunk :: "string \<Rightarrow> string \<Rightarrow> string option option" where
  "match_chunk chunk name = matchChunk (Suc (length chunk)) chunk (Some name)"

text \<open>Skip bytes for a star until the chunk matches: the rest, no match, or a bad pattern.\<close>

fun star_skip :: "string \<Rightarrow> bool \<Rightarrow> string \<Rightarrow> string option option" where
  "star_skip chunk final [] = Some None"
| "star_skip chunk final (c # cs) =
     (if c = CHR ''/'' then Some None
      else (case match_chunk chunk cs of
              None \<Rightarrow> None
            | Some (Some t) \<Rightarrow> if final \<and> t \<noteq> [] then star_skip chunk final cs else Some (Some t)
            | Some None \<Rightarrow> star_skip chunk final cs))"

fun path_match_fuel :: "nat \<Rightarrow> string \<Rightarrow> string \<Rightarrow> bool" where
  "path_match_fuel 0 pat name = False"
| "path_match_fuel (Suc n) pat name =
     (if pat = [] then name = []
      else
        (let star = (hd pat = CHR ''*'');
             (chunk, rest) = scan_chunk False (dropWhile (\<lambda>c. c = CHR ''*'') pat)
         in if star \<and> chunk = [] then CHR ''/'' \<notin> set name
            else (case match_chunk chunk name of
                    Some (Some t) \<Rightarrow>
                      if t = [] \<or> rest \<noteq> [] then path_match_fuel n rest t
                      else if star then
                        (case star_skip chunk (rest = []) name of
                           Some (Some t') \<Rightarrow> path_match_fuel n rest t' | _ \<Rightarrow> False)
                      else False
                  | Some None \<Rightarrow>
                      if star then
                        (case star_skip chunk (rest = []) name of
                           Some (Some t') \<Rightarrow> path_match_fuel n rest t' | _ \<Rightarrow> False)
                      else False
                  | None \<Rightarrow> False)))"

text \<open>Each round consumes at least one byte of the pattern.\<close>

definition path_Match :: "string \<Rightarrow> string \<Rightarrow> bool" where
  "path_Match pat name = path_match_fuel (Suc (length pat)) pat name"

definition branchMatches :: "string list \<Rightarrow> string \<Rightarrow> bool" where
  "branchMatches patterns branch = list_ex (\<lambda>p. path_Match p branch) patterns"

section \<open>Policies, requests and plans\<close>

record VersionPolicy =
  p_ID :: nat
  p_WorkspaceID :: nat
  p_Scheme :: string
  p_Template :: string
  p_Series :: string
  p_Bump :: VersionBump
  p_Start :: string
  p_CalverFormat :: string
  p_ReleaseBranches :: "string list"
  p_OtherBranches :: string
  p_BranchSeries :: "(string \<times> string) list"
  p_FloatingTags :: "string list"
  p_BumpFromCommits :: bool
  p_ManagedBy :: string
  p_Current :: string

record VersionAllocation =
  a_ID :: nat
  a_PolicyID :: nat
  a_Version :: string
  a_Tag :: string
  a_Series :: string
  a_Branch :: string
  a_Prerelease :: bool
  a_Bump :: VersionBump
  a_Exact :: bool
  a_Note :: string
  a_Status :: string
  a_PipelineRunID :: nat
  a_Digest :: string

text \<open>The UTC date of a \<open>time.Time\<close>; the zero time is \<open>None\<close>.\<close>

record date =
  d_Year :: int
  d_Month :: int
  d_Day :: int

record Request =
  r_Branch :: string
  r_Commit :: string
  r_CommitMessage :: string
  r_Bump :: VersionBump
  r_Exact :: string
  r_Now :: "date option"

record Plan =
  pl_Skip :: bool
  pl_Version :: string
  pl_Tag :: string
  pl_Series :: string
  pl_Branch :: string
  pl_Prerelease :: bool
  pl_Bump :: VersionBump
  pl_Exact :: bool
  pl_Note :: string

definition zero_Plan :: Plan where
  "zero_Plan = \<lparr>pl_Skip = False, pl_Version = [], pl_Tag = [], pl_Series = [], pl_Branch = [],
     pl_Prerelease = False, pl_Bump = [], pl_Exact = False, pl_Note = []\<rparr>"

definition DefaultSeries :: string where "DefaultSeries = ''1.x.x''"

definition DefaultStart :: string where "DefaultStart = ''1.0.0''"

definition sortedKeys :: "(string \<times> string) list \<Rightarrow> string list" where
  "sortedKeys m = sort (map fst m)"

definition isReleaseBranch :: "VersionPolicy \<Rightarrow> string \<Rightarrow> bool" where
  "isReleaseBranch p branch =
     (if branch = [] \<or> p_ReleaseBranches p = [] then True
      else branchMatches (p_ReleaseBranches p) branch \<or> branchMatches (sortedKeys (p_BranchSeries p)) branch)"

definition seriesFor :: "VersionPolicy \<Rightarrow> string \<Rightarrow> version_error + Series" where
  "seriesFor p branch =
     (case find (\<lambda>pattern. branch \<noteq> [] \<and> branchMatches [pattern] branch) (sortedKeys (p_BranchSeries p)) of
        Some pattern \<Rightarrow> ParseSeries (case map_of (p_BranchSeries p) pattern of Some s \<Rightarrow> s | None \<Rightarrow> [])
      | None \<Rightarrow> ParseSeries (if p_Series p = [] then DefaultSeries else p_Series p))"

section \<open>Semantic versions\<close>

text \<open>\<open>seriesHead\<close>: an allocation counts when it is a release that parses and lies on the series.\<close>

definition release_on :: "Series \<Rightarrow> VersionAllocation \<Rightarrow> Version option" where
  "release_on s a =
     (if a_Prerelease a then None
      else (case ParseVersion (a_Version a) of
              Inl _ \<Rightarrow> None
            | Inr v \<Rightarrow> if Pre v \<noteq> [] \<or> \<not> Contains s v then None else Some v))"

fun seriesHead_loop :: "Series \<Rightarrow> Version option \<Rightarrow> VersionAllocation list \<Rightarrow> Version option" where
  "seriesHead_loop s head [] = head"
| "seriesHead_loop s head (a # as) =
     (case release_on s a of
        None \<Rightarrow> seriesHead_loop s head as
      | Some v \<Rightarrow>
          seriesHead_loop s
            (case head of None \<Rightarrow> Some v | Some h \<Rightarrow> if Compare v h > 0 then Some v else head) as)"

definition seriesHead :: "Series \<Rightarrow> VersionAllocation list \<Rightarrow> Version option" where
  "seriesHead s existing = seriesHead_loop s None existing"

definition used :: "VersionAllocation list \<Rightarrow> string \<Rightarrow> bool" where
  "used existing version = list_ex (\<lambda>a. a_Version a = version) existing"

definition chooseBump :: "VersionPolicy \<Rightarrow> Series \<Rightarrow> Request \<Rightarrow> version_error + (VersionBump \<times> string)" where
  "chooseBump p series req =
     (if r_Bump req \<noteq> [] then
        (if \<not> ValidBump (r_Bump req) then Inl ErrInvalidSettings
         else if \<not> Allows series (r_Bump req) then Inl ErrBumpOutsideSeries
         else Inr (r_Bump req, []))
      else
        (let want = (if ValidBump (p_Bump p) then p_Bump p else BumpPatch);
             (want, source) =
               (if p_BumpFromCommits p
                then (case BumpFromCommit (r_CommitMessage req) of
                        Some b \<Rightarrow> (b, ''commit'') | None \<Rightarrow> (want, ''policy''))
                else (want, ''policy''));
             got = Clamp series want
         in if got \<noteq> want
            then Inr (got, source @ '' bump '' @ want @ '' lowered to '' @ got @ '' to stay on '' @ raw series)
            else Inr (got, [])))"

text \<open>The loop that finds the highest number handed out behind a prefix.\<close>

definition suffix_step :: "string \<Rightarrow> VersionAllocation \<Rightarrow> int \<Rightarrow> int" where
  "suffix_step pre a n =
     (case CutPrefix (a_Version a) pre of
        None \<Rightarrow> n
      | Some rest \<Rightarrow> (case Atoi rest of Some k \<Rightarrow> if k > n then k else n | None \<Rightarrow> n))"

fun max_suffix :: "string \<Rightarrow> VersionAllocation list \<Rightarrow> int \<Rightarrow> int" where
  "max_suffix pre [] n = n"
| "max_suffix pre (a # as) n = max_suffix pre as (suffix_step pre a n)"

definition prereleaseID :: "Version \<Rightarrow> string \<Rightarrow> VersionAllocation list \<Rightarrow> string" where
  "prereleaseID base branch existing =
     (let ident = prereleaseBranch branch;
          n = max_suffix (Version_String (Core base) @ ''-'' @ ident @ ''.'') existing 0
      in ident @ ''.'' @ Itoa (wrap64 (n + 1)))"

definition template_of :: "VersionPolicy \<Rightarrow> string" where
  "template_of p = (if p_Template p = [] then DefaultTemplate else p_Template p)"

text \<open>The version \<open>nextSemver\<close> settles on before the prerelease part, with the plan so far.\<close>

definition semver_target ::
  "VersionPolicy \<Rightarrow> VersionAllocation list \<Rightarrow> Request \<Rightarrow> Series \<Rightarrow> version_error + (Version \<times> Plan)" where
  "semver_target p existing req series =
     (let head = seriesHead series existing;
          plan = zero_Plan\<lparr>pl_Series := raw series, pl_Branch := r_Branch req\<rparr>
      in if r_Exact req \<noteq> [] then
           (case ParseVersion (r_Exact req) of
              Inl e \<Rightarrow> Inl e
            | Inr v \<Rightarrow>
                if Pre v \<noteq> [] then Inl ErrInvalidVersion
                else if \<not> Contains series v then Inl ErrOutsideSeries
                else if (case head of Some h \<Rightarrow> Compare v h \<le> 0 | None \<Rightarrow> False) then Inl ErrNotGreater
                else if used existing (Version_String v) then Inl ErrVersionTaken
                else Inr (v, plan\<lparr>pl_Exact := True\<rparr>))
         else (case head of
                 None \<Rightarrow> Inr (First series (p_Start p), plan\<lparr>pl_Bump := p_Bump p\<rparr>)
               | Some h \<Rightarrow>
                   (case chooseBump p series req of
                      Inl e \<Rightarrow> Inl e
                    | Inr (bump, note) \<Rightarrow> Inr (Bump h bump, plan\<lparr>pl_Bump := bump, pl_Note := note\<rparr>))))"

definition nextSemver ::
  "VersionPolicy \<Rightarrow> VersionAllocation list \<Rightarrow> Request \<Rightarrow> bool \<Rightarrow> version_error + Plan" where
  "nextSemver p existing req release =
     (case seriesFor p (r_Branch req) of
        Inl e \<Rightarrow> Inl e
      | Inr series \<Rightarrow>
          if \<not> release \<and> (r_Exact req \<noteq> [] \<or> r_Bump req \<noteq> []) then Inl ErrOverrideNotSupported
          else
            (case semver_target p existing req series of
               Inl e \<Rightarrow> Inl e
             | Inr (next0, plan0) \<Rightarrow>
                 (let next = (if release then next0 else next0\<lparr>Pre := prereleaseID next0 (r_Branch req) existing\<rparr>);
                      plan = (if release then plan0 else plan0\<lparr>pl_Prerelease := True\<rparr>)
                  in case RenderTag (template_of p) (semverVars next (r_Commit req)) of
                       Inl e \<Rightarrow> Inl e
                     | Inr tag \<Rightarrow> Inr (plan\<lparr>pl_Version := Version_String next, pl_Tag := tag\<rparr>))))"

section \<open>Calendar versions\<close>

definition pad2 :: "int \<Rightarrow> string" where
  "pad2 n = (if 0 \<le> n \<and> n < 10 then CHR ''0'' # Itoa n else Itoa n)"

text \<open>Go's remainder takes the sign of the dividend.\<close>

definition go_rem :: "int \<Rightarrow> int \<Rightarrow> int" where
  "go_rem a b = sgn a * (\<bar>a\<bar> mod \<bar>b\<bar>)"

definition calverPrefix :: "string \<Rightarrow> date \<Rightarrow> version_error + string" where
  "calverPrefix fmt now =
     (if fmt = [] \<or> fmt = ''YYYY.MM'' then Inr (Itoa (d_Year now) @ ''.'' @ Itoa (d_Month now))
      else if fmt = ''YYYY.0M'' then Inr (Itoa (d_Year now) @ ''.'' @ pad2 (d_Month now))
      else if fmt = ''YY.MM'' then Inr (Itoa (go_rem (d_Year now) 100) @ ''.'' @ Itoa (d_Month now))
      else if fmt = ''YYYY.MM.DD''
        then Inr (Itoa (d_Year now) @ ''.'' @ Itoa (d_Month now) @ ''.'' @ Itoa (d_Day now))
      else Inl ErrInvalidSettings)"

definition releases :: "VersionAllocation list \<Rightarrow> VersionAllocation list" where
  "releases existing = filter (\<lambda>a. \<not> a_Prerelease a) existing"

definition calver_version :: "string \<Rightarrow> string \<Rightarrow> VersionAllocation list \<Rightarrow> bool \<Rightarrow> string" where
  "calver_version pre branch existing release =
     (let n = max_suffix (pre @ ''.'') (releases existing) 0;
          version = pre @ ''.'' @ Itoa (wrap64 (n + 1))
      in if release then version
         else (let ident = prereleaseBranch branch;
                   k = max_suffix (version @ ''-'' @ ident @ ''.'') existing 0
               in version @ ''-'' @ ident @ ''.'' @ Itoa (wrap64 (k + 1))))"

definition nextCalver ::
  "date \<Rightarrow> VersionPolicy \<Rightarrow> VersionAllocation list \<Rightarrow> Request \<Rightarrow> bool \<Rightarrow> version_error + Plan" where
  "nextCalver clock p existing req release =
     (if r_Bump req \<noteq> [] \<or> r_Exact req \<noteq> [] then Inl ErrOverrideNotSupported
      else
        (let now = (case r_Now req of None \<Rightarrow> clock | Some t \<Rightarrow> t)
         in case calverPrefix (p_CalverFormat p) now of
              Inl e \<Rightarrow> Inl e
            | Inr pre \<Rightarrow>
                (let version = calver_version pre (r_Branch req) existing release;
                     plan = zero_Plan\<lparr>pl_Branch := r_Branch req, pl_Prerelease := \<not> release\<rparr>
                 in case RenderTag (template_of p)
                           \<lparr>tv_version = version, tv_major = [], tv_minor = [], tv_patch = [],
                            tv_sha = shortSHA (r_Commit req)\<rparr> of
                      Inl e \<Rightarrow> Inl e
                    | Inr tag \<Rightarrow> Inr (plan\<lparr>pl_Version := version, pl_Tag := tag\<rparr>))))"

section \<open>The planner\<close>

definition Next ::
  "date \<Rightarrow> VersionPolicy \<Rightarrow> VersionAllocation list \<Rightarrow> Request \<Rightarrow> version_error + Plan" where
  "Next clock p existing req =
     (let release = isReleaseBranch p (r_Branch req)
      in if \<not> release \<and> p_OtherBranches p = ''run-tag'' then Inr (zero_Plan\<lparr>pl_Skip := True\<rparr>)
         else if p_Scheme p = ''semver'' then nextSemver p existing req release
         else if p_Scheme p = ''calver'' then nextCalver clock p existing req release
         else if r_Bump req \<noteq> [] \<or> r_Exact req \<noteq> [] then Inl ErrOverrideNotSupported
         else Inr (zero_Plan\<lparr>pl_Skip := True\<rparr>))"

text \<open>The head of an allocation's group: \<open>groupKey\<close> and \<open>IsHead\<close>.\<close>

definition last_dot :: "string \<Rightarrow> nat option" where
  "last_dot s = (if CHR ''.'' \<in> set s
                 then Some (length s - 1 - length (takeWhile (\<lambda>c. c \<noteq> CHR ''.'') (rev s))) else None)"

definition groupKey :: "VersionAllocation \<Rightarrow> string" where
  "groupKey a =
     (if a_Prerelease a then ''pre|'' @ fst (CutChar (a_Version a) CHR ''-'') @ ''|'' @ a_Branch a
      else if a_Series a \<noteq> [] then ''series|'' @ a_Series a
      else (case last_dot (a_Version a) of
              None \<Rightarrow> ''cal|'' @ a_Version a
            | Some i \<Rightarrow> ''cal|'' @ take i (a_Version a)))"

definition IsHead :: "VersionAllocation \<Rightarrow> VersionAllocation list \<Rightarrow> bool" where
  "IsHead a existing =
     (\<not> list_ex (\<lambda>b. a_ID b \<noteq> a_ID a \<and> a_ID b > a_ID a \<and> groupKey b = groupKey a) existing)"

definition sim_allocation :: "Plan \<Rightarrow> VersionAllocation" where
  "sim_allocation plan =
     \<lparr>a_ID = 0, a_PolicyID = 0, a_Version = pl_Version plan, a_Tag = [], a_Series = pl_Series plan,
      a_Branch = pl_Branch plan, a_Prerelease = pl_Prerelease plan, a_Bump = [], a_Exact = False,
      a_Note = [], a_Status = [], a_PipelineRunID = 0, a_Digest = []\<rparr>"

fun Preview_loop ::
  "nat \<Rightarrow> date \<Rightarrow> VersionPolicy \<Rightarrow> VersionAllocation list \<Rightarrow> Request \<Rightarrow> Plan list \<Rightarrow> version_error + Plan list" where
  "Preview_loop 0 clock p sim req out = Inr out"
| "Preview_loop (Suc n) clock p sim req out =
     (case Next clock p sim req of
        Inl e \<Rightarrow> Inl e
      | Inr plan \<Rightarrow>
          if pl_Skip plan then Inr out
          else Preview_loop n clock p (sim @ [sim_allocation plan]) req (out @ [plan]))"

definition Preview ::
  "date \<Rightarrow> VersionPolicy \<Rightarrow> VersionAllocation list \<Rightarrow> string \<Rightarrow> nat \<Rightarrow> date option \<Rightarrow> version_error + Plan list" where
  "Preview clock p existing branch cnt now =
     Preview_loop cnt clock p existing
       \<lparr>r_Branch = branch, r_Commit = [], r_CommitMessage = [], r_Bump = [], r_Exact = [], r_Now = now\<rparr> []"

section \<open>Settings\<close>

record Settings =
  s_Scheme :: string
  s_Template :: string
  s_Series :: string
  s_Bump :: VersionBump
  s_Start :: string
  s_CalverFormat :: string
  s_Release :: "string list"
  s_Others :: string
  s_BranchSeries :: "(string \<times> string) list"
  s_FloatingTags :: "string list"
  s_BumpFromCommits :: bool

definition CalverFormats :: "string list" where
  "CalverFormats = [''YYYY.MM'', ''YYYY.0M'', ''YY.MM'', ''YYYY.MM.DD'']"

fun normalize_branches :: "(string \<times> string) list \<Rightarrow> version_error + (string \<times> string) list" where
  "normalize_branches [] = Inr []"
| "normalize_branches ((pattern, ser) # rest) =
     (case ParseSeries ser of
        Inl e \<Rightarrow> Inl e
      | Inr parsed \<Rightarrow>
          (case normalize_branches rest of
             Inl e \<Rightarrow> Inl e
           | Inr rest' \<Rightarrow> Inr ((pattern, raw parsed) # rest')))"

text \<open>The defaults every scheme gets, then the checks of the three schemes.\<close>

definition settings_defaults :: "Settings \<Rightarrow> Settings" where
  "settings_defaults s =
     (let s = (if s_Scheme s = [] then s\<lparr>s_Scheme := ''semver''\<rparr> else s);
          s = s\<lparr>s_Template := TrimSpace (s_Template s)\<rparr>;
          s = (if s_Template s = [] then s\<lparr>s_Template := DefaultTemplate\<rparr> else s);
          s = (if s_Bump s = [] then s\<lparr>s_Bump := BumpPatch\<rparr> else s)
      in if s_Others s = [] then s\<lparr>s_Others := ''prerelease''\<rparr> else s)"

definition normalize_semver :: "Settings \<Rightarrow> version_error + Settings" where
  "normalize_semver s0 =
     (let s = (if s_Series s0 = [] then s0\<lparr>s_Series := DefaultSeries\<rparr> else s0)
      in case ParseSeries (s_Series s) of
           Inl e \<Rightarrow> Inl e
         | Inr series \<Rightarrow>
             (let s = s\<lparr>s_Series := raw series\<rparr>;
                  s = (if s_Start s = [] then s\<lparr>s_Start := Version_String (First series DefaultStart)\<rparr> else s)
              in case ParseVersion (s_Start s) of
                   Inl e \<Rightarrow> Inl e
                 | Inr start \<Rightarrow>
                     if Pre start \<noteq> [] \<or> \<not> Contains series start then Inl ErrInvalidSettings
                     else if \<not> ValidBump (s_Bump s) then Inl ErrInvalidSettings
                     else if \<not> Allows series (s_Bump s) then Inl ErrInvalidSettings
                     else (case normalize_branches (s_BranchSeries s) of
                             Inl e \<Rightarrow> Inl e
                           | Inr bs \<Rightarrow> Inr (s\<lparr>s_Start := Version_String start, s_BranchSeries := bs,
                                            s_CalverFormat := []\<rparr>))))"

definition normalize_calver :: "Settings \<Rightarrow> version_error + Settings" where
  "normalize_calver s0 =
     (let s = (if s_CalverFormat s0 = [] then s0\<lparr>s_CalverFormat := ''YYYY.MM''\<rparr> else s0)
      in if s_CalverFormat s \<notin> set CalverFormats then Inl ErrInvalidSettings
         else if s_BranchSeries s \<noteq> [] then Inl ErrInvalidSettings
         else Inr (s\<lparr>s_Series := [], s_Start := [], s_BumpFromCommits := False\<rparr>))"

definition run_settings :: Settings where
  "run_settings = \<lparr>s_Scheme = ''run'', s_Template = DefaultTemplate, s_Series = [], s_Bump = BumpPatch,
     s_Start = [], s_CalverFormat = [], s_Release = [], s_Others = ''prerelease'', s_BranchSeries = [],
     s_FloatingTags = [], s_BumpFromCommits = False\<rparr>"

definition check_common :: "Settings \<Rightarrow> version_error + Settings" where
  "check_common s =
     (case validateTemplate (s_Template s) of
        Some e \<Rightarrow> Inl e
      | None \<Rightarrow>
          (case validateFloating (s_FloatingTags s) of
             Some e \<Rightarrow> Inl e
           | None \<Rightarrow>
               if s_Others s \<noteq> ''prerelease'' \<and> s_Others s \<noteq> ''run-tag'' then Inl ErrInvalidSettings
               else if list_ex (\<lambda>b. TrimSpace b = []) (s_Release s) then Inl ErrInvalidSettings
               else Inr s))"

definition Normalize :: "Settings \<Rightarrow> version_error + Settings" where
  "Normalize s0 =
     (let s = settings_defaults s0
      in if s_Scheme s = ''semver'' then
           (case normalize_semver s of Inl e \<Rightarrow> Inl e | Inr s' \<Rightarrow> check_common s')
         else if s_Scheme s = ''calver'' then
           (case normalize_calver s of Inl e \<Rightarrow> Inl e | Inr s' \<Rightarrow> check_common s')
         else if s_Scheme s = ''run'' then Inr run_settings
         else Inl ErrInvalidSettings)"

definition Settings_apply :: "Settings \<Rightarrow> VersionPolicy \<Rightarrow> VersionPolicy" where
  "Settings_apply s p =
     p\<lparr>p_Scheme := s_Scheme s, p_Template := s_Template s, p_Series := s_Series s, p_Bump := s_Bump s,
       p_Start := s_Start s, p_CalverFormat := s_CalverFormat s, p_ReleaseBranches := s_Release s,
       p_OtherBranches := s_Others s, p_BranchSeries := s_BranchSeries s,
       p_FloatingTags := s_FloatingTags s, p_BumpFromCommits := s_BumpFromCommits s\<rparr>"

definition SettingsOf :: "VersionPolicy \<Rightarrow> Settings" where
  "SettingsOf p =
     \<lparr>s_Scheme = p_Scheme p, s_Template = p_Template p, s_Series = p_Series p, s_Bump = p_Bump p,
      s_Start = p_Start p, s_CalverFormat = p_CalverFormat p, s_Release = p_ReleaseBranches p,
      s_Others = p_OtherBranches p, s_BranchSeries = p_BranchSeries p,
      s_FloatingTags = p_FloatingTags p, s_BumpFromCommits = p_BumpFromCommits p\<rparr>"

section \<open>The head of a series\<close>

lemma release_on_Some:
  "release_on s a = Some v \<Longrightarrow> ParseVersion (a_Version a) = Inr v \<and> \<not> a_Prerelease a \<and> Pre v = [] \<and>
     Contains s v \<and> version_ok v"
  using ParseVersion_release_ok [of "a_Version a" v]
  by (auto simp: release_on_def split: if_splits sum.splits)

text \<open>The loop of \<open>seriesHead\<close> is the keep-the-best loop over the releases of the series.\<close>

lemma seriesHead_keep_best:
  "seriesHead_loop s head as =
   keep_best (\<lambda>_. True) (\<lambda>v h. 0 < Compare v h) head (List.map_filter (release_on s) as)"
  by (induction as arbitrary: head) (auto simp: List.map_filter_def split: option.splits)

lemma set_map_filter_release: "v \<in> set (List.map_filter (release_on s) as) \<longleftrightarrow> (\<exists>a \<in> set as. release_on s a = Some v)"
  by (force simp: List.map_filter_def)

lemma seriesHead_Some:
  assumes "seriesHead s as = Some h"
  shows "\<exists>a \<in> set as. release_on s a = Some h"
    and "a \<in> set as \<Longrightarrow> release_on s a = Some v \<Longrightarrow> Compare v h \<le> 0"
proof -
  let ?vs = "List.map_filter (release_on s) as"
  have kb: "keep_best (\<lambda>_. True) (\<lambda>v h. 0 < Compare v h) None ?vs = Some h"
    using assms by (simp add: seriesHead_def seriesHead_keep_best)
  have dom: "version_ok v" if "v \<in> set ?vs" for v
    using that release_on_Some by (auto simp: set_map_filter_release)
  show "\<exists>a \<in> set as. release_on s a = Some h"
    using version_order.desc.keep_best_Some(1) [OF _ kb] dom by (simp add: set_map_filter_release)
  show "Compare v h \<le> 0" if "a \<in> set as" "release_on s a = Some v"
    using version_order.desc.keep_best_Some(3) [OF _ kb, of v] dom that
    by (force simp: set_map_filter_release not_less)
qed

lemma seriesHead_None: "seriesHead s as = None \<longleftrightarrow> (\<forall>a \<in> set as. release_on s a = None)"
  using set_map_filter_release [of _ s as]
  by (auto simp: seriesHead_def seriesHead_keep_best keep_best_None) (metis not_None_eq)

section \<open>Where the next version comes from\<close>

text \<open>No version of the ledger is at the largest \<open>int\<close>, in a component or in a trailing counter.\<close>

definition far_from_limit :: "VersionAllocation list \<Rightarrow> bool" where
  "far_from_limit existing =
     list_all (\<lambda>a.
       list_all (\<lambda>i. Atoi (drop i (a_Version a)) \<noteq> Some max_int64) [0..<Suc (length (a_Version a))] \<and>
       (case ParseVersion (a_Version a) of
          Inl _ \<Rightarrow> True
        | Inr w \<Rightarrow> Major w < max_int64 \<and> Minor w < max_int64 \<and> Patch w < max_int64)) existing"

lemma far_from_limit_bumpable:
  "far_from_limit ex \<Longrightarrow> seriesHead s ex = Some h \<Longrightarrow> bumpable h"
  by (drule seriesHead_Some(1))
     (auto simp: far_from_limit_def list_all_iff bumpable_def dest!: release_on_Some)

lemma far_from_limit_suffix:
  assumes "far_from_limit ex" and "a \<in> set ex" and "a_Version a = pre @ rest" and "Atoi rest = Some k"
  shows "k < max_int64"
proof -
  have "\<forall>i \<in> set [0..<Suc (length (a_Version a))]. Atoi (drop i (a_Version a)) \<noteq> Some max_int64"
    using assms(1,2) unfolding far_from_limit_def list_all_iff by blast
  moreover have "length pre \<in> set [0..<Suc (length (a_Version a))]"
    using assms(3) by (simp del: upt_Suc)
  ultimately have "Atoi (drop (length pre) (a_Version a)) \<noteq> Some max_int64" by blast
  then have "k \<noteq> max_int64" using assms by simp
  with Atoi_in_int64 [OF assms(4)] show ?thesis by (simp add: in_int64_def max_int64_def)
qed

lemma chooseBump_allowed: "chooseBump p series req = Inr (b, nt) \<Longrightarrow> Allows series b"
  by (auto simp: chooseBump_def Let_def split: if_splits option.splits prod.splits)
     (metis Clamp_allowed)+

text \<open>
  The target of a plan lies on the series, is a release, and is above every release of the series.
\<close>

lemma semver_target_advances:
  assumes "semver_target p ex req series = Inr (v, plan)" and "series_ok series" and "far_from_limit ex"
  shows "Contains series v" and "Pre v = []" and "version_ok v"
    and "a \<in> set ex \<Longrightarrow> release_on series a = Some w \<Longrightarrow> Compare w v < 0"
    and "\<not> pl_Skip plan" and "\<not> pl_Prerelease plan" and "pl_Series plan = raw series"
proof -
  have "Contains series v \<and> Pre v = [] \<and> version_ok v \<and> (\<forall>h. seriesHead series ex = Some h \<longrightarrow> Compare h v < 0)
      \<and> \<not> pl_Skip plan \<and> \<not> pl_Prerelease plan \<and> pl_Series plan = raw series"
  proof (cases "seriesHead series ex")
    case None
    then show ?thesis
      using assms First_on_series [OF assms(2)] ParseVersion_release_ok
      by (auto simp: semver_target_def Let_def zero_Plan_def split: if_splits sum.splits)
  next
    case (Some h)
    have h: "bumpable h" "version_ok h" using Some assms(3) far_from_limit_bumpable
      by (auto simp: bumpable_def)
    have cont: "Contains series h"
      using seriesHead_Some(1) [OF Some] release_on_Some by blast
    have flip: "Compare h w < 0" if "version_ok w" "0 < Compare w h" for w
      using that h version_order.cmp_anti [of w h] by simp
    show ?thesis
    proof (cases "r_Exact req = []")
      case True
      then obtain b nt where "chooseBump p series req = Inr (b, nt)" and v: "v = Bump h b"
        and "\<not> pl_Skip plan \<and> \<not> pl_Prerelease plan \<and> pl_Series plan = raw series"
        using assms(1) Some by (auto simp: semver_target_def zero_Plan_def split: sum.splits prod.splits)
      then show ?thesis
        using Some h cont flip [OF Bump_ok Bump_greater] chooseBump_allowed
          Contains_Bump [OF assms(2) cont] Bump_ok by auto
    next
      case False
      then show ?thesis
        using assms(1) Some flip ParseVersion_release_ok
        by (auto simp: semver_target_def Let_def zero_Plan_def not_le split: sum.splits if_splits)
    qed
  qed
  moreover have "Compare w v < 0" if a: "a \<in> set ex" and w: "release_on series a = Some w" and
    v: "version_ok v" and lt: "\<forall>h. seriesHead series ex = Some h \<longrightarrow> Compare h v < 0"
  proof -
    obtain h where h: "seriesHead series ex = Some h"
      using a w seriesHead_None [of series ex] by force
    have "Compare w h \<le> 0" and hv: "Compare h v < 0"
      using seriesHead_Some(2) [OF h a w] lt h by auto
    moreover have "version_ok w" "version_ok h"
      using release_on_Some [OF w] seriesHead_Some(1) [OF h] release_on_Some by blast+
    ultimately show ?thesis
      using v version_order.desc.cotrans [of v w h] version_order.cmp_anti [of h v]
        version_order.cmp_anti [of w h] version_order.cmp_anti [of w v] by auto
  qed
  ultimately show "Contains series v" "Pre v = []" "version_ok v"
    "a \<in> set ex \<Longrightarrow> release_on series a = Some w \<Longrightarrow> Compare w v < 0"
    "\<not> pl_Skip plan" "\<not> pl_Prerelease plan" "pl_Series plan = raw series" by auto
qed

section \<open>Counters\<close>

lemma suffix_step_ge: "n \<le> suffix_step pre a n"
  by (simp add: suffix_step_def split: option.splits)

lemma suffix_step_covers: "a_Version a = pre @ rest \<Longrightarrow> Atoi rest = Some k \<Longrightarrow> k \<le> suffix_step pre a n"
  by (simp add: suffix_step_def)

lemma suffix_step_origin:
  "suffix_step pre a n = n \<or> (\<exists>rest. a_Version a = pre @ rest \<and> Atoi rest = Some (suffix_step pre a n))"
  by (auto simp: suffix_step_def split: option.splits dest: CutPrefix_SomeD)

lemma max_suffix_ge: "n \<le> max_suffix pre as n"
proof (induction as arbitrary: n)
  case (Cons a as)
  show ?case using order_trans [OF suffix_step_ge Cons.IH] by simp
qed simp

lemma max_suffix_covers:
  "a \<in> set as \<Longrightarrow> a_Version a = pre @ rest \<Longrightarrow> Atoi rest = Some k \<Longrightarrow> k \<le> max_suffix pre as n"
proof (induction as arbitrary: n)
  case (Cons b as)
  show ?case
  proof (cases "a = b")
    case True
    with Cons.prems have "k \<le> suffix_step pre b n" by (intro suffix_step_covers) auto
    then show ?thesis using max_suffix_ge [of "suffix_step pre b n" pre as] by simp
  qed (use Cons in simp)
qed simp

lemma max_suffix_origin:
  "max_suffix pre as n = n \<or>
   (\<exists>a \<in> set as. \<exists>rest. a_Version a = pre @ rest \<and> Atoi rest = Some (max_suffix pre as n))"
proof (induction as arbitrary: n)
  case (Cons a as)
  show ?case
    using suffix_step_origin [of pre a n] Cons.IH [of "suffix_step pre a n"] by auto
qed simp

text \<open>One more than the highest number behind a prefix is not in use behind it.\<close>

lemma max_suffix_next:
  assumes "far_from_limit as"
  shows "go_count (max_suffix pre as 0 + 1)" and "wrap64 (max_suffix pre as 0 + 1) = max_suffix pre as 0 + 1"
    and "a \<in> set as \<Longrightarrow> a_Version a \<noteq> pre @ Itoa (wrap64 (max_suffix pre as 0 + 1))"
proof -
  have lt: "max_suffix pre as 0 < max_int64"
    using max_suffix_origin [of pre as 0] far_from_limit_suffix [OF assms] by (auto simp: max_int64_def)
  then show gc: "go_count (max_suffix pre as 0 + 1)"
    using max_suffix_ge [of 0 pre as] by (simp add: go_count_def max_int64_def)
  then show w: "wrap64 (max_suffix pre as 0 + 1) = max_suffix pre as 0 + 1"
    by (simp add: go_count_in_int64)
  show "a_Version a \<noteq> pre @ Itoa (wrap64 (max_suffix pre as 0 + 1))" if "a \<in> set as"
  proof
    assume "a_Version a = pre @ Itoa (wrap64 (max_suffix pre as 0 + 1))"
    then have "max_suffix pre as 0 + 1 \<le> max_suffix pre as 0"
      using gc w that by (intro max_suffix_covers) (auto simp: Atoi_Itoa go_count_in_int64)
    then show False by simp
  qed
qed

section \<open>What \<open>Next\<close> promises\<close>

text \<open>A row marked as a prerelease carries a dash in its version.\<close>

definition ledger_ok :: "VersionAllocation list \<Rightarrow> bool" where
  "ledger_ok existing = list_all (\<lambda>a. a_Prerelease a \<longrightarrow> CHR ''-'' \<in> set (a_Version a)) existing"

definition date_ok :: "date \<Rightarrow> bool" where
  "date_ok d \<longleftrightarrow> 0 \<le> d_Year d \<and> 0 \<le> d_Month d \<and> 0 \<le> d_Day d"

lemma seriesFor_ok: "seriesFor p branch = Inr series \<Longrightarrow> series_ok series"
  by (auto simp: seriesFor_def dest: ParseSeries_ok split: option.splits)

lemma nextSemver_cases:
  assumes "nextSemver p ex req release = Inr plan"
  obtains series v plan0 tag where "seriesFor p (r_Branch req) = Inr series" and "series_ok series"
    and "semver_target p ex req series = Inr (v, plan0)"
    and "plan = (if release then plan0 else plan0\<lparr>pl_Prerelease := True\<rparr>)\<lparr>pl_Version := Version_String
           (if release then v else v\<lparr>Pre := prereleaseID v (r_Branch req) ex\<rparr>), pl_Tag := tag\<rparr>"
    and "dockerTag tag"
  using assms that seriesFor_ok
  by (auto simp: nextSemver_def RenderTag_def Let_def split: sum.splits prod.splits if_splits)

lemma version_ok_printable: "version_ok v \<Longrightarrow> Pre v = [] \<Longrightarrow> printable v"
  by (simp add: version_ok_def printable_def)

lemma Version_String_no_dash: "version_ok v \<Longrightarrow> Pre v = [] \<Longrightarrow> CHR ''-'' \<notin> set (Version_String v)"
  by (simp add: Version_String_def version_ok_def Itoa_no_sep)

lemma semver_target_fresh:
  assumes "semver_target p ex req series = Inr (v, plan)" and "series_ok series"
    and "far_from_limit ex" and "ledger_ok ex"
  shows "\<not> used ex (Version_String v)"
proof
  note adv = semver_target_advances [OF assms(1-3)]
  assume "used ex (Version_String v)"
  then obtain a where a: "a \<in> set ex" "a_Version a = Version_String v"
    by (auto simp: used_def list_ex_iff)
  have "\<not> a_Prerelease a"
    using a assms(4) Version_String_no_dash [OF adv(3,2)] by (auto simp: ledger_ok_def list_all_iff)
  moreover have "ParseVersion (a_Version a) = Inr v"
    using a ParseVersion_String [OF version_ok_printable [OF adv(3,2)]] by simp
  ultimately have "release_on series a = Some v" using adv(1,2) by (simp add: release_on_def)
  then have "Compare v v < 0" using adv(4) a(1) by blast
  then show False using version_order.cmp_refl [OF adv(3)] by simp
qed

lemma prerelease_String:
  assumes "Pre v = []"
  shows "Version_String (v\<lparr>Pre := prereleaseID v branch ex\<rparr>) =
    (Version_String (Core v) @ ''-'' @ prereleaseBranch branch @ ''.'') @
    Itoa (wrap64 (max_suffix (Version_String (Core v) @ ''-'' @ prereleaseBranch branch @ ''.'') ex 0 + 1))"
  using assms by (simp add: Version_String_def Core_def prereleaseID_def Let_def)

lemma nextSemver_fresh:
  assumes "nextSemver p ex req release = Inr plan" and "far_from_limit ex" and "ledger_ok ex"
  shows "\<not> used ex (pl_Version plan)"
    and "pl_Prerelease plan = (\<not> release)" and "\<not> pl_Skip plan"
    and "pl_Prerelease plan \<Longrightarrow> CHR ''-'' \<in> set (pl_Version plan)"
proof -
  obtain series v plan0 tag where s: "series_ok series" "semver_target p ex req series = Inr (v, plan0)"
    and plan: "plan = (if release then plan0 else plan0\<lparr>pl_Prerelease := True\<rparr>)\<lparr>pl_Version := Version_String
           (if release then v else v\<lparr>Pre := prereleaseID v (r_Branch req) ex\<rparr>), pl_Tag := tag\<rparr>"
    using nextSemver_cases [OF assms(1)] by metis
  note adv = semver_target_advances [OF s(2,1) assms(2)]
  show "\<not> used ex (pl_Version plan)"
  proof (cases release)
    case True
    then show ?thesis using semver_target_fresh [OF s(2,1) assms(2,3)] plan by simp
  next
    case False
    then have "pl_Version plan = Version_String (v\<lparr>Pre := prereleaseID v (r_Branch req) ex\<rparr>)"
      using plan by simp
    then show ?thesis
      unfolding prerelease_String [OF adv(2)] used_def list_ex_iff
      using max_suffix_next(3) [OF assms(2)] by metis
  qed
  show "pl_Prerelease plan = (\<not> release)" "\<not> pl_Skip plan" using adv plan by auto
  then show "CHR ''-'' \<in> set (pl_Version plan)" if "pl_Prerelease plan"
    using that plan prerelease_String [OF adv(2)] by auto
qed

lemma far_from_limit_releases: "far_from_limit ex \<Longrightarrow> far_from_limit (releases ex)"
  unfolding far_from_limit_def releases_def list_all_iff by auto

lemma Itoa_no_dash: "0 \<le> i \<Longrightarrow> CHR ''-'' \<notin> set (Itoa i)"
  using Itoa_no_char [of i "CHR ''-''"] by simp

lemma calverPrefix_no_dash:
  "calverPrefix fmt d = Inr pre \<Longrightarrow> date_ok d \<Longrightarrow> CHR ''-'' \<notin> set pre"
proof -
  have "0 \<le> go_rem (d_Year d) 100" if "date_ok d"
    using that by (auto simp: go_rem_def date_ok_def sgn_if)
  then show "calverPrefix fmt d = Inr pre \<Longrightarrow> date_ok d \<Longrightarrow> CHR ''-'' \<notin> set pre"
    by (auto simp: calverPrefix_def date_ok_def pad2_def Itoa_no_dash split: if_splits)
qed

lemma calver_version_fresh:
  assumes "far_from_limit ex" and "ledger_ok ex" and "CHR ''-'' \<notin> set pre"
  shows "\<not> used ex (calver_version pre branch ex release)"
proof -
  let ?v = "(pre @ ''.'') @ Itoa (wrap64 (max_suffix (pre @ ''.'') (releases ex) 0 + 1))"
  note nxt = max_suffix_next [OF far_from_limit_releases [OF assms(1)], where pre = "pre @ ''.''"]
  show ?thesis
  proof (cases release)
    case True
    have "a_Version a \<noteq> ?v" if "a \<in> set ex" for a
    proof (cases "a_Prerelease a")
      case True
      then have "CHR ''-'' \<in> set (a_Version a)"
        using that assms(2) by (simp add: ledger_ok_def list_all_iff)
      moreover have "CHR ''-'' \<notin> set ?v" using assms(3) nxt(1,2) by (simp add: Itoa_no_sep)
      ultimately show ?thesis by metis
    next
      case False
      then have "a \<in> set (releases ex)" using that by (simp add: releases_def)
      then show ?thesis by (rule nxt(3))
    qed
    then show ?thesis using True by (auto simp: calver_version_def Let_def used_def list_ex_iff)
  next
    case False
    have eq: "calver_version pre branch ex release = (?v @ ''-'' @ prereleaseBranch branch @ ''.'') @
        Itoa (wrap64 (max_suffix (?v @ ''-'' @ prereleaseBranch branch @ ''.'') ex 0 + 1))"
      using False by (simp add: calver_version_def Let_def)
    show ?thesis unfolding eq used_def list_ex_iff using max_suffix_next(3) [OF assms(1)] by metis
  qed
qed

lemma nextCalver_cases:
  assumes "nextCalver clock p ex req release = Inr plan"
  obtains pre tag where
    "calverPrefix (p_CalverFormat p) (case r_Now req of None \<Rightarrow> clock | Some t \<Rightarrow> t) = Inr pre"
    and "plan = zero_Plan\<lparr>pl_Branch := r_Branch req, pl_Prerelease := \<not> release,
           pl_Version := calver_version pre (r_Branch req) ex release, pl_Tag := tag\<rparr>"
  using assms that by (auto simp: nextCalver_def Let_def split: if_splits sum.splits)

lemma Next_cases:
  assumes "Next clock p ex req = Inr plan" and "\<not> pl_Skip plan"
  shows "nextSemver p ex req (isReleaseBranch p (r_Branch req)) = Inr plan \<or>
         nextCalver clock p ex req (isReleaseBranch p (r_Branch req)) = Inr plan"
  using assms by (auto simp: Next_def Let_def split: if_splits)

definition request_time_ok :: "date \<Rightarrow> Request \<Rightarrow> bool" where
  "request_time_ok clock req = date_ok (case r_Now req of None \<Rightarrow> clock | Some t \<Rightarrow> t)"

lemma Next_fresh:
  assumes "Next clock p ex req = Inr plan" and "\<not> pl_Skip plan"
    and "far_from_limit ex" and "ledger_ok ex" and "request_time_ok clock req"
  shows "\<not> used ex (pl_Version plan) \<and> (pl_Prerelease plan \<longrightarrow> CHR ''-'' \<in> set (pl_Version plan))"
  using Next_cases [OF assms(1,2)]
proof
  assume "nextSemver p ex req (isReleaseBranch p (r_Branch req)) = Inr plan"
  then show ?thesis using nextSemver_fresh [OF _ assms(3,4)] by blast
next
  assume "nextCalver clock p ex req (isReleaseBranch p (r_Branch req)) = Inr plan"
  then obtain pre tag where
    "calverPrefix (p_CalverFormat p) (case r_Now req of None \<Rightarrow> clock | Some t \<Rightarrow> t) = Inr pre"
    and plan: "plan = zero_Plan\<lparr>pl_Branch := r_Branch req,
      pl_Prerelease := \<not> isReleaseBranch p (r_Branch req), pl_Version :=
      calver_version pre (r_Branch req) ex (isReleaseBranch p (r_Branch req)), pl_Tag := tag\<rparr>"
    by (rule nextCalver_cases)
  then have "CHR ''-'' \<notin> set pre"
    using assms(5) calverPrefix_no_dash by (simp add: request_time_ok_def)
  then show ?thesis
    using calver_version_fresh [OF assms(3,4)] by (simp add: plan zero_Plan_def calver_version_def Let_def)
qed

section \<open>Normalised settings\<close>

lemma Version_String_not_Nil [simp]: "Version_String v \<noteq> []"
  by (simp add: Version_String_def Let_def)

lemma raw_not_Nil: "series_ok s \<Longrightarrow> raw s \<noteq> []"
  by (erule series_cases) auto

lemma TrimSpace_default: "TrimSpace DefaultTemplate = DefaultTemplate"
  by (rule TrimSpace_plain) (simp add: DefaultTemplate_def plain_char_def)

definition default_template :: "string \<Rightarrow> string" where
  "default_template t = (if TrimSpace t = [] then DefaultTemplate else TrimSpace t)"

lemma default_template_idem: "default_template (default_template t) = default_template t"
  by (simp add: default_template_def TrimSpace_idem TrimSpace_default)

lemma settings_defaults_eq:
  "settings_defaults s =
     s\<lparr>s_Scheme := (if s_Scheme s = [] then ''semver'' else s_Scheme s),
       s_Template := default_template (s_Template s),
       s_Bump := (if s_Bump s = [] then BumpPatch else s_Bump s),
       s_Others := (if s_Others s = [] then ''prerelease'' else s_Others s)\<rparr>"
  by (simp add: settings_defaults_def default_template_def Let_def)

lemma settings_defaults_idem: "settings_defaults (settings_defaults s) = settings_defaults s"
  by (simp add: settings_defaults_eq default_template_idem)

lemma normalize_branches_idem:
  "normalize_branches bs = Inr bs' \<Longrightarrow> normalize_branches bs' = Inr bs'"
proof (induction bs arbitrary: bs')
  case (Cons b bs)
  obtain pattern ser where b: "b = (pattern, ser)" by (cases b)
  from Cons.prems b obtain parsed rest where parsed: "ParseSeries ser = Inr parsed"
    and rest: "normalize_branches bs = Inr rest" and bs': "bs' = (pattern, raw parsed) # rest"
    by (auto split: sum.splits)
  from ParseSeries_raw [OF ParseSeries_ok [OF parsed]] Cons.IH [OF rest] bs' show ?case by simp
qed simp

lemma normalize_semver_idem:
  assumes "normalize_semver s = Inr s'"
  shows "normalize_semver s' = Inr s'"
proof -
  have "\<exists>t u series start bs. ParseSeries t = Inr series \<and> ParseVersion u = Inr start \<and> Pre start = [] \<and>
      Contains series start \<and> ValidBump (s_Bump s) \<and> Allows series (s_Bump s) \<and>
      normalize_branches (s_BranchSeries s) = Inr bs \<and>
      s' = s\<lparr>s_Series := raw series, s_Start := Version_String start, s_BranchSeries := bs,
             s_CalverFormat := []\<rparr>"
    using assms
    by (simp add: normalize_semver_def Let_def split: sum.splits if_splits) blast+
  then obtain t u series start bs where parsed: "ParseSeries t = Inr series" "ParseVersion u = Inr start"
    and start: "Pre start = []" "Contains series start" "ValidBump (s_Bump s)" "Allows series (s_Bump s)"
    and bs: "normalize_branches (s_BranchSeries s) = Inr bs"
    and s': "s' = s\<lparr>s_Series := raw series, s_Start := Version_String start, s_BranchSeries := bs,
               s_CalverFormat := []\<rparr>" by blast
  have series: "series_ok series" and "printable start"
    using ParseSeries_ok [OF parsed(1)] ParseVersion_release_ok [OF parsed(2) start(1)] by auto
  then show ?thesis
    using ParseSeries_raw [OF series] ParseVersion_String [of start] start s'
      raw_not_Nil [OF series] normalize_branches_idem [OF bs]
    by (simp add: normalize_semver_def Let_def)
qed

lemma normalize_calver_idem: "normalize_calver s = Inr s' \<Longrightarrow> normalize_calver s' = Inr s'"
  by (auto simp: normalize_calver_def Let_def split: if_splits)

text \<open>The scheme-specific step leaves alone what the common defaults and checks look at.\<close>

lemma normalize_keeps_defaults:
  assumes "normalize_semver s = Inr s' \<or> normalize_calver s = Inr s'"
  shows "s_Scheme s' = s_Scheme s" "s_Template s' = s_Template s" "s_Bump s' = s_Bump s"
    "s_Others s' = s_Others s"
  using assms
  by (auto simp: normalize_semver_def normalize_calver_def Let_def split: sum.splits if_splits)

lemma settings_defaults_fixed:
  assumes "settings_defaults t = t" "s_Scheme s = s_Scheme t" "s_Template s = s_Template t"
    "s_Bump s = s_Bump t" "s_Others s = s_Others t"
  shows "settings_defaults s = s"
proof -
  have "settings_defaults s = s\<lparr>s_Scheme := s_Scheme (settings_defaults t),
      s_Template := s_Template (settings_defaults t), s_Bump := s_Bump (settings_defaults t),
      s_Others := s_Others (settings_defaults t)\<rparr>"
    using assms(2-5) by (simp add: settings_defaults_eq)
  also have "\<dots> = s" using assms by simp
  finally show ?thesis .
qed

lemma check_common_id: "check_common s = Inr s' \<Longrightarrow> s' = s"
  by (auto simp: check_common_def split: option.splits if_splits)

lemma Normalize_idem_aux:
  assumes "Normalize s = Inr s'"
  shows "Normalize s' = Inr s'"
proof -
  let ?d = "settings_defaults s"
  consider "s_Scheme ?d = ''semver''" | "s_Scheme ?d = ''calver''" | "s' = run_settings"
    using assms by (auto simp: Normalize_def Let_def split: if_splits)
  then show ?thesis
  proof cases
    case 1
    with assms have n: "normalize_semver ?d = Inr s'" and c: "check_common s' = Inr s'"
      by (auto simp: Normalize_def Let_def split: sum.splits dest: check_common_id)
    have "settings_defaults s' = s'"
      using normalize_keeps_defaults [of ?d s'] n
      by (intro settings_defaults_fixed [OF settings_defaults_idem]) auto
    then show ?thesis
      using 1 normalize_keeps_defaults [of ?d s'] n c normalize_semver_idem [OF n]
      by (simp add: Normalize_def)
  next
    case 2
    with assms have n: "normalize_calver ?d = Inr s'" and c: "check_common s' = Inr s'"
      by (auto simp: Normalize_def Let_def split: sum.splits dest: check_common_id)
    have "settings_defaults s' = s'"
      using normalize_keeps_defaults [of ?d s'] n
      by (intro settings_defaults_fixed [OF settings_defaults_idem]) auto
    then show ?thesis
      using 2 normalize_keeps_defaults [of ?d s'] n c normalize_calver_idem [OF n]
      by (simp add: Normalize_def)
  next
    case 3
    then show ?thesis
      by (simp add: Normalize_def run_settings_def settings_defaults_eq default_template_def TrimSpace_default
          DefaultTemplate_def)
  qed
qed

section \<open>Properties\<close>

text \<open>A release planned for a branch lies on the series of that branch, is strictly greater than
  every release the ledger already holds on that series, and carries a valid image tag.\<close>

theorem release_advances:
  assumes "nextSemver p existing req True = Inr plan" and "far_from_limit existing"
  shows "\<exists>series v. seriesFor p (r_Branch req) = Inr series \<and> ParseVersion (pl_Version plan) = Inr v \<and>
    Contains series v \<and> Pre v = [] \<and> pl_Series plan = raw series \<and> dockerTag (pl_Tag plan) \<and>
    (\<forall>a \<in> set existing. \<forall>w. release_on series a = Some w \<longrightarrow> Compare w v < 0)"
proof -
  obtain series v plan0 tag where s: "seriesFor p (r_Branch req) = Inr series" "series_ok series"
    and t: "semver_target p existing req series = Inr (v, plan0)" and "dockerTag tag"
    and "plan = plan0\<lparr>pl_Version := Version_String v, pl_Tag := tag\<rparr>"
    by (rule nextSemver_cases [OF assms(1)]) auto
  moreover note adv = semver_target_advances [OF t s(2) assms(2)]
  moreover have "ParseVersion (Version_String v) = Inr v"
    using adv by (intro ParseVersion_String version_ok_printable)
  ultimately show ?thesis by auto
qed

definition sample_policy :: VersionPolicy where
  "sample_policy = \<lparr>p_ID = 1, p_WorkspaceID = 1, p_Scheme = ''semver'', p_Template = [], p_Series = ''1.4.x'',
     p_Bump = BumpMinor, p_Start = [], p_CalverFormat = [], p_ReleaseBranches = [''main''],
     p_OtherBranches = ''prerelease'', p_BranchSeries = [], p_FloatingTags = [''{major}.{minor}''],
     p_BumpFromCommits = False, p_ManagedBy = [], p_Current = []\<rparr>"

definition sample_row :: "nat \<Rightarrow> string \<Rightarrow> VersionAllocation" where
  "sample_row i v = \<lparr>a_ID = i, a_PolicyID = 1, a_Version = v, a_Tag = v, a_Series = ''1.4.x'', a_Branch = ''main'',
     a_Prerelease = False, a_Bump = BumpPatch, a_Exact = False, a_Note = [], a_Status = ''published'',
     a_PipelineRunID = i, a_Digest = ''sha256:ab''\<rparr>"

definition sample_request :: "string \<Rightarrow> Request" where
  "sample_request branch = \<lparr>r_Branch = branch, r_Commit = [], r_CommitMessage = [], r_Bump = [], r_Exact = [],
     r_Now = None\<rparr>"

definition sample_clock :: date where
  "sample_clock = \<lparr>d_Year = 2025, d_Month = 3, d_Day = 14\<rparr>"

definition sample_plan :: Plan where
  "sample_plan = \<lparr>pl_Skip = False, pl_Version = ''1.4.10'', pl_Tag = ''v1.4.10'', pl_Series = ''1.4.x'',
     pl_Branch = ''main'', pl_Prerelease = False, pl_Bump = BumpPatch, pl_Exact = False,
     pl_Note = ''policy bump minor lowered to patch to stay on 1.4.x''\<rparr>"

definition sample_rows :: "VersionAllocation list" where
  "sample_rows = [sample_row 1 ''1.4.9'', sample_row 2 ''1.3.30'']"

lemma sample_next:
  "nextSemver sample_policy sample_rows (sample_request ''main'') True = Inr sample_plan"
  "Next sample_clock sample_policy sample_rows (sample_request ''main'') = Inr sample_plan"
  "far_from_limit sample_rows" "ledger_ok sample_rows"
  by code_simp+

theorem release_advances_witness:
  "\<exists>series v. seriesFor sample_policy ''main'' = Inr series \<and> ParseVersion ''1.4.10'' = Inr v \<and> Contains series v"
  using release_advances [OF sample_next(1,3)] by (auto simp: sample_plan_def sample_request_def)

text \<open>Under either scheme, on release branches and others, a version that \<open>Next\<close> plans is not
  one the ledger already holds, and a prerelease is recognisable by the dash in its version.\<close>

theorem Next_never_reuses:
  assumes "Next clock p existing req = Inr plan" and "\<not> pl_Skip plan"
    and "far_from_limit existing" and "ledger_ok existing" and "request_time_ok clock req"
  shows "\<not> used existing (pl_Version plan) \<and> (pl_Prerelease plan \<longrightarrow> CHR ''-'' \<in> set (pl_Version plan))"
  by (rule Next_fresh [OF assms])

theorem Next_never_reuses_witness:
  "\<not> used sample_rows (pl_Version sample_plan)"
proof -
  have "\<not> pl_Skip sample_plan" and "request_time_ok sample_clock (sample_request ''main'')" by code_simp+
  then show ?thesis using Next_never_reuses [OF sample_next(2) _ sample_next(3,4)] by blast
qed

definition wanted_bump :: "VersionPolicy \<Rightarrow> Request \<Rightarrow> VersionBump" where
  "wanted_bump p req =
     (case (if p_BumpFromCommits p then BumpFromCommit (r_CommitMessage req) else None) of
        Some b \<Rightarrow> b | None \<Rightarrow> if ValidBump (p_Bump p) then p_Bump p else BumpPatch)"

lemma chooseBump_clamps:
  assumes "r_Bump req = []"
  shows "\<exists>nt. chooseBump p series req = Inr (Clamp series (wanted_bump p req), nt) \<and>
    (nt = [] \<longleftrightarrow> Clamp series (wanted_bump p req) = wanted_bump p req)"
proof -
  obtain source where source: "(if p_BumpFromCommits p
                then (case BumpFromCommit (r_CommitMessage req) of
                        Some b \<Rightarrow> (b, ''commit'') | None \<Rightarrow> (if ValidBump (p_Bump p) then p_Bump p else BumpPatch, ''policy''))
                else (if ValidBump (p_Bump p) then p_Bump p else BumpPatch, ''policy'')) = (wanted_bump p req, source)"
    by (cases "BumpFromCommit (r_CommitMessage req)"; cases "p_BumpFromCommits p") (simp_all add: wanted_bump_def)
  show ?thesis unfolding chooseBump_def Let_def source prod.case using assms by simp
qed

text \<open>Without an explicit bump in the request, the planner always chooses one: the greatest the
  series allows that is not above the wanted one (the commit's when commits drive bumps, else the
  policy's), and it leaves a note exactly when it had to lower it.\<close>

theorem chooseBump_greatest:
  assumes "r_Bump req = []"
  shows "\<exists>b nt. chooseBump p series req = Inr (b, nt) \<and> Allows series b \<and>
    bumpRank b \<le> bumpRank (wanted_bump p req) \<and> (nt = [] \<longleftrightarrow> b = wanted_bump p req) \<and>
    (\<forall>c. Allows series c \<and> bumpRank c \<le> bumpRank (wanted_bump p req) \<longrightarrow> bumpRank c \<le> bumpRank b)"
proof -
  let ?w = "wanted_bump p req"
  obtain nt where "chooseBump p series req = Inr (Clamp series ?w, nt)"
    and "nt = [] \<longleftrightarrow> Clamp series ?w = ?w"
    using chooseBump_clamps [OF assms] by metis
  then show ?thesis using Clamp_allowed [of series ?w] Clamp_greatest [of series _ ?w] by simp
qed

theorem chooseBump_greatest_witness:
  "\<exists>b nt. chooseBump sample_policy \<lparr>raw = ''1.4.x'', fixed = [1, 4]\<rparr> (sample_request ''main'') = Inr (b, nt) \<and>
     Allows \<lparr>raw = ''1.4.x'', fixed = [1, 4]\<rparr> b"
proof -
  have "r_Bump (sample_request ''main'') = []" by (simp add: sample_request_def)
  from chooseBump_greatest [OF this, of sample_policy "\<lparr>raw = ''1.4.x'', fixed = [1, 4]\<rparr>"]
  show ?thesis by blast
qed

text \<open>Settings that were normalised once are a fixed point of \<open>Normalize\<close>: what is stored is what
  the next edit of the form reads, checks and stores again.\<close>

theorem Normalize_idem:
  assumes "Normalize s = Inr s'"
  shows "Normalize s' = Inr s'"
  by (rule Normalize_idem_aux [OF assms])

theorem Normalize_idem_witness:
  "Normalize (SettingsOf (sample_policy\<lparr>p_Bump := BumpPatch, p_Start := ''1.4.0'', p_Template := DefaultTemplate\<rparr>)) =
   Inr (SettingsOf (sample_policy\<lparr>p_Bump := BumpPatch, p_Start := ''1.4.0'', p_Template := DefaultTemplate\<rparr>))"
proof -
  have "Normalize (SettingsOf (sample_policy\<lparr>p_Bump := [], p_Series := '' v1.4.X''\<rparr>)) =
      Inr (SettingsOf (sample_policy\<lparr>p_Bump := BumpPatch, p_Start := ''1.4.0'', p_Template := DefaultTemplate\<rparr>))"
    by code_simp
  then show ?thesis by (rule Normalize_idem)
qed

end
