(* ===== verification/Version_Ledger.thy ===== *)
theory Version_Ledger
  imports Version_Planner
begin

text \<open>
  The life of a reserved version: \<^verbatim>\<open>internal/services/versioning/service.go\<close> over the transactions of
  \<^verbatim>\<open>internal/storage/repositories/version_repo.go\<close>. A run reserves a version when it starts; when it
  ends, \<open>Settle\<close> publishes the version, or gives it back (deletes the row if it is the head of its
  group, else marks it abandoned). The lemmas show that a reservation never loses the race for
  its own number, that published rows are permanent, that giving back the newest version makes the
  ledger what it was, and that a floating tag never moves to an older version.

  The state is the ledger of one policy: the policy row, its allocation rows in id order and the
  next row id. A transaction that the database aborts leaves the ledger as it was; the unique key
  on (policy, version) is the check in \<open>repo_Reserve\<close>. The registry and the image catalogue are
  the \<open>World\<close>; which of their calls fail is decided by the environment \<open>Env\<close>.
\<close>

section \<open>The ledger and its transactions\<close>

record Ledger =
  l_policy :: VersionPolicy
  l_rows :: "VersionAllocation list"
  l_seq :: nat

datatype reserve_error = PlanError version_error | ErrAllocationConflict

abbreviation AllocationReserved :: string where "AllocationReserved \<equiv> ''reserved''"
abbreviation AllocationPublished :: string where "AllocationPublished \<equiv> ''published''"
abbreviation AllocationAbandoned :: string where "AllocationAbandoned \<equiv> ''abandoned''"

definition repo_Reserve ::
  "Ledger \<Rightarrow> (VersionPolicy \<Rightarrow> VersionAllocation list \<Rightarrow> version_error + VersionAllocation option)
   \<Rightarrow> Ledger \<times> (reserve_error + VersionAllocation option)" where
  "repo_Reserve l plan =
     (case plan (l_policy l) (l_rows l) of
        Inl e \<Rightarrow> (l, Inl (PlanError e))
      | Inr None \<Rightarrow> (l, Inr None)
      | Inr (Some a) \<Rightarrow>
          if used (l_rows l) (a_Version a) then (l, Inl ErrAllocationConflict)
          else (let a' = a\<lparr>a_ID := l_seq l\<rparr>
                in (l\<lparr>l_rows := l_rows l @ [a'], l_seq := Suc (l_seq l)\<rparr>, Inr (Some a'))))"

text \<open>\<open>SaveAllocation\<close> and the \<open>Updates\<close> of the transactions: change the row with an id.\<close>

definition update_row :: "nat \<Rightarrow> (VersionAllocation \<Rightarrow> VersionAllocation) \<Rightarrow> Ledger \<Rightarrow> Ledger" where
  "update_row i f l = l\<lparr>l_rows := map (\<lambda>a. if a_ID a = i then f a else a) (l_rows l)\<rparr>"

definition repo_Release :: "Ledger \<Rightarrow> VersionAllocation \<Rightarrow> string \<Rightarrow> Ledger \<times> bool" where
  "repo_Release l a nt =
     (if IsHead a (l_rows l)
      then (l\<lparr>l_rows := filter (\<lambda>b. a_ID b \<noteq> a_ID a) (l_rows l)\<rparr>, True)
      else (update_row (a_ID a) (\<lambda>b. b\<lparr>a_Status := AllocationAbandoned, a_Note := nt\<rparr>) l, False))"

definition repo_Publish :: "Ledger \<Rightarrow> VersionAllocation \<Rightarrow> string \<Rightarrow> Ledger" where
  "repo_Publish l a current =
     (let l = update_row (a_ID a)
                (\<lambda>b. b\<lparr>a_Status := AllocationPublished, a_Digest := a_Digest a, a_Note := a_Note a\<rparr>) l
      in if current = [] then l else l\<lparr>l_policy := (l_policy l)\<lparr>p_Current := current\<rparr>\<rparr>)"

text \<open>The newest row of a run.\<close>

definition FindAllocationByRun :: "Ledger \<Rightarrow> nat \<Rightarrow> VersionAllocation option" where
  "FindAllocationByRun l runID =
     keep_best (\<lambda>a. a_PipelineRunID a = runID) (\<lambda>a b. a_ID b < a_ID a) None (l_rows l)"

section \<open>Reserving\<close>

record Run =
  run_ID :: nat
  run_WorkspaceID :: nat
  run_Status :: string
  run_Branch :: string
  run_Commit :: string
  run_CommitMessage :: string
  run_Version :: string
  run_ImageTag :: string
  run_ImageID :: "nat option"
  run_StepUses :: "string list"

definition plan_row :: "VersionPolicy \<Rightarrow> nat \<Rightarrow> Plan \<Rightarrow> VersionAllocation" where
  "plan_row p runID plan =
     \<lparr>a_ID = 0, a_PolicyID = p_ID p, a_Version = pl_Version plan, a_Tag = pl_Tag plan,
      a_Series = pl_Series plan, a_Branch = pl_Branch plan, a_Prerelease = pl_Prerelease plan,
      a_Bump = pl_Bump plan, a_Exact = pl_Exact plan, a_Note = pl_Note plan,
      a_Status = AllocationReserved, a_PipelineRunID = runID, a_Digest = []\<rparr>"

definition plan_allocation ::
  "date \<Rightarrow> nat \<Rightarrow> Request \<Rightarrow> VersionPolicy \<Rightarrow> VersionAllocation list \<Rightarrow> version_error + VersionAllocation option" where
  "plan_allocation clock runID req p existing =
     (case Next clock p existing req of
        Inl e \<Rightarrow> Inl e
      | Inr plan \<Rightarrow> if pl_Skip plan then Inr None else Inr (Some (plan_row p runID plan)))"

definition maxReserveAttempts :: nat where
  "maxReserveAttempts = 5"

fun reserve_loop ::
  "nat \<Rightarrow> date \<Rightarrow> Ledger \<Rightarrow> nat \<Rightarrow> Request \<Rightarrow> Ledger \<times> (reserve_error + VersionAllocation option)" where
  "reserve_loop 0 clock l runID req = repo_Reserve l (plan_allocation clock runID req)"
| "reserve_loop (Suc n) clock l runID req =
     (case repo_Reserve l (plan_allocation clock runID req) of
        (l', Inl ErrAllocationConflict) \<Rightarrow> reserve_loop n clock l' runID req
      | r \<Rightarrow> r)"

definition reserve :: "date \<Rightarrow> Ledger \<Rightarrow> nat \<Rightarrow> Request \<Rightarrow> Ledger \<times> (reserve_error + VersionAllocation option)" where
  "reserve clock l runID req = reserve_loop maxReserveAttempts clock l runID req"

text \<open>\<open>Reserve\<close>: without a policy (\<open>None\<close>) an override is refused and anything else is a no-op.\<close>

definition Reserve ::
  "date \<Rightarrow> Ledger option \<Rightarrow> Run \<Rightarrow> Request \<Rightarrow> Ledger option \<times> Run \<times> reserve_error option" where
  "Reserve clock lo run req =
     (case lo of
        None \<Rightarrow> (None, run, if r_Bump req \<noteq> [] \<or> r_Exact req \<noteq> []
                           then Some (PlanError ErrOverrideNotSupported) else None)
      | Some l \<Rightarrow>
          (let req = (if r_Branch req = [] then req\<lparr>r_Branch := run_Branch run\<rparr> else req);
               req = (if r_Commit req = [] then req\<lparr>r_Commit := run_Commit run\<rparr> else req);
               req = (if r_CommitMessage req = [] then req\<lparr>r_CommitMessage := run_CommitMessage run\<rparr> else req)
           in case reserve clock l (run_ID run) req of
                (l', Inl e) \<Rightarrow> (Some l', run, Some e)
              | (l', Inr None) \<Rightarrow> (Some l', run, None)
              | (l', Inr (Some a)) \<Rightarrow>
                  (Some l', run\<lparr>run_Version := a_Version a, run_ImageTag := a_Tag a\<rparr>, None)))"

section \<open>The registry\<close>

record World =
  w_tags :: "string \<times> string \<Rightarrow> string option"
  w_images :: "nat \<Rightarrow> string option"

record Env =
  e_registry :: bool
  e_tag_fails :: "string \<Rightarrow> string \<Rightarrow> string option"
  e_lookup_fails :: "string \<Rightarrow> string \<Rightarrow> bool"
  e_images :: bool
  e_pipelines :: bool
  e_runBuilds :: "nat \<Rightarrow> bool option"

definition TagImage :: "Env \<Rightarrow> World \<Rightarrow> string \<Rightarrow> string \<Rightarrow> string \<Rightarrow> string + World" where
  "TagImage E w repository digest tag =
     (case e_tag_fails E repository tag of
        Some err \<Rightarrow> Inl err
      | None \<Rightarrow> Inr (w\<lparr>w_tags := (w_tags w)((repository, tag) := Some digest)\<rparr>))"

text \<open>\<open>ImageTagDigest\<close>: \<open>None\<close> when the registry does not answer.\<close>

definition ImageTagDigest :: "Env \<Rightarrow> World \<Rightarrow> string \<Rightarrow> string \<Rightarrow> string option option" where
  "ImageTagDigest E w repository tag =
     (if e_lookup_fails E repository tag then None else Some (w_tags w (repository, tag)))"

definition shortDigest :: "string \<Rightarrow> string" where
  "shortDigest d = (let d = TrimPrefix d ''sha256:'' in if length d > 12 then take 12 d else d)"

definition maxTagSkips :: nat where
  "maxTagSkips = 20"

datatype verify_error = VerifyReserve reserve_error | ErrTagExists

text \<open>\<open>VerifyTagFree\<close>: give up a version whose tag the registry already has and reserve the next.\<close>

fun verify_loop ::
  "nat \<Rightarrow> Env \<Rightarrow> World \<Rightarrow> date \<Rightarrow> Ledger \<Rightarrow> Run \<Rightarrow> string \<Rightarrow> VersionAllocation \<Rightarrow> Ledger \<times> Run \<times> verify_error option" where
  "verify_loop 0 E w clock l run repository a = (l, run, Some ErrTagExists)"
| "verify_loop (Suc n) E w clock l run repository a =
     (case ImageTagDigest E w repository (a_Tag a) of
        None \<Rightarrow> (l, run, None)
      | Some None \<Rightarrow> (l, run, None)
      | Some (Some digest) \<Rightarrow>
          (let nt = ''tag already in the registry ('' @ shortDigest digest @ '')'';
               l = update_row (a_ID a) (\<lambda>b. b\<lparr>a_Status := AllocationAbandoned, a_Note := nt\<rparr>) l
           in if a_Exact a then (l, run, Some ErrTagExists)
              else (case reserve clock l (run_ID run)
                       \<lparr>r_Branch = run_Branch run, r_Commit = run_Commit run,
                        r_CommitMessage = run_CommitMessage run, r_Bump = [], r_Exact = [], r_Now = None\<rparr> of
                      (l, Inl e) \<Rightarrow> (l, run, Some (VerifyReserve e))
                    | (l, Inr None) \<Rightarrow> (l, run\<lparr>run_Version := [], run_ImageTag := []\<rparr>, None)
                    | (l, Inr (Some next)) \<Rightarrow>
                        verify_loop n E w clock l
                          (run\<lparr>run_Version := a_Version next, run_ImageTag := a_Tag next\<rparr>) repository next)))"

definition VerifyTagFree ::
  "Env \<Rightarrow> World \<Rightarrow> date \<Rightarrow> Ledger \<Rightarrow> Run \<Rightarrow> string \<Rightarrow> Ledger \<times> Run \<times> verify_error option" where
  "VerifyTagFree E w clock l run repository =
     (if \<not> e_registry E \<or> repository = [] then (l, run, None)
      else (case FindAllocationByRun l (run_ID run) of
              None \<Rightarrow> (l, run, None)
            | Some a \<Rightarrow>
                if a_Status a \<noteq> AllocationReserved then (l, run, None)
                else verify_loop maxTagSkips E w clock l run repository a))"

section \<open>Settling\<close>

definition expectsImage :: "Env \<Rightarrow> Run \<Rightarrow> bool" where
  "expectsImage E run =
     (if run_StepUses run \<noteq> [] then list_ex (\<lambda>u. u = ''build'') (run_StepUses run)
      else if \<not> e_pipelines E then True
      else (case e_runBuilds E (run_ID run) of None \<Rightarrow> True | Some b \<Rightarrow> b))"

definition versionVars :: "string \<Rightarrow> tagVars" where
  "versionVars version =
     (let parts = SplitChar (fst (CutChar version CHR ''-'')) CHR ''.'';
          part = (\<lambda>i. if length parts > i then parts ! i else [])
      in \<lparr>tv_version = version, tv_major = part 0, tv_minor = part 1, tv_patch = part 2, tv_sha = []\<rparr>)"

fun compare_parts :: "string list \<Rightarrow> string list \<Rightarrow> int option" where
  "compare_parts (a # as) (b # bs) =
     (if Atoi0 a \<noteq> Atoi0 b then Some (sign_of (wrap64 (Atoi0 a - Atoi0 b))) else compare_parts as bs)"
| "compare_parts _ _ = None"

definition compareVersions :: "string \<Rightarrow> string \<Rightarrow> int" where
  "compareVersions a b =
     (if b = [] then (if a = [] then 0 else 1)
      else (case (ParseVersion a, ParseVersion b) of
              (Inr va, Inr vb) \<Rightarrow> Compare va vb
            | _ \<Rightarrow>
                (let pa = SplitChar a CHR ''.''; pb = SplitChar b CHR ''.''
                 in case compare_parts pa pb of
                      Some c \<Rightarrow> c
                    | None \<Rightarrow> sign_of (int (length pa) - int (length pb)))))"

definition publishedDigest :: "VersionAllocation list \<Rightarrow> string \<Rightarrow> bool" where
  "publishedDigest existing digest =
     list_ex (\<lambda>a. a_Status a = AllocationPublished \<and> a_Digest a = digest) existing"

definition newer_published :: "VersionAllocation list \<Rightarrow> VersionAllocation \<Rightarrow> string \<Rightarrow> bool" where
  "newer_published existing a tmpl =
     list_ex (\<lambda>b. \<not> (a_ID b = a_ID a \<or> a_Prerelease b \<or> a_Status b \<noteq> AllocationPublished) \<and>
                  render tmpl (versionVars (a_Version b)) = render tmpl (versionVars (a_Version a)) \<and>
                  compareVersions (a_Version b) (a_Version a) > 0) existing"

definition move_one ::
  "Env \<Rightarrow> VersionAllocation list \<Rightarrow> VersionAllocation \<Rightarrow> string \<Rightarrow> string \<Rightarrow> World \<Rightarrow> World" where
  "move_one E existing a repository tmpl w =
     (let tag = render tmpl (versionVars (a_Version a))
      in if newer_published existing a tmpl then w
         else if (case ImageTagDigest E w repository tag of
                    Some (Some cur) \<Rightarrow> cur \<noteq> a_Digest a \<and> \<not> publishedDigest existing cur
                  | _ \<Rightarrow> False) then w
         else (case TagImage E w repository (a_Digest a) tag of Inl _ \<Rightarrow> w | Inr w' \<Rightarrow> w'))"

definition moveFloating ::
  "Env \<Rightarrow> Ledger \<Rightarrow> VersionPolicy \<Rightarrow> VersionAllocation \<Rightarrow> string \<Rightarrow> World \<Rightarrow> World" where
  "moveFloating E l p a repository w =
     (if \<not> e_registry E \<or> repository = [] \<or> p_FloatingTags p = [] then w
      else fold (move_one E (l_rows l) a repository) (p_FloatingTags p) w)"

definition label_image :: "Env \<Rightarrow> Run \<Rightarrow> string \<Rightarrow> World \<Rightarrow> World" where
  "label_image E run tag w =
     (case run_ImageID run of
        Some i \<Rightarrow> if e_images E then w\<lparr>w_images := (w_images w)(i := Some tag)\<rparr> else w
      | None \<Rightarrow> w)"

text \<open>The tag of a published version; a failure is noted on the row.\<close>

definition tag_version :: "Env \<Rightarrow> World \<Rightarrow> string \<Rightarrow> string \<Rightarrow> VersionAllocation \<Rightarrow> World \<times> VersionAllocation" where
  "tag_version E w repository digest a =
     (if e_registry E \<and> repository \<noteq> [] \<and> digest \<noteq> []
      then (case TagImage E w repository digest (a_Tag a) of
              Inl err \<Rightarrow> (w, a\<lparr>a_Note := ''registry tag failed: '' @ err\<rparr>)
            | Inr w' \<Rightarrow> (w', a))
      else (w, a))"

definition publish_version ::
  "Env \<Rightarrow> Ledger \<Rightarrow> World \<Rightarrow> Run \<Rightarrow> string \<Rightarrow> VersionAllocation \<Rightarrow> Ledger \<times> World" where
  "publish_version E l w run repository a =
     (let policy = l_policy l;
          current = (if \<not> a_Prerelease a \<and> compareVersions (a_Version a) (p_Current policy) > 0
                     then a_Version a else []);
          l = repo_Publish l a current;
          w = label_image E run (a_Tag a) w
      in (l, if \<not> a_Prerelease a \<and> isReleaseBranch policy (a_Branch a)
             then moveFloating E l policy a repository w else w))"

definition Settle :: "Env \<Rightarrow> Ledger \<Rightarrow> World \<Rightarrow> Run \<Rightarrow> string \<Rightarrow> string \<Rightarrow> Ledger \<times> World" where
  "Settle E l w run digest repository =
     (case FindAllocationByRun l (run_ID run) of
        None \<Rightarrow> (l, w)
      | Some a \<Rightarrow>
          if a_Status a \<noteq> AllocationReserved then (l, w)
          else if run_Status run \<noteq> ''succeeded'' \<or> (digest = [] \<and> expectsImage E run)
            then (fst (repo_Release l a (''run '' @ run_Status run)), w)
          else if \<not> (p_ID (l_policy l) = a_PolicyID a \<and> p_WorkspaceID (l_policy l) = run_WorkspaceID run)
            then (l, w)
          else (case tag_version E w repository digest (a\<lparr>a_Digest := digest\<rparr>) of
                  (w', a') \<Rightarrow> publish_version E l w' run repository a'))"

section \<open>The ledger invariant\<close>

definition ledger_inv :: "Ledger \<Rightarrow> bool" where
  "ledger_inv l \<longleftrightarrow> ledger_ok (l_rows l) \<and> distinct (map a_ID (l_rows l)) \<and>
     distinct (map a_Version (l_rows l)) \<and> (\<forall>a \<in> set (l_rows l). a_ID a < l_seq l)"

lemma ledger_invD [dest]:
  "ledger_inv l \<Longrightarrow> ledger_ok (l_rows l)" "ledger_inv l \<Longrightarrow> distinct (map a_ID (l_rows l))"
  by (simp_all add: ledger_inv_def)

lemma ledger_ok_append: "ledger_ok (xs @ ys) = (ledger_ok xs \<and> ledger_ok ys)"
  by (simp add: ledger_ok_def)

lemma used_iff: "used rows v \<longleftrightarrow> v \<in> a_Version ` set rows"
  by (auto simp: used_def list_ex_iff)

lemma l_seq_update_row [simp]: "l_seq (update_row i f l) = l_seq l"
  by (simp add: update_row_def)

text \<open>Updates that leave ids, versions and prerelease flags alone keep the invariant.\<close>

lemma update_row_inv:
  assumes "ledger_inv l" and "\<And>b. a_ID (f b) = a_ID b \<and> a_Version (f b) = a_Version b \<and> a_Prerelease (f b) = a_Prerelease b"
  shows "ledger_inv (update_row i f l)"
proof -
  let ?g = "\<lambda>a. if a_ID a = i then f a else a"
  have rows: "l_rows (update_row i f l) = map ?g (l_rows l)" by (simp add: update_row_def)
  have ids: "map a_ID (map ?g (l_rows l)) = map a_ID (l_rows l)"
    and vs: "map a_Version (map ?g (l_rows l)) = map a_Version (l_rows l)"
    using assms(2) by simp_all
  have "ledger_ok (map ?g (l_rows l))" and "\<forall>a \<in> set (map ?g (l_rows l)). a_ID a < l_seq l"
    using assms by (auto simp: ledger_inv_def ledger_ok_def list_all_iff)
  then show ?thesis using assms(1) unfolding ledger_inv_def rows ids vs l_seq_update_row by blast
qed

lemma repo_Release_inv: "ledger_inv l \<Longrightarrow> ledger_inv (fst (repo_Release l a nt))"
proof -
  have "distinct (map h (filter P xs))" if "distinct (map h xs)" for h :: "VersionAllocation \<Rightarrow> 'c" and P xs
    using that by (rule distinct_map_filter)
  then show "ledger_inv l \<Longrightarrow> ledger_inv (fst (repo_Release l a nt))"
    by (auto simp: repo_Release_def intro: update_row_inv)
       (auto simp: ledger_inv_def ledger_ok_def list_all_iff intro: distinct_map_filter)
qed

lemma repo_Publish_inv: "ledger_inv l \<Longrightarrow> ledger_inv (repo_Publish l a current)"
  using update_row_inv [of l "\<lambda>b. b\<lparr>a_Status := AllocationPublished, a_Digest := a_Digest a, a_Note := a_Note a\<rparr>" "a_ID a"]
  by (simp add: repo_Publish_def Let_def ledger_inv_def)

text \<open>What a reservation can do: nothing, or append one fresh row.\<close>

lemma repo_Reserve_cases:
  assumes "repo_Reserve l (plan_allocation clock runID req) = (l', r)"
  obtains (unchanged) "l' = l" and "\<And>a. r \<noteq> Inr (Some a)"
  | (appended) plan a where "Next clock (l_policy l) (l_rows l) req = Inr plan" and "\<not> pl_Skip plan"
      and "a_ID a = l_seq l" and "a_Version a = pl_Version plan" and "a_Prerelease a = pl_Prerelease plan"
      and "a_Status a = AllocationReserved" and "a_PipelineRunID a = runID" and "a_Tag a = pl_Tag plan"
      and "\<not> used (l_rows l) (pl_Version plan)" and "r = Inr (Some a)"
      and "l' = l\<lparr>l_rows := l_rows l @ [a], l_seq := Suc (l_seq l)\<rparr>"
proof (cases "Next clock (l_policy l) (l_rows l) req")
  case (Inl e)
  then show ?thesis using assms unchanged by (auto simp: repo_Reserve_def plan_allocation_def)
next
  case (Inr plan)
  show ?thesis
  proof (cases "pl_Skip plan \<or> used (l_rows l) (pl_Version plan)")
    case True
    then show ?thesis using assms Inr unchanged
      by (auto simp: repo_Reserve_def plan_allocation_def plan_row_def split: if_splits)
  next
    case False
    then show ?thesis
      using assms Inr appended [of plan "(plan_row (l_policy l) runID plan)\<lparr>a_ID := l_seq l\<rparr>"]
      by (simp add: repo_Reserve_def plan_allocation_def plan_row_def Let_def)
  qed
qed

lemma Version_String_dash: "Pre v \<noteq> [] \<Longrightarrow> CHR ''-'' \<in> set (Version_String v)"
  by (simp add: Version_String_def Let_def)

lemma Next_prerelease_dash:
  assumes "Next clock p ex req = Inr plan" and "\<not> pl_Skip plan" and "pl_Prerelease plan"
  shows "CHR ''-'' \<in> set (pl_Version plan)"
  using Next_cases [OF assms(1,2)]
proof
  assume "nextSemver p ex req (isReleaseBranch p (r_Branch req)) = Inr plan"
  then obtain series v plan0 tag where tgt: "semver_target p ex req series = Inr (v, plan0)"
    and plan: "plan = (if isReleaseBranch p (r_Branch req) then plan0 else plan0\<lparr>pl_Prerelease := True\<rparr>)
        \<lparr>pl_Version := Version_String (if isReleaseBranch p (r_Branch req) then v
            else v\<lparr>Pre := prereleaseID v (r_Branch req) ex\<rparr>), pl_Tag := tag\<rparr>"
    by (rule nextSemver_cases)
  have "\<not> pl_Prerelease plan0"
    using tgt by (auto simp: semver_target_def zero_Plan_def Let_def split: if_splits sum.splits option.splits)
  then show ?thesis using assms(3) plan
    by (auto intro!: Version_String_dash simp: prereleaseID_def Let_def split: if_splits)
next
  assume "nextCalver clock p ex req (isReleaseBranch p (r_Branch req)) = Inr plan"
  then obtain pre tag where "plan = zero_Plan\<lparr>pl_Branch := r_Branch req,
      pl_Prerelease := \<not> isReleaseBranch p (r_Branch req), pl_Version :=
      calver_version pre (r_Branch req) ex (isReleaseBranch p (r_Branch req)), pl_Tag := tag\<rparr>"
    by (rule nextCalver_cases)
  then show ?thesis using assms(3) by (auto simp: calver_version_def Let_def split: if_splits)
qed

lemma repo_Reserve_inv:
  assumes "ledger_inv l" and "repo_Reserve l (plan_allocation clock runID req) = (l', r)"
  shows "ledger_inv l'"
  using assms(2)
proof (cases rule: repo_Reserve_cases)
  case (appended plan a)
  show ?thesis
    using assms(1) appended Next_prerelease_dash [OF appended(1,2)]
    by (auto simp: ledger_inv_def ledger_ok_append used_iff) (auto simp: ledger_ok_def less_Suc_eq)
qed (use assms(1) in simp)

text \<open>A transaction that fails on the unique key changes nothing, so trying it again gives the
  same answer: the loop of \<open>reserve\<close> is one transaction.\<close>

lemma reserve_loop_once: "reserve_loop n clock l runID req = repo_Reserve l (plan_allocation clock runID req)"
proof (induction n)
  case (Suc n)
  have "l' = l" if "repo_Reserve l (plan_allocation clock runID req) = (l', Inl ErrAllocationConflict)" for l'
    using that by (cases rule: repo_Reserve_cases) auto
  with Suc show ?case by (auto split: prod.splits sum.splits reserve_error.splits)
qed simp

lemma reserve_once: "reserve clock l runID req = repo_Reserve l (plan_allocation clock runID req)"
  by (simp add: reserve_def reserve_loop_once)

text \<open>On a ledger that keeps the invariant a reservation never loses its number to the unique key.\<close>

lemma repo_Reserve_no_conflict:
  assumes "ledger_inv l" and "far_from_limit (l_rows l)" and "request_time_ok clock req"
  shows "snd (repo_Reserve l (plan_allocation clock runID req)) \<noteq> Inl ErrAllocationConflict"
proof (cases "Next clock (l_policy l) (l_rows l) req")
  case (Inr plan)
  then show ?thesis
    using Next_fresh [OF Inr _ assms(2) ledger_invD(1) [OF assms(1)] assms(3)]
    by (auto simp: repo_Reserve_def plan_allocation_def plan_row_def Let_def)
qed (simp add: repo_Reserve_def plan_allocation_def)

section \<open>Published rows are permanent\<close>

text \<open>The published row of an id, as far as a consumer of the image relies on it.\<close>

definition keeps_published :: "Ledger \<Rightarrow> Ledger \<Rightarrow> bool" where
  "keeps_published l l' \<longleftrightarrow>
     (\<forall>a \<in> set (l_rows l). a_Status a = AllocationPublished \<longrightarrow> a \<in> set (l_rows l'))"

lemma keeps_published_refl [simp]: "keeps_published l l"
  by (simp add: keeps_published_def)

lemma keeps_published_trans: "keeps_published l m \<Longrightarrow> keeps_published m n \<Longrightarrow> keeps_published l n"
  by (auto simp: keeps_published_def)

lemma update_row_keeps:
  assumes "ledger_inv l" and "a \<in> set (l_rows l)" and "a_Status a \<noteq> AllocationPublished"
  shows "keeps_published l (update_row (a_ID a) f l)"
proof -
  have "b = a" if "b \<in> set (l_rows l)" "a_ID b = a_ID a" for b
    using that assms by (auto simp: ledger_inv_def distinct_map inj_on_def)
  then show ?thesis using assms(3) by (force simp: keeps_published_def update_row_def)
qed

lemma repo_Release_keeps:
  assumes "ledger_inv l" and "a \<in> set (l_rows l)" and "a_Status a \<noteq> AllocationPublished"
  shows "keeps_published l (fst (repo_Release l a nt))"
proof -
  have "b = a" if "b \<in> set (l_rows l)" "a_ID b = a_ID a" for b
    using that assms by (auto simp: ledger_inv_def distinct_map inj_on_def)
  then show ?thesis using assms update_row_keeps [OF assms]
    by (auto simp: repo_Release_def keeps_published_def)
qed

interpretation row_age: strict_weak "\<lambda>a b. a_ID b < a_ID a" "\<lambda>_. True"
  by unfold_locales auto

lemma FindAllocationByRun_Some:
  assumes "FindAllocationByRun l runID = Some a"
  shows "a \<in> set (l_rows l)" and "a_PipelineRunID a = runID"
    and "b \<in> set (l_rows l) \<Longrightarrow> a_PipelineRunID b = runID \<Longrightarrow> a_ID b \<le> a_ID a"
  using row_age.keep_best_Some [OF _ assms [unfolded FindAllocationByRun_def]] by (auto simp: not_less)

lemma reserve_keeps:
  assumes "ledger_inv l" and "reserve clock l runID req = (l', r)"
  shows "keeps_published l l'" and "ledger_inv l'"
    and "r = Inr (Some a) \<Longrightarrow> a \<in> set (l_rows l') \<and> a_Status a = AllocationReserved"
proof -
  have rr: "repo_Reserve l (plan_allocation clock runID req) = (l', r)"
    using assms by (simp add: reserve_once)
  then show "ledger_inv l'" by (rule repo_Reserve_inv [OF assms(1)])
  show "keeps_published l l'"
    using rr by (cases rule: repo_Reserve_cases) (auto simp: keeps_published_def)
  show "a \<in> set (l_rows l') \<and> a_Status a = AllocationReserved" if "r = Inr (Some a)"
    using rr that by (cases rule: repo_Reserve_cases) auto
qed

lemma verify_loop_keeps:
  assumes "ledger_inv l" and "a \<in> set (l_rows l)" and "a_Status a \<noteq> AllocationPublished"
    and "verify_loop n E w clock l run repository a = (l', run', e)"
  shows "keeps_published l l' \<and> ledger_inv l'"
  using assms
proof (induction n arbitrary: l run a)
  case (Suc n)
  show ?case
  proof (cases "ImageTagDigest E w repository (a_Tag a)")
    case None
    then show ?thesis using Suc.prems by simp
  next
    case (Some found)
    show ?thesis
    proof (cases found)
      case None
      then show ?thesis using Suc.prems Some by simp
    next
      case digest: (Some digest)
      let ?f = "\<lambda>b. b\<lparr>a_Status := AllocationAbandoned,
          a_Note := ''tag already in the registry ('' @ shortDigest digest @ '')''\<rparr>"
      let ?l = "update_row (a_ID a) ?f l"
      have k: "keeps_published l ?l" and i: "ledger_inv ?l"
        using update_row_keeps [OF Suc.prems(1-3)] update_row_inv [OF Suc.prems(1)] by auto
      obtain m r where res: "reserve clock ?l (run_ID run)
          \<lparr>r_Branch = run_Branch run, r_Commit = run_Commit run, r_CommitMessage = run_CommitMessage run,
           r_Bump = [], r_Exact = [], r_Now = None\<rparr> = (m, r)" by fastforce
      note step = reserve_keeps [OF i res]
      show ?thesis
      proof (cases "a_Exact a \<or> (\<forall>b. r \<noteq> Inr (Some b))")
        case True
        then show ?thesis
          using Suc.prems(4) Some digest res k i step(1,2) keeps_published_trans [OF k step(1)]
          by (auto simp: Let_def split: sum.splits option.splits if_splits)
      next
        case False
        then obtain b where b: "r = Inr (Some b)" and "\<not> a_Exact a" by auto
        then show ?thesis
          using Suc.prems(4) Some digest res Suc.IH [OF step(2)] step(3) [OF b] keeps_published_trans k step(1)
          by (auto simp: Let_def)
      qed
    qed
  qed
qed simp

lemma VerifyTagFree_keeps:
  assumes "ledger_inv l" and "VerifyTagFree E w clock l run repository = (l', run', e)"
  shows "keeps_published l l' \<and> ledger_inv l'"
proof (cases "FindAllocationByRun l (run_ID run)")
  case (Some a)
  show ?thesis
  proof (cases "a_Status a = AllocationReserved")
    case True
    then show ?thesis
      using assms Some verify_loop_keeps [OF assms(1) FindAllocationByRun_Some(1) [OF Some]]
      by (auto simp: VerifyTagFree_def split: if_splits)
  qed (use assms Some in \<open>auto simp: VerifyTagFree_def split: if_splits\<close>)
qed (use assms in \<open>auto simp: VerifyTagFree_def split: if_splits\<close>)

lemma tag_version_ID: "tag_version E w repository digest a = (w', a') \<Longrightarrow> a_ID a' = a_ID a"
  by (auto simp: tag_version_def split: if_splits sum.splits)

text \<open>The three things \<open>Settle\<close> can do to the ledger.\<close>

lemma Settle_cases:
  assumes "Settle E l w run digest repository = (l', w')"
  obtains (unchanged) "l' = l"
  | (released) a nt where "FindAllocationByRun l (run_ID run) = Some a" and "a_Status a = AllocationReserved"
      and "l' = fst (repo_Release l a nt)"
  | (published) a a' current where "FindAllocationByRun l (run_ID run) = Some a"
      and "a_Status a = AllocationReserved" and "a_ID a' = a_ID a" and "l' = repo_Publish l a' current"
proof (cases "FindAllocationByRun l (run_ID run)")
  case None
  then show ?thesis using assms unchanged by (simp add: Settle_def)
next
  case (Some a)
  obtain v b where tv: "tag_version E w repository digest (a\<lparr>a_Digest := digest\<rparr>) = (v, b)" by fastforce
  then have "a_ID b = a_ID a" using tag_version_ID by fastforce
  with Some tv assms show ?thesis
    using unchanged released [of a] published [of a b]
    by (auto simp: Settle_def publish_version_def Let_def split: if_splits)
qed

lemma Settle_keeps:
  assumes "ledger_inv l" and "Settle E l w run digest repository = (l', w')"
  shows "keeps_published l l'" and "ledger_inv l'"
proof -
  have "keeps_published l l' \<and> ledger_inv l'"
    using assms(2)
  proof (cases rule: Settle_cases)
    case (released a nt)
    then show ?thesis
      using assms(1) FindAllocationByRun_Some(1) [OF released(1)] repo_Release_keeps repo_Release_inv by auto
  next
    case (published a a' current)
    have "keeps_published l (update_row (a_ID a') f l)" for f
      using update_row_keeps [OF assms(1) FindAllocationByRun_Some(1) [OF published(1)]] published by simp
    then have "keeps_published l l'"
      using published by (simp add: repo_Publish_def Let_def keeps_published_def)
    then show ?thesis using published repo_Publish_inv [OF assms(1)] by simp
  qed (use assms(1) in simp)
  then show "keeps_published l l'" and "ledger_inv l'" by simp_all
qed

section \<open>Runs of the ledger\<close>

text \<open>
  One step is one call of the service: a run reserves, has its tag verified or is settled, or an
  operator changes the policy row (\<open>Update\<close>, \<open>SwitchSeries\<close>, \<open>Unmanage\<close>).
\<close>

inductive ledger_step :: "Ledger \<Rightarrow> Ledger \<Rightarrow> bool" where
  reserve: "reserve clock l runID req = (l', r) \<Longrightarrow> ledger_step l l'"
| verify: "VerifyTagFree E w clock l run repository = (l', run', e) \<Longrightarrow> ledger_step l l'"
| settle: "Settle E l w run digest repository = (l', w') \<Longrightarrow> ledger_step l l'"
| policy: "ledger_step l (l\<lparr>l_policy := p\<rparr>)"

lemma ledger_step_keeps: "ledger_step l l' \<Longrightarrow> ledger_inv l \<Longrightarrow> keeps_published l l' \<and> ledger_inv l'"
proof (induction rule: ledger_step.induct)
  case (reserve clock l runID req l' r)
  then show ?case using reserve_keeps by blast
next
  case (verify E w clock l run repository l' run' e)
  then show ?case using VerifyTagFree_keeps by blast
next
  case (settle E l w run digest repository l' w')
  then show ?case using Settle_keeps by blast
next
  case (policy l p)
  then show ?case by (simp add: keeps_published_def ledger_inv_def)
qed

lemma ledger_steps_keep: "ledger_step\<^sup>*\<^sup>* l l' \<Longrightarrow> ledger_inv l \<Longrightarrow> keeps_published l l' \<and> ledger_inv l'"
proof (induction rule: rtranclp_induct)
  case (step m n)
  then show ?case using ledger_step_keeps keeps_published_trans by blast
qed simp

section \<open>Giving a version back\<close>

lemma reserve_then_release:
  assumes "ledger_inv l" and "reserve clock l runID req = (l', Inr (Some a))"
  shows "repo_Release l' a nt = (l\<lparr>l_seq := Suc (l_seq l)\<rparr>, True)"
    and "FindAllocationByRun l' runID = Some a"
proof -
  have rr: "repo_Reserve l (plan_allocation clock runID req) = (l', Inr (Some a))"
    using assms by (simp add: reserve_once)
  then have l': "l' = l\<lparr>l_rows := l_rows l @ [a], l_seq := Suc (l_seq l)\<rparr>" and ida: "a_ID a = l_seq l"
    and run: "a_PipelineRunID a = runID"
    by (cases rule: repo_Reserve_cases; auto)+
  have old: "a_ID b < l_seq l" if "b \<in> set (l_rows l)" for b
    using that assms(1) by (simp add: ledger_inv_def)
  have "IsHead a (l_rows l')"
    using ida by (auto simp: IsHead_def l' list_ex_iff dest!: old)
  moreover have "filter (\<lambda>b. a_ID b \<noteq> a_ID a) (l_rows l') = l_rows l"
    using ida by (auto simp: l' filter_id_conv dest!: old)
  ultimately show "repo_Release l' a nt = (l\<lparr>l_seq := Suc (l_seq l)\<rparr>, True)"
    by (simp add: repo_Release_def l')
  obtain b where b: "FindAllocationByRun l' runID = Some b"
    using keep_best_None [of "\<lambda>a. a_PipelineRunID a = runID" "\<lambda>a b. a_ID b < a_ID a" None "l_rows l'"] run
    by (auto simp: FindAllocationByRun_def l')
  have "a_ID a \<le> a_ID b" using FindAllocationByRun_Some(3) [OF b, of a] run by (simp add: l')
  moreover have "b \<in> set (l_rows l')" using FindAllocationByRun_Some(1) [OF b] .
  ultimately have "b = a" using old ida by (fastforce simp: l')
  with b show "FindAllocationByRun l' runID = Some a" by simp
qed

lemma reserve_ignores_seq:
  "reserve clock (l\<lparr>l_seq := n\<rparr>) runID' req = (m, Inr (Some b)) \<Longrightarrow>
   reserve clock l runID req = (l', Inr (Some a)) \<Longrightarrow> a_Version b = a_Version a \<and> a_Tag b = a_Tag a"
  by (auto simp: reserve_once elim!: repo_Reserve_cases)

section \<open>Floating tags\<close>

lemma move_one_tags:
  "w_tags (move_one E existing a repository tmpl w) (rep, t) = w_tags w (rep, t) \<or>
   (rep = repository \<and> t = render tmpl (versionVars (a_Version a)) \<and> \<not> newer_published existing a tmpl \<and>
    w_tags (move_one E existing a repository tmpl w) (rep, t) = Some (a_Digest a))"
  by (auto simp: move_one_def TagImage_def Let_def split: option.splits sum.splits)

lemma fold_move_tags:
  "w_tags (fold (move_one E existing a repository) tmpls w) (rep, t) = w_tags w (rep, t) \<or>
   (\<exists>tmpl \<in> set tmpls. rep = repository \<and> t = render tmpl (versionVars (a_Version a)) \<and>
      \<not> newer_published existing a tmpl \<and>
      w_tags (fold (move_one E existing a repository) tmpls w) (rep, t) = Some (a_Digest a))"
proof (induction tmpls arbitrary: w)
  case (Cons tmpl tmpls)
  show ?case
    using move_one_tags [of E existing a repository tmpl w rep t]
      Cons.IH [of "move_one E existing a repository tmpl w"] by auto
qed simp

lemma moveFloating_tags:
  "w_tags (moveFloating E l p a repository w) (rep, t) = w_tags w (rep, t) \<or>
   (\<exists>tmpl \<in> set (p_FloatingTags p). rep = repository \<and> t = render tmpl (versionVars (a_Version a)) \<and>
      \<not> newer_published (l_rows l) a tmpl \<and>
      w_tags (moveFloating E l p a repository w) (rep, t) = Some (a_Digest a))"
  using fold_move_tags [of E "l_rows l" a repository "p_FloatingTags p" w rep t]
  by (auto simp: moveFloating_def)

section \<open>Properties\<close>

definition sample_ledger :: Ledger where
  "sample_ledger = \<lparr>l_policy = sample_policy, l_rows = sample_rows, l_seq = 3\<rparr>"

definition sample_reserved :: VersionAllocation where
  "sample_reserved = (plan_row sample_policy 7 sample_plan)\<lparr>a_ID := 3\<rparr>"

lemma sample_ledger_inv: "ledger_inv sample_ledger"
  by code_simp

lemma sample_reserve:
  "reserve sample_clock sample_ledger 7 (sample_request ''main'') =
   (sample_ledger\<lparr>l_rows := sample_rows @ [sample_reserved], l_seq := 4\<rparr>, Inr (Some sample_reserved))"
  by code_simp

text \<open>On a well-formed ledger a reservation appends exactly one fresh row, or changes nothing; it
  never fails on the unique key of its own accord, and the ledger stays well-formed. The retry loop
  of the service only matters for concurrent writers.\<close>

theorem reserve_never_conflicts:
  assumes "ledger_inv l" and "far_from_limit (l_rows l)" and "request_time_ok clock req"
  shows "case reserve clock l runID req of
      (l', Inr (Some a)) \<Rightarrow> l_rows l' = l_rows l @ [a] \<and> \<not> used (l_rows l) (a_Version a) \<and> ledger_inv l'
    | (l', r) \<Rightarrow> l' = l \<and> r \<noteq> Inl ErrAllocationConflict"
proof -
  obtain l' r where lr: "repo_Reserve l (plan_allocation clock runID req) = (l', r)" by fastforce
  have nc: "r \<noteq> Inl ErrAllocationConflict" using repo_Reserve_no_conflict [OF assms, of runID] lr by simp
  from lr show ?thesis
  proof (cases rule: repo_Reserve_cases)
    case unchanged
    with nc lr show ?thesis by (auto simp: reserve_once split: sum.splits option.splits)
  next
    case (appended plan a)
    then show ?thesis using lr repo_Reserve_inv [OF assms(1) lr] by (simp add: reserve_once)
  qed
qed

theorem reserve_never_conflicts_witness:
  "snd (reserve sample_clock sample_ledger 7 (sample_request ''main'')) = Inr (Some sample_reserved) \<and>
   \<not> used sample_rows (a_Version sample_reserved)"
proof -
  have "request_time_ok sample_clock (sample_request ''main'')" by code_simp
  moreover have rows: "l_rows sample_ledger = sample_rows" by (simp add: sample_ledger_def)
  ultimately show ?thesis
    using reserve_never_conflicts [OF sample_ledger_inv, of sample_clock "sample_request ''main''" 7]
      sample_next(3) sample_reserve by simp
qed

text \<open>C1: a published version is permanent. Whatever sequence of reservations, tag checks, settled
  runs and policy edits follows, its row stays in the ledger unchanged, and the ledger stays
  well-formed: no version number is ever held by two rows.\<close>

theorem published_rows_permanent:
  assumes "ledger_step\<^sup>*\<^sup>* l l'" and "ledger_inv l"
  shows "ledger_inv l' \<and> (\<forall>a \<in> set (l_rows l). a_Status a = AllocationPublished \<longrightarrow> a \<in> set (l_rows l'))"
  using ledger_steps_keep [OF assms] by (simp add: keeps_published_def)

theorem published_rows_permanent_witness:
  "sample_row 1 ''1.4.9'' \<in> set (sample_rows @ [sample_reserved])"
proof -
  have "ledger_step\<^sup>*\<^sup>* sample_ledger (sample_ledger\<lparr>l_rows := sample_rows @ [sample_reserved], l_seq := 4\<rparr>)"
    using ledger_step.reserve [OF sample_reserve] by blast
  from published_rows_permanent [OF this sample_ledger_inv] show ?thesis
    by (auto simp: sample_ledger_def sample_rows_def sample_row_def)
qed

text \<open>A failed run gives its version back. After \<open>reserve\<close> and a \<open>Settle\<close> of the failed run the
  rows are what they were, the registry is untouched, and the next run on the same request is
  offered the same version under the same tag.\<close>

theorem failed_run_gives_back:
  assumes "ledger_inv l" and "reserve clock l (run_ID run) req = (l1, Inr (Some a))"
    and "run_Status run \<noteq> ''succeeded''"
    and "reserve clock (fst (Settle E l1 w run digest repository)) runID' req = (l2, Inr (Some b))"
  shows "l_rows (fst (Settle E l1 w run digest repository)) = l_rows l \<and>
    snd (Settle E l1 w run digest repository) = w \<and> a_Version b = a_Version a \<and> a_Tag b = a_Tag a"
proof -
  have "a_Status a = AllocationReserved" using reserve_keeps(3) [OF assms(1,2)] by simp
  then have settle: "Settle E l1 w run digest repository = (l\<lparr>l_seq := Suc (l_seq l)\<rparr>, w)"
    using assms(3) reserve_then_release [OF assms(1,2)] by (simp add: Settle_def)
  show ?thesis using reserve_ignores_seq [OF assms(4) [unfolded settle fst_conv] assms(2)] settle by simp
qed

definition sample_run :: Run where
  "sample_run = \<lparr>run_ID = 7, run_WorkspaceID = 1, run_Status = ''failed'', run_Branch = ''main'', run_Commit = [],
     run_CommitMessage = [], run_Version = ''1.4.10'', run_ImageTag = ''v1.4.10'', run_ImageID = None,
     run_StepUses = [''build'']\<rparr>"

definition sample_env :: Env where
  "sample_env = \<lparr>e_registry = True, e_tag_fails = (\<lambda>_ _. None), e_lookup_fails = (\<lambda>_ _. False),
     e_images = True, e_pipelines = True, e_runBuilds = (\<lambda>_. Some True)\<rparr>"

definition sample_world :: World where
  "sample_world = \<lparr>w_tags = (\<lambda>t. if t = (''app'', ''1.4'') then Some ''sha256:ab'' else None), w_images = (\<lambda>_. None)\<rparr>"

lemma sample_give_back:
  "reserve sample_clock (fst (Settle sample_env (sample_ledger\<lparr>l_rows := sample_rows @ [sample_reserved], l_seq := 4\<rparr>)
      sample_world sample_run [] ''app'')) 8 (sample_request ''main'') =
   (sample_ledger\<lparr>l_rows := sample_rows @ [sample_reserved\<lparr>a_ID := 4, a_PipelineRunID := 8\<rparr>], l_seq := 5\<rparr>,
    Inr (Some (sample_reserved\<lparr>a_ID := 4, a_PipelineRunID := 8\<rparr>)))"
  by code_simp

theorem failed_run_gives_back_witness:
  "l_rows (fst (Settle sample_env (sample_ledger\<lparr>l_rows := sample_rows @ [sample_reserved], l_seq := 4\<rparr>)
     sample_world sample_run [] ''app'')) = sample_rows"
proof -
  have run: "run_ID sample_run = 7" "run_Status sample_run \<noteq> ''succeeded''" by code_simp+
  show ?thesis
    using failed_run_gives_back [OF sample_ledger_inv sample_reserve [folded run(1)] run(2) sample_give_back]
    by (simp add: sample_ledger_def)
qed

text \<open>C37: a floating tag never moves back. If moving the floating tags of a release changes the image
  of a tag, the tag is one the release's templates render to, it now names the release's image, and
  no published release that shares the tag is newer.\<close>

theorem floating_tag_never_back:
  "w_tags (moveFloating E l p a repository w) (rep, t) = w_tags w (rep, t) \<or>
   (\<exists>tmpl \<in> set (p_FloatingTags p). rep = repository \<and> t = render tmpl (versionVars (a_Version a)) \<and>
      w_tags (moveFloating E l p a repository w) (rep, t) = Some (a_Digest a) \<and>
      (\<forall>b. b \<in> set (l_rows l) \<and> a_ID b \<noteq> a_ID a \<and> \<not> a_Prerelease b \<and> a_Status b = AllocationPublished \<and>
         render tmpl (versionVars (a_Version b)) = t \<longrightarrow> compareVersions (a_Version b) (a_Version a) \<le> 0))"
proof -
  have "compareVersions (a_Version b) (a_Version a) \<le> 0"
    if "\<not> newer_published (l_rows l) a tmpl" and "b \<in> set (l_rows l) \<and> a_ID b \<noteq> a_ID a \<and> \<not> a_Prerelease b \<and>
      a_Status b = AllocationPublished \<and> render tmpl (versionVars (a_Version b)) = render tmpl (versionVars (a_Version a))"
    for tmpl b
    using that by (auto simp: newer_published_def list_ex_iff not_less)
  then show ?thesis using moveFloating_tags [of E l p a repository w rep t] by blast
qed

theorem floating_tag_never_back_witness:
  "w_tags (moveFloating sample_env sample_ledger sample_policy (sample_row 2 ''1.4.8'') ''app'' sample_world)
     (''app'', ''1.5'') = None"
proof -
  have "render ''{major}.{minor}'' (versionVars ''1.4.8'') = ''1.4''" by code_simp
  then show ?thesis
    using floating_tag_never_back [of sample_env sample_ledger sample_policy "sample_row 2 ''1.4.8''" "''app''"
        sample_world "''app''" "''1.5''"]
    by (simp add: sample_policy_def sample_row_def sample_world_def)
qed

end
