(* ===== verification/Container_Grants.thy ===== *)
theory Container_Grants
  imports Go_Prelude
begin

text \<open>
  What a container may be granted beyond the defaults: the Linux capabilities, host devices and
  accounts of \<^verbatim>\<open>internal/models/capabilities.go\<close> and \<^verbatim>\<open>internal/models/runas.go\<close>. Every normaliser
  takes what a user typed and returns the stored form or an error. The lemmas show that the stored
  form is sorted, without duplicates, taken from the allow-list only, and a fixed point, so that
  saving it again or comparing it with a manifest never reads as a change.

  The help texts shown by the console are left out of the tables.
\<close>

section \<open>Capabilities\<close>

datatype grant_error =
    ErrCapabilityUnknown string
  | ErrCapabilityNotLinux string
  | ErrCapabilityConflict string
  | ErrTooManyCapabilities
  | ErrDeviceUnknown string
  | ErrDeviceBlockDevice string
  | ErrTooManyDevices
  | ErrRunAsUserInvalid

definition CapabilityAll :: string where
  "CapabilityAll = ''ALL''"

definition linuxCapabilities :: "string list" where
  "linuxCapabilities =
     [''AUDIT_CONTROL'', ''AUDIT_READ'', ''AUDIT_WRITE'', ''BLOCK_SUSPEND'', ''BPF'',
      ''CHECKPOINT_RESTORE'', ''CHOWN'', ''DAC_OVERRIDE'', ''DAC_READ_SEARCH'', ''FOWNER'',
      ''FSETID'', ''IPC_LOCK'', ''IPC_OWNER'', ''KILL'', ''LEASE'', ''LINUX_IMMUTABLE'',
      ''MAC_ADMIN'', ''MAC_OVERRIDE'', ''MKNOD'', ''NET_ADMIN'', ''NET_BIND_SERVICE'',
      ''NET_BROADCAST'', ''NET_RAW'', ''PERFMON'', ''SETFCAP'', ''SETGID'', ''SETPCAP'',
      ''SETUID'', ''SYSLOG'', ''SYS_ADMIN'', ''SYS_BOOT'', ''SYS_CHROOT'', ''SYS_MODULE'',
      ''SYS_NICE'', ''SYS_PACCT'', ''SYS_PTRACE'', ''SYS_RAWIO'', ''SYS_RESOURCE'',
      ''SYS_TIME'', ''SYS_TTY_CONFIG'', ''WAKE_ALARM'']"

datatype CapabilityTier = TierCommon | TierElevated

fun tier_rank :: "CapabilityTier \<Rightarrow> nat" where
  "tier_rank TierCommon = 0"
| "tier_rank TierElevated = 1"

definition capabilities :: "(string \<times> CapabilityTier) list" where
  "capabilities =
     [(''NET_ADMIN'', TierCommon), (''NET_RAW'', TierCommon), (''NET_BIND_SERVICE'', TierCommon),
      (''SYS_PTRACE'', TierCommon), (''SYS_NICE'', TierCommon), (''SYS_TIME'', TierCommon),
      (''IPC_LOCK'', TierCommon), (''CHOWN'', TierCommon), (''DAC_OVERRIDE'', TierCommon),
      (''FOWNER'', TierCommon), (''SETUID'', TierCommon), (''SETGID'', TierCommon),
      (''KILL'', TierCommon), (''AUDIT_WRITE'', TierCommon),
      (''SYS_ADMIN'', TierElevated), (''SYS_MODULE'', TierElevated), (''SYS_RAWIO'', TierElevated),
      (''DAC_READ_SEARCH'', TierElevated), (''MKNOD'', TierElevated)]"

definition MaxCapabilities :: nat where
  "MaxCapabilities = 12"

definition MaxDevices :: nat where
  "MaxDevices = 8"

definition LookupCapability :: "string \<Rightarrow> (string \<times> CapabilityTier) option" where
  "LookupCapability name = find (\<lambda>c. fst c = name) capabilities"

definition NormalizeCapability :: "string \<Rightarrow> string" where
  "NormalizeCapability v = TrimPrefix (ToUpper (TrimSpace v)) ''CAP_''"

text \<open>The loops; \<open>seen\<close> of the source is the set of what \<open>out\<close> holds.\<close>

fun caps_loop :: "string list \<Rightarrow> string list \<Rightarrow> grant_error + string list" where
  "caps_loop [] out = Inr out"
| "caps_loop (x # xs) out =
     (let name = NormalizeCapability x
      in if name = [] then caps_loop xs out
         else if LookupCapability name = None then Inl (ErrCapabilityUnknown name)
         else if name \<in> set out then caps_loop xs out
         else caps_loop xs (out @ [name]))"

definition NormalizeCapabilities :: "string list \<Rightarrow> grant_error + string list" where
  "NormalizeCapabilities xs =
     (case caps_loop xs [] of
        Inl e \<Rightarrow> Inl e
      | Inr out \<Rightarrow> if length out > MaxCapabilities then Inl ErrTooManyCapabilities else Inr (sort out))"

fun drop_loop :: "string list \<Rightarrow> string list \<Rightarrow> grant_error + string list" where
  "drop_loop [] out = Inr out"
| "drop_loop (x # xs) out =
     (let name = NormalizeCapability x
      in if name = [] \<or> name \<in> set out then drop_loop xs out
         else if name \<noteq> CapabilityAll \<and> name \<notin> set linuxCapabilities then Inl (ErrCapabilityNotLinux name)
         else drop_loop xs (out @ [name]))"

definition NormalizeDropCapabilities :: "string list \<Rightarrow> grant_error + string list" where
  "NormalizeDropCapabilities xs =
     (case drop_loop xs [] of
        Inl e \<Rightarrow> Inl e
      | Inr out \<Rightarrow> if CapabilityAll \<in> set out then Inr [CapabilityAll] else Inr (sort out))"

definition CheckCapabilityConflict :: "string list \<Rightarrow> string list \<Rightarrow> grant_error option" where
  "CheckCapabilityConflict add drp =
     (case find (\<lambda>d. d \<in> set add) drp of
        Some d \<Rightarrow> Some (ErrCapabilityConflict d)
      | None \<Rightarrow> None)"

definition raise_tier :: "CapabilityTier option \<Rightarrow> CapabilityTier \<Rightarrow> CapabilityTier" where
  "raise_tier found tier =
     (case found of Some t \<Rightarrow> if tier_rank t > tier_rank tier then t else tier | None \<Rightarrow> tier)"

definition HighestCapabilityTier :: "string list \<Rightarrow> CapabilityTier" where
  "HighestCapabilityTier names =
     fold (\<lambda>n. raise_tier (map_option snd (LookupCapability n))) names TierCommon"

section \<open>Devices\<close>

definition devicePrefixes :: "(string \<times> bool \<times> CapabilityTier) list" where
  "devicePrefixes =
     [(''/dev/net/tun'', True, TierCommon), (''/dev/fuse'', True, TierCommon),
      (''/dev/ttyUSB'', False, TierCommon), (''/dev/ttyACM'', False, TierCommon),
      (''/dev/serial/'', False, TierCommon), (''/dev/i2c-'', False, TierCommon),
      (''/dev/gpiochip'', False, TierCommon), (''/dev/bus/usb/'', False, TierElevated)]"

definition blockedDevicePrefixes :: "string list" where
  "blockedDevicePrefixes =
     [''/dev/sd'', ''/dev/nvme'', ''/dev/hd'', ''/dev/vd'', ''/dev/xvd'', ''/dev/dm-'', ''/dev/loop'',
      ''/dev/mapper/'', ''/dev/md'', ''/dev/mem'', ''/dev/kmem'', ''/dev/port'', ''/dev/kmsg'']"

definition device_matches :: "string \<Rightarrow> string \<times> bool \<times> CapabilityTier \<Rightarrow> bool" where
  "device_matches path d =
     (case d of (prefix, exact, _) \<Rightarrow>
        (exact \<and> path = prefix) \<or> (\<not> exact \<and> HasPrefix path prefix \<and> length path > length prefix))"

definition lookupDevice :: "string \<Rightarrow> CapabilityTier option" where
  "lookupDevice path = map_option (\<lambda>d. snd (snd d)) (find (device_matches path) devicePrefixes)"

definition check_device :: "string \<Rightarrow> grant_error option" where
  "check_device d =
     (if \<not> HasPrefix d ''/dev/'' \<or> ContainsStr d ''..'' \<or> ContainsStr d '':'' then Some (ErrDeviceUnknown d)
      else if list_ex (\<lambda>blocked. HasPrefix d blocked) blockedDevicePrefixes then Some (ErrDeviceBlockDevice d)
      else if lookupDevice d = None then Some (ErrDeviceUnknown d)
      else None)"

fun devices_loop :: "string list \<Rightarrow> string list \<Rightarrow> grant_error + string list" where
  "devices_loop [] out = Inr out"
| "devices_loop (x # xs) out =
     (let d = TrimSpace x
      in if d = [] then devices_loop xs out
         else (case check_device d of
                 Some e \<Rightarrow> Inl e
               | None \<Rightarrow> if d \<in> set out then devices_loop xs out else devices_loop xs (out @ [d])))"

definition NormalizeDevices :: "string list \<Rightarrow> grant_error + string list" where
  "NormalizeDevices xs =
     (case devices_loop xs [] of
        Inl e \<Rightarrow> Inl e
      | Inr out \<Rightarrow> if length out > MaxDevices then Inl ErrTooManyDevices else Inr (sort out))"

definition HighestDeviceTier :: "string list \<Rightarrow> CapabilityTier" where
  "HighestDeviceTier paths = fold (\<lambda>p. raise_tier (lookupDevice p)) paths TierCommon"

section \<open>Accounts\<close>

definition maxRunAsPart :: nat where
  "maxRunAsPart = 32"

definition runas_char :: "char \<Rightarrow> bool" where
  "runas_char c = (is_alpha c \<or> is_digit c \<or> c = CHR ''_'')"

fun runas_tail :: "string \<Rightarrow> bool" where
  "runas_tail [] = True"
| "runas_tail (c # s) = ((runas_char c \<or> c = CHR ''-'' \<or> c = CHR ''.'') \<and> runas_tail s)"

definition runAsPartValid :: "string \<Rightarrow> bool" where
  "runAsPartValid p =
     (case p of
        [] \<Rightarrow> False
      | c # s \<Rightarrow> length p \<le> maxRunAsPart \<and> runas_char c \<and> runas_tail s)"

definition NormalizeRunAsUser :: "string \<Rightarrow> grant_error + string" where
  "NormalizeRunAsUser v0 =
     (let v = TrimSpace v0
      in if v = [] then Inr []
         else (case CutChar v CHR '':'' of
                 (user, grp, hasGroup) \<Rightarrow>
                   if \<not> runAsPartValid user \<or> (hasGroup \<and> \<not> runAsPartValid grp) then Inl ErrRunAsUserInvalid
                   else Inr v))"

definition RunAsUserIsNonRoot :: "string \<Rightarrow> bool" where
  "RunAsUserIsNonRoot v0 =
     (let v = TrimSpace v0
      in if v = [] then False
         else (case CutChar v CHR '':'' of
                 (user, grp, hasGroup) \<Rightarrow>
                   (case Atoi user of
                      None \<Rightarrow> False
                    | Some uid \<Rightarrow>
                        0 < uid \<and>
                        (hasGroup \<longrightarrow> (case Atoi grp of None \<Rightarrow> False | Some gid \<Rightarrow> 0 \<le> gid)))))"

section \<open>The contract of a normaliser\<close>

text \<open>
  \<open>normalizedList\<close> of \<^verbatim>\<open>internal/declarative/plan.go\<close>: the text a plan compares. It relies on a
  normaliser only through this contract.
\<close>

definition normalizedList :: "string list \<Rightarrow> (string list \<Rightarrow> 'e + string list) \<Rightarrow> string" where
  "normalizedList xs norm_of = (case norm_of xs of Inr out \<Rightarrow> JoinStr out '','' | Inl _ \<Rightarrow> JoinStr xs '','')"

locale list_normalizer =
  fixes norm_of :: "string list \<Rightarrow> 'e + string list"
  assumes fixpoint: "norm_of xs = Inr ys \<Longrightarrow> norm_of ys = Inr ys"
    and canonical: "norm_of xs = Inr ys \<Longrightarrow> sorted ys \<and> distinct ys"
begin

lemma stored_is_canonical: "norm_of xs = Inr ys \<Longrightarrow> sorted ys \<and> distinct ys"
  by (rule canonical)

lemma no_drift: "norm_of xs = Inr ys \<Longrightarrow> normalizedList ys norm_of = normalizedList xs norm_of"
  by (simp add: normalizedList_def fixpoint)

lemma normalize_twice: "norm_of xs = Inr ys \<Longrightarrow> norm_of ys = Inr zs \<Longrightarrow> zs = ys"
  using fixpoint by fastforce

end

text \<open>Every name of the two tables is in upper case and has no prefix to strip.\<close>

definition cap_name :: "string \<Rightarrow> bool" where
  "cap_name y = (y \<noteq> [] \<and> list_all (\<lambda>c. of_char c \<in> {65 .. 90 :: nat} \<or> c = CHR ''_'') y \<and> \<not> HasPrefix y ''CAP_'')"

lemma ToUpper_fixed: "list_all (\<lambda>c. of_char c < (97 :: nat)) y \<Longrightarrow> ToUpper y = y"
  by (induction y rule: ToUpper.induct) (auto simp: upper_char_def)

lemma cap_name_fixed:
  assumes "cap_name y"
  shows "NormalizeCapability y = y \<and> y \<noteq> []"
proof -
  have "list_all plain_char y" and "list_all (\<lambda>c. of_char c < (97 :: nat)) y"
    using assms by (auto simp: cap_name_def list_all_iff plain_char_def)
  then show ?thesis
    using assms by (simp add: NormalizeCapability_def TrimSpace_plain ToUpper_fixed TrimPrefix_def cap_name_def)
qed

text \<open>
  The three loops share one contract: clean each item, drop blanks and repeats, refuse what the
  check refuses.
\<close>

locale cleaning_loop =
  fixes loop :: "string list \<Rightarrow> string list \<Rightarrow> 'e + string list"
    and clean :: "string \<Rightarrow> string"
    and check :: "string \<Rightarrow> 'e option"
  assumes loop_Nil: "loop [] out = Inr out"
    and loop_Cons: "\<forall>y \<in> set out. check y = None \<Longrightarrow> loop (x # xs) out =
      (if clean x = [] \<or> clean x \<in> set out then loop xs out
       else case check (clean x) of Some e \<Rightarrow> Inl e | None \<Rightarrow> loop xs (out @ [clean x]))"
begin

lemma collects:
  "loop xs out = Inr ys \<Longrightarrow> distinct out \<Longrightarrow> \<forall>y \<in> set out. check y = None \<Longrightarrow>
   distinct ys \<and> set ys = set out \<union> (clean ` set xs - {[]}) \<and> (\<forall>y \<in> set ys. check y = None)"
proof (induction xs arbitrary: out)
  case (Cons x xs)
  show ?case
  proof (cases "clean x = [] \<or> clean x \<in> set out")
    case True
    with Cons.prems have "loop xs out = Inr ys" by (simp add: loop_Cons)
    from Cons.IH [OF this Cons.prems(2,3)] True show ?thesis by auto
  next
    case False
    with Cons.prems have "check (clean x) = None" and "loop xs (out @ [clean x]) = Inr ys"
      by (auto simp: loop_Cons split: option.splits)
    with Cons.IH [of "out @ [clean x]"] Cons.prems(2,3) False show ?thesis by auto
  qed
qed (simp add: loop_Nil)

lemma cleaned:
  assumes "loop xs [] = Inr ys"
  shows "distinct ys" "set ys = clean ` set xs - {[]}" "y \<in> set ys \<Longrightarrow> check y = None"
  using collects [OF assms] by auto

lemma keeps_clean:
  "\<forall>x \<in> set xs. clean x = x \<and> x \<noteq> [] \<and> check x = None \<Longrightarrow> distinct (out @ xs) \<Longrightarrow>
   \<forall>y \<in> set out. check y = None \<Longrightarrow> loop xs out = Inr (out @ xs)"
proof (induction xs arbitrary: out)
  case (Cons x xs)
  then show ?case using Cons.IH [of "out @ [x]"] by (simp add: loop_Cons)
qed (simp add: loop_Nil)

lemma clean_fixed: "\<forall>x \<in> set xs. clean x = x \<and> x \<noteq> [] \<and> check x = None \<Longrightarrow> distinct xs \<Longrightarrow> loop xs [] = Inr xs"
  using keeps_clean [of xs "[]"] by simp

end

definition check_capability :: "string \<Rightarrow> grant_error option" where
  "check_capability n = (if LookupCapability n = None then Some (ErrCapabilityUnknown n) else None)"

interpretation caps: cleaning_loop caps_loop NormalizeCapability check_capability
  by unfold_locales (auto simp: Let_def check_capability_def split: if_splits)

definition check_drop :: "string \<Rightarrow> grant_error option" where
  "check_drop n = (if n \<noteq> CapabilityAll \<and> n \<notin> set linuxCapabilities then Some (ErrCapabilityNotLinux n) else None)"

interpretation drops: cleaning_loop drop_loop NormalizeCapability check_drop
  by unfold_locales (simp_all add: Let_def check_drop_def)

interpretation devs: cleaning_loop devices_loop TrimSpace check_device
  by unfold_locales (auto simp: Let_def split: option.splits)

lemma LookupCapability_fixed:
  assumes "LookupCapability y \<noteq> None"
  shows "NormalizeCapability y = y \<and> y \<noteq> []"
proof -
  have "list_all (\<lambda>c. cap_name (fst c)) capabilities" by code_simp
  moreover have "\<exists>c \<in> set capabilities. fst c = y"
    using assms unfolding LookupCapability_def find_None_iff by force
  ultimately show ?thesis using cap_name_fixed unfolding list_all_iff by blast
qed

lemma NormalizeCapabilities_Inr:
  assumes "NormalizeCapabilities xs = Inr ys"
  shows "sorted ys" "distinct ys" "length ys \<le> MaxCapabilities"
    "set ys = NormalizeCapability ` set xs - {[]}" "y \<in> set ys \<Longrightarrow> LookupCapability y \<noteq> None"
proof -
  obtain out where out: "caps_loop xs [] = Inr out" "length out \<le> MaxCapabilities" "ys = sort out"
    using assms by (auto simp: NormalizeCapabilities_def split: sum.splits if_splits)
  with caps.cleaned(1,2) [OF out(1)] show "sorted ys" "distinct ys" "length ys \<le> MaxCapabilities"
    "set ys = NormalizeCapability ` set xs - {[]}" by simp_all
  assume "y \<in> set ys"
  then have "check_capability y = None" using out caps.cleaned(3) [OF out(1)] by simp
  then show "LookupCapability y \<noteq> None" by (auto simp: check_capability_def split: if_splits)
qed

interpretation add_caps: list_normalizer NormalizeCapabilities
proof
  fix xs ys assume n: "NormalizeCapabilities xs = Inr ys"
  note props = NormalizeCapabilities_Inr [OF n]
  show "sorted ys \<and> distinct ys" using props by simp
  have "caps_loop ys [] = Inr ys"
    using props(2,5) LookupCapability_fixed by (intro caps.clean_fixed) (auto simp: check_capability_def)
  then show "NormalizeCapabilities ys = Inr ys"
    using props(1,3) by (simp add: NormalizeCapabilities_def sorted_sort_id)
qed

lemma droppable_fixed:
  assumes "check_drop y = None"
  shows "NormalizeCapability y = y \<and> y \<noteq> []"
proof -
  have "list_all cap_name (CapabilityAll # linuxCapabilities)" by code_simp
  then have "cap_name y" using assms by (auto simp: list_all_iff check_drop_def split: if_splits)
  then show ?thesis by (rule cap_name_fixed)
qed

lemma NormalizeDropCapabilities_Inr:
  assumes "NormalizeDropCapabilities xs = Inr ys"
  shows "sorted ys" "distinct ys" "y \<in> set ys \<Longrightarrow> check_drop y = None"
    "ys = (if CapabilityAll \<in> NormalizeCapability ` set xs then [CapabilityAll] else ys)"
    "CapabilityAll \<notin> NormalizeCapability ` set xs \<Longrightarrow> set ys = NormalizeCapability ` set xs - {[]}"
proof -
  obtain out where out: "drop_loop xs [] = Inr out"
    and ys: "ys = (if CapabilityAll \<in> set out then [CapabilityAll] else sort out)"
    using assms by (auto simp: NormalizeDropCapabilities_def split: sum.splits if_splits)
  have "CapabilityAll \<noteq> []" by (simp add: CapabilityAll_def)
  then have "CapabilityAll \<in> set out \<longleftrightarrow> CapabilityAll \<in> NormalizeCapability ` set xs"
    using drops.cleaned(2) [OF out] by auto
  moreover show "check_drop y = None" if "y \<in> set ys"
    using ys that drops.cleaned(3) [OF out] by (auto split: if_splits)
  ultimately show "sorted ys" "distinct ys"
    "ys = (if CapabilityAll \<in> NormalizeCapability ` set xs then [CapabilityAll] else ys)"
    "CapabilityAll \<notin> NormalizeCapability ` set xs \<Longrightarrow> set ys = NormalizeCapability ` set xs - {[]}"
    using ys drops.cleaned [OF out] by auto
qed

interpretation drop_caps: list_normalizer NormalizeDropCapabilities
proof
  fix xs ys assume n: "NormalizeDropCapabilities xs = Inr ys"
  note props = NormalizeDropCapabilities_Inr [OF n]
  show "sorted ys \<and> distinct ys" using props by simp
  have "drop_loop ys [] = Inr ys"
    using props(2,3) droppable_fixed by (intro drops.clean_fixed) auto
  moreover have "ys = [CapabilityAll]" if "CapabilityAll \<in> set ys"
  proof (cases "CapabilityAll \<in> NormalizeCapability ` set xs")
    case True
    with props(4) show ?thesis by simp
  next
    case False
    with that props(5) show ?thesis by simp
  qed
  ultimately show "NormalizeDropCapabilities ys = Inr ys"
    using props(1) by (auto simp: NormalizeDropCapabilities_def sorted_sort_id)
qed

lemma NormalizeDevices_Inr:
  assumes "NormalizeDevices xs = Inr ys"
  shows "sorted ys" "distinct ys" "length ys \<le> MaxDevices"
    "set ys = TrimSpace ` set xs - {[]}" "y \<in> set ys \<Longrightarrow> check_device y = None"
proof -
  obtain out where "devices_loop xs [] = Inr out" "length out \<le> MaxDevices" "ys = sort out"
    using assms by (auto simp: NormalizeDevices_def split: sum.splits if_splits)
  with devs.cleaned [of xs out] show "sorted ys" "distinct ys" "length ys \<le> MaxDevices"
    "set ys = TrimSpace ` set xs - {[]}" "y \<in> set ys \<Longrightarrow> check_device y = None"
    by auto
qed

interpretation host_devices: list_normalizer NormalizeDevices
proof
  fix xs ys assume n: "NormalizeDevices xs = Inr ys"
  note props = NormalizeDevices_Inr [OF n]
  show "sorted ys \<and> distinct ys" using props by simp
  have "devices_loop ys [] = Inr ys"
    using props(2,4,5) TrimSpace_idem by (intro devs.clean_fixed) auto
  then show "NormalizeDevices ys = Inr ys"
    using props(1,3) by (simp add: NormalizeDevices_def sorted_sort_id)
qed

section \<open>Accounts that are not root\<close>

lemma runas_char_not_sign: "runas_char c \<Longrightarrow> c \<noteq> CHR ''+'' \<and> c \<noteq> CHR ''-''"
  by (auto simp: runas_char_def is_alpha_def is_digit_def)

lemma Atoi_unsigned:
  assumes "Atoi s = Some n" and "s = c # t" and "c \<noteq> CHR ''+''" and "c \<noteq> CHR ''-''"
  shows "list_all is_digit s"
  using assms by (auto simp: Atoi_def parse_int_def Let_def split: if_splits option.splits)

section \<open>Properties\<close>

text \<open>No capability, device or account list stored by Miabi reads as drift: whatever spelling a
  manifest uses, the text a plan compares is that of the stored, normalised list; and the stored
  list is a fixed point, sorted and without duplicates.\<close>

theorem stored_grants_never_drift:
  assumes "NormalizeCapabilities adds = Inr adds'" and "NormalizeDropCapabilities drops = Inr drops'"
    and "NormalizeDevices devs = Inr devs'"
  shows "normalizedList adds' NormalizeCapabilities = normalizedList adds NormalizeCapabilities \<and>
    normalizedList drops' NormalizeDropCapabilities = normalizedList drops NormalizeDropCapabilities \<and>
    normalizedList devs' NormalizeDevices = normalizedList devs NormalizeDevices \<and>
    sorted adds' \<and> distinct adds' \<and> sorted drops' \<and> distinct drops' \<and> sorted devs' \<and> distinct devs'"
  using add_caps.no_drift [OF assms(1)] drop_caps.no_drift [OF assms(2)] host_devices.no_drift [OF assms(3)]
    add_caps.canonical [OF assms(1)] drop_caps.canonical [OF assms(2)] host_devices.canonical [OF assms(3)] by simp

theorem stored_grants_never_drift_witness:
  "normalizedList [''NET_ADMIN'', ''NET_RAW''] NormalizeCapabilities =
   normalizedList ['' cap_net_raw'', ''NET_ADMIN'', ''net_raw''] NormalizeCapabilities"
proof -
  have "NormalizeCapabilities ['' cap_net_raw'', ''NET_ADMIN'', ''net_raw''] = Inr [''NET_ADMIN'', ''NET_RAW'']"
    and "NormalizeDropCapabilities [''all'', ''KILL''] = Inr [''ALL'']"
    and "NormalizeDevices [''/dev/ttyUSB0''] = Inr [''/dev/ttyUSB0'']"
    by code_simp+
  from stored_grants_never_drift [OF this] show ?thesis by simp
qed

text \<open>C39: what is granted comes from the allow-list. Every accepted capability is in the table, there
  are at most twelve, and nothing that was asked for is left out silently.
  Every accepted device lies below \<open>/dev/\<close>, has no parent reference and no colon, is none of the raw
  block or memory devices, and matches an entry of the device table.\<close>

theorem grants_from_allow_list:
  assumes "NormalizeCapabilities adds = Inr adds'" and "NormalizeDevices devs = Inr devs'"
  shows "set adds' = NormalizeCapability ` set adds - {[]} \<and> length adds' \<le> 12 \<and> length devs' \<le> 8 \<and>
    (\<forall>c \<in> set adds'. \<exists>tier. (c, tier) \<in> set capabilities) \<and>
    (\<forall>d \<in> set devs'. HasPrefix d ''/dev/'' \<and> \<not> ContainsStr d ''..'' \<and> \<not> ContainsStr d '':'' \<and>
       (\<forall>blocked \<in> set blockedDevicePrefixes. \<not> HasPrefix d blocked) \<and>
       (\<exists>entry \<in> set devicePrefixes. device_matches d entry))"
proof -
  have "\<exists>tier. (c, tier) \<in> set capabilities" if "c \<in> set adds'" for c
    using NormalizeCapabilities_Inr(5) [OF assms(1) that] unfolding LookupCapability_def find_None_iff by auto
  moreover have "HasPrefix d ''/dev/'' \<and> \<not> ContainsStr d ''..'' \<and> \<not> ContainsStr d '':'' \<and>
       (\<forall>blocked \<in> set blockedDevicePrefixes. \<not> HasPrefix d blocked) \<and>
       (\<exists>entry \<in> set devicePrefixes. device_matches d entry)" if "d \<in> set devs'" for d
    using NormalizeDevices_Inr(5) [OF assms(2) that]
    by (auto simp: check_device_def lookupDevice_def list_ex_iff find_None_iff split: if_splits)
  ultimately show ?thesis
    using NormalizeCapabilities_Inr(3,4) [OF assms(1)] NormalizeDevices_Inr(3) [OF assms(2)]
    by (simp add: MaxCapabilities_def MaxDevices_def)
qed

theorem grants_from_allow_list_witness:
  "\<exists>entry \<in> set devicePrefixes. device_matches ''/dev/ttyUSB0'' entry"
proof -
  have "NormalizeCapabilities [''chown''] = Inr [''CHOWN'']"
    and "NormalizeDevices ['' /dev/ttyUSB0''] = Inr [''/dev/ttyUSB0'']"
    by code_simp+
  from grants_from_allow_list [OF this] show ?thesis by simp
qed

text \<open>An account that the restricted profile accepts is a plain decimal number above zero: no
  sign, no name that an image could map to uid 0, and the same for its group.\<close>

theorem restricted_account_numeric:
  assumes "NormalizeRunAsUser v = Inr u" and "RunAsUserIsNonRoot u"
  shows "\<exists>user grp hasGroup uid. CutChar u CHR '':'' = (user, grp, hasGroup) \<and> list_all is_digit user \<and>
    Atoi user = Some uid \<and> 0 < uid \<and> (hasGroup \<longrightarrow> list_all is_digit grp)"
proof -
  obtain user grp hasGroup where cut: "CutChar (TrimSpace v) CHR '':'' = (user, grp, hasGroup)"
    by (cases "CutChar (TrimSpace v) CHR '':''")
  have u: "u = TrimSpace v" using assms(1) by (auto simp: NormalizeRunAsUser_def Let_def split: if_splits prod.splits)
  moreover have "u \<noteq> []" using assms(2) by (auto simp: RunAsUserIsNonRoot_def TrimSpace_plain)
  ultimately have valid: "runAsPartValid user" "hasGroup \<longrightarrow> runAsPartValid grp"
    using assms(1) cut by (auto simp: NormalizeRunAsUser_def Let_def split: if_splits)
  obtain uid where uid: "Atoi user = Some uid" "0 < uid"
    and gid: "hasGroup \<longrightarrow> (\<exists>gid. Atoi grp = Some gid)"
    using assms(2) cut u by (auto simp: RunAsUserIsNonRoot_def Let_def TrimSpace_idem split: if_splits option.splits)
  have digits: "list_all is_digit p" if "runAsPartValid p" "Atoi p = Some n" for p n
    using that Atoi_unsigned [of p n] runas_char_not_sign by (auto simp: runAsPartValid_def split: list.splits)
  show ?thesis using cut u uid gid valid digits by fastforce
qed

theorem restricted_account_numeric_witness:
  "\<exists>user grp hasGroup uid. CutChar ''1000:0'' CHR '':'' = (user, grp, hasGroup) \<and> list_all is_digit user \<and>
     Atoi user = Some uid \<and> 0 < uid"
proof -
  have "NormalizeRunAsUser '' 1000:0'' = Inr ''1000:0''" and "RunAsUserIsNonRoot ''1000:0''" by code_simp+
  from restricted_account_numeric [OF this] show ?thesis by blast
qed

end
