(* ===== verification/Resource_Model.thy ===== *)
theory Resource_Model
  imports Go_Prelude
begin

text \<open>
  The declarative resource model \<open>miabi.io/v1\<close>: the kinds, metadata and typed specs of
  \<^verbatim>\<open>internal/declarative/schema.go\<close>, the accessors of \<^verbatim>\<open>accessors.go\<close> and the keyed, ordered collection
  of \<^verbatim>\<open>resourceset.go\<close>. The lemmas show that a \<open>ResourceSet\<close> is a map from keys to resources that
  remembers the order of first insertion, stated as the interface \<open>resource_store\<close> that the planner
  uses.

  A pointer that may be nil is an \<open>option\<close>; a Go map is an association list (with \<open>option\<close> around
  it where the code tells a nil map from an empty one); \<open>map[string]any\<close>, which the planner never
  looks into, is kept as text.
\<close>

section \<open>Kinds and metadata\<close>

type_synonym Kind = string

abbreviation KindApplication :: Kind where "KindApplication \<equiv> ''Application''"
abbreviation KindStack :: Kind where "KindStack \<equiv> ''Stack''"
abbreviation KindDatabase :: Kind where "KindDatabase \<equiv> ''Database''"
abbreviation KindVolume :: Kind where "KindVolume \<equiv> ''Volume''"
abbreviation KindRoute :: Kind where "KindRoute \<equiv> ''Route''"
abbreviation KindSecret :: Kind where "KindSecret \<equiv> ''Secret''"
abbreviation KindSealedSecret :: Kind where "KindSealedSecret \<equiv> ''SealedSecret''"
abbreviation KindDomain :: Kind where "KindDomain \<equiv> ''Domain''"
abbreviation KindRegistry :: Kind where "KindRegistry \<equiv> ''Registry''"
abbreviation KindProject :: Kind where "KindProject \<equiv> ''Project''"
abbreviation KindConfig :: Kind where "KindConfig \<equiv> ''Config''"
abbreviation KindMiddleware :: Kind where "KindMiddleware \<equiv> ''Middleware''"
abbreviation KindCronJob :: Kind where "KindCronJob \<equiv> ''CronJob''"
abbreviation KindJob :: Kind where "KindJob \<equiv> ''Job''"
abbreviation KindGitSource :: Kind where "KindGitSource \<equiv> ''GitSource''"
abbreviation KindGitRepository :: Kind where "KindGitRepository \<equiv> ''GitRepository''"

definition knownKinds :: "Kind list" where
  "knownKinds =
     [KindApplication, KindStack, KindDatabase, KindVolume, KindRoute, KindSecret, KindSealedSecret,
      KindDomain, KindRegistry, KindProject, KindConfig, KindMiddleware, KindCronJob, KindJob,
      KindGitSource, KindGitRepository]"

type_synonym smap = "(string \<times> string) list"

definition smap_get :: "smap \<Rightarrow> string \<Rightarrow> string" where
  "smap_get m k = (case map_of m k of Some v \<Rightarrow> v | None \<Rightarrow> [])"

record Meta =
  m_Name :: string
  m_UID :: string
  m_Labels :: smap
  m_Annotations :: smap

section \<open>Specs\<close>

record ApplicationPlacementSpec =
  ap_Location :: string
  ap_Constraints :: "string list option"

record UpdateSpec =
  u_Parallelism :: int
  u_DelaySeconds :: int

record DeploymentSpec =
  dp_Runtime :: string
  dp_Replicas :: int
  dp_Strategy :: string
  dp_Update :: "UpdateSpec option"

record HealthcheckSpec =
  h_Type :: string
  h_Path :: string
  h_Port :: int
  h_Command :: string
  h_IntervalSeconds :: int
  h_TimeoutSeconds :: int
  h_Retries :: int
  h_StartPeriodSeconds :: int

record PlacementSpec =
  pc_Location :: string

record DatabasePlacementSpec =
  dbp_Location :: string
  dbp_legacyInstance :: string

record SourceSpec =
  so_Git :: string
  so_Ref :: string
  so_BuildMethod :: string
  so_Builder :: string
  so_Buildpacks :: "string list"
  so_BuildEnv :: smap
  so_Repository :: string

record PortSpec =
  po_Container :: int
  po_Protocol :: string
  po_Scheme :: string
  po_ExternalAccess :: bool
  po_Publish :: bool
  po_HostPort :: int

record MountSpec =
  mt_Volume :: string
  mt_Config :: string
  mt_Key :: string
  mt_Path :: string
  mt_Mode :: string
  mt_ReadOnly :: bool

record CapabilitiesSpec =
  cp_Add :: "string list option"
  cp_Drop :: "string list"

record SecuritySpec =
  se_RunAsUser :: string
  se_ReadOnlyRootFilesystem :: bool
  se_NoNewPrivileges :: "bool option"
  se_Capabilities :: "CapabilitiesSpec option"
  se_Devices :: "string list"
  se_DeprecatedAddCapabilities :: "string list option"

record ResourceSpec =
  rq_Memory :: string
  rq_CPU :: string
  rq_GPU :: int
  rq_GPUKind :: string

record ApplicationSpec =
  a_Source :: "SourceSpec option"
  a_Image :: string
  a_ImageTag :: string
  a_ImageDigest :: string
  a_Command :: "string list"
  a_Ports :: "PortSpec list"
  a_Env :: smap
  a_SecretEnv :: "string list"
  a_Mounts :: "MountSpec list"
  a_Resources :: "ResourceSpec option"
  a_Placement :: "ApplicationPlacementSpec option"
  a_Deployment :: "DeploymentSpec option"
  a_Security :: "SecuritySpec option"
  a_Healthcheck :: "HealthcheckSpec option"
  a_ContainerLabels :: smap
  a_Stack :: string
  a_Registry :: string
  a_ExternalLabel :: string
  a_ReloadPolicy :: string
  a_ConfigFP :: string
  a_DeprecatedRunAsUser :: string
  a_DeprecatedStrategy :: string

record StackSpec =
  st_Description :: string
  st_Placement :: "PlacementSpec option"
  st_Env :: "smap option"
  st_SecretEnv :: "string list"

record DatabaseResourcesSpec =
  dr_Memory :: string
  dr_CPU :: string
  dr_Size :: string

record DatabaseSpec =
  db_Engine :: string
  db_Version :: string
  db_Instance :: string
  db_Placement :: "DatabasePlacementSpec option"
  db_Resources :: "DatabaseResourcesSpec option"
  db_ReadOnlyUser :: "bool option"

record VolumeSpec =
  v_Size :: string
  v_StorageClass :: string
  v_Placement :: "PlacementSpec option"

record RouteMaintenanceSpec =
  mn_Enabled :: bool
  mn_StatusCode :: int
  mn_Message :: string

record RouteSpec =
  ro_Hosts :: "string list"
  ro_App :: string
  ro_Port :: int
  ro_Path :: string
  ro_TLS :: string
  ro_Certificate :: string
  ro_TLSProvider :: string
  ro_Rewrite :: string
  ro_Methods :: "string list"
  ro_AdvancedConfig :: string
  ro_ExploitProtection :: "bool option"
  ro_Maintenance :: "RouteMaintenanceSpec option"
  ro_Middlewares :: "string list"

record MiddlewareSpec =
  mw_Type :: string
  mw_Paths :: "string list"
  mw_Rule :: string
  mw_RuleFP :: string

record CronJobSpec =
  cj_App :: string
  cj_Schedule :: string
  cj_Command :: "string list"
  cj_Entrypoint :: "string list"
  cj_Image :: string
  cj_Registry :: string
  cj_TimeoutSeconds :: int
  cj_ConcurrencyPolicy :: string
  cj_HistoryLimit :: int
  cj_Suspend :: "bool option"
  cj_Security :: "SecuritySpec option"

record JobSpec =
  j_App :: string
  j_Command :: "string list"
  j_Entrypoint :: "string list"
  j_Image :: string
  j_Registry :: string
  j_TimeoutSeconds :: int
  j_RunPolicy :: string
  j_WaitForDeploy :: "bool option"
  j_HistoryLimit :: int
  j_BackoffLimit :: int
  j_Security :: "SecuritySpec option"
  j_SpecFP :: string

record DomainSpec =
  dm_TLS :: string
  dm_Wildcard :: bool

record GitSourceSpec =
  gs_Repo :: string
  gs_Repository :: string
  gs_Ref :: string
  gs_Path :: string
  gs_SyncPolicy :: string
  gs_Prune :: bool
  gs_SelfHeal :: bool
  gs_AllowEmpty :: bool
  gs_RequireSealedSecrets :: bool
  gs_DeletePolicy :: string

record GitRepositorySpec =
  gr_URL :: string
  gr_Auth :: string
  gr_Username :: string
  gr_SecretRef :: string

record RegistrySpec =
  rg_Server :: string
  rg_Username :: string
  rg_Password :: string
  rg_PasswordFP :: string

record SecretSpec =
  sc_Value :: string
  sc_Generate :: bool
  sc_Length :: int
  sc_Symbols :: "bool option"
  sc_MinNumbers :: int
  sc_MinSpecial :: int

record SealedSecretSpec =
  ss_Value :: string
  ss_SealedFP :: string

record ConfigSpec =
  cf_Data :: smap
  cf_Mode :: string
  cf_Sensitive :: bool
  cf_Delimiters :: "string list"
  cf_DigestFP :: string

record Resource =
  r_Kind :: Kind
  r_Metadata :: Meta
  r_Application :: "ApplicationSpec option"
  r_Stack :: "StackSpec option"
  r_Database :: "DatabaseSpec option"
  r_Volume :: "VolumeSpec option"
  r_Route :: "RouteSpec option"
  r_Secret :: "SecretSpec option"
  r_SealedSecret :: "SealedSecretSpec option"
  r_Domain :: "DomainSpec option"
  r_Registry :: "RegistrySpec option"
  r_Config :: "ConfigSpec option"
  r_Middleware :: "MiddlewareSpec option"
  r_CronJob :: "CronJobSpec option"
  r_Job :: "JobSpec option"
  r_GitSource :: "GitSourceSpec option"
  r_GitRepository :: "GitRepositorySpec option"

abbreviation r_Name :: "Resource \<Rightarrow> string" where
  "r_Name r \<equiv> m_Name (r_Metadata r)"

abbreviation r_UID :: "Resource \<Rightarrow> string" where
  "r_UID r \<equiv> m_UID (r_Metadata r)"

definition kind_name :: "Kind \<Rightarrow> string \<Rightarrow> string" where
  "kind_name k n = k @ ''/'' @ n"

definition Key :: "Resource \<Rightarrow> string" where
  "Key r = kind_name (r_Kind r) (r_Name r)"

definition IsVaultSecret :: "Kind \<Rightarrow> bool" where
  "IsVaultSecret k = (k = KindSecret \<or> k = KindSealedSecret)"

definition WantSymbols :: "SecretSpec \<Rightarrow> bool" where
  "WantSymbols s = (case sc_Symbols s of Some b \<Rightarrow> b | None \<Rightarrow> sc_MinSpecial s > 0)"

section \<open>Accessors\<close>

definition app_Location :: "ApplicationSpec \<Rightarrow> string" where
  "app_Location a = (case a_Placement a of None \<Rightarrow> [] | Some p \<Rightarrow> ap_Location p)"

definition app_Constraints :: "ApplicationSpec \<Rightarrow> string list option" where
  "app_Constraints a = (case a_Placement a of None \<Rightarrow> None | Some p \<Rightarrow> ap_Constraints p)"

definition app_Runtime :: "ApplicationSpec \<Rightarrow> string" where
  "app_Runtime a = (case a_Deployment a of None \<Rightarrow> [] | Some d \<Rightarrow> dp_Runtime d)"

definition app_Replicas :: "ApplicationSpec \<Rightarrow> int" where
  "app_Replicas a = (case a_Deployment a of None \<Rightarrow> 0 | Some d \<Rightarrow> dp_Replicas d)"

definition app_Strategy :: "ApplicationSpec \<Rightarrow> string" where
  "app_Strategy a = (case a_Deployment a of None \<Rightarrow> [] | Some d \<Rightarrow> dp_Strategy d)"

definition app_Update :: "ApplicationSpec \<Rightarrow> UpdateSpec option" where
  "app_Update a = (case a_Deployment a of None \<Rightarrow> None | Some d \<Rightarrow> dp_Update d)"

definition app_RunAsUser :: "ApplicationSpec \<Rightarrow> string" where
  "app_RunAsUser a = (case a_Security a of None \<Rightarrow> [] | Some s \<Rightarrow> se_RunAsUser s)"

definition app_ReadOnlyRootFilesystem :: "ApplicationSpec \<Rightarrow> bool" where
  "app_ReadOnlyRootFilesystem a = (case a_Security a of None \<Rightarrow> False | Some s \<Rightarrow> se_ReadOnlyRootFilesystem s)"

definition app_NoNewPrivileges :: "ApplicationSpec \<Rightarrow> bool" where
  "app_NoNewPrivileges a = (case a_Security a of None \<Rightarrow> False | Some s \<Rightarrow> se_NoNewPrivileges s = Some True)"

text \<open>\<open>None\<close> is the nil slice, which the old spelling of the field gives way to.\<close>

definition app_AddCapabilities_opt :: "ApplicationSpec \<Rightarrow> string list option" where
  "app_AddCapabilities_opt a =
     (case a_Security a of
        None \<Rightarrow> None
      | Some s \<Rightarrow> (case se_Capabilities s of None \<Rightarrow> None | Some c \<Rightarrow> cp_Add c))"

definition app_AddCapabilities :: "ApplicationSpec \<Rightarrow> string list" where
  "app_AddCapabilities a = (case app_AddCapabilities_opt a of None \<Rightarrow> [] | Some l \<Rightarrow> l)"

definition app_DropCapabilities :: "ApplicationSpec \<Rightarrow> string list" where
  "app_DropCapabilities a =
     (case a_Security a of
        None \<Rightarrow> []
      | Some s \<Rightarrow> (case se_Capabilities s of None \<Rightarrow> [] | Some c \<Rightarrow> cp_Drop c))"

definition app_Devices :: "ApplicationSpec \<Rightarrow> string list" where
  "app_Devices a = (case a_Security a of None \<Rightarrow> [] | Some s \<Rightarrow> se_Devices s)"

definition place_Location :: "PlacementSpec option \<Rightarrow> string" where
  "place_Location p = (case p of None \<Rightarrow> [] | Some p \<Rightarrow> pc_Location p)"

definition stack_Location :: "StackSpec \<Rightarrow> string" where
  "stack_Location s = place_Location (st_Placement s)"

definition database_Location :: "DatabaseSpec \<Rightarrow> string" where
  "database_Location d = (case db_Placement d of None \<Rightarrow> [] | Some p \<Rightarrow> dbp_Location p)"

definition volume_Location :: "VolumeSpec \<Rightarrow> string" where
  "volume_Location v = place_Location (v_Placement v)"

section \<open>Resource sets\<close>

record ResourceSet =
  rs_list :: "Resource list"
  rs_index :: "string \<rightharpoonup> nat"

definition NewResourceSet :: ResourceSet where
  "NewResourceSet = \<lparr>rs_list = [], rs_index = (\<lambda>_. None)\<rparr>"

definition rs_Add :: "Resource \<Rightarrow> ResourceSet \<Rightarrow> ResourceSet" where
  "rs_Add r s =
     (case rs_index s (Key r) of
        Some pos \<Rightarrow> s\<lparr>rs_list := (rs_list s)[pos := r]\<rparr>
      | None \<Rightarrow> s\<lparr>rs_index := (rs_index s)(Key r \<mapsto> length (rs_list s)), rs_list := rs_list s @ [r]\<rparr>)"

definition rs_Get :: "ResourceSet \<Rightarrow> string \<Rightarrow> Resource option" where
  "rs_Get s key = (case rs_index s key of None \<Rightarrow> None | Some pos \<Rightarrow> Some (rs_list s ! pos))"

definition rs_All :: "ResourceSet \<Rightarrow> Resource list" where
  "rs_All s = rs_list s"

definition rs_Len :: "ResourceSet \<Rightarrow> nat" where
  "rs_Len s = length (rs_list s)"

definition ByKind :: "ResourceSet \<Rightarrow> Kind \<Rightarrow> Resource list" where
  "ByKind s k = filter (\<lambda>r. r_Kind r = k) (rs_list s)"

definition rs_Has :: "ResourceSet \<Rightarrow> Kind \<Rightarrow> string \<Rightarrow> bool" where
  "rs_Has s k name = (rs_index s (kind_name k name) \<noteq> None)"

definition PlainSecrets :: "ResourceSet \<Rightarrow> string list" where
  "PlainSecrets s =
     sort (map r_Name (filter (\<lambda>r. r_Kind r = KindSecret \<and>
       (case r_Secret r of None \<Rightarrow> False | Some sec \<Rightarrow> sc_Value sec \<noteq> [])) (rs_All s)))"

text \<open>The index names exactly the positions of the list.\<close>

definition rs_inv :: "ResourceSet \<Rightarrow> bool" where
  "rs_inv s \<longleftrightarrow> distinct (map Key (rs_list s)) \<and>
     (\<forall>k pos. rs_index s k = Some pos \<longleftrightarrow> pos < length (rs_list s) \<and> Key (rs_list s ! pos) = k)"

text \<open>
  What the planner relies on: a store of resources that answers lookups by key, lists its resources
  without repeating a key, and replaces the resource of a key that is added again.
\<close>

locale resource_store =
  fixes new :: "'s" and add :: "Resource \<Rightarrow> 's \<Rightarrow> 's" and get :: "'s \<Rightarrow> string \<Rightarrow> Resource option"
    and everything :: "'s \<Rightarrow> Resource list" and wf :: "'s \<Rightarrow> bool"
  assumes wf_new: "wf new" and get_new: "get new k = None"
    and wf_add: "wf s \<Longrightarrow> wf (add r s)"
    and get_add: "wf s \<Longrightarrow> get (add r s) k = (if k = Key r then Some r else get s k)"
    and keys_distinct: "wf s \<Longrightarrow> distinct (map Key (everything s))"
    and get_iff: "wf s \<Longrightarrow> get s k = Some r \<longleftrightarrow> r \<in> set (everything s) \<and> Key r = k"
begin

lemma get_of_member: "wf s \<Longrightarrow> r \<in> set (everything s) \<Longrightarrow> get s (Key r) = Some r"
  by (simp add: get_iff)

lemma members_by_key: "wf s \<Longrightarrow> r \<in> set (everything s) \<Longrightarrow> r' \<in> set (everything s) \<Longrightarrow> Key r = Key r' \<Longrightarrow> r = r'"
  using get_of_member by (metis option.inject)

lemma set_add:
  assumes "wf s"
  shows "x \<in> set (everything (add r s)) \<longleftrightarrow> x = r \<or> (x \<in> set (everything s) \<and> Key x \<noteq> Key r)"
proof -
  have "x \<in> set (everything (add r s)) \<longleftrightarrow> get (add r s) (Key x) = Some x"
    using get_iff [OF wf_add [OF assms]] by simp
  also have "\<dots> \<longleftrightarrow> x = r \<or> (Key x \<noteq> Key r \<and> get s (Key x) = Some x)"
    unfolding get_add [OF assms] by (cases "x = r") simp_all
  finally show ?thesis using get_iff [OF assms, of "Key x" x] by blast
qed

text \<open>Building a set from a list of documents: the last document of each key wins.\<close>

lemma wf_build: "wf s \<Longrightarrow> wf (fold add rs s)"
  by (induction rs arbitrary: s) (simp_all add: wf_add)

lemma get_build: "wf s \<Longrightarrow>
  get (fold add rs s) k = (case find (\<lambda>r. Key r = k) (rev rs) of Some r \<Rightarrow> Some r | None \<Rightarrow> get s k)"
proof (induction rs arbitrary: s)
  case (Cons r rs)
  have "find (\<lambda>r. Key r = k) (xs @ [r]) = (case find (\<lambda>r. Key r = k) xs of Some x \<Rightarrow> Some x
      | None \<Rightarrow> if Key r = k then Some r else None)" for xs
    by (induction xs) auto
  with Cons show ?case by (auto simp: wf_add get_add split: option.splits)
qed simp

end

lemma rs_index_Some: "rs_inv s \<Longrightarrow> rs_index s k = Some pos \<longleftrightarrow> pos < length (rs_list s) \<and> Key (rs_list s ! pos) = k"
  by (simp add: rs_inv_def)

lemma rs_Add_inv:
  assumes "rs_inv s"
  shows "rs_inv (rs_Add r s)"
proof (cases "rs_index s (Key r)")
  case (Some pos)
  then have pos: "pos < length (rs_list s)" "Key (rs_list s ! pos) = Key r"
    using assms by (simp_all add: rs_index_Some)
  have keys: "Key ((rs_list s)[pos := r] ! i) = Key (rs_list s ! i)" if "i < length (rs_list s)" for i
    using pos that by (cases "i = pos") simp_all
  then have "map Key ((rs_list s)[pos := r]) = map Key (rs_list s)"
    by (intro nth_equalityI) simp_all
  moreover have "pos' < length (rs_list s) \<and> Key ((rs_list s)[pos := r] ! pos') = k \<longleftrightarrow>
      pos' < length (rs_list s) \<and> Key (rs_list s ! pos') = k" for pos' k
    using keys by (cases "pos' < length (rs_list s)") simp_all
  moreover have "rs_Add r s = s\<lparr>rs_list := (rs_list s)[pos := r]\<rparr>" using Some by (simp add: rs_Add_def)
  ultimately show ?thesis using assms by (simp add: rs_inv_def)
next
  case None
  then have "Key (rs_list s ! i) \<noteq> Key r" if "i < length (rs_list s)" for i
    using that assms rs_index_Some [OF assms, of "Key r" i] by simp
  moreover from this have "Key r \<notin> Key ` set (rs_list s)" by (auto simp: in_set_conv_nth) metis
  ultimately show ?thesis
    using assms None by (auto simp: rs_inv_def rs_Add_def nth_append in_set_conv_nth less_Suc_eq)
qed

lemma rs_Get_iff:
  assumes "rs_inv s"
  shows "rs_Get s k = Some r \<longleftrightarrow> r \<in> set (rs_All s) \<and> Key r = k"
proof
  assume "rs_Get s k = Some r"
  then obtain pos where "rs_index s k = Some pos" and "r = rs_list s ! pos"
    by (auto simp: rs_Get_def split: option.splits)
  then show "r \<in> set (rs_All s) \<and> Key r = k"
    using rs_index_Some [OF assms, of k pos] by (simp add: rs_All_def)
next
  assume r: "r \<in> set (rs_All s) \<and> Key r = k"
  then obtain i where "i < length (rs_list s)" and "rs_list s ! i = r"
    by (auto simp: rs_All_def in_set_conv_nth)
  then show "rs_Get s k = Some r" using r rs_index_Some [OF assms, of k i] by (simp add: rs_Get_def)
qed

lemma rs_Get_Add:
  assumes "rs_inv s"
  shows "rs_Get (rs_Add r s) k = (if k = Key r then Some r else rs_Get s k)"
proof (cases "rs_index s (Key r)")
  case (Some pos)
  then have pos: "pos < length (rs_list s)" "Key (rs_list s ! pos) = Key r"
    using rs_index_Some [OF assms, of "Key r" pos] by simp_all
  have "(rs_list s)[pos := r] ! q = rs_list s ! q" if "rs_index s k = Some q" "k \<noteq> Key r" for q
    using that pos rs_index_Some [OF assms, of k q] by (cases "q = pos") simp_all
  then show ?thesis
    using pos Some by (cases "k = Key r"; cases "rs_index s k") (simp_all add: rs_Get_def rs_Add_def)
next
  case None
  have "q < length (rs_list s)" if "rs_index s k = Some q" for q
    using that rs_index_Some [OF assms, of k q] by simp
  with None show ?thesis
    by (cases "rs_index s k") (simp_all add: rs_Get_def rs_Add_def nth_append)
qed

interpretation rs: resource_store NewResourceSet rs_Add rs_Get rs_All rs_inv
proof
  show "rs_inv NewResourceSet" by (simp add: rs_inv_def NewResourceSet_def)
  show "rs_Get NewResourceSet k = None" for k by (simp add: rs_Get_def NewResourceSet_def)
  show "distinct (map Key (rs_All s))" if "rs_inv s" for s using that by (simp add: rs_inv_def rs_All_def)
qed (simp_all add: rs_Add_inv rs_Get_Add rs_Get_iff)

lemma rs_Has_Get: "rs_Has s k n \<longleftrightarrow> rs_Get s (kind_name k n) \<noteq> None"
  by (simp add: rs_Has_def rs_Get_def split: option.splits)

lemma rs_Has_iff: "rs_inv s \<Longrightarrow> rs_Has s k n \<longleftrightarrow> (\<exists>r \<in> set (rs_All s). Key r = kind_name k n)"
  using rs_Get_iff [of s "kind_name k n"] by (cases "rs_Get s (kind_name k n)") (simp_all add: rs_Has_Get, blast+)

end
