(* ===== verification/Apply_Planner.thy ===== *)
theory Apply_Planner
  imports Resource_Model Container_Grants "HOL-Library.Product_Lexorder"
begin

text \<open>
  The planner of \<open>miabi apply\<close> and GitOps, \<^verbatim>\<open>internal/declarative/plan.go\<close> with the job comparison of
  \<^verbatim>\<open>jobs.go\<close>: from a desired and an actual resource set it computes the creates, updates and deletes
  that converge the workspace, in the order they are applied. The lemmas show that the plan is
  complete and ordered, that pruning only ever deletes what nothing desired claims, that a set
  compared with itself plans nothing, and that the plan does not depend on secret values.

  Three operations of the standard library are arguments (\<open>GoStd\<close>): the SHA-256 digest in hex,
  \<open>strconv.Quote\<close>, and reading a decimal with \<open>strconv.ParseFloat\<close>, multiplying it in \<open>float64\<close> and
  truncating to \<open>int64\<close> (\<open>None\<close> when it does not parse or is negative). Every result holds for any
  value of them.
\<close>

record GoStd =
  g_sha256hex :: "string \<Rightarrow> string"
  g_Quote :: "string \<Rightarrow> string"
  g_FloatScaled :: "string \<Rightarrow> int \<Rightarrow> int option"

section \<open>Plans\<close>

type_synonym Action = string

abbreviation ActionCreate :: Action where "ActionCreate \<equiv> ''create''"
abbreviation ActionUpdate :: Action where "ActionUpdate \<equiv> ''update''"
abbreviation ActionDelete :: Action where "ActionDelete \<equiv> ''delete''"
abbreviation ActionNoop :: Action where "ActionNoop \<equiv> ''noop''"

record FieldDiff =
  fd_Field :: string
  fd_From :: string
  fd_To :: string

record Change =
  c_Action :: Action
  c_Kind :: Kind
  c_Name :: string
  c_Reason :: string
  c_Fields :: "FieldDiff list"

definition LabelManagedBy :: string where
  "LabelManagedBy = ''miabi.io/managed-by''"

definition LabelGitOpsSource :: string where
  "LabelGitOpsSource = ''miabi.io/gitops-source''"

record PlanOptions =
  o_Prune :: bool
  o_PruneManagedBy :: string
  o_PruneGitOpsSource :: string
  o_IncludeNoop :: bool

definition HasChanges :: "Change list \<Rightarrow> bool" where
  "HasChanges cs = list_ex (\<lambda>c. c_Action c \<noteq> ActionNoop) cs"

definition Counts :: "Change list \<Rightarrow> nat \<times> nat \<times> nat \<times> nat" where
  "Counts cs =
     (length (filter (\<lambda>c. c_Action c = ActionCreate) cs), length (filter (\<lambda>c. c_Action c = ActionUpdate) cs),
      length (filter (\<lambda>c. c_Action c = ActionDelete) cs), length (filter (\<lambda>c. c_Action c = ActionNoop) cs))"

definition applyRank :: "Kind \<Rightarrow> int" where
  "applyRank k =
     (if k \<in> {KindSecret, KindSealedSecret, KindVolume, KindDomain, KindConfig, KindMiddleware} then 0
      else if k \<in> {KindDatabase, KindStack, KindRegistry, KindGitRepository} then 1
      else if k = KindApplication then 2
      else if k \<in> {KindRoute, KindCronJob, KindJob} then 3
      else if k = KindGitSource then 4
      else 9)"

definition planned :: "Kind \<Rightarrow> bool" where
  "planned k = (k \<noteq> KindProject)"

definition vaultAlias :: "Kind \<Rightarrow> Kind option" where
  "vaultAlias k = (if k = KindSecret then Some KindSealedSecret
                   else if k = KindSealedSecret then Some KindSecret else None)"

section \<open>Quantities\<close>

definition MemoryBytes :: "GoStd \<Rightarrow> string \<Rightarrow> int option" where
  "MemoryBytes g mem =
     (let s = TrimSpace mem
      in if s = [] \<or> s = ''0'' then Some 0
         else let (mult, s) =
                (if HasSuffix s ''Gi'' then (2 ^ 30, TrimSuffix s ''Gi'')
                 else if HasSuffix s ''Mi'' then (2 ^ 20, TrimSuffix s ''Mi'')
                 else if HasSuffix s ''Ki'' then (2 ^ 10, TrimSuffix s ''Ki'')
                 else (1, s))
              in g_FloatScaled g (TrimSpace s) mult)"

definition NanoCPUs :: "GoStd \<Rightarrow> string \<Rightarrow> int option" where
  "NanoCPUs g cpu =
     (let s = TrimSpace cpu in if s = [] \<or> s = ''0'' then Some 0 else g_FloatScaled g s 1000000000)"

text \<open>The planner drops the error of a quantity, which then counts as zero.\<close>

definition or_zero :: "int option \<Rightarrow> int" where
  "or_zero n = (case n of Some i \<Rightarrow> i | None \<Rightarrow> 0)"

definition FormatBool :: "bool \<Rightarrow> string" where
  "FormatBool b = (if b then ''true'' else ''false'')"

section \<open>The fields of a spec\<close>

text \<open>
  \<open>specFields\<close> fills a map; here it is the list of the assignments in order, and a later assignment
  to the same field wins.
\<close>

definition stated :: "bool \<Rightarrow> string \<Rightarrow> string \<Rightarrow> smap" where
  "stated b k v = (if b then [(k, v)] else [])"

definition reservedLabelPrefixes :: "string list" where
  "reservedLabelPrefixes = [''io.miabi.'', ''com.docker.'']"

definition reservedLabelKey :: "string \<Rightarrow> bool" where
  "reservedLabelKey key = list_ex (HasPrefix key) reservedLabelPrefixes"

definition env_fields :: "smap \<Rightarrow> string list \<Rightarrow> smap" where
  "env_fields env secretEnv =
     map (\<lambda>(k, v). (''env.'' @ k, if k \<in> set secretEnv then ''(secret)'' else v)) env"

definition source_fields :: "SourceSpec \<Rightarrow> smap" where
  "source_fields s =
     [(''source.git'', so_Git s), (''source.ref'', so_Ref s), (''source.buildMethod'', so_BuildMethod s),
      (''source.builder'', so_Builder s), (''source.buildpacks'', JoinStr (so_Buildpacks s) '',''),
      (''source.repository'', so_Repository s)] @
     map (\<lambda>(k, v). (''source.buildEnv.'' @ k, v)) (so_BuildEnv s)"

definition security_fields :: "ApplicationSpec \<Rightarrow> smap" where
  "security_fields a =
     [(''security.runAsUser'', app_RunAsUser a),
      (''security.readOnlyRootFilesystem'', FormatBool (app_ReadOnlyRootFilesystem a)),
      (''security.noNewPrivileges'', FormatBool (app_NoNewPrivileges a)),
      (''security.capabilities.add'', normalizedList (app_AddCapabilities a) NormalizeCapabilities),
      (''security.capabilities.drop'', normalizedList (app_DropCapabilities a) NormalizeDropCapabilities),
      (''security.devices'', normalizedList (app_Devices a) NormalizeDevices)]"

definition deployment_fields :: "ApplicationSpec \<Rightarrow> smap" where
  "deployment_fields a =
     stated (app_Location a \<noteq> []) ''placement.location'' (app_Location a) @
     stated (app_Strategy a \<noteq> []) ''deployment.strategy'' (app_Strategy a) @
     stated (app_Runtime a \<noteq> []) ''deployment.runtime'' (app_Runtime a) @
     stated (app_Replicas a > 0) ''deployment.replicas'' (Itoa (app_Replicas a)) @
     (case app_Constraints a of None \<Rightarrow> [] | Some c \<Rightarrow> [(''placement.constraints'', JoinStr c '','')]) @
     (case app_Update a of
        None \<Rightarrow> []
      | Some u \<Rightarrow> [(''deployment.update.parallelism'', Itoa (u_Parallelism u)),
                   (''deployment.update.delaySeconds'', Itoa (u_DelaySeconds u))])"

definition healthcheck_fields :: "HealthcheckSpec \<Rightarrow> smap" where
  "healthcheck_fields h =
     [(''healthcheck.type'', h_Type h)] @
     stated (h_Path h \<noteq> []) ''healthcheck.path'' (h_Path h) @
     stated (h_Port h > 0) ''healthcheck.port'' (Itoa (h_Port h)) @
     stated (h_Command h \<noteq> []) ''healthcheck.command'' (h_Command h) @
     stated (h_IntervalSeconds h > 0) ''healthcheck.intervalSeconds'' (Itoa (h_IntervalSeconds h)) @
     stated (h_TimeoutSeconds h > 0) ''healthcheck.timeoutSeconds'' (Itoa (h_TimeoutSeconds h)) @
     stated (h_Retries h > 0) ''healthcheck.retries'' (Itoa (h_Retries h)) @
     stated (h_StartPeriodSeconds h > 0) ''healthcheck.startPeriodSeconds'' (Itoa (h_StartPeriodSeconds h))"

definition resource_fields :: "GoStd \<Rightarrow> ResourceSpec \<Rightarrow> smap" where
  "resource_fields g r =
     (let mb = or_zero (MemoryBytes g (rq_Memory r)); nc = or_zero (NanoCPUs g (rq_CPU r))
      in stated (mb \<noteq> 0) ''resources.memory'' (Itoa mb) @ stated (nc \<noteq> 0) ''resources.cpu'' (Itoa nc) @
         stated (rq_GPU r \<noteq> 0) ''resources.gpu'' (Itoa (rq_GPU r)) @
         stated (rq_GPUKind r \<noteq> []) ''resources.gpuKind'' (rq_GPUKind r))"

definition port_fields :: "PortSpec \<Rightarrow> smap" where
  "port_fields p =
     stated (po_ExternalAccess p) (''port.'' @ Itoa (po_Container p) @ ''.external'') ''true'' @
     stated (po_Publish p \<or> po_HostPort p > 0) (''port.'' @ Itoa (po_Container p) @ ''.published'') ''true''"

definition app_fields :: "GoStd \<Rightarrow> ApplicationSpec \<Rightarrow> smap" where
  "app_fields g a =
     [(''image'', a_Image a), (''tag'', a_ImageTag a), (''digest'', a_ImageDigest a)] @
     (case a_Source a of None \<Rightarrow> [] | Some s \<Rightarrow> source_fields s) @
     [(''command'', JoinStr (a_Command a) '' ''), (''registry'', a_Registry a)] @
     stated (a_Stack a \<noteq> []) ''stack'' (a_Stack a) @
     security_fields a @ deployment_fields a @
     (case a_Healthcheck a of None \<Rightarrow> [] | Some h \<Rightarrow> healthcheck_fields h) @
     stated (a_ConfigFP a \<noteq> []) ''configFP'' (a_ConfigFP a) @
     map (\<lambda>(k, v). (''containerLabels.'' @ k, v)) (filter (\<lambda>(k, v). \<not> reservedLabelKey k) (a_ContainerLabels a)) @
     (case a_Resources a of None \<Rightarrow> [] | Some r \<Rightarrow> resource_fields g r) @
     env_fields (a_Env a) (a_SecretEnv a) @
     concat (map port_fields (a_Ports a))"

definition database_fields :: "GoStd \<Rightarrow> DatabaseSpec \<Rightarrow> smap" where
  "database_fields g d =
     [(''engine'', db_Engine d), (''version'', db_Version d)] @
     stated (database_Location d \<noteq> []) ''placement.location'' (database_Location d) @
     (case db_ReadOnlyUser d of None \<Rightarrow> [] | Some ro \<Rightarrow> [(''readOnlyUser'', FormatBool ro)]) @
     (case db_Resources d of
        None \<Rightarrow> []
      | Some r \<Rightarrow>
          stated (dr_Memory r \<noteq> []) ''resources.memory'' (Itoa (or_zero (MemoryBytes g (dr_Memory r)))) @
          stated (dr_CPU r \<noteq> []) ''resources.cpu'' (Itoa (or_zero (NanoCPUs g (dr_CPU r)))) @
          stated (dr_Size r \<noteq> []) ''resources.size'' (dr_Size r))"

definition volume_fields :: "GoStd \<Rightarrow> VolumeSpec \<Rightarrow> smap" where
  "volume_fields g v =
     stated (volume_Location v \<noteq> []) ''placement.location'' (volume_Location v) @
     stated (TrimSpace (v_StorageClass v) \<noteq> []) ''storage.class'' (TrimSpace (v_StorageClass v)) @
     stated (v_Size v \<noteq> []) ''size'' (Itoa (or_zero (MemoryBytes g (v_Size v))))"

definition route_fields :: "RouteSpec \<Rightarrow> smap" where
  "route_fields r =
     (let mt = (case ro_Maintenance r of Some m \<Rightarrow> m | None \<Rightarrow> \<lparr>mn_Enabled = False, mn_StatusCode = 0, mn_Message = []\<rparr>)
      in [(''hosts'', JoinStr (sort (ro_Hosts r)) '',''), (''app'', ro_App r), (''path'', ro_Path r),
          (''tls'', ro_TLS r), (''certificate'', ro_Certificate r), (''tlsProvider'', ro_TLSProvider r),
          (''port'', Itoa (ro_Port r)), (''rewrite'', ro_Rewrite r),
          (''methods'', JoinStr (sort (ro_Methods r)) '',''), (''advancedConfig'', ro_AdvancedConfig r),
          (''security.exploitProtection'', FormatBool (ro_ExploitProtection r = Some True)),
          (''maintenance.enabled'', FormatBool (mn_Enabled mt)),
          (''maintenance.statusCode'', Itoa (mn_StatusCode mt)), (''maintenance.message'', mn_Message mt),
          (''middlewares'', JoinStr (ro_Middlewares r) '','')])"

definition stack_fields :: "StackSpec \<Rightarrow> smap" where
  "stack_fields s =
     [(''description'', st_Description s)] @
     stated (stack_Location s \<noteq> []) ''placement.location'' (stack_Location s) @
     env_fields (case st_Env s of None \<Rightarrow> [] | Some e \<Rightarrow> e) (st_SecretEnv s)"

definition defaultJobHistory :: int where
  "defaultJobHistory = 20"

definition historyOrDefault :: "int \<Rightarrow> int" where
  "historyOrDefault n = (if n \<le> 0 then defaultJobHistory else n)"

definition argList :: "GoStd \<Rightarrow> string list \<Rightarrow> string" where
  "argList g args = JoinStr (map (g_Quote g) args) '' ''"

definition run_user :: "SecuritySpec option \<Rightarrow> string" where
  "run_user sec = (case NormalizeRunAsUser (case sec of None \<Rightarrow> [] | Some s \<Rightarrow> se_RunAsUser s) of
                     Inr u \<Rightarrow> u | Inl _ \<Rightarrow> [])"

definition cronJobFields :: "GoStd \<Rightarrow> CronJobSpec \<Rightarrow> smap" where
  "cronJobFields g c =
     [(''app'', cj_App c), (''schedule'', TrimSpace (cj_Schedule c)), (''command'', argList g (cj_Command c)),
      (''entrypoint'', argList g (cj_Entrypoint c)), (''image'', TrimSpace (cj_Image c)),
      (''registry'', cj_Registry c), (''timeoutSeconds'', Itoa (cj_TimeoutSeconds c)),
      (''concurrencyPolicy'', if cj_ConcurrencyPolicy c = [] then ''allow'' else cj_ConcurrencyPolicy c),
      (''historyLimit'', Itoa (historyOrDefault (cj_HistoryLimit c))),
      (''security.runAsUser'', run_user (cj_Security c))] @
     (case cj_Suspend c of None \<Rightarrow> [] | Some b \<Rightarrow> [(''suspend'', FormatBool b)])"

definition gitsource_fields :: "GitSourceSpec \<Rightarrow> smap" where
  "gitsource_fields s =
     [(''repo'', gs_Repo s), (''repository'', gs_Repository s), (''ref'', gs_Ref s), (''path'', gs_Path s),
      (''syncPolicy'', gs_SyncPolicy s), (''prune'', FormatBool (gs_Prune s)),
      (''selfHeal'', FormatBool (gs_SelfHeal s)), (''allowEmpty'', FormatBool (gs_AllowEmpty s)),
      (''requireSealedSecrets'', FormatBool (gs_RequireSealedSecrets s)), (''deletePolicy'', gs_DeletePolicy s)]"

definition specFields :: "GoStd \<Rightarrow> Resource \<Rightarrow> smap" where
  "specFields g r =
     (case r_Application r of Some a \<Rightarrow> app_fields g a | None \<Rightarrow>
      case r_Database r of Some d \<Rightarrow> database_fields g d | None \<Rightarrow>
      case r_Volume r of Some v \<Rightarrow> volume_fields g v | None \<Rightarrow>
      case r_Route r of Some t \<Rightarrow> route_fields t | None \<Rightarrow>
      case r_Stack r of Some s \<Rightarrow> stack_fields s | None \<Rightarrow>
      case r_Domain r of
        Some d \<Rightarrow> [(''tls'', dm_TLS d), (''wildcard'', FormatBool (dm_Wildcard d))] | None \<Rightarrow>
      case r_CronJob r of Some c \<Rightarrow> cronJobFields g c | None \<Rightarrow>
      case r_GitRepository r of
        Some s \<Rightarrow> [(''url'', gr_URL s), (''auth'', gr_Auth s), (''username'', gr_Username s),
                    (''secretRef'', gr_SecretRef s)] | None \<Rightarrow>
      case r_GitSource r of Some s \<Rightarrow> gitsource_fields s | None \<Rightarrow> [])"

section \<open>Differences\<close>

text \<open>A map lookup: the last assignment of the field, or the empty string.\<close>

definition field_get :: "smap \<Rightarrow> string \<Rightarrow> string" where
  "field_get w k = smap_get (rev w) k"

definition has_field :: "smap \<Rightarrow> string \<Rightarrow> bool" where
  "has_field w k = (k \<in> fst ` set w)"

definition optionalWhenUnset :: "string list" where
  "optionalWhenUnset =
     [''placement.location'', ''placement.constraints'', ''deployment.strategy'', ''deployment.runtime'',
      ''deployment.replicas'', ''deployment.update.parallelism'', ''deployment.update.delaySeconds'',
      ''healthcheck.type'', ''healthcheck.path'', ''healthcheck.port'', ''healthcheck.command'',
      ''healthcheck.intervalSeconds'', ''healthcheck.timeoutSeconds'', ''healthcheck.retries'',
      ''healthcheck.startPeriodSeconds'', ''stack'']"

definition optionalWhenUnsetByKind :: "Kind \<Rightarrow> string list" where
  "optionalWhenUnsetByKind k =
     (if k = KindDatabase then [''resources.memory'', ''resources.cpu'', ''resources.size'', ''readOnlyUser'']
      else if k = KindVolume then [''storage.class'', ''size'']
      else if k = KindCronJob then [''suspend'']
      else [])"

text \<open>The live side loses the fields that a silent manifest leaves alone.\<close>

definition drop_unstated :: "Resource \<Rightarrow> smap \<Rightarrow> smap \<Rightarrow> smap" where
  "drop_unstated desired dv av =
     filter (\<lambda>(f, _). \<not> ((f \<in> set optionalWhenUnset \<or> f \<in> set (optionalWhenUnsetByKind (r_Kind desired))) \<and>
                          \<not> has_field dv f) \<and>
                      \<not> ((case r_Stack desired of Some s \<Rightarrow> st_Env s = None | None \<Rightarrow> False) \<and> HasPrefix f ''env.'')) av"

definition diff_maps :: "smap \<Rightarrow> smap \<Rightarrow> FieldDiff list" where
  "diff_maps av dv =
     map (\<lambda>k. \<lparr>fd_Field = k, fd_From = field_get av k, fd_To = field_get dv k\<rparr>)
       (filter (\<lambda>k. field_get av k \<noteq> field_get dv k) (sort (remdups (map fst av @ map fst dv))))"

definition changed :: "string \<Rightarrow> string \<Rightarrow> string \<Rightarrow> FieldDiff list" where
  "changed field from to = (if from \<noteq> to then [\<lparr>fd_Field = field, fd_From = from, fd_To = to\<rparr>] else [])"

definition diffSealedSecret :: "Resource \<Rightarrow> Resource \<Rightarrow> FieldDiff list" where
  "diffSealedSecret actual desired =
     (case r_SealedSecret desired of
        None \<Rightarrow> []
      | Some d \<Rightarrow>
          if ss_SealedFP d = [] then []
          else if (case r_SealedSecret actual of None \<Rightarrow> True | Some a \<Rightarrow> ss_SealedFP a = [])
            then [\<lparr>fd_Field = ''value'', fd_From = ''(not from a sealed value)'', fd_To = ''(sealed)''\<rparr>]
          else if (case r_SealedSecret actual of None \<Rightarrow> False | Some a \<Rightarrow> ss_SealedFP a = ss_SealedFP d) then []
          else [\<lparr>fd_Field = ''value'', fd_From = ''(current)'', fd_To = ''(sealed)''\<rparr>])"

definition zero_Registry :: RegistrySpec where
  "zero_Registry = \<lparr>rg_Server = [], rg_Username = [], rg_Password = [], rg_PasswordFP = []\<rparr>"

definition diffRegistry :: "Resource \<Rightarrow> Resource \<Rightarrow> FieldDiff list" where
  "diffRegistry actual desired =
     (case r_Registry desired of
        None \<Rightarrow> []
      | Some d \<Rightarrow>
          (let a = (case r_Registry actual of None \<Rightarrow> zero_Registry | Some a \<Rightarrow> a)
           in changed ''server'' (rg_Server a) (rg_Server d) @ changed ''username'' (rg_Username a) (rg_Username d) @
              (if rg_Password d \<noteq> [] \<and> rg_PasswordFP d \<noteq> [] \<and> rg_PasswordFP a \<noteq> [] \<and> rg_PasswordFP a \<noteq> rg_PasswordFP d
               then [\<lparr>fd_Field = ''password'', fd_From = ''(current)'', fd_To = ''(rotated)''\<rparr>] else [])))"

definition zero_Middleware :: MiddlewareSpec where
  "zero_Middleware = \<lparr>mw_Type = [], mw_Paths = [], mw_Rule = [], mw_RuleFP = []\<rparr>"

definition diffMiddleware :: "Resource \<Rightarrow> Resource \<Rightarrow> FieldDiff list" where
  "diffMiddleware actual desired =
     (case r_Middleware desired of
        None \<Rightarrow> []
      | Some d \<Rightarrow>
          (let a = (case r_Middleware actual of None \<Rightarrow> zero_Middleware | Some a \<Rightarrow> a)
           in changed ''type'' (mw_Type a) (mw_Type d) @
              changed ''paths'' (JoinStr (mw_Paths a) '','') (JoinStr (mw_Paths d) '','') @
              (if mw_RuleFP a \<noteq> [] \<and> mw_RuleFP d \<noteq> [] \<and> mw_RuleFP a \<noteq> mw_RuleFP d
               then [\<lparr>fd_Field = ''rule'', fd_From = ''(current)'', fd_To = ''(changed)''\<rparr>] else [])))"

definition present :: "smap \<Rightarrow> string \<Rightarrow> string" where
  "present m k = (if has_field m k then ''(present)'' else ''(absent)'')"

definition zero_Config :: ConfigSpec where
  "zero_Config = \<lparr>cf_Data = [], cf_Mode = [], cf_Sensitive = False, cf_Delimiters = [], cf_DigestFP = []\<rparr>"

definition diffConfig :: "Resource \<Rightarrow> Resource \<Rightarrow> FieldDiff list" where
  "diffConfig actual desired =
     (case r_Config desired of
        None \<Rightarrow> []
      | Some d \<Rightarrow>
          (let a = (case r_Config actual of None \<Rightarrow> zero_Config | Some a \<Rightarrow> a);
               out = changed ''data'' (cf_DigestFP a) (cf_DigestFP d) @ changed ''mode'' (cf_Mode a) (cf_Mode d) @
                 (if cf_Sensitive d then []
                  else map (\<lambda>k. \<lparr>fd_Field = ''data.'' @ k, fd_From = present (cf_Data a) k, fd_To = present (cf_Data d) k\<rparr>)
                         (filter (\<lambda>k. smap_get (cf_Data a) k \<noteq> smap_get (cf_Data d) k)
                            (sort (remdups (map fst (cf_Data a) @ map fst (cf_Data d))))))
           in SliceStable (\<lambda>x y. fd_Field x < fd_Field y) out))"

section \<open>Jobs\<close>

definition Policy :: "JobSpec \<Rightarrow> string" where
  "Policy j = (if j_RunPolicy j = [] then ''onChange'' else j_RunPolicy j)"

definition Waits :: "JobSpec \<Rightarrow> bool" where
  "Waits j = (Policy j = ''onChange'' \<and> (case j_WaitForDeploy j of None \<Rightarrow> True | Some b \<Rightarrow> b))"

definition Fingerprint :: "GoStd \<Rightarrow> JobSpec \<Rightarrow> string" where
  "Fingerprint g j =
     (let sep = [char_of (31 :: nat)];
          parts = [JoinStr (j_Command j) sep, JoinStr (j_Entrypoint j) sep, TrimSpace (j_Image j), j_Registry j,
                   run_user (j_Security j), Itoa (j_TimeoutSeconds j)]
      in take 16 (g_sha256hex g (concat (map (\<lambda>p. p @ [char_of (0 :: nat)]) parts))))"

definition zero_Job :: JobSpec where
  "zero_Job = \<lparr>j_App = [], j_Command = [], j_Entrypoint = [], j_Image = [], j_Registry = [], j_TimeoutSeconds = 0,
     j_RunPolicy = [], j_WaitForDeploy = None, j_HistoryLimit = 0, j_BackoffLimit = 0, j_Security = None, j_SpecFP = []\<rparr>"

definition diffJob :: "GoStd \<Rightarrow> Resource \<Rightarrow> Resource \<Rightarrow> FieldDiff list" where
  "diffJob g actual desired =
     (case r_Job desired of
        None \<Rightarrow> []
      | Some d \<Rightarrow>
          (let a = (case r_Job actual of None \<Rightarrow> zero_Job | Some a \<Rightarrow> a)
           in changed ''app'' (j_App a) (j_App d) @
              changed ''historyLimit'' (Itoa (historyOrDefault (j_HistoryLimit a))) (Itoa (historyOrDefault (j_HistoryLimit d))) @
              changed ''runPolicy'' (Policy a) (Policy d) @
              changed ''waitForDeploy'' (FormatBool (Waits a)) (FormatBool (Waits d)) @
              changed ''backoffLimit'' (Itoa (j_BackoffLimit a)) (Itoa (j_BackoffLimit d)) @
              changed ''spec'' (if j_SpecFP a = [] then Fingerprint g a else j_SpecFP a) (Fingerprint g d)))"

definition diffFields :: "GoStd \<Rightarrow> Resource \<Rightarrow> Resource \<Rightarrow> FieldDiff list" where
  "diffFields g actual desired =
     (if r_Kind desired = KindSecret then []
      else if r_Kind desired = KindSealedSecret then diffSealedSecret actual desired
      else if r_Kind desired = KindRegistry then diffRegistry actual desired
      else if r_Kind desired = KindConfig then diffConfig actual desired
      else if r_Kind desired = KindMiddleware then diffMiddleware actual desired
      else if r_Kind desired = KindJob then diffJob g actual desired
      else (let av = specFields g actual; dv = specFields g desired
            in diff_maps (drop_unstated desired dv av) dv))"

section \<open>Building a plan\<close>

definition uid_key :: "Resource \<Rightarrow> string" where
  "uid_key r = kind_name (r_Kind r) (r_UID r)"

definition actualByUID :: "ResourceSet \<Rightarrow> string \<rightharpoonup> Resource" where
  "actualByUID actual = map_of (rev (map (\<lambda>a. (uid_key a, a)) (filter (\<lambda>a. r_UID a \<noteq> []) (rs_All actual))))"

definition desiredUIDs :: "ResourceSet \<Rightarrow> string list" where
  "desiredUIDs desired = map uid_key (filter (\<lambda>d. r_UID d \<noteq> []) (rs_All desired))"

definition matchActual :: "ResourceSet \<Rightarrow> Resource \<Rightarrow> Resource option" where
  "matchActual actual d =
     (case (if r_UID d \<noteq> [] then actualByUID actual (uid_key d) else None) of
        Some r \<Rightarrow> Some r
      | None \<Rightarrow>
          (case rs_Get actual (Key d) of
             Some r \<Rightarrow> Some r
           | None \<Rightarrow>
               (case vaultAlias (r_Kind d) of
                  Some alias \<Rightarrow> rs_Get actual (kind_name alias (r_Name d))
                | None \<Rightarrow> None)))"

definition change_for :: "Action \<Rightarrow> Resource \<Rightarrow> string \<Rightarrow> FieldDiff list \<Rightarrow> Change" where
  "change_for act r reason diffs =
     \<lparr>c_Action = act, c_Kind = r_Kind r, c_Name = r_Name r, c_Reason = reason, c_Fields = diffs\<rparr>"

definition desired_change :: "GoStd \<Rightarrow> PlanOptions \<Rightarrow> ResourceSet \<Rightarrow> Resource \<Rightarrow> Change option" where
  "desired_change g opts actual d =
     (if \<not> planned (r_Kind d) then None
      else (case matchActual actual d of
              None \<Rightarrow> Some (change_for ActionCreate d ''not present in workspace'' [])
            | Some cur \<Rightarrow>
                (let diffs = diffFields g cur d
                 in if diffs = [] then (if o_IncludeNoop opts then Some (change_for ActionNoop d [] []) else None)
                    else Some (change_for ActionUpdate d ''live state differs from desired'' diffs))))"

definition prunable :: "PlanOptions \<Rightarrow> ResourceSet \<Rightarrow> Resource \<Rightarrow> bool" where
  "prunable opts desired a =
     (planned (r_Kind a) \<and> rs_Get desired (Key a) = None \<and>
      \<not> (case vaultAlias (r_Kind a) of Some alias \<Rightarrow> rs_Has desired alias (r_Name a) | None \<Rightarrow> False) \<and>
      \<not> (r_UID a \<noteq> [] \<and> uid_key a \<in> set (desiredUIDs desired)) \<and>
      \<not> (o_PruneManagedBy opts \<noteq> [] \<and> smap_get (m_Labels (r_Metadata a)) LabelManagedBy \<noteq> o_PruneManagedBy opts) \<and>
      \<not> (o_PruneGitOpsSource opts \<noteq> [] \<and>
          smap_get (m_Labels (r_Metadata a)) LabelGitOpsSource \<noteq> o_PruneGitOpsSource opts))"

definition group :: "Action \<Rightarrow> nat" where
  "group a = (if a = ActionDelete then 0 else 1)"

definition change_less :: "Change \<Rightarrow> Change \<Rightarrow> bool" where
  "change_less a b =
     (let ga = group (c_Action a); gb = group (c_Action b)
      in if ga \<noteq> gb then ga < gb
         else (let ra = applyRank (c_Kind a); rb = applyRank (c_Kind b);
                   (ra, rb) = (if c_Action a = ActionDelete then (- ra, - rb) else (ra, rb))
               in if ra \<noteq> rb then ra < rb
                  else if c_Kind a \<noteq> c_Kind b then c_Kind a < c_Kind b
                  else c_Name a < c_Name b))"

definition sortChanges :: "Change list \<Rightarrow> Change list" where
  "sortChanges cs = SliceStable change_less cs"

definition BuildPlan :: "GoStd \<Rightarrow> ResourceSet \<Rightarrow> ResourceSet \<Rightarrow> PlanOptions \<Rightarrow> Change list" where
  "BuildPlan g desired actual opts =
     sortChanges (List.map_filter (desired_change g opts actual) (rs_All desired) @
       (if o_Prune opts
        then map (\<lambda>a. change_for ActionDelete a ''removed from desired state'' [])
               (filter (prunable opts desired) (rs_All actual))
        else []))"

section \<open>The order of a plan\<close>

text \<open>Comparing two changes is comparing keys: group, rank (reversed for deletes), kind, name.\<close>

definition change_key :: "Change \<Rightarrow> nat \<times> int \<times> string \<times> string" where
  "change_key c = (group (c_Action c),
     (if c_Action c = ActionDelete then - applyRank (c_Kind c) else applyRank (c_Kind c)), c_Kind c, c_Name c)"

lemma change_less_key: "change_less a b \<longleftrightarrow> change_key a < change_key b"
  by (auto simp: change_less_def change_key_def group_def Let_def less_prod_def split: if_splits)

interpretation change_order: strict_weak change_less "\<lambda>_. True"
  by unfold_locales (auto simp: change_less_key)

lemma BuildPlan_ordered:
  assumes "i < j" and "j < length (BuildPlan g desired actual opts)"
  shows "change_key (BuildPlan g desired actual opts ! i) \<le> change_key (BuildPlan g desired actual opts ! j)"
proof -
  have "sorted_wrt (\<lambda>x y. \<not> change_less y x) (BuildPlan g desired actual opts)"
    unfolding BuildPlan_def sortChanges_def by (rule change_order.SliceStable_sorted) simp
  then have "\<not> change_less (BuildPlan g desired actual opts ! j) (BuildPlan g desired actual opts ! i)"
    using assms by (simp add: sorted_wrt_iff_nth_less)
  then show ?thesis by (simp add: change_less_key not_less)
qed

lemma change_key_le:
  assumes "change_key a \<le> change_key b"
  shows "c_Action b = ActionDelete \<Longrightarrow> c_Action a = ActionDelete \<and> applyRank (c_Kind b) \<le> applyRank (c_Kind a)"
    and "c_Action a \<noteq> ActionDelete \<Longrightarrow> c_Action b \<noteq> ActionDelete \<and> applyRank (c_Kind a) \<le> applyRank (c_Kind b)"
  using assms by (auto simp: change_key_def group_def less_eq_prod_def less_prod_def split: if_splits)

section \<open>What a plan holds\<close>

lemma BuildPlan_iff:
  "c \<in> set (BuildPlan g desired actual opts) \<longleftrightarrow>
   (\<exists>d \<in> set (rs_All desired). desired_change g opts actual d = Some c) \<or>
   (o_Prune opts \<and> (\<exists>a \<in> set (rs_All actual). prunable opts desired a \<and>
      c = change_for ActionDelete a ''removed from desired state'' []))"
  unfolding BuildPlan_def sortChanges_def by (auto simp: set_map_filter)

lemma desired_change_fields:
  "desired_change g opts actual d = Some c \<Longrightarrow>
   c_Kind c = r_Kind d \<and> c_Name c = r_Name d \<and> c_Action c \<in> {ActionCreate, ActionUpdate, ActionNoop}"
  by (auto simp: desired_change_def change_for_def Let_def split: if_splits option.splits)

lemma change_for_simps [simp]:
  "c_Action (change_for act r reason ds) = act" "c_Kind (change_for act r reason ds) = r_Kind r"
  "c_Name (change_for act r reason ds) = r_Name r" "c_Fields (change_for act r reason ds) = ds"
  by (simp_all add: change_for_def)

lemma BuildPlan_delete:
  "c \<in> set (BuildPlan g desired actual opts) \<Longrightarrow> c_Action c = ActionDelete \<Longrightarrow>
   o_Prune opts \<and> (\<exists>a \<in> set (rs_All actual). prunable opts desired a \<and> c_Kind c = r_Kind a \<and> c_Name c = r_Name a)"
  unfolding BuildPlan_iff by (auto dest!: desired_change_fields)

text \<open>A resource of the desired set is known by its kind and name.\<close>

lemma desired_of_change:
  assumes "rs_inv desired" and "d \<in> set (rs_All desired)" and "c \<in> set (BuildPlan g desired actual opts)"
    and "c_Action c \<noteq> ActionDelete" and "c_Kind c = r_Kind d" and "c_Name c = r_Name d"
  shows "desired_change g opts actual d = Some c"
proof -
  have "\<exists>e \<in> set (rs_All desired). desired_change g opts actual e = Some c"
    using assms(3,4) unfolding BuildPlan_iff by (metis change_for_simps(1))
  then obtain e where e: "e \<in> set (rs_All desired)" "desired_change g opts actual e = Some c" by blast
  then have "Key e = Key d" using desired_change_fields [OF e(2)] assms(5,6) by (simp add: Key_def)
  then have "e = d" using rs.members_by_key [OF assms(1) e(1) assms(2)] by simp
  with e show ?thesis by simp
qed

section \<open>Matching by uid\<close>

lemma actualByUID_Some:
  assumes "actualByUID actual k = Some r"
  shows "r \<in> set (rs_All actual)" and "uid_key r = k" and "r_UID r \<noteq> []"
  using map_of_SomeD [OF assms [unfolded actualByUID_def]] by auto

lemma actualByUID_None:
  "a \<in> set (rs_All actual) \<Longrightarrow> r_UID a \<noteq> [] \<Longrightarrow> actualByUID actual (uid_key a) \<noteq> None"
  unfolding actualByUID_def map_of_eq_None_iff by (simp add: image_image)

lemma matchActual_uid:
  assumes "a \<in> set (rs_All actual)" and "r_UID d \<noteq> []" and "r_UID a = r_UID d" and "r_Kind a = r_Kind d"
  shows "\<exists>r. matchActual actual d = Some r \<and> uid_key r = uid_key d"
proof -
  have eq: "uid_key a = uid_key d" using assms(3,4) by (simp add: uid_key_def)
  then obtain r where "actualByUID actual (uid_key d) = Some r"
    using actualByUID_None [OF assms(1)] assms(2,3) by auto
  then show ?thesis using assms(2) actualByUID_Some(2) by (auto simp: matchActual_def)
qed

lemma matchActual_member:
  assumes "rs_inv actual" and "matchActual actual d = Some r"
  shows "r \<in> set (rs_All actual)"
proof (cases "if r_UID d \<noteq> [] then actualByUID actual (uid_key d) else None")
  case None
  then have "rs_Get actual (Key d) = Some r \<or> (\<exists>alias. rs_Get actual (kind_name alias (r_Name d)) = Some r)"
    using assms(2) by (auto simp: matchActual_def split: option.splits)
  then show ?thesis using rs_Get_iff [OF assms(1)] by blast
next
  case (Some r')
  then have "actualByUID actual (uid_key d) = Some r" using assms(2) by (simp add: matchActual_def split: if_splits)
  then show ?thesis by (rule actualByUID_Some(1))
qed

section \<open>A set planned against itself\<close>

text \<open>Exactly one spec is set; a live job's recorded fingerprint is that of its spec.\<close>

definition settled_resource :: "GoStd \<Rightarrow> Resource \<Rightarrow> bool" where
  "settled_resource g r \<longleftrightarrow>
     (r_Stack r \<noteq> None \<longrightarrow> r_Application r = None \<and> r_Database r = None \<and> r_Volume r = None \<and> r_Route r = None) \<and>
     (case r_Job r of None \<Rightarrow> True | Some j \<Rightarrow> j_SpecFP j = [] \<or> j_SpecFP j = Fingerprint g j)"

lemma changed_same [simp]: "changed f x x = []"
  by (simp add: changed_def)

lemma diff_maps_same [simp]: "diff_maps w w = []"
  by (simp add: diff_maps_def)

lemma stack_fields_no_env: "st_Env s = None \<Longrightarrow> (f, v) \<in> set (stack_fields s) \<Longrightarrow> \<not> HasPrefix f ''env.''"
  by (auto simp: stack_fields_def env_fields_def stated_def HasPrefix_def split: if_splits)

lemma drop_unstated_same:
  assumes "settled_resource g r"
  shows "drop_unstated r (specFields g r) (specFields g r) = specFields g r"
proof -
  have "\<not> HasPrefix f ''env.''"
    if stk: "case r_Stack r of Some s \<Rightarrow> st_Env s = None | None \<Rightarrow> False" and mem: "(f, v) \<in> set (specFields g r)" for f v
  proof -
    obtain s where s: "r_Stack r = Some s" "st_Env s = None" using stk by (cases "r_Stack r") auto
    then have "specFields g r = stack_fields s" using assms by (simp add: settled_resource_def specFields_def)
    then show ?thesis using stack_fields_no_env [OF s(2)] mem by simp
  qed
  then show ?thesis
    unfolding drop_unstated_def has_field_def filter_id_conv by (force split: prod.splits)
qed

lemma diffFields_same:
  assumes "settled_resource g r"
  shows "diffFields g r r = []"
proof -
  have "diffSealedSecret r r = []" "diffRegistry r r = []" "diffConfig r r = []" "diffMiddleware r r = []"
    by (simp_all add: diffSealedSecret_def diffRegistry_def diffConfig_def diffMiddleware_def Let_def split: option.splits)
  moreover have "diffJob g r r = []"
    using assms by (auto simp: diffJob_def Let_def settled_resource_def split: option.splits)
  ultimately show ?thesis by (simp add: diffFields_def Let_def drop_unstated_same [OF assms])
qed

text \<open>No two resources share a kind and a uid.\<close>

definition uids_distinct :: "ResourceSet \<Rightarrow> bool" where
  "uids_distinct s \<longleftrightarrow> distinct (map uid_key (filter (\<lambda>r. r_UID r \<noteq> []) (rs_All s)))"

lemma actualByUID_own:
  assumes "uids_distinct s" and "r \<in> set (rs_All s)" and "r_UID r \<noteq> []"
  shows "actualByUID s (uid_key r) = Some r"
proof -
  let ?ps = "map (\<lambda>a. (uid_key a, a)) (filter (\<lambda>a. r_UID a \<noteq> []) (rs_All s))"
  have "distinct (map fst (rev ?ps))"
    using assms(1) by (simp add: uids_distinct_def comp_def rev_map [symmetric])
  moreover have "(uid_key r, r) \<in> set (rev ?ps)" using assms(2,3) by simp
  ultimately show ?thesis unfolding actualByUID_def by (rule map_of_is_SomeI)
qed

lemma matchActual_own:
  assumes "rs_inv s" and "uids_distinct s" and "r \<in> set (rs_All s)"
  shows "matchActual s r = Some r"
  using actualByUID_own [OF assms(2,3)] rs.get_of_member [OF assms(1,3)]
  by (simp add: matchActual_def)

section \<open>Secret values\<close>

text \<open>
  \<open>redact\<close> forgets every secret value of a resource: the content of vault entries, a registry
  password (only whether there is one stays), a middleware's rule and the values of the variables
  named in \<open>secretEnv\<close>. \<open>redact_desired\<close> also forgets the files of a sensitive config.
\<close>

definition redact_env :: "string list \<Rightarrow> smap \<Rightarrow> smap" where
  "redact_env secretEnv env = map (\<lambda>(k, v). (k, if k \<in> set secretEnv then [] else v)) env"

definition redact :: "Resource \<Rightarrow> Resource" where
  "redact r = r\<lparr>
     r_Application := map_option (\<lambda>a. a\<lparr>a_Env := redact_env (a_SecretEnv a) (a_Env a)\<rparr>) (r_Application r),
     r_Stack := map_option (\<lambda>s. s\<lparr>st_Env := map_option (redact_env (st_SecretEnv s)) (st_Env s)\<rparr>) (r_Stack r),
     r_Secret := map_option (\<lambda>s. s\<lparr>sc_Value := []\<rparr>) (r_Secret r),
     r_SealedSecret := map_option (\<lambda>s. s\<lparr>ss_Value := []\<rparr>) (r_SealedSecret r),
     r_Registry := map_option (\<lambda>s. s\<lparr>rg_Password := (if rg_Password s = [] then [] else ''x'')\<rparr>) (r_Registry r),
     r_Middleware := map_option (\<lambda>m. m\<lparr>mw_Rule := []\<rparr>) (r_Middleware r)\<rparr>"

definition redact_desired :: "Resource \<Rightarrow> Resource" where
  "redact_desired r = (redact r)\<lparr>r_Config := map_option (\<lambda>c. if cf_Sensitive c then c\<lparr>cf_Data := []\<rparr> else c) (r_Config r)\<rparr>"

lemma env_fields_redact [simp]: "env_fields (redact_env sec env) sec = env_fields env sec"
  by (simp add: env_fields_def redact_env_def comp_def case_prod_beta)

lemma app_fields_env [simp]: "app_fields g (a\<lparr>a_Env := redact_env (a_SecretEnv a) (a_Env a)\<rparr>) = app_fields g a"
  by (simp add: app_fields_def security_fields_def deployment_fields_def app_Location_def app_Constraints_def
      app_Runtime_def app_Replicas_def app_Strategy_def app_Update_def app_RunAsUser_def
      app_ReadOnlyRootFilesystem_def app_NoNewPrivileges_def app_AddCapabilities_def app_AddCapabilities_opt_def app_DropCapabilities_def
      app_Devices_def)

lemma stack_fields_env [simp]:
  "stack_fields (s\<lparr>st_Env := map_option (redact_env (st_SecretEnv s)) (st_Env s)\<rparr>) = stack_fields s"
proof (cases "st_Env s")
  case None
  then show ?thesis by (simp add: stack_fields_def stack_Location_def)
next
  case (Some e)
  then show ?thesis by (simp add: stack_fields_def stack_Location_def)
qed

lemma redact_simps [simp]:
  "r_Kind (redact r) = r_Kind r" "r_Metadata (redact r) = r_Metadata r"
  "r_Kind (redact_desired r) = r_Kind r" "r_Metadata (redact_desired r) = r_Metadata r"
  by (simp_all add: redact_def redact_desired_def)

lemma specFields_redact [simp]: "specFields g (redact r) = specFields g r"
  by (cases "r_Application r"; cases "r_Stack r") (simp_all add: specFields_def redact_def cong: option.case_cong)

lemma specFields_redact_desired [simp]: "specFields g (redact_desired r) = specFields g r"
proof -
  have "specFields g (redact_desired r) = specFields g (redact r)"
    by (simp add: redact_desired_def specFields_def cong: option.case_cong)
  then show ?thesis by simp
qed

lemma drop_unstated_redact [simp]: "drop_unstated (redact_desired d) = drop_unstated d"
proof -
  have "r_Stack (redact_desired d) = map_option (\<lambda>s. s\<lparr>st_Env := map_option (redact_env (st_SecretEnv s)) (st_Env s)\<rparr>) (r_Stack d)"
    by (simp add: redact_desired_def redact_def)
  then show ?thesis by (cases "r_Stack d") (simp_all add: drop_unstated_def fun_eq_iff)
qed

lemma diff_redact:
  shows "diffSealedSecret (redact a) (redact_desired d) = diffSealedSecret a d"
    and "diffRegistry (redact a) (redact_desired d) = diffRegistry a d"
    and "diffMiddleware (redact a) (redact_desired d) = diffMiddleware a d"
    and "diffConfig (redact a) (redact_desired d) = diffConfig a d"
    and "diffJob g (redact a) (redact_desired d) = diffJob g a d"
proof -
  note unfold = redact_def redact_desired_def Let_def
  show "diffSealedSecret (redact a) (redact_desired d) = diffSealedSecret a d"
    by (cases "r_SealedSecret a"; cases "r_SealedSecret d") (simp_all add: diffSealedSecret_def unfold)
  show "diffRegistry (redact a) (redact_desired d) = diffRegistry a d"
    by (cases "r_Registry a"; cases "r_Registry d") (simp_all add: diffRegistry_def unfold)
  show "diffMiddleware (redact a) (redact_desired d) = diffMiddleware a d"
    by (cases "r_Middleware a"; cases "r_Middleware d") (simp_all add: diffMiddleware_def unfold)
  show "diffConfig (redact a) (redact_desired d) = diffConfig a d"
    by (cases "r_Config a"; cases "r_Config d") (simp_all add: diffConfig_def unfold)
  show "diffJob g (redact a) (redact_desired d) = diffJob g a d"
    by (cases "r_Job a"; cases "r_Job d") (simp_all add: diffJob_def unfold)
qed

lemma diffFields_redact: "diffFields g (redact a) (redact_desired d) = diffFields g a d"
  by (simp add: diffFields_def diff_redact)

definition rs_map :: "(Resource \<Rightarrow> Resource) \<Rightarrow> ResourceSet \<Rightarrow> ResourceSet" where
  "rs_map f s = s\<lparr>rs_list := map f (rs_list s)\<rparr>"

lemma Key_redact [simp]: "Key (redact r) = Key r" "Key (redact_desired r) = Key r"
  by (simp_all add: Key_def)

lemma uid_key_redact [simp]: "uid_key (redact r) = uid_key r" "uid_key (redact_desired r) = uid_key r"
  by (simp_all add: uid_key_def)

lemma rs_All_map [simp]: "rs_All (rs_map f s) = map f (rs_All s)"
  by (simp add: rs_All_def rs_map_def)

lemma rs_Has_map [simp]: "rs_Has (rs_map f s) k n = rs_Has s k n"
  by (simp add: rs_Has_def rs_map_def)

lemma rs_Get_map:
  assumes "rs_inv s"
  shows "rs_Get (rs_map f s) k = map_option f (rs_Get s k)"
proof (cases "rs_index s k")
  case (Some pos)
  then have "pos < length (rs_list s)" using rs_index_Some [OF assms] by blast
  with Some show ?thesis by (simp add: rs_Get_def rs_map_def)
qed (simp add: rs_Get_def rs_map_def)

lemma actualByUID_map:
  assumes "\<And>r. uid_key (f r) = uid_key r" and "\<And>r. r_UID (f r) = r_UID r"
  shows "actualByUID (rs_map f s) k = map_option f (actualByUID s k)"
proof -
  have "filter (\<lambda>a. r_UID a \<noteq> []) (map f xs) = map f (filter (\<lambda>a. r_UID a \<noteq> []) xs)" for xs
    by (induction xs) (simp_all add: assms)
  moreover have "map_of (map (\<lambda>x. (uid_key x, f x)) xs) k = map_option f (map_of (map (\<lambda>x. (uid_key x, x)) xs) k)" for xs
    by (induction xs) simp_all
  ultimately show ?thesis by (simp add: actualByUID_def comp_def assms rev_map)
qed

lemma desiredUIDs_map:
  assumes "\<And>r. uid_key (f r) = uid_key r" and "\<And>r. r_UID (f r) = r_UID r"
  shows "desiredUIDs (rs_map f s) = desiredUIDs s"
proof -
  have "map uid_key (filter (\<lambda>a. r_UID a \<noteq> []) (map f xs)) = map uid_key (filter (\<lambda>a. r_UID a \<noteq> []) xs)" for xs
    by (induction xs) (simp_all add: assms)
  then show ?thesis by (simp add: desiredUIDs_def)
qed

lemma matchActual_redact:
  "rs_inv actual \<Longrightarrow> matchActual (rs_map redact actual) (redact_desired d) = map_option redact (matchActual actual d)"
  by (simp add: matchActual_def actualByUID_map rs_Get_map split: option.split)

lemma desired_change_redact:
  "rs_inv actual \<Longrightarrow>
   desired_change g opts (rs_map redact actual) (redact_desired d) = desired_change g opts actual d"
  by (simp add: desired_change_def matchActual_redact diffFields_redact change_for_def Let_def split: option.split)

lemma prunable_redact:
  "rs_inv desired \<Longrightarrow> prunable opts (rs_map redact_desired desired) (redact a) = prunable opts desired a"
  by (simp add: prunable_def rs_Get_map desiredUIDs_map cong: option.case_cong)

lemma filter_prunable_redact:
  "rs_inv desired \<Longrightarrow> filter (prunable opts (rs_map redact_desired desired)) (map redact xs) =
   map redact (filter (prunable opts desired) xs)"
  by (induction xs) (simp_all add: prunable_redact)

lemma map_filter_map: "List.map_filter f (map h xs) = List.map_filter (\<lambda>x. f (h x)) xs"
  by (induction xs) (simp_all add: List.map_filter_def)

lemma BuildPlan_redact:
  assumes "rs_inv desired" and "rs_inv actual"
  shows "BuildPlan g (rs_map redact_desired desired) (rs_map redact actual) opts = BuildPlan g desired actual opts"
  using assms
  by (simp add: BuildPlan_def map_filter_map desired_change_redact filter_prunable_redact change_for_def comp_def)

lemma desiredUIDs_mem: "d \<in> set (rs_All s) \<Longrightarrow> r_UID d \<noteq> [] \<Longrightarrow> uid_key d \<in> set (desiredUIDs s)"
  unfolding desiredUIDs_def set_map set_filter by (rule imageI) simp

section \<open>Properties\<close>

definition sample_std :: GoStd where
  "sample_std = \<lparr>g_sha256hex = (\<lambda>s. s), g_Quote = (\<lambda>s. s), g_FloatScaled = (\<lambda>_ _. None)\<rparr>"

definition sample_resource :: "Kind \<Rightarrow> string \<Rightarrow> string \<Rightarrow> Resource" where
  "sample_resource k name uid = \<lparr>r_Kind = k,
     r_Metadata = \<lparr>m_Name = name, m_UID = uid, m_Labels = [(''miabi.io/managed-by'', ''gitops'')], m_Annotations = []\<rparr>,
     r_Application = None, r_Stack = None, r_Database = None, r_Volume = None, r_Route = None, r_Secret = None,
     r_SealedSecret = None, r_Domain = None, r_Registry = None, r_Config = None, r_Middleware = None,
     r_CronJob = None, r_Job = None, r_GitSource = None, r_GitRepository = None\<rparr>"

definition sample_domain :: "string \<Rightarrow> string \<Rightarrow> bool \<Rightarrow> Resource" where
  "sample_domain name uid wildcard =
     (sample_resource KindDomain name uid)\<lparr>r_Domain := Some \<lparr>dm_TLS = ''acme'', dm_Wildcard = wildcard\<rparr>\<rparr>"

definition sample_set :: "Resource list \<Rightarrow> ResourceSet" where
  "sample_set rs = fold rs_Add rs NewResourceSet"

definition sample_options :: PlanOptions where
  "sample_options = \<lparr>o_Prune = True, o_PruneManagedBy = ''gitops'', o_PruneGitOpsSource = [], o_IncludeNoop = False\<rparr>"

lemma sample_set_inv: "rs_inv (sample_set rs)"
  unfolding sample_set_def by (rule rs.wf_build [OF rs.wf_new])

lemma sample_set_All: "distinct (map Key rs) \<Longrightarrow> rs_All (sample_set rs) = rs"
proof (induction rs rule: rev_induct)
  case (snoc r rs)
  have "rs_index (sample_set rs) (Key r) = None"
  proof (cases "rs_Get (sample_set rs) (Key r)")
    case (Some x)
    then have "x \<in> set rs \<and> Key x = Key r" using snoc rs_Get_iff [OF sample_set_inv] by simp
    then have "Key r \<in> Key ` set rs" by (metis image_eqI)
    then show ?thesis using snoc.prems by simp
  qed (simp add: rs_Get_def split: option.splits)
  then show ?case using snoc by (simp add: sample_set_def rs_Add_def rs_All_def)
qed (simp add: sample_set_def rs_All_def NewResourceSet_def)

text \<open>A \<open>ResourceSet\<close> is a finite map that keeps its order: looking up a key returns the last
  resource added under it, no key is listed twice, and what is listed is what lookups find.\<close>

theorem resource_set_is_map:
  "rs_Get (fold rs_Add docs NewResourceSet) k = find (\<lambda>r. Key r = k) (rev docs) \<and>
   distinct (map Key (rs_All (fold rs_Add docs NewResourceSet))) \<and>
   (r \<in> set (rs_All (fold rs_Add docs NewResourceSet))) =
     (rs_Get (fold rs_Add docs NewResourceSet) (Key r) = Some r)"
proof -
  let ?s = "fold rs_Add docs NewResourceSet"
  have inv: "rs_inv ?s" by (rule rs.wf_build [OF rs.wf_new])
  have "rs_Get ?s k = find (\<lambda>r. Key r = k) (rev docs)"
    using rs.get_build [OF rs.wf_new, of docs k] rs.get_new by (simp split: option.splits)
  then show ?thesis using rs.keys_distinct [OF inv] rs.get_iff [OF inv, of "Key r" r] by simp
qed



text \<open>Changes are applied in dependency order. Deletes come before everything else, dependents
  first; creates, updates and no-ops follow, dependencies first.\<close>

theorem plan_ordered:
  assumes "i < j" and "j < length (BuildPlan g desired actual opts)"
    and "a = BuildPlan g desired actual opts ! i" and "b = BuildPlan g desired actual opts ! j"
  shows "(c_Action b = ActionDelete \<longrightarrow> c_Action a = ActionDelete \<and> applyRank (c_Kind b) \<le> applyRank (c_Kind a)) \<and>
    (c_Action a \<noteq> ActionDelete \<longrightarrow> applyRank (c_Kind a) \<le> applyRank (c_Kind b))"
  using change_key_le [OF BuildPlan_ordered [OF assms(1,2)]] assms(3,4) by simp

definition sample_plan_before :: "Change list" where
  "sample_plan_before = BuildPlan sample_std
     (sample_set [sample_resource KindRoute ''r'' [], sample_resource KindVolume ''v'' []])
     (sample_set [sample_domain ''a.io'' ''u1'' True]) sample_options"

theorem plan_ordered_witness:
  "applyRank (c_Kind (sample_plan_before ! 1)) \<le> applyRank (c_Kind (sample_plan_before ! 2))"
proof -
  have "length sample_plan_before = 3" and "c_Action (sample_plan_before ! 1) \<noteq> ActionDelete" by code_simp+
  then show ?thesis unfolding sample_plan_before_def
    using plan_ordered [of 1 2 _ _ _ _ "sample_plan_before ! 1" "sample_plan_before ! 2"]
    unfolding sample_plan_before_def by force
qed

text \<open>C24: pruning is safe. A delete is planned only when pruning was asked for, and only for a live
  resource that no desired resource claims by key, by vault name or by uid, and whose labels name
  this engine and this GitOps source when those scopes are set.\<close>

theorem prune_safe:
  assumes "c \<in> set (BuildPlan g desired actual opts)" and "c_Action c = ActionDelete" and "rs_inv desired"
  shows "o_Prune opts \<and> (\<exists>a \<in> set (rs_All actual). c_Kind c = r_Kind a \<and> c_Name c = r_Name a \<and>
    (\<forall>d \<in> set (rs_All desired). Key d \<noteq> Key a \<and> \<not> (r_UID d \<noteq> [] \<and> r_UID d = r_UID a \<and> r_Kind d = r_Kind a)) \<and>
    (\<forall>alias. vaultAlias (r_Kind a) = Some alias \<longrightarrow> \<not> rs_Has desired alias (r_Name a)) \<and>
    (o_PruneManagedBy opts = [] \<or> smap_get (m_Labels (r_Metadata a)) LabelManagedBy = o_PruneManagedBy opts) \<and>
    (o_PruneGitOpsSource opts = [] \<or>
       smap_get (m_Labels (r_Metadata a)) LabelGitOpsSource = o_PruneGitOpsSource opts))"
proof -
  obtain a where prune: "o_Prune opts" and a: "a \<in> set (rs_All actual)" "c_Kind c = r_Kind a" "c_Name c = r_Name a"
    and p: "prunable opts desired a"
    using BuildPlan_delete [OF assms(1,2)] by blast
  have "Key d \<noteq> Key a \<and> \<not> (r_UID d \<noteq> [] \<and> r_UID d = r_UID a \<and> r_Kind d = r_Kind a)"
    if d: "d \<in> set (rs_All desired)" for d
  proof
    show "Key d \<noteq> Key a" using p rs.get_of_member [OF assms(3) d] by (auto simp: prunable_def)
    show "\<not> (r_UID d \<noteq> [] \<and> r_UID d = r_UID a \<and> r_Kind d = r_Kind a)"
    proof
      assume u: "r_UID d \<noteq> [] \<and> r_UID d = r_UID a \<and> r_Kind d = r_Kind a"
      then have "uid_key a = uid_key d" by (simp add: uid_key_def)
      moreover have "uid_key d \<in> set (desiredUIDs desired)" using u desiredUIDs_mem [OF d] by blast
      moreover have "r_UID a \<noteq> []" using u by metis
      ultimately show False using p by (simp add: prunable_def)
    qed
  qed
  moreover have "\<forall>alias. vaultAlias (r_Kind a) = Some alias \<longrightarrow> \<not> rs_Has desired alias (r_Name a)"
    using p by (simp add: prunable_def split: option.splits)
  ultimately show ?thesis using prune a p unfolding prunable_def by blast
qed

theorem prune_safe_witness:
  "\<exists>a \<in> set (rs_All (sample_set [sample_domain ''a.io'' ''u1'' True])).
     r_Name a = ''a.io'' \<and> smap_get (m_Labels (r_Metadata a)) LabelManagedBy = ''gitops''"
proof -
  let ?c = "change_for ActionDelete (sample_domain ''a.io'' ''u1'' True) ''removed from desired state'' []"
  have "?c \<in> set (BuildPlan sample_std (sample_set [sample_domain ''b.io'' [] False])
      (sample_set [sample_domain ''a.io'' ''u1'' True]) sample_options)"
    by code_simp
  from prune_safe [OF this _ sample_set_inv] show ?thesis
    by (auto simp: sample_options_def sample_domain_def sample_resource_def)
qed



text \<open>A plan never depends on a secret value. Forgetting vault entries, registry passwords,
  middleware rules, the values of secret variables on both sides, and the files of sensitive configs
  on the desired side, leaves the whole plan, its field differences included, as it was.\<close>

theorem plan_ignores_secrets:
  assumes "rs_inv desired" and "rs_inv actual"
  shows "BuildPlan g (rs_map redact_desired desired) (rs_map redact actual) opts = BuildPlan g desired actual opts"
  by (rule BuildPlan_redact [OF assms])

theorem plan_ignores_secrets_witness:
  "BuildPlan sample_std (rs_map redact_desired (sample_set [sample_domain ''b.io'' [] False]))
     (rs_map redact (sample_set [sample_domain ''a.io'' ''u1'' True])) sample_options =
   BuildPlan sample_std (sample_set [sample_domain ''b.io'' [] False])
     (sample_set [sample_domain ''a.io'' ''u1'' True]) sample_options"
  by (rule plan_ignores_secrets [OF sample_set_inv sample_set_inv])

text \<open>A rename converges in place. When a desired resource carries the uid of a live one of its
  kind, the plan neither creates the desired resource nor deletes the live one.\<close>

theorem rename_in_place:
  assumes "rs_inv desired" and "rs_inv actual" and "d \<in> set (rs_All desired)" and "a \<in> set (rs_All actual)"
    and "r_UID d \<noteq> []" and "r_UID a = r_UID d" and "r_Kind a = r_Kind d"
    and "c \<in> set (BuildPlan g desired actual opts)"
  shows "\<not> (c_Action c = ActionCreate \<and> c_Kind c = r_Kind d \<and> c_Name c = r_Name d) \<and>
    \<not> (c_Action c = ActionDelete \<and> c_Kind c = r_Kind a \<and> c_Name c = r_Name a)"
proof
  show "\<not> (c_Action c = ActionCreate \<and> c_Kind c = r_Kind d \<and> c_Name c = r_Name d)"
  proof
    assume cr: "c_Action c = ActionCreate \<and> c_Kind c = r_Kind d \<and> c_Name c = r_Name d"
    then have "desired_change g opts actual d = Some c"
      using desired_of_change [OF assms(1,3,8)] by simp
    moreover obtain r where "matchActual actual d = Some r" using matchActual_uid [OF assms(4-7)] by blast
    ultimately show False using cr
      by (auto simp: desired_change_def change_for_def Let_def split: if_splits)
  qed
  show "\<not> (c_Action c = ActionDelete \<and> c_Kind c = r_Kind a \<and> c_Name c = r_Name a)"
  proof
    assume del: "c_Action c = ActionDelete \<and> c_Kind c = r_Kind a \<and> c_Name c = r_Name a"
    then obtain b where b: "b \<in> set (rs_All actual)" "prunable opts desired b" "r_Kind b = r_Kind a" "r_Name b = r_Name a"
      using BuildPlan_delete [OF assms(8)] by auto
    then have "b = a" using rs.members_by_key [OF assms(2) b(1) assms(4)] by (simp add: Key_def)
    moreover have "uid_key a \<in> set (desiredUIDs desired)"
    proof -
      have "uid_key a = uid_key d" using assms(6,7) by (simp add: uid_key_def)
      then show ?thesis using assms(3,5) by (simp add: desiredUIDs_mem)
    qed
    ultimately show False using b(2) assms(5,6) by (simp add: prunable_def)
  qed
qed

theorem rename_in_place_witness:
  "c_Action (BuildPlan sample_std (sample_set [sample_domain ''b.io'' ''u1'' False])
     (sample_set [sample_domain ''a.io'' ''u1'' True]) sample_options ! 0) \<noteq> ActionCreate"
proof -
  let ?d = "sample_domain ''b.io'' ''u1'' False" and ?a = "sample_domain ''a.io'' ''u1'' True"
  let ?p = "BuildPlan sample_std (sample_set [?d]) (sample_set [?a]) sample_options"
  have "rs_All (sample_set [?d]) = [?d]" and "rs_All (sample_set [?a]) = [?a]" by (rule sample_set_All; simp)+
  moreover have "length ?p = 1" and "c_Kind (?p ! 0) = r_Kind ?d" and "c_Name (?p ! 0) = r_Name ?d"
    and "r_UID ?d \<noteq> []" and "r_UID ?a = r_UID ?d" and "r_Kind ?a = r_Kind ?d" by code_simp+
  moreover from this have "?p ! 0 \<in> set ?p" by simp
  ultimately show ?thesis
    using rename_in_place [OF sample_set_inv sample_set_inv, of ?d "[?d]" ?a "[?a]" "?p ! 0" sample_std sample_options] by simp
qed

text \<open>The limit of matching by uid. When one resource is renamed and another is declared under
  the old name in the same change, both match the same live resource: nothing is created, and the
  plan updates the one live resource for both.\<close>

theorem rename_and_reuse_creates_nothing:
  "matchActual (sample_set [sample_domain ''a.io'' ''u1'' True]) (sample_domain ''b.io'' ''u1'' True) =
     Some (sample_domain ''a.io'' ''u1'' True) \<and>
   matchActual (sample_set [sample_domain ''a.io'' ''u1'' True]) (sample_domain ''a.io'' [] False) =
     Some (sample_domain ''a.io'' ''u1'' True) \<and>
   \<not> list_ex (\<lambda>c. c_Action c = ActionCreate)
     (BuildPlan sample_std (sample_set [sample_domain ''b.io'' ''u1'' True, sample_domain ''a.io'' [] False])
        (sample_set [sample_domain ''a.io'' ''u1'' True]) sample_options)"
  by (intro conjI) code_simp+

end
