(* ===== verification/Resource_Edges.thy ===== *)
theory Resource_Edges
  imports Apply_Planner
begin

text \<open>
  The dependency graph of a resource set, \<^verbatim>\<open>internal/declarative/edges.go\<close>, and its reference check,
  \<open>validateReferences\<close> of \<^verbatim>\<open>validate.go\<close>. The lemmas show that an edge always ends in a declared
  resource, that no edge is repeated or loops, and that the order of a plan follows the edges:
  what an edge points to is created before and deleted after what it comes from, except between two
  applications, which have the same rank.

  Host names are compared after \<open>ToLower\<close> on ASCII letters: names with other letters reach the
  platform in their ASCII (punycode) form.
\<close>

section \<open>Template references\<close>

definition re_space :: "char \<Rightarrow> bool" where
  "re_space c = (of_char c \<in> {9, 10, 12, 13, 32 :: nat})"

definition ref_char :: "char \<Rightarrow> bool" where
  "ref_char c = (is_alpha c \<or> is_digit c \<or> c = CHR ''_'' \<or> c = CHR ''-'')"

text \<open>One match of \<open>tmplRef\<close> at the head of the text: the two groups and the rest.\<close>

definition tmpl_at :: "string \<Rightarrow> (string \<times> string \<times> string) option" where
  "tmpl_at s =
     (case CutPrefix s ''{{'' of
        None \<Rightarrow> None
      | Some t \<Rightarrow>
          (case CutPrefix (dropWhile (\<lambda>c. c = CHR ''-'' \<or> re_space c) t) ''.'' of
             None \<Rightarrow> None
           | Some u \<Rightarrow>
               (case find (\<lambda>w. HasPrefix u (w @ ''.'')) [''databases'', ''secrets'', ''applications''] of
                  None \<Rightarrow> None
                | Some w \<Rightarrow>
                    (let v = drop (length w + 1) u; name = takeWhile ref_char v
                     in if name = [] then None else Some (w, name, dropWhile ref_char v)))))"

text \<open>\<open>FindAllStringSubmatch\<close>: every step takes at least one byte, so the length is enough fuel.\<close>

fun tmpl_scan :: "nat \<Rightarrow> string \<Rightarrow> (string \<times> string) list" where
  "tmpl_scan 0 s = []"
| "tmpl_scan (Suc n) s =
     (case s of
        [] \<Rightarrow> []
      | _ # t \<Rightarrow>
          (case tmpl_at s of
             None \<Rightarrow> tmpl_scan n t
           | Some (w, name, rest) \<Rightarrow> (w, name) # tmpl_scan n rest))"

definition tmplRef :: "string \<Rightarrow> (string \<times> string) list" where
  "tmplRef s = tmpl_scan (length s) s"

section \<open>Edges\<close>

type_synonym EdgeType = string

record Edge =
  ed_From :: string
  ed_To :: string
  ed_Type :: EdgeType

type_synonym link = "Kind \<times> string \<times> Kind \<times> string \<times> EdgeType"

definition add_edge :: "ResourceSet \<Rightarrow> link \<Rightarrow> Edge list \<Rightarrow> Edge list" where
  "add_edge s l out =
     (case l of (fromKind, fromName, toKind, toName, t) \<Rightarrow>
        if toName = [] \<or> \<not> rs_Has s toKind toName then out
        else if fromKind = toKind \<and> fromName = toName then out
        else (let e = \<lparr>ed_From = kind_name fromKind fromName, ed_To = kind_name toKind toName, ed_Type = t\<rparr>
              in if e \<in> set out then out else out @ [e]))"

definition matchDomain :: "string \<Rightarrow> Resource list \<Rightarrow> string" where
  "matchDomain host0 domains =
     (let host = TrimSuffix (ToLower (TrimSpace host0)) ''.''
      in fold (\<lambda>d best. let dn = ToLower (r_Name d)
                        in if (host = dn \<or> HasSuffix host (''.'' @ dn)) \<and> length dn > length best
                           then r_Name d else best) domains [])"

definition ref_links :: "string \<Rightarrow> string \<times> string \<Rightarrow> link list" where
  "ref_links name m =
     (case m of (w, target) \<Rightarrow>
        if w = ''databases'' then [(KindApplication, name, KindDatabase, target, ''database'')]
        else if w = ''secrets'' then [(KindApplication, name, KindSecret, target, ''secret''),
                                      (KindApplication, name, KindSealedSecret, target, ''secret'')]
        else if w = ''applications'' then [(KindApplication, name, KindApplication, target, ''app-ref'')]
        else [])"

definition app_links :: "string \<Rightarrow> ApplicationSpec \<Rightarrow> link list" where
  "app_links name a =
     (if a_Stack a \<noteq> [] then [(KindApplication, name, KindStack, a_Stack a, ''stack'')] else []) @
     map (\<lambda>mt. if mt_Config mt \<noteq> [] then (KindApplication, name, KindConfig, mt_Config mt, ''config'')
               else (KindApplication, name, KindVolume, mt_Volume mt, ''mount'')) (a_Mounts a) @
     [(KindApplication, name, KindRegistry, a_Registry a, ''registry'')] @
     (case a_Source a of
        None \<Rightarrow> []
      | Some s \<Rightarrow> [(KindApplication, name, KindGitRepository, so_Repository s, ''repository'')]) @
     concat (map (\<lambda>(k, v). concat (map (ref_links name) (tmplRef v))) (a_Env a))"

definition route_links :: "Resource list \<Rightarrow> string \<Rightarrow> RouteSpec \<Rightarrow> link list" where
  "route_links domains name r =
     [(KindRoute, name, KindApplication, ro_App r, ''route'')] @
     map (\<lambda>mw. (KindRoute, name, KindMiddleware, mw, ''middleware'')) (ro_Middlewares r) @
     concat (map (\<lambda>h. let d = matchDomain h domains
                      in if d \<noteq> [] then [(KindRoute, name, KindDomain, d, ''domain'')] else []) (ro_Hosts r))"

definition resource_links :: "ResourceSet \<Rightarrow> Resource \<Rightarrow> link list" where
  "resource_links s r =
     (let name = r_Name r
      in case r_Application r of Some a \<Rightarrow> app_links name a | None \<Rightarrow>
         case r_GitSource r of
           Some g \<Rightarrow> [(KindGitSource, name, KindGitRepository, gs_Repository g, ''repository'')] | None \<Rightarrow>
         case r_GitRepository r of
           Some g \<Rightarrow> [(KindGitRepository, name, KindSecret, gr_SecretRef g, ''secret''),
                       (KindGitRepository, name, KindSealedSecret, gr_SecretRef g, ''secret'')] | None \<Rightarrow>
         case r_CronJob r of
           Some c \<Rightarrow> [(KindCronJob, name, KindApplication, cj_App c, ''schedule''),
                       (KindCronJob, name, KindRegistry, cj_Registry c, ''registry'')] | None \<Rightarrow>
         case r_Job r of
           Some j \<Rightarrow> [(KindJob, name, KindApplication, j_App j, ''run''),
                       (KindJob, name, KindRegistry, j_Registry j, ''registry'')] | None \<Rightarrow>
         case r_Route r of Some t \<Rightarrow> route_links (ByKind s KindDomain) name t | None \<Rightarrow> [])"

definition edge_less :: "Edge \<Rightarrow> Edge \<Rightarrow> bool" where
  "edge_less a b = (if ed_From a \<noteq> ed_From b then ed_From a < ed_From b else ed_To a < ed_To b)"

definition Edges :: "ResourceSet \<Rightarrow> Edge list" where
  "Edges s = SliceStable edge_less (fold (add_edge s) (concat (map (resource_links s) (rs_All s))) [])"

section \<open>Reference checks\<close>

datatype ref_error =
    SecretDeclaredTwice string
  | UnknownConfig string string
  | UnknownVolume string string
  | UnknownStack string string
  | UnknownApplication string string

fun check_mounts :: "ResourceSet \<Rightarrow> string \<Rightarrow> MountSpec list \<Rightarrow> ref_error option" where
  "check_mounts s app [] = None"
| "check_mounts s app (mt # mts) =
     (if mt_Config mt \<noteq> [] then
        (if \<not> rs_Has s KindConfig (mt_Config mt) then Some (UnknownConfig app (mt_Config mt)) else check_mounts s app mts)
      else if \<not> rs_Has s KindVolume (mt_Volume mt) then Some (UnknownVolume app (mt_Volume mt))
      else check_mounts s app mts)"

definition check_resource :: "ResourceSet \<Rightarrow> Resource \<Rightarrow> ref_error option" where
  "check_resource s r =
     (if r_Kind r = KindSealedSecret \<and> rs_Has s KindSecret (r_Name r) then Some (SecretDeclaredTwice (r_Name r))
      else case r_Application r of
             Some a \<Rightarrow>
               (case check_mounts s (r_Name r) (a_Mounts a) of
                  Some e \<Rightarrow> Some e
                | None \<Rightarrow> if a_Stack a \<noteq> [] \<and> \<not> rs_Has s KindStack (a_Stack a)
                          then Some (UnknownStack (r_Name r) (a_Stack a)) else None)
           | None \<Rightarrow>
               (case r_Route r of
                  Some t \<Rightarrow> if \<not> rs_Has s KindApplication (ro_App t) then Some (UnknownApplication (r_Name r) (ro_App t)) else None
                | None \<Rightarrow> None))"

fun first_error :: "('a \<Rightarrow> 'e option) \<Rightarrow> 'a list \<Rightarrow> 'e option" where
  "first_error f [] = None"
| "first_error f (x # xs) = (case f x of Some e \<Rightarrow> Some e | None \<Rightarrow> first_error f xs)"

definition validateReferences :: "ResourceSet \<Rightarrow> ref_error option" where
  "validateReferences s = first_error (check_resource s) (rs_list s)"

section \<open>What an edge is\<close>

lemma first_error_None: "first_error f xs = None \<longleftrightarrow> (\<forall>x \<in> set xs. f x = None)"
  by (induction xs) (simp_all split: option.splits)

text \<open>Every link goes down in rank, except a reference between applications.\<close>

definition link_ok :: "link \<Rightarrow> bool" where
  "link_ok l = (case l of (fk, _, tk, _, t) \<Rightarrow> fk \<in> set knownKinds \<and> tk \<in> set knownKinds \<and>
     (applyRank tk < applyRank fk \<or> t = ''app-ref''))"

lemma link_kinds [simp]:
  "link_ok (KindApplication, n, KindStack, m, t)" "link_ok (KindApplication, n, KindConfig, m, t)"
  "link_ok (KindApplication, n, KindVolume, m, t)" "link_ok (KindApplication, n, KindRegistry, m, t)"
  "link_ok (KindApplication, n, KindGitRepository, m, t)" "link_ok (KindApplication, n, KindDatabase, m, t)"
  "link_ok (KindApplication, n, KindSecret, m, t)" "link_ok (KindApplication, n, KindSealedSecret, m, t)"
  "link_ok (KindApplication, n, KindApplication, m, ''app-ref'')" "link_ok (KindRoute, n, KindApplication, m, t)"
  "link_ok (KindRoute, n, KindMiddleware, m, t)" "link_ok (KindRoute, n, KindDomain, m, t)"
  "link_ok (KindGitSource, n, KindGitRepository, m, t)" "link_ok (KindGitRepository, n, KindSecret, m, t)"
  "link_ok (KindGitRepository, n, KindSealedSecret, m, t)" "link_ok (KindCronJob, n, KindApplication, m, t)"
  "link_ok (KindCronJob, n, KindRegistry, m, t)" "link_ok (KindJob, n, KindApplication, m, t)"
  "link_ok (KindJob, n, KindRegistry, m, t)"
  by (simp_all add: link_ok_def applyRank_def knownKinds_def)

lemma list_all_concat_map: "(\<And>x. list_all P (f x)) \<Longrightarrow> list_all P (concat (map f xs))"
  by (induction xs) simp_all

lemma list_all_map_any: "(\<And>x. P (f x)) \<Longrightarrow> list_all P (map f xs)"
  by (induction xs) simp_all

lemma ref_links_ok: "list_all link_ok (ref_links name m)"
  by (simp add: ref_links_def split: prod.split)

lemma app_links_ok: "list_all link_ok (app_links name a)"
proof -
  have "list_all link_ok (concat (map (\<lambda>(k, v). concat (map (ref_links name) (tmplRef v))) (a_Env a)))"
    by (rule list_all_concat_map) (simp add: list_all_concat_map ref_links_ok split: prod.split)
  moreover have "list_all link_ok (map (\<lambda>mt. if mt_Config mt \<noteq> []
      then (KindApplication, name, KindConfig, mt_Config mt, ''config'')
      else (KindApplication, name, KindVolume, mt_Volume mt, ''mount'')) (a_Mounts a))"
    by (rule list_all_map_any) simp
  ultimately show ?thesis by (simp add: app_links_def split: option.split)
qed

lemma route_links_ok: "list_all link_ok (route_links domains name r)"
proof -
  have "list_all link_ok (concat (map (\<lambda>h. let d = matchDomain h domains
      in if d \<noteq> [] then [(KindRoute, name, KindDomain, d, ''domain'')] else []) (ro_Hosts r)))"
    by (rule list_all_concat_map) (simp add: Let_def)
  moreover have "list_all link_ok (map (\<lambda>mw. (KindRoute, name, KindMiddleware, mw, ''middleware'')) (ro_Middlewares r))"
    by (rule list_all_map_any) simp
  ultimately show ?thesis by (simp add: route_links_def)
qed

lemma resource_links_ok: "list_all link_ok (resource_links s r)"
  using app_links_ok route_links_ok by (simp add: resource_links_def Let_def split: option.split)

definition edge_ok :: "ResourceSet \<Rightarrow> Edge \<Rightarrow> bool" where
  "edge_ok s e \<longleftrightarrow> (\<exists>fk fn tk tn. ed_From e = kind_name fk fn \<and> ed_To e = kind_name tk tn \<and>
     fk \<in> set knownKinds \<and> tk \<in> set knownKinds \<and> rs_Has s tk tn \<and> (fk, fn) \<noteq> (tk, tn) \<and>
     (applyRank tk < applyRank fk \<or> ed_Type e = ''app-ref''))"

lemma add_edges_ok:
  "list_all link_ok ls \<Longrightarrow> distinct out \<Longrightarrow> list_all (edge_ok s) out \<Longrightarrow>
   distinct (fold (add_edge s) ls out) \<and> list_all (edge_ok s) (fold (add_edge s) ls out)"
proof (induction ls arbitrary: out)
  case (Cons l ls)
  obtain fk fn tk tn t where l: "l = (fk, fn, tk, tn, t)" by (cases l)
  have new: "edge_ok s \<lparr>ed_From = kind_name fk fn, ed_To = kind_name tk tn, ed_Type = t\<rparr>"
    if "rs_Has s tk tn" "(fk, fn) \<noteq> (tk, tn)"
    unfolding edge_ok_def using that Cons.prems(1) unfolding l
    by (intro exI [of _ fk] exI [of _ fn] exI [of _ tk] exI [of _ tn]) (simp add: link_ok_def)
  have "distinct (add_edge s l out) \<and> list_all (edge_ok s) (add_edge s l out)"
    using Cons.prems(2,3) new unfolding l by (simp add: add_edge_def Let_def)
  then show ?case using Cons.IH [of "add_edge s l out"] Cons.prems(1) by simp
qed simp

lemma Edges_ok: "distinct (Edges s) \<and> (\<forall>e \<in> set (Edges s). edge_ok s e)"
proof -
  have "list_all link_ok (concat (map (resource_links s) (rs_All s)))"
    by (rule list_all_concat_map) (rule resource_links_ok)
  from add_edges_ok [OF this, of "[]" s] show ?thesis
    by (simp add: Edges_def list_all_iff)
qed

lemma known_no_slash: "k \<in> set knownKinds \<Longrightarrow> CHR ''/'' \<notin> set k"
proof -
  have "list_all (\<lambda>k. CHR ''/'' \<notin> set k) knownKinds" by code_simp
  then show "k \<in> set knownKinds \<Longrightarrow> CHR ''/'' \<notin> set k" by (simp add: list_all_iff)
qed

lemma kind_name_inj:
  assumes "k \<in> set knownKinds" and "k' \<in> set knownKinds" and "kind_name k n = kind_name k' n'"
  shows "k = k' \<and> n = n'"
proof -
  have "CutChar (kind_name k n) CHR ''/'' = (k, n, True)" "CutChar (kind_name k' n') CHR ''/'' = (k', n', True)"
    using known_no_slash assms(1,2) by (simp_all add: kind_name_def CutChar_append)
  with assms(3) show ?thesis by (metis prod.inject)
qed

interpretation edge_order: strict_weak edge_less "\<lambda>_. True"
  by unfold_locales (auto simp: edge_less_def split: if_splits)

lemma edge_down:
  assumes "edge_ok s e" and "ed_Type e \<noteq> ''app-ref''"
  shows "\<exists>fk fn tk tn. ed_From e = kind_name fk fn \<and> ed_To e = kind_name tk tn \<and>
    fk \<in> set knownKinds \<and> tk \<in> set knownKinds \<and> applyRank tk < applyRank fk"
proof -
  obtain fk fn tk tn where "ed_From e = kind_name fk fn \<and> ed_To e = kind_name tk tn \<and>
     fk \<in> set knownKinds \<and> tk \<in> set knownKinds \<and> rs_Has s tk tn \<and> (fk, fn) \<noteq> (tk, tn) \<and>
     (applyRank tk < applyRank fk \<or> ed_Type e = ''app-ref'')"
    using assms(1) unfolding edge_ok_def by (elim exE)
  with assms(2) show ?thesis by (intro exI [of _ fk] exI [of _ fn] exI [of _ tk] exI [of _ tn]) simp
qed

section \<open>Properties\<close>

text \<open>Every edge of the graph ends in a declared resource, never in its own source, appears once,
  and goes from a kind of higher rank to one of lower rank unless it is a reference between two
  applications; so, those aside, the graph has no cycles.\<close>

theorem edges_well_formed:
  "distinct (Edges s) \<and> (\<forall>e \<in> set (Edges s). \<exists>fk fn tk tn. ed_From e = kind_name fk fn \<and> ed_To e = kind_name tk tn \<and>
     rs_Has s tk tn \<and> (fk, fn) \<noteq> (tk, tn) \<and> (applyRank tk < applyRank fk \<or> ed_Type e = ''app-ref''))"
  using Edges_ok [of s] unfolding edge_ok_def by blast

definition sample_app :: Resource where
  "sample_app = (sample_resource KindApplication ''web'' [])\<lparr>r_Application := Some
     \<lparr>a_Source = None, a_Image = ''nginx'', a_ImageTag = [], a_ImageDigest = [], a_Command = [], a_Ports = [],
      a_Env = [(''DB'', ''postgres://{{ .databases.main.host }}'')], a_SecretEnv = [], a_Mounts = [], a_Resources = None,
      a_Placement = None, a_Deployment = None, a_Security = None, a_Healthcheck = None, a_ContainerLabels = [],
      a_Stack = [], a_Registry = [], a_ExternalLabel = [], a_ReloadPolicy = [], a_ConfigFP = [],
      a_DeprecatedRunAsUser = [], a_DeprecatedStrategy = []\<rparr>\<rparr>"

definition sample_db :: Resource where
  "sample_db = (sample_resource KindDatabase ''main'' [])\<lparr>r_Database := Some
     \<lparr>db_Engine = ''postgres'', db_Version = [], db_Instance = [], db_Placement = None, db_Resources = None,
      db_ReadOnlyUser = None\<rparr>\<rparr>"

definition sample_stacked :: Resource where
  "sample_stacked =
     sample_app\<lparr>r_Application := map_option (\<lambda>a. a\<lparr>a_Stack := ''shop''\<rparr>) (r_Application sample_app)\<rparr>"

definition sample_edge :: Edge where
  "sample_edge = \<lparr>ed_From = ''Application/web'', ed_To = ''Database/main'', ed_Type = ''database''\<rparr>"

lemma sample_edges: "Edges (sample_set [sample_app, sample_db]) = [sample_edge]"
  by code_simp

theorem edges_well_formed_witness:
  "\<exists>fk fn tk tn. ''Application/web'' = kind_name fk fn \<and> ''Database/main'' = kind_name tk tn \<and>
     rs_Has (sample_set [sample_app, sample_db]) tk tn"
  using edges_well_formed [of "sample_set [sample_app, sample_db]"] unfolding sample_edges
  by (auto simp: sample_edge_def)

text \<open>C26: a plan follows the graph. For an edge that is not a reference between applications, what it
  points to is applied strictly before what it comes from when both are created or updated, and
  deleted strictly after it when both are deleted.\<close>

theorem plan_follows_edges:
  assumes "e \<in> set (Edges s)" and "ed_Type e \<noteq> ''app-ref''"
    and "i < length plan" and "j < length plan" and "plan = BuildPlan g desired actual opts"
    and "c_Kind (plan ! i) \<in> set knownKinds" and "c_Kind (plan ! j) \<in> set knownKinds"
    and "kind_name (c_Kind (plan ! i)) (c_Name (plan ! i)) = ed_From e"
    and "kind_name (c_Kind (plan ! j)) (c_Name (plan ! j)) = ed_To e"
  shows "(c_Action (plan ! i) \<noteq> ActionDelete \<and> c_Action (plan ! j) \<noteq> ActionDelete \<longrightarrow> j < i) \<and>
    (c_Action (plan ! i) = ActionDelete \<and> c_Action (plan ! j) = ActionDelete \<longrightarrow> i < j)"
proof -
  have "edge_ok s e" using Edges_ok [of s] assms(1) by simp
  from edge_down [OF this assms(2)] obtain fk fn tk tn where d: "ed_From e = kind_name fk fn \<and> ed_To e = kind_name tk tn \<and>
      fk \<in> set knownKinds \<and> tk \<in> set knownKinds \<and> applyRank tk < applyRank fk"
    by (elim exE)
  note e = conjunct1 [OF d] conjunct1 [OF conjunct2 [OF d]] conjunct1 [OF conjunct2 [OF conjunct2 [OF d]]]
    conjunct1 [OF conjunct2 [OF conjunct2 [OF conjunct2 [OF d]]]] conjunct2 [OF conjunct2 [OF conjunct2 [OF conjunct2 [OF d]]]]
  have "c_Kind (plan ! i) = fk" "c_Kind (plan ! j) = tk"
    using kind_name_inj [OF assms(6) e(3) trans [OF assms(8) e(1)]]
      kind_name_inj [OF assms(7) e(4) trans [OF assms(9) e(2)]] by blast+
  then have rank: "applyRank (c_Kind (plan ! j)) < applyRank (c_Kind (plan ! i))" using e(5) by simp
  then have "i \<noteq> j" by auto
  moreover have "\<not> i < j" if act: "c_Action (plan ! i) \<noteq> ActionDelete"
  proof
    assume "i < j"
    from BuildPlan_ordered [OF this, of g desired actual opts] assms(4,5)
    have "change_key (plan ! i) \<le> change_key (plan ! j)" by simp
    from change_key_le(2) [OF this act] rank show False by simp
  qed
  moreover have "\<not> j < i" if act: "c_Action (plan ! i) = ActionDelete"
  proof
    assume "j < i"
    from BuildPlan_ordered [OF this, of g desired actual opts] assms(3,5)
    have "change_key (plan ! j) \<le> change_key (plan ! i)" by simp
    from change_key_le(1) [OF this act] rank show False by simp
  qed
  ultimately show ?thesis by linarith
qed

theorem plan_follows_edges_witness:
  "(0::nat) < 1 \<and> c_Name (BuildPlan sample_std (sample_set [sample_app, sample_db]) NewResourceSet sample_options ! 0) = ''main''"
proof -
  let ?p = "BuildPlan sample_std (sample_set [sample_app, sample_db]) NewResourceSet sample_options"
  have p: "?p = [change_for ActionCreate sample_db ''not present in workspace'' [],
      change_for ActionCreate sample_app ''not present in workspace'' []]" by code_simp
  have "sample_edge \<in> set (Edges (sample_set [sample_app, sample_db]))" by (simp add: sample_edges)
  from plan_follows_edges [OF this, of 1 ?p 0]
  show ?thesis unfolding p
    by (simp add: sample_edge_def kind_name_def knownKinds_def sample_app_def sample_db_def sample_resource_def)
qed

text \<open>In a set whose references were checked, every mount, stack and route target is declared,
  and no name is both a Secret and a SealedSecret.\<close>

theorem checked_references_resolve:
  assumes "validateReferences s = None" and "r \<in> set (rs_All s)"
  shows "(r_Kind r = KindSealedSecret \<longrightarrow> \<not> rs_Has s KindSecret (r_Name r)) \<and>
    (\<forall>a. r_Application r = Some a \<longrightarrow>
       (a_Stack a \<noteq> [] \<longrightarrow> rs_Has s KindStack (a_Stack a)) \<and>
       (\<forall>mt \<in> set (a_Mounts a). if mt_Config mt \<noteq> [] then rs_Has s KindConfig (mt_Config mt)
                                else rs_Has s KindVolume (mt_Volume mt))) \<and>
    (\<forall>t. r_Application r = None \<and> r_Route r = Some t \<longrightarrow> rs_Has s KindApplication (ro_App t))"
proof -
  have chk: "check_resource s r = None"
    using assms by (simp add: validateReferences_def first_error_None rs_All_def)
  have mounts: "check_mounts s app mts = None \<Longrightarrow> mt \<in> set mts \<Longrightarrow>
    (if mt_Config mt \<noteq> [] then rs_Has s KindConfig (mt_Config mt) else rs_Has s KindVolume (mt_Volume mt))" for app mts mt
    by (induction mts) (auto split: if_splits)
  show ?thesis using chk mounts by (simp add: check_resource_def split: if_splits option.splits) blast
qed

theorem checked_references_resolve_witness:
  "rs_Has (sample_set [sample_stacked, sample_resource KindStack ''shop'' []]) KindStack ''shop''"
proof -
  let ?s = "sample_set [sample_stacked, sample_resource KindStack ''shop'' []]"
  have v: "validateReferences ?s = None"
    and "rs_All ?s = [sample_stacked, sample_resource KindStack ''shop'' []]" by code_simp+
  then show ?thesis
    using checked_references_resolve [OF v, of sample_stacked]
    by (simp add: sample_stacked_def sample_app_def)
qed

end
