(* ===== verification/Go_Regexp.thy ===== *)
theory Go_Regexp
  imports Go_Prelude
begin

text \<open>
  The regular expressions of the Go library as the program uses them: anchored at both ends, over
  character classes, without captures. \<open>rx_match\<close> decides by derivatives whether a text matches;
  \<open>spells\<close> is what matching means, and \<open>rx_match_iff\<close> says that the two agree. The lemmas on
  \<open>rx_chars\<close> read off the characters that a matching text can hold.

  Texts are byte lists. The classes of the program are ASCII, except for a negated one and the dot,
  which accept every byte of a longer character, so matching bytes and matching characters agree.
\<close>

datatype rx =
    Eps
  | Cls "char \<Rightarrow> bool"
  | Cat rx rx
  | Alt rx rx
  | Star rx

definition Lit :: "char \<Rightarrow> rx" where
  "Lit c = Cls (\<lambda>d. d = c)"

definition Opt :: "rx \<Rightarrow> rx" where
  "Opt r = Alt Eps r"

definition Many :: "rx \<Rightarrow> rx" where
  "Many r = Cat r (Star r)"

text \<open>\<open>{1,n}\<close> repetitions.\<close>

fun Upto :: "nat \<Rightarrow> rx \<Rightarrow> rx" where
  "Upto 0 r = Eps"
| "Upto (Suc 0) r = r"
| "Upto (Suc n) r = Cat r (Opt (Upto n r))"

section \<open>Matching\<close>

fun nullable :: "rx \<Rightarrow> bool" where
  "nullable Eps = True"
| "nullable (Cls p) = False"
| "nullable (Cat r q) = (nullable r \<and> nullable q)"
| "nullable (Alt r q) = (nullable r \<or> nullable q)"
| "nullable (Star r) = True"

text \<open>What is left to match after one character; \<open>None\<close> when nothing can.\<close>

definition then_rx :: "rx option \<Rightarrow> rx \<Rightarrow> rx option" where
  "then_rx r q = (case r of None \<Rightarrow> None | Some r' \<Rightarrow> Some (case r' of Eps \<Rightarrow> q | _ \<Rightarrow> Cat r' q))"

definition or_rx :: "rx option \<Rightarrow> rx option \<Rightarrow> rx option" where
  "or_rx r q = (case r of None \<Rightarrow> q | Some r' \<Rightarrow> (case q of None \<Rightarrow> r | Some q' \<Rightarrow> Some (Alt r' q')))"

primrec after :: "char \<Rightarrow> rx \<Rightarrow> rx option" where
  "after c Eps = None"
| "after c (Cls p) = (if p c then Some Eps else None)"
| "after c (Cat r q) = or_rx (then_rx (after c r) q) (if nullable r then after c q else None)"
| "after c (Alt r q) = or_rx (after c r) (after c q)"
| "after c (Star r) = then_rx (after c r) (Star r)"

fun rx_match :: "rx \<Rightarrow> string \<Rightarrow> bool" where
  "rx_match r [] = nullable r"
| "rx_match r (c # s) = (case after c r of None \<Rightarrow> False | Some r' \<Rightarrow> rx_match r' s)"

section \<open>What matching means\<close>

inductive spells :: "rx \<Rightarrow> string \<Rightarrow> bool" where
  spells_Eps: "spells Eps []"
| spells_Cls: "p c \<Longrightarrow> spells (Cls p) [c]"
| spells_Cat: "spells r s \<Longrightarrow> spells q t \<Longrightarrow> spells (Cat r q) (s @ t)"
| spells_left: "spells r s \<Longrightarrow> spells (Alt r q) s"
| spells_right: "spells q s \<Longrightarrow> spells (Alt r q) s"
| spells_none: "spells (Star r) []"
| spells_more: "spells r s \<Longrightarrow> spells (Star r) t \<Longrightarrow> spells (Star r) (s @ t)"

inductive_simps spells_simps: "spells Eps s" "spells (Cls p) s" "spells (Cat r q) s" "spells (Alt r q) s"
inductive_cases spells_CatE: "spells (Cat r q) s"

lemma spells_Nil: "spells r [] \<longleftrightarrow> nullable r"
  by (induction r) (auto simp: spells_simps intro: spells_none)

lemma spells_Star_Cons:
  "spells (Star r) (c # s) \<longleftrightarrow> (\<exists>u v. s = u @ v \<and> spells r (c # u) \<and> spells (Star r) v)"
proof
  assume "spells (Star r) (c # s)"
  then show "\<exists>u v. s = u @ v \<and> spells r (c # u) \<and> spells (Star r) v"
  proof (induction "Star r" "c # s" rule: spells.induct)
    case (spells_more u v)
    then show ?case by (cases u) auto
  qed
next
  assume "\<exists>u v. s = u @ v \<and> spells r (c # u) \<and> spells (Star r) v"
  then obtain u v where "s = u @ v" "spells r (c # u)" "spells (Star r) v" by blast
  then show "spells (Star r) (c # s)" using spells.spells_more [of r "c # u" v] by simp
qed

lemma spells_Cat_Cons:
  "spells (Cat r q) (c # s) \<longleftrightarrow>
     (\<exists>u v. s = u @ v \<and> spells r (c # u) \<and> spells q v) \<or> (nullable r \<and> spells q (c # s))"
  unfolding spells_simps by (simp add: Cons_eq_append_conv spells_Nil [symmetric]) blast

definition spells_opt :: "rx option \<Rightarrow> string \<Rightarrow> bool" where
  "spells_opt r s = (case r of None \<Rightarrow> False | Some r' \<Rightarrow> spells r' s)"

lemma spells_opt_simps [simp]:
  "spells_opt None s \<longleftrightarrow> False" "spells_opt (Some r) s \<longleftrightarrow> spells r s"
  "spells_opt (or_rx a b) s \<longleftrightarrow> spells_opt a s \<or> spells_opt b s"
  "spells_opt (then_rx a q) s \<longleftrightarrow> (\<exists>u v. s = u @ v \<and> spells_opt a u \<and> spells q v)"
  by (auto simp: spells_opt_def or_rx_def then_rx_def spells_simps split: option.splits rx.splits)

lemma spells_after: "spells r (c # s) \<longleftrightarrow> spells_opt (after c r) s"
proof (induction r arbitrary: s)
  case (Cat r q)
  then show ?case by (simp add: spells_Cat_Cons)
next
  case (Star r)
  then show ?case by (simp add: spells_Star_Cons)
qed (auto simp: spells_simps)

lemma rx_match_iff: "rx_match r s \<longleftrightarrow> spells r s"
  by (induction s arbitrary: r) (simp_all add: spells_Nil spells_after split: option.splits)

lemma spells_Opt [simp]: "spells (Opt r) s \<longleftrightarrow> s = [] \<or> spells r s"
  by (auto simp: Opt_def spells_simps)

lemma spells_Lit [simp]: "spells (Lit c) s \<longleftrightarrow> s = [c]"
  by (auto simp: Lit_def spells_simps)

section \<open>The characters of a match\<close>

fun rx_chars :: "rx \<Rightarrow> char \<Rightarrow> bool" where
  "rx_chars Eps c = False"
| "rx_chars (Cls p) c = p c"
| "rx_chars (Cat r q) c = (rx_chars r c \<or> rx_chars q c)"
| "rx_chars (Alt r q) c = (rx_chars r c \<or> rx_chars q c)"
| "rx_chars (Star r) c = rx_chars r c"

lemma spells_chars: "spells r s \<Longrightarrow> c \<in> set s \<Longrightarrow> rx_chars r c"
  by (induction rule: spells.induct) auto

lemma rx_match_chars: "rx_match r s \<Longrightarrow> c \<in> set s \<Longrightarrow> rx_chars r c"
  by (auto simp: rx_match_iff dest: spells_chars)

lemma rx_match_not_Nil: "rx_match r s \<Longrightarrow> \<not> nullable r \<Longrightarrow> s \<noteq> []"
  by auto

lemma rx_chars_derived [simp]:
  "rx_chars (Lit d) c \<longleftrightarrow> c = d" "rx_chars (Opt r) c \<longleftrightarrow> rx_chars r c"
  "rx_chars (Many r) c \<longleftrightarrow> rx_chars r c"
  "nullable (Lit d) \<longleftrightarrow> False" "nullable (Opt r) \<longleftrightarrow> True" "nullable (Many r) \<longleftrightarrow> nullable r"
  by (simp_all add: Lit_def Opt_def Many_def)

text \<open>A star of a class is a list of its characters.\<close>

lemma spells_Star_Cls [simp]: "spells (Star (Cls p)) s \<longleftrightarrow> list_all p s"
proof (induction s)
  case (Cons c s)
  then show ?case by (auto simp: spells_Star_Cons spells_simps)
qed (simp add: spells_Nil)

lemma spells_Many_Cls [simp]: "spells (Many (Cls p)) s \<longleftrightarrow> s \<noteq> [] \<and> list_all p s"
proof -
  have cons: "spells (Many (Cls p)) (c # t) \<longleftrightarrow> p c \<and> list_all p t" for c t
    by (auto simp: Many_def spells_Cat_Cons) (auto simp: spells_simps)
  then show ?thesis by (cases s) (auto simp: Many_def spells_Nil)
qed

end
