(* ===== verification/Go_Url.thy ===== *)
theory Go_Url
  imports Go_Prelude
begin

text \<open>
  What the code uses of Go's \<^verbatim>\<open>path\<close>, \<^verbatim>\<open>net/url\<close> and \<^verbatim>\<open>encoding/base64\<close>: cleaning and joining paths, percent
  decoding, the lenient parsing of a query, base64, and comparison under case folding. The \<^verbatim>\<open>internal/\<close> code that
  calls them is in \<open>Config_Files\<close> (mount paths), \<open>Manifest_Validation\<close> (sealed values) and \<open>Registry_Access\<close>
  (request paths and credentials).
\<close>

section \<open>Paths\<close>

text \<open>\<open>path.Clean\<close> and \<open>path.Join\<close>; the stack holds the segments kept so far, the latest first.\<close>

definition clean_step :: "bool \<Rightarrow> string \<Rightarrow> string list \<Rightarrow> string list" where
  "clean_step rooted seg stack =
     (if seg = [] \<or> seg = ''.'' then stack
      else if seg = ''..'' then
        (if stack \<noteq> [] \<and> hd stack \<noteq> ''..'' then tl stack else if rooted then stack else seg # stack)
      else seg # stack)"

definition path_Clean :: "string \<Rightarrow> string" where
  "path_Clean p =
     (if p = [] then ''.''
      else let rooted = (hd p = CHR ''/'');
               body = JoinStr (rev (fold (clean_step rooted) (SplitChar p CHR ''/'') [])) ''/''
           in if rooted then CHR ''/'' # body else if body = [] then ''.'' else body)"

definition path_Join :: "string \<Rightarrow> string \<Rightarrow> string" where
  "path_Join a b =
     (if a = [] then (if b = [] then [] else path_Clean b) else path_Clean (a @ CHR ''/'' # b))"

lemma fold_clean_keeps:
  "(\<forall>x \<in> set xs. x \<noteq> [] \<and> x \<noteq> ''.'' \<and> x \<noteq> ''..'') \<Longrightarrow> fold (clean_step b) xs st = rev xs @ st"
  by (induction xs arbitrary: st) (simp_all add: clean_step_def)

lemma clean_step_segments:
  "(\<forall>x \<in> set st. x \<noteq> [] \<and> c \<notin> set x) \<Longrightarrow> c \<notin> set seg \<Longrightarrow> x \<in> set (clean_step b seg st) \<Longrightarrow> x \<noteq> [] \<and> c \<notin> set x"
  by (auto simp: clean_step_def split: if_splits dest: list.set_sel(2))

lemma fold_clean_segments:
  "(\<forall>x \<in> set st. x \<noteq> [] \<and> c \<notin> set x) \<Longrightarrow> (\<forall>x \<in> set segs. c \<notin> set x) \<Longrightarrow>
    x \<in> set (fold (clean_step b) segs st) \<Longrightarrow> x \<noteq> [] \<and> c \<notin> set x"
proof (induction segs arbitrary: st)
  case (Cons seg segs)
  have "\<forall>y \<in> set (clean_step b seg st). y \<noteq> [] \<and> c \<notin> set y"
    using clean_step_segments [of st c seg _ b] Cons.prems(1,2) by simp
  then show ?case using Cons.IH [of "clean_step b seg st"] Cons.prems(2,3) by simp
qed simp

lemma SplitChar_free: "x \<in> set (SplitChar s c) \<Longrightarrow> c \<notin> set x"
proof (induction s arbitrary: x)
  case (Cons d s)
  obtain p ps where "SplitChar s c = p # ps" by (cases "SplitChar s c") simp_all
  with Cons show ?case by (auto split: if_splits)
qed simp

definition path_segments :: "string \<Rightarrow> string list" where
  "path_segments p = rev (fold (clean_step True) (SplitChar p CHR ''/'') [])"

lemma path_segments_free: "x \<in> set (path_segments p) \<Longrightarrow> x \<noteq> [] \<and> CHR ''/'' \<notin> set x"
  unfolding path_segments_def set_rev
  by (rule fold_clean_segments [rotated 2]) (auto dest: SplitChar_free)

lemma path_Clean_rooted: "path_Clean (CHR ''/'' # p) = CHR ''/'' # JoinStr (path_segments (CHR ''/'' # p)) ''/''"
  by (simp add: path_Clean_def path_segments_def)

section \<open>Base64\<close>

definition b64_val :: "char \<Rightarrow> nat option" where
  "b64_val c =
     (let n = of_char c :: nat
      in if n \<in> {65..90} then Some (n - 65) else if n \<in> {97..122} then Some (n - 71)
         else if n \<in> {48..57} then Some (n + 4) else if c = CHR ''+'' then Some 62
         else if c = CHR ''/'' then Some 63 else None)"

text \<open>The bytes of one group of four characters; the padding may only end the text.\<close>

definition b64_group :: "char \<Rightarrow> char \<Rightarrow> char \<Rightarrow> char \<Rightarrow> bool \<Rightarrow> string option" where
  "b64_group a b c d ends =
     (case (b64_val a, b64_val b, b64_val c, b64_val d) of
        (Some i, Some j, Some k, Some l) \<Rightarrow>
          Some [char_of ((i * 64 + j) div 16), char_of ((j * 64 + k) div 4 mod 256), char_of ((k * 64 + l) mod 256)]
      | (Some i, Some j, Some k, None) \<Rightarrow>
          if ends \<and> d = CHR ''='' then Some [char_of ((i * 64 + j) div 16), char_of ((j * 64 + k) div 4 mod 256)] else None
      | (Some i, Some j, None, _) \<Rightarrow>
          if ends \<and> c = CHR ''='' \<and> d = CHR ''='' then Some [char_of ((i * 64 + j) div 16)] else None
      | _ \<Rightarrow> None)"

fun b64_groups :: "string \<Rightarrow> string option" where
  "b64_groups [] = Some []"
| "b64_groups (a # b # c # d # s) =
     (case b64_group a b c d (s = []) of
        None \<Rightarrow> None
      | Some x \<Rightarrow> (case b64_groups s of None \<Rightarrow> None | Some y \<Rightarrow> Some (x @ y)))"
| "b64_groups _ = None"

definition DecodeBase64 :: "string \<Rightarrow> string option" where
  "DecodeBase64 s = b64_groups (filter (\<lambda>c. c \<noteq> CHR 0x0A \<and> c \<noteq> CHR 0x0D) s)"

section \<open>Percent decoding\<close>

definition unhex :: "char \<Rightarrow> nat option" where
  "unhex c =
     (let n = of_char c :: nat
      in if n \<in> {48..57} then Some (n - 48) else if n \<in> {97..102} then Some (n - 87)
         else if n \<in> {65..70} then Some (n - 55) else None)"

text \<open>\<open>url.PathUnescape\<close> and, where a plus sign is a space, \<open>url.QueryUnescape\<close>.\<close>

fun unescape :: "bool \<Rightarrow> string \<Rightarrow> string option" where
  "unescape q [] = Some []"
| "unescape q (c # s) =
     (if c = CHR ''%'' then
        (case s of
           a # b # r \<Rightarrow>
             (case (unhex a, unhex b) of
                (Some i, Some j) \<Rightarrow> map_option ((#) (char_of (16 * i + j))) (unescape q r)
              | _ \<Rightarrow> None)
         | _ \<Rightarrow> None)
      else if q \<and> c = CHR ''+'' then map_option ((#) CHR '' '') (unescape q s)
      else map_option ((#) c) (unescape q s))"

definition PathUnescape :: "string \<Rightarrow> string option" where "PathUnescape = unescape False"
definition QueryUnescape :: "string \<Rightarrow> string option" where "QueryUnescape = unescape True"

text \<open>
  \<open>url.ParseQuery\<close> keeps the pairs it can read and reports whether there was one it could not; \<open>Values.Get\<close> is the
  first value of a key.
\<close>

definition parse_pair :: "string \<Rightarrow> (string \<times> string) + bool" where
  "parse_pair p =
     (if CHR '';'' \<in> set p then Inr True
      else if p = [] then Inr False
      else let (k, v, _) = CutChar p CHR ''='' in
        case (QueryUnescape k, QueryUnescape v) of
          (Some k', Some v') \<Rightarrow> Inl (k', v')
        | _ \<Rightarrow> Inr True)"

fun parse_pairs :: "string list \<Rightarrow> (string \<times> string) list \<times> bool" where
  "parse_pairs [] = ([], False)"
| "parse_pairs (p # ps) =
     (let (kvs, err) = parse_pairs ps in
      case parse_pair p of
        Inl kv \<Rightarrow> (kv # kvs, err)
      | Inr bad \<Rightarrow> (kvs, bad \<or> err))"

definition ParseQuery :: "string \<Rightarrow> (string \<times> string) list \<times> bool" where
  "ParseQuery q = parse_pairs (SplitChar q CHR ''&'')"

definition query_Get :: "(string \<times> string) list \<Rightarrow> string \<Rightarrow> string" where
  "query_Get kvs k = (case map_of kvs k of Some v \<Rightarrow> v | None \<Rightarrow> [])"

section \<open>Case folding\<close>

text \<open>
  \<open>strings.EqualFold\<close> where one side is ASCII: the ASCII letters, and the two other letters that fold to one
  (U+017F and U+212A, bytes C5 BF and E2 84 AA).
\<close>

fun fold_case :: "string \<Rightarrow> string" where
  "fold_case [] = []"
| "fold_case (c # s) =
     (case s of
        d # r \<Rightarrow>
          if of_char c = (197 :: nat) \<and> of_char d = (191 :: nat) then CHR ''s'' # fold_case r
          else (case r of
                  e # r' \<Rightarrow>
                    if of_char c = (226 :: nat) \<and> of_char d = (132 :: nat) \<and> of_char e = (170 :: nat)
                    then CHR ''k'' # fold_case r' else lower_char c # fold_case s
                | [] \<Rightarrow> lower_char c # fold_case s)
      | [] \<Rightarrow> [lower_char c])"

definition EqualFold :: "string \<Rightarrow> string \<Rightarrow> bool" where
  "EqualFold s t \<longleftrightarrow> fold_case s = fold_case t"

section \<open>Strings, segments and clean paths\<close>

lemma JoinStr_Cons: "xs \<noteq> [] \<Longrightarrow> JoinStr (x # xs) sep = x @ sep @ JoinStr xs sep"
  by (cases xs) simp_all

lemma JoinStr_SplitChar: "JoinStr (SplitChar s c) [c] = s"
proof (induction s)
  case (Cons d s)
  obtain p ps where p: "SplitChar s c = p # ps" by (cases "SplitChar s c") simp_all
  show ?case
  proof (cases "d = c")
    case True
    then show ?thesis using Cons by (simp add: JoinStr_Cons)
  next
    case False
    have "JoinStr ((d # p) # ps) [c] = d # JoinStr (p # ps) [c]" by (cases ps) simp_all
    then show ?thesis using Cons False p by simp
  qed
qed simp

lemma TrimSpace_iff:
  "TrimSpace s = s \<longleftrightarrow>
     (\<forall>q\<in>set space_seqs. \<not> HasPrefix s q) \<and> (\<forall>q\<in>set space_seqs. \<not> HasPrefix (rev s) (rev q))"
proof
  have ne: "q \<noteq> []" if "q \<in> set space_seqs" for q
    using that by (auto simp: space_seqs_def)
  {
    assume s: "TrimSpace s = s"
    let ?l = "TrimLeftSeqs space_seqs s"
    obtain k where k: "?l = drop k s" unfolding TrimLeftSeqs_def using trim_left_fuel_drop by metis
    obtain j where "TrimLeftSeqs (map rev space_seqs) (rev ?l) = drop j (rev ?l)"
      unfolding TrimLeftSeqs_def using trim_left_fuel_drop by metis
    then have "length s = length s - k - j" using s k by (metis TrimRightSeqs_def TrimSpace_def length_drop length_rev)
    then have l: "?l = s" using k by (cases "s = []"; cases k) auto
    have r: "TrimLeftSeqs (map rev space_seqs) (rev s) = rev s"
      using s unfolding TrimSpace_def l TrimRightSeqs_def by (metis rev_rev_ident)
    show "(\<forall>q\<in>set space_seqs. \<not> HasPrefix s q) \<and> (\<forall>q\<in>set space_seqs. \<not> HasPrefix (rev s) (rev q))"
      using trim_left_fuel_done [of s "length s" _ space_seqs] trim_left_fuel_done [of "rev s" "length (rev s)" _ "map rev space_seqs"]
        l r ne unfolding TrimLeftSeqs_def by (metis image_eqI length_rev list.set_map order_refl rev_is_Nil_conv)
  }
  {
    assume clean: "(\<forall>q\<in>set space_seqs. \<not> HasPrefix s q) \<and> (\<forall>q\<in>set space_seqs. \<not> HasPrefix (rev s) (rev q))"
    have "TrimLeftSeqs space_seqs s = s" "TrimLeftSeqs (map rev space_seqs) (rev s) = rev s"
      unfolding TrimLeftSeqs_def using clean by (auto intro!: trim_left_fuel_none)
    then show "TrimSpace s = s" by (simp add: TrimSpace_def TrimRightSeqs_def)
  }
qed

lemma prefix_before:
  assumes "HasPrefix (u @ c # v) q" and "c \<notin> set q"
  shows "HasPrefix u q"
  using assms unfolding HasPrefix_iff by (auto simp: append_eq_append_conv2 Cons_eq_append_conv)

lemma CutChar_takeWhile: "fst (CutChar s c) = takeWhile (\<lambda>x. x \<noteq> c) s"
  by (induction s) (auto split: prod.splits)

lemma JoinStr_cases: "JoinStr (n # ns) sep = (if ns = [] then n else n @ sep @ JoinStr ns sep)"
  by (cases ns) simp_all

lemma JoinStr_no_edge:
  assumes "ns \<noteq> []" and "\<And>x. x \<in> set ns \<Longrightarrow> x \<noteq> [] \<and> CHR ''/'' \<notin> set x"
  shows "JoinStr ns ''/'' \<noteq> [] \<and> hd (JoinStr ns ''/'') \<noteq> CHR ''/'' \<and> last (JoinStr ns ''/'') \<noteq> CHR ''/''"
  using assms
proof (induction ns)
  case (Cons n ns)
  have n: "n \<noteq> []" "CHR ''/'' \<notin> set n" using Cons.prems(2) by auto
  then have "hd n \<noteq> CHR ''/''" "last n \<noteq> CHR ''/''" by (metis hd_in_set) (metis last_in_set n)
  then show ?case using Cons n by (auto simp: JoinStr_cases)
qed simp

lemma TrimChar_slash:
  assumes "s \<noteq> []" "hd s \<noteq> CHR ''/''" "last s \<noteq> CHR ''/''"
  shows "TrimChar (CHR ''/'' # s) CHR ''/'' = s"
proof -
  have "dropWhile (\<lambda>x. x = CHR ''/'') s = s" "dropWhile (\<lambda>x. x = CHR ''/'') (rev s) = rev s"
    using assms dropWhile_eq_self_iff [of _ s] dropWhile_eq_self_iff [of _ "rev s"] by (simp_all add: hd_rev)
  then show ?thesis by (simp add: TrimChar_def TrimRightChar_def)
qed

text \<open>
  Cleaning the segments of a path takes some of the stack away and puts others on it, whatever the stack is; what it
  takes and puts depends on the segments alone.
\<close>

lemma clean_step_rooted:
  "''..'' \<notin> set st \<Longrightarrow> clean_step True seg st = (if seg = [] \<or> seg = ''.'' then st else if seg = ''..'' then tl st else seg # st)"
  by (cases st) (auto simp: clean_step_def)

lemma fold_clean_split:
  "\<exists>k top. ''..'' \<notin> set top \<and> [] \<notin> set top \<and> (\<forall>st. ''..'' \<notin> set st \<longrightarrow> fold (clean_step True) segs st = top @ drop k st)"
proof (induction segs rule: rev_induct)
  case Nil
  have "\<forall>st. ''..'' \<notin> set st \<longrightarrow> fold (clean_step True) [] st = [] @ drop 0 st" by simp
  then show ?case by (metis empty_iff list.set(1))
next
  case (snoc seg segs)
  then obtain k top where top: "''..'' \<notin> set top" "[] \<notin> set top"
    "\<And>st. ''..'' \<notin> set st \<Longrightarrow> fold (clean_step True) segs st = top @ drop k st"
    by blast
  have run: "fold (clean_step True) (segs @ [seg]) st = clean_step True seg (top @ drop k st)" if "''..'' \<notin> set st" for st
    using top(3) [OF that] by simp
  have free: "''..'' \<notin> set (top @ drop k st)" if "''..'' \<notin> set st" for st
    using top(1) that by (auto dest: in_set_dropD)
  consider "seg = [] \<or> seg = ''.''" | "seg = ''..''" "top = []" | t ts where "seg = ''..''" "top = t # ts"
    | "seg \<noteq> []" "seg \<noteq> ''.''" "seg \<noteq> ''..''" by (cases top) auto
  then show ?case
  proof cases
    case 1
    then show ?thesis using top run clean_step_rooted [OF free] by (intro exI [of _ k] exI [of _ top]) auto
  next
    case 2
    then have "fold (clean_step True) (segs @ [seg]) st = [] @ drop (Suc k) st" if "''..'' \<notin> set st" for st
      using run [OF that] clean_step_rooted [OF free [OF that]] by (simp add: drop_Suc tl_drop)
    then show ?thesis by (intro exI [of _ "Suc k"] exI [of _ "[]"]) simp
  next
    case 3
    then have "fold (clean_step True) (segs @ [seg]) st = ts @ drop k st" if "''..'' \<notin> set st" for st
      using run [OF that] clean_step_rooted [OF free [OF that]] by simp
    then show ?thesis using top(1,2) 3 by (intro exI [of _ k] exI [of _ ts]) auto
  next
    case 4
    then have "fold (clean_step True) (segs @ [seg]) st = (seg # top) @ drop k st" if "''..'' \<notin> set st" for st
      using run [OF that] clean_step_rooted [OF free [OF that]] by simp
    then show ?thesis using top(1,2) 4 by (intro exI [of _ k] exI [of _ "seg # top"]) auto
  qed
qed

lemma path_segments_plain:
  assumes "segs \<noteq> []" and "\<And>x. x \<in> set segs \<Longrightarrow> x \<noteq> [] \<and> x \<noteq> ''.'' \<and> x \<noteq> ''..'' \<and> CHR ''/'' \<notin> set x"
  shows "path_segments (CHR ''/'' # JoinStr segs ''/'') = segs"
proof -
  have split: "SplitChar (JoinStr segs ''/'') CHR ''/'' = segs"
    using assms
  proof (induction segs)
    case (Cons x segs)
    show ?case
    proof (cases "segs = []")
      case True
      then show ?thesis using Cons.prems(2) [of x] by (simp add: SplitChar_none)
    next
      case False
      then have "SplitChar (JoinStr segs ''/'') CHR ''/'' = segs" using Cons by simp
      then show ?thesis using False Cons.prems(2) [of x] SplitChar_append [of "CHR ''/''" x] by (simp add: JoinStr_cases)
    qed
  qed simp
  have "fold (clean_step True) segs [] = rev segs" using fold_clean_keeps [of segs True "[]"] assms(2) by simp
  then show ?thesis unfolding path_segments_def by (simp add: split clean_step_def)
qed

end
