(* ===== verification/Manifest_Validation.thy ===== *)
theory Manifest_Validation
  imports Go_Regexp Go_Url Resource_Edges Container_Grants "HOL-Library.Sublist"
begin

text \<open>
  The checks that a declared resource passes before it is planned: the defaults \<open>normalize\<close> fills in
  and the rules \<open>validate\<close> enforces, of \<^verbatim>\<open>internal/declarative/validate.go\<close> and \<^verbatim>\<open>jobs.go\<close>, with the shape
  of a sealed value from \<^verbatim>\<open>pkg/sealed\<close>. The lemmas show that an accepted resource is unchanged by
  normalising it again, that accepted names keep resource keys apart, that accepted configuration
  files stay where they are mounted and apart from each other, which file modes are accepted, that no
  mount hides inside a volume, and that the planner reads the quantities and grants of an accepted
  application without swallowing an error.

  A check returns \<open>None\<close> or its error. Messages keep the field they are about and leave out the values
  they quote. Go visits the labels, annotations and files of a map in any order; here it is the order
  of the list, which decides only which of several errors is reported. The parser of schedules
  (\<^verbatim>\<open>robfig/cron\<close>) is an argument; quantities are read through \<open>GoStd\<close>.
\<close>

section \<open>Errors and checks in sequence\<close>

datatype invalid =
    Invalid string string string
  | BadGrant string string grant_error
  | NilPointer

definition guard :: "bool \<Rightarrow> 'e \<Rightarrow> 'e option" where
  "guard bad e = (if bad then Some e else None)"

fun first_some :: "'e option list \<Rightarrow> 'e option" where
  "first_some [] = None"
| "first_some (None # es) = first_some es"
| "first_some (Some e # es) = Some e"

lemma guard_None [simp]: "guard bad e = None \<longleftrightarrow> \<not> bad"
  by (simp add: guard_def)

lemma first_some_None [simp]:
  "first_some (c # es) = None \<longleftrightarrow> c = None \<and> first_some es = None"
  by (cases c) simp_all

section \<open>Names and patterns\<close>

definition MaxConfigFileBytes :: int where "MaxConfigFileBytes = 256 * 1024"
definition MaxConfigTotalBytes :: int where "MaxConfigTotalBytes = 512 * 1024"
definition DefaultFileMode :: string where "DefaultFileMode = ''0644''"
definition DefaultRegistryServer :: string where "DefaultRegistryServer = ''registry-1.docker.io''"
definition MaxServiceReplicas :: int where "MaxServiceReplicas = 100"
definition maxBackoffLimit :: int where "maxBackoffLimit = 10"
definition maxMetaSegment :: nat where "maxMetaSegment = 63"

definition lower_alnum :: "char \<Rightarrow> bool" where
  "lower_alnum c = (of_char c \<in> {97..122 :: nat} \<or> is_digit c)"

definition alnum :: "char \<Rightarrow> bool" where
  "alnum c = (is_alpha c \<or> is_digit c)"

definition nameRe :: rx where
  "nameRe = Cat (Cls lower_alnum) (Star (Cls (\<lambda>c. lower_alnum c \<or> c = CHR ''-'')))"

definition configKeyRe :: rx where
  "configKeyRe =
     (let part = Cls (\<lambda>c. alnum c \<or> c \<in> {CHR ''.'', CHR ''_'', CHR ''-''})
      in Cat (Cls alnum) (Cat (Opt (Star part)) (Star (Cat (Lit CHR ''/'') (Many part)))))"

definition hostLabelRe :: rx where
  "hostLabelRe =
     Cat (Cls lower_alnum)
       (Opt (Cat (Star (Cls (\<lambda>c. lower_alnum c \<or> c = CHR ''-''))) (Cls lower_alnum)))"

definition hostnameRe :: rx where
  "hostnameRe = Cat hostLabelRe (Star (Cat (Lit CHR ''.'') hostLabelRe))"

definition labelValRe :: rx where
  "labelValRe =
     Cat (Cls alnum)
       (Opt (Cat (Star (Cls (\<lambda>c. alnum c \<or> c \<in> {CHR ''-'', CHR ''_'', CHR ''.''}))) (Cls alnum)))"

definition labelKeyRe :: rx where
  "labelKeyRe =
     Cat (Opt (Cat (Cls lower_alnum)
                (Cat (Opt (Cat (Star (Cls (\<lambda>c. lower_alnum c \<or> c \<in> {CHR ''-'', CHR ''.''}))) (Cls lower_alnum)))
                   (Lit CHR ''/''))))
       labelValRe"

definition registryServerRe :: rx where
  "registryServerRe = Cat hostnameRe (Opt (Cat (Lit CHR '':'') (Upto 5 (Cls is_digit))))"

definition constraintRe :: rx where
  "constraintRe =
     Cat (Many (Cls (\<lambda>c. alnum c \<or> c \<in> {CHR ''_'', CHR ''.'', CHR ''-''})))
       (Cat (Star (Cls re_space))
         (Cat (Cat (Alt (Lit CHR ''='') (Lit CHR ''!'')) (Lit CHR ''=''))
           (Cat (Star (Cls re_space))
             (Cat (Cls (\<lambda>c. \<not> re_space c \<and> c \<noteq> CHR ''='' \<and> c \<noteq> CHR ''!''))
               (Star (Cls (\<lambda>c. c \<noteq> CHR 0x0A)))))))"

definition resource_name :: "string \<Rightarrow> bool" where
  "resource_name s = rx_match nameRe s"

definition hasNonEmpty :: "string list \<Rightarrow> bool" where
  "hasNonEmpty s = list_ex (\<lambda>v. TrimSpace v \<noteq> []) s"

section \<open>Defaults\<close>

definition normalize_port :: "PortSpec \<Rightarrow> PortSpec" where
  "normalize_port p =
     (let p = (if po_Scheme p = [] then p\<lparr>po_Scheme := ''http''\<rparr> else p);
          p = (if po_Protocol p = [] then p\<lparr>po_Protocol := ''tcp''\<rparr> else p)
      in if po_HostPort p > 0 then p\<lparr>po_Publish := True\<rparr> else p)"

definition normalize_mount :: "MountSpec \<Rightarrow> MountSpec" where
  "normalize_mount mt = (if mt_Config mt \<noteq> [] then mt\<lparr>mt_ReadOnly := True\<rparr> else mt)"

definition empty_deployment :: DeploymentSpec where
  "empty_deployment = \<lparr>dp_Runtime = [], dp_Replicas = 0, dp_Strategy = [], dp_Update = None\<rparr>"

definition empty_security :: SecuritySpec where
  "empty_security =
     \<lparr>se_RunAsUser = [], se_ReadOnlyRootFilesystem = False, se_NoNewPrivileges = None,
      se_Capabilities = None, se_Devices = [], se_DeprecatedAddCapabilities = None\<rparr>"

definition or_else :: "'a option \<Rightarrow> 'a \<Rightarrow> 'a" where
  "or_else x d = (case x of None \<Rightarrow> d | Some y \<Rightarrow> y)"

definition adopt_strategy :: "ApplicationSpec \<Rightarrow> ApplicationSpec" where
  "adopt_strategy a =
     (if a_DeprecatedStrategy a \<noteq> [] \<and> app_Strategy a = []
      then a\<lparr>a_Deployment := Some ((or_else (a_Deployment a) empty_deployment)\<lparr>dp_Strategy := a_DeprecatedStrategy a\<rparr>),
             a_DeprecatedStrategy := []\<rparr>
      else a)"

definition adopt_run_as :: "ApplicationSpec \<Rightarrow> ApplicationSpec" where
  "adopt_run_as a =
     (if a_DeprecatedRunAsUser a \<noteq> [] \<and> app_RunAsUser a = []
      then a\<lparr>a_Security := Some ((or_else (a_Security a) empty_security)\<lparr>se_RunAsUser := a_DeprecatedRunAsUser a\<rparr>),
             a_DeprecatedRunAsUser := []\<rparr>
      else a)"

definition adopt_capabilities :: "ApplicationSpec \<Rightarrow> ApplicationSpec" where
  "adopt_capabilities a =
     (case a_Security a of
        None \<Rightarrow> a
      | Some sec \<Rightarrow>
          (case se_DeprecatedAddCapabilities sec of
             None \<Rightarrow> a
           | Some add \<Rightarrow>
               if app_AddCapabilities_opt a \<noteq> None then a
               else a\<lparr>a_Security := Some (sec\<lparr>
                        se_Capabilities := Some ((or_else (se_Capabilities sec) \<lparr>cp_Add = None, cp_Drop = []\<rparr>)\<lparr>cp_Add := Some add\<rparr>),
                        se_DeprecatedAddCapabilities := None\<rparr>)\<rparr>))"

definition adoptDeprecated :: "ApplicationSpec \<Rightarrow> ApplicationSpec" where
  "adoptDeprecated a = adopt_capabilities (adopt_run_as (adopt_strategy a))"

definition normalize_app :: "ApplicationSpec \<Rightarrow> ApplicationSpec" where
  "normalize_app a =
     adoptDeprecated
       (a\<lparr>a_Ports := map normalize_port (a_Ports a), a_Mounts := map normalize_mount (a_Mounts a),
          a_ReloadPolicy := (if a_ReloadPolicy a = [] then ''restart'' else a_ReloadPolicy a)\<rparr>)"

definition normalize_database :: "DatabaseSpec \<Rightarrow> DatabaseSpec" where
  "normalize_database d =
     (let d = (case db_Placement d of
                 Some p \<Rightarrow> if dbp_legacyInstance p \<noteq> [] \<and> db_Instance d = []
                           then d\<lparr>db_Instance := dbp_legacyInstance p, db_Placement := None\<rparr> else d
               | None \<Rightarrow> d)
      in if db_Instance d = [] then d\<lparr>db_Instance := ''auto''\<rparr> else d)"

definition normalize_route :: "RouteSpec \<Rightarrow> RouteSpec" where
  "normalize_route r =
     (let r = (if ro_TLS r = [] then r\<lparr>ro_TLS := ''acme''\<rparr> else r)
      in if ro_Path r = [] then r\<lparr>ro_Path := ''/''\<rparr> else r)"

definition normalizeRegistryServer :: "string \<Rightarrow> string" where
  "normalizeRegistryServer server =
     (let s = TrimSpace server
      in if s = [] then DefaultRegistryServer
         else TrimSuffix (TrimPrefix (TrimPrefix s ''https://'') ''http://'') ''/'')"

definition NormalizeGitURL :: "string \<Rightarrow> string" where
  "NormalizeGitURL raw =
     (let u = TrimRightChar (TrimSpace raw) CHR ''/''
      in if u \<noteq> [] \<and> \<not> HasSuffix (ToLower u) ''.git'' then u @ ''.git'' else u)"

definition normalize_gitrepository :: "GitRepositorySpec \<Rightarrow> GitRepositorySpec" where
  "normalize_gitrepository g =
     (let g = g\<lparr>gr_URL := NormalizeGitURL (gr_URL g)\<rparr>
      in if gr_Auth g = [] then g\<lparr>gr_Auth := (if gr_SecretRef g \<noteq> [] then ''token'' else ''public'')\<rparr> else g)"

definition default_to :: "string \<Rightarrow> string \<Rightarrow> string" where
  "default_to d s = (if s = [] then d else s)"

definition normalize_gitsource :: "GitSourceSpec \<Rightarrow> GitSourceSpec" where
  "normalize_gitsource g =
     g\<lparr>gs_Repo := TrimSpace (gs_Repo g),
       gs_Ref := default_to ''main'' (TrimSpace (gs_Ref g)),
       gs_Path := default_to ''.'' (TrimSpace (gs_Path g)),
       gs_SyncPolicy := default_to ''manual'' (gs_SyncPolicy g),
       gs_DeletePolicy := default_to ''orphan'' (gs_DeletePolicy g)\<rparr>"

definition normalize :: "Resource \<Rightarrow> Resource" where
  "normalize r =
     (case r_Application r of Some a \<Rightarrow> r\<lparr>r_Application := Some (normalize_app a)\<rparr> | None \<Rightarrow>
      case r_Config r of
        Some c \<Rightarrow> r\<lparr>r_Config := Some (c\<lparr>cf_Mode := default_to DefaultFileMode (cf_Mode c)\<rparr>)\<rparr> | None \<Rightarrow>
      case r_Database r of Some d \<Rightarrow> r\<lparr>r_Database := Some (normalize_database d)\<rparr> | None \<Rightarrow>
      case r_Route r of Some t \<Rightarrow> r\<lparr>r_Route := Some (normalize_route t)\<rparr> | None \<Rightarrow>
      case r_Domain r of
        Some d \<Rightarrow> r\<lparr>r_Domain := Some (d\<lparr>dm_TLS := default_to ''acme'' (dm_TLS d)\<rparr>)\<rparr> | None \<Rightarrow>
      case r_Registry r of
        Some g \<Rightarrow> r\<lparr>r_Registry := Some (g\<lparr>rg_Server := normalizeRegistryServer (rg_Server g)\<rparr>)\<rparr> | None \<Rightarrow>
      case r_GitRepository r of Some g \<Rightarrow> r\<lparr>r_GitRepository := Some (normalize_gitrepository g)\<rparr> | None \<Rightarrow>
      case r_GitSource r of Some g \<Rightarrow> r\<lparr>r_GitSource := Some (normalize_gitsource g)\<rparr> | None \<Rightarrow> r)"

section \<open>Sealed values\<close>

definition sealed_Prefix :: string where "sealed_Prefix = ''sealed:v1:''"

definition sealed_Parse :: "string \<Rightarrow> (int \<times> string) option" where
  "sealed_Parse s =
     (case CutPrefix (TrimSpace s) sealed_Prefix of
        None \<Rightarrow> None
      | Some rest \<Rightarrow>
          (case CutChar rest CHR '':'' of
             (_, _, False) \<Rightarrow> None
           | (ver, data, True) \<Rightarrow>
               (case Atoi ver of
                  None \<Rightarrow> None
                | Some keyVersion \<Rightarrow>
                    if keyVersion < 0 then None
                    else (case DecodeBase64 data of
                            None \<Rightarrow> None
                          | Some ciphertext \<Rightarrow> if ciphertext = [] then None else Some (keyVersion, ciphertext)))))"

section \<open>Checks of the single kinds\<close>

definition validMetaKey :: "Kind \<Rightarrow> string \<Rightarrow> string \<Rightarrow> invalid option" where
  "validMetaKey kind what key =
     (let name = rev (takeWhile (\<lambda>c. c \<noteq> CHR ''/'') (rev key))
      in guard (key = [] \<or> length name > maxMetaSegment \<or> \<not> rx_match labelKeyRe key)
           (Invalid kind key (what @ '' key is invalid'')))"

definition validateMeta :: "Kind \<Rightarrow> Meta \<Rightarrow> invalid option" where
  "validateMeta kind m =
     first_some
       [first_error (\<lambda>(k, v). first_some
          [validMetaKey kind ''label'' k,
           guard (length v > maxMetaSegment \<or> (v \<noteq> [] \<and> \<not> rx_match labelValRe v))
             (Invalid kind (m_Name m) ''label has invalid value'')]) (m_Labels m),
        first_error (\<lambda>(k, _). validMetaKey kind ''annotation'' k) (m_Annotations m)]"

definition validateDomain :: "string \<Rightarrow> DomainSpec option \<Rightarrow> invalid option" where
  "validateDomain name spec =
     (case spec of
        None \<Rightarrow> None
      | Some d \<Rightarrow> guard (dm_TLS d \<notin> {''acme'', ''custom''}) (Invalid ''domain'' name ''tls''))"

definition validateSealedSecret :: "string \<Rightarrow> SealedSecretSpec option \<Rightarrow> invalid option" where
  "validateSealedSecret name s =
     (case s of
        None \<Rightarrow> Some (Invalid ''sealed secret'' name ''value is required'')
      | Some ss \<Rightarrow>
          first_some
            [guard (ss_Value ss = []) (Invalid ''sealed secret'' name ''value is required''),
             guard (sealed_Parse (ss_Value ss) = None) (Invalid ''sealed secret'' name ''value must be sealed'')])"

definition validateGitRepository :: "string \<Rightarrow> GitRepositorySpec option \<Rightarrow> invalid option" where
  "validateGitRepository name spec =
     (case spec of
        None \<Rightarrow> Some (Invalid ''gitrepository'' name ''spec is required'')
      | Some g \<Rightarrow>
          first_some
            [guard (gr_URL g = []) (Invalid ''gitrepository'' name ''url is required''),
             guard (gr_Auth g \<noteq> ''public'' \<and> gr_Auth g \<noteq> ''token'' \<and> gr_Auth g \<noteq> ''ssh'')
               (Invalid ''gitrepository'' name ''auth''),
             guard (gr_Auth g = ''public'' \<and> gr_SecretRef g \<noteq> []) (Invalid ''gitrepository'' name ''public takes no secretRef''),
             guard (gr_Auth g \<noteq> ''public'' \<and> gr_SecretRef g = []) (Invalid ''gitrepository'' name ''auth needs secretRef''),
             guard (gr_SecretRef g \<noteq> [] \<and> \<not> resource_name (gr_SecretRef g)) (Invalid ''gitrepository'' name ''secretRef'')])"

definition validateGitSource :: "string \<Rightarrow> GitSourceSpec option \<Rightarrow> invalid option" where
  "validateGitSource name spec =
     (case spec of
        None \<Rightarrow> Some (Invalid ''gitsource'' name ''spec is required'')
      | Some g \<Rightarrow>
          first_some
            [guard ((gs_Repo g = []) = (gs_Repository g = [])) (Invalid ''gitsource'' name ''exactly one of repo and repository''),
             guard (gs_Repository g \<noteq> [] \<and> \<not> resource_name (gs_Repository g)) (Invalid ''gitsource'' name ''repository''),
             guard (gs_SyncPolicy g \<noteq> ''manual'' \<and> gs_SyncPolicy g \<noteq> ''auto'') (Invalid ''gitsource'' name ''syncPolicy''),
             guard (gs_DeletePolicy g \<noteq> ''orphan'' \<and> gs_DeletePolicy g \<noteq> ''cascade'') (Invalid ''gitsource'' name ''deletePolicy''),
             guard (HasPrefix (gs_Path g) ''/'' \<or> ''..'' \<in> set (SplitChar (gs_Path g) CHR ''/''))
               (Invalid ''gitsource'' name ''path must be relative'')])"

definition validateRegistry :: "string \<Rightarrow> RegistrySpec option \<Rightarrow> invalid option" where
  "validateRegistry name spec =
     (case spec of
        None \<Rightarrow> Some (Invalid ''registry'' name ''spec is required'')
      | Some g \<Rightarrow>
          first_some
            [guard (\<not> rx_match registryServerRe (rg_Server g)) (Invalid ''registry'' name ''server''),
             guard (TrimSpace (rg_Username g) = [] \<and> TrimSpace (rg_Password g) \<noteq> []) (Invalid ''registry'' name ''username is required'')])"

definition validateStack :: "string \<Rightarrow> StackSpec option \<Rightarrow> invalid option" where
  "validateStack name spec =
     (case spec of
        None \<Rightarrow> None
      | Some st \<Rightarrow>
          first_error (\<lambda>k. guard (k \<notin> set (map fst (or_else (st_Env st) [])))
            (Invalid ''stack'' name ''secretEnv is not declared in env'')) (st_SecretEnv st))"

definition EngineSupportsLogicalDatabases :: "string \<Rightarrow> bool" where
  "EngineSupportsLogicalDatabases e = (e = ''postgres'' \<or> e = ''mysql'' \<or> e = ''mariadb'' \<or> e = ''mongodb'')"

definition validEngines :: "string set" where
  "validEngines = {''postgres'', ''mysql'', ''mariadb'', ''redis'', ''mongodb'', ''libsql''}"

definition validateDatabaseResources :: "GoStd \<Rightarrow> string \<Rightarrow> DatabaseSpec \<Rightarrow> invalid option" where
  "validateDatabaseResources g name d =
     (case db_Resources d of
        None \<Rightarrow> None
      | Some res \<Rightarrow>
          first_some
            [guard (dr_Size res \<noteq> [] \<and> (dr_Memory res \<noteq> [] \<or> dr_CPU res \<noteq> [])) (Invalid ''database'' name ''size or memory and cpu''),
             guard (dr_Size res \<noteq> [] \<and> \<not> resource_name (dr_Size res)) (Invalid ''database'' name ''size''),
             guard (MemoryBytes g (dr_Memory res) = None) (Invalid ''database'' name ''invalid memory''),
             guard (NanoCPUs g (dr_CPU res) = None) (Invalid ''database'' name ''invalid cpu''),
             guard (db_Instance d = ''shared'') (Invalid ''database'' name ''shared takes no resources'')])"

definition validateDatabase :: "GoStd \<Rightarrow> string \<Rightarrow> DatabaseSpec option \<Rightarrow> invalid option" where
  "validateDatabase g name spec =
     (case spec of
        None \<Rightarrow> Some (Invalid ''database'' name ''spec is required'')
      | Some d \<Rightarrow>
          first_some
            [guard (db_Engine d \<notin> validEngines) (Invalid ''database'' name ''unsupported engine''),
             guard (case db_Placement d of None \<Rightarrow> False | Some p \<Rightarrow> dbp_legacyInstance p \<noteq> [])
               (Invalid ''database'' name ''placement is the old spelling of instance''),
             guard (db_Instance d \<notin> {''auto'', ''dedicated'', ''shared''}) (Invalid ''database'' name ''invalid instance''),
             guard (db_ReadOnlyUser d = Some True \<and> db_Engine d \<noteq> ''postgres'') (Invalid ''database'' name ''readOnlyUser''),
             guard (\<not> EngineSupportsLogicalDatabases (db_Engine d) \<and> db_Instance d = ''shared'')
               (Invalid ''database'' name ''engine has no logical databases''),
             validateDatabaseResources g name d])"

definition validateMiddleware :: "string \<Rightarrow> MiddlewareSpec option \<Rightarrow> invalid option" where
  "validateMiddleware name spec =
     (case spec of
        None \<Rightarrow> Some (Invalid ''middleware'' name ''spec is required'')
      | Some mw \<Rightarrow>
          first_some
            [guard (TrimSpace (mw_Type mw) = []) (Invalid ''middleware'' name ''type is required''),
             first_error (\<lambda>p. guard (TrimSpace p = []) (Invalid ''middleware'' name ''empty path'')) (mw_Paths mw)])"

definition validHTTPMethod :: "string set" where
  "validHTTPMethod =
     {''GET'', ''HEAD'', ''POST'', ''PUT'', ''PATCH'', ''DELETE'', ''CONNECT'', ''OPTIONS'', ''TRACE''}"

fun check_chain :: "string \<Rightarrow> string list \<Rightarrow> string list \<Rightarrow> invalid option" where
  "check_chain rname seen [] = None"
| "check_chain rname seen (m # ms) =
     (let name = TrimSpace m
      in if name = [] then Some (Invalid ''route'' rname ''empty middleware name'')
         else if name \<in> set seen then Some (Invalid ''route'' rname ''middleware is listed twice'')
         else check_chain rname (name # seen) ms)"

definition validateRoute :: "string \<Rightarrow> RouteSpec option \<Rightarrow> invalid option" where
  "validateRoute name spec =
     (case spec of
        None \<Rightarrow> Some (Invalid ''route'' name ''spec is required'')
      | Some rt \<Rightarrow>
          first_some
            [guard (\<not> hasNonEmpty (ro_Hosts rt)) (Invalid ''route'' name ''at least one host is required''),
             guard (TrimSpace (ro_App rt) = []) (Invalid ''route'' name ''app target is required''),
             guard (ro_TLS rt \<notin> {''acme'', ''custom'', ''off''}) (Invalid ''route'' name ''tls''),
             guard (ro_TLS rt = ''custom'' \<and> TrimSpace (ro_Certificate rt) = []) (Invalid ''route'' name ''custom needs certificate''),
             guard (ro_TLS rt \<noteq> ''custom'' \<and> ro_Certificate rt \<noteq> []) (Invalid ''route'' name ''certificate needs custom''),
             guard (ro_Certificate rt \<noteq> [] \<and> \<not> resource_name (ro_Certificate rt)) (Invalid ''route'' name ''certificate''),
             guard (ro_TLSProvider rt \<noteq> [] \<and> ro_TLS rt \<noteq> ''acme'') (Invalid ''route'' name ''tlsProvider''),
             first_error (\<lambda>m. guard (ToUpper (TrimSpace m) \<notin> validHTTPMethod) (Invalid ''route'' name ''method'')) (ro_Methods rt),
             check_chain name [] (ro_Middlewares rt)])"

section \<open>Configuration files\<close>

definition validateConfigKey :: "string \<Rightarrow> string option" where
  "validateConfigKey key =
     first_some
       [guard (key = []) ''file key must not be empty'',
        guard (\<not> rx_match configKeyRe key) ''file key must be a relative path'',
        first_error (\<lambda>seg. guard (seg = ''.'' \<or> seg = ''..'') ''path traversal'') (SplitChar key CHR ''/'')]"

definition is_octal :: "char \<Rightarrow> bool" where
  "is_octal c = ((of_char c :: nat) \<in> {48..55})"

text \<open>\<open>strconv.ParseUint(s, 8, 32)\<close>.\<close>

definition ParseOctal :: "string \<Rightarrow> int option" where
  "ParseOctal s =
     (if s = [] \<or> \<not> list_all is_octal s then None
      else (let v = foldl (\<lambda>acc c. 8 * acc + (int (of_char c) - 48)) 0 s in if v < 2 ^ 32 then Some v else None))"

definition validateFileMode :: "string \<Rightarrow> string option" where
  "validateFileMode mode =
     (if mode = [] then None
      else if length mode < 3 \<or> length mode > 4 then Some ''mode must be 3 or 4 octal digits''
      else (case ParseOctal mode of
              None \<Rightarrow> Some ''mode is not octal''
            | Some v \<Rightarrow> guard (Bit_Operations.and v 0xE00 \<noteq> 0) ''mode must not set the setuid, setgid or sticky bit''))"

definition Delimiters_ok :: "string \<Rightarrow> string list \<Rightarrow> invalid option" where
  "Delimiters_ok name ds =
     (case ds of
        [] \<Rightarrow> None
      | [a, b] \<Rightarrow>
          first_some
            [guard (a = [] \<or> b = []) (Invalid ''config'' name ''delimiters must both be non-empty''),
             guard (a = b) (Invalid ''config'' name ''delimiters must differ'')]
      | _ \<Rightarrow> Some (Invalid ''config'' name ''delimiters must be exactly two entries''))"

definition validateConfig :: "string \<Rightarrow> ConfigSpec option \<Rightarrow> invalid option" where
  "validateConfig name spec =
     (case spec of
        None \<Rightarrow> Some NilPointer
      | Some c \<Rightarrow>
          first_some
            [guard (cf_Data c = []) (Invalid ''config'' name ''data must declare at least one file''),
             first_error (\<lambda>(k, v). first_some
               [map_option (Invalid ''config'' name) (validateConfigKey k),
                guard (int (length v) > MaxConfigFileBytes) (Invalid ''config'' name ''file is over the limit'')]) (cf_Data c),
             guard (sum_list (map (\<lambda>(_, v). int (length v)) (cf_Data c)) > MaxConfigTotalBytes)
               (Invalid ''config'' name ''total content is over the limit''),
             map_option (Invalid ''config'' name) (validateFileMode (cf_Mode c)),
             Delimiters_ok name (cf_Delimiters c)])"

section \<open>Jobs\<close>

definition validateRunTemplate ::
    "string \<Rightarrow> string \<Rightarrow> string list \<Rightarrow> string \<Rightarrow> string \<Rightarrow> int \<Rightarrow> int \<Rightarrow> SecuritySpec option \<Rightarrow> invalid option" where
  "validateRunTemplate kind name command img registry timeout history sec =
     first_some
       [guard (\<not> hasNonEmpty command) (Invalid kind name ''command is required''),
        guard (registry \<noteq> [] \<and> TrimSpace img = []) (Invalid kind name ''registry is only valid with image''),
        guard (timeout < 0 \<or> history < 0) (Invalid kind name ''timeoutSeconds and historyLimit must not be negative''),
        (case sec of
           None \<Rightarrow> None
         | Some s \<Rightarrow> (case NormalizeRunAsUser (se_RunAsUser s) of Inl e \<Rightarrow> Some (BadGrant kind name e) | Inr _ \<Rightarrow> None))]"

definition concurrencyPolicies :: "string list" where
  "concurrencyPolicies = [''allow'', ''forbid'', ''replace'']"

definition validateCronJob :: "(string \<Rightarrow> bool) \<Rightarrow> string \<Rightarrow> CronJobSpec option \<Rightarrow> invalid option" where
  "validateCronJob cron name spec =
     (case spec of
        None \<Rightarrow> Some (Invalid ''cronjob'' name ''spec is required'')
      | Some c \<Rightarrow>
          first_some
            [guard (TrimSpace (cj_App c) = []) (Invalid ''cronjob'' name ''app is required''),
             guard (TrimSpace (cj_Schedule c) = []) (Invalid ''cronjob'' name ''schedule is required''),
             guard (\<not> cron (cj_Schedule c)) (Invalid ''cronjob'' name ''invalid schedule''),
             guard (cj_ConcurrencyPolicy c \<noteq> [] \<and> cj_ConcurrencyPolicy c \<notin> set concurrencyPolicies)
               (Invalid ''cronjob'' name ''concurrencyPolicy''),
             validateRunTemplate ''cronjob'' name (cj_Command c) (cj_Image c) (cj_Registry c) (cj_TimeoutSeconds c)
               (cj_HistoryLimit c) (cj_Security c)])"

definition validateJob :: "string \<Rightarrow> JobSpec option \<Rightarrow> invalid option" where
  "validateJob name spec =
     (case spec of
        None \<Rightarrow> Some (Invalid ''job'' name ''spec is required'')
      | Some j \<Rightarrow>
          first_some
            [guard (TrimSpace (j_App j) = []) (Invalid ''job'' name ''app is required''),
             guard (Policy j \<notin> {''onChange'', ''once'', ''onRelease''}) (Invalid ''job'' name ''runPolicy''),
             guard (j_WaitForDeploy j \<noteq> None \<and> Policy j \<noteq> ''onChange'') (Invalid ''job'' name ''waitForDeploy''),
             guard (j_BackoffLimit j < 0 \<or> j_BackoffLimit j > maxBackoffLimit) (Invalid ''job'' name ''backoffLimit''),
             validateRunTemplate ''job'' name (j_Command j) (j_Image j) (j_Registry j) (j_TimeoutSeconds j)
               (j_HistoryLimit j) (j_Security j)])"

section \<open>Applications\<close>

definition validateSource :: "string \<Rightarrow> SourceSpec \<Rightarrow> invalid option" where
  "validateSource name src =
     first_some
       [guard (TrimSpace (so_Git src) = []) (Invalid ''application'' name ''source.git is required''),
        guard (so_BuildMethod src \<noteq> [] \<and> so_BuildMethod src \<notin> {''auto'', ''dockerfile'', ''buildpack''})
          (Invalid ''application'' name ''source.buildMethod''),
        guard (so_BuildMethod src = ''dockerfile'' \<and> (so_Builder src \<noteq> [] \<or> so_Buildpacks src \<noteq> []))
          (Invalid ''application'' name ''source.builder and source.buildpacks''),
        guard (so_Repository src \<noteq> [] \<and> \<not> resource_name (so_Repository src))
          (Invalid ''application'' name ''source.repository'')]"

definition validateHealthcheck :: "HealthcheckSpec option \<Rightarrow> string option" where
  "validateHealthcheck hc =
     (case hc of
        None \<Rightarrow> None
      | Some h \<Rightarrow>
          first_some
            [guard (h_Type h \<notin> {''image'', ''none'', ''http'', ''command''}) ''healthcheck.type'',
             guard (h_Type h = ''command'' \<and> TrimSpace (h_Command h) = []) ''healthcheck.command is required'',
             guard (h_Path h \<noteq> [] \<and> \<not> HasPrefix (h_Path h) ''/'') ''healthcheck.path must start with /'',
             guard (h_Port h < 0 \<or> h_Port h > 65535) ''healthcheck.port'',
             guard (h_IntervalSeconds h < 0 \<or> h_TimeoutSeconds h < 0 \<or> h_Retries h < 0 \<or> h_StartPeriodSeconds h < 0)
               ''healthcheck intervals and retries cannot be negative''])"

definition validateRuntime :: "string \<Rightarrow> ApplicationSpec \<Rightarrow> invalid option" where
  "validateRuntime name a =
     (let runtime = app_Runtime a; service = (runtime = ''service'')
      in first_some
           [guard (runtime \<noteq> [] \<and> runtime \<notin> {''container'', ''service''}) (Invalid ''application'' name ''deployment.runtime''),
            guard (\<not> service \<and> (app_Replicas a \<noteq> 0 \<or> app_Constraints a \<noteq> None \<or> app_Update a \<noteq> None))
              (Invalid ''application'' name ''service settings need deployment.runtime: service''),
            guard (app_Replicas a < 0 \<or> app_Replicas a > MaxServiceReplicas) (Invalid ''application'' name ''deployment.replicas''),
            guard (service \<and> app_Devices a \<noteq> []) (Invalid ''application'' name ''devices on a service''),
            first_error (\<lambda>c. guard (\<not> rx_match constraintRe (TrimSpace c)) (Invalid ''application'' name ''placement constraint''))
              (or_else (app_Constraints a) []),
            guard (case app_Update a of None \<Rightarrow> False | Some u \<Rightarrow> u_Parallelism u < 0 \<or> u_DelaySeconds u < 0)
              (Invalid ''application'' name ''deployment.update cannot be negative'')])"

definition check_port :: "string \<Rightarrow> PortSpec \<Rightarrow> invalid option" where
  "check_port name p =
     first_some
       [guard (po_Container p \<le> 0 \<or> po_Container p > 65535) (Invalid ''application'' name ''invalid container port''),
        guard (po_Scheme p \<noteq> ''http'' \<and> po_Scheme p \<noteq> ''https'') (Invalid ''application'' name ''port scheme''),
        guard (po_Protocol p \<noteq> ''tcp'' \<and> po_Protocol p \<noteq> ''udp'') (Invalid ''application'' name ''port protocol''),
        guard (po_HostPort p < 0 \<or> po_HostPort p > 65535) (Invalid ''application'' name ''hostPort out of range''),
        guard (po_ExternalAccess p \<and> po_Scheme p \<noteq> ''http'' \<and> po_Scheme p \<noteq> ''https'')
          (Invalid ''application'' name ''externalAccess needs http'')]"

definition check_grants :: "string \<Rightarrow> ApplicationSpec \<Rightarrow> invalid option" where
  "check_grants name a =
     (if a_Security a = None then None
      else case NormalizeCapabilities (app_AddCapabilities a) of
             Inl e \<Rightarrow> Some (BadGrant ''application'' name e)
           | Inr add \<Rightarrow>
               (case NormalizeDropCapabilities (app_DropCapabilities a) of
                  Inl e \<Rightarrow> Some (BadGrant ''application'' name e)
                | Inr drop_ \<Rightarrow>
                    (case CheckCapabilityConflict add drop_ of
                       Some e \<Rightarrow> Some (BadGrant ''application'' name e)
                     | None \<Rightarrow>
                         (case NormalizeDevices (app_Devices a) of
                            Inl e \<Rightarrow> Some (BadGrant ''application'' name e)
                          | Inr _ \<Rightarrow> None))))"

definition validateMount :: "string \<Rightarrow> MountSpec \<Rightarrow> invalid option" where
  "validateMount name mt =
     first_some
       [guard (mt_Volume mt = [] \<and> mt_Config mt = []) (Invalid ''application'' name ''mount must set volume or config''),
        guard (mt_Volume mt \<noteq> [] \<and> mt_Config mt \<noteq> []) (Invalid ''application'' name ''mount sets both volume and config''),
        guard (\<not> HasPrefix (mt_Path mt) ''/'') (Invalid ''application'' name ''mount path must be absolute''),
        (if mt_Config mt = [] then
           first_some
             [guard (mt_Key mt \<noteq> []) (Invalid ''application'' name ''mount key needs a config''),
              guard (mt_Mode mt \<noteq> []) (Invalid ''application'' name ''mount mode needs a config'')]
         else
           first_some
             [guard (\<not> resource_name (mt_Config mt)) (Invalid ''application'' name ''mount config''),
              (if mt_Key mt \<noteq> [] then
                 first_some
                   [map_option (Invalid ''application'' name) (validateConfigKey (mt_Key mt)),
                    guard (HasSuffix (mt_Path mt) ''/'') (Invalid ''application'' name ''mount path must be a file path'')]
               else None),
              (if mt_Mode mt \<noteq> [] then map_option (Invalid ''application'' name) (validateFileMode (mt_Mode mt)) else None)])]"

definition shadows :: "MountSpec list \<Rightarrow> nat \<Rightarrow> nat \<Rightarrow> bool" where
  "shadows ms i j =
     (let outer = TrimSuffix (mt_Path (ms ! i)) ''/''; inner = TrimSuffix (mt_Path (ms ! j)) ''/''
      in mt_Volume (ms ! i) \<noteq> [] \<and> i \<noteq> j \<and> outer \<noteq> [] \<and>
         inner \<noteq> [] \<and> inner \<noteq> outer \<and> HasPrefix inner (outer @ ''/''))"

definition validateMountOverlap :: "string \<Rightarrow> MountSpec list \<Rightarrow> invalid option" where
  "validateMountOverlap name ms =
     first_error (\<lambda>i. first_error (\<lambda>j. guard (shadows ms i j) (Invalid ''application'' name ''mount path is nested inside volume mount''))
       [0..<length ms]) [0..<length ms]"

definition check_resources :: "GoStd \<Rightarrow> string \<Rightarrow> ResourceSpec option \<Rightarrow> invalid option" where
  "check_resources g name spec =
     (case spec of
        None \<Rightarrow> None
      | Some r \<Rightarrow>
          first_some
            [guard (MemoryBytes g (rq_Memory r) = None) (Invalid ''application'' name ''invalid memory''),
             guard (NanoCPUs g (rq_CPU r) = None) (Invalid ''application'' name ''invalid cpu''),
             guard (rq_GPU r < 0 \<or> rq_GPU r > 64) (Invalid ''application'' name ''invalid gpu'')])"

definition check_image :: "string \<Rightarrow> ApplicationSpec \<Rightarrow> invalid option" where
  "check_image name a =
     first_some
       [(case (TrimSpace (a_Image a) \<noteq> [], a_Source a) of
           (False, None) \<Rightarrow> Some (Invalid ''application'' name ''one of image or source is required'')
         | (True, Some _) \<Rightarrow> Some (Invalid ''application'' name ''image and source are mutually exclusive'')
         | (False, Some src) \<Rightarrow> validateSource name src
         | (True, None) \<Rightarrow> None),
        guard (a_ImageDigest a \<noteq> [] \<and> \<not> HasPrefix (a_ImageDigest a) ''sha256:'') (Invalid ''application'' name ''digest'')]"

definition check_deprecated :: "string \<Rightarrow> ApplicationSpec \<Rightarrow> invalid option" where
  "check_deprecated name a =
     first_some
       [guard (a_DeprecatedStrategy a \<noteq> []) (Invalid ''application'' name ''strategy is the old spelling''),
        guard (a_DeprecatedRunAsUser a \<noteq> []) (Invalid ''application'' name ''runAsUser is the old spelling''),
        guard (case a_Security a of None \<Rightarrow> False | Some s \<Rightarrow> se_DeprecatedAddCapabilities s \<noteq> None)
          (Invalid ''application'' name ''security.addCapabilities is the old spelling'')]"

definition validateApplication :: "GoStd \<Rightarrow> string \<Rightarrow> ApplicationSpec option \<Rightarrow> invalid option" where
  "validateApplication g name spec =
     (case spec of
        None \<Rightarrow> Some (Invalid ''application'' name ''spec is required'')
      | Some a \<Rightarrow>
          first_some
            [check_deprecated name a,
             check_image name a,
             first_error (check_port name) (a_Ports a),
             (case NormalizeRunAsUser (app_RunAsUser a) of Inl e \<Rightarrow> Some (BadGrant ''application'' name e) | Inr _ \<Rightarrow> None),
             check_grants name a,
             map_option (Invalid ''application'' name) (validateHealthcheck (a_Healthcheck a)),
             guard (a_ExternalLabel a \<noteq> [] \<and> \<not> resource_name (a_ExternalLabel a)) (Invalid ''application'' name ''externalLabel''),
             guard (a_Registry a \<noteq> [] \<and> \<not> resource_name (a_Registry a)) (Invalid ''application'' name ''registry''),
             guard (app_Strategy a \<noteq> [] \<and> app_Strategy a \<notin> {''recreate'', ''rolling'', ''canary''})
               (Invalid ''application'' name ''deployment.strategy''),
             validateRuntime name a,
             guard (a_ReloadPolicy a \<noteq> [] \<and> a_ReloadPolicy a \<noteq> ''restart'' \<and> a_ReloadPolicy a \<noteq> ''none'')
               (Invalid ''application'' name ''reloadPolicy''),
             first_error (validateMount name) (a_Mounts a),
             validateMountOverlap name (a_Mounts a),
             first_error (\<lambda>k. guard (k \<notin> set (map fst (a_Env a))) (Invalid ''application'' name ''secretEnv is not declared in env''))
               (a_SecretEnv a),
             check_resources g name (a_Resources a)])"

section \<open>Every kind\<close>

definition validate_spec :: "GoStd \<Rightarrow> (string \<Rightarrow> bool) \<Rightarrow> Resource \<Rightarrow> invalid option" where
  "validate_spec g cron r =
     (let k = r_Kind r; name = r_Name r
      in if k = KindApplication then validateApplication g name (r_Application r)
         else if k = KindDatabase then validateDatabase g name (r_Database r)
         else if k = KindRoute then validateRoute name (r_Route r)
         else if k = KindDomain then validateDomain name (r_Domain r)
         else if k = KindRegistry then validateRegistry name (r_Registry r)
         else if k = KindGitSource then validateGitSource name (r_GitSource r)
         else if k = KindGitRepository then validateGitRepository name (r_GitRepository r)
         else if k = KindConfig then validateConfig name (r_Config r)
         else if k = KindMiddleware then validateMiddleware name (r_Middleware r)
         else if k = KindCronJob then validateCronJob cron name (r_CronJob r)
         else if k = KindJob then validateJob name (r_Job r)
         else if k = KindSealedSecret then validateSealedSecret name (r_SealedSecret r)
         else if k = KindStack then validateStack name (r_Stack r)
         else if k = KindVolume \<or> k = KindSecret \<or> k = KindProject then None
         else Some (Invalid k name ''unknown kind''))"

definition validate :: "GoStd \<Rightarrow> (string \<Rightarrow> bool) \<Rightarrow> Resource \<Rightarrow> invalid option" where
  "validate g cron r =
     first_some
       [(if r_Kind r = KindDomain
         then guard (\<not> rx_match hostnameRe (r_Name r)) (Invalid ''domain'' (r_Name r) ''metadata.name must be a valid hostname'')
         else guard (\<not> rx_match nameRe (r_Name r)) (Invalid (r_Kind r) (r_Name r) ''metadata.name'')),
        validateMeta (r_Kind r) (r_Metadata r),
        validate_spec g cron r]"

section \<open>File modes\<close>

lemma octal_special_bits: "0 \<le> v \<Longrightarrow> v < 4096 \<Longrightarrow> Bit_Operations.and v 0xE00 = 0 \<longleftrightarrow> v < (512 :: int)"
proof -
  assume v: "0 \<le> v" "v < 4096"
  have "Bit_Operations.and v (push_bit 9 (mask 3)) = push_bit 9 (Bit_Operations.and (drop_bit 9 v) (mask 3))"
    by (rule bit_eqI) (auto simp: bit_and_iff bit_push_bit_iff bit_drop_bit_eq)
  moreover have "push_bit 9 (mask 3) = (0xE00 :: int)"
    by (simp add: push_bit_eq_mult mask_eq_exp_minus_1)
  ultimately have "Bit_Operations.and v 0xE00 = v div 512 mod 8 * 512"
    by (simp add: push_bit_eq_mult drop_bit_eq_div take_bit_eq_mod flip: take_bit_eq_mask)
  moreover have "v div 512 mod 8 = v div 512" using v by simp
  ultimately show ?thesis using v by auto
qed

definition octal_digit :: "char \<Rightarrow> int" where
  "octal_digit c = int (of_char c) - 48"

lemma octal_digit_less: "is_octal c \<Longrightarrow> 0 \<le> octal_digit c \<and> octal_digit c < 8"
  by (auto simp: is_octal_def octal_digit_def)

lemma is_octal_zero: "is_octal c \<Longrightarrow> octal_digit c = 0 \<longleftrightarrow> c = CHR ''0''"
proof -
  assume "is_octal c"
  then have "octal_digit c = 0 \<longleftrightarrow> of_char c = (48 :: nat)" by (auto simp: is_octal_def octal_digit_def)
  also have "\<dots> \<longleftrightarrow> of_char c = (of_char CHR ''0'' :: nat)" by simp
  also have "\<dots> \<longleftrightarrow> c = CHR ''0''" by (rule of_char_eq_iff)
  finally show ?thesis .
qed

section \<open>Segments\<close>

lemma SplitChar_at: "SplitChar (s @ c # t) c = SplitChar s c @ SplitChar t c"
proof (induction s)
  case (Cons d s)
  obtain p ps where "SplitChar s c = p # ps" by (cases "SplitChar s c") simp_all
  then show ?case using Cons by simp
qed simp

lemma SplitChar_inj: "SplitChar s c = SplitChar t c \<Longrightarrow> s = t"
  using JoinStr_SplitChar by metis

lemma JoinStr_append:
  "xs \<noteq> [] \<Longrightarrow> ys \<noteq> [] \<Longrightarrow> JoinStr (xs @ ys) sep = JoinStr xs sep @ sep @ JoinStr ys sep"
  by (induction xs rule: induct_list012) (simp_all add: JoinStr_Cons)

text \<open>A path that continues another after a slash continues its segments.\<close>

lemma HasPrefix_segments:
  "HasPrefix t (s @ [c]) \<longleftrightarrow> strict_prefix (SplitChar s c) (SplitChar t c)"
proof
  assume "HasPrefix t (s @ [c])"
  then obtain r where "t = s @ c # r" by (auto simp: HasPrefix_iff)
  then show "strict_prefix (SplitChar s c) (SplitChar t c)"
    by (simp add: SplitChar_at strict_prefix_def)
next
  assume "strict_prefix (SplitChar s c) (SplitChar t c)"
  then obtain zs where "SplitChar t c = SplitChar s c @ zs" "zs \<noteq> []"
    by (auto simp: strict_prefix_def prefix_def)
  then have "t = s @ [c] @ JoinStr zs [c]"
    using JoinStr_append [of "SplitChar s c" zs "[c]"] JoinStr_SplitChar by (metis SplitChar_not_Nil)
  then show "HasPrefix t (s @ [c])" by (simp add: HasPrefix_iff)
qed

section \<open>Mounts\<close>

definition mount_segments :: "MountSpec \<Rightarrow> string list" where
  "mount_segments mt = SplitChar (TrimSuffix (mt_Path mt) ''/'') CHR ''/''"

section \<open>Characters of an accepted name\<close>

lemma alnum_plain [simp]: "alnum c \<Longrightarrow> plain_char c" "lower_alnum c \<Longrightarrow> plain_char c"
  by (auto simp: alnum_def lower_alnum_def is_digit_def is_alpha_def plain_char_def)

lemma alnum_not [simp]:
  "\<not> alnum CHR ''/''" "\<not> lower_alnum CHR ''/''" "\<not> alnum CHR ''.''" "\<not> lower_alnum CHR ''.''" "\<not> is_digit CHR ''/''"
  by (simp_all add: alnum_def lower_alnum_def is_digit_def is_alpha_def)

lemma rx_chars_Upto: "rx_chars (Upto n r) c \<Longrightarrow> rx_chars r c"
  by (induction n r rule: Upto.induct) auto

lemma plain_punctuation [simp]: "plain_char CHR '':''" "plain_char CHR ''_''"
  by (simp_all add: plain_char_def)

lemma server_chars:
  assumes "rx_match registryServerRe s" "c \<in> set s" shows "plain_char c \<and> c \<noteq> CHR ''/''"
proof -
  have "rx_chars registryServerRe c" using assms by (rule rx_match_chars)
  then consider "lower_alnum c" | "c = CHR ''-''" | "c = CHR ''.''" | "c = CHR '':''" | "is_digit c"
    unfolding registryServerRe_def hostnameRe_def hostLabelRe_def
    using rx_chars_Upto [of 5 "Cls is_digit" c] by simp blast
  then show ?thesis by cases auto
qed

lemma no_suffix_slash: "CHR ''/'' \<notin> set s \<Longrightarrow> \<not> HasSuffix s ''/''"
  by (metis HasSuffix_def in_set_dropD list.set_intros(1))

lemma TrimSuffix_absent: "\<not> HasSuffix s p \<Longrightarrow> TrimSuffix s p = s"
  by (simp add: TrimSuffix_def)

lemma TrimPrefix_absent: "\<not> HasPrefix s p \<Longrightarrow> TrimPrefix s p = s"
  by (simp add: TrimPrefix_def)

lemma normalizeRegistryServer_accepted:
  assumes "rx_match registryServerRe s" shows "normalizeRegistryServer s = s"
proof -
  have "list_all plain_char s" using server_chars [OF assms] by (simp add: list_all_iff)
  moreover have slash: "CHR ''/'' \<notin> set s" using server_chars [OF assms] by blast
  moreover have "\<not> HasPrefix s ''https://''" "\<not> HasPrefix s ''http://''"
    using slash unfolding HasPrefix_iff by auto
  moreover have "s \<noteq> []" using assms rx_match_not_Nil [OF assms]
    by (simp add: registryServerRe_def hostnameRe_def hostLabelRe_def)
  ultimately show ?thesis
    by (simp add: normalizeRegistryServer_def Let_def TrimSpace_plain TrimPrefix_absent TrimSuffix_absent no_suffix_slash)
qed

section \<open>Trimmed text\<close>

lemma TrimSpace_front: "q \<in> set space_seqs \<Longrightarrow> q \<noteq> [] \<Longrightarrow> \<not> HasPrefix (TrimSpace s) q"
proof -
  assume q: "q \<in> set space_seqs" "q \<noteq> []"
  obtain k where "TrimLeftSeqs (map rev space_seqs) (rev (TrimLeftSeqs space_seqs s)) = drop k (rev (TrimLeftSeqs space_seqs s))"
    unfolding TrimLeftSeqs_def using trim_left_fuel_drop by metis
  then obtain m where "TrimSpace s = take m (TrimLeftSeqs space_seqs s)"
    by (simp add: TrimSpace_def TrimRightSeqs_def rev_drop)
  then show ?thesis using q trim_left_fuel_done [of s "length s" q space_seqs] HasPrefix_take
    by (metis TrimLeftSeqs_def le_refl)
qed

lemma TrimSpace_fixed:
  assumes front: "\<And>q. q \<in> set space_seqs \<Longrightarrow> q \<noteq> [] \<Longrightarrow> \<not> HasPrefix s q"
    and ends: "s \<noteq> []" "plain_char (last s)"
  shows "TrimSpace s = s"
proof -
  have "TrimLeftSeqs space_seqs s = s"
    unfolding TrimLeftSeqs_def by (rule trim_left_fuel_none) (rule front)
  moreover have "TrimLeftSeqs (map rev space_seqs) (rev s) = rev s"
    unfolding TrimLeftSeqs_def
  proof (rule trim_left_fuel_none)
    fix q assume q: "q \<in> set (map rev space_seqs)" "q \<noteq> []"
    obtain x where "x \<in> set space_seqs" "q = rev x" using q by auto
    then have "\<not> plain_char (hd q)" using q space_seqs_bytes [of x "hd q"] hd_in_set [of q] by simp
    moreover have "hd (rev s) = last s" by (rule hd_rev)
    ultimately show "\<not> HasPrefix (rev s) q" using q ends unfolding HasPrefix_iff
      by (metis hd_append2)
  qed
  ultimately show ?thesis by (simp add: TrimSpace_def TrimRightSeqs_def)
qed

lemma TrimRightChar_take: "\<exists>k. TrimRightChar s c = take k s"
  unfolding TrimRightChar_def by (metis dropWhile_eq_drop rev_drop rev_rev_ident)

lemma TrimRightChar_last: "s = [] \<or> last s \<noteq> c \<Longrightarrow> TrimRightChar s c = s"
  by (cases s rule: rev_cases) (auto simp: TrimRightChar_def)

lemma lower_t: "lower_char c = CHR ''t'' \<Longrightarrow> plain_char c \<and> c \<noteq> CHR ''/''"
proof -
  assume t: "lower_char c = CHR ''t''"
  then have "of_char (lower_char c) = (116 :: nat)" by simp
  then have "of_char c = (116 :: nat) \<or> of_char c = (84 :: nat)"
    by (auto simp: lower_char_def split: if_splits)
  then show ?thesis by (auto simp: plain_char_def)
qed

lemma git_suffix_last: "HasSuffix (ToLower u) ''.git'' \<Longrightarrow> u \<noteq> [] \<and> lower_char (last u) = CHR ''t''"
proof -
  assume "HasSuffix (ToLower u) ''.git''"
  then obtain r where "ToLower u = r @ ''.git''" unfolding HasSuffix_def by (metis append_take_drop_id)
  then have "u \<noteq> []" "last (ToLower u) = CHR ''t''" by (auto simp: ToLower_def)
  then show ?thesis by (simp add: ToLower_def last_map)
qed

lemma git_url_fixed:
  assumes front: "\<And>q. q \<in> set space_seqs \<Longrightarrow> q \<noteq> [] \<Longrightarrow> \<not> HasPrefix u q"
    and git: "HasSuffix (ToLower u) ''.git''"
  shows "NormalizeGitURL u = u"
proof -
  have u: "u \<noteq> []" "plain_char (last u)" "last u \<noteq> CHR ''/''" using git_suffix_last [OF git] lower_t by auto
  then have "TrimSpace u = u" by (intro TrimSpace_fixed front) auto
  then show ?thesis using u git by (simp add: NormalizeGitURL_def TrimRightChar_last)
qed

lemma NormalizeGitURL_idem: "NormalizeGitURL (NormalizeGitURL raw) = NormalizeGitURL raw"
proof -
  let ?u = "TrimRightChar (TrimSpace raw) CHR ''/''"
  have front: "\<not> HasPrefix ?u q" if "q \<in> set space_seqs" "q \<noteq> []" for q
    using TrimRightChar_take [of "TrimSpace raw" "CHR ''/''"] TrimSpace_front [OF that] HasPrefix_take by metis
  consider "?u = []" | "HasSuffix (ToLower ?u) ''.git''" | "?u \<noteq> []" "\<not> HasSuffix (ToLower ?u) ''.git''" by blast
  then show ?thesis
  proof cases
    case 1
    then have "NormalizeGitURL raw = []" by (simp add: NormalizeGitURL_def)
    moreover have "NormalizeGitURL [] = []" by (simp add: NormalizeGitURL_def TrimSpace_plain TrimRightChar_def)
    ultimately show ?thesis by simp
  next
    case 2
    moreover have "NormalizeGitURL raw = ?u" using 2 by (simp add: NormalizeGitURL_def)
    ultimately show ?thesis using git_url_fixed [of ?u] front by metis
  next
    case 3
    then have raw: "NormalizeGitURL raw = ?u @ ''.git''" by (simp add: NormalizeGitURL_def)
    have "\<not> HasPrefix (?u @ ''.git'') q" if q: "q \<in> set space_seqs" "q \<noteq> []" for q
    proof
      assume p: "HasPrefix (?u @ ''.git'') q"
      show False
      proof (cases "length q \<le> length ?u")
        case True
        then show False using front [OF q] p by (simp add: HasPrefix_def)
      next
        case False
        then obtain n where "length q = length ?u + Suc n" using less_iff_Suc_add by (metis add_Suc_right not_le)
        then have "CHR ''.'' \<in> set (take (length q) (?u @ ''.git''))" by simp
        moreover have "take (length q) (?u @ ''.git'') = q" using p by (simp only: HasPrefix_def)
        ultimately have "CHR ''.'' \<in> set q" by (simp only:)
        then show False using space_seqs_bytes [OF q(1), of "CHR ''.''"] by simp
      qed
    qed
    moreover have "ToLower (?u @ ''.git'') = ToLower ?u @ ''.git''"
      by (simp add: ToLower_def lower_char_def)
    ultimately show ?thesis unfolding raw by (intro git_url_fixed) (simp_all add: HasSuffix_def)
  qed
qed

lemma TrimSpace_default_to: "TrimSpace d = d \<Longrightarrow> default_to d (TrimSpace (default_to d (TrimSpace s))) = default_to d (TrimSpace s)"
  by (simp add: default_to_def TrimSpace_idem)

section \<open>Normalising twice\<close>

lemma default_to_idem [simp]: "default_to d (default_to d s) = default_to d s"
  by (simp add: default_to_def)

lemma normalize_port_idem [simp]: "normalize_port (normalize_port p) = normalize_port p"
  by (simp add: normalize_port_def Let_def)

lemma normalize_mount_idem [simp]: "normalize_mount (normalize_mount m) = normalize_mount m"
  by (simp add: normalize_mount_def)

lemma normalize_gitrepository_idem [simp]: "normalize_gitrepository (normalize_gitrepository g) = normalize_gitrepository g"
  by (simp add: normalize_gitrepository_def Let_def NormalizeGitURL_idem)

lemma normalize_gitsource_idem [simp]: "normalize_gitsource (normalize_gitsource g) = normalize_gitsource g"
  by (simp add: normalize_gitsource_def TrimSpace_idem TrimSpace_default_to TrimSpace_plain plain_char_def)

lemma normalize_route_idem [simp]: "normalize_route (normalize_route t) = normalize_route t"
  by (simp add: normalize_route_def Let_def)

lemma normalize_database_idem [simp]: "normalize_database (normalize_database d) = normalize_database d"
  by (simp add: normalize_database_def Let_def split: option.splits)

lemma adopt_strategy_stable:
  "a_DeprecatedStrategy (adopt_strategy a) = [] \<or> app_Strategy (adopt_strategy a) \<noteq> []"
  by (simp add: adopt_strategy_def app_Strategy_def)


lemma adopt_app_simps [simp]:
  "a_DeprecatedStrategy (adopt_run_as a) = a_DeprecatedStrategy a" "app_Strategy (adopt_run_as a) = app_Strategy a"
  "a_DeprecatedStrategy (adopt_capabilities a) = a_DeprecatedStrategy a" "app_Strategy (adopt_capabilities a) = app_Strategy a"
  "a_DeprecatedRunAsUser (adopt_capabilities a) = a_DeprecatedRunAsUser a" "app_RunAsUser (adopt_capabilities a) = app_RunAsUser a"
  by (auto simp: adopt_run_as_def adopt_capabilities_def app_Strategy_def app_RunAsUser_def split: option.splits)

lemma adopt_run_as_stable:
  "a_DeprecatedRunAsUser (adopt_run_as a) = [] \<or> app_RunAsUser (adopt_run_as a) \<noteq> []"
  by (simp add: adopt_run_as_def app_RunAsUser_def)

lemma adopt_capabilities_fixed: "adopt_capabilities (adopt_capabilities a) = adopt_capabilities a"
  by (simp add: adopt_capabilities_def app_AddCapabilities_opt_def split: option.splits)

lemma adopt_noop:
  "a_DeprecatedStrategy a = [] \<or> app_Strategy a \<noteq> [] \<Longrightarrow> adopt_strategy a = a"
  "a_DeprecatedRunAsUser a = [] \<or> app_RunAsUser a \<noteq> [] \<Longrightarrow> adopt_run_as a = a"
  by (auto simp: adopt_strategy_def adopt_run_as_def)

lemma adoptDeprecated_idem: "adoptDeprecated (adoptDeprecated a) = adoptDeprecated a"
proof -
  let ?a = "adoptDeprecated a"
  have "adopt_strategy ?a = ?a"
    using adopt_strategy_stable [of a] by (intro adopt_noop) (simp add: adoptDeprecated_def)
  moreover have "adopt_run_as ?a = ?a"
    using adopt_run_as_stable [of "adopt_strategy a"] by (intro adopt_noop) (simp add: adoptDeprecated_def)
  moreover have "adopt_capabilities ?a = ?a" by (simp add: adoptDeprecated_def adopt_capabilities_fixed)
  ultimately show ?thesis by (simp add: adoptDeprecated_def)
qed

text \<open>Adopting an old spelling leaves the ports, mounts and reload policy alone.\<close>

lemma adoptDeprecated_keeps [simp]:
  "a_Ports (adoptDeprecated a) = a_Ports a" "a_Mounts (adoptDeprecated a) = a_Mounts a"
  "a_ReloadPolicy (adoptDeprecated a) = a_ReloadPolicy a"
  by (auto simp: adoptDeprecated_def adopt_strategy_def adopt_run_as_def adopt_capabilities_def split: option.splits)

lemma normalize_app_idem [simp]: "normalize_app (normalize_app a) = normalize_app a"
proof -
  have "(normalize_app a)\<lparr>a_Ports := map normalize_port (a_Ports (normalize_app a)),
          a_Mounts := map normalize_mount (a_Mounts (normalize_app a)),
          a_ReloadPolicy := (if a_ReloadPolicy (normalize_app a) = [] then ''restart'' else a_ReloadPolicy (normalize_app a))\<rparr> = normalize_app a"
    by (simp add: normalize_app_def comp_def)
  then show ?thesis by (simp add: normalize_app_def [of "normalize_app a"]) (simp add: normalize_app_def adoptDeprecated_idem)
qed

section \<open>The shape of a parsed resource\<close>

definition well_shaped :: "Resource \<Rightarrow> bool" where
  "well_shaped r =
     ((r_Application r \<noteq> None) = (r_Kind r = KindApplication) \<and>
      (r_Stack r \<noteq> None) = (r_Kind r = KindStack) \<and>
      (r_Database r \<noteq> None) = (r_Kind r = KindDatabase) \<and>
      (r_Volume r \<noteq> None) = (r_Kind r = KindVolume) \<and>
      (r_Route r \<noteq> None) = (r_Kind r = KindRoute) \<and>
      (r_Secret r \<noteq> None) = (r_Kind r = KindSecret) \<and>
      (r_SealedSecret r \<noteq> None) = (r_Kind r = KindSealedSecret) \<and>
      (r_Domain r \<noteq> None) = (r_Kind r = KindDomain) \<and>
      (r_Registry r \<noteq> None) = (r_Kind r = KindRegistry) \<and>
      (r_Config r \<noteq> None) = (r_Kind r = KindConfig) \<and>
      (r_Middleware r \<noteq> None) = (r_Kind r = KindMiddleware) \<and>
      (r_CronJob r \<noteq> None) = (r_Kind r = KindCronJob) \<and>
      (r_Job r \<noteq> None) = (r_Kind r = KindJob) \<and>
      (r_GitSource r \<noteq> None) = (r_Kind r = KindGitSource) \<and>
      (r_GitRepository r \<noteq> None) = (r_Kind r = KindGitRepository))"

lemma normalize_Kind [simp]: "r_Kind (normalize r) = r_Kind r" "r_Metadata (normalize r) = r_Metadata r"
  by (simp_all add: normalize_def split: option.split)

lemma validate_Registry:
  assumes "validate g cron r = None" and "r_Kind r = KindRegistry" and "r_Registry r = Some reg"
  shows "rx_match registryServerRe (rg_Server reg)"
  using assms by (simp add: validate_def validate_spec_def Let_def validateRegistry_def)

lemma normalize_normalize_other: "r_Registry r = None \<Longrightarrow> normalize (normalize r) = normalize r"
  by (simp add: normalize_def split: option.split)

lemma normalize_accepted:
  assumes shape: "well_shaped r" and ok: "validate g cron (normalize r) = None"
  shows "normalize (normalize r) = normalize r"
proof (cases "r_Registry r")
  case None
  then show ?thesis by (rule normalize_normalize_other)
next
  case (Some reg)
  then have kind: "r_Kind r = KindRegistry" using shape by (simp add: well_shaped_def)
  then have only: "r_Application r = None" "r_Config r = None" "r_Database r = None" "r_Route r = None" "r_Domain r = None"
    using shape by (simp_all add: well_shaped_def)
  have n: "normalize r = r\<lparr>r_Registry := Some (reg\<lparr>rg_Server := normalizeRegistryServer (rg_Server reg)\<rparr>)\<rparr>"
    using only Some by (simp add: normalize_def)
  have "rx_match registryServerRe (normalizeRegistryServer (rg_Server reg))"
    using validate_Registry [OF ok] kind n by simp
  then show ?thesis unfolding n using only
    by (simp add: normalize_def normalizeRegistryServer_accepted)
qed

section \<open>Keys of configuration files\<close>

lemma spells_segments:
  assumes "spells (Star (Cat (Lit c) (Many (Cls p)))) w" and "\<not> p c"
  shows "SplitChar (h @ w) c = butlast (SplitChar h c) @ last (SplitChar h c) # tl (SplitChar w c) \<and>
    (\<forall>x \<in> set (tl (SplitChar w c)). x \<noteq> [] \<and> list_all p x)"
  using assms
proof (induction "Star (Cat (Lit c) (Many (Cls p)))" w arbitrary: h rule: spells.induct)
  case spells_none
  then show ?case by simp
next
  case (spells_more s t)
  then obtain x where s: "s = c # x" "x \<noteq> []" "list_all p x" by (auto simp: spells_simps)
  then have no: "c \<notin> set x" using spells_more.prems by (auto simp: list_all_iff)
  have t: "SplitChar (x @ t) c = x # tl (SplitChar t c)" "\<forall>y \<in> set (tl (SplitChar t c)). y \<noteq> [] \<and> list_all p y"
    using spells_more.hyps(3) [OF spells_more.prems, of x] no by (simp_all add: SplitChar_none)
  have "SplitChar (h @ s @ t) c = SplitChar h c @ SplitChar (x @ t) c"
    using SplitChar_at [of h c "x @ t"] s(1) by simp
  moreover have "SplitChar (s @ t) c = [] # SplitChar (x @ t) c" using s(1) by simp
  moreover have "butlast (SplitChar h c) @ [last (SplitChar h c)] = SplitChar h c" by simp
  ultimately show ?case using t s by (simp del: SplitChar.simps)
qed

definition key_char :: "char \<Rightarrow> bool" where
  "key_char c = (alnum c \<or> c \<in> {CHR ''.'', CHR ''_'', CHR ''-''})"

lemma key_char_not [simp]: "\<not> key_char CHR ''/''" "\<not> key_char CHR 0x00"
  by (simp_all add: key_char_def) (simp add: alnum_def is_alpha_def is_digit_def)

lemma validateConfigKey_None:
  assumes "validateConfigKey k = None" and "seg \<in> set (SplitChar k CHR ''/'')"
  shows "seg \<noteq> [] \<and> seg \<noteq> ''.'' \<and> seg \<noteq> ''..'' \<and> list_all key_char seg"
proof -
  have re: "rx_match configKeyRe k" and dots: "seg \<noteq> ''.''" "seg \<noteq> ''..''"
    using assms by (simp_all add: validateConfigKey_def first_error_None)
  have "spells (Cat (Cls alnum) (Cat (Opt (Star (Cls key_char)))
      (Star (Cat (Lit CHR ''/'') (Many (Cls key_char)))))) k"
    using re unfolding rx_match_iff configKeyRe_def Let_def key_char_def [symmetric] .
  then obtain h u w where k: "k = h @ u @ w" and h: "spells (Cls alnum) h" and u: "spells (Opt (Star (Cls key_char))) u"
    and w: "spells (Star (Cat (Lit CHR ''/'') (Many (Cls key_char)))) w"
    by (elim spells_CatE) blast
  have cu: "list_all key_char (h @ u)" "h \<noteq> []" using h u by (auto simp: spells_simps key_char_def)
  then have "CHR ''/'' \<notin> set (h @ u)" using key_char_not(1) unfolding list_all_iff by blast
  then have "SplitChar k CHR ''/'' = (h @ u) # tl (SplitChar w CHR ''/'')"
    and "\<forall>x \<in> set (tl (SplitChar w CHR ''/'')). x \<noteq> [] \<and> list_all key_char x"
    using spells_segments [OF w, of "h @ u"] k by (simp_all add: SplitChar_none del: SplitChar.simps)
  then show ?thesis using assms(2) cu dots by auto
qed

section \<open>What the planner relies on\<close>

lemma validate_Application:
  assumes "validate g cron r = None" and "r_Kind r = KindApplication" and "r_Application r = Some a"
  shows "validateApplication g (r_Name r) (Some a) = None"
  using assms by (simp add: validate_def validate_spec_def Let_def)

section \<open>Names in references\<close>

lemma lower_alnum_ref: "lower_alnum c \<Longrightarrow> ref_char c"
  by (auto simp: lower_alnum_def ref_char_def is_alpha_def)

lemma resource_name_ref: "resource_name n \<Longrightarrow> n \<noteq> [] \<and> list_all ref_char n"
proof -
  assume n: "resource_name n"
  have "ref_char c" if "c \<in> set n" for c
    using rx_match_chars [of nameRe n c] n that lower_alnum_ref
    by (auto simp: resource_name_def nameRe_def ref_char_def)
  moreover have "n \<noteq> []" using n by (auto simp: resource_name_def nameRe_def)
  ultimately show ?thesis by (simp add: list_all_iff)
qed

section \<open>Samples\<close>

definition sample_mounts :: "MountSpec list" where
  "sample_mounts =
     [\<lparr>mt_Volume = ''data'', mt_Config = [], mt_Key = [], mt_Path = ''/data'', mt_Mode = [], mt_ReadOnly = False\<rparr>,
      \<lparr>mt_Volume = [], mt_Config = ''app'', mt_Key = [], mt_Path = ''/etc/app'', mt_Mode = [], mt_ReadOnly = True\<rparr>]"

definition sample_granted :: ApplicationSpec where
  "sample_granted =
     \<lparr>a_Source = None, a_Image = ''nginx'', a_ImageTag = [], a_ImageDigest = [], a_Command = [], a_Ports = [],
      a_Env = [], a_SecretEnv = [], a_Mounts = sample_mounts,
      a_Resources = Some \<lparr>rq_Memory = ''0'', rq_CPU = [], rq_GPU = 1, rq_GPUKind = []\<rparr>,
      a_Placement = None, a_Deployment = None,
      a_Security = Some \<lparr>se_RunAsUser = ''1000'', se_ReadOnlyRootFilesystem = False, se_NoNewPrivileges = None,
        se_Capabilities = Some \<lparr>cp_Add = Some [''NET_BIND_SERVICE''], cp_Drop = [''ALL'']\<rparr>, se_Devices = [''/dev/ttyUSB0''],
        se_DeprecatedAddCapabilities = None\<rparr>,
      a_Healthcheck = None, a_ContainerLabels = [], a_Stack = [], a_Registry = [], a_ExternalLabel = [],
      a_ReloadPolicy = ''restart'', a_ConfigFP = [], a_DeprecatedRunAsUser = [], a_DeprecatedStrategy = []\<rparr>"

definition sample_granted_app :: Resource where
  "sample_granted_app = (sample_resource KindApplication ''web'' [])\<lparr>r_Application := Some sample_granted\<rparr>"

lemma sample_granted_valid: "validate sample_std (\<lambda>_. True) sample_granted_app = None"
  by code_simp

section \<open>Properties\<close>

text \<open>An accepted application hides no error from the planner. Its capabilities, dropped capabilities,
  devices and account normalise, no capability is both added and dropped, and its memory and CPU are
  quantities; so the comparison of a plan, which falls back silently on an error, never does. A device
  is never asked for on a service.\<close>

theorem accepted_application_hides_no_error:
  assumes "validate g cron r = None" and "r_Kind r = KindApplication" and "r_Application r = Some a"
  shows "(\<exists>add. NormalizeCapabilities (app_AddCapabilities a) = Inr add \<and>
      (\<exists>drops. NormalizeDropCapabilities (app_DropCapabilities a) = Inr drops \<and> set add \<inter> set drops = {})) \<and>
    (\<exists>devs. NormalizeDevices (app_Devices a) = Inr devs) \<and>
    (\<exists>u. NormalizeRunAsUser (app_RunAsUser a) = Inr u) \<and>
    (\<forall>q. a_Resources a = Some q \<longrightarrow> MemoryBytes g (rq_Memory q) \<noteq> None \<and> NanoCPUs g (rq_CPU q) \<noteq> None) \<and>
    (app_Devices a \<noteq> [] \<longrightarrow> app_Runtime a \<noteq> ''service'')"
proof -
  have ok: "validateApplication g (r_Name r) (Some a) = None" using assms by (rule validate_Application)
  have grants: "check_grants (r_Name r) a = None" and user: "\<exists>u. NormalizeRunAsUser (app_RunAsUser a) = Inr u"
    and res: "check_resources g (r_Name r) (a_Resources a) = None" and rt: "validateRuntime (r_Name r) a = None"
    using ok by (auto simp: validateApplication_def split: sum.splits)
  have "\<exists>add drops devs. NormalizeCapabilities (app_AddCapabilities a) = Inr add \<and>
      NormalizeDropCapabilities (app_DropCapabilities a) = Inr drops \<and> set add \<inter> set drops = {} \<and>
      NormalizeDevices (app_Devices a) = Inr devs"
  proof (cases "a_Security a")
    case None
    then show ?thesis
      by (simp add: app_AddCapabilities_def app_AddCapabilities_opt_def app_DropCapabilities_def app_Devices_def
          NormalizeCapabilities_def NormalizeDropCapabilities_def NormalizeDevices_def MaxCapabilities_def MaxDevices_def)
  next
    case (Some s)
    then show ?thesis using grants
      by (auto simp: check_grants_def CheckCapabilityConflict_def find_None_iff split: sum.splits option.splits)
  qed
  moreover have "\<forall>q. a_Resources a = Some q \<longrightarrow> MemoryBytes g (rq_Memory q) \<noteq> None \<and> NanoCPUs g (rq_CPU q) \<noteq> None"
    using res by (auto simp: check_resources_def)
  moreover have "app_Devices a \<noteq> [] \<longrightarrow> app_Runtime a \<noteq> ''service''"
    using rt by (auto simp: validateRuntime_def Let_def)
  ultimately show ?thesis using user by blast
qed

theorem accepted_application_hides_no_error_witness:
  "\<exists>devs. NormalizeDevices [''/dev/ttyUSB0''] = Inr devs"
  using accepted_application_hides_no_error [OF sample_granted_valid, of sample_granted]
  by (simp add: sample_granted_app_def sample_granted_def sample_resource_def app_Devices_def)

text \<open>The mounts of an application pass the overlap check exactly when no mount lies strictly inside a
  volume, segment by segment of the paths as they are written; the volume at the root is left out.\<close>

theorem no_mount_inside_a_volume:
  "validateMountOverlap name ms = None \<longleftrightarrow>
     (\<forall>i < length ms. \<forall>j < length ms. i \<noteq> j \<longrightarrow> mt_Volume (ms ! i) \<noteq> [] \<longrightarrow>
        TrimSuffix (mt_Path (ms ! i)) ''/'' \<noteq> [] \<longrightarrow>
        \<not> strict_prefix (mount_segments (ms ! i)) (mount_segments (ms ! j)))"
proof -
  have "shadows ms i j \<longleftrightarrow> i \<noteq> j \<and> mt_Volume (ms ! i) \<noteq> [] \<and> TrimSuffix (mt_Path (ms ! i)) ''/'' \<noteq> [] \<and>
      strict_prefix (mount_segments (ms ! i)) (mount_segments (ms ! j))" for i j
    unfolding shadows_def mount_segments_def Let_def HasPrefix_segments [symmetric]
    by (auto simp: HasPrefix_iff)
  then show ?thesis
    unfolding validateMountOverlap_def first_error_None guard_None
    by (simp only: Ball_def set_upt atLeastLessThan_iff) blast
qed

theorem no_mount_inside_a_volume_witness:
  "\<not> strict_prefix (mount_segments (sample_mounts ! 0)) (mount_segments (sample_mounts ! 1))"
proof -
  have "validateMountOverlap ''web'' sample_mounts = None" by code_simp
  then have *: "\<forall>i < length sample_mounts. \<forall>j < length sample_mounts. i \<noteq> j \<longrightarrow> mt_Volume (sample_mounts ! i) \<noteq> [] \<longrightarrow>
      TrimSuffix (mt_Path (sample_mounts ! i)) ''/'' \<noteq> [] \<longrightarrow>
      \<not> strict_prefix (mount_segments (sample_mounts ! i)) (mount_segments (sample_mounts ! j))"
    unfolding no_mount_inside_a_volume .
  have "0 < length sample_mounts" "1 < length sample_mounts" "mt_Volume (sample_mounts ! 0) \<noteq> []"
    "TrimSuffix (mt_Path (sample_mounts ! 0)) ''/'' \<noteq> []" by code_simp+
  then show ?thesis using * zero_neq_one by blast
qed

text \<open>Which file modes are accepted: none, three octal digits, or four of which the first is zero. So the
  set-user, set-group and sticky bits can never be asked for.\<close>

theorem file_mode_equivalence:
  "validateFileMode m = None \<longleftrightarrow>
     m = [] \<or> (list_all is_octal m \<and> (length m = 3 \<or> (length m = 4 \<and> hd m = CHR ''0'')))"
proof (cases "length m = 3 \<or> length m = 4")
  case False
  then show ?thesis by (auto simp: validateFileMode_def)
next
  case True
  show ?thesis
  proof (cases "list_all is_octal m")
    case False
    with True show ?thesis by (auto simp: validateFileMode_def ParseOctal_def)
  next
    case octal: True
    from True consider a b c where "m = [a, b, c]" | a b c d where "m = [a, b, c, d]"
      by (auto simp: numeral_3_eq_3 numeral_eq_Suc length_Suc_conv)
    then show ?thesis
    proof cases
      case 1
      let ?v = "(octal_digit a * 8 + octal_digit b) * 8 + octal_digit c"
      have "0 \<le> ?v \<and> ?v < 512" using octal octal_digit_less [of a] octal_digit_less [of b] octal_digit_less [of c] 1 by simp
      moreover have "ParseOctal m = Some ?v"
        using octal 1 calculation by (simp add: ParseOctal_def octal_digit_def mult.commute add.commute)
      ultimately show ?thesis using octal 1 octal_special_bits [of ?v] by (simp add: validateFileMode_def)
    next
      case 2
      let ?v = "((octal_digit a * 8 + octal_digit b) * 8 + octal_digit c) * 8 + octal_digit d"
      have digits: "0 \<le> octal_digit a \<and> octal_digit a < 8" "0 \<le> octal_digit b \<and> octal_digit b < 8"
          "0 \<le> octal_digit c \<and> octal_digit c < 8" "0 \<le> octal_digit d \<and> octal_digit d < 8" "is_octal a"
        using octal octal_digit_less 2 by simp_all
      then have "0 \<le> ?v \<and> ?v < 4096" and *: "?v < 512 \<longleftrightarrow> octal_digit a = 0" by auto
      moreover have "ParseOctal m = Some ?v"
        using octal 2 calculation by (simp add: ParseOctal_def octal_digit_def mult.commute add.commute)
      ultimately show ?thesis
        using octal 2 octal_special_bits [of ?v] is_octal_zero [OF digits(5)] by (simp add: validateFileMode_def)
    qed
  qed
qed

end
