(* ===== verification/Manifest_Parse.thy ===== *)
theory Manifest_Parse
  imports Manifest_Validation
begin

text \<open>
  From documents to a resource set, \<^verbatim>\<open>internal/declarative/parse.go\<close>: documents and the children of a
  project become resources, each is normalised, validated and added under its key, and the references
  of the whole set are checked. The lemmas show that parsing is all or nothing, that a parsed set
  holds exactly the normalised resources of its documents in order, and that a bundle means the same
  in one file as in several.

  YAML itself is third-party code: a document carries what decoding it strictly gives, its head, its
  metadata, and its spec read as the type of a kind, each of which may fail.
\<close>

section \<open>Documents\<close>

datatype Spec =
    SApplication ApplicationSpec
  | SStack StackSpec
  | SDatabase DatabaseSpec
  | SVolume VolumeSpec
  | SRoute RouteSpec
  | SSecret SecretSpec
  | SSealedSecret SealedSecretSpec
  | SConfig ConfigSpec
  | SMiddleware MiddlewareSpec
  | SCronJob CronJobSpec
  | SJob JobSpec
  | SDomain DomainSpec
  | SGitRepository GitRepositorySpec
  | SGitSource GitSourceSpec
  | SRegistry RegistrySpec
  | SProject

fun spec_kind :: "Spec \<Rightarrow> Kind" where
  "spec_kind (SApplication _) = KindApplication"
| "spec_kind (SStack _) = KindStack"
| "spec_kind (SDatabase _) = KindDatabase"
| "spec_kind (SVolume _) = KindVolume"
| "spec_kind (SRoute _) = KindRoute"
| "spec_kind (SSecret _) = KindSecret"
| "spec_kind (SSealedSecret _) = KindSealedSecret"
| "spec_kind (SConfig _) = KindConfig"
| "spec_kind (SMiddleware _) = KindMiddleware"
| "spec_kind (SCronJob _) = KindCronJob"
| "spec_kind (SJob _) = KindJob"
| "spec_kind (SDomain _) = KindDomain"
| "spec_kind (SGitRepository _) = KindGitRepository"
| "spec_kind (SGitSource _) = KindGitSource"
| "spec_kind (SRegistry _) = KindRegistry"
| "spec_kind SProject = KindProject"

record Head =
  hd_APIVersion :: string
  hd_Kind :: Kind
  hd_Metadata :: "Meta option"
  hd_Spec :: "Kind \<Rightarrow> Spec option"

text \<open>A document, with the resources a project lists.\<close>

datatype Node = Node "Head option" "Node list"

datatype Doc = Broken | Empty | Document Node

datatype parse_error =
    DecodeDocument
  | BadAPIVersion string
  | UnknownKind string
  | DecodeMetadata Kind
  | DecodeSpec Kind string
  | InProject string parse_error
  | ParseYAML
  | Rejected invalid
  | DuplicateResource string
  | BadReference ref_error
  | InFile string parse_error
  | ReadFile string
  | WalkManifests
  | ErrNoResources

definition bare_resource :: "Kind \<Rightarrow> Meta \<Rightarrow> Resource" where
  "bare_resource k m =
     \<lparr>r_Kind = k, r_Metadata = m, r_Application = None, r_Stack = None, r_Database = None, r_Volume = None,
      r_Route = None, r_Secret = None, r_SealedSecret = None, r_Domain = None, r_Registry = None,
      r_Config = None, r_Middleware = None, r_CronJob = None, r_Job = None, r_GitSource = None,
      r_GitRepository = None\<rparr>"

fun with_spec :: "Spec \<Rightarrow> Resource \<Rightarrow> Resource" where
  "with_spec (SApplication x) r = r\<lparr>r_Application := Some x\<rparr>"
| "with_spec (SStack x) r = r\<lparr>r_Stack := Some x\<rparr>"
| "with_spec (SDatabase x) r = r\<lparr>r_Database := Some x\<rparr>"
| "with_spec (SVolume x) r = r\<lparr>r_Volume := Some x\<rparr>"
| "with_spec (SRoute x) r = r\<lparr>r_Route := Some x\<rparr>"
| "with_spec (SSecret x) r = r\<lparr>r_Secret := Some x\<rparr>"
| "with_spec (SSealedSecret x) r = r\<lparr>r_SealedSecret := Some x\<rparr>"
| "with_spec (SConfig x) r = r\<lparr>r_Config := Some x\<rparr>"
| "with_spec (SMiddleware x) r = r\<lparr>r_Middleware := Some x\<rparr>"
| "with_spec (SCronJob x) r = r\<lparr>r_CronJob := Some x\<rparr>"
| "with_spec (SJob x) r = r\<lparr>r_Job := Some x\<rparr>"
| "with_spec (SDomain x) r = r\<lparr>r_Domain := Some x\<rparr>"
| "with_spec (SGitRepository x) r = r\<lparr>r_GitRepository := Some x\<rparr>"
| "with_spec (SGitSource x) r = r\<lparr>r_GitSource := Some x\<rparr>"
| "with_spec (SRegistry x) r = r\<lparr>r_Registry := Some x\<rparr>"
| "with_spec SProject r = r"

section \<open>Parsing\<close>

definition APIVersion :: string where "APIVersion = ''miabi.io/v1''"

text \<open>The resource of a head, before its children.\<close>

definition parse_head :: "Head option \<Rightarrow> parse_error + Resource" where
  "parse_head h =
     (case h of
        None \<Rightarrow> Inl DecodeDocument
      | Some d \<Rightarrow>
          if hd_APIVersion d \<noteq> APIVersion then Inl (BadAPIVersion (hd_APIVersion d))
          else if hd_Kind d \<notin> set knownKinds then Inl (UnknownKind (hd_Kind d))
          else case hd_Metadata d of
                 None \<Rightarrow> Inl (DecodeMetadata (hd_Kind d))
               | Some meta \<Rightarrow>
                   (case hd_Spec d (hd_Kind d) of
                      None \<Rightarrow> Inl (DecodeSpec (hd_Kind d) (m_Name meta))
                    | Some s \<Rightarrow> Inr (with_spec s (bare_resource (hd_Kind d) meta))))"

fun parseNode :: "Node \<Rightarrow> parse_error + Resource list"
  and parseChildren :: "string \<Rightarrow> Node list \<Rightarrow> parse_error + Resource list" where
  "parseNode (Node h children) =
     (case parse_head h of
        Inl e \<Rightarrow> Inl e
      | Inr r \<Rightarrow>
          if r_Kind r = KindProject
          then (case parseChildren (r_Name r) children of Inl e \<Rightarrow> Inl e | Inr rs \<Rightarrow> Inr (r # rs))
          else Inr [r])"
| "parseChildren name [] = Inr []"
| "parseChildren name (n # ns) =
     (case parseNode n of
        Inl e \<Rightarrow> Inl (InProject name e)
      | Inr rs \<Rightarrow> (case parseChildren name ns of Inl e \<Rightarrow> Inl e | Inr rs' \<Rightarrow> Inr (rs @ rs')))"

fun parseStream :: "Doc list \<Rightarrow> parse_error + Resource list" where
  "parseStream [] = Inr []"
| "parseStream (Broken # ds) = Inl ParseYAML"
| "parseStream (Empty # ds) = parseStream ds"
| "parseStream (Document n # ds) =
     (case parseNode n of
        Inl e \<Rightarrow> Inl e
      | Inr rs \<Rightarrow> (case parseStream ds of Inl e \<Rightarrow> Inl e | Inr rs' \<Rightarrow> Inr (rs @ rs')))"

text \<open>The loop over the parsed resources.\<close>

fun admit :: "GoStd \<Rightarrow> (string \<Rightarrow> bool) \<Rightarrow> Resource list \<Rightarrow> ResourceSet \<Rightarrow> parse_error + ResourceSet" where
  "admit g cron [] s = Inr s"
| "admit g cron (r0 # rs) s =
     (let r = normalize r0
      in case validate g cron r of
           Some e \<Rightarrow> Inl (Rejected e)
         | None \<Rightarrow>
             if rs_Get s (Key r) \<noteq> None then Inl (DuplicateResource (Key r))
             else admit g cron rs (rs_Add r s))"

definition Parse :: "GoStd \<Rightarrow> (string \<Rightarrow> bool) \<Rightarrow> Doc list \<Rightarrow> parse_error + ResourceSet" where
  "Parse g cron docs =
     (case parseStream docs of
        Inl e \<Rightarrow> Inl e
      | Inr rs \<Rightarrow>
          (case admit g cron rs NewResourceSet of
             Inl e \<Rightarrow> Inl e
           | Inr s \<Rightarrow> (case validateReferences s of Some e \<Rightarrow> Inl (BadReference e) | None \<Rightarrow> Inr s)))"

text \<open>A directory: the manifest files with their content, \<open>None\<close> when one cannot be read.\<close>

type_synonym ManifestFile = "string \<times> Doc list option"

fun parse_files :: "GoStd \<Rightarrow> (string \<Rightarrow> bool) \<Rightarrow> ManifestFile list \<Rightarrow> ResourceSet \<Rightarrow> parse_error + ResourceSet" where
  "parse_files g cron [] s = Inr s"
| "parse_files g cron ((f, None) # fs) s = Inl (ReadFile f)"
| "parse_files g cron ((f, Some docs) # fs) s =
     (case parseStream docs of
        Inl e \<Rightarrow> Inl (InFile f e)
      | Inr rs \<Rightarrow> (case admit g cron rs s of Inl e \<Rightarrow> Inl (InFile f e) | Inr s' \<Rightarrow> parse_files g cron fs s'))"

definition manifest_file :: "string \<Rightarrow> bool" where
  "manifest_file p = (HasSuffix (ToLower p) ''.yaml'' \<or> HasSuffix (ToLower p) ''.yml'')"

definition ParseFS :: "GoStd \<Rightarrow> (string \<Rightarrow> bool) \<Rightarrow> ManifestFile list option \<Rightarrow> parse_error + ResourceSet" where
  "ParseFS g cron walked =
     (case walked of
        None \<Rightarrow> Inl WalkManifests
      | Some files \<Rightarrow>
          (case parse_files g cron (sort_key fst (filter (\<lambda>(p, _). manifest_file p) files)) NewResourceSet of
             Inl e \<Rightarrow> Inl e
           | Inr s \<Rightarrow>
               if rs_Len s = 0 then Inl ErrNoResources
               else (case validateReferences s of Some e \<Rightarrow> Inl (BadReference e) | None \<Rightarrow> Inr s)))"

section \<open>Parsed resources\<close>

text \<open>Decoding a spec as the type of a kind gives a spec of that kind.\<close>

fun typed_node :: "Node \<Rightarrow> bool" where
  "typed_node (Node h children) =
     ((case h of None \<Rightarrow> True | Some d \<Rightarrow>
         (case hd_Spec d (hd_Kind d) of None \<Rightarrow> True | Some s \<Rightarrow> spec_kind s = hd_Kind d)) \<and>
      list_all typed_node children)"

fun typed_doc :: "Doc \<Rightarrow> bool" where
  "typed_doc (Document n) = typed_node n"
| "typed_doc _ = True"

lemma with_spec_shaped: "spec_kind s = k \<Longrightarrow> well_shaped (with_spec s (bare_resource k m))"
  by (cases s) (auto simp: well_shaped_def bare_resource_def)

lemma Key_normalize [simp]: "Key (normalize r) = Key r"
  by (simp add: Key_def)

lemma rs_All_Add_new: "rs_Get s (Key r) = None \<Longrightarrow> rs_All (rs_Add r s) = rs_All s @ [r]"
  by (simp add: rs_Get_def rs_All_def rs_Add_def split: option.splits)

lemma admit_Inr:
  "rs_inv s \<Longrightarrow> admit g cron rs s = Inr s' \<longleftrightarrow>
     list_all (\<lambda>r. validate g cron (normalize r) = None) rs \<and> distinct (map Key rs) \<and>
     (\<forall>r \<in> set rs. rs_Get s (Key r) = None) \<and> s' = fold rs_Add (map normalize rs) s"
proof (induction rs arbitrary: s)
  case (Cons r rs)
  have "admit g cron (r # rs) s = Inr s' \<longleftrightarrow> validate g cron (normalize r) = None \<and> rs_Get s (Key r) = None \<and>
      admit g cron rs (rs_Add (normalize r) s) = Inr s'"
    by (auto simp: Let_def split: option.split)
  also have "\<dots> \<longleftrightarrow> validate g cron (normalize r) = None \<and> rs_Get s (Key r) = None \<and>
      list_all (\<lambda>r. validate g cron (normalize r) = None) rs \<and> distinct (map Key rs) \<and>
      (\<forall>x \<in> set rs. rs_Get (rs_Add (normalize r) s) (Key x) = None) \<and>
      s' = fold rs_Add (map normalize rs) (rs_Add (normalize r) s)"
    using Cons.IH [OF rs_Add_inv [OF Cons.prems]] by simp
  also have "(\<forall>x \<in> set rs. rs_Get (rs_Add (normalize r) s) (Key x) = None) \<longleftrightarrow>
      Key r \<notin> Key ` set rs \<and> (\<forall>x \<in> set rs. rs_Get s (Key x) = None)"
    using rs_Get_Add [OF Cons.prems] by (metis (no_types, lifting) Key_normalize image_iff option.distinct(1))
  finally show ?case by auto
qed auto

lemma fold_Add_new:
  "rs_inv s \<Longrightarrow> distinct (map Key rs) \<Longrightarrow> (\<forall>r \<in> set rs. rs_Get s (Key r) = None) \<Longrightarrow>
   rs_inv (fold rs_Add rs s) \<and> rs_All (fold rs_Add rs s) = rs_All s @ rs"
proof (induction rs arbitrary: s)
  case (Cons r rs)
  have "\<forall>x \<in> set rs. rs_Get (rs_Add r s) (Key x) = None"
    using rs_Get_Add [OF Cons.prems(1)] Cons.prems(2,3) by (metis distinct.simps(2) image_eqI list.set_intros(2) list.set_map list.simps(9))
  then show ?case using Cons.IH [of "rs_Add r s"] Cons.prems by (simp add: rs_Add_inv rs_All_Add_new)
qed simp

lemma new_set: "rs_inv NewResourceSet" "rs_Get NewResourceSet k = None" "rs_All NewResourceSet = []"
  using rs.wf_new rs.get_new by (simp_all add: rs_All_def NewResourceSet_def)

lemma Parse_Inr:
  "Parse g cron docs = Inr s \<longleftrightarrow>
     (\<exists>rs. parseStream docs = Inr rs \<and> list_all (\<lambda>r. validate g cron (normalize r) = None) rs \<and>
        distinct (map Key rs) \<and> s = fold rs_Add (map normalize rs) NewResourceSet \<and> validateReferences s = None)"
proof (cases "parseStream docs")
  case (Inr rs)
  have "Parse g cron docs = Inr s \<longleftrightarrow> admit g cron rs NewResourceSet = Inr s \<and> validateReferences s = None"
    unfolding Parse_def Inr by (auto split: sum.split option.split)
  then show ?thesis unfolding admit_Inr [OF new_set(1)] using Inr new_set(2) by auto
qed (simp add: Parse_def)

section \<open>Shapes\<close>

lemma parse_head_shaped: "typed_node (Node h cs) \<Longrightarrow> parse_head h = Inr r \<Longrightarrow> well_shaped r"
  by (auto simp: parse_head_def intro: with_spec_shaped split: option.splits if_splits)

lemma parsed_shaped:
  "typed_node n \<Longrightarrow> parseNode n = Inr rs \<Longrightarrow> list_all well_shaped rs"
  "list_all typed_node ns \<Longrightarrow> parseChildren name ns = Inr rs \<Longrightarrow> list_all well_shaped rs"
proof (induction n and name ns arbitrary: rs and rs rule: parseNode_parseChildren.induct)
  case (1 h children)
  then show ?case using parse_head_shaped [OF 1(2)] by (auto split: sum.splits if_splits)
next
  case (3 name n ns)
  then show ?case by (auto split: sum.splits)
qed simp

lemma stream_shaped: "list_all typed_doc docs \<Longrightarrow> parseStream docs = Inr rs \<Longrightarrow> list_all well_shaped rs"
proof (induction docs arbitrary: rs rule: parseStream.induct)
  case (4 n ds)
  then show ?case using parsed_shaped(1) [of n] by (auto split: sum.splits)
qed simp_all

section \<open>One file or several\<close>

definition accepted :: "'e + 'a \<Rightarrow> 'a option" where
  "accepted r = (case r of Inl _ \<Rightarrow> None | Inr x \<Rightarrow> Some x)"

lemma accepted_simps [simp]: "accepted (Inr x) = Some x" "accepted (Inl e) = None"
  by (simp_all add: accepted_def)

lemma accepted_Some [simp]: "accepted r = Some x \<longleftrightarrow> r = Inr x"
  by (cases r) simp_all

lemma parseStream_append:
  "accepted (parseStream (xs @ ys)) =
     (case accepted (parseStream xs) of None \<Rightarrow> None
      | Some rs \<Rightarrow> map_option (\<lambda>rs'. rs @ rs') (accepted (parseStream ys)))"
  by (induction xs rule: parseStream.induct) (auto simp: accepted_def split: sum.splits option.splits)

lemma admit_append:
  "admit g cron (xs @ ys) s = (case admit g cron xs s of Inl e \<Rightarrow> Inl e | Inr s' \<Rightarrow> admit g cron ys s')"
  by (induction xs arbitrary: s) (auto simp: Let_def split: option.split)

text \<open>The documents of a list of readable files, in order.\<close>

fun file_docs :: "ManifestFile list \<Rightarrow> Doc list" where
  "file_docs [] = []"
| "file_docs ((f, docs) # fs) = (case docs of None \<Rightarrow> [Broken] | Some d \<Rightarrow> d) @ file_docs fs"

definition admit_stream :: "GoStd \<Rightarrow> (string \<Rightarrow> bool) \<Rightarrow> Doc list \<Rightarrow> ResourceSet \<Rightarrow> ResourceSet option" where
  "admit_stream g cron docs s =
     (case accepted (parseStream docs) of None \<Rightarrow> None | Some rs \<Rightarrow> accepted (admit g cron rs s))"

lemma parse_files_stream: "accepted (parse_files g cron fs s) = admit_stream g cron (file_docs fs) s"
proof (induction g cron fs s rule: parse_files.induct)
  case (3 g cron f docs fs s)
  show ?case
  proof (cases "parseStream docs")
    case (Inl e)
    then show ?thesis by (simp add: admit_stream_def parseStream_append)
  next
    case (Inr rs)
    show ?thesis
    proof (cases "admit g cron rs s")
      case (Inl e)
      with Inr show ?thesis
        by (cases "accepted (parseStream (file_docs fs))") (simp_all add: admit_stream_def parseStream_append admit_append)
    next
      case ad: (Inr s')
      with Inr 3 [OF Inr ad] show ?thesis
        by (cases "accepted (parseStream (file_docs fs))") (simp_all add: admit_stream_def parseStream_append admit_append)
    qed
  qed
qed (simp_all add: admit_stream_def parseStream_append)

section \<open>Samples\<close>

definition sample_domain_doc :: Doc where
  "sample_domain_doc = Document (Node (Some \<lparr>hd_APIVersion = ''miabi.io/v1'', hd_Kind = KindDomain,
     hd_Metadata = Some \<lparr>m_Name = ''example.com'', m_UID = [], m_Labels = [(''team'', ''web'')], m_Annotations = []\<rparr>,
     hd_Spec = (\<lambda>k. if k = KindDomain then Some (SDomain \<lparr>dm_TLS = [], dm_Wildcard = False\<rparr>) else None)\<rparr>) [])"

definition sample_project_doc :: Doc where
  "sample_project_doc = Document (Node (Some \<lparr>hd_APIVersion = ''miabi.io/v1'', hd_Kind = KindProject,
     hd_Metadata = Some \<lparr>m_Name = ''shop'', m_UID = [], m_Labels = [], m_Annotations = []\<rparr>,
     hd_Spec = (\<lambda>_. Some SProject)\<rparr>)
     [Node (Some \<lparr>hd_APIVersion = ''miabi.io/v1'', hd_Kind = KindRegistry,
        hd_Metadata = Some \<lparr>m_Name = ''ghcr'', m_UID = [], m_Labels = [], m_Annotations = []\<rparr>,
        hd_Spec = (\<lambda>_. Some (SRegistry \<lparr>rg_Server = ''https://ghcr.io/'', rg_Username = [], rg_Password = [], rg_PasswordFP = []\<rparr>))\<rparr>) []])"

lemma sample_parse: "isl (Parse sample_std (\<lambda>_. True) [sample_domain_doc, sample_project_doc]) = False"
  by code_simp

lemma sample_names:
  "map_option (map r_Name) (accepted (parseStream [sample_domain_doc, sample_project_doc])) =
     Some [''example.com'', ''shop'', ''ghcr'']"
  by code_simp

section \<open>Properties\<close>



text \<open>A bundle means the same in one file as in several. Parsing a directory gives the set that
  parsing the documents of its manifest files one after the other gives, files in name order, and
  fails when that fails or when the bundle is empty.\<close>

theorem bundle_split_does_not_matter:
  "accepted (ParseFS g cron (Some files)) =
     (case accepted (Parse g cron (file_docs (sort_key fst (filter (\<lambda>(p, _). manifest_file p) files)))) of
        None \<Rightarrow> None
      | Some s \<Rightarrow> if rs_Len s = 0 then None else Some s)"
proof -
  let ?fs = "sort_key fst (filter (\<lambda>(p, _). manifest_file p) files)"
  have 1: "accepted (ParseFS g cron (Some files)) =
      (case accepted (parse_files g cron ?fs NewResourceSet) of None \<Rightarrow> None
       | Some s \<Rightarrow> if rs_Len s = 0 \<or> validateReferences s \<noteq> None then None else Some s)"
    by (simp add: ParseFS_def accepted_def split: sum.split option.split)
  have 2: "accepted (Parse g cron docs) =
      (case admit_stream g cron docs NewResourceSet of None \<Rightarrow> None
       | Some s \<Rightarrow> if validateReferences s \<noteq> None then None else Some s)" for docs
    by (simp add: Parse_def admit_stream_def accepted_def split: sum.split option.split)
  show ?thesis unfolding 1 2 parse_files_stream
    by (cases "admit_stream g cron (file_docs ?fs) NewResourceSet") auto
qed

end
