(* ===== verification/Config_Files.thy ===== *)
theory Config_Files
  imports Manifest_Validation
begin

text \<open>
  Configuration files: the service \<^verbatim>\<open>internal/services/config\<close> that stores them encrypted, resolves the
  references in them and projects them into a container, with its repository and the entry the apply
  engine's snapshot makes of them. The lemmas show where projected files land, what a reference
  resolves to, that the stored rows stay consistent with their content, and when an update redeploys
  the applications that mount a config.

  Sealing (JSON and the workspace key of \<^verbatim>\<open>services/crypto\<close>), opening, and SHA-256 are arguments
  (\<open>ConfigLib\<close>); a Go map is an association list with distinct keys.
\<close>

section \<open>References\<close>

definition ref_name_char :: "char \<Rightarrow> bool" where
  "ref_name_char c = (is_alpha c \<or> is_digit c \<or> c \<in> {CHR ''_'', CHR ''.'', CHR ''-''})"

text \<open>One match of \<open>refRe\<close> at the head of the text: the kind, the name and what follows.\<close>

definition ref_at :: "string \<Rightarrow> (string \<times> string \<times> string) option" where
  "ref_at s =
     (case CutPrefix s ''${{'' of
        None \<Rightarrow> None
      | Some t \<Rightarrow>
          (let u = dropWhile re_space t
           in case find (\<lambda>w. HasPrefix u (w @ ''.'')) [''secrets'', ''env''] of
                None \<Rightarrow> None
              | Some w \<Rightarrow>
                  (let v = drop (length w + 1) u; name = takeWhile ref_name_char v
                   in if name = [] then None
                      else case CutPrefix (dropWhile re_space (dropWhile ref_name_char v)) ''}}'' of
                             None \<Rightarrow> None
                           | Some rest \<Rightarrow> Some (w, name, rest))))"

datatype piece = Plain char | Ref string string string

text \<open>The text cut at its references, each with the text it matched. A match is never empty, so the
  length of the text is enough fuel.\<close>

fun cut_refs :: "nat \<Rightarrow> string \<Rightarrow> piece list" where
  "cut_refs 0 s = []"
| "cut_refs (Suc n) s =
     (case s of
        [] \<Rightarrow> []
      | c # t \<Rightarrow>
          (case ref_at s of
             None \<Rightarrow> Plain c # cut_refs n t
           | Some (w, name, rest) \<Rightarrow> Ref w name (take (length s - length rest) s) # cut_refs n rest))"

definition pieces :: "string \<Rightarrow> piece list" where
  "pieces s = cut_refs (length s) s"

fun piece_refs :: "piece list \<Rightarrow> (string \<times> string) list" where
  "piece_refs [] = []"
| "piece_refs (Plain c # ps) = piece_refs ps"
| "piece_refs (Ref w name txt # ps) = (w, name) # piece_refs ps"

definition HasReferences :: "string \<Rightarrow> bool" where
  "HasReferences content = (piece_refs (pieces content) \<noteq> [])"

definition SecretRefNames :: "smap \<Rightarrow> string list" where
  "SecretRefNames data =
     sort (remdups (map snd (filter (\<lambda>(w, _). w = ''secrets'') (concat (map (\<lambda>(_, v). piece_refs (pieces v)) data)))))"

definition referencesSecret :: "smap \<Rightarrow> bool" where
  "referencesSecret data = (length (SecretRefNames data) > 0)"

record Resolver =
  rv_Secret :: "string \<Rightarrow> string option"
  rv_Env :: "string \<Rightarrow> string option"

fun dedupe_from :: "string list \<Rightarrow> string list \<Rightarrow> string list" where
  "dedupe_from seen [] = []"
| "dedupe_from seen (v # vs) = (if v \<in> set seen then dedupe_from seen vs else v # dedupe_from (v # seen) vs)"

definition dedupe :: "string list \<Rightarrow> string list" where
  "dedupe xs = dedupe_from [] xs"

definition lookup_ref :: "Resolver \<Rightarrow> string \<Rightarrow> string \<Rightarrow> string option" where
  "lookup_ref r kind name =
     (case rv_Secret r name of
        Some v \<Rightarrow> Some v
      | None \<Rightarrow> if kind = ''env'' then rv_Env r name else None)"

datatype config_error =
    ErrInvalidName
  | ErrNameTaken
  | ErrNotFound
  | ErrNoData
  | ErrInUse string
  | ErrKeyNotFound string
  | ErrUnresolvedRef "string list"
  | ErrBadFile string
  | ErrSeal
  | ErrOpen
  | ErrConsumers
  | ErrDatabase

fun subst_piece :: "Resolver \<Rightarrow> piece \<Rightarrow> string" where
  "subst_piece r (Plain c) = [c]"
| "subst_piece r (Ref w name txt) = (case lookup_ref r w name of Some v \<Rightarrow> v | None \<Rightarrow> txt)"

definition missing_refs :: "Resolver \<Rightarrow> string \<Rightarrow> string list" where
  "missing_refs r content =
     map (\<lambda>(w, name). w @ ''.'' @ name)
       (filter (\<lambda>(w, name). lookup_ref r w name = None) (piece_refs (pieces content)))"

definition Resolve :: "string \<Rightarrow> Resolver option \<Rightarrow> config_error + string" where
  "Resolve content res =
     (case res of
        None \<Rightarrow> Inr content
      | Some r \<Rightarrow>
          if \<not> HasReferences content then Inr content
          else if missing_refs r content \<noteq> [] then Inl (ErrUnresolvedRef (dedupe (missing_refs r content)))
          else Inr (concat (map (subst_piece r) (pieces content))))"

section \<open>Validation\<close>

definition keyRe :: rx where
  "keyRe =
     (let part = Cls (\<lambda>c. alnum c \<or> c \<in> {CHR ''.'', CHR ''_'', CHR ''-''})
      in Cat (Cls alnum) (Cat (Opt (Star part)) (Star (Cat (Lit CHR ''/'') (Many part)))))"

definition MaxFileBytes :: int where "MaxFileBytes = 256 * 1024"
definition MaxTotalBytes :: int where "MaxTotalBytes = 512 * 1024"

definition check_file :: "string \<times> string \<Rightarrow> config_error option" where
  "check_file kv =
     (case kv of (k, v) \<Rightarrow>
        first_some
          [guard (\<not> rx_match keyRe k) (ErrBadFile ''file key must be a relative path''),
           first_error (\<lambda>seg. guard (seg = ''.'' \<or> seg = ''..'') (ErrBadFile ''path traversal'')) (SplitChar k CHR ''/''),
           guard (int (length v) > MaxFileBytes) (ErrBadFile ''file is over the limit'')])"

definition ValidateData :: "smap \<Rightarrow> config_error option" where
  "ValidateData data =
     first_some
       [guard (data = []) ErrNoData,
        first_error check_file data,
        guard (sum_list (map (\<lambda>(_, v). int (length v)) data) > MaxTotalBytes) (ErrBadFile ''total content is over the limit'')]"

definition ValidateMode :: "string \<Rightarrow> config_error option" where
  "ValidateMode mode =
     (if mode = [] then None
      else if length mode < 3 \<or> length mode > 4 then Some (ErrBadFile ''mode must be 3 or 4 octal digits'')
      else (case ParseOctal mode of
              None \<Rightarrow> Some (ErrBadFile ''mode is not octal'')
            | Some v \<Rightarrow> guard (Bit_Operations.and v 0xE00 \<noteq> 0) (ErrBadFile ''mode must not set special bits'')))"

section \<open>Stored configs\<close>

record ConfigLib =
  cl_sha256hex :: "string \<Rightarrow> string"
  cl_seal :: "nat \<Rightarrow> smap \<Rightarrow> string option"
  cl_open :: "string \<Rightarrow> smap option"

record ConfigRow =
  cr_ID :: nat
  cr_WorkspaceID :: nat
  cr_Name :: string
  cr_DisplayName :: string
  cr_Description :: string
  cr_DataEnc :: string
  cr_Digest :: string
  cr_Mode :: string
  cr_Sensitive :: bool
  cr_Delimiters :: "string list"
  cr_Version :: int
  cr_UpdatedByID :: "nat option"
  cr_Managed :: bool
  cr_OwnerKind :: string
  cr_OwnerID :: nat

record ConfigInput =
  in_Name :: string
  in_DisplayName :: string
  in_Description :: string
  in_Data :: "smap option"
  in_Mode :: string
  in_Sensitive :: bool
  in_Delimiters :: "string list option"

record ConfigStore =
  cs_rows :: "ConfigRow list"
  cs_next :: nat

definition FindInWorkspace :: "ConfigStore \<Rightarrow> nat \<Rightarrow> nat \<Rightarrow> ConfigRow option" where
  "FindInWorkspace s ws i = find (\<lambda>c. cr_ID c = i \<and> cr_WorkspaceID c = ws) (cs_rows s)"

definition FindByName :: "ConfigStore \<Rightarrow> nat \<Rightarrow> string \<Rightarrow> ConfigRow option" where
  "FindByName s ws name = find (\<lambda>c. cr_WorkspaceID c = ws \<and> cr_Name c = name) (cs_rows s)"

definition ExistsByName :: "ConfigStore \<Rightarrow> nat \<Rightarrow> string \<Rightarrow> bool" where
  "ExistsByName s ws name = list_ex (\<lambda>c. cr_WorkspaceID c = ws \<and> cr_Name c = name) (cs_rows s)"

text \<open>The insert assigns the next id and fails on the unique index over workspace and name.\<close>

definition repo_Create :: "ConfigRow \<Rightarrow> ConfigStore \<Rightarrow> (ConfigRow \<times> ConfigStore) option" where
  "repo_Create c s =
     (if ExistsByName s (cr_WorkspaceID c) (cr_Name c) then None
      else let c = c\<lparr>cr_ID := cs_next s\<rparr>
           in Some (c, \<lparr>cs_rows = cs_rows s @ [c], cs_next = Suc (cs_next s)\<rparr>))"

definition repo_Update :: "ConfigRow \<Rightarrow> ConfigStore \<Rightarrow> ConfigStore" where
  "repo_Update c s = s\<lparr>cs_rows := map (\<lambda>x. if cr_ID x = cr_ID c then c else x) (cs_rows s)\<rparr>"

definition repo_Delete :: "nat \<Rightarrow> ConfigStore \<Rightarrow> ConfigStore" where
  "repo_Delete i s = s\<lparr>cs_rows := filter (\<lambda>x. cr_ID x \<noteq> i) (cs_rows s)\<rparr>"

definition ListByOwner :: "ConfigStore \<Rightarrow> nat \<Rightarrow> string \<Rightarrow> nat \<Rightarrow> ConfigRow list" where
  "ListByOwner s ws kind i =
     filter (\<lambda>c. cr_WorkspaceID c = ws \<and> cr_OwnerKind c = kind \<and> cr_OwnerID c = i) (cs_rows s)"

definition digest_input :: "smap \<Rightarrow> string" where
  "digest_input data =
     concat (map (\<lambda>k. k @ CHR 0x00 # smap_get data k @ [CHR 0x00]) (sort (map fst data)))"

definition Digest :: "ConfigLib \<Rightarrow> smap \<Rightarrow> string" where
  "Digest lib data = cl_sha256hex lib (digest_input data)"

definition encode :: "ConfigLib \<Rightarrow> nat \<Rightarrow> smap \<Rightarrow> (string \<times> string) option" where
  "encode lib ws data = (case cl_seal lib ws data of None \<Rightarrow> None | Some enc \<Rightarrow> Some (enc, Digest lib data))"

definition Data :: "ConfigLib \<Rightarrow> ConfigRow \<Rightarrow> smap option" where
  "Data lib c = (if cr_DataEnc c = [] then Some [] else cl_open lib (cr_DataEnc c))"

section \<open>The service\<close>

text \<open>The applications that mount a config, with their reload policy; \<open>None\<close> is a failed read. A process
  that only reads configs has no consumers at all.\<close>

type_synonym Consumers = "(nat \<Rightarrow> nat \<Rightarrow> (string \<times> string) list option) option"

definition cfg_Create ::
    "ConfigLib \<Rightarrow> nat \<Rightarrow> ConfigInput \<Rightarrow> nat option \<Rightarrow> ConfigStore \<Rightarrow> (config_error + ConfigRow) \<times> ConfigStore" where
  "cfg_Create lib ws inp user s =
     (let name = TrimSpace (in_Name inp); data = or_else (in_Data inp) [];
          mode = (if in_Mode inp = [] then ''0644'' else in_Mode inp)
      in if \<not> rx_match nameRe name then (Inl ErrInvalidName, s)
         else case ValidateData data of Some e \<Rightarrow> (Inl e, s) | None \<Rightarrow>
              case ValidateMode mode of Some e \<Rightarrow> (Inl e, s) | None \<Rightarrow>
              if ExistsByName s ws name then (Inl ErrNameTaken, s)
              else case encode lib ws data of
                     None \<Rightarrow> (Inl ErrSeal, s)
                   | Some (enc, digest) \<Rightarrow>
                       (case repo_Create
                               \<lparr>cr_ID = 0, cr_WorkspaceID = ws, cr_Name = name, cr_DisplayName = in_DisplayName inp,
                                cr_Description = in_Description inp, cr_DataEnc = enc, cr_Digest = digest, cr_Mode = mode,
                                cr_Sensitive = (in_Sensitive inp \<or> referencesSecret data),
                                cr_Delimiters = or_else (in_Delimiters inp) [], cr_Version = 1, cr_UpdatedByID = user,
                                cr_Managed = False, cr_OwnerKind = [], cr_OwnerID = 0\<rparr> s of
                          None \<Rightarrow> (Inl ErrDatabase, s)
                        | Some (c, s') \<Rightarrow> (Inr c, s')))"

text \<open>The applications an update redeploys.\<close>

definition fanOut :: "Consumers \<Rightarrow> ConfigRow \<Rightarrow> string list" where
  "fanOut consumers c =
     (case consumers of
        None \<Rightarrow> []
      | Some f \<Rightarrow>
          (case f (cr_WorkspaceID c) (cr_ID c) of
             None \<Rightarrow> []
           | Some apps \<Rightarrow> map fst (filter (\<lambda>(_, policy). policy \<noteq> ''none'') apps)))"

text \<open>The new content of a row and whether it changed.\<close>

definition update_data :: "ConfigLib \<Rightarrow> ConfigInput \<Rightarrow> ConfigRow \<Rightarrow> config_error + ConfigRow \<times> bool" where
  "update_data lib inp c =
     (case in_Data inp of
        None \<Rightarrow> Inr (c, False)
      | Some data \<Rightarrow>
          (case ValidateData data of Some e \<Rightarrow> Inl e | None \<Rightarrow>
           case encode lib (cr_WorkspaceID c) data of None \<Rightarrow> Inl ErrSeal | Some (enc, digest) \<Rightarrow>
             (let dirty = (digest \<noteq> cr_Digest c);
                  c = (if dirty then c\<lparr>cr_DataEnc := enc, cr_Digest := digest, cr_Version := wrap64 (cr_Version c + 1)\<rparr> else c);
                  c = (if referencesSecret data then c\<lparr>cr_Sensitive := True\<rparr> else c)
              in Inr (c, dirty))))"

definition update_mode :: "ConfigInput \<Rightarrow> ConfigRow \<times> bool \<Rightarrow> config_error + ConfigRow \<times> bool" where
  "update_mode inp cc =
     (case cc of (c, dirty) \<Rightarrow>
        if in_Mode inp \<noteq> [] \<and> in_Mode inp \<noteq> cr_Mode c
        then (case ValidateMode (in_Mode inp) of Some e \<Rightarrow> Inl e | None \<Rightarrow> Inr (c\<lparr>cr_Mode := in_Mode inp\<rparr>, True))
        else Inr (c, dirty))"

definition update_labels :: "ConfigInput \<Rightarrow> nat option \<Rightarrow> ConfigRow \<Rightarrow> ConfigRow" where
  "update_labels inp user c =
     (let c = (if in_DisplayName inp \<noteq> [] then c\<lparr>cr_DisplayName := in_DisplayName inp\<rparr> else c);
          c = (if in_Description inp \<noteq> [] then c\<lparr>cr_Description := in_Description inp\<rparr> else c);
          c = (case in_Delimiters inp of None \<Rightarrow> c | Some d \<Rightarrow> c\<lparr>cr_Delimiters := d\<rparr>)
      in c\<lparr>cr_UpdatedByID := user\<rparr>)"

text \<open>The result, the applications redeployed, and the store.\<close>

definition cfg_Update ::
    "ConfigLib \<Rightarrow> Consumers \<Rightarrow> nat \<Rightarrow> nat \<Rightarrow> ConfigInput \<Rightarrow> nat option \<Rightarrow> ConfigStore \<Rightarrow>
     (config_error + ConfigRow) \<times> string list \<times> ConfigStore" where
  "cfg_Update lib consumers ws i inp user s =
     (case FindInWorkspace s ws i of
        None \<Rightarrow> (Inl ErrNotFound, [], s)
      | Some c \<Rightarrow>
          (case update_data lib inp c of Inl e \<Rightarrow> (Inl e, [], s) | Inr cc \<Rightarrow>
           case update_mode inp cc of Inl e \<Rightarrow> (Inl e, [], s) | Inr (c, dirty) \<Rightarrow>
             (let c = update_labels inp user c
              in (Inr c, if dirty then fanOut consumers c else [], repo_Update c s))))"

definition set_owner :: "string \<Rightarrow> nat \<Rightarrow> ConfigRow \<Rightarrow> ConfigRow" where
  "set_owner kind i c = c\<lparr>cr_Managed := True, cr_OwnerKind := kind, cr_OwnerID := i\<rparr>"

text \<open>The owner set on a row that exists is set on the copy that was read; \<open>Update\<close> reads the row again.\<close>

definition UpsertOwned ::
    "ConfigLib \<Rightarrow> Consumers \<Rightarrow> nat \<Rightarrow> string \<Rightarrow> nat \<Rightarrow> ConfigInput \<Rightarrow> ConfigStore \<Rightarrow>
     (config_error + ConfigRow) \<times> string list \<times> ConfigStore" where
  "UpsertOwned lib consumers ws kind i inp s =
     (case FindByName s ws (in_Name inp) of
        Some existing \<Rightarrow>
          (let existing = set_owner kind i existing
           in cfg_Update lib consumers ws (cr_ID existing) inp None s)
      | None \<Rightarrow>
          (case cfg_Create lib ws inp None s of
             (Inl e, s) \<Rightarrow> (Inl e, [], s)
           | (Inr c, s) \<Rightarrow> (let c = set_owner kind i c in (Inr c, [], repo_Update c s))))"

definition cfg_Delete :: "Consumers \<Rightarrow> nat \<Rightarrow> nat \<Rightarrow> ConfigStore \<Rightarrow> config_error option \<times> ConfigStore" where
  "cfg_Delete consumers ws i s =
     (case FindInWorkspace s ws i of
        None \<Rightarrow> (Some ErrNotFound, s)
      | Some c \<Rightarrow>
          (case consumers of
             None \<Rightarrow> (None, repo_Delete (cr_ID c) s)
           | Some f \<Rightarrow>
               (case f ws (cr_ID c) of
                  None \<Rightarrow> (Some ErrConsumers, s)
                | Some [] \<Rightarrow> (None, repo_Delete (cr_ID c) s)
                | Some ((app, _) # _) \<Rightarrow> (Some (ErrInUse app), s))))"

definition DeleteOwned :: "nat \<Rightarrow> string \<Rightarrow> nat \<Rightarrow> ConfigStore \<Rightarrow> ConfigStore" where
  "DeleteOwned ws kind i s = fold (\<lambda>c. repo_Delete (cr_ID c)) (ListByOwner s ws kind i) s"

section \<open>Projection\<close>

record AppMount =
  am_Path :: string
  am_ConfigKey :: string
  am_Mode :: string

record ProjectedFile =
  pf_Path :: string
  pf_Content :: string
  pf_Mode :: string

definition FileDigest :: "ConfigLib \<Rightarrow> ProjectedFile \<Rightarrow> string" where
  "FileDigest lib f = cl_sha256hex lib (pf_Content f @ CHR 0x00 # pf_Mode f)"

definition project :: "ConfigRow \<Rightarrow> smap \<Rightarrow> AppMount \<Rightarrow> config_error + ProjectedFile list" where
  "project c data mount =
     (let mode = am_Mode mount;
          mode = (if mode = [] then cr_Mode c else mode);
          mode = (if mode = [] then ''0644'' else mode)
      in if am_ConfigKey mount \<noteq> [] then
           (case map_of data (am_ConfigKey mount) of
              None \<Rightarrow> Inl (ErrKeyNotFound (am_ConfigKey mount))
            | Some content \<Rightarrow> Inr [\<lparr>pf_Path = am_Path mount, pf_Content = content, pf_Mode = mode\<rparr>])
         else Inr (map (\<lambda>k. \<lparr>pf_Path = path_Join (TrimSuffix (am_Path mount) ''/'') k,
                             pf_Content = smap_get data k, pf_Mode = mode\<rparr>) (sort (map fst data))))"

fun resolve_files :: "Resolver option \<Rightarrow> ProjectedFile list \<Rightarrow> config_error + ProjectedFile list" where
  "resolve_files r [] = Inr []"
| "resolve_files r (f # fs) =
     (case Resolve (pf_Content f) r of
        Inl e \<Rightarrow> Inl e
      | Inr out \<Rightarrow> (case resolve_files r fs of Inl e \<Rightarrow> Inl e | Inr gs \<Rightarrow> Inr (f\<lparr>pf_Content := out\<rparr> # gs)))"

definition ProjectWith :: "ConfigLib \<Rightarrow> ConfigRow \<Rightarrow> AppMount \<Rightarrow> Resolver option \<Rightarrow> config_error + ProjectedFile list" where
  "ProjectWith lib c mount r =
     (case Data lib c of
        None \<Rightarrow> Inl ErrOpen
      | Some data \<Rightarrow> (case project c data mount of Inl e \<Rightarrow> Inl e | Inr files \<Rightarrow> resolve_files r files))"

section \<open>The snapshot the planner compares\<close>

definition snapshot_spec :: "ConfigLib \<Rightarrow> ConfigRow \<Rightarrow> ConfigSpec" where
  "snapshot_spec lib c =
     \<lparr>cf_Data = (if cr_Sensitive c then [] else or_else (Data lib c) []), cf_Mode = cr_Mode c,
      cf_Sensitive = cr_Sensitive c, cf_Delimiters = cr_Delimiters c, cf_DigestFP = cr_Digest c\<rparr>"

section \<open>Where projected files land\<close>

lemma JoinStr_last: "xs \<noteq> [] \<Longrightarrow> last xs \<noteq> [] \<Longrightarrow> JoinStr xs sep \<noteq> [] \<and> last (JoinStr xs sep) = last (last xs)"
  by (induction xs rule: induct_list012) (simp_all add: JoinStr_Cons)

text \<open>The directory of a mount, without the slash that would end it.\<close>

definition mount_dir :: "string \<Rightarrow> string" where
  "mount_dir p = TrimSuffix (path_Clean (TrimSuffix p ''/'')) ''/''"

lemma HasSuffix_one: "HasSuffix s [c] \<longleftrightarrow> s \<noteq> [] \<and> last s = c"
  by (cases s rule: rev_cases) (auto simp: HasSuffix_def)

lemma path_Join_key:
  assumes key: "validateConfigKey k = None" and p: "TrimSuffix p ''/'' = CHR ''/'' # q"
  shows "path_Join (TrimSuffix p ''/'') k = mount_dir p @ CHR ''/'' # k"
proof -
  let ?p = "CHR ''/'' # q" and ?segs = "path_segments (CHR ''/'' # q)"
  have "path_segments (?p @ CHR ''/'' # k) = ?segs @ SplitChar k CHR ''/''"
    using validateConfigKey_None [OF key]
    by (simp add: path_segments_def SplitChar_at fold_clean_keeps del: SplitChar.simps append_Cons)
  then have join: "path_Join ?p k = CHR ''/'' # JoinStr (?segs @ SplitChar k CHR ''/'') ''/''"
    by (simp add: path_Join_def path_Clean_rooted)
  show ?thesis
  proof (cases "?segs = []")
    case True
    have "mount_dir p = TrimSuffix ''/'' ''/''" unfolding mount_dir_def p path_Clean_rooted True by simp
    also have "\<dots> = []" by (simp add: TrimSuffix_def HasSuffix_def)
    finally have "mount_dir p = []" .
    then show ?thesis using join True p by (simp add: JoinStr_SplitChar)
  next
    case False
    then have "last ?segs \<noteq> []" "CHR ''/'' \<notin> set (last ?segs)" using path_segments_free [of "last ?segs" ?p] by simp_all
    then have "JoinStr ?segs ''/'' \<noteq> []" "last (JoinStr ?segs ''/'') \<noteq> CHR ''/''"
      using JoinStr_last [OF False, of "''/''"] last_in_set [of "last ?segs"]
      by simp_all (metis last_in_set)
    then have "mount_dir p = CHR ''/'' # JoinStr ?segs ''/''"
      unfolding mount_dir_def p path_Clean_rooted by (simp add: TrimSuffix_def HasSuffix_one)
    then show ?thesis using join False p by (simp add: JoinStr_append JoinStr_SplitChar)
  qed
qed

lemma keyRe_eq: "keyRe = configKeyRe"
  by (simp add: keyRe_def configKeyRe_def)

lemma rx_configKeyRe_not_Nil: "\<not> rx_match configKeyRe []"
  by (simp add: configKeyRe_def Let_def)

lemma check_file_key: "check_file (k, v) = None \<Longrightarrow> validateConfigKey k = None"
proof -
  assume "check_file (k, v) = None"
  then have re: "rx_match configKeyRe k"
    and "first_error (\<lambda>seg. guard (seg = ''.'' \<or> seg = ''..'') (ErrBadFile ''path traversal'')) (SplitChar k CHR ''/'') = None"
    unfolding check_file_def prod.case first_some_None guard_None keyRe_eq by blast+
  moreover have "k \<noteq> []" using re rx_configKeyRe_not_Nil by metis
  ultimately show ?thesis
    unfolding validateConfigKey_def first_some_None guard_None first_error_None by simp
qed

lemma ValidateData_keys: "ValidateData data = None \<Longrightarrow> k \<in> set (map fst data) \<Longrightarrow> validateConfigKey k = None"
  by (auto simp: ValidateData_def first_error_None intro: check_file_key)

section \<open>What a reference resolves to\<close>

lemma set_dedupe_from: "set (dedupe_from seen xs) = set xs - set seen"
  by (induction xs arbitrary: seen) auto

lemma distinct_dedupe_from: "distinct (dedupe_from seen xs)"
  by (induction xs arbitrary: seen) (simp_all add: set_dedupe_from)

definition piece_text :: "piece \<Rightarrow> string" where
  "piece_text p = (case p of Plain c \<Rightarrow> [c] | Ref _ _ txt \<Rightarrow> txt)"

lemma piece_text_simps [simp]: "piece_text (Plain c) = [c]" "piece_text (Ref w name txt) = txt"
  by (simp_all add: piece_text_def)

lemma CutPrefix_length: "CutPrefix s p = Some r \<Longrightarrow> length s = length p + length r"
  by (drule CutPrefix_SomeD) simp

lemma ref_at_shorter: "ref_at s = Some (w, name, rest) \<Longrightarrow> length rest < length s \<and> rest = drop (length s - length rest) s"
proof -
  assume *: "ref_at s = Some (w, name, rest)"
  then obtain t where t: "CutPrefix s ''${{'' = Some t" by (auto simp: ref_at_def split: option.splits)
  let ?u = "dropWhile re_space t"
  from * t obtain v where "v = drop (length w + 1) ?u"
    and r: "CutPrefix (dropWhile re_space (dropWhile ref_name_char v)) ''}}'' = Some rest"
    by (auto simp: ref_at_def Let_def split: option.splits if_splits)
  then have "suffix v t" using suffix_dropWhile suffix_drop suffix_order.trans by metis
  moreover have "suffix rest v"
    using CutPrefix_SomeD [OF r] suffix_dropWhile suffix_order.trans by (metis suffixI)
  moreover have "suffix t s" using CutPrefix_SomeD [OF t] by (metis suffixI)
  ultimately have "suffix rest s" "suffix rest t" using suffix_order.trans by blast+
  moreover have "length s = length t + 3" using CutPrefix_length [OF t] by simp
  ultimately show ?thesis using suffix_length_le [of rest t] by (auto simp: suffix_def)
qed

lemma cut_text: "length s \<le> n \<Longrightarrow> concat (map piece_text (cut_refs n s)) = s"
proof (induction n arbitrary: s)
  case (Suc n)
  show ?case
  proof (cases s)
    case (Cons c t)
    show ?thesis
    proof (cases "ref_at s")
      case None
      with Suc Cons show ?thesis by simp
    next
      case (Some m)
      obtain w name rest where m: "m = (w, name, rest)" by (cases m)
      have "length rest < length s" "rest = drop (length s - length rest) s"
        using ref_at_shorter [of s w name rest] Some m by simp_all
      then have "take (length s - length rest) s @ rest = s" by (metis append_take_drop_id)
      moreover have "concat (map piece_text (cut_refs n rest)) = rest"
        using Suc \<open>length rest < length s\<close> by simp
      ultimately show ?thesis using Some m Cons by simp
    qed
  qed simp
qed simp

lemma no_refs_plain: "piece_refs ps = [] \<Longrightarrow> concat (map (subst_piece r) ps) = concat (map piece_text ps)"
  by (induction ps rule: piece_refs.induct) simp_all

lemma missing_refs_empty:
  "missing_refs r content = [] \<longleftrightarrow> (\<forall>(w, name) \<in> set (piece_refs (pieces content)). lookup_ref r w name \<noteq> None)"
  by (auto simp: missing_refs_def filter_empty_conv)

lemma Resolve_Inl:
  assumes "Resolve content (Some r) = Inl e"
  shows "\<exists>ms. e = ErrUnresolvedRef ms \<and> distinct ms \<and> ms \<noteq> [] \<and>
    set ms = {w @ ''.'' @ name | w name. (w, name) \<in> set (piece_refs (pieces content)) \<and> lookup_ref r w name = None}"
proof -
  have e: "e = ErrUnresolvedRef (dedupe (missing_refs r content))" and m: "missing_refs r content \<noteq> []"
    using assms by (simp_all add: Resolve_def split: if_splits)
  have "set (dedupe (missing_refs r content)) = set (missing_refs r content)"
    by (simp add: dedupe_def set_dedupe_from)
  then have "dedupe (missing_refs r content) \<noteq> []" using m by (metis set_empty)
  moreover have "set (missing_refs r content) =
      {w @ ''.'' @ name | w name. (w, name) \<in> set (piece_refs (pieces content)) \<and> lookup_ref r w name = None}"
    by (force simp: missing_refs_def)
  ultimately show ?thesis unfolding e by (simp add: dedupe_def distinct_dedupe_from set_dedupe_from)
qed

lemma Resolve_Inr:
  assumes "Resolve content (Some r) = Inr out"
  shows "missing_refs r content = [] \<and> out = concat (map (subst_piece r) (pieces content))"
proof (cases "HasReferences content")
  case True
  with assms show ?thesis by (simp add: Resolve_def split: if_splits)
next
  case False
  have "concat (map piece_text (pieces content)) = content" by (simp add: pieces_def cut_text)
  with False assms show ?thesis by (simp add: Resolve_def HasReferences_def no_refs_plain missing_refs_def)
qed

section \<open>Digests\<close>

definition no_nul :: "smap \<Rightarrow> bool" where
  "no_nul data = list_all (\<lambda>(k, v). CHR 0x00 \<notin> set k \<and> CHR 0x00 \<notin> set v) data"

definition entries :: "smap \<Rightarrow> (string \<times> string) list" where
  "entries data = map (\<lambda>k. (k, smap_get data k)) (sort (map fst data))"

lemma smap_get_no_nul: "no_nul data \<Longrightarrow> CHR 0x00 \<notin> set (smap_get data k)"
  by (cases "map_of data k") (auto simp: smap_get_def no_nul_def list_all_iff dest!: map_of_SomeD)

lemma SplitChar_terminated:
  "list_all (\<lambda>(k, v). c \<notin> set k \<and> c \<notin> set v) xs \<Longrightarrow>
   SplitChar (concat (map (\<lambda>(k, v). k @ c # v @ [c]) xs)) c = concat (map (\<lambda>(k, v). [k, v]) xs) @ [[]]"
proof (induction xs)
  case (Cons x xs)
  obtain k v where x: "x = (k, v)" by (cases x)
  with Cons show ?case
    by (simp add: SplitChar_append)
qed simp

lemma pairs_inj: "concat (map (\<lambda>(k, v). [k, v]) xs) = concat (map (\<lambda>(k, v). [k, v]) ys) \<Longrightarrow> xs = ys"
proof (induction xs arbitrary: ys)
  case Nil
  then show ?case by (cases ys) (auto split: prod.splits)
next
  case (Cons x xs)
  then show ?case by (cases ys) (auto split: prod.splits)
qed

lemma digest_input_entries: "digest_input data = concat (map (\<lambda>(k, v). k @ CHR 0x00 # v @ [CHR 0x00]) (entries data))"
  by (simp add: digest_input_def entries_def comp_def)

lemma entries_map_of: "map_of (entries data) = map_of data"
proof
  fix k
  show "map_of (entries data) k = map_of data k"
  proof (cases "map_of data k")
    case None
    then have "k \<notin> set (map fst data)" by (simp add: map_of_eq_None_iff)
    then have "k \<notin> fst ` set (entries data)" by (force simp: entries_def)
    then show ?thesis using None by (metis map_of_eq_None_iff)
  next
    case (Some v)
    then have "k \<in> set (sort (map fst data))" using map_of_SomeD by force
    moreover have "entries data = map (\<lambda>k. (k, smap_get data k)) (sort (map fst data))" by (simp add: entries_def)
    ultimately show ?thesis using Some by (simp add: map_of_map_restrict smap_get_def restrict_map_def)
  qed
qed

lemma entries_eq_iff:
  assumes "distinct (map fst a)" "distinct (map fst b)"
  shows "entries a = entries b \<longleftrightarrow> map_of a = map_of b"
proof
  assume "entries a = entries b"
  then show "map_of a = map_of b" using entries_map_of by metis
next
  assume m: "map_of a = map_of b"
  then have "set (map fst a) = set (map fst b)" by (metis dom_map_of_conv_image_fst list.set_map)
  then have "sort (map fst a) = sort (map fst b)"
    using assms by (metis sorted_list_of_set_sort_remdups remdups_id_iff_distinct)
  then show "entries a = entries b" using m by (simp add: entries_def smap_get_def)
qed

lemma digest_input_inj:
  assumes "distinct (map fst a)" "distinct (map fst b)" "no_nul a" "no_nul b"
  shows "digest_input a = digest_input b \<longleftrightarrow> map_of a = map_of b"
proof -
  have terminated: "list_all (\<lambda>(k, v). CHR 0x00 \<notin> set k \<and> CHR 0x00 \<notin> set v) (entries d)" if "no_nul d" for d
    using smap_get_no_nul [OF that] that by (auto simp: entries_def list_all_iff no_nul_def)
  have "digest_input a = digest_input b \<longleftrightarrow> entries a = entries b"
  proof
    assume "digest_input a = digest_input b"
    then have "concat (map (\<lambda>(k, v). [k, v]) (entries a)) @ [[]] = concat (map (\<lambda>(k, v). [k, v]) (entries b)) @ [[]]"
      using SplitChar_terminated [OF terminated [OF assms(3)]] SplitChar_terminated [OF terminated [OF assms(4)]]
      by (simp only: digest_input_entries)
    then show "entries a = entries b" using pairs_inj by simp
  qed (simp add: digest_input_entries)
  then show ?thesis using entries_eq_iff [OF assms(1,2)] by simp
qed

section \<open>Consistent rows\<close>

text \<open>What the service relies on from sealing: a sealed map is never empty text and opens to the map.\<close>

definition lib_ok :: "ConfigLib \<Rightarrow> bool" where
  "lib_ok lib \<longleftrightarrow> (\<forall>ws d e. cl_seal lib ws d = Some e \<longrightarrow> e \<noteq> [] \<and> cl_open lib e = Some d)"

definition row_ok :: "ConfigLib \<Rightarrow> ConfigRow \<Rightarrow> bool" where
  "row_ok lib c \<longleftrightarrow>
     rx_match nameRe (cr_Name c) \<and> cr_Mode c \<noteq> [] \<and> ValidateMode (cr_Mode c) = None \<and>
     (\<exists>d. Data lib c = Some d \<and> cr_Digest c = Digest lib d \<and> ValidateData d = None \<and>
          (referencesSecret d \<longrightarrow> cr_Sensitive c))"

definition config_inv :: "ConfigLib \<Rightarrow> ConfigStore \<Rightarrow> bool" where
  "config_inv lib s \<longleftrightarrow>
     distinct (map cr_ID (cs_rows s)) \<and> distinct (map (\<lambda>c. (cr_WorkspaceID c, cr_Name c)) (cs_rows s)) \<and>
     list_all (\<lambda>c. cr_ID c < cs_next s \<and> row_ok lib c) (cs_rows s)"

lemma row_ok_labels [simp]:
  "row_ok lib (update_labels inp user c) = row_ok lib c"
  "row_ok lib (set_owner kind i c) = row_ok lib c"
  "row_ok lib (c\<lparr>cr_ID := n\<rparr>) = row_ok lib c"
  by (simp_all add: row_ok_def update_labels_def set_owner_def Data_def Let_def split: option.split)

lemma update_keeps [simp]:
  "cr_ID (update_labels inp user c) = cr_ID c" "cr_WorkspaceID (update_labels inp user c) = cr_WorkspaceID c"
  "cr_Name (update_labels inp user c) = cr_Name c" "cr_ID (set_owner kind i c) = cr_ID c"
  "cr_WorkspaceID (set_owner kind i c) = cr_WorkspaceID c" "cr_Name (set_owner kind i c) = cr_Name c"
  "cr_Sensitive (update_labels inp user c) = cr_Sensitive c" "cr_DataEnc (update_labels inp user c) = cr_DataEnc c"
  by (simp_all add: update_labels_def set_owner_def Let_def split: option.split)

lemma encode_Some:
  "lib_ok lib \<Longrightarrow> encode lib ws d = Some (enc, digest) \<Longrightarrow>
   enc \<noteq> [] \<and> cl_open lib enc = Some d \<and> digest = Digest lib d"
  by (auto simp: encode_def lib_ok_def split: option.splits)

lemma update_data_Inr:
  assumes lib: "lib_ok lib" and ok: "row_ok lib c" and upd: "update_data lib inp c = Inr (c', dirty)"
  shows "row_ok lib c' \<and> cr_ID c' = cr_ID c \<and> cr_WorkspaceID c' = cr_WorkspaceID c \<and> cr_Name c' = cr_Name c \<and>
    cr_Mode c' = cr_Mode c \<and>
    (\<forall>d. in_Data inp = Some d \<longrightarrow> (referencesSecret d \<longrightarrow> cr_Sensitive c') \<and> dirty = (Digest lib d \<noteq> cr_Digest c) \<and>
       (if dirty then Data lib c' = Some d else Data lib c' = Data lib c))"
proof (cases "in_Data inp")
  case None
  with ok upd show ?thesis by (simp add: update_data_def)
next
  case (Some d)
  obtain enc digest where valid: "ValidateData d = None" and enc: "encode lib (cr_WorkspaceID c) d = Some (enc, digest)"
    using upd Some by (auto simp: update_data_def split: option.splits)
  have e: "enc \<noteq> []" "cl_open lib enc = Some d" "digest = Digest lib d" using encode_Some [OF lib enc] by simp_all
  let ?c = "if digest \<noteq> cr_Digest c then c\<lparr>cr_DataEnc := enc, cr_Digest := digest, cr_Version := wrap64 (cr_Version c + 1)\<rparr> else c"
  have c': "c' = (if referencesSecret d then ?c\<lparr>cr_Sensitive := True\<rparr> else ?c)" "dirty = (digest \<noteq> cr_Digest c)"
    using upd by (simp_all add: update_data_def Some valid enc Let_def)
  have "row_ok lib c'"
    using ok valid e unfolding c' row_ok_def by (auto simp: Data_def)
  then show ?thesis using c' e Some by (auto simp: Data_def)
qed

lemma update_mode_Inr:
  assumes "row_ok lib c" and "update_mode inp (c, dirty) = Inr (c', dirty')"
  shows "row_ok lib c' \<and> cr_ID c' = cr_ID c \<and> cr_WorkspaceID c' = cr_WorkspaceID c \<and> cr_Name c' = cr_Name c \<and>
    cr_Sensitive c' = cr_Sensitive c \<and> Data lib c' = Data lib c \<and>
    dirty' = (dirty \<or> (in_Mode inp \<noteq> [] \<and> in_Mode inp \<noteq> cr_Mode c))"
  using assms by (auto simp: update_mode_def row_ok_def Data_def split: if_splits option.splits)

lemma FindInWorkspace_Some:
  "FindInWorkspace s ws i = Some c \<Longrightarrow> c \<in> set (cs_rows s) \<and> cr_ID c = i \<and> cr_WorkspaceID c = ws"
  by (auto simp: FindInWorkspace_def find_Some_iff)

lemma repo_Update_inv:
  assumes inv: "config_inv lib s" and c: "c \<in> set (cs_rows s)" and c': "row_ok lib c'"
    and same: "cr_ID c' = cr_ID c" "cr_WorkspaceID c' = cr_WorkspaceID c" "cr_Name c' = cr_Name c"
  shows "config_inv lib (repo_Update c' s)"
proof -
  let ?f = "\<lambda>x. if cr_ID x = cr_ID c' then c' else x"
  have unique: "x = c" if "x \<in> set (cs_rows s)" "cr_ID x = cr_ID c" for x
  proof -
    have "inj_on cr_ID (set (cs_rows s))" using inv by (simp add: config_inv_def distinct_map)
    then show ?thesis using c that unfolding inj_on_def by blast
  qed
  have "map cr_ID (map ?f (cs_rows s)) = map cr_ID (cs_rows s)" by (simp add: same)
  moreover have "map (\<lambda>c. (cr_WorkspaceID c, cr_Name c)) (map ?f (cs_rows s)) = map (\<lambda>c. (cr_WorkspaceID c, cr_Name c)) (cs_rows s)"
  proof -
    have "(cr_WorkspaceID (?f x), cr_Name (?f x)) = (cr_WorkspaceID x, cr_Name x)" if "x \<in> set (cs_rows s)" for x
      using unique [OF that] same by (cases "cr_ID x = cr_ID c'") simp_all
    then show ?thesis by (simp only: map_map comp_def cong: map_cong)
  qed
  moreover have "list_all (\<lambda>c. cr_ID c < cs_next s \<and> row_ok lib c) (map ?f (cs_rows s))"
  proof -
    have "cr_ID (?f x) < cs_next s \<and> row_ok lib (?f x)" if "x \<in> set (cs_rows s)" for x
      using inv c c' same(1) that unfolding config_inv_def list_all_iff by (cases "cr_ID x = cr_ID c'") simp_all
    then show ?thesis unfolding list_all_iff set_map ball_simps by blast
  qed
  ultimately show ?thesis using inv unfolding config_inv_def repo_Update_def by (simp del: map_map)
qed

lemma filter_inv: "config_inv lib s \<Longrightarrow> config_inv lib (s\<lparr>cs_rows := filter P (cs_rows s)\<rparr>)"
  by (auto simp: config_inv_def list_all_iff distinct_map_filter)

lemma repo_Delete_inv: "config_inv lib s \<Longrightarrow> config_inv lib (repo_Delete i s)"
  unfolding repo_Delete_def by (rule filter_inv)

lemma cfg_Delete_inv: "config_inv lib s \<Longrightarrow> config_inv lib (snd (cfg_Delete cons ws i s))"
  by (simp add: cfg_Delete_def repo_Delete_inv split: option.split list.split prod.split)

lemma DeleteOwned_inv: "config_inv lib s \<Longrightarrow> config_inv lib (DeleteOwned ws kind i s)"
proof -
  have "config_inv lib s \<Longrightarrow> config_inv lib (fold (\<lambda>c. repo_Delete (cr_ID c)) cs s)" for cs
    by (induction cs arbitrary: s) (simp_all add: repo_Delete_inv)
  then show "config_inv lib s \<Longrightarrow> config_inv lib (DeleteOwned ws kind i s)" unfolding DeleteOwned_def .
qed

lemma repo_Create_inv:
  assumes "config_inv lib s" and "row_ok lib c" and "repo_Create c s = Some (c', s')"
  shows "config_inv lib s' \<and> c' \<in> set (cs_rows s') \<and> row_ok lib c'"
proof -
  have s': "c' = c\<lparr>cr_ID := cs_next s\<rparr>" "s' = \<lparr>cs_rows = cs_rows s @ [c'], cs_next = Suc (cs_next s)\<rparr>"
    and new: "\<not> ExistsByName s (cr_WorkspaceID c) (cr_Name c)"
    using assms(3) by (auto simp: repo_Create_def Let_def split: if_splits)
  have "(cr_WorkspaceID c, cr_Name c) \<notin> set (map (\<lambda>c. (cr_WorkspaceID c, cr_Name c)) (cs_rows s))"
    using new by (auto simp: ExistsByName_def list_ex_iff)
  moreover have "cs_next s \<notin> set (map cr_ID (cs_rows s))"
    using assms(1) by (auto simp: config_inv_def list_all_iff)
  ultimately show ?thesis using assms(1,2) unfolding s'
    by (auto simp: config_inv_def list_all_iff)
qed

lemma Create_Inr:
  assumes lib: "lib_ok lib" and inv: "config_inv lib s" and cr: "cfg_Create lib ws inp user s = (Inr c, s')"
  shows "config_inv lib s' \<and> c \<in> set (cs_rows s') \<and> row_ok lib c \<and>
    (referencesSecret (or_else (in_Data inp) []) \<longrightarrow> cr_Sensitive c)"
proof -
  let ?data = "or_else (in_Data inp) []" and ?mode = "if in_Mode inp = [] then ''0644'' else in_Mode inp"
  obtain enc digest where v: "rx_match nameRe (TrimSpace (in_Name inp))" "ValidateData ?data = None" "ValidateMode ?mode = None"
    and enc: "encode lib ws ?data = Some (enc, digest)"
    using cr by (auto simp: cfg_Create_def Let_def split: option.splits if_splits prod.splits)
  let ?row = "\<lparr>cr_ID = 0, cr_WorkspaceID = ws, cr_Name = TrimSpace (in_Name inp), cr_DisplayName = in_DisplayName inp,
    cr_Description = in_Description inp, cr_DataEnc = enc, cr_Digest = digest, cr_Mode = ?mode,
    cr_Sensitive = (in_Sensitive inp \<or> referencesSecret ?data), cr_Delimiters = or_else (in_Delimiters inp) [],
    cr_Version = 1, cr_UpdatedByID = user, cr_Managed = False, cr_OwnerKind = [], cr_OwnerID = 0\<rparr>"
  have new: "repo_Create ?row s = Some (c, s')"
    using cr v enc by (simp add: cfg_Create_def Let_def split: option.splits if_splits prod.splits)
  have "row_ok lib ?row" using v encode_Some [OF lib enc] by (simp add: row_ok_def Data_def)
  moreover have "cr_Sensitive c = cr_Sensitive ?row" using new by (auto simp: repo_Create_def Let_def split: if_splits)
  ultimately show ?thesis using repo_Create_inv [OF inv _ new] by simp
qed

lemma Create_inv: "lib_ok lib \<Longrightarrow> config_inv lib s \<Longrightarrow> config_inv lib (snd (cfg_Create lib ws inp user s))"
proof (cases "cfg_Create lib ws inp user s")
  case (Pair r s')
  assume *: "lib_ok lib" "config_inv lib s"
  show ?thesis
  proof (cases r)
    case (Inl e)
    with Pair have "s' = s" by (auto simp: cfg_Create_def Let_def split: option.splits if_splits prod.splits)
    with Pair * show ?thesis by simp
  next
    case (Inr c)
    with Pair Create_Inr [OF *] show ?thesis by simp
  qed
qed

lemma Update_Inr:
  assumes lib: "lib_ok lib" and inv: "config_inv lib s" and up: "cfg_Update lib cons ws i inp user s = (Inr c', fan, s')"
  shows "\<exists>c dirty. FindInWorkspace s ws i = Some c \<and> row_ok lib c' \<and> config_inv lib s' \<and> cr_ID c' = cr_ID c \<and>
    cr_WorkspaceID c' = cr_WorkspaceID c \<and>
    fan = (if dirty \<or> (in_Mode inp \<noteq> [] \<and> in_Mode inp \<noteq> cr_Mode c) then fanOut cons c' else []) \<and>
    (\<forall>d. in_Data inp = Some d \<longrightarrow> (referencesSecret d \<longrightarrow> cr_Sensitive c') \<and> dirty = (Digest lib d \<noteq> cr_Digest c) \<and>
       (if dirty then Data lib c' = Some d else Data lib c' = Data lib c))"
proof -
  obtain c c1 d1 c2 d2 where c: "FindInWorkspace s ws i = Some c" and u: "update_data lib inp c = Inr (c1, d1)"
    and m: "update_mode inp (c1, d1) = Inr (c2, d2)"
    using up by (auto simp: cfg_Update_def split: option.splits sum.splits)
  have r: "c' = update_labels inp user c2" "fan = (if d2 then fanOut cons c' else [])" "s' = repo_Update c' s"
    using up by (auto simp: cfg_Update_def c u m Let_def)
  have row: "row_ok lib c" "c \<in> set (cs_rows s)"
    using inv FindInWorkspace_Some [OF c] by (auto simp: config_inv_def list_all_iff)
  note 1 = update_data_Inr [OF lib row(1) u]
  note 2 = update_mode_Inr [OF conjunct1 [OF 1] m]
  have "Data lib c' = Data lib c2" unfolding r(1) by (simp add: Data_def)
  then have data: "Data lib c' = Data lib c1" using 2 by simp
  have same: "cr_ID c' = cr_ID c" "cr_WorkspaceID c' = cr_WorkspaceID c" "cr_Name c' = cr_Name c"
    and ok: "row_ok lib c'" and sens: "cr_Sensitive c' = cr_Sensitive c1"
    unfolding r(1) using 1 2 by simp_all
  show ?thesis
  proof (intro exI conjI)
    show "FindInWorkspace s ws i = Some c" by (rule c)
    show "row_ok lib c'" by (rule ok)
    show "config_inv lib s'" unfolding r(3) by (rule repo_Update_inv [OF inv row(2) ok same])
    show "cr_ID c' = cr_ID c" "cr_WorkspaceID c' = cr_WorkspaceID c" by (rule same)+
    show "fan = (if d1 \<or> (in_Mode inp \<noteq> [] \<and> in_Mode inp \<noteq> cr_Mode c) then fanOut cons c' else [])"
      unfolding r(2) using 1 2 by simp
    show "\<forall>d. in_Data inp = Some d \<longrightarrow> (referencesSecret d \<longrightarrow> cr_Sensitive c') \<and> d1 = (Digest lib d \<noteq> cr_Digest c) \<and>
       (if d1 then Data lib c' = Some d else Data lib c' = Data lib c)"
      unfolding data sens using 1 by blast
  qed
qed

lemma Update_inv: "lib_ok lib \<Longrightarrow> config_inv lib s \<Longrightarrow> config_inv lib (snd (snd (cfg_Update lib cons ws i inp user s)))"
proof -
  assume *: "lib_ok lib" "config_inv lib s"
  obtain r fan s' where u: "cfg_Update lib cons ws i inp user s = (r, fan, s')" by (cases "cfg_Update lib cons ws i inp user s")
  show ?thesis
  proof (cases r)
    case (Inl e)
    with u have "s' = s" by (auto simp: cfg_Update_def Let_def split: option.splits sum.splits)
    with u * show ?thesis by simp
  next
    case (Inr c)
    with u Update_Inr [OF *] show ?thesis by fastforce
  qed
qed

section \<open>Operations in sequence\<close>

datatype config_op =
    SCreate nat ConfigInput "nat option"
  | SUpdate nat nat ConfigInput "nat option"
  | SUpsert nat string nat ConfigInput
  | SDelete nat nat
  | SDeleteOwned nat string nat

fun config_step :: "ConfigLib \<Rightarrow> Consumers \<Rightarrow> config_op \<Rightarrow> ConfigStore \<Rightarrow> ConfigStore" where
  "config_step lib cons (SCreate ws inp user) s = snd (cfg_Create lib ws inp user s)"
| "config_step lib cons (SUpdate ws i inp user) s = snd (snd (cfg_Update lib cons ws i inp user s))"
| "config_step lib cons (SUpsert ws kind i inp) s = snd (snd (UpsertOwned lib cons ws kind i inp s))"
| "config_step lib cons (SDelete ws i) s = snd (cfg_Delete cons ws i s)"
| "config_step lib cons (SDeleteOwned ws kind i) s = DeleteOwned ws kind i s"

definition empty_store :: ConfigStore where
  "empty_store = \<lparr>cs_rows = [], cs_next = 1\<rparr>"

lemma Upsert_inv:
  assumes lib: "lib_ok lib" and inv: "config_inv lib s"
  shows "config_inv lib (snd (snd (UpsertOwned lib cons ws kind i inp s)))"
proof (cases "FindByName s ws (in_Name inp)")
  case None
  obtain r s' where cr: "cfg_Create lib ws inp None s = (r, s')" by (cases "cfg_Create lib ws inp None s")
  show ?thesis
  proof (cases r)
    case (Inl e)
    with cr None show ?thesis using Create_inv [OF lib inv, of ws inp None] by (simp add: UpsertOwned_def)
  next
    case (Inr c)
    with cr None have u: "snd (snd (UpsertOwned lib cons ws kind i inp s)) = repo_Update (set_owner kind i c) s'"
      by (simp add: UpsertOwned_def Let_def)
    have "config_inv lib s'" "c \<in> set (cs_rows s')" "row_ok lib (set_owner kind i c)"
      using Create_Inr [OF lib inv, of ws inp None c s'] cr Inr by simp_all
    then show ?thesis unfolding u by (rule repo_Update_inv) simp_all
  qed
next
  case (Some c)
  then show ?thesis by (simp add: UpsertOwned_def Let_def Update_inv [OF lib inv])
qed

lemma config_step_inv: "lib_ok lib \<Longrightarrow> config_inv lib s \<Longrightarrow> config_inv lib (config_step lib cons st s)"
  by (cases st) (simp_all add: Create_inv Update_inv Upsert_inv cfg_Delete_inv DeleteOwned_inv)

lemma config_steps_inv: "lib_ok lib \<Longrightarrow> config_inv lib s \<Longrightarrow> config_inv lib (fold (config_step lib cons) steps s)"
  by (induction steps arbitrary: s) (simp_all add: config_step_inv)

lemma piece_refs_Nil [simp]: "piece_refs (pieces []) = []"
  by (simp add: pieces_def)

lemma referencesSecret_content: "referencesSecret data \<Longrightarrow> \<exists>k v. (k, v) \<in> set data \<and> v \<noteq> []"
proof (rule ccontr)
  assume r: "referencesSecret data" and none: "\<nexists>k v. (k, v) \<in> set data \<and> v \<noteq> []"
  have "piece_refs (pieces v) = []" if "(k, v) \<in> set data" for k v
    using none that by (metis piece_refs_Nil)
  then have "concat (map (\<lambda>(_, v). piece_refs (pieces v)) data) = []" by (auto simp: concat_eq_Nil_conv)
  then show False using r unfolding referencesSecret_def SecretRefNames_def by simp
qed

lemma diffConfig_content:
  assumes "r_Config desired = Some d" and "r_Config actual = Some a" and "\<not> cf_Sensitive d"
    and "k \<in> set (map fst (cf_Data d))" and "smap_get (cf_Data a) k \<noteq> smap_get (cf_Data d) k"
  shows "diffConfig actual desired \<noteq> []"
proof -
  let ?ks = "filter (\<lambda>k. smap_get (cf_Data a) k \<noteq> smap_get (cf_Data d) k)
     (sort (remdups (map fst (cf_Data a) @ map fst (cf_Data d))))"
  have "k \<in> set ?ks" using assms(4,5) by simp
  then have "?ks \<noteq> []" by (metis empty_iff list.set(1))
  then have "length (diffConfig actual desired) \<noteq> 0"
    using assms(1-3) unfolding diffConfig_def by (simp add: Let_def)
  then show ?thesis by simp
qed

section \<open>Samples\<close>

definition sample_contents :: "(string \<times> smap) list" where
  "sample_contents =
     [(''1'', [(''app.conf'', ''port=80'')]), (''2'', [(''app.conf'', ''port=81''), (''tls/ca.pem'', ''cert'')]),
      (''3'', [(''app.conf'', ''password=${{ secrets.db }}'')]), (''4'', [(''app.conf'', ''password=${{ env.db }}'')]),
      (''5'', [(''a'', ''x'' @ CHR 0x00 # ''b'' @ CHR 0x00 # ''y'')]), (''6'', [(''a'', ''x''), (''b'', ''y'')])]"

definition sample_data :: "nat \<Rightarrow> smap" where
  "sample_data n = snd (sample_contents ! n)"

definition sample_lib :: ConfigLib where
  "sample_lib =
     \<lparr>cl_sha256hex = (\<lambda>s. s), cl_seal = (\<lambda>_ d. map_option fst (find (\<lambda>(_, x). x = d) sample_contents)),
      cl_open = map_of sample_contents\<rparr>"

definition sample_input :: "nat \<Rightarrow> ConfigInput" where
  "sample_input n =
     \<lparr>in_Name = ''web'', in_DisplayName = [], in_Description = [], in_Data = Some (sample_data n),
      in_Mode = [], in_Sensitive = False, in_Delimiters = None\<rparr>"

definition sample_consumers :: Consumers where
  "sample_consumers = Some (\<lambda>_ _. Some [(''shop'', ''restart''), (''batch'', ''none'')])"

text \<open>The row that creating a config with the n-th content stores.\<close>

definition sample_row :: "nat \<Rightarrow> bool \<Rightarrow> ConfigRow" where
  "sample_row n secret =
     \<lparr>cr_ID = 2, cr_WorkspaceID = 7, cr_Name = ''web'', cr_DisplayName = [], cr_Description = [],
      cr_DataEnc = fst (sample_contents ! n), cr_Digest = digest_input (sample_data n), cr_Mode = ''0644'',
      cr_Sensitive = secret, cr_Delimiters = [], cr_Version = 1, cr_UpdatedByID = None, cr_Managed = False,
      cr_OwnerKind = [], cr_OwnerID = 0\<rparr>"

definition sample_empty :: ConfigStore where
  "sample_empty = \<lparr>cs_rows = [], cs_next = 2\<rparr>"

definition sample_store :: "nat \<Rightarrow> bool \<Rightarrow> ConfigStore" where
  "sample_store n secret = \<lparr>cs_rows = [sample_row n secret], cs_next = 3\<rparr>"

definition sample_mount :: AppMount where
  "sample_mount = \<lparr>am_Path = ''/etc//app/./conf/'', am_ConfigKey = [], am_Mode = []\<rparr>"

definition sample_resolver :: Resolver where
  "sample_resolver = \<lparr>rv_Secret = (\<lambda>n. if n = ''db'' then Some ''hunter2'' else None), rv_Env = (\<lambda>_. None)\<rparr>"

definition sample_config :: "ConfigSpec \<Rightarrow> Resource" where
  "sample_config c = (sample_resource KindConfig ''web'' [])\<lparr>r_Config := Some c\<rparr>"

definition unclean_mounts :: "MountSpec list" where
  "unclean_mounts =
     [\<lparr>mt_Volume = ''data'', mt_Config = [], mt_Key = [], mt_Path = ''/srv/./data'', mt_Mode = [], mt_ReadOnly = False\<rparr>,
      \<lparr>mt_Volume = ''cache'', mt_Config = [], mt_Key = [], mt_Path = ''/srv/data/cache'', mt_Mode = [], mt_ReadOnly = False\<rparr>]"

definition sample_padded :: "string \<Rightarrow> Resource" where
  "sample_padded u = (sample_resource KindApplication ''web'' [])\<lparr>r_Application := Some
     \<lparr>a_Source = None, a_Image = ''nginx'', a_ImageTag = [], a_ImageDigest = [], a_Command = [], a_Ports = [],
      a_Env = [], a_SecretEnv = [], a_Mounts = [], a_Resources = None, a_Placement = None, a_Deployment = None,
      a_Security = Some \<lparr>se_RunAsUser = u, se_ReadOnlyRootFilesystem = False, se_NoNewPrivileges = None,
        se_Capabilities = None, se_Devices = [], se_DeprecatedAddCapabilities = None\<rparr>,
      a_Healthcheck = None, a_ContainerLabels = [], a_Stack = [], a_Registry = [], a_ExternalLabel = [],
      a_ReloadPolicy = ''restart'', a_ConfigFP = [], a_DeprecatedRunAsUser = [], a_DeprecatedStrategy = []\<rparr>\<rparr>"

lemma sample_lib_ok: "lib_ok sample_lib"
proof -
  have "e \<noteq> [] \<and> map_of sample_contents e = Some d" if "(e, d) \<in> set sample_contents" for e d
    using that by (auto simp: sample_contents_def)
  moreover have "(e, d) \<in> set sample_contents" if "cl_seal sample_lib ws d = Some e" for ws d e
    using that by (auto simp: sample_lib_def find_Some_iff) (metis nth_mem)
  moreover have "cl_open sample_lib = map_of sample_contents" by (simp add: sample_lib_def)
  ultimately show ?thesis unfolding lib_ok_def by metis
qed

lemma sample_create_plain: "cfg_Create sample_lib 7 (sample_input 0) None sample_empty = (Inr (sample_row 0 False), sample_store 0 False)"
  by code_simp

lemma sample_create_secret: "cfg_Create sample_lib 7 (sample_input 2) None sample_empty = (Inr (sample_row 2 True), sample_store 2 True)"
  by code_simp

lemma sample_create_env: "cfg_Create sample_lib 7 (sample_input 3) None sample_empty = (Inr (sample_row 3 False), sample_store 3 False)"
  by code_simp

lemma sample_empty_inv: "config_inv sample_lib sample_empty"
  by (simp add: config_inv_def sample_empty_def)

lemma sample_store_inv: "config_inv sample_lib (sample_store 0 False)"
  using Create_Inr [OF sample_lib_ok sample_empty_inv sample_create_plain] by simp

lemma sample_update:
  "cfg_Update sample_lib sample_consumers 7 2 (sample_input 1) None (sample_store 0 False) =
     (let c = (sample_row 1 False)\<lparr>cr_Version := 2\<rparr> in (Inr c, [''shop''], \<lparr>cs_rows = [c], cs_next = 3\<rparr>))"
  by code_simp

section \<open>Properties\<close>

text \<open>C34: a configuration that is mounted as a directory stays in it. With accepted files and a mount that is
  not at the root, every file lands at the cleaned directory of the mount followed by its key, and no two
  files land on the same path.\<close>

theorem projected_files_stay_beneath:
  assumes "ValidateData data = None" and "distinct (map fst data)"
    and "am_ConfigKey mount = []" and "HasPrefix (TrimSuffix (am_Path mount) ''/'') ''/''"
    and "project c data mount = Inr files"
  shows "map pf_Path files = map (\<lambda>k. mount_dir (am_Path mount) @ ''/'' @ k) (sort (map fst data)) \<and>
    distinct (map pf_Path files)"
proof -
  obtain q where q: "TrimSuffix (am_Path mount) ''/'' = CHR ''/'' # q"
    using assms(4) by (auto simp: HasPrefix_iff)
  have "map pf_Path files = map (path_Join (TrimSuffix (am_Path mount) ''/'')) (sort (map fst data))"
    using assms(3,5) by (auto simp: project_def Let_def comp_def)
  also have "\<dots> = map (\<lambda>k. mount_dir (am_Path mount) @ ''/'' @ k) (sort (map fst data))"
    using ValidateData_keys [OF assms(1)] path_Join_key [OF _ q] by simp
  finally have "map pf_Path files = map (\<lambda>k. mount_dir (am_Path mount) @ ''/'' @ k) (sort (map fst data))" .
  then show ?thesis using assms(2) by (simp add: distinct_map inj_on_def)
qed

theorem projected_files_stay_beneath_witness:
  "map (\<lambda>k. mount_dir (am_Path sample_mount) @ ''/'' @ k) (sort (map fst (sample_data 1))) =
     [''/etc/app/conf/app.conf'', ''/etc/app/conf/tls/ca.pem''] \<and>
   distinct [''/etc/app/conf/app.conf'', ''/etc/app/conf/tls/ca.pem'']"
proof -
  let ?files = "map (\<lambda>k. \<lparr>pf_Path = path_Join (TrimSuffix (am_Path sample_mount) ''/'') k,
      pf_Content = smap_get (sample_data 1) k, pf_Mode = ''0644''\<rparr>) (sort (map fst (sample_data 1)))"
  have "project (sample_row 1 False) (sample_data 1) sample_mount = Inr ?files"
    by (simp add: project_def sample_mount_def sample_row_def)
  moreover have "ValidateData (sample_data 1) = None" "distinct (map fst (sample_data 1))"
    "am_ConfigKey sample_mount = []" "HasPrefix (TrimSuffix (am_Path sample_mount) ''/'') ''/''" by code_simp+
  ultimately have "map pf_Path ?files = map (\<lambda>k. mount_dir (am_Path sample_mount) @ ''/'' @ k) (sort (map fst (sample_data 1))) \<and>
      distinct (map pf_Path ?files)"
    using projected_files_stay_beneath by blast
  moreover have p: "map pf_Path ?files = [''/etc/app/conf/app.conf'', ''/etc/app/conf/tls/ca.pem'']" by code_simp
  ultimately show ?thesis unfolding p by (elim conjE) (rule conjI, rule sym)
qed




text \<open>An update redeploys on a change of content and on nothing else. For data without NUL bytes and a
  digest without collisions, the applications that mount the config and do not watch their own file are
  redeployed exactly when the map of files or the mode differs from the stored one, and the row then
  opens to the new files.\<close>

theorem update_redeploys_on_change:
  assumes lib: "lib_ok lib" and inv: "config_inv lib s" and sha: "inj (cl_sha256hex lib)"
    and find: "FindInWorkspace s ws i = Some c" and old: "Data lib c = Some old" and new: "in_Data inp = Some new"
    and up: "cfg_Update lib cons ws i inp user s = (Inr c', redeployed, s')"
    and keys: "distinct (map fst old)" "distinct (map fst new)" and nul: "no_nul old" "no_nul new"
  shows "redeployed = (if map_of new \<noteq> map_of old \<or> (in_Mode inp \<noteq> [] \<and> in_Mode inp \<noteq> cr_Mode c) then fanOut cons c' else []) \<and>
    (\<exists>d. Data lib c' = Some d \<and> map_of d = map_of new)"
proof -
  obtain dirty where u: "redeployed = (if dirty \<or> (in_Mode inp \<noteq> [] \<and> in_Mode inp \<noteq> cr_Mode c) then fanOut cons c' else [])"
      "dirty = (Digest lib new \<noteq> cr_Digest c)" "if dirty then Data lib c' = Some new else Data lib c' = Data lib c"
    using Update_Inr [OF lib inv up] find new by auto
  have "row_ok lib c" using inv FindInWorkspace_Some [OF find] by (auto simp: config_inv_def list_all_iff)
  then have "cr_Digest c = Digest lib old" using old by (simp add: row_ok_def)
  then have "dirty = (digest_input new \<noteq> digest_input old)" using u(2) sha by (simp add: Digest_def inj_eq)
  then have dirty: "dirty = (map_of new \<noteq> map_of old)" using digest_input_inj [OF keys(2,1) nul(2,1)] by simp
  then show ?thesis using u old by (cases dirty) auto
qed

theorem update_redeploys_on_change_witness:
  "[''shop''] = fanOut sample_consumers ((sample_row 1 False)\<lparr>cr_Version := 2\<rparr>) \<and>
    (\<exists>d. Data sample_lib ((sample_row 1 False)\<lparr>cr_Version := 2\<rparr>) = Some d \<and> map_of d = map_of (sample_data 1))"
proof -
  have "FindInWorkspace (sample_store 0 False) 7 2 = Some (sample_row 0 False)" by code_simp
  moreover have "Data sample_lib (sample_row 0 False) = Some (sample_data 0)" by code_simp
  moreover have "in_Data (sample_input 1) = Some (sample_data 1)" by (simp add: sample_input_def)
  moreover have "inj (cl_sha256hex sample_lib)" by (simp add: sample_lib_def)
  moreover have "distinct (map fst (sample_data 0))" "distinct (map fst (sample_data 1))"
    "no_nul (sample_data 0)" "no_nul (sample_data 1)" by code_simp+
  ultimately have *: "[''shop''] = (if map_of (sample_data 1) \<noteq> map_of (sample_data 0) \<or>
        (in_Mode (sample_input 1) \<noteq> [] \<and> in_Mode (sample_input 1) \<noteq> cr_Mode (sample_row 0 False))
      then fanOut sample_consumers ((sample_row 1 False)\<lparr>cr_Version := 2\<rparr>) else []) \<and>
      (\<exists>d. Data sample_lib ((sample_row 1 False)\<lparr>cr_Version := 2\<rparr>) = Some d \<and> map_of d = map_of (sample_data 1))"
    using update_redeploys_on_change [OF sample_lib_ok sample_store_inv] sample_update [unfolded Let_def] by blast
  then show ?thesis by (metis not_Cons_self2)
qed

text \<open>A config whose files refer to a secret never converges. Creating or updating it marks the row
  sensitive, so the snapshot carries no content; a manifest that does not mark it sensitive is compared
  file by file, and every plan reports all of its files as changed.\<close>

theorem secret_config_never_converges:
  assumes lib: "lib_ok lib" and inv: "config_inv lib s" and data: "in_Data inp = Some data" "distinct (map fst data)" "referencesSecret data"
    and stored: "fst (cfg_Create lib ws inp user s) = Inr c \<or> fst (cfg_Update lib cons ws i inp user s) = Inr c"
    and desired: "r_Config desired = Some d" "cf_Data d = data" "\<not> cf_Sensitive d"
    and actual: "r_Config actual = Some (snapshot_spec lib c)"
  shows "diffConfig actual desired \<noteq> []"
proof -
  have "cr_Sensitive c"
    using stored
  proof
    assume "fst (cfg_Create lib ws inp user s) = Inr c"
    then show ?thesis using Create_Inr [OF lib inv, of ws inp user c] data
      by (cases "cfg_Create lib ws inp user s") (simp add: or_else_def)
  next
    assume "fst (cfg_Update lib cons ws i inp user s) = Inr c"
    then show ?thesis using Update_Inr [OF lib inv, of cons ws i inp user c] data
      by (cases "cfg_Update lib cons ws i inp user s") auto
  qed
  then have "cf_Data (snapshot_spec lib c) = []" by (simp add: snapshot_spec_def)
  moreover obtain k v where kv: "(k, v) \<in> set data" "v \<noteq> []" using referencesSecret_content [OF data(3)] by blast
  moreover have "smap_get data k = v" using kv data(2) by (simp add: smap_get_def)
  moreover have "k \<in> set (map fst data)" using kv(1) by force
  ultimately show ?thesis
    using diffConfig_content [OF desired(1) actual desired(3), of k] desired(2) by (simp add: smap_get_def)
qed

theorem secret_config_never_converges_witness:
  "diffConfig (sample_config (snapshot_spec sample_lib (sample_row 2 True)))
     (sample_config \<lparr>cf_Data = sample_data 2, cf_Mode = ''0644'', cf_Sensitive = False, cf_Delimiters = [],
        cf_DigestFP = digest_input (sample_data 2)\<rparr>) \<noteq> []"
proof -
  let ?d = "\<lparr>cf_Data = sample_data 2, cf_Mode = ''0644'', cf_Sensitive = False, cf_Delimiters = [],
        cf_DigestFP = digest_input (sample_data 2)\<rparr> :: ConfigSpec"
  have "in_Data (sample_input 2) = Some (sample_data 2)" by (simp add: sample_input_def)
  moreover have "distinct (map fst (sample_data 2))" "referencesSecret (sample_data 2)" by code_simp+
  moreover have "fst (cfg_Create sample_lib 7 (sample_input 2) None sample_empty) = Inr (sample_row 2 True) \<or>
      fst (cfg_Update sample_lib None 7 2 (sample_input 2) None sample_empty) = Inr (sample_row 2 True)"
    by (simp add: sample_create_secret)
  moreover have "r_Config (sample_config c) = Some c" for c by (simp add: sample_config_def)
  moreover have "cf_Data ?d = sample_data 2" "\<not> cf_Sensitive ?d" by simp_all
  ultimately show ?thesis using secret_config_never_converges [OF sample_lib_ok sample_empty_inv] by blast
qed

text \<open>The API checks what a manifest checks, and no more: a config in a manifest is accepted exactly when
  the service accepts its files and its mode and, beyond what the service looks at, its delimiters are
  two different texts.\<close>

theorem api_accepts_what_a_manifest_does:
  "validateConfig name (Some c) = None \<longleftrightarrow>
     ValidateData (cf_Data c) = None \<and> ValidateMode (cf_Mode c) = None \<and> Delimiters_ok name (cf_Delimiters c) = None"
proof -
  have one: "check_file (k, v) = None \<longleftrightarrow> validateConfigKey k = None \<and> int (length v) \<le> MaxConfigFileBytes" for k v
  proof
    assume *: "check_file (k, v) = None"
    then have "int (length v) \<le> MaxFileBytes" unfolding check_file_def prod.case first_some_None guard_None by simp
    then show "validateConfigKey k = None \<and> int (length v) \<le> MaxConfigFileBytes"
      using check_file_key [OF *] by (simp add: MaxConfigFileBytes_def MaxFileBytes_def)
  next
    assume "validateConfigKey k = None \<and> int (length v) \<le> MaxConfigFileBytes"
    then show "check_file (k, v) = None"
      unfolding check_file_def prod.case first_some_None guard_None keyRe_eq validateConfigKey_def first_error_None MaxConfigFileBytes_def MaxFileBytes_def
      by simp
  qed
  have mode: "ValidateMode m = None \<longleftrightarrow> validateFileMode m = None" for m
    by (simp add: ValidateMode_def validateFileMode_def split: option.split)
  have size: "MaxTotalBytes = MaxConfigTotalBytes" by (simp add: MaxTotalBytes_def MaxConfigTotalBytes_def)
  have each: "check_file kv = None \<longleftrightarrow> validateConfigKey (fst kv) = None \<and> int (length (snd kv)) \<le> MaxConfigFileBytes" for kv
    using one by (cases kv) simp
  show ?thesis
    unfolding validateConfig_def option.case first_some_None guard_None ValidateData_def mode first_error_None not_less size each
    by (auto simp: case_prod_beta)
qed

text \<open>An update never changes whether a config is sensitive on request. The flag of the input is not read,
  so a manifest that marks an existing config sensitive leaves its content readable.\<close>

theorem update_ignores_the_sensitive_flag:
  "cfg_Update lib cons ws i (inp\<lparr>in_Sensitive := b\<rparr>) user s = cfg_Update lib cons ws i inp user s"
proof -
  have fields_same: "in_Data (inp\<lparr>in_Sensitive := b\<rparr>) = in_Data inp" "in_Mode (inp\<lparr>in_Sensitive := b\<rparr>) = in_Mode inp"
    "in_DisplayName (inp\<lparr>in_Sensitive := b\<rparr>) = in_DisplayName inp" "in_Description (inp\<lparr>in_Sensitive := b\<rparr>) = in_Description inp"
    "in_Delimiters (inp\<lparr>in_Sensitive := b\<rparr>) = in_Delimiters inp"
    by simp_all
  have "update_data lib (inp\<lparr>in_Sensitive := b\<rparr>) c = update_data lib inp c" "update_mode (inp\<lparr>in_Sensitive := b\<rparr>) cc = update_mode inp cc"
    "update_labels (inp\<lparr>in_Sensitive := b\<rparr>) user c = update_labels inp user c" for c cc
    unfolding update_data_def update_mode_def update_labels_def fields_same by (rule refl)+
  then show ?thesis unfolding cfg_Update_def by (simp only:)
qed

text \<open>A reference to a variable reads a secret of that name, and the config is not marked sensitive for
  it: the stored row stays readable while the projected file holds the secret.\<close>

theorem env_reference_reads_a_secret:
  "cfg_Create sample_lib 7 (sample_input 3) None sample_empty = (Inr (sample_row 3 False), sample_store 3 False) \<and>
   sample_data 3 = [(''app.conf'', ''password=${{ env.db }}'')] \<and>
   ProjectWith sample_lib (sample_row 3 False) sample_mount (Some sample_resolver) =
     Inr [\<lparr>pf_Path = ''/etc/app/conf/app.conf'', pf_Content = ''password=hunter2'', pf_Mode = ''0644''\<rparr>]"
proof (intro conjI)
  show "sample_data 3 = [(''app.conf'', ''password=${{ env.db }}'')]" by code_simp
  show "ProjectWith sample_lib (sample_row 3 False) sample_mount (Some sample_resolver) =
     Inr [\<lparr>pf_Path = ''/etc/app/conf/app.conf'', pf_Content = ''password=hunter2'', pf_Mode = ''0644''\<rparr>]" by code_simp
qed (rule sample_create_env)

text \<open>An update can be lost to the digest. Two different maps of files have the same digest when a file
  holds NUL bytes, and updating one to the other leaves the old content stored and redeploys nothing.\<close>

theorem nul_content_update_lost:
  "Digest sample_lib (sample_data 4) = Digest sample_lib (sample_data 5) \<and> sample_data 4 \<noteq> sample_data 5 \<and>
   cfg_Update sample_lib sample_consumers 7 2 (sample_input 5) None (sample_store 4 False) =
     (Inr (sample_row 4 False), [], sample_store 4 False)"
  by (intro conjI; code_simp)

text \<open>Upserting a config that exists does not make it owned. The owner is set on a copy that is never
  stored, so tearing the owner down leaves the config behind.\<close>

theorem upsert_loses_the_owner:
  "let s = snd (snd (UpsertOwned sample_lib None 7 ''database'' 3 (sample_input 1) (sample_store 0 False)))
   in map cr_Managed (cs_rows s) = [False] \<and> cs_rows (DeleteOwned 7 ''database'' 3 s) = cs_rows s"
  by code_simp

text \<open>A config mounted at the root is projected to relative paths, although the mount path is absolute and
  accepted.\<close>

theorem root_mount_projects_relative_paths:
  "validateMount ''web'' \<lparr>mt_Volume = [], mt_Config = ''web'', mt_Key = [], mt_Path = ''/'', mt_Mode = [], mt_ReadOnly = True\<rparr> = None \<and>
   project (sample_row 0 False) (sample_data 0) (sample_mount\<lparr>am_Path := ''/''\<rparr>) =
     Inr [\<lparr>pf_Path = ''app.conf'', pf_Content = ''port=80'', pf_Mode = ''0644''\<rparr>]"
  by (intro conjI; code_simp)

text \<open>The overlap check compares paths as they are written. A volume whose path is not clean hides a mount
  inside it, and the check accepts the two.\<close>

theorem unclean_mount_slips_through:
  "first_error (validateMount ''web'') unclean_mounts = None \<and> validateMountOverlap ''web'' unclean_mounts = None \<and>
   map (path_Clean \<circ> mt_Path) unclean_mounts = [''/srv/data'', ''/srv/data/cache'']"
  by (intro conjI; code_simp)

text \<open>An account written with surrounding space never converges. It is accepted and stored without the
  space, and every plan compares the text of the manifest with the stored one.\<close>

theorem padded_account_never_converges:
  "validate sample_std (\<lambda>_. True) (sample_padded '' 1000'') = None \<and> NormalizeRunAsUser '' 1000'' = Inr ''1000'' \<and>
   diffFields sample_std (sample_padded ''1000'') (sample_padded '' 1000'') \<noteq> []"
  by (intro conjI; code_simp)

end
