(* ===== verification/Netalloc.thy ===== *)
theory Netalloc
  imports Go_Prelude "HOL-Library.Word"
begin

text \<open>
  The subnet allocator, \<^verbatim>\<open>internal/services/netalloc\<close>, over the ledger table of
  \<^verbatim>\<open>internal/storage/repositories/network_allocation_repo.go\<close>. It carves subnets of one size out of an
  IPv4 pool and records who holds which. The lemmas show that the subnets of a pool are disjoint and
  inside it, that two rows never share a name or a subnet whatever database calls fail, what an
  allocation and an \<open>EnsureManaged\<close> can return, and where the arithmetic on \<open>uint32\<close> gives out.

  The table's unique keys are the checks of \<open>db_Create\<close>. A schedule \<open>db_fault\<close> says which database
  calls fail, by the number of the call. The Docker engine is an argument: \<open>provision k spec\<close> is its
  answer to the \<open>k\<close>-th request of a call, an id or an error text. \<open>net.ParseCIDR\<close> is modelled on
  IPv4 text; IPv6 text does not parse here and is refused by the callers either way (the one form
  they would accept, an IPv4-mapped IPv6 network, is not covered).
\<close>

section \<open>Addresses\<close>

definition u32ToIP :: "32 word \<Rightarrow> string" where
  "u32ToIP v =
     (let n = unat v
      in JoinStr (map (\<lambda>b. nat_digits b) [n div 2 ^ 24, n div 2 ^ 16 mod 2 ^ 8, n div 2 ^ 8 mod 2 ^ 8, n mod 2 ^ 8]) ''.'')"

text \<open>A decimal octet without a leading zero, as \<open>net.ParseCIDR\<close> reads it.\<close>

definition parse_octet :: "string \<Rightarrow> nat option" where
  "parse_octet s =
     (if s = [] \<or> \<not> list_all is_digit s \<or> (length s > 1 \<and> hd s = CHR ''0'') \<or> digits_val s > 255 then None
      else Some (nat (digits_val s)))"

definition parse_ipv4 :: "string \<Rightarrow> 32 word option" where
  "parse_ipv4 s =
     (case map parse_octet (SplitChar s CHR ''.'') of
        [Some a, Some b, Some c, Some d] \<Rightarrow> Some (word_of_nat (a * 2 ^ 24 + b * 2 ^ 16 + c * 2 ^ 8 + d))
      | _ \<Rightarrow> None)"

definition parse_prefix :: "string \<Rightarrow> nat option" where
  "parse_prefix s =
     (if s = [] \<or> \<not> list_all is_digit s \<or> digits_val s > 32 then None else Some (nat (digits_val s)))"

definition netmask :: "nat \<Rightarrow> 32 word" where
  "netmask p = push_bit (32 - p) (- 1)"

text \<open>The masked network address and the prefix length.\<close>

definition ParseCIDR :: "string \<Rightarrow> (32 word \<times> nat) option" where
  "ParseCIDR s =
     (case CutChar s CHR ''/'' of
        (ip, bits, found) \<Rightarrow>
          if \<not> found then None
          else (case (parse_ipv4 ip, parse_prefix bits) of
                  (Some a, Some p) \<Rightarrow> Some (and a (netmask p), p)
                | _ \<Rightarrow> None))"

section \<open>The pool\<close>

record Pool =
  pool_base :: "32 word"
  pool_total :: "32 word"
  pool_step :: "32 word"
  pool_prefix :: nat

datatype pool_error = BadPool | PrefixDoesNotFit

definition NewService :: "string \<Rightarrow> int \<Rightarrow> pool_error + Pool" where
  "NewService poolCIDR subnetPrefix =
     (case ParseCIDR (TrimSpace poolCIDR) of
        None \<Rightarrow> Inl BadPool
      | Some (addr, poolPrefix) \<Rightarrow>
          if subnetPrefix \<le> int poolPrefix \<or> subnetPrefix > 30 then Inl PrefixDoesNotFit
          else Inr \<lparr>pool_base = addr, pool_total = push_bit (nat subnetPrefix - poolPrefix) 1,
                    pool_step = push_bit (32 - nat subnetPrefix) 1, pool_prefix = nat subnetPrefix\<rparr>)"

definition netAddr :: "Pool \<Rightarrow> 32 word \<Rightarrow> 32 word" where
  "netAddr s i = pool_base s + i * pool_step s"

definition subnetAt :: "Pool \<Rightarrow> 32 word \<Rightarrow> string \<times> string" where
  "subnetAt s i =
     (u32ToIP (netAddr s i) @ ''/'' @ nat_digits (pool_prefix s), u32ToIP (netAddr s i + 1))"

definition Capacity :: "Pool \<Rightarrow> nat" where
  "Capacity s = unat (pool_total s)"

definition inPool :: "Pool \<Rightarrow> string \<Rightarrow> bool" where
  "inPool s subnet =
     (case ParseCIDR (TrimSpace subnet) of
        None \<Rightarrow> False
      | Some (addr, _) \<Rightarrow>
          if addr < pool_base s then False
          else addr < pool_base s + pool_total s * pool_step s)"

definition reservedName :: "string \<Rightarrow> string" where
  "reservedName subnet = ''reserved:'' @ subnet"

definition isSubnetOverlap :: "string \<Rightarrow> bool" where
  "isSubnetOverlap msg = ContainsStr (ToLower msg) ''overlap''"

section \<open>The ledger table\<close>

record NetworkAllocation =
  n_DockerName :: string
  n_Subnet :: string
  n_Gateway :: string
  n_NodeID :: nat
  n_Kind :: string

record Db =
  db_rows :: "NetworkAllocation list"
  db_calls :: nat
  db_fault :: "nat \<Rightarrow> bool"

definition tick :: "Db \<Rightarrow> Db" where
  "tick db = db\<lparr>db_calls := Suc (db_calls db)\<rparr>"

definition fails :: "Db \<Rightarrow> bool" where
  "fails db = db_fault db (db_calls db)"

definition db_Create :: "NetworkAllocation \<Rightarrow> Db \<Rightarrow> Db \<times> bool" where
  "db_Create a db =
     (if fails db \<or> list_ex (\<lambda>b. n_DockerName b = n_DockerName a \<or> n_Subnet b = n_Subnet a) (db_rows db)
      then (tick db, False)
      else ((tick db)\<lparr>db_rows := db_rows db @ [a]\<rparr>, True))"

definition FindByDockerName :: "string \<Rightarrow> Db \<Rightarrow> Db \<times> NetworkAllocation option" where
  "FindByDockerName name db =
     (tick db, if fails db then None else find (\<lambda>a. n_DockerName a = name) (db_rows db))"

definition DeleteByDockerName :: "string \<Rightarrow> Db \<Rightarrow> Db \<times> bool" where
  "DeleteByDockerName name db =
     (if fails db then (tick db, False)
      else ((tick db)\<lparr>db_rows := filter (\<lambda>a. n_DockerName a \<noteq> name) (db_rows db)\<rparr>, True))"

definition ExistsBySubnet :: "string \<Rightarrow> Db \<Rightarrow> Db \<times> bool" where
  "ExistsBySubnet subnet db =
     (tick db, \<not> fails db \<and> list_ex (\<lambda>a. n_Subnet a = subnet) (db_rows db))"

definition AllSubnets :: "Db \<Rightarrow> Db \<times> string list option" where
  "AllSubnets db = (tick db, if fails db then None else Some (map n_Subnet (db_rows db)))"

definition Count :: "Db \<Rightarrow> Db \<times> nat" where
  "Count db = (tick db, if fails db then 0 else length (db_rows db))"

definition Stats :: "Pool \<Rightarrow> Db \<Rightarrow> Db \<times> nat \<times> nat" where
  "Stats s db = (case Count db of (db', n) \<Rightarrow> (db', n, Capacity s))"

section \<open>Allocating\<close>

datatype alloc_error =
    DbError
  | ErrPoolExhausted
  | EngineError string
  | NoFreeSubnet

text \<open>The loop from the \<open>i\<close>-th subnet on; \<open>n\<close> is how many subnets are left.\<close>

fun alloc_loop ::
  "Pool \<Rightarrow> string \<Rightarrow> nat \<Rightarrow> string \<Rightarrow> nat \<Rightarrow> nat \<Rightarrow> string list \<Rightarrow> Db \<Rightarrow> Db \<times> (alloc_error + NetworkAllocation)" where
  "alloc_loop s name nodeID kind 0 i used db = (db, Inl ErrPoolExhausted)"
| "alloc_loop s name nodeID kind (Suc n) i used db =
     (case subnetAt s (word_of_nat i) of
        (subnet, gateway) \<Rightarrow>
          if subnet \<in> set used then alloc_loop s name nodeID kind n (Suc i) used db
          else (let a = \<lparr>n_DockerName = name, n_Subnet = subnet, n_Gateway = gateway, n_NodeID = nodeID, n_Kind = kind\<rparr>
                in case db_Create a db of
                     (db, False) \<Rightarrow> alloc_loop s name nodeID kind n (Suc i) (subnet # used) db
                   | (db, True) \<Rightarrow> (db, Inr a)))"

definition allocateLocked :: "Pool \<Rightarrow> string \<Rightarrow> nat \<Rightarrow> string \<Rightarrow> Db \<Rightarrow> Db \<times> (alloc_error + NetworkAllocation)" where
  "allocateLocked s name nodeID kind db =
     (case FindByDockerName name db of
        (db, Some a) \<Rightarrow> (db, Inr a)
      | (db, None) \<Rightarrow>
          (case AllSubnets db of
             (db, None) \<Rightarrow> (db, Inl DbError)
           | (db, Some used) \<Rightarrow> alloc_loop s name nodeID kind (Capacity s) 0 used db))"

text \<open>\<open>Allocate\<close> also publishes the pool's use to the metrics, one more call of the table.\<close>

definition Allocate :: "Pool \<Rightarrow> string \<Rightarrow> nat \<Rightarrow> string \<Rightarrow> Db \<Rightarrow> Db \<times> (alloc_error + NetworkAllocation)" where
  "Allocate s name nodeID kind db =
     (case allocateLocked s name nodeID kind db of (db, r) \<Rightarrow> (fst (Stats s db), r))"

definition Release :: "Pool \<Rightarrow> string \<Rightarrow> Db \<Rightarrow> Db \<times> bool" where
  "Release s name db = (case DeleteByDockerName name db of (db, ok) \<Rightarrow> (fst (Stats s db), ok))"

section \<open>Managed networks\<close>

record NetworkSpec =
  ns_Name :: string
  ns_Driver :: string
  ns_Internal :: bool
  ns_Attachable :: bool
  ns_Encrypted :: bool
  ns_Labels :: "(string \<times> string) list"
  ns_Subnet :: string
  ns_Gateway :: string
  ns_EnableIPv6 :: "bool option"
  ns_IPv6Subnet :: string

text \<open>
  \<open>DeriveIPv6\<close> works on bytes: \<open>netip.ParsePrefix\<close> on the configured IPv6 prefix (its bytes and its
  length) and the printing of the result are arguments; on IPv4 text it is \<open>netip4\<close>. The outer
  \<open>None\<close> is an error, \<open>Some None\<close> the empty string that leaves the choice to the daemon.
\<close>

record IPv6 =
  v6_Enabled :: bool
  v6_ULAPrefix :: string
  v6_ParsePrefix :: "string \<Rightarrow> (nat list \<times> nat) option"
  v6_Print :: "nat list \<times> nat \<Rightarrow> string"

definition netip4 :: "string \<Rightarrow> nat list option" where
  "netip4 s =
     (case CutChar s CHR ''/'' of
        (ip, bits, found) \<Rightarrow>
          (case (map parse_octet (SplitChar ip CHR ''.''), parse_octet bits) of
             ([Some a, Some b, Some c, Some d], Some p) \<Rightarrow> if found \<and> p \<le> 32 then Some [a, b, c, d] else None
           | _ \<Rightarrow> None))"

definition DeriveIPv6 :: "IPv6 \<Rightarrow> string \<Rightarrow> (nat list \<times> nat) option option" where
  "DeriveIPv6 v ipv4Subnet =
     (if v6_ULAPrefix v = [] then Some None
      else (case v6_ParsePrefix v (v6_ULAPrefix v) of
              None \<Rightarrow> None
            | Some (addr, bits) \<Rightarrow>
                if length addr \<noteq> 16 then None
                else if bits > 48 then None
                else (case netip4 ipv4Subnet of
                        None \<Rightarrow> None
                      | Some octets \<Rightarrow> Some (Some (addr[6 := octets ! 1, 7 := octets ! 2], 64)))))"

definition applyIPv6 :: "IPv6 \<Rightarrow> NetworkSpec \<Rightarrow> NetworkSpec" where
  "applyIPv6 v spec =
     (let spec = spec\<lparr>ns_EnableIPv6 := Some (v6_Enabled v)\<rparr>
      in if \<not> v6_Enabled v \<or> ns_Subnet spec = [] then spec
         else (case DeriveIPv6 v (ns_Subnet spec) of
                 None \<Rightarrow> spec
               | Some None \<Rightarrow> spec\<lparr>ns_IPv6Subnet := []\<rparr>
               | Some (Some p) \<Rightarrow> spec\<lparr>ns_IPv6Subnet := v6_Print v p\<rparr>))"

definition spec_for :: "IPv6 \<Rightarrow> NetworkSpec \<Rightarrow> NetworkAllocation \<Rightarrow> NetworkSpec" where
  "spec_for v6 spec a = applyIPv6 v6 (spec\<lparr>ns_Subnet := n_Subnet a, ns_Gateway := n_Gateway a\<rparr>)"

definition reserve_overlap :: "string \<Rightarrow> NetworkAllocation \<Rightarrow> nat \<Rightarrow> Db \<Rightarrow> Db" where
  "reserve_overlap name a nodeID db =
     (let db = fst (DeleteByDockerName name db)
      in fst (db_Create \<lparr>n_DockerName = reservedName (n_Subnet a), n_Subnet = n_Subnet a, n_Gateway = n_Gateway a,
                         n_NodeID = nodeID, n_Kind = ''reserved''\<rparr> db))"

definition maxAttempts :: nat where
  "maxAttempts = 8"

fun ensure_loop ::
  "nat \<Rightarrow> Pool \<Rightarrow> IPv6 \<Rightarrow> (nat \<Rightarrow> NetworkSpec \<Rightarrow> string + string) \<Rightarrow> NetworkSpec \<Rightarrow> nat \<Rightarrow>
   string \<Rightarrow> Db \<Rightarrow> Db \<times> (alloc_error + (string \<times> string))" where
  "ensure_loop 0 s v6 provision spec nodeID kind db = (db, Inl NoFreeSubnet)"
| "ensure_loop (Suc n) s v6 provision spec nodeID kind db =
     (case allocateLocked s (ns_Name spec) nodeID kind db of
        (db, Inl e) \<Rightarrow> (db, Inl e)
      | (db, Inr a) \<Rightarrow>
          (let spec = spec_for v6 spec a
           in case provision (maxAttempts - Suc n) spec of
                Inr nid \<Rightarrow> (db, Inr (nid, n_Subnet a))
              | Inl cerr \<Rightarrow>
                  if isSubnetOverlap cerr
                  then ensure_loop n s v6 provision spec nodeID kind (reserve_overlap (ns_Name spec) a nodeID db)
                  else (fst (DeleteByDockerName (ns_Name spec) db), Inl (EngineError cerr))))"

definition EnsureManaged ::
  "Pool \<Rightarrow> IPv6 \<Rightarrow> (nat \<Rightarrow> NetworkSpec \<Rightarrow> string + string) \<Rightarrow> NetworkSpec \<Rightarrow> nat \<Rightarrow> string \<Rightarrow>
   Db \<Rightarrow> Db \<times> (alloc_error + (string \<times> string))" where
  "EnsureManaged s v6 provision spec nodeID kind db =
     (case (case FindByDockerName (ns_Name spec) db of
              (db, Some a) \<Rightarrow>
                (db, case provision 0 (spec_for v6 spec a) of
                       Inr nid \<Rightarrow> Inr (nid, n_Subnet a) | Inl cerr \<Rightarrow> Inl (EngineError cerr))
            | (db, None) \<Rightarrow> ensure_loop maxAttempts s v6 provision spec nodeID kind db) of
        (db, r) \<Rightarrow> (fst (Stats s db), r))"

text \<open>\<open>ImportExisting\<close> over the subnets of the networks on a node.\<close>

definition import_one :: "Pool \<Rightarrow> nat \<Rightarrow> string \<Rightarrow> Db \<Rightarrow> Db" where
  "import_one s nodeID subnet db =
     (if subnet = [] \<or> \<not> inPool s subnet then db
      else (case ExistsBySubnet subnet db of
              (db, True) \<Rightarrow> db
            | (db, False) \<Rightarrow>
                fst (db_Create \<lparr>n_DockerName = reservedName subnet, n_Subnet = subnet, n_Gateway = [],
                                n_NodeID = nodeID, n_Kind = ''reserved''\<rparr> db)))"

definition ImportExisting :: "Pool \<Rightarrow> nat \<Rightarrow> string list option \<Rightarrow> Db \<Rightarrow> Db \<times> bool" where
  "ImportExisting s nodeID nets db =
     (case nets of
        None \<Rightarrow> (db, False)
      | Some subnets \<Rightarrow> (fst (Stats s (fold (import_one s nodeID) subnets db)), True))"

section \<open>Address arithmetic\<close>

lemma parse_octet_nat: "n < 256 \<Longrightarrow> parse_octet (nat_digits n) = Some n"
proof -
  assume n: "n < 256"
  have "\<not> (length (nat_digits n) > 1 \<and> hd (nat_digits n) = CHR ''0'')"
  proof (cases "n < 10")
    case True
    then show ?thesis by (simp add: nat_digits.simps [of n])
  next
    case False
    then show ?thesis using nat_digits_no_leading_zero [of n] by simp
  qed
  with n show ?thesis
    by (simp add: parse_octet_def nat_digits_are_digits digits_val_nat_digits)
qed

lemma nat_digits_no_sep: "CHR ''.'' \<notin> set (nat_digits n)" "CHR ''/'' \<notin> set (nat_digits n)"
proof -
  have "\<forall>c \<in> set (nat_digits n). is_digit c" using nat_digits_are_digits by (simp add: list_all_iff)
  moreover have "\<not> is_digit CHR ''.''" "\<not> is_digit CHR ''/''" by (simp_all add: is_digit_def)
  ultimately show "CHR ''.'' \<notin> set (nat_digits n)" "CHR ''/'' \<notin> set (nat_digits n)" by blast+
qed

lemma quad_sum:
  fixes n :: nat
  shows "n div 2 ^ 24 * 2 ^ 24 + n div 2 ^ 16 mod 2 ^ 8 * 2 ^ 16 + n div 2 ^ 8 mod 2 ^ 8 * 2 ^ 8 + n mod 2 ^ 8 = n"
proof -
  have "n div 2 ^ 16 div 2 ^ 8 = n div 2 ^ 24" "n div 2 ^ 8 div 2 ^ 8 = n div 2 ^ 16"
    by (simp_all add: div_mult2_eq [symmetric])
  then have "n div 2 ^ 8 * 2 ^ 8 + n mod 2 ^ 8 = n"
    and "n div 2 ^ 16 * 2 ^ 8 + n div 2 ^ 8 mod 2 ^ 8 = n div 2 ^ 8"
    and "n div 2 ^ 24 * 2 ^ 8 + n div 2 ^ 16 mod 2 ^ 8 = n div 2 ^ 16"
    by (metis div_mult_mod_eq)+
  then have "(n div 2 ^ 24 * 2 ^ 8 + n div 2 ^ 16 mod 2 ^ 8) * 2 ^ 8 * 2 ^ 8 + n div 2 ^ 8 mod 2 ^ 8 * 2 ^ 8 + n mod 2 ^ 8 = n"
    by (metis add_mult_distrib)
  then show ?thesis by (simp add: add_mult_distrib)
qed

lemma unat32_less: "unat (w :: 32 word) < 2 ^ 32"
proof -
  have "unat w < 2 ^ LENGTH(32)" by (rule unsigned_less)
  then show ?thesis by simp
qed

lemma unat32_drop_bit: "unat (drop_bit k (w :: 32 word)) = unat w div 2 ^ k"
proof -
  have "take_bit 32 (unat w) = unat w" by (rule take_bit_nat_eq_self [OF unat32_less])
  then have "unat (drop_bit k w) = drop_bit k (unat w)" by (simp only: unsigned_drop_bit_eq) simp
  then show ?thesis by (simp only: drop_bit_eq_div)
qed

lemma unat32_push_bit: "unat (push_bit k (w :: 32 word)) = unat w * 2 ^ k mod 2 ^ 32"
proof -
  have "unat (push_bit k w) = take_bit 32 (push_bit k (unat w))" by (simp only: unsigned_push_bit_eq) simp
  then show ?thesis by (simp only: push_bit_eq_mult take_bit_eq_mod)
qed

lemma parse_ipv4_u32: "parse_ipv4 (u32ToIP v) = Some v"
proof -
  let ?n = "unat v"
  have "?n < 2 ^ 32" by (rule unat32_less)
  then have "?n div 2 ^ 24 < 256" by (simp add: less_mult_imp_div_less)
  then have "map parse_octet (SplitChar (u32ToIP v) CHR ''.'') =
      [Some (?n div 2 ^ 24), Some (?n div 2 ^ 16 mod 2 ^ 8), Some (?n div 2 ^ 8 mod 2 ^ 8), Some (?n mod 2 ^ 8)]"
    by (simp add: u32ToIP_def Let_def SplitChar_append SplitChar_none nat_digits_no_sep parse_octet_nat)
  then show ?thesis unfolding parse_ipv4_def using quad_sum [of ?n] by simp
qed

lemma u32ToIP_inj: "u32ToIP v = u32ToIP w \<Longrightarrow> v = w"
  using parse_ipv4_u32 by (metis option.inject)

lemma netmask_eq: "and a (netmask p) = push_bit (32 - p) (drop_bit (32 - p) (a :: 32 word))"
  unfolding netmask_def by (rule bit_eqI) (auto simp: bit_simps)

lemma unat_netmask: "unat (and a (netmask p)) = unat (a :: 32 word) div 2 ^ (32 - p) * 2 ^ (32 - p)"
proof -
  have "unat a div 2 ^ (32 - p) * 2 ^ (32 - p) \<le> unat a" by simp
  then have "unat a div 2 ^ (32 - p) * 2 ^ (32 - p) < 2 ^ 32" using unat32_less le_less_trans by blast
  then show ?thesis
    by (simp only: netmask_eq unat32_push_bit unat32_drop_bit mod_less)
qed

section \<open>The pool\<close>

text \<open>What \<open>NewService\<close> sets up, over the natural numbers.\<close>

definition pool_ok :: "nat \<Rightarrow> Pool \<Rightarrow> bool" where
  "pool_ok pp s \<longleftrightarrow> pp < pool_prefix s \<and> pool_prefix s \<le> 30 \<and>
     unat (pool_total s) = 2 ^ (pool_prefix s - pp) \<and> unat (pool_step s) = 2 ^ (32 - pool_prefix s) \<and>
     2 ^ (32 - pp) dvd unat (pool_base s)"

lemma NewService_ok:
  assumes "NewService cidr p = Inr s"
  shows "\<exists>addr pp. ParseCIDR (TrimSpace cidr) = Some (addr, pp) \<and> pool_base s = addr \<and> pool_ok pp s \<and> int (pool_prefix s) = p"
proof -
  obtain addr pp where parse: "ParseCIDR (TrimSpace cidr) = Some (addr, pp)"
    and p: "int pp < p" "p \<le> 30"
    and s: "s = \<lparr>pool_base = addr, pool_total = push_bit (nat p - pp) 1,
                    pool_step = push_bit (32 - nat p) 1, pool_prefix = nat p\<rparr>"
    using assms by (auto simp: NewService_def split: option.splits prod.splits if_splits)
  obtain a where "addr = and a (netmask pp)"
    using parse by (auto simp: ParseCIDR_def split: prod.splits if_splits option.splits)
  then have "2 ^ (32 - pp) dvd unat addr" by (simp add: unat_netmask)
  moreover have "unat (push_bit k (1 :: 32 word)) = 2 ^ k" if "k < 32" for k
  proof -
    have "(2 :: nat) ^ k < 2 ^ 32" using that by (intro power_strict_increasing) simp_all
    then show ?thesis by (simp only: unat32_push_bit unsigned_1 mult_1 mod_less)
  qed
  moreover have "nat p - pp < 32" "32 - nat p < 32" "pp < nat p" using p by linarith+
  ultimately show ?thesis using parse p s by (auto simp: pool_ok_def)
qed

lemma pool_size: "pool_ok pp s \<Longrightarrow> unat (pool_total s) * unat (pool_step s) = 2 ^ (32 - pp)"
proof -
  assume "pool_ok pp s"
  moreover from this have "(pool_prefix s - pp) + (32 - pool_prefix s) = 32 - pp" by (simp add: pool_ok_def)
  ultimately show ?thesis unfolding pool_ok_def by (metis power_add)
qed

lemma pool_end:
  assumes "pool_ok pp s"
  shows "unat (pool_base s) + 2 ^ (32 - pp) \<le> 2 ^ 32"
proof -
  obtain q where q: "unat (pool_base s) = 2 ^ (32 - pp) * q" using assms unfolding pool_ok_def dvd_def by blast
  have pp: "(2 :: nat) ^ 32 = 2 ^ (32 - pp) * 2 ^ pp"
    using assms by (simp add: pool_ok_def power_add [symmetric])
  have "2 ^ (32 - pp) * q < 2 ^ (32 - pp) * 2 ^ pp"
    using unat32_less [of "pool_base s"] unfolding q pp .
  then have "Suc q \<le> 2 ^ pp" by simp
  then have "2 ^ (32 - pp) * Suc q \<le> 2 ^ (32 - pp) * 2 ^ pp" by (rule mult_le_mono2)
  then show ?thesis unfolding q pp by simp
qed

lemma netAddr_nat:
  assumes "pool_ok pp s" and "i < Capacity s"
  shows "unat (netAddr s (word_of_nat i)) = unat (pool_base s) + i * unat (pool_step s)"
    and "unat (netAddr s (word_of_nat i)) + unat (pool_step s) \<le> unat (pool_base s) + 2 ^ (32 - pp)"
proof -
  have "Suc i * unat (pool_step s) \<le> unat (pool_total s) * unat (pool_step s)"
    using assms(2) by (intro mult_le_mono1) (simp add: Capacity_def)
  then have le: "unat (pool_base s) + i * unat (pool_step s) + unat (pool_step s) \<le> unat (pool_base s) + 2 ^ (32 - pp)"
    using pool_size [OF assms(1)] by simp
  moreover have "0 < unat (pool_step s)" using assms(1) by (simp add: pool_ok_def)
  ultimately have lt: "unat (pool_base s) + i * unat (pool_step s) < 2 ^ 32"
    using pool_end [OF assms(1)] by linarith
  have "i < 2 ^ 32" using assms(2) unat32_less [of "pool_total s"] unfolding Capacity_def by (rule less_trans)
  then have "unat (word_of_nat i :: 32 word) = i" by (simp add: unsigned_of_nat take_bit_eq_mod)
  moreover have "netAddr s (word_of_nat i) = word_of_nat (unat (pool_base s) + unat (word_of_nat i :: 32 word) * unat (pool_step s))"
    by (simp add: netAddr_def)
  ultimately show eq: "unat (netAddr s (word_of_nat i)) = unat (pool_base s) + i * unat (pool_step s)"
    using lt by (simp only: unsigned_of_nat) (simp add: take_bit_eq_mod)
  show "unat (netAddr s (word_of_nat i)) + unat (pool_step s) \<le> unat (pool_base s) + 2 ^ (32 - pp)"
    using le eq by simp
qed

text \<open>The addresses of the \<open>i\<close>-th subnet.\<close>

definition subnet_range :: "Pool \<Rightarrow> nat \<Rightarrow> nat set" where
  "subnet_range s i =
     {unat (netAddr s (word_of_nat i)) ..< unat (netAddr s (word_of_nat i)) + unat (pool_step s)}"

lemma subnet_range_disjoint:
  assumes "pool_ok pp s" and "i < j" and "j < Capacity s"
  shows "subnet_range s i \<inter> subnet_range s j = {}"
proof -
  have "Suc i * unat (pool_step s) \<le> j * unat (pool_step s)" using assms(2) by (intro mult_le_mono1) simp
  then show ?thesis
    using netAddr_nat(1) [OF assms(1,3)] netAddr_nat(1) [OF assms(1), of i] assms(2,3)
    by (auto simp: subnet_range_def)
qed

lemma subnet_text_inj:
  assumes "pool_ok pp s" and "i < Capacity s" and "j < Capacity s"
    and "fst (subnetAt s (word_of_nat i)) = fst (subnetAt s (word_of_nat j))"
  shows "i = j"
proof -
  have "u32ToIP (netAddr s (word_of_nat i)) = u32ToIP (netAddr s (word_of_nat j))"
    using assms(4) by (simp add: subnetAt_def)
  then have "unat (netAddr s (word_of_nat i)) = unat (netAddr s (word_of_nat j))" using u32ToIP_inj by metis
  then show ?thesis
    using netAddr_nat(1) [OF assms(1,2)] netAddr_nat(1) [OF assms(1,3)] assms(1) by (simp add: pool_ok_def)
qed

text \<open>Reading back the text of a subnet.\<close>

lemma parse_prefix_nat: "p \<le> 32 \<Longrightarrow> parse_prefix (nat_digits p) = Some p"
  by (simp add: parse_prefix_def nat_digits_are_digits digits_val_nat_digits)

lemma u32ToIP_chars: "c \<in> set (u32ToIP v) \<Longrightarrow> is_digit c \<or> c = CHR ''.''"
  using nat_digits_are_digits by (auto simp: u32ToIP_def Let_def list_all_iff)

lemma subnet_text_plain: "list_all plain_char (fst (subnetAt s i))"
proof -
  have "plain_char c" if "c \<in> set (u32ToIP v)" for c v
    using u32ToIP_chars [OF that] by auto
  moreover have "plain_char c" if "c \<in> set (nat_digits n)" for c n
    using that nat_digits_are_digits [of n] by (simp add: list_all_iff)
  moreover have "plain_char CHR ''/''" by (simp add: plain_char_def)
  ultimately show ?thesis by (auto simp: subnetAt_def list_all_iff)
qed

lemma ParseCIDR_subnet:
  assumes "pool_ok pp s" and "i < Capacity s"
  shows "ParseCIDR (TrimSpace (fst (subnetAt s (word_of_nat i)))) = Some (netAddr s (word_of_nat i), pool_prefix s)"
proof -
  let ?a = "netAddr s (word_of_nat i)" and ?p = "pool_prefix s"
  have slash: "CHR ''/'' \<notin> set (u32ToIP ?a)" using u32ToIP_chars by (fastforce simp: is_digit_def)
  have "(2 :: nat) ^ (32 - ?p) dvd 2 ^ (32 - pp)"
    using assms(1) unfolding pool_ok_def by (intro le_imp_power_dvd diff_le_mono2) simp
  then have "2 ^ (32 - ?p) dvd unat (pool_base s)" using assms(1) unfolding pool_ok_def by (metis dvd_trans)
  then have "2 ^ (32 - ?p) dvd unat ?a"
    using netAddr_nat(1) [OF assms] assms(1) by (simp add: pool_ok_def)
  then have "unat (and ?a (netmask ?p)) = unat ?a" by (simp add: unat_netmask)
  then have "and ?a (netmask ?p) = ?a" by (simp only: word_unat_eq_iff)
  moreover have "?p \<le> 32" using assms(1) by (simp add: pool_ok_def)
  ultimately show ?thesis
    using slash by (simp add: TrimSpace_plain [OF subnet_text_plain], simp add: subnetAt_def ParseCIDR_def
        CutChar_append parse_ipv4_u32 parse_prefix_nat)
qed

section \<open>The ledger\<close>

text \<open>What the two unique indexes keep true, and what the clients of the table rely on.\<close>

definition db_inv :: "Db \<Rightarrow> bool" where
  "db_inv db \<longleftrightarrow> distinct (map n_DockerName (db_rows db)) \<and> distinct (map n_Subnet (db_rows db))"

locale unique_table =
  fixes wf :: "'d \<Rightarrow> bool" and rows :: "'d \<Rightarrow> NetworkAllocation list"
    and create :: "NetworkAllocation \<Rightarrow> 'd \<Rightarrow> 'd \<times> bool" and delete :: "string \<Rightarrow> 'd \<Rightarrow> 'd \<times> bool"
  assumes wf_names: "wf d \<Longrightarrow> distinct (map n_DockerName (rows d))"
    and wf_subnets: "wf d \<Longrightarrow> distinct (map n_Subnet (rows d))"
    and wf_create: "wf d \<Longrightarrow> wf (fst (create a d))"
    and wf_delete: "wf d \<Longrightarrow> wf (fst (delete name d))"
    and create_rows: "create a d = (d', ok) \<Longrightarrow> rows d' = (if ok then rows d @ [a] else rows d)"
    and delete_rows: "delete name d = (d', ok) \<Longrightarrow>
      rows d' = (if ok then filter (\<lambda>a. n_DockerName a \<noteq> name) (rows d) else rows d)"
begin

lemma one_holder: "wf d \<Longrightarrow> a \<in> set (rows d) \<Longrightarrow> b \<in> set (rows d) \<Longrightarrow> n_Subnet a = n_Subnet b \<Longrightarrow> a = b"
  using wf_subnets [of d] by (auto simp: distinct_map dest: inj_onD)

lemma created_is_fresh:
  assumes "wf d" and "create a d = (d', True)"
  shows "n_Subnet a \<notin> n_Subnet ` set (rows d)" and "n_DockerName a \<notin> n_DockerName ` set (rows d)"
  using wf_subnets [OF wf_create [OF assms(1)], of a] wf_names [OF wf_create [OF assms(1)], of a]
    create_rows [OF assms(2)] assms(2) by simp_all

lemma keeps_others:
  "delete name d = (d', ok) \<Longrightarrow> a \<in> set (rows d) \<Longrightarrow> n_DockerName a \<noteq> name \<Longrightarrow> a \<in> set (rows d')"
  using delete_rows by (cases ok) simp_all

end

lemma tick_simps [simp]: "db_rows (tick db) = db_rows db" "db_fault (tick db) = db_fault db"
  "db_inv (tick db) = db_inv db"
  by (simp_all add: tick_def db_inv_def)

interpretation table: unique_table db_inv db_rows db_Create DeleteByDockerName
proof
  show "db_inv (fst (db_Create a d))" if "db_inv d" for a d
    using that by (auto simp: db_Create_def db_inv_def tick_def list_ex_iff)
  show "db_inv (fst (DeleteByDockerName name d))" if "db_inv d" for name d
    using that by (auto simp: DeleteByDockerName_def db_inv_def tick_def distinct_map_filter)
qed (auto simp: db_inv_def db_Create_def DeleteByDockerName_def tick_def split: if_splits)

lemma FindByDockerName_simps [simp]: "fst (FindByDockerName name db) = tick db"
  by (simp add: FindByDockerName_def)

lemma fault_keeps [simp]: "db_fault (fst (db_Create a db)) = db_fault db"
  "db_fault (fst (DeleteByDockerName name db)) = db_fault db"
  by (simp_all add: db_Create_def DeleteByDockerName_def tick_def)

lemma Stats_simps [simp]: "db_rows (fst (Stats s db)) = db_rows db" "db_inv (fst (Stats s db)) = db_inv db"
  by (simp_all add: Stats_def Count_def)

section \<open>What an allocation returns\<close>

lemma alloc_loop_rows:
  "alloc_loop s name nodeID kind n i used db = (db', r) \<Longrightarrow> db_inv db \<Longrightarrow>
   db_inv db' \<and> db_fault db' = db_fault db \<and>
   (case r of
      Inl e \<Rightarrow> e = ErrPoolExhausted \<and> db_rows db' = db_rows db
    | Inr a \<Rightarrow> db_rows db' = db_rows db @ [a] \<and> n_DockerName a = name \<and>
        n_Subnet a \<notin> n_Subnet ` set (db_rows db) \<and> n_Subnet a \<notin> set used \<and>
        (\<exists>k. i \<le> k \<and> k < i + n \<and> n_Subnet a = fst (subnetAt s (word_of_nat k)) \<and> n_Gateway a = snd (subnetAt s (word_of_nat k))))"
proof (induction n arbitrary: i used db)
  case (Suc n)
  obtain subnet gateway where sg: "subnetAt s (word_of_nat i) = (subnet, gateway)" by fastforce
  let ?a = "\<lparr>n_DockerName = name, n_Subnet = subnet, n_Gateway = gateway, n_NodeID = nodeID, n_Kind = kind\<rparr>"
  obtain db1 ok where cr: "db_Create ?a db = (db1, ok)" by fastforce
  have inv1: "db_inv db1" "db_fault db1 = db_fault db"
    using table.wf_create [OF Suc.prems(2), of ?a] fault_keeps(1) [of ?a db] by (simp_all add: cr)
  consider (used) "subnet \<in> set used" | (retry) "subnet \<notin> set used" "\<not> ok" | (won) "subnet \<notin> set used" "ok" by blast
  then show ?case
  proof cases
    case used
    with Suc.prems(1) sg have "alloc_loop s name nodeID kind n (Suc i) used db = (db', r)" by simp
    from Suc.IH [OF this Suc.prems(2)] show ?thesis by (cases r) (simp_all, use Suc_leD in blast)
  next
    case retry
    with Suc.prems(1) sg cr have "alloc_loop s name nodeID kind n (Suc i) (subnet # used) db1 = (db', r)" by simp
    from Suc.IH [OF this inv1(1)] table.create_rows [OF cr] retry inv1
    show ?thesis by (cases r) (simp_all, use Suc_leD in blast)
  next
    case won
    with Suc.prems(1) sg cr have "db' = db1" "r = Inr ?a" by simp_all
    then show ?thesis
      using won cr inv1 table.create_rows [OF cr] table.created_is_fresh(1) [OF Suc.prems(2), of ?a db1] sg by auto
  qed
qed auto

lemma allocateLocked_cases:
  assumes "allocateLocked s name nodeID kind db = (db', r)" and "db_inv db"
  obtains (existing) a where "r = Inr a" "a \<in> set (db_rows db)" "n_DockerName a = name" "db_rows db' = db_rows db"
      "db_inv db'" "db_fault db' = db_fault db"
  | (failed) e where "r = Inl e" "db_rows db' = db_rows db" "db_inv db'" "db_fault db' = db_fault db"
  | (created) a k where "r = Inr a" "db_rows db' = db_rows db @ [a]" "n_DockerName a = name" "k < Capacity s"
      "n_Subnet a = fst (subnetAt s (word_of_nat k))" "n_Gateway a = snd (subnetAt s (word_of_nat k))"
      "n_Subnet a \<notin> n_Subnet ` set (db_rows db)" "db_inv db'" "db_fault db' = db_fault db"
proof (cases "snd (FindByDockerName name db)")
  case (Some a)
  then have "a \<in> set (db_rows db)" "n_DockerName a = name"
    by (auto simp: FindByDockerName_def find_Some_iff in_set_conv_nth split: if_splits)
  moreover have "r = Inr a" "db' = tick db"
    using assms(1) Some by (auto simp: allocateLocked_def FindByDockerName_def split: option.splits)
  ultimately show ?thesis using existing assms(2) by simp
next
  case None
  obtain db1 m where all: "AllSubnets (tick db) = (db1, m)" by fastforce
  then have db1: "db_rows db1 = db_rows db" "db_inv db1" "db_fault db1 = db_fault db"
    using assms(2) by (auto simp: AllSubnets_def)
  show ?thesis
  proof (cases m)
    case None
    then have "r = Inl DbError" "db' = db1"
      using assms(1) all \<open>snd _ = None\<close> by (auto simp: allocateLocked_def FindByDockerName_def split: option.splits)
    then show ?thesis using failed db1 by simp
  next
    case (Some used)
    then have loop: "alloc_loop s name nodeID kind (Capacity s) 0 used db1 = (db', r)"
      using assms(1) all \<open>snd _ = None\<close> by (auto simp: allocateLocked_def FindByDockerName_def split: option.splits)
    show ?thesis
    proof (cases r)
      case (Inl e)
      then show ?thesis using alloc_loop_rows [OF loop db1(2)] db1 failed by simp
    next
      case (Inr a)
      then show ?thesis using alloc_loop_rows [OF loop db1(2)] db1 created by auto
    qed
  qed
qed

text \<open>Without database faults the pool is exhausted only when every subnet of it is taken.\<close>

lemma alloc_loop_exhausted:
  "alloc_loop s name nodeID kind n i used db = (db', Inl ErrPoolExhausted) \<Longrightarrow> \<forall>k. \<not> db_fault db k \<Longrightarrow>
   name \<notin> n_DockerName ` set (db_rows db) \<Longrightarrow> set used = n_Subnet ` set (db_rows db) \<Longrightarrow> k < n \<Longrightarrow>
   fst (subnetAt s (word_of_nat (i + k))) \<in> n_Subnet ` set (db_rows db)"
proof (induction n arbitrary: i k)
  case (Suc n)
  obtain subnet gateway where sg: "subnetAt s (word_of_nat i) = (subnet, gateway)" by fastforce
  have used: "subnet \<in> set used"
  proof (rule ccontr)
    assume "subnet \<notin> set used"
    moreover from this have "snd (db_Create \<lparr>n_DockerName = name, n_Subnet = subnet, n_Gateway = gateway,
        n_NodeID = nodeID, n_Kind = kind\<rparr> db)"
      using Suc.prems(2-4) by (auto simp: db_Create_def fails_def list_ex_iff)
    ultimately show False using Suc.prems(1) sg by (auto simp: Let_def split: prod.splits bool.splits)
  qed
  show ?case
  proof (cases k)
    case 0
    then show ?thesis using used sg Suc.prems(4) by simp
  next
    case (Suc k')
    have "alloc_loop s name nodeID kind n (Suc i) used db = (db', Inl ErrPoolExhausted)"
      using Suc.prems(1) used sg by simp
    from Suc.IH [OF this Suc.prems(2-4), of k'] Suc Suc.prems(5) show ?thesis by simp
  qed
qed simp

section \<open>Managed networks and imports\<close>

text \<open>Rows of other names survive every operation.\<close>

definition keeps_others :: "string \<Rightarrow> Db \<Rightarrow> Db \<Rightarrow> bool" where
  "keeps_others name db db' \<longleftrightarrow>
     (\<forall>a \<in> set (db_rows db). n_DockerName a \<noteq> name \<longrightarrow> a \<in> set (db_rows db'))"

lemma keeps_others_trans: "keeps_others name a b \<Longrightarrow> keeps_others name b c \<Longrightarrow> keeps_others name a c"
  by (auto simp: keeps_others_def)

lemma keeps_others_create: "keeps_others name db (fst (db_Create a db))"
  by (simp add: keeps_others_def db_Create_def tick_def)

lemma keeps_others_delete: "keeps_others name db (fst (DeleteByDockerName name db))"
  by (simp add: keeps_others_def DeleteByDockerName_def tick_def)

lemma reserve_overlap_props:
  assumes "db_inv db"
  shows "db_inv (reserve_overlap name a nodeID db)" and "keeps_others name db (reserve_overlap name a nodeID db)"
    and "db_fault (reserve_overlap name a nodeID db) = db_fault db"
  using table.wf_create [OF table.wf_delete [OF assms]] keeps_others_trans [OF keeps_others_delete keeps_others_create]
  by (simp_all add: reserve_overlap_def)

lemma allocateLocked_keeps:
  assumes "allocateLocked s name nodeID kind db = (db', r)" and "db_inv db"
  shows "db_inv db'" and "keeps_others m db db'" and "db_fault db' = db_fault db"
    and "r = Inr a \<Longrightarrow> a \<in> set (db_rows db') \<and> n_DockerName a = name"
proof -
  have "db_inv db' \<and> keeps_others m db db' \<and> db_fault db' = db_fault db \<and>
      (\<forall>a. r = Inr a \<longrightarrow> a \<in> set (db_rows db') \<and> n_DockerName a = name)"
    using assms by (cases rule: allocateLocked_cases) (simp_all add: keeps_others_def)
  then show "db_inv db'" and "keeps_others m db db'" and "db_fault db' = db_fault db"
    and "r = Inr a \<Longrightarrow> a \<in> set (db_rows db') \<and> n_DockerName a = name" by simp_all
qed

lemma spec_for_Name [simp]: "ns_Name (spec_for v6 spec a) = ns_Name spec"
  by (auto simp: spec_for_def applyIPv6_def Let_def split: option.split)

lemma ensure_loop_props:
  "ensure_loop n s v6 provision spec nodeID kind db = (db', r) \<Longrightarrow> db_inv db \<Longrightarrow>
   db_inv db' \<and> keeps_others (ns_Name spec) db db' \<and>
   (\<forall>nid sub. r = Inr (nid, sub) \<longrightarrow> (\<exists>a \<in> set (db_rows db'). n_DockerName a = ns_Name spec \<and> n_Subnet a = sub))"
proof (induction n arbitrary: spec db)
  case (Suc n)
  obtain db1 q where al: "allocateLocked s (ns_Name spec) nodeID kind db = (db1, q)" by fastforce
  note k = allocateLocked_keeps [OF al Suc.prems(2)]
  show ?case
  proof (cases q)
    case (Inl e)
    then show ?thesis using Suc.prems(1) al k(1,2) by auto
  next
    case (Inr a)
    note a = k(4) [OF Inr]
    show ?thesis
    proof (cases "provision (maxAttempts - Suc n) (spec_for v6 spec a)")
      case (Inr nid)
      then have "db' = db1" "r = Inr (nid, n_Subnet a)" using Suc.prems(1) al \<open>q = Inr a\<close> by simp_all
      then show ?thesis using k(1,2) a by auto
    next
      case (Inl cerr)
      show ?thesis
      proof (cases "isSubnetOverlap cerr")
        case True
        then have "ensure_loop n s v6 provision (spec_for v6 spec a) nodeID kind (reserve_overlap (ns_Name spec) a nodeID db1) = (db', r)"
          using Suc.prems(1) al \<open>q = Inr a\<close> Inl by simp
        from Suc.IH [OF this reserve_overlap_props(1) [OF k(1)]]
        show ?thesis
          using keeps_others_trans [OF keeps_others_trans [OF k(2) reserve_overlap_props(2) [OF k(1), of _ a nodeID]]]
          by (metis spec_for_Name)
      next
        case False
        then have "db' = fst (DeleteByDockerName (ns_Name spec) db1)" "r = Inl (EngineError cerr)"
          using Suc.prems(1) al \<open>q = Inr a\<close> Inl by simp_all
        then show ?thesis using table.wf_delete [OF k(1)] keeps_others_trans [OF k(2) keeps_others_delete] by simp
      qed
    qed
  qed
qed (auto simp: keeps_others_def)

lemma EnsureManaged_props:
  assumes "EnsureManaged s v6 provision spec nodeID kind db = (db', r)" and "db_inv db"
  shows "db_inv db' \<and> keeps_others (ns_Name spec) db db' \<and>
   (\<forall>nid sub. r = Inr (nid, sub) \<longrightarrow> (\<exists>a \<in> set (db_rows db'). n_DockerName a = ns_Name spec \<and> n_Subnet a = sub))"
proof (cases "snd (FindByDockerName (ns_Name spec) db)")
  case (Some a)
  then have find: "FindByDockerName (ns_Name spec) db = (tick db, Some a)" by (simp add: FindByDockerName_def)
  then have a: "a \<in> set (db_rows db)" "n_DockerName a = ns_Name spec"
    by (auto simp: FindByDockerName_def find_Some_iff in_set_conv_nth split: if_splits)
  from find have "db' = fst (Stats s (tick db))"
    and "r = (case provision 0 (spec_for v6 spec a) of Inr nid \<Rightarrow> Inr (nid, n_Subnet a) | Inl cerr \<Rightarrow> Inl (EngineError cerr))"
    using assms(1) by (simp_all add: EnsureManaged_def split: prod.splits)
  then show ?thesis using a assms(2) by (auto simp: keeps_others_def split: sum.splits)
next
  case None
  then have find: "FindByDockerName (ns_Name spec) db = (tick db, None)" by (simp add: FindByDockerName_def)
  obtain db1 q where loop: "ensure_loop maxAttempts s v6 provision spec nodeID kind (tick db) = (db1, q)" by fastforce
  with find have "db' = fst (Stats s db1)" "r = q" using assms(1) by (simp_all add: EnsureManaged_def)
  then show ?thesis using ensure_loop_props [OF loop] assms(2) by (simp add: keeps_others_def)
qed

lemma import_one_props:
  assumes "db_inv db"
  shows "db_inv (import_one s nodeID subnet db)" and "set (db_rows db) \<subseteq> set (db_rows (import_one s nodeID subnet db))"
proof -
  have ex: "ExistsBySubnet subnet db = (tick db, snd (ExistsBySubnet subnet db))" by (simp add: ExistsBySubnet_def)
  have inv: "db_inv (tick db)" using assms by simp
  have "db_inv (import_one s nodeID subnet db) \<and> set (db_rows db) \<subseteq> set (db_rows (import_one s nodeID subnet db))"
  proof (cases "subnet = [] \<or> \<not> inPool s subnet \<or> snd (ExistsBySubnet subnet db)")
    case True
    then show ?thesis using ex assms by (auto simp: import_one_def split: prod.splits bool.splits)
  next
    case False
    let ?c = "db_Create \<lparr>n_DockerName = reservedName subnet, n_Subnet = subnet, n_Gateway = [],
                                n_NodeID = nodeID, n_Kind = ''reserved''\<rparr> (tick db)"
    have "import_one s nodeID subnet db = fst ?c" using False ex by (simp add: import_one_def)
    moreover have "set (db_rows db) \<subseteq> set (db_rows (fst ?c))" by (auto simp: db_Create_def tick_def)
    ultimately show ?thesis using table.wf_create [OF inv] by metis
  qed
  then show "db_inv (import_one s nodeID subnet db)" "set (db_rows db) \<subseteq> set (db_rows (import_one s nodeID subnet db))"
    by simp_all
qed

lemma import_props:
  "db_inv db \<Longrightarrow> db_inv (fold (import_one s nodeID) subnets db) \<and>
   set (db_rows db) \<subseteq> set (db_rows (fold (import_one s nodeID) subnets db))"
proof (induction subnets arbitrary: db)
  case (Cons x xs)
  then show ?case using import_one_props [OF Cons.prems, of s nodeID x] Cons.IH [of "import_one s nodeID x db"] by auto
qed simp

text \<open>One call of the service on the ledger of a pool.\<close>

inductive alloc_step :: "Pool \<Rightarrow> Db \<Rightarrow> Db \<Rightarrow> bool" for s where
  allocate: "Allocate s name nodeID kind db = (db', r) \<Longrightarrow> alloc_step s db db'"
| release: "Release s name db = (db', ok) \<Longrightarrow> alloc_step s db db'"
| ensure: "EnsureManaged s v6 provision spec nodeID kind db = (db', r) \<Longrightarrow> alloc_step s db db'"
| import_nets: "ImportExisting s nodeID nets db = (db', ok) \<Longrightarrow> alloc_step s db db'"

lemma alloc_step_inv: "alloc_step s db db' \<Longrightarrow> db_inv db \<Longrightarrow> db_inv db'"
proof (induction rule: alloc_step.induct)
  case (allocate name nodeID kind db db' r)
  then show ?case using allocateLocked_keeps(1) by (auto simp: Allocate_def split: prod.splits)
next
  case (release name db db' ok)
  then show ?case using table.wf_delete [OF release(2), of name] by (auto simp: Release_def split: prod.splits)
next
  case (ensure v6 provision spec nodeID kind db db' r)
  then show ?case using EnsureManaged_props by blast
next
  case (import_nets nodeID nets db db' ok)
  then show ?case using import_props by (auto simp: ImportExisting_def split: option.splits)
qed

lemma alloc_steps_inv: "(alloc_step s)\<^sup>*\<^sup>* db db' \<Longrightarrow> db_inv db \<Longrightarrow> db_inv db'"
  by (induction rule: rtranclp_induct) (auto intro: alloc_step_inv)

section \<open>Properties\<close>

definition sample_pool :: Pool where
  "sample_pool = \<lparr>pool_base = 0x0A400000, pool_total = 4, pool_step = 4, pool_prefix = 30\<rparr>"

lemma sample_pool: "NewService ''10.64.0.0/28'' 30 = Inr sample_pool"
proof -
  have "TrimSpace ''10.64.0.0/28'' = ''10.64.0.0/28''" by (rule TrimSpace_plain) (simp add: plain_char_def)
  then show ?thesis
    by (simp add: NewService_def ParseCIDR_def parse_ipv4_def parse_octet_def parse_prefix_def digits_val_def
        digit_val_def is_digit_def netmask_eq sample_pool_def)
qed

lemma digit_chars: "char_of (48 :: nat) = CHR ''0''" "char_of (49 :: nat) = CHR ''1''" "char_of (50 :: nat) = CHR ''2''"
  "char_of (51 :: nat) = CHR ''3''" "char_of (52 :: nat) = CHR ''4''" "char_of (53 :: nat) = CHR ''5''"
  "char_of (54 :: nat) = CHR ''6''" "char_of (55 :: nat) = CHR ''7''" "char_of (56 :: nat) = CHR ''8''"
  "char_of (57 :: nat) = CHR ''9''"
  by code_simp+

lemma sample_subnets: "subnetAt sample_pool 0 = (''10.64.0.0/30'', ''10.64.0.1'')"
  "subnetAt sample_pool 1 = (''10.64.0.4/30'', ''10.64.0.5'')"
  by (simp_all add: subnetAt_def netAddr_def sample_pool_def u32ToIP_def nat_digits.simps digit_chars)

lemma alloc_loop_pos: "0 < n \<Longrightarrow> alloc_loop s name nodeID kind n i used db =
     (case subnetAt s (word_of_nat i) of
        (subnet, gateway) \<Rightarrow>
          if subnet \<in> set used then alloc_loop s name nodeID kind (n - 1) (Suc i) used db
          else (let a = \<lparr>n_DockerName = name, n_Subnet = subnet, n_Gateway = gateway, n_NodeID = nodeID, n_Kind = kind\<rparr>
                in case db_Create a db of
                     (db, False) \<Rightarrow> alloc_loop s name nodeID kind (n - 1) (Suc i) (subnet # used) db
                   | (db, True) \<Rightarrow> (db, Inr a)))"
proof (cases n)
  case (Suc k)
  show ?thesis by (simp only: Suc alloc_loop.simps diff_Suc_1)
qed simp

definition sample_db :: "NetworkAllocation list \<Rightarrow> Db" where
  "sample_db rows = \<lparr>db_rows = rows, db_calls = 0, db_fault = (\<lambda>_. False)\<rparr>"

definition sample_alloc :: NetworkAllocation where
  "sample_alloc = \<lparr>n_DockerName = ''ws-1'', n_Subnet = ''10.64.0.0/30'', n_Gateway = ''10.64.0.1'', n_NodeID = 1, n_Kind = ''workspace''\<rparr>"

definition sample_alloc2 :: NetworkAllocation where
  "sample_alloc2 = \<lparr>n_DockerName = ''ws-2'', n_Subnet = ''10.64.0.4/30'', n_Gateway = ''10.64.0.5'', n_NodeID = 1, n_Kind = ''workspace''\<rparr>"

lemma sample_capacity [simp]: "Capacity sample_pool = 4"
  by (simp add: Capacity_def sample_pool_def)

lemmas alloc_eval = Allocate_def allocateLocked_def FindByDockerName_def AllSubnets_def tick_def fails_def
  alloc_loop_pos sample_subnets db_Create_def Stats_def Count_def sample_alloc_def sample_alloc2_def Let_def

lemma sample_allocate: "Allocate sample_pool ''ws-1'' 1 ''workspace'' (sample_db []) =
    (\<lparr>db_rows = [sample_alloc], db_calls = 4, db_fault = (\<lambda>_. False)\<rparr>, Inr sample_alloc)"
  by (simp add: alloc_eval sample_db_def)

lemma sample_allocate2: "Allocate sample_pool ''ws-2'' 1 ''workspace''
    \<lparr>db_rows = [sample_alloc], db_calls = 4, db_fault = (\<lambda>_. False)\<rparr> =
   (\<lparr>db_rows = [sample_alloc, sample_alloc2], db_calls = 8, db_fault = (\<lambda>_. False)\<rparr>, Inr sample_alloc2)"
  by (simp add: alloc_eval)

text \<open>The subnets of a pool that the service accepts are pairwise disjoint address ranges inside
  the pool, computed without wrapping around, and different subnets have different texts.\<close>

theorem pool_subnets_disjoint:
  assumes "NewService cidr p = Inr s" and "i < j" and "j < Capacity s"
  shows "subnet_range s i \<inter> subnet_range s j = {} \<and>
    fst (subnetAt s (word_of_nat i)) \<noteq> fst (subnetAt s (word_of_nat j)) \<and>
    subnet_range s j \<subseteq> {unat (pool_base s) ..< unat (pool_base s) + Capacity s * unat (pool_step s)} \<and>
    unat (pool_base s) + Capacity s * unat (pool_step s) \<le> 2 ^ 32"
proof -
  obtain pp where ok: "pool_ok pp s" using NewService_ok [OF assms(1)] by blast
  have size: "Capacity s * unat (pool_step s) = 2 ^ (32 - pp)" using pool_size [OF ok] by (simp add: Capacity_def)
  have "subnet_range s j \<subseteq> {unat (pool_base s) ..< unat (pool_base s) + 2 ^ (32 - pp)}"
    using netAddr_nat [OF ok assms(3)] unfolding subnet_range_def by auto
  then show ?thesis
    using subnet_range_disjoint [OF ok assms(2,3)] subnet_text_inj [OF ok, of i j] assms(2,3) pool_end [OF ok]
    unfolding size by auto
qed

theorem pool_subnets_disjoint_witness:
  "subnet_range sample_pool 0 \<inter> subnet_range sample_pool 1 = {}"
  using pool_subnets_disjoint [OF sample_pool, of 0 1] by simp


text \<open>An allocation is idempotent and honest about failure. It returns the row a name already has,
  or appends one fresh row whose subnet and gateway are those of a free slot of the pool; when it
  fails the ledger is unchanged.\<close>

theorem allocate_result:
  assumes "Allocate s name nodeID kind db = (db', r)" and "db_inv db"
  shows "case r of
      Inl e \<Rightarrow> db_rows db' = db_rows db
    | Inr a \<Rightarrow> n_DockerName a = name \<and> a \<in> set (db_rows db') \<and>
        (db_rows db' = db_rows db \<or>
         db_rows db' = db_rows db @ [a] \<and> n_Subnet a \<notin> n_Subnet ` set (db_rows db) \<and>
         (\<exists>k < Capacity s. (n_Subnet a, n_Gateway a) = subnetAt s (word_of_nat k)))"
proof -
  obtain db1 where al: "allocateLocked s name nodeID kind db = (db1, r)" and "db' = fst (Stats s db1)"
    using assms(1) by (auto simp: Allocate_def split: prod.splits)
  then have rows: "db_rows db' = db_rows db1" by simp
  show ?thesis
    using al assms(2)
  proof (cases rule: allocateLocked_cases)
    case (created a k)
    then have "(n_Subnet a, n_Gateway a) = subnetAt s (word_of_nat k)" by (cases "subnetAt s (word_of_nat k)") simp
    then show ?thesis using created rows by auto
  qed (simp_all add: rows)
qed

theorem allocate_result_witness:
  "n_DockerName sample_alloc = ''ws-1'' \<and> n_Subnet sample_alloc \<notin> n_Subnet ` {}"
proof -
  have "db_inv (sample_db [])" by (simp add: db_inv_def sample_db_def)
  from allocate_result [OF sample_allocate this] show ?thesis by simp
qed


text \<open>A managed network that was created holds its subnet. Whatever the engine answers and
  whatever database calls fail, \<open>EnsureManaged\<close> keeps the ledger well-formed, leaves the rows of other
  networks alone, and when it returns a subnet the row of the network is in the ledger with it.\<close>

theorem managed_network_holds_subnet:
  assumes "EnsureManaged s v6 provision spec nodeID kind db = (db', r)" and "db_inv db"
  shows "db_inv db' \<and> (\<forall>a \<in> set (db_rows db). n_DockerName a \<noteq> ns_Name spec \<longrightarrow> a \<in> set (db_rows db')) \<and>
    (\<forall>nid sub. r = Inr (nid, sub) \<longrightarrow> (\<exists>a \<in> set (db_rows db'). n_DockerName a = ns_Name spec \<and> n_Subnet a = sub))"
  using EnsureManaged_props [OF assms] by (simp add: keeps_others_def)

definition sample_spec :: NetworkSpec where
  "sample_spec = \<lparr>ns_Name = ''ws-1'', ns_Driver = [], ns_Internal = False, ns_Attachable = False, ns_Encrypted = False,
     ns_Labels = [], ns_Subnet = [], ns_Gateway = [], ns_EnableIPv6 = None, ns_IPv6Subnet = []\<rparr>"

definition sample_v6 :: IPv6 where
  "sample_v6 = \<lparr>v6_Enabled = False, v6_ULAPrefix = [], v6_ParsePrefix = (\<lambda>_. None), v6_Print = (\<lambda>_. [])\<rparr>"

lemma ensure_loop_pos: "0 < n \<Longrightarrow> ensure_loop n s v6 provision spec nodeID kind db =
     (case allocateLocked s (ns_Name spec) nodeID kind db of
        (db, Inl e) \<Rightarrow> (db, Inl e)
      | (db, Inr a) \<Rightarrow>
          (let spec = spec_for v6 spec a
           in case provision (maxAttempts - n) spec of
                Inr nid \<Rightarrow> (db, Inr (nid, n_Subnet a))
              | Inl cerr \<Rightarrow>
                  if isSubnetOverlap cerr
                  then ensure_loop (n - 1) s v6 provision spec nodeID kind (reserve_overlap (ns_Name spec) a nodeID db)
                  else (fst (DeleteByDockerName (ns_Name spec) db), Inl (EngineError cerr))))"
proof (cases n)
  case (Suc k)
  show ?thesis by (simp only: Suc ensure_loop.simps diff_Suc_1)
qed simp

lemma sample_ensure:
  "EnsureManaged sample_pool sample_v6 (\<lambda>k spec. if k = 0 then Inl ''Pool overlaps'' else Inr ''id'') sample_spec 1 ''workspace'' (sample_db []) =
   (\<lparr>db_rows = [sample_alloc\<lparr>n_DockerName := ''reserved:10.64.0.0/30'', n_Kind := ''reserved''\<rparr>,
               sample_alloc2\<lparr>n_DockerName := ''ws-1''\<rparr>], db_calls = 10, db_fault = (\<lambda>_. False)\<rparr>,
    Inr (''id'', ''10.64.0.4/30''))"
proof -
  have "isSubnetOverlap ''Pool overlaps''" by code_simp
  then show ?thesis
    by (simp add: EnsureManaged_def maxAttempts_def ensure_loop_pos alloc_eval sample_db_def sample_spec_def
        spec_for_def applyIPv6_def sample_v6_def reserve_overlap_def DeleteByDockerName_def reservedName_def)
qed

theorem managed_network_holds_subnet_witness:
  "\<exists>a \<in> set [sample_alloc\<lparr>n_DockerName := ''reserved:10.64.0.0/30'', n_Kind := ''reserved''\<rparr>,
       sample_alloc2\<lparr>n_DockerName := ''ws-1''\<rparr>]. n_DockerName a = ''ws-1'' \<and> n_Subnet a = ''10.64.0.4/30''"
proof -
  have "db_inv (sample_db [])" by (simp add: db_inv_def sample_db_def)
  from managed_network_holds_subnet [OF sample_ensure this] show ?thesis by (simp add: sample_spec_def)
qed

text \<open>While the database answers, an allocation for a new name fails only when every subnet of the
  pool is already in the ledger.\<close>

theorem exhausted_means_full:
  assumes "Allocate s name nodeID kind db = (db', Inl e)" and "\<forall>k. \<not> db_fault db k" and "db_inv db"
  shows "e = ErrPoolExhausted \<and> (\<forall>k < Capacity s. fst (subnetAt s (word_of_nat k)) \<in> n_Subnet ` set (db_rows db))"
proof -
  obtain db1 where al: "allocateLocked s name nodeID kind db = (db1, Inl e)"
    using assms(1) by (auto simp: Allocate_def split: prod.splits)
  have "find (\<lambda>a. n_DockerName a = name) (db_rows db) = None"
    using al assms(2) by (cases "find (\<lambda>a. n_DockerName a = name) (db_rows db)")
      (simp_all add: allocateLocked_def FindByDockerName_def fails_def)
  then have name: "name \<notin> n_DockerName ` set (db_rows db)" by (auto simp: find_None_iff)
  let ?db = "tick (tick db)"
  have loop: "alloc_loop s name nodeID kind (Capacity s) 0 (map n_Subnet (db_rows db)) ?db = (db1, Inl e)"
    using al assms(2) \<open>find _ _ = None\<close>
    by (simp add: allocateLocked_def FindByDockerName_def AllSubnets_def fails_def)
  have "db_inv ?db" using assms(3) by simp
  then have e: "e = ErrPoolExhausted" using alloc_loop_rows [OF loop] by simp
  then show ?thesis
    using alloc_loop_exhausted [OF loop [unfolded e], of _] assms(2) name by simp
qed

theorem exhausted_means_full_witness:
  "\<forall>k < Capacity (sample_pool\<lparr>pool_total := 1\<rparr>).
     fst (subnetAt (sample_pool\<lparr>pool_total := 1\<rparr>) (word_of_nat k)) \<in> n_Subnet ` {sample_alloc}"
proof -
  have at: "subnetAt (sample_pool\<lparr>pool_total := 1\<rparr>) i = subnetAt sample_pool i" for i
    by (simp add: subnetAt_def netAddr_def)
  have "Allocate (sample_pool\<lparr>pool_total := 1\<rparr>) ''ws-2'' 1 ''workspace'' (sample_db [sample_alloc]) =
      (\<lparr>db_rows = [sample_alloc], db_calls = 3, db_fault = (\<lambda>_. False)\<rparr>, Inl ErrPoolExhausted)"
    by (simp add: alloc_eval sample_db_def Capacity_def at)
  from exhausted_means_full [OF this] show ?thesis by (simp add: sample_db_def db_inv_def)
qed

text \<open>The limit of the \<open>uint32\<close> arithmetic. In a pool that ends at the top of the address space the
  end wraps around to zero, so \<open>inPool\<close> holds of nothing, not even of the pool's own subnets, and
  importing reserves nothing.\<close>

theorem inPool_top_of_address_space:
  assumes "unat (pool_base s) + unat (pool_total s) * unat (pool_step s) = 2 ^ 32"
  shows "\<not> inPool s subnet \<and> fold (import_one s nodeID) subnets db = db"
proof -
  have "unat (pool_base s + pool_total s * pool_step s) =
      (unat (pool_base s) + unat (pool_total s) * unat (pool_step s)) mod 2 ^ 32"
    by (simp add: unat_word_ariths mod_simps)
  then have "pool_base s + pool_total s * pool_step s = 0" using assms by (simp add: word_unat_eq_iff)
  then have out: "\<not> inPool s t" for t by (simp add: inPool_def split: option.split)
  have "fold (import_one s nodeID) subnets db = db" by (induction subnets) (simp_all add: import_one_def out)
  then show ?thesis using out by simp
qed

theorem inPool_top_of_address_space_witness:
  "\<not> inPool \<lparr>pool_base = 0xF0000000, pool_total = 0x100000, pool_step = 0x100, pool_prefix = 24\<rparr> ''240.0.0.0/24''"
  using inPool_top_of_address_space
    [of "\<lparr>pool_base = 0xF0000000, pool_total = 0x100000, pool_step = 0x100, pool_prefix = 24\<rparr>"] by simp

text \<open>The limit of importing by text. A network on the node that covers several subnets of the pool
  is recorded under its own text only, so a subnet inside it is still handed out.\<close>

theorem import_misses_wider_network:
  "snd (Allocate sample_pool ''ws-1'' 1 ''workspace'' (fst (ImportExisting sample_pool 1 (Some [''10.64.0.0/29'']) (sample_db [])))) =
   Inr sample_alloc"
proof -
  have "TrimSpace ''10.64.0.0/29'' = ''10.64.0.0/29''" by (rule TrimSpace_plain) (simp add: plain_char_def)
  then have "inPool sample_pool ''10.64.0.0/29''"
    by (simp add: inPool_def ParseCIDR_def parse_ipv4_def parse_octet_def parse_prefix_def digits_val_def
        digit_val_def is_digit_def netmask_eq sample_pool_def)
  then show ?thesis
    by (simp add: ImportExisting_def import_one_def ExistsBySubnet_def alloc_eval sample_db_def reservedName_def)
qed

end
