(* ===== verification/Runner_Scheduler.thy ===== *)
theory Runner_Scheduler
  imports Go_Prelude
begin

text \<open>
  The runner scheduler: \<^verbatim>\<open>internal/services/runner/scheduler.go\<close>, the candidate set of \<^verbatim>\<open>service.go\<close> with
  the plan's binding of \<^verbatim>\<open>internal/services/quota/platformrunner.go\<close>, the lease table of
  \<^verbatim>\<open>internal/storage/repositories/runner_lease_repo.go\<close> and the way the dispatcher
  (\<^verbatim>\<open>internal/runners/dispatcher.go\<close>) claims a runner: select, then lease, two calls.

  A runner's or a run's id is a \<open>nat\<close>, a time the number of nanoseconds since the zero \<open>time.Time\<close>.
  The message a waiting job shows is a value of \<open>wait_reason\<close>; \<open>Available\<close> is the empty message.
  \<^verbatim>\<open>golang.org/x/mod/semver\<close> and the live tunnels are parameters.
\<close>

section \<open>Runners, jobs and what a plan offers\<close>

abbreviation ScopeShared :: string where "ScopeShared \<equiv> ''shared''"
abbreviation ScopeWorkspace :: string where "ScopeWorkspace \<equiv> ''workspace''"

text \<open>The columns the scheduler reads.\<close>

record Runner =
  rn_ID :: nat
  rn_Name :: string
  rn_WorkspaceID :: "nat option"
  rn_Scope :: string
  rn_Labels :: "string list"
  rn_Concurrency :: int
  rn_Version :: string
  rn_Features :: "string list"
  rn_Cordoned :: bool
  rn_Enabled :: bool

record Job =
  j_WorkspaceID :: nat
  j_RequiredLabels :: "string list"
  j_RequiredFeatures :: "string list"
  j_MinVersion :: string

record ModSemver =
  IsValid :: "string \<Rightarrow> bool"
  SemverCompare :: "string \<Rightarrow> string \<Rightarrow> int"

text \<open>
  The quota service as the scheduler sees it: whether limits are enforced, the license, the merged
  \<open>AllowPlatformRunners\<close> limit, the override row and the effective plan's runner list.
\<close>

record Quota =
  qt_enforce :: bool
  qt_entitled :: bool
  qt_allow :: "nat \<Rightarrow> bool"
  qt_override :: "nat \<Rightarrow> string list option"
  qt_plan :: "nat \<Rightarrow> string list option"

definition binding_Allows :: "string list \<Rightarrow> string \<Rightarrow> bool" where
  "binding_Allows allowed name \<longleftrightarrow> allowed = [] \<or> name \<in> set allowed"

definition platformRunnersFrom :: "string list option \<Rightarrow> string list option \<Rightarrow> string list" where
  "platformRunnersFrom p ov =
     (case ov of Some names \<Rightarrow> names
      | None \<Rightarrow> (case p of None \<Rightarrow> [] | Some names \<Rightarrow> names))"

definition EffectivePlatformRunners :: "Quota \<Rightarrow> nat \<Rightarrow> string list option" where
  "EffectivePlatformRunners q ws =
     (if \<not> qt_enforce q \<or> \<not> qt_entitled q then None
      else Some (platformRunnersFrom (qt_plan q ws) (qt_override q ws)))"

definition RequirePlatformRunners :: "Quota \<Rightarrow> nat \<Rightarrow> bool" where
  "RequirePlatformRunners q ws \<longleftrightarrow> \<not> qt_enforce q \<or> qt_allow q ws"

definition ListSchedulable :: "Runner list \<Rightarrow> nat \<Rightarrow> bool \<Rightarrow> Runner list" where
  "ListSchedulable runners ws includeShared =
     SliceStable (\<lambda>a b. rn_ID b < rn_ID a)
       (filter (\<lambda>r. rn_WorkspaceID r = Some ws \<or> includeShared \<and> rn_WorkspaceID r = None) runners)"

definition offeredByPlan :: "Runner list \<Rightarrow> string list \<Rightarrow> Runner list" where
  "offeredByPlan all binding =
     filter (\<lambda>r. rn_WorkspaceID r \<noteq> None \<or> binding_Allows binding (rn_Name r)) all"

definition schedulable :: "Quota \<Rightarrow> Runner list \<Rightarrow> nat \<Rightarrow> Runner list" where
  "schedulable q runners ws =
     (let includeShared = RequirePlatformRunners q ws;
          all = ListSchedulable runners ws includeShared
      in if \<not> includeShared then all
         else case EffectivePlatformRunners q ws of
                None \<Rightarrow> all
              | Some binding \<Rightarrow> offeredByPlan all binding)"

section \<open>Eligibility\<close>

definition canon :: "string \<Rightarrow> string" where
  "canon v =
     (let v = TrimSpace v in if v \<noteq> [] \<and> \<not> HasPrefix v ''v'' then ''v'' @ v else v)"

definition versionAtLeast :: "ModSemver \<Rightarrow> string \<Rightarrow> string \<Rightarrow> bool" where
  "versionAtLeast sv have minVersion =
     (if minVersion = [] \<or> have = ''dev'' then True
      else let have = canon have in IsValid sv have \<and> 0 \<le> SemverCompare sv have (canon minVersion))"

definition labelsSatisfy :: "string list \<Rightarrow> string list \<Rightarrow> bool" where
  "labelsSatisfy have required \<longleftrightarrow> required = [] \<or> list_all (\<lambda>r. r \<in> set have) required"

definition inScope :: "Runner \<Rightarrow> nat \<Rightarrow> bool" where
  "inScope r ws =
     (case rn_WorkspaceID r of
        Some w \<Rightarrow> w = ws
      | None \<Rightarrow> rn_Scope r = ScopeShared)"

definition eligible :: "ModSemver \<Rightarrow> Runner \<Rightarrow> Job \<Rightarrow> bool \<Rightarrow> bool" where
  "eligible sv r job connected =
     (if \<not> rn_Enabled r \<or> rn_Cordoned r \<or> \<not> connected then False
      else if \<not> inScope r (j_WorkspaceID job) then False
      else labelsSatisfy (rn_Labels r) (j_RequiredLabels job) \<and>
           labelsSatisfy (rn_Features r) (j_RequiredFeatures job) \<and>
           versionAtLeast sv (rn_Version r) (j_MinVersion job))"

section \<open>Choosing a runner\<close>

definition owned :: "Runner \<Rightarrow> bool" where
  "owned r \<longleftrightarrow> rn_WorkspaceID r \<noteq> None"

definition outranks :: "Runner \<Rightarrow> int \<Rightarrow> Runner option \<Rightarrow> int \<Rightarrow> bool" where
  "outranks r load best bestLoad =
     (case best of
        None \<Rightarrow> True
      | Some b \<Rightarrow>
          if owned r \<noteq> owned b then owned r
          else if load \<noteq> bestLoad then load < bestLoad
          else rn_ID r < rn_ID b)"

fun pick_loop ::
  "ModSemver \<Rightarrow> Job \<Rightarrow> (nat \<Rightarrow> int) \<Rightarrow> (nat \<Rightarrow> bool) \<Rightarrow> Runner option \<Rightarrow> int \<Rightarrow> Runner list \<Rightarrow> Runner option"
where
  "pick_loop sv job loads connected best bestLoad [] = best"
| "pick_loop sv job loads connected best bestLoad (r # rs) =
     (if \<not> eligible sv r job (connected (rn_ID r)) then
        pick_loop sv job loads connected best bestLoad rs
      else let load = loads (rn_ID r) in
        if rn_Concurrency r \<le> load then pick_loop sv job loads connected best bestLoad rs
        else if outranks r load best bestLoad then
          pick_loop sv job loads connected (Some r) load rs
        else pick_loop sv job loads connected best bestLoad rs)"

definition pick ::
  "ModSemver \<Rightarrow> Runner list \<Rightarrow> Job \<Rightarrow> (nat \<Rightarrow> int) \<Rightarrow> (nat \<Rightarrow> bool) \<Rightarrow> Runner option" where
  "pick sv candidates job loads connected = pick_loop sv job loads connected None 0 candidates"

section \<open>The lease table\<close>

abbreviation LeaseActive :: string where "LeaseActive \<equiv> ''active''"
abbreviation LeaseDone :: string where "LeaseDone \<equiv> ''done''"
abbreviation LeaseExpired :: string where "LeaseExpired \<equiv> ''expired''"
abbreviation LeaseKindPipeline :: string where "LeaseKindPipeline \<equiv> ''pipeline''"
abbreviation LeaseKindBuild :: string where "LeaseKindBuild \<equiv> ''build''"

record RunnerLease =
  ls_ID :: nat
  ls_RunnerID :: nat
  ls_Kind :: string
  ls_RunID :: nat
  ls_StepID :: "nat option"
  ls_Status :: string
  ls_LeasedAt :: int
  ls_ExpiresAt :: int

record LeaseTable =
  lt_rows :: "RunnerLease list"
  lt_next :: nat

definition active_for :: "string \<Rightarrow> nat \<Rightarrow> RunnerLease \<Rightarrow> bool" where
  "active_for kind runID l \<longleftrightarrow>
     ls_Kind l = kind \<and> ls_RunID l = runID \<and> ls_Status l = LeaseActive"

text \<open>
  The insert fails when the partial unique index \<open>idx_runner_lease_active_run\<close> on
  \<open>(kind, run_id) WHERE status = 'active'\<close> already has the job.
\<close>

definition lease_Create :: "RunnerLease \<Rightarrow> LeaseTable \<Rightarrow> LeaseTable option" where
  "lease_Create l t =
     (if ls_Status l = LeaseActive \<and> list_ex (active_for (ls_Kind l) (ls_RunID l)) (lt_rows t) then None
      else Some (t\<lparr>lt_rows := lt_rows t @ [l\<lparr>ls_ID := lt_next t\<rparr>], lt_next := Suc (lt_next t)\<rparr>))"

definition ActiveCountsByRunner :: "LeaseTable \<Rightarrow> nat \<Rightarrow> int" where
  "ActiveCountsByRunner t runnerID =
     int (length (filter (\<lambda>l. ls_Status l = LeaseActive \<and> ls_RunnerID l = runnerID) (lt_rows t)))"

definition ActiveByRun :: "LeaseTable \<Rightarrow> string \<Rightarrow> nat \<Rightarrow> RunnerLease option" where
  "ActiveByRun t kind runID = find (active_for kind runID) (lt_rows t)"

definition lease_Release :: "string \<Rightarrow> nat \<Rightarrow> LeaseTable \<Rightarrow> LeaseTable" where
  "lease_Release kind runID t =
     t\<lparr>lt_rows := map (\<lambda>l. if active_for kind runID l then l\<lparr>ls_Status := LeaseDone\<rparr> else l) (lt_rows t)\<rparr>"

text \<open>The two statements of \<open>ExpireDue\<close>: the read, and the update by id.\<close>

definition due_leases :: "int \<Rightarrow> LeaseTable \<Rightarrow> RunnerLease list" where
  "due_leases now t = filter (\<lambda>l. ls_Status l = LeaseActive \<and> ls_ExpiresAt l < now) (lt_rows t)"

definition expire_ids :: "nat list \<Rightarrow> LeaseTable \<Rightarrow> LeaseTable" where
  "expire_ids ids t =
     t\<lparr>lt_rows := map (\<lambda>l. if ls_ID l \<in> set ids then l\<lparr>ls_Status := LeaseExpired\<rparr> else l) (lt_rows t)\<rparr>"

definition ExpireDue :: "int \<Rightarrow> LeaseTable \<Rightarrow> LeaseTable \<times> RunnerLease list" where
  "ExpireDue now t =
     (let due = due_leases now t
      in if due = [] then (t, due) else (expire_ids (map ls_ID due) t, due))"

section \<open>The service\<close>

datatype wait_reason =
    SharedNotInPlan | SharedNotRegistered | NoRunnerRegistered
  | AllDisabled | AllOffline | NoLabelMatch | NoFeatureMatch "string list" | NoVersionMatch string
  | AllBusy | Available

record Scheduler =
  sc_semver :: ModSemver
  sc_quota :: Quota
  sc_runners :: "Runner list"
  sc_connected :: "nat \<Rightarrow> bool"

definition SelectRunner :: "Scheduler \<Rightarrow> LeaseTable \<Rightarrow> Job \<Rightarrow> Runner option" where
  "SelectRunner s t job =
     pick (sc_semver s) (schedulable (sc_quota s) (sc_runners s) (j_WorkspaceID job)) job
       (ActiveCountsByRunner t) (sc_connected s)"

record tally =
  n_enabled :: nat
  n_connected :: nat
  n_label :: nat
  n_feature :: nat
  n_version :: nat
  n_capacity :: nat

definition tally_one ::
  "ModSemver \<Rightarrow> Job \<Rightarrow> (nat \<Rightarrow> int) \<Rightarrow> (nat \<Rightarrow> bool) \<Rightarrow> Runner \<Rightarrow> tally \<Rightarrow> tally" where
  "tally_one sv job loads connected r c =
     (if \<not> rn_Enabled r \<or> rn_Cordoned r then c
      else let c = c\<lparr>n_enabled := Suc (n_enabled c)\<rparr> in
      if \<not> connected (rn_ID r) then c
      else let c = c\<lparr>n_connected := Suc (n_connected c)\<rparr> in
      if \<not> labelsSatisfy (rn_Labels r) (j_RequiredLabels job) then c
      else let c = c\<lparr>n_label := Suc (n_label c)\<rparr> in
      if \<not> labelsSatisfy (rn_Features r) (j_RequiredFeatures job) then c
      else let c = c\<lparr>n_feature := Suc (n_feature c)\<rparr> in
      if \<not> versionAtLeast sv (rn_Version r) (j_MinVersion job) then c
      else let c = c\<lparr>n_version := Suc (n_version c)\<rparr> in
      if loads (rn_ID r) < rn_Concurrency r then c\<lparr>n_capacity := Suc (n_capacity c)\<rparr> else c)"

definition tally_loop ::
  "ModSemver \<Rightarrow> Job \<Rightarrow> (nat \<Rightarrow> int) \<Rightarrow> (nat \<Rightarrow> bool) \<Rightarrow> Runner list \<Rightarrow> tally" where
  "tally_loop sv job loads connected rs =
     fold (tally_one sv job loads connected) rs (tally.make 0 0 0 0 0 0)"

definition AvailabilityReason :: "Scheduler \<Rightarrow> LeaseTable \<Rightarrow> Job \<Rightarrow> wait_reason" where
  "AvailabilityReason s t job =
     (let includeShared = RequirePlatformRunners (sc_quota s) (j_WorkspaceID job);
          candidates = schedulable (sc_quota s) (sc_runners s) (j_WorkspaceID job)
      in if candidates = [] then
           (if ListSchedulable (sc_runners s) (j_WorkspaceID job) True \<noteq> [] then
              (if \<not> includeShared then SharedNotInPlan else SharedNotRegistered)
            else NoRunnerRegistered)
         else
           let c = tally_loop (sc_semver s) job (ActiveCountsByRunner t) (sc_connected s) candidates
           in if n_enabled c = 0 then AllDisabled
              else if n_connected c = 0 then AllOffline
              else if n_label c = 0 then NoLabelMatch
              else if n_feature c = 0 then NoFeatureMatch (j_RequiredFeatures job)
              else if n_version c = 0 then NoVersionMatch (j_MinVersion job)
              else if n_capacity c = 0 then AllBusy
              else Available)"

definition Lease ::
  "LeaseTable \<Rightarrow> int \<Rightarrow> nat \<Rightarrow> string \<Rightarrow> nat \<Rightarrow> nat option \<Rightarrow> int \<Rightarrow> LeaseTable option" where
  "Lease t now runnerID kind runID stepID expires =
     lease_Create
       \<lparr>ls_ID = 0, ls_RunnerID = runnerID, ls_Kind = kind, ls_RunID = runID, ls_StepID = stepID,
        ls_Status = LeaseActive, ls_LeasedAt = now, ls_ExpiresAt = expires\<rparr> t"

definition zero_time :: int where "zero_time = 0"

definition deadline :: "int \<Rightarrow> int \<Rightarrow> int" where
  "deadline timeout now = (if timeout \<le> 0 then zero_time else now + timeout)"

datatype claim_error = ErrNoRunner | ErrLease

text \<open>The claim of \<open>Dispatch\<close> and \<open>RunBuild\<close>, when nothing runs between the two calls.\<close>

definition claim ::
  "Scheduler \<Rightarrow> LeaseTable \<Rightarrow> int \<Rightarrow> int \<Rightarrow> Job \<Rightarrow> string \<Rightarrow> nat \<Rightarrow> claim_error + (LeaseTable \<times> Runner)" where
  "claim s t now timeout job kind runID =
     (case SelectRunner s t job of
        None \<Rightarrow> Inl ErrNoRunner
      | Some rn \<Rightarrow>
          (case Lease t now (rn_ID rn) kind runID None (deadline timeout now) of
             None \<Rightarrow> Inl ErrLease
           | Some t' \<Rightarrow> Inr (t', rn)))"

section \<open>The order of preference\<close>

definition ranks :: "(nat \<Rightarrow> int) \<Rightarrow> Runner \<Rightarrow> Runner \<Rightarrow> bool" where
  "ranks loads r b \<longleftrightarrow> outranks r (loads (rn_ID r)) (Some b) (loads (rn_ID b))"

interpretation rank: strict_weak "ranks loads" "\<lambda>_. True" for loads
  by unfold_locales (auto simp: ranks_def outranks_def split: if_splits)

definition can_take :: "ModSemver \<Rightarrow> Job \<Rightarrow> (nat \<Rightarrow> int) \<Rightarrow> (nat \<Rightarrow> bool) \<Rightarrow> Runner \<Rightarrow> bool" where
  "can_take sv job loads connected r \<longleftrightarrow>
     eligible sv r job (connected (rn_ID r)) \<and> loads (rn_ID r) < rn_Concurrency r"

lemma pick_loop_keep_best:
  assumes "\<And>b. best = Some b \<Longrightarrow> load = loads (rn_ID b)"
  shows "pick_loop sv job loads connected best load rs =
         keep_best (can_take sv job loads connected) (ranks loads) best rs"
  using assms
proof (induction rs arbitrary: best load)
  case (Cons r rs)
  have rank: "outranks r (loads (rn_ID r)) best load =
      (case best of None \<Rightarrow> True | Some b \<Rightarrow> ranks loads r b)"
    using Cons.prems by (cases best) (simp_all add: outranks_def ranks_def)
  show ?case
    using Cons.IH [of "Some r" "loads (rn_ID r)"] Cons.IH [OF Cons.prems] rank
    by (simp add: can_take_def Let_def not_le)
qed simp

lemma pick_keep_best:
  "pick sv rs job loads connected = keep_best (can_take sv job loads connected) (ranks loads) None rs"
  unfolding pick_def by (rule pick_loop_keep_best) simp

lemma pick_Some:
  assumes "pick sv rs job loads connected = Some r"
  shows "r \<in> set rs" and "can_take sv job loads connected r"
    and "\<And>r'. \<lbrakk>r' \<in> set rs; can_take sv job loads connected r'\<rbrakk> \<Longrightarrow> \<not> ranks loads r' r"
  using assms rank.keep_best_Some [of rs "can_take sv job loads connected" loads r]
  by (auto simp: pick_keep_best)

lemma pick_None:
  "pick sv rs job loads connected = None \<longleftrightarrow> (\<forall>r \<in> set rs. \<not> can_take sv job loads connected r)"
  by (simp add: pick_keep_best keep_best_None)

section \<open>The candidate set\<close>

definition offered :: "Quota \<Rightarrow> nat \<Rightarrow> Runner \<Rightarrow> bool" where
  "offered q ws r \<longleftrightarrow>
     rn_WorkspaceID r = Some ws \<or>
     rn_WorkspaceID r = None \<and> RequirePlatformRunners q ws \<and>
     (case EffectivePlatformRunners q ws of
        None \<Rightarrow> True | Some binding \<Rightarrow> binding_Allows binding (rn_Name r))"

lemma set_ListSchedulable:
  "set (ListSchedulable rs ws shared) =
   {r \<in> set rs. rn_WorkspaceID r = Some ws \<or> shared \<and> rn_WorkspaceID r = None}"
  by (auto simp: ListSchedulable_def)

lemma set_schedulable: "set (schedulable q rs ws) = {r \<in> set rs. offered q ws r}"
  by (auto simp: schedulable_def set_ListSchedulable offeredByPlan_def offered_def Let_def
      split: option.splits)

definition takes :: "Scheduler \<Rightarrow> LeaseTable \<Rightarrow> Job \<Rightarrow> Runner \<Rightarrow> bool" where
  "takes s t job r \<longleftrightarrow>
     offered (sc_quota s) (j_WorkspaceID job) r \<and>
     can_take (sc_semver s) job (ActiveCountsByRunner t) (sc_connected s) r"

lemma SelectRunner_Some:
  assumes "SelectRunner s t job = Some r"
  shows "r \<in> set (sc_runners s)" and "takes s t job r"
    and "\<And>r'. \<lbrakk>r' \<in> set (sc_runners s); takes s t job r'\<rbrakk> \<Longrightarrow>
            \<not> ranks (ActiveCountsByRunner t) r' r"
  using pick_Some [OF assms [unfolded SelectRunner_def]] by (auto simp: set_schedulable takes_def)

lemma SelectRunner_None:
  "SelectRunner s t job = None \<longleftrightarrow> (\<forall>r \<in> set (sc_runners s). \<not> takes s t job r)"
  by (auto simp: SelectRunner_def pick_None set_schedulable takes_def)

section \<open>The reason a job waits\<close>

definition passes :: "nat \<Rightarrow> ModSemver \<Rightarrow> Job \<Rightarrow> (nat \<Rightarrow> int) \<Rightarrow> (nat \<Rightarrow> bool) \<Rightarrow> Runner \<Rightarrow> bool" where
  "passes k sv job loads connected r \<longleftrightarrow>
     rn_Enabled r \<and> \<not> rn_Cordoned r \<and>
     (0 < k \<longrightarrow> connected (rn_ID r)) \<and>
     (1 < k \<longrightarrow> labelsSatisfy (rn_Labels r) (j_RequiredLabels job)) \<and>
     (2 < k \<longrightarrow> labelsSatisfy (rn_Features r) (j_RequiredFeatures job)) \<and>
     (3 < k \<longrightarrow> versionAtLeast sv (rn_Version r) (j_MinVersion job)) \<and>
     (4 < k \<longrightarrow> loads (rn_ID r) < rn_Concurrency r)"

text \<open>Each counter counts the candidates that pass every check up to its own.\<close>

lemma tally_one_counts:
  "n_enabled (tally_one sv job loads connected r c) = n_enabled c + of_bool (passes 0 sv job loads connected r)"
  "n_connected (tally_one sv job loads connected r c) = n_connected c + of_bool (passes 1 sv job loads connected r)"
  "n_label (tally_one sv job loads connected r c) = n_label c + of_bool (passes 2 sv job loads connected r)"
  "n_feature (tally_one sv job loads connected r c) = n_feature c + of_bool (passes 3 sv job loads connected r)"
  "n_version (tally_one sv job loads connected r c) = n_version c + of_bool (passes 4 sv job loads connected r)"
  "n_capacity (tally_one sv job loads connected r c) = n_capacity c + of_bool (passes 5 sv job loads connected r)"
  by (simp_all add: tally_one_def passes_def Let_def)

lemma fold_count:
  fixes f :: "'c \<Rightarrow> nat"
  assumes "\<And>x c. f (g x c) = f c + of_bool (P x)"
  shows "f (fold g xs c) = f c + length (filter P xs)"
  using assms by (induction xs arbitrary: c) simp_all

lemma tally_loop_counts:
  "n_enabled (tally_loop sv job loads connected rs) = length (filter (passes 0 sv job loads connected) rs)"
  "n_connected (tally_loop sv job loads connected rs) = length (filter (passes 1 sv job loads connected) rs)"
  "n_label (tally_loop sv job loads connected rs) = length (filter (passes 2 sv job loads connected) rs)"
  "n_feature (tally_loop sv job loads connected rs) = length (filter (passes 3 sv job loads connected) rs)"
  "n_version (tally_loop sv job loads connected rs) = length (filter (passes 4 sv job loads connected) rs)"
  "n_capacity (tally_loop sv job loads connected rs) = length (filter (passes 5 sv job loads connected) rs)"
  unfolding tally_loop_def
  by (subst fold_count, rule tally_one_counts, simp add: tally.defs)+

lemma no_passes: "filter (passes k sv job loads connected) rs = [] \<longleftrightarrow>
    \<not> (\<exists>r \<in> set rs. passes k sv job loads connected r)"
  by (auto simp: filter_empty_conv)

lemma passes_down: "\<lbrakk>passes 5 sv job loads connected r; k \<le> 5\<rbrakk> \<Longrightarrow> passes k sv job loads connected r"
  by (simp add: passes_def)

lemma passes_all:
  "passes 5 sv job loads connected r \<and> inScope r (j_WorkspaceID job) \<longleftrightarrow>
   can_take sv job loads connected r"
  by (auto simp: passes_def can_take_def eligible_def)

definition pool_is_shared :: "Runner list \<Rightarrow> bool" where
  "pool_is_shared rs \<longleftrightarrow> (\<forall>r \<in> set rs. rn_WorkspaceID r = None \<longrightarrow> rn_Scope r = ScopeShared)"

lemma offered_inScope:
  "\<lbrakk>pool_is_shared rs; r \<in> set rs; offered q ws r\<rbrakk> \<Longrightarrow> inScope r ws"
  by (auto simp: pool_is_shared_def offered_def inScope_def)

lemma AvailabilityReason_Available:
  "AvailabilityReason s t job = Available \<longleftrightarrow>
   (\<exists>r \<in> set (schedulable (sc_quota s) (sc_runners s) (j_WorkspaceID job)).
      passes 5 (sc_semver s) job (ActiveCountsByRunner t) (sc_connected s) r)"
proof -
  let ?rs = "schedulable (sc_quota s) (sc_runners s) (j_WorkspaceID job)"
  let ?p = "\<lambda>k. \<exists>r \<in> set ?rs. passes k (sc_semver s) job (ActiveCountsByRunner t) (sc_connected s) r"
  have down: "?p 5 \<Longrightarrow> k \<le> 5 \<Longrightarrow> ?p k" for k
    using passes_down by blast
  have ne: "?rs \<noteq> []" if "?p 5" using that by auto
  have "AvailabilityReason s t job = Available \<longleftrightarrow>
      ?rs \<noteq> [] \<and> ?p 0 \<and> ?p 1 \<and> ?p 2 \<and> ?p 3 \<and> ?p 4 \<and> ?p 5"
    unfolding AvailabilityReason_def Let_def tally_loop_counts length_0_conv no_passes by simp
  also have "\<dots> \<longleftrightarrow> ?p 5"
    using down [of 0] down [of 1] down [of 2] down [of 3] down [of 4] ne by fastforce
  finally show ?thesis .
qed

section \<open>The lease table keeps at most one active lease per job\<close>

definition is_active :: "RunnerLease \<Rightarrow> bool" where
  "is_active l \<longleftrightarrow> ls_Status l = LeaseActive"

definition job_of :: "RunnerLease \<Rightarrow> string \<times> nat" where
  "job_of l = (ls_Kind l, ls_RunID l)"

definition lease_inv :: "LeaseTable \<Rightarrow> bool" where
  "lease_inv t \<longleftrightarrow>
     (\<forall>l \<in> set (lt_rows t). ls_ID l < lt_next t) \<and> distinct (map ls_ID (lt_rows t)) \<and>
     distinct (map job_of (filter is_active (lt_rows t)))"

lemma active_for_iff: "active_for kind runID l \<longleftrightarrow> is_active l \<and> job_of l = (kind, runID)"
  by (auto simp: active_for_def is_active_def job_of_def)

lemma status_update [simp]:
  "is_active (l\<lparr>ls_Status := LeaseDone\<rparr>) = False" "is_active (l\<lparr>ls_Status := LeaseExpired\<rparr>) = False"
  "ls_ID (l\<lparr>ls_Status := st\<rparr>) = ls_ID l" "job_of (l\<lparr>ls_Status := st\<rparr>) = job_of l"
  "is_active (l\<lparr>ls_ID := i\<rparr>) = is_active l" "job_of (l\<lparr>ls_ID := i\<rparr>) = job_of l"
  by (simp_all add: is_active_def job_of_def)

text \<open>Rewriting the status of some rows to a terminal one only removes active rows.\<close>

lemma filter_map_settle:
  assumes "\<And>l. \<not> is_active (f l)"
  shows "filter is_active (map (\<lambda>l. if P l then f l else l) xs) = filter (\<lambda>l. is_active l \<and> \<not> P l) xs"
  using assms by (induction xs) auto

lemma map_settle_ids:
  assumes "\<And>l. ls_ID (f l) = ls_ID l"
  shows "map ls_ID (map (\<lambda>l. if P l then f l else l) xs) = map ls_ID xs"
  using assms by (induction xs) auto

lemma distinct_map_filter2: "distinct (map f (filter P xs)) \<Longrightarrow> distinct (map f (filter (\<lambda>x. P x \<and> Q x) xs))"
  by (induction xs) (auto split: if_splits)

lemma settle_inv:
  assumes "lease_inv t" and "\<And>l. \<not> is_active (f l)" and "\<And>l. ls_ID (f l) = ls_ID l"
  shows "lease_inv (t\<lparr>lt_rows := map (\<lambda>l. if P l then f l else l) (lt_rows t)\<rparr>)"
proof -
  have "distinct (map job_of (filter (\<lambda>l. is_active l \<and> \<not> P l) (lt_rows t)))"
    using assms(1) by (intro distinct_map_filter2) (simp add: lease_inv_def)
  with assms show ?thesis
    by (auto simp add: lease_inv_def filter_map_settle map_settle_ids simp del: map_map)
qed

lemma lease_Release_inv: "lease_inv t \<Longrightarrow> lease_inv (lease_Release kind runID t)"
  unfolding lease_Release_def by (rule settle_inv) simp_all

lemma expire_ids_inv: "lease_inv t \<Longrightarrow> lease_inv (expire_ids ids t)"
  unfolding expire_ids_def by (rule settle_inv) simp_all

lemma lease_Create_inv:
  assumes "lease_inv t" and "lease_Create l t = Some t'"
  shows "lease_inv t'"
proof -
  let ?l = "l\<lparr>ls_ID := lt_next t\<rparr>"
  have t': "t' = t\<lparr>lt_rows := lt_rows t @ [?l], lt_next := Suc (lt_next t)\<rparr>"
    and free: "is_active l \<Longrightarrow> x \<in> set (lt_rows t) \<Longrightarrow> is_active x \<Longrightarrow> job_of x \<noteq> job_of l" for x
    using assms(2) by (auto simp: lease_Create_def list_ex_iff active_for_iff job_of_def is_active_def
        split: if_splits)
  have "lt_next t \<notin> ls_ID ` set (lt_rows t)"
    using assms(1) by (auto simp: lease_inv_def)
  moreover have "job_of l \<notin> job_of ` {x \<in> set (lt_rows t). is_active x}" if "is_active l"
  proof
    assume "job_of l \<in> job_of ` {x \<in> set (lt_rows t). is_active x}"
    then obtain x where "x \<in> set (lt_rows t)" "is_active x" "job_of l = job_of x" by (elim imageE CollectE conjE)
    with free [OF that, of x] show False by simp
  qed
  ultimately show ?thesis
    using assms(1) by (auto simp: t' lease_inv_def less_Suc_eq)
qed

lemma Lease_inv: "\<lbrakk>lease_inv t; Lease t now rid kind runID step expires = Some t'\<rbrakk> \<Longrightarrow> lease_inv t'"
  unfolding Lease_def by (rule lease_Create_inv)

lemma lease_inv_unique:
  assumes "lease_inv t" and "l \<in> set (lt_rows t)" and "l' \<in> set (lt_rows t)"
    and "active_for kind runID l" and "active_for kind runID l'"
  shows "l = l'"
  by (rule distinct_map_unique [of job_of "filter is_active (lt_rows t)"])
     (use assms in \<open>auto simp: lease_inv_def active_for_iff\<close>)

section \<open>Counting active leases\<close>

lemma ActiveCounts_nonneg [simp]: "0 \<le> ActiveCountsByRunner t r"
  by (simp add: ActiveCountsByRunner_def)

lemma length_filter_settle:
  assumes "\<And>l. ls_Status (f l) \<noteq> LeaseActive"
  shows "length (filter (\<lambda>l. ls_Status l = LeaseActive \<and> ls_RunnerID l = r)
           (map (\<lambda>l. if P l then f l else l) xs))
         \<le> length (filter (\<lambda>l. ls_Status l = LeaseActive \<and> ls_RunnerID l = r) xs)"
  using assms by (induction xs) auto

lemma Release_counts: "ActiveCountsByRunner (lease_Release kind runID t) r \<le> ActiveCountsByRunner t r"
  unfolding ActiveCountsByRunner_def lease_Release_def
  using length_filter_settle [of "\<lambda>l. l\<lparr>ls_Status := LeaseDone\<rparr>"] by simp

lemma expire_counts: "ActiveCountsByRunner (expire_ids ids t) r \<le> ActiveCountsByRunner t r"
  unfolding ActiveCountsByRunner_def expire_ids_def
  using length_filter_settle [of "\<lambda>l. l\<lparr>ls_Status := LeaseExpired\<rparr>"] by simp

lemma ExpireDue_counts: "ActiveCountsByRunner (fst (ExpireDue now t)) r \<le> ActiveCountsByRunner t r"
  by (simp add: ExpireDue_def Let_def expire_counts)

lemma Lease_rows:
  assumes "Lease t now rid kind runID step expires = Some t'"
  shows "lt_rows t' = lt_rows t @
           [\<lparr>ls_ID = lt_next t, ls_RunnerID = rid, ls_Kind = kind, ls_RunID = runID, ls_StepID = step,
             ls_Status = LeaseActive, ls_LeasedAt = now, ls_ExpiresAt = expires\<rparr>]"
  using assms by (auto simp: Lease_def lease_Create_def split: if_splits)

lemma Lease_counts:
  assumes "Lease t now rid kind runID step expires = Some t'"
  shows "ActiveCountsByRunner t' r = ActiveCountsByRunner t r + of_bool (r = rid)"
  by (simp add: ActiveCountsByRunner_def Lease_rows [OF assms])

section \<open>Admission: a counted resource that is only taken below its limit\<close>

locale admission =
  fixes step :: "'s \<Rightarrow> 's \<Rightarrow> bool"
    and held :: "'s \<Rightarrow> 'r \<Rightarrow> int"
    and limit :: "'r \<Rightarrow> int"
  assumes step_held: "step x y \<Longrightarrow> held y r \<le> held x r \<or> held x r < limit r \<and> held y r = held x r + 1"
begin

lemma within_limit:
  assumes "step\<^sup>*\<^sup>* x y" and "held x r \<le> limit r"
  shows "held y r \<le> limit r"
  using assms by (induction rule: rtranclp_induct) (use step_held [of _ _ r] in force)+

end

text \<open>Every claim made in one go, with releases and sweeps in any order.\<close>

inductive atomic_step :: "Scheduler \<Rightarrow> LeaseTable \<Rightarrow> LeaseTable \<Rightarrow> bool" for s where
  atomic_claim: "claim s t now timeout job kind runID = Inr (t', rn) \<Longrightarrow> atomic_step s t t'"
| atomic_release: "atomic_step s t (lease_Release kind runID t)"
| atomic_sweep: "atomic_step s t (fst (ExpireDue now t))"

definition limit_of :: "Scheduler \<Rightarrow> nat \<Rightarrow> int" where
  "limit_of s i = Max (insert 0 (rn_Concurrency ` {r \<in> set (sc_runners s). rn_ID r = i}))"

lemma limit_of_ge: "r \<in> set (sc_runners s) \<Longrightarrow> rn_Concurrency r \<le> limit_of s (rn_ID r)"
  unfolding limit_of_def by (intro Max_ge) auto

lemma limit_of_eq:
  assumes "distinct (map rn_ID (sc_runners s))" and "r \<in> set (sc_runners s)" and "0 \<le> rn_Concurrency r"
  shows "limit_of s (rn_ID r) = rn_Concurrency r"
proof -
  have "{r' \<in> set (sc_runners s). rn_ID r' = rn_ID r} = {r}"
    using assms(1,2) distinct_map_unique [of rn_ID "sc_runners s"] by auto
  with assms(3) show ?thesis by (simp add: limit_of_def)
qed

lemma claim_Inr:
  assumes "claim s t now timeout job kind runID = Inr (t', rn)"
  shows "SelectRunner s t job = Some rn"
    and "Lease t now (rn_ID rn) kind runID None (deadline timeout now) = Some t'"
  using assms by (auto simp: claim_def split: option.splits)

interpretation claims: admission "atomic_step s" ActiveCountsByRunner "limit_of s" for s
proof
  fix x y r
  assume "atomic_step s x y"
  then show "ActiveCountsByRunner y r \<le> ActiveCountsByRunner x r \<or>
      ActiveCountsByRunner x r < limit_of s r \<and> ActiveCountsByRunner y r = ActiveCountsByRunner x r + 1"
  proof cases
    case (atomic_claim now timeout job kind runID rn)
    note c = claim_Inr [OF atomic_claim]
    have "ActiveCountsByRunner x (rn_ID rn) < rn_Concurrency rn" and "rn \<in> set (sc_runners s)"
      using SelectRunner_Some [OF c(1)] by (auto simp: takes_def can_take_def)
    with limit_of_ge [of rn s] Lease_counts [OF c(2), of r] show ?thesis by auto
  next
    case (atomic_release kind runID)
    then show ?thesis by (simp add: Release_counts)
  next
    case (atomic_sweep now)
    then show ?thesis by (simp add: ExpireDue_counts)
  qed
qed

section \<open>Interleaved claims and sweeps\<close>

text \<open>
  \<open>SelectRunner\<close> and \<open>Lease\<close> are two calls of a dispatcher, and \<open>ExpireDue\<close> is a read and an
  update: other dispatchers, releases and sweeps may run between them. A pending claim is the
  runner chosen and the job, a pending sweep the ids it read.
\<close>

record LeaseWorld =
  lw_table :: LeaseTable
  lw_claims :: "(nat \<times> string \<times> nat) list"
  lw_sweeps :: "nat list list"

inductive lease_step :: "Scheduler \<Rightarrow> LeaseWorld \<Rightarrow> LeaseWorld \<Rightarrow> bool" for s where
  select: "SelectRunner s (lw_table w) job = Some rn \<Longrightarrow>
    lease_step s w (w\<lparr>lw_claims := (rn_ID rn, kind, runID) # lw_claims w\<rparr>)"
| lease: "\<lbrakk>(rid, kind, runID) \<in> set (lw_claims w);
      Lease (lw_table w) now rid kind runID None expires = Some t\<rbrakk> \<Longrightarrow>
    lease_step s w (w\<lparr>lw_table := t, lw_claims := remove1 (rid, kind, runID) (lw_claims w)\<rparr>)"
| release: "lease_step s w (w\<lparr>lw_table := lease_Release kind runID (lw_table w)\<rparr>)"
| sweep_read: "lease_step s w (w\<lparr>lw_sweeps := map ls_ID (due_leases now (lw_table w)) # lw_sweeps w\<rparr>)"
| sweep_write: "ids \<in> set (lw_sweeps w) \<Longrightarrow>
    lease_step s w (w\<lparr>lw_table := expire_ids ids (lw_table w), lw_sweeps := remove1 ids (lw_sweeps w)\<rparr>)"

definition empty_world :: LeaseWorld where
  "empty_world = \<lparr>lw_table = \<lparr>lt_rows = [], lt_next = 1\<rparr>, lw_claims = [], lw_sweeps = []\<rparr>"

lemma lease_step_inv:
  assumes "lease_step s w w'" and "lease_inv (lw_table w)"
  shows "lease_inv (lw_table w')"
  using assms by cases (auto intro: Lease_inv lease_Release_inv expire_ids_inv)

lemma reachable_lease_inv:
  assumes "(lease_step s)\<^sup>*\<^sup>* empty_world w"
  shows "lease_inv (lw_table w)"
  using assms
proof (induction rule: rtranclp_induct)
  case base
  show ?case by (simp add: empty_world_def lease_inv_def)
next
  case (step w w')
  then show ?case by (blast intro: lease_step_inv)
qed

section \<open>Sweeps\<close>

lemma ExpireDue_rows:
  assumes "lease_inv t"
  shows "lt_rows (fst (ExpireDue now t)) =
         map (\<lambda>l. if is_active l \<and> ls_ExpiresAt l < now then l\<lparr>ls_Status := LeaseExpired\<rparr> else l) (lt_rows t)"
proof (cases "due_leases now t = []")
  case True
  then have "\<not> (is_active l \<and> ls_ExpiresAt l < now)" if "l \<in> set (lt_rows t)" for l
    using that by (auto simp: due_leases_def is_active_def filter_empty_conv)
  then have "map (\<lambda>l. if is_active l \<and> ls_ExpiresAt l < now then l\<lparr>ls_Status := LeaseExpired\<rparr> else l) (lt_rows t)
      = map (\<lambda>l. l) (lt_rows t)"
    by (intro map_cong) auto
  with True show ?thesis by (simp add: ExpireDue_def)
next
  case False
  have "ls_ID l \<in> ls_ID ` set (due_leases now t) \<longleftrightarrow> is_active l \<and> ls_ExpiresAt l < now"
    if "l \<in> set (lt_rows t)" for l
    using that assms distinct_map_unique [of ls_ID "lt_rows t"]
    by (auto simp: due_leases_def is_active_def lease_inv_def)
  with False show ?thesis
    by (auto simp: ExpireDue_def expire_ids_def Let_def intro!: map_cong)
qed

lemma swept_not_due:
  assumes "lease_inv t" and "l \<in> set (lt_rows (fst (ExpireDue now t)))" and "is_active l"
  shows "now \<le> ls_ExpiresAt l"
  using assms(2,3) by (auto simp: ExpireDue_rows [OF assms(1)] split: if_splits)

section \<open>A sample installation\<close>

definition sample_runner :: "nat \<Rightarrow> nat option \<Rightarrow> Runner" where
  "sample_runner i ws =
     \<lparr>rn_ID = i, rn_Name = ''r'', rn_WorkspaceID = ws,
      rn_Scope = (if ws = None then ScopeShared else ScopeWorkspace), rn_Labels = [''amd64''],
      rn_Concurrency = 1, rn_Version = ''dev'', rn_Features = [], rn_Cordoned = False, rn_Enabled = True\<rparr>"

definition sample_job :: Job where
  "sample_job = \<lparr>j_WorkspaceID = 7, j_RequiredLabels = [''amd64''], j_RequiredFeatures = [], j_MinVersion = []\<rparr>"

definition sample_scheduler :: "Runner list \<Rightarrow> Scheduler" where
  "sample_scheduler rs =
     \<lparr>sc_semver = \<lparr>IsValid = (\<lambda>_. True), SemverCompare = (\<lambda>_ _. 0)\<rparr>,
      sc_quota = \<lparr>qt_enforce = False, qt_entitled = False, qt_allow = (\<lambda>_. False),
                  qt_override = (\<lambda>_. None), qt_plan = (\<lambda>_. None)\<rparr>,
      sc_runners = rs, sc_connected = (\<lambda>_. True)\<rparr>"

definition sample_table :: "RunnerLease list \<Rightarrow> LeaseTable" where
  "sample_table rows = \<lparr>lt_rows = rows, lt_next = Suc (length rows)\<rparr>"

definition sample_lease :: "nat \<Rightarrow> string \<Rightarrow> RunnerLease" where
  "sample_lease i st =
     \<lparr>ls_ID = i, ls_RunnerID = 3, ls_Kind = LeaseKindPipeline, ls_RunID = i, ls_StepID = None,
      ls_Status = st, ls_LeasedAt = 5, ls_ExpiresAt = 10\<rparr>"

lemmas sample_defs =
  sample_runner_def sample_job_def sample_scheduler_def sample_table_def sample_lease_def

lemmas scheduler_defs =
  SelectRunner_def schedulable_def ListSchedulable_def RequirePlatformRunners_def
  EffectivePlatformRunners_def pick_def outranks_def eligible_def inScope_def labelsSatisfy_def
  versionAtLeast_def ActiveCountsByRunner_def owned_def

lemma sample_select:
  "SelectRunner (sample_scheduler [sample_runner 4 None, sample_runner 3 (Some 7)]) (sample_table []) sample_job
     = Some (sample_runner 3 (Some 7))"
  "SelectRunner (sample_scheduler [sample_runner 3 None]) (sample_table []) sample_job
     = Some (sample_runner 3 None)"
  by (simp_all add: sample_defs scheduler_defs)

lemma sample_claim:
  "claim (sample_scheduler [sample_runner 3 None]) (sample_table []) 5 timeout sample_job LeaseKindPipeline 1 =
     Inr (sample_table [(sample_lease 1 LeaseActive)\<lparr>ls_ExpiresAt := deadline timeout 5\<rparr>], sample_runner 3 None)"
  by (simp add: claim_def sample_select(2))
     (simp add: sample_defs Lease_def lease_Create_def)

section \<open>The properties\<close>

text \<open>
  The scheduler's choice is exactly the specified one. A runner is returned iff some registered
  runner may take the job: it belongs to the workspace or is a shared runner the workspace's plan
  offers, is enabled, uncordoned, connected, in scope, carries the required labels, features and
  version, and has fewer active leases than its concurrency. The runner returned may take the job,
  and among those that may it comes first: the workspace's own before shared ones, then the least
  loaded, then the lowest id.
\<close>

theorem select_runner_best:
  "(SelectRunner s t job = None \<longleftrightarrow> (\<forall>r \<in> set (sc_runners s). \<not> takes s t job r)) \<and>
   (\<forall>r. SelectRunner s t job = Some r \<longrightarrow>
      r \<in> set (sc_runners s) \<and> takes s t job r \<and>
      (\<forall>r' \<in> set (sc_runners s). takes s t job r' \<longrightarrow>
         (owned r' \<longrightarrow> owned r) \<and>
         (owned r' = owned r \<longrightarrow>
            ActiveCountsByRunner t (rn_ID r) \<le> ActiveCountsByRunner t (rn_ID r') \<and>
            (ActiveCountsByRunner t (rn_ID r) = ActiveCountsByRunner t (rn_ID r') \<longrightarrow>
               rn_ID r \<le> rn_ID r'))))"
proof (intro conjI allI impI)
  show "SelectRunner s t job = None \<longleftrightarrow> (\<forall>r \<in> set (sc_runners s). \<not> takes s t job r)"
    by (rule SelectRunner_None)
next
  fix r assume r: "SelectRunner s t job = Some r"
  show "r \<in> set (sc_runners s)" "takes s t job r"
    by (rule SelectRunner_Some(1,2) [OF r])+
  show "\<forall>r' \<in> set (sc_runners s). takes s t job r' \<longrightarrow>
         (owned r' \<longrightarrow> owned r) \<and>
         (owned r' = owned r \<longrightarrow>
            ActiveCountsByRunner t (rn_ID r) \<le> ActiveCountsByRunner t (rn_ID r') \<and>
            (ActiveCountsByRunner t (rn_ID r) = ActiveCountsByRunner t (rn_ID r') \<longrightarrow>
               rn_ID r \<le> rn_ID r'))"
  proof (intro ballI impI)
    fix r' assume "r' \<in> set (sc_runners s)" "takes s t job r'"
    from SelectRunner_Some(3) [OF r this] show "(owned r' \<longrightarrow> owned r) \<and>
         (owned r' = owned r \<longrightarrow>
            ActiveCountsByRunner t (rn_ID r) \<le> ActiveCountsByRunner t (rn_ID r') \<and>
            (ActiveCountsByRunner t (rn_ID r) = ActiveCountsByRunner t (rn_ID r') \<longrightarrow>
               rn_ID r \<le> rn_ID r'))"
      by (auto simp: ranks_def outranks_def split: if_splits)
  qed
qed

theorem select_runner_best_witness:
  "\<not> ranks (ActiveCountsByRunner (sample_table [])) (sample_runner 4 None) (sample_runner 3 (Some 7)) \<and>
   takes (sample_scheduler [sample_runner 4 None, sample_runner 3 (Some 7)]) (sample_table []) sample_job
     (sample_runner 3 (Some 7))"
  using select_runner_best [of "sample_scheduler [sample_runner 4 None, sample_runner 3 (Some 7)]"
      "sample_table []" sample_job]
  by (simp add: sample_select ranks_def outranks_def owned_def) (simp add: sample_runner_def)

text \<open>
  A job that waits is told why, and a job that need not wait is told nothing. Provided the
  runners of the platform pool are registered with the shared scope, the reason is empty exactly
  when \<open>SelectRunner\<close> finds a runner for the same job.
\<close>

theorem availability_explains_wait:
  assumes "pool_is_shared (sc_runners s)"
  shows "AvailabilityReason s t job = Available \<longleftrightarrow> SelectRunner s t job \<noteq> None"
proof -
  have "passes 5 (sc_semver s) job (ActiveCountsByRunner t) (sc_connected s) r \<longleftrightarrow>
        can_take (sc_semver s) job (ActiveCountsByRunner t) (sc_connected s) r"
    if "r \<in> set (schedulable (sc_quota s) (sc_runners s) (j_WorkspaceID job))" for r
    using that offered_inScope [OF assms, of r "sc_quota s" "j_WorkspaceID job"]
      passes_all [of "sc_semver s" job "ActiveCountsByRunner t" "sc_connected s" r]
    by (simp add: set_schedulable)
  then show ?thesis
    unfolding AvailabilityReason_Available SelectRunner_def by (auto simp: pick_None simp del: not_None_eq)
qed

theorem availability_explains_wait_witness:
  "AvailabilityReason (sample_scheduler [sample_runner 3 None]) (sample_table []) sample_job = Available"
  using availability_explains_wait [of "sample_scheduler [sample_runner 3 None]" "sample_table []" sample_job]
  by (simp add: sample_select) (simp add: pool_is_shared_def sample_defs)


lemma sample_run_one:
  defines "s \<equiv> sample_scheduler [sample_runner 3 None]"
  shows "(lease_step s)\<^sup>*\<^sup>* empty_world
           \<lparr>lw_table = sample_table [sample_lease 1 LeaseActive], lw_claims = [], lw_sweeps = []\<rparr>"
proof -
  let ?c = "(3, LeaseKindPipeline, 1)"
  have "lease_step s empty_world (empty_world\<lparr>lw_claims := (rn_ID (sample_runner 3 None), LeaseKindPipeline, 1) # lw_claims empty_world\<rparr>)"
    using sample_select(2) by (intro lease_step.select [of _ _ sample_job]) (simp add: s_def empty_world_def sample_table_def)
  moreover have "lease_step s (empty_world\<lparr>lw_claims := [?c]\<rparr>)
     ((empty_world\<lparr>lw_claims := [?c]\<rparr>)
        \<lparr>lw_table := sample_table [sample_lease 1 LeaseActive], lw_claims := remove1 ?c [?c]\<rparr>)"
    using lease_step.lease [of 3 LeaseKindPipeline 1 "empty_world\<lparr>lw_claims := [?c]\<rparr>" 5 10] 
    by (simp add: empty_world_def Lease_def lease_Create_def sample_table_def sample_lease_def)
  ultimately show ?thesis
    by (simp add: empty_world_def sample_runner_def sample_table_def)
qed


text \<open>
  When every claim runs without interruption, in any order with releases and sweeps, a runner
  never has more active leases than its concurrency.
\<close>

theorem atomic_claims_within_concurrency:
  assumes "(atomic_step s)\<^sup>*\<^sup>* \<lparr>lt_rows = [], lt_next = n\<rparr> t"
    and "distinct (map rn_ID (sc_runners s))" and "r \<in> set (sc_runners s)" and "0 \<le> rn_Concurrency r"
  shows "ActiveCountsByRunner t (rn_ID r) \<le> rn_Concurrency r"
proof -
  have "ActiveCountsByRunner t (rn_ID r) \<le> limit_of s (rn_ID r)"
    by (rule claims.within_limit [OF assms(1)])
       (simp add: ActiveCountsByRunner_def limit_of_eq [OF assms(2-4)] assms(4))
  then show ?thesis by (simp add: limit_of_eq [OF assms(2-4)])
qed

theorem atomic_claims_within_concurrency_witness:
  "ActiveCountsByRunner (sample_table [(sample_lease 1 LeaseActive)\<lparr>ls_ExpiresAt := deadline 5 5\<rparr>]) 3 \<le> 1"
  using atomic_claims_within_concurrency [of "sample_scheduler [sample_runner 3 None]" "Suc 0", OF r_into_rtranclp,
      OF atomic_claim [OF sample_claim [of 5, unfolded sample_table_def [of "[]"], simplified]],
      of "sample_runner 3 None"]
  by (simp add: sample_scheduler_def sample_runner_def)

text \<open>
  The bound does not survive interleaving. Selecting a runner and leasing it are two separate
  calls, so two dispatchers can choose the same runner while it is free and both lease it: there is a
  reachable state in which a runner has more active leases than its concurrency.
\<close>

theorem claims_can_exceed_concurrency:
  "\<exists>s w r. (lease_step s)\<^sup>*\<^sup>* empty_world w \<and> r \<in> set (sc_runners s) \<and>
     rn_Concurrency r < ActiveCountsByRunner (lw_table w) (rn_ID r)"
proof -
  let ?s = "sample_scheduler [sample_runner 3 None]"
  let ?c = "\<lambda>i. (3 :: nat, LeaseKindPipeline, i :: nat)"
  let ?w = "\<lambda>rows cs. \<lparr>lw_table = sample_table rows, lw_claims = cs, lw_sweeps = []\<rparr>"
  have sel: "lease_step ?s (?w [] cs) (?w [] (?c i # cs))" for i cs
    using lease_step.select [of ?s "?w [] cs" sample_job "sample_runner 3 None" LeaseKindPipeline i]
    by (simp add: sample_select(2)) (simp add: sample_runner_def)
  have "lease_step ?s (?w [] [?c 1, ?c 2]) (?w [sample_lease 1 LeaseActive] [?c 2])"
    using lease_step.lease [of 3 LeaseKindPipeline 1 "?w [] [?c 1, ?c 2]" 5 10]
    by (simp add: Lease_def lease_Create_def sample_table_def sample_lease_def)
  moreover have "lease_step ?s (?w [sample_lease 1 LeaseActive] [?c 2])
      (?w [sample_lease 1 LeaseActive, sample_lease 2 LeaseActive] [])"
    using lease_step.lease [of 3 LeaseKindPipeline 2 "?w [sample_lease 1 LeaseActive] [?c 2]" 5 10]
    by (simp add: Lease_def lease_Create_def sample_table_def sample_lease_def active_for_def)
  ultimately have "(lease_step ?s)\<^sup>*\<^sup>* (?w [] []) (?w [sample_lease 1 LeaseActive, sample_lease 2 LeaseActive] [])"
    using sel [of "[]" 2] sel [of "[?c 2]" 1] by (meson converse_rtranclp_into_rtranclp rtranclp.rtrancl_refl)
  moreover have "?w [] [] = empty_world" by (simp add: empty_world_def sample_table_def)
  ultimately show ?thesis
    by (intro exI [of _ ?s] exI [of _ "?w [sample_lease 1 LeaseActive, sample_lease 2 LeaseActive] []"]
          exI [of _ "sample_runner 3 None"])
       (simp add: sample_scheduler_def sample_runner_def ActiveCountsByRunner_def sample_table_def sample_lease_def)
qed

text \<open>
  A sweep can undo a release. \<open>ExpireDue\<close> reads the overdue rows and then updates them by id, so
  a lease that its runner completes in between, already marked done, is turned into an expired one.
\<close>

theorem sweep_can_undo_release:
  "\<exists>s w w' l. (lease_step s)\<^sup>*\<^sup>* empty_world w \<and> (lease_step s)\<^sup>*\<^sup>* w w' \<and>
     l \<in> set (lt_rows (lw_table w)) \<and> ls_Status l = LeaseDone \<and>
     l\<lparr>ls_Status := LeaseExpired\<rparr> \<in> set (lt_rows (lw_table w'))"
proof -
  let ?s = "sample_scheduler [sample_runner 3 None]"
  let ?w = "\<lambda>st sw. \<lparr>lw_table = sample_table [sample_lease 1 st], lw_claims = [], lw_sweeps = sw\<rparr>"
  have "lease_step ?s (?w LeaseActive []) (?w LeaseActive [[1]])"
    using lease_step.sweep_read [of ?s "?w LeaseActive []" 11]
    by (simp add: due_leases_def sample_table_def sample_lease_def)
  moreover have "lease_step ?s (?w LeaseActive [[1]]) (?w LeaseDone [[1]])"
    using lease_step.release [of ?s "?w LeaseActive [[1]]" LeaseKindPipeline 1]
    by (simp add: lease_Release_def sample_table_def sample_lease_def active_for_def)
  ultimately have "(lease_step ?s)\<^sup>*\<^sup>* empty_world (?w LeaseDone [[1]])"
    using sample_run_one by (meson rtranclp.rtrancl_into_rtrancl)
  moreover have "lease_step ?s (?w LeaseDone [[1]]) (?w LeaseExpired [])"
    using lease_step.sweep_write [of "[1]" "?w LeaseDone [[1]]" ?s]
    by (simp add: expire_ids_def sample_table_def sample_lease_def)
  ultimately show ?thesis
    by (intro exI [of _ ?s] exI [of _ "?w LeaseDone [[1]]"] exI [of _ "?w LeaseExpired []"]
          exI [of _ "sample_lease 1 LeaseDone"])
       (simp add: r_into_rtranclp sample_table_def sample_lease_def)
qed

text \<open>
  A job without a deadline loses its lease. With the build timeout at zero, documented as no
  deadline, the lease carries the zero time, and the first sweep after the claim expires it although
  the job is still running.
\<close>

theorem no_deadline_lease_swept:
  assumes "lease_inv t" and "timeout \<le> 0"
    and "claim s t now timeout job kind runID = Inr (t', rn)" and "zero_time < later"
  shows "ActiveByRun t' kind runID \<noteq> None \<and>
         ActiveByRun (fst (ExpireDue later t')) kind runID = None"
proof -
  note lease = claim_Inr(2) [OF assms(3)]
  define l where "l = last (lt_rows t')"
  have l: "l \<in> set (lt_rows t')" "active_for kind runID l" "ls_ExpiresAt l = zero_time"
    using assms(2) by (simp_all add: l_def Lease_rows [OF lease] active_for_def deadline_def)
  have inv: "lease_inv t'"
    by (rule Lease_inv [OF assms(1) lease])
  have "\<not> active_for kind runID x" if x: "x \<in> set (lt_rows (fst (ExpireDue later t')))" for x
  proof
    assume act: "active_for kind runID x"
    then have x': "x \<in> set (lt_rows t')"
      using x by (auto simp: ExpireDue_rows [OF inv] active_for_iff split: if_splits)
    have "x = l" by (rule lease_inv_unique [OF inv x' l(1) act l(2)])
    moreover have "later \<le> ls_ExpiresAt x"
      using swept_not_due [OF inv x] act by (simp add: active_for_iff)
    ultimately show False using l(3) assms(4) by simp
  qed
  moreover have "ActiveByRun t' kind runID \<noteq> None"
    using l(1,2) by (auto simp: ActiveByRun_def find_None_iff)
  ultimately show ?thesis
    by (simp add: ActiveByRun_def find_None_iff)
qed

theorem no_deadline_lease_swept_witness:
  "ActiveByRun (fst (ExpireDue 6 (sample_table [(sample_lease 1 LeaseActive)\<lparr>ls_ExpiresAt := deadline 0 5\<rparr>])))
     LeaseKindPipeline 1 = None"
  using no_deadline_lease_swept [OF _ _ sample_claim [of 0], of 6]
  by (simp add: lease_inv_def sample_table_def zero_time_def)

end
