(* ===== verification/Placement.thy ===== *)
theory Placement
  imports Go_Prelude
begin

text \<open>
  Where a new resource lands: \<^verbatim>\<open>internal/services/placement/placement.go\<close> and \<^verbatim>\<open>reach.go\<close>, with the
  reads of \<^verbatim>\<open>internal/storage/repositories/cluster_repo.go\<close> and \<^verbatim>\<open>server_repo.go\<close>, the plan's placement
  of \<^verbatim>\<open>internal/services/quota/quota.go\<close> and the ownership of \<^verbatim>\<open>internal/services/organization\<close>.

  The service works on a \<open>Store\<close>, one field per repository read, \<open>None\<close> where the read fails or finds
  nothing; \<open>store_of\<close> builds the store from the tables, with any set of reads failing. The interface
  \<open>cluster_store\<close> states what the service relies on. Ids are \<open>nat\<close>, 0 the unset id.
\<close>

section \<open>Clusters, nodes and what is placed on them\<close>

abbreviation ClusterModeStandalone :: string where "ClusterModeStandalone \<equiv> ''standalone''"
abbreviation ClusterModeSwarm :: string where "ClusterModeSwarm \<equiv> ''swarm''"
abbreviation VisibilityAll :: string where "VisibilityAll \<equiv> ''all''"
abbreviation VisibilityRestricted :: string where "VisibilityRestricted \<equiv> ''restricted''"
abbreviation VisibilityOrganization :: string where "VisibilityOrganization \<equiv> ''organization''"

text \<open>The columns that placement reads.\<close>

record Cluster =
  cl_ID :: nat
  cl_Name :: string
  cl_DisplayName :: string
  cl_LocationCode :: string
  cl_Mode :: string
  cl_IsDefault :: bool
  cl_ManagerServerID :: nat
  cl_Visibility :: string
  cl_OrganizationID :: "nat option"
  cl_Cordoned :: bool

record Server =
  sv_ID :: nat
  sv_Name :: string
  sv_DisplayName :: string
  sv_ClusterID :: nat
  sv_IsLocal :: bool
  sv_Cordoned :: bool
  sv_Labels :: "(string \<times> string) list"
  sv_SwarmNodeID :: string

definition PoolLabel :: string where "PoolLabel = ''miabi.pool''"

definition PoolOf :: "Server \<Rightarrow> string" where
  "PoolOf srv = (case map_of (sv_Labels srv) PoolLabel of None \<Rightarrow> [] | Some p \<Rightarrow> p)"

definition cluster_Label :: "Cluster \<Rightarrow> string" where
  "cluster_Label c = (let l = TrimSpace (cl_DisplayName c) in if l \<noteq> [] then l else cl_Name c)"

definition server_Label :: "Server \<Rightarrow> string" where
  "server_Label srv = (let l = TrimSpace (sv_DisplayName srv) in if l \<noteq> [] then l else sv_Name srv)"

record ServerLoad =
  ld_MemoryBytes :: int
  ld_Workloads :: int

definition load_Less :: "ServerLoad \<Rightarrow> ServerLoad \<Rightarrow> bool" where
  "load_Less l o1 =
     (if ld_MemoryBytes l \<noteq> ld_MemoryBytes o1 then ld_MemoryBytes l < ld_MemoryBytes o1
      else ld_Workloads l < ld_Workloads o1)"

record PlanPlacement =
  pp_Locations :: "nat list"
  pp_Pool :: string

definition no_placement :: PlanPlacement where
  "no_placement = \<lparr>pp_Locations = [], pp_Pool = []\<rparr>"

section \<open>What the service reads\<close>

record Store =
  st_ClusterByID :: "nat \<Rightarrow> Cluster option"
  st_ClusterByName :: "string \<Rightarrow> Cluster option"
  st_DefaultCluster :: "Cluster option"
  st_WorkspaceDefault :: "nat \<Rightarrow> Cluster option"
  st_Clusters :: "Cluster list option"
  st_Loads :: "nat \<Rightarrow> (nat \<Rightarrow> ServerLoad) option"
  st_ServerByID :: "nat \<Rightarrow> Server option"
  st_LocalServer :: "Server option"
  st_Servers :: "Server list option"

text \<open>The organization service: a workspace's row (system flag and organization), the default organization,
  the number of clusters an organization owns and its label.\<close>

record Orgs =
  og_Workspace :: "nat \<Rightarrow> (bool \<times> nat option) option"
  og_Default :: nat
  og_Clusters :: "nat \<Rightarrow> nat option"
  og_Label :: "nat \<Rightarrow> string"

record PlacementQuota =
  pq_enforce :: bool
  pq_entitled :: bool
  pq_override :: "nat \<Rightarrow> PlanPlacement option"
  pq_plan :: "nat \<Rightarrow> PlanPlacement option"

record Service =
  sc_store :: Store
  sc_online :: "(nat \<Rightarrow> bool) option"
  sc_policy :: "PlacementQuota option"
  sc_orgs :: "Orgs option"

section \<open>Ownership, visibility and the plan\<close>

definition org_Resolve :: "Orgs \<Rightarrow> nat option \<Rightarrow> nat" where
  "org_Resolve og i =
     (case i of Some n \<Rightarrow> if n \<noteq> 0 then n else og_Default og | None \<Rightarrow> og_Default og)"

definition OrganizationOfWorkspace :: "Orgs \<Rightarrow> nat \<Rightarrow> nat" where
  "OrganizationOfWorkspace og ws =
     (case og_Workspace og ws of
        None \<Rightarrow> 0
      | Some (system, org) \<Rightarrow> if system then 0 else org_Resolve og org)"

definition OwnsClusters :: "Orgs \<Rightarrow> nat \<Rightarrow> bool" where
  "OwnsClusters og org =
     (if org = 0 then False else case og_Clusters og org of None \<Rightarrow> False | Some n \<Rightarrow> 0 < n)"

record access =
  ac_admin :: bool
  ac_orgID :: nat
  ac_confined :: bool

definition hidden :: "access \<Rightarrow> Cluster \<Rightarrow> bool" where
  "hidden a c =
     (if ac_admin a then False
      else case cl_OrganizationID c of
             Some org \<Rightarrow> ac_orgID a = 0 \<or> org \<noteq> ac_orgID a
           | None \<Rightarrow> cl_Visibility c = VisibilityRestricted)"

definition allows :: "access \<Rightarrow> Cluster \<Rightarrow> bool" where
  "allows a c =
     (case cl_OrganizationID c of
        Some org \<Rightarrow> ac_orgID a \<noteq> 0 \<and> org = ac_orgID a
      | None \<Rightarrow>
          if ac_confined a then False
          else if ac_admin a then True
          else cl_Visibility c \<noteq> VisibilityRestricted)"

definition accessFor :: "Service \<Rightarrow> nat \<Rightarrow> bool \<Rightarrow> access" where
  "accessFor s ws admin =
     (case sc_orgs s of
        None \<Rightarrow> \<lparr>ac_admin = admin, ac_orgID = 0, ac_confined = False\<rparr>
      | Some og \<Rightarrow>
          let org = OrganizationOfWorkspace og ws in
          if org = 0 then \<lparr>ac_admin = admin, ac_orgID = 0, ac_confined = False\<rparr>
          else \<lparr>ac_admin = admin, ac_orgID = org, ac_confined = OwnsClusters og org\<rparr>)"

definition placementFrom :: "PlanPlacement option \<Rightarrow> PlanPlacement option \<Rightarrow> PlanPlacement" where
  "placementFrom p ov =
     (case ov of Some pl \<Rightarrow> pl
      | None \<Rightarrow> (case p of None \<Rightarrow> no_placement | Some pl \<Rightarrow> pl))"

definition EffectivePlacement :: "PlacementQuota \<Rightarrow> nat \<Rightarrow> PlanPlacement \<times> bool" where
  "EffectivePlacement q ws =
     (if \<not> pq_enforce q \<or> \<not> pq_entitled q then (no_placement, False)
      else (placementFrom (pq_plan q ws) (pq_override q ws), True))"

definition planPlacement :: "Service \<Rightarrow> nat \<Rightarrow> PlanPlacement \<times> bool" where
  "planPlacement s ws =
     (case sc_policy s of None \<Rightarrow> (no_placement, False) | Some q \<Rightarrow> EffectivePlacement q ws)"

definition permits :: "PlanPlacement \<Rightarrow> bool \<Rightarrow> nat \<Rightarrow> bool \<Rightarrow> bool" where
  "permits p enforced clusterID confined \<longleftrightarrow>
     confined \<or> \<not> enforced \<or> pp_Locations p = [] \<or> clusterID \<in> set (pp_Locations p)"

section \<open>Placing a resource\<close>

record Request =
  rq_WorkspaceID :: nat
  rq_Location :: string
  rq_ServerID :: nat
  rq_Colocate :: nat
  rq_Admin :: bool
  rq_Service :: bool

datatype place_error =
    ErrLocationNotFound | ErrLocationNotAllowed | ErrLocationCordoned
  | ErrNoLocation | ErrNoOwnLocation string
  | ErrNoSchedulableNode | ErrPoolUnavailable string
  | ErrNodePinAdminOnly | ErrLocationMismatch | ErrNodeNotFound | ErrLocationPinned | ErrDatabase

definition resolveID :: "Store \<Rightarrow> nat \<Rightarrow> nat" where
  "resolveID st i =
     (if i \<noteq> 0 then i
      else case st_DefaultCluster st of Some c \<Rightarrow> cl_ID c | None \<Rightarrow> i)"

definition sameOrg :: "Service \<Rightarrow> Request \<Rightarrow> nat \<Rightarrow> place_error option" where
  "sameOrg s req clusterID =
     (case st_ClusterByID (sc_store s) (resolveID (sc_store s) clusterID) of
        None \<Rightarrow> None
      | Some c \<Rightarrow>
          let acc = accessFor s (rq_WorkspaceID req) (rq_Admin req) in
          (case cl_OrganizationID c of
             None \<Rightarrow> if ac_confined acc then Some ErrLocationNotAllowed else None
           | Some org \<Rightarrow> if ac_orgID acc \<noteq> org then Some ErrLocationNotAllowed else None))"

definition onNode :: "Store \<Rightarrow> nat \<Rightarrow> string \<Rightarrow> bool \<Rightarrow> place_error + (nat \<times> nat)" where
  "onNode st serverID location pin =
     (case st_ServerByID st serverID of
        None \<Rightarrow> Inl ErrNodeNotFound
      | Some srv \<Rightarrow>
          if pin \<and> sv_Cordoned srv then Inl ErrNoSchedulableNode
          else let name = TrimSpace location; here = resolveID st (sv_ClusterID srv) in
            if name \<noteq> [] then
              (case st_ClusterByName st name of
                 None \<Rightarrow> Inl ErrLocationNotFound
               | Some c \<Rightarrow>
                   if cl_ID c \<noteq> here then Inl ErrLocationMismatch else Inr (here, serverID))
            else Inr (here, serverID))"

definition usable :: "access \<Rightarrow> PlanPlacement \<Rightarrow> bool \<Rightarrow> Cluster \<Rightarrow> bool" where
  "usable acc policy enforced c \<longleftrightarrow>
     allows acc c \<and> \<not> cl_Cordoned c \<and> permits policy enforced (cl_ID c) (ac_confined acc)"

definition nothing_usable :: "Service \<Rightarrow> access \<Rightarrow> place_error" where
  "nothing_usable s acc =
     (if ac_confined acc then
        ErrNoOwnLocation
          (case sc_orgs s of
             None \<Rightarrow> ''this workspace'' @ [CHR 0x27] @ ''s organization''
           | Some og \<Rightarrow>
               (if og_Label og (ac_orgID acc) \<noteq> [] then og_Label og (ac_orgID acc)
                else ''this workspace'' @ [CHR 0x27] @ ''s organization''))
      else ErrNoLocation)"

text \<open>The locations of the plan, in its order: the first that is usable.\<close>

fun first_planned :: "Store \<Rightarrow> (Cluster \<Rightarrow> bool) \<Rightarrow> nat list \<Rightarrow> Cluster option" where
  "first_planned st ok [] = None"
| "first_planned st ok (i # is) =
     (case st_ClusterByID st i of
        Some c \<Rightarrow> if ok c then Some c else first_planned st ok is
      | None \<Rightarrow> first_planned st ok is)"

definition resolveCluster :: "Service \<Rightarrow> nat \<Rightarrow> string \<Rightarrow> bool \<Rightarrow> place_error + Cluster" where
  "resolveCluster s ws location admin =
     (let st = sc_store s; (policy, enforced) = planPlacement s ws; acc = accessFor s ws admin;
          ok = usable acc policy enforced; name = TrimSpace location
      in if name \<noteq> [] then
           (case st_ClusterByName st name of
              None \<Rightarrow> Inl ErrLocationNotFound
            | Some c \<Rightarrow>
                if hidden acc c then Inl ErrLocationNotFound
                else if \<not> allows acc c \<or> \<not> permits policy enforced (cl_ID c) (ac_confined acc) then
                  Inl ErrLocationNotAllowed
                else if cl_Cordoned c then Inl ErrLocationCordoned
                else Inr c)
         else
           (case (case st_WorkspaceDefault st ws of
                    Some d \<Rightarrow> if ok d then Some d else None | None \<Rightarrow> None) of
              Some d \<Rightarrow> Inr d
            | None \<Rightarrow>
                (case (if enforced then first_planned st ok (pp_Locations policy) else None) of
                   Some c \<Rightarrow> Inr c
                 | None \<Rightarrow>
                     (case st_Clusters st of
                        None \<Rightarrow> Inl ErrDatabase
                      | Some cs \<Rightarrow>
                          (case find ok cs of
                             Some c \<Rightarrow> Inr c
                           | None \<Rightarrow> Inl (nothing_usable s acc))))))"

definition node_cordoned :: "Store \<Rightarrow> nat \<Rightarrow> bool" where
  "node_cordoned st serverID =
     (case st_ServerByID st serverID of Some srv \<Rightarrow> sv_Cordoned srv | None \<Rightarrow> False)"

text \<open>The selection loop; 0 stands for no node chosen yet.\<close>

definition takes_work :: "Service \<Rightarrow> Cluster \<Rightarrow> string \<Rightarrow> bool \<Rightarrow> Server \<Rightarrow> bool" where
  "takes_work s c pool pooled srv \<longleftrightarrow>
     \<not> (sv_ClusterID srv \<noteq> cl_ID c \<or> sv_Cordoned srv \<or>
        (\<not> sv_IsLocal srv \<and> (case sc_online s of None \<Rightarrow> True | Some on \<Rightarrow> \<not> on (sv_ID srv)))) \<and>
     \<not> (pooled \<and> PoolOf srv \<noteq> pool)"

fun node_loop ::
  "(Server \<Rightarrow> bool) \<Rightarrow> (nat \<Rightarrow> ServerLoad) \<Rightarrow> nat \<Rightarrow> ServerLoad \<Rightarrow> Server list \<Rightarrow> nat" where
  "node_loop ok loads best bestLoad [] = best"
| "node_loop ok loads best bestLoad (srv # srvs) =
     (if \<not> ok srv then node_loop ok loads best bestLoad srvs
      else let load = loads (sv_ID srv) in
        if best = 0 \<or> load_Less load bestLoad then node_loop ok loads (sv_ID srv) load srvs
        else node_loop ok loads best bestLoad srvs)"

definition no_load :: ServerLoad where
  "no_load = \<lparr>ld_MemoryBytes = 0, ld_Workloads = 0\<rparr>"

text \<open>A pooled plan needs some uncordoned node of the pool in the cluster, on a single-node location too.\<close>

definition pool_check :: "Store \<Rightarrow> Cluster \<Rightarrow> string \<Rightarrow> place_error option" where
  "pool_check st c pool =
     (case st_Servers st of
        None \<Rightarrow> Some ErrDatabase
      | Some srvs \<Rightarrow>
          if \<not> list_ex (\<lambda>srv. sv_ClusterID srv = cl_ID c \<and> \<not> sv_Cordoned srv \<and> PoolOf srv = pool) srvs
          then Some (ErrPoolUnavailable pool) else None)"

text \<open>The manager of a location, on which its workloads run unless it is a swarm.\<close>

definition manager_node :: "Store \<Rightarrow> Cluster \<Rightarrow> place_error + nat" where
  "manager_node st c =
     (let hostsWorkload = (cl_Mode c \<noteq> ClusterModeSwarm) in
      if cl_IsDefault c then
        (case st_LocalServer st of
           None \<Rightarrow> Inl ErrNoSchedulableNode
         | Some local \<Rightarrow>
             if hostsWorkload \<and> sv_Cordoned local then Inl ErrNoSchedulableNode else Inr (sv_ID local))
      else if hostsWorkload \<and> node_cordoned st (cl_ManagerServerID c) then Inl ErrNoSchedulableNode
      else Inr (cl_ManagerServerID c))"

definition swarm_node :: "Service \<Rightarrow> Cluster \<Rightarrow> string \<Rightarrow> bool \<Rightarrow> place_error + nat" where
  "swarm_node s c pool pooled =
     (case st_Servers (sc_store s) of
        None \<Rightarrow> Inl ErrDatabase
      | Some srvs \<Rightarrow>
          (case st_Loads (sc_store s) (cl_ID c) of
             None \<Rightarrow> Inl ErrDatabase
           | Some loads \<Rightarrow>
               let best = node_loop (takes_work s c pool pooled) loads 0 no_load srvs in
               if best = 0 \<and> pooled then Inl (ErrPoolUnavailable pool)
               else if best = 0 then Inl ErrNoSchedulableNode
               else Inr best))"

definition pickNode :: "Service \<Rightarrow> Cluster \<Rightarrow> bool \<Rightarrow> string \<Rightarrow> bool \<Rightarrow> place_error + nat" where
  "pickNode s c service pool pooled =
     (let managed = (cl_Mode c \<noteq> ClusterModeSwarm \<or> service) in
      case (if pooled \<and> managed then pool_check (sc_store s) c pool else None) of
        Some e \<Rightarrow> Inl e
      | None \<Rightarrow> if managed then manager_node (sc_store s) c else swarm_node s c pool pooled)"

definition on_required_node :: "Service \<Rightarrow> Request \<Rightarrow> nat \<Rightarrow> bool \<Rightarrow> place_error + (nat \<times> nat)" where
  "on_required_node s req serverID pin =
     (case onNode (sc_store s) serverID (rq_Location req) pin of
        Inl e \<Rightarrow> Inl e
      | Inr res \<Rightarrow> (case sameOrg s req (fst res) of Some e \<Rightarrow> Inl e | None \<Rightarrow> Inr res))"

definition names_hidden :: "Service \<Rightarrow> Request \<Rightarrow> bool" where
  "names_hidden s req \<longleftrightarrow>
     (rq_ServerID req \<noteq> 0 \<or> rq_Colocate req \<noteq> 0) \<and> TrimSpace (rq_Location req) \<noteq> [] \<and>
     (case st_ClusterByName (sc_store s) (TrimSpace (rq_Location req)) of
        None \<Rightarrow> False
      | Some c \<Rightarrow> hidden (accessFor s (rq_WorkspaceID req) (rq_Admin req)) c)"

definition Place :: "Service \<Rightarrow> Request \<Rightarrow> place_error + (nat \<times> nat)" where
  "Place s req =
     (if rq_ServerID req \<noteq> 0 \<and> \<not> rq_Admin req then Inl ErrNodePinAdminOnly
      else if names_hidden s req then Inl ErrLocationNotFound
      else if rq_ServerID req \<noteq> 0 then on_required_node s req (rq_ServerID req) True
      else if rq_Colocate req \<noteq> 0 then on_required_node s req (rq_Colocate req) False
      else
        (case resolveCluster s (rq_WorkspaceID req) (rq_Location req) (rq_Admin req) of
           Inl e \<Rightarrow> Inl e
         | Inr c \<Rightarrow>
             let (policy, enforced) = planPlacement s (rq_WorkspaceID req) in
             (case pickNode s c (rq_Service req) (pp_Pool policy) enforced of
                Inl e \<Rightarrow> Inl e
              | Inr serverID \<Rightarrow> Inr (cl_ID c, serverID))))"

section \<open>What a workspace is shown\<close>

definition PoolConstraints :: "Service \<Rightarrow> nat \<Rightarrow> nat \<Rightarrow> string list" where
  "PoolConstraints s ws clusterID =
     (let (policy, enforced) = planPlacement s ws in
      if \<not> enforced then []
      else if pp_Pool policy \<noteq> [] then [''node.labels.'' @ PoolLabel @ ''=='' @ pp_Pool policy]
      else case st_Servers (sc_store s) of
             None \<Rightarrow> []
           | Some srvs \<Rightarrow>
               let here = resolveID (sc_store s) clusterID in
               sort (map (\<lambda>p. ''node.labels.'' @ PoolLabel @ ''!='' @ p)
                 (remdups (map PoolOf
                   (filter (\<lambda>srv. PoolOf srv \<noteq> [] \<and> sv_ClusterID srv = here) srvs)))))"

record Node =
  nd_ID :: nat
  nd_Name :: string
  nd_IsLocal :: bool
  nd_Online :: bool
  nd_Cordoned :: bool
  nd_SwarmNodeID :: string

definition node_of :: "Service \<Rightarrow> Server \<Rightarrow> Node" where
  "node_of s srv =
     \<lparr>nd_ID = sv_ID srv, nd_Name = server_Label srv, nd_IsLocal = sv_IsLocal srv,
      nd_Online = (sv_IsLocal srv \<or> (case sc_online s of None \<Rightarrow> False | Some on \<Rightarrow> on (sv_ID srv))),
      nd_Cordoned = sv_Cordoned srv, nd_SwarmNodeID = sv_SwarmNodeID srv\<rparr>"

definition Nodes :: "Service \<Rightarrow> nat \<Rightarrow> string \<Rightarrow> bool \<Rightarrow> place_error + Node list" where
  "Nodes s ws location admin =
     (case resolveCluster s ws location admin of
        Inl e \<Rightarrow> Inl e
      | Inr c \<Rightarrow>
          (case st_Servers (sc_store s) of
             None \<Rightarrow> Inl ErrDatabase
           | Some srvs \<Rightarrow>
               let (policy, enforced) = planPlacement s ws in
               Inr (map (node_of s)
                 (filter (\<lambda>srv. \<not> (resolveID (sc_store s) (sv_ClusterID srv) \<noteq> cl_ID c \<or>
                                     enforced \<and> PoolOf srv \<noteq> pp_Pool policy)) srvs))))"

definition NodeConstraint :: "Store \<Rightarrow> nat \<Rightarrow> string" where
  "NodeConstraint st serverID =
     (case (if serverID = 0 then st_LocalServer st else st_ServerByID st serverID) of
        None \<Rightarrow> []
      | Some srv \<Rightarrow> if sv_SwarmNodeID srv = [] then [] else ''node.id=='' @ sv_SwarmNodeID srv)"

record Location =
  lo_ID :: nat
  lo_Name :: string
  lo_DisplayName :: string
  lo_LocationCode :: string
  lo_Default :: bool
  lo_Swarm :: bool

definition Locations :: "Service \<Rightarrow> nat \<Rightarrow> bool \<Rightarrow> place_error + Location list" where
  "Locations s ws admin =
     (case st_Clusters (sc_store s) of
        None \<Rightarrow> Inl ErrDatabase
      | Some cs \<Rightarrow>
          let fallback = resolveCluster s ws [] admin;
              (policy, enforced) = planPlacement s ws;
              acc = accessFor s ws admin
          in Inr (map (\<lambda>c. \<lparr>lo_ID = cl_ID c, lo_Name = cl_Name c, lo_DisplayName = cluster_Label c,
                            lo_LocationCode = cl_LocationCode c,
                            lo_Default = (case fallback of Inl _ \<Rightarrow> False | Inr d \<Rightarrow> cl_ID d = cl_ID c),
                            lo_Swarm = (cl_Mode c = ClusterModeSwarm)\<rparr>)
               (filter (\<lambda>c. \<not> (\<not> allows acc c \<or> cl_Cordoned c \<or>
                                \<not> permits policy enforced (cl_ID c) (ac_confined acc))) cs)))"

record LocationSet =
  lset_Locations :: "Location list"
  lset_Pinned :: bool
  lset_PinnedTo :: string

definition LocationsFor :: "Service \<Rightarrow> nat \<Rightarrow> bool \<Rightarrow> place_error + LocationSet" where
  "LocationsFor s ws admin =
     (case Locations s ws admin of
        Inl e \<Rightarrow> Inl e
      | Inr locs \<Rightarrow>
          let acc = accessFor s ws admin in
          Inr (if ac_confined acc then
                 \<lparr>lset_Locations = locs, lset_Pinned = True,
                  lset_PinnedTo = (case sc_orgs s of None \<Rightarrow> [] | Some og \<Rightarrow> og_Label og (ac_orgID acc))\<rparr>
               else \<lparr>lset_Locations = locs, lset_Pinned = False, lset_PinnedTo = []\<rparr>))"

text \<open>The result is what is written to the workspace's default location.\<close>

definition SetDefaultLocation :: "Service \<Rightarrow> nat \<Rightarrow> string \<Rightarrow> bool \<Rightarrow> place_error + nat option" where
  "SetDefaultLocation s ws location admin =
     (let acc = accessFor s ws admin; name = TrimSpace location in
      if ac_confined acc then Inl ErrLocationPinned
      else if name = [] then Inr None
      else case st_ClusterByName (sc_store s) name of
             None \<Rightarrow> Inl ErrLocationNotFound
           | Some c \<Rightarrow>
               let (policy, enforced) = planPlacement s ws in
               if hidden acc c then Inl ErrLocationNotFound
               else if \<not> allows acc c \<or> \<not> permits policy enforced (cl_ID c) (ac_confined acc) then
                 Inl ErrLocationNotAllowed
               else Inr (Some (cl_ID c)))"

section \<open>Private links\<close>

record Site =
  si_Kind :: string
  si_Name :: string
  si_ClusterID :: nat
  si_ServerID :: nat

datatype reach_error = ErrCrossLocation | ErrCrossNode

definition Reach :: "Site \<Rightarrow> Site \<Rightarrow> (nat \<Rightarrow> bool) option \<Rightarrow> reach_error option" where
  "Reach a b swarm =
     (if si_ClusterID a \<noteq> si_ClusterID b then Some ErrCrossLocation
      else if si_ServerID a \<noteq> si_ServerID b \<and> (case swarm of None \<Rightarrow> True | Some sw \<Rightarrow> \<not> sw (si_ClusterID a))
      then Some ErrCrossNode else None)"

definition service_Reach :: "Store \<Rightarrow> Site \<Rightarrow> Site \<Rightarrow> (nat \<Rightarrow> bool) option \<Rightarrow> reach_error option" where
  "service_Reach st a b swarm =
     Reach (a\<lparr>si_ClusterID := resolveID st (si_ClusterID a)\<rparr>)
           (b\<lparr>si_ClusterID := resolveID st (si_ClusterID b)\<rparr>) swarm"

definition LocationName :: "Store \<Rightarrow> nat \<Rightarrow> string" where
  "LocationName st clusterID = (case st_ClusterByID st clusterID of Some c \<Rightarrow> cl_Name c | None \<Rightarrow> [])"

section \<open>The tables\<close>

record AppRow =
  ap_ServerID :: nat
  ap_ClusterID :: nat
  ap_MemoryBytes :: int
  ap_RuntimeKind :: string

record PlaceDb =
  pd_clusters :: "Cluster list"
  pd_servers :: "Server list"
  pd_apps :: "AppRow list"
  pd_instances :: "(nat \<times> nat) list"
  pd_volumes :: "(nat \<times> nat) list"
  pd_defaults :: "nat \<Rightarrow> nat option"

definition FindDefault :: "PlaceDb \<Rightarrow> Cluster option" where
  "FindDefault db = find cl_IsDefault (pd_clusters db)"

definition FindByID :: "PlaceDb \<Rightarrow> nat \<Rightarrow> Cluster option" where
  "FindByID db i = (if i = 0 then FindDefault db else find (\<lambda>c. cl_ID c = i) (pd_clusters db))"

definition FindByName :: "PlaceDb \<Rightarrow> string \<Rightarrow> Cluster option" where
  "FindByName db name = find (\<lambda>c. cl_Name c = name) (pd_clusters db)"

definition WorkspaceDefault :: "PlaceDb \<Rightarrow> nat \<Rightarrow> Cluster option" where
  "WorkspaceDefault db ws =
     (case pd_defaults db ws of
        None \<Rightarrow> None
      | Some i \<Rightarrow> find (\<lambda>c. cl_ID c = i) (pd_clusters db))"

definition cluster_less :: "Cluster \<Rightarrow> Cluster \<Rightarrow> bool" where
  "cluster_less a b =
     (if cl_IsDefault a \<noteq> cl_IsDefault b then cl_IsDefault a else cl_Name a < cl_Name b)"

definition cluster_List :: "PlaceDb \<Rightarrow> Cluster list" where
  "cluster_List db = SliceStable cluster_less (pd_clusters db)"

definition ServerLoads :: "PlaceDb \<Rightarrow> nat \<Rightarrow> nat \<Rightarrow> ServerLoad" where
  "ServerLoads db clusterID serverID =
     (let apps = filter (\<lambda>a. ap_ClusterID a = clusterID \<and> ap_RuntimeKind a \<noteq> ''service'' \<and>
                             ap_ServerID a = serverID) (pd_apps db);
          here = (\<lambda>rows. int (length (filter (\<lambda>r. r = (serverID, clusterID)) rows)))
      in \<lparr>ld_MemoryBytes = sum_list (map ap_MemoryBytes apps),
          ld_Workloads = int (length apps) + here (pd_instances db) + here (pd_volumes db)\<rparr>)"

definition server_FindByID :: "PlaceDb \<Rightarrow> nat \<Rightarrow> Server option" where
  "server_FindByID db i = find (\<lambda>srv. sv_ID srv = i) (pd_servers db)"

definition FindLocal :: "PlaceDb \<Rightarrow> Server option" where
  "FindLocal db = find sv_IsLocal (pd_servers db)"

text \<open>The reads over the tables, those named by \<open>fails\<close> failing.\<close>

datatype reading =
    Read_ByID | Read_ByName | Read_Default | Read_WorkspaceDefault | Read_Clusters
  | Read_Loads | Read_Server | Read_Local | Read_Servers

definition store_of :: "reading set \<Rightarrow> PlaceDb \<Rightarrow> Store" where
  "store_of fails db =
     \<lparr>st_ClusterByID = (\<lambda>i. if (if i = 0 then Read_Default else Read_ByID) \<in> fails then None
                            else FindByID db i),
      st_ClusterByName = (\<lambda>n. if Read_ByName \<in> fails then None else FindByName db n),
      st_DefaultCluster = (if Read_Default \<in> fails then None else FindDefault db),
      st_WorkspaceDefault = (\<lambda>ws. if Read_WorkspaceDefault \<in> fails then None else WorkspaceDefault db ws),
      st_Clusters = (if Read_Clusters \<in> fails then None else Some (cluster_List db)),
      st_Loads = (\<lambda>c. if Read_Loads \<in> fails then None else Some (ServerLoads db c)),
      st_ServerByID = (\<lambda>i. if Read_Server \<in> fails then None else server_FindByID db i),
      st_LocalServer = (if Read_Local \<in> fails then None else FindLocal db),
      st_Servers = (if Read_Servers \<in> fails then None else Some (pd_servers db))\<rparr>"

text \<open>The keys of the tables: primary keys are positive and unique, names are unique.\<close>

definition place_db_ok :: "PlaceDb \<Rightarrow> bool" where
  "place_db_ok db \<longleftrightarrow>
     distinct (map cl_ID (pd_clusters db)) \<and> distinct (map cl_Name (pd_clusters db)) \<and>
     distinct (map sv_ID (pd_servers db)) \<and>
     (\<forall>c \<in> set (pd_clusters db). cl_ID c \<noteq> 0 \<and> cl_OrganizationID c \<noteq> Some 0) \<and>
     (\<forall>srv \<in> set (pd_servers db). sv_ID srv \<noteq> 0)"

section \<open>The interface of the reads\<close>

lemma TrimSpace_Nil [simp]: "TrimSpace [] = []"
  by code_simp

definition found :: "Store \<Rightarrow> Cluster \<Rightarrow> bool" where
  "found st c \<longleftrightarrow>
     (\<exists>i. st_ClusterByID st i = Some c) \<or> (\<exists>n. st_ClusterByName st n = Some c) \<or>
     st_DefaultCluster st = Some c \<or> (\<exists>ws. st_WorkspaceDefault st ws = Some c) \<or>
     (\<exists>cs. st_Clusters st = Some cs \<and> c \<in> set cs)"

locale cluster_store =
  fixes st :: Store and ok :: bool
  assumes found_id: "\<lbrakk>ok; found st c\<rbrakk> \<Longrightarrow> cl_ID c \<noteq> 0"
    and found_org: "\<lbrakk>ok; found st c\<rbrakk> \<Longrightarrow> cl_OrganizationID c \<noteq> Some 0"
    and found_unique: "\<lbrakk>ok; found st c; found st c'; cl_ID c = cl_ID c'\<rbrakk> \<Longrightarrow> c = c'"
    and by_id: "\<lbrakk>ok; st_ClusterByID st i = Some c; i \<noteq> 0\<rbrakk> \<Longrightarrow> cl_ID c = i"
    and by_zero: "ok \<Longrightarrow> st_ClusterByID st 0 = st_DefaultCluster st"
    and by_name: "\<lbrakk>ok; st_ClusterByName st n = Some c\<rbrakk> \<Longrightarrow> cl_Name c = n"
begin

lemma first_planned_found:
  assumes "first_planned st good is = Some c"
  shows "found st c \<and> good c"
  using assms by (induction "is") (auto simp: found_def split: option.splits if_splits)

text \<open>A location is resolved to a cluster that was read, is usable, and has the name asked for.\<close>

lemma resolve_found:
  assumes "ok" and "sc_store s = st" and "resolveCluster s ws location admin = Inr c"
  shows "found st c" and "allows (accessFor s ws admin) c" and "\<not> cl_Cordoned c"
    and "permits (fst (planPlacement s ws)) (snd (planPlacement s ws)) (cl_ID c) (ac_confined (accessFor s ws admin))"
    and "TrimSpace location \<noteq> [] \<Longrightarrow> cl_Name c = TrimSpace location"
proof -
  obtain policy enforced where pl: "planPlacement s ws = (policy, enforced)"
    by (cases "planPlacement s ws")
  let ?good = "usable (accessFor s ws admin) policy enforced"
  have "found st c \<and> ?good c \<and> (TrimSpace location \<noteq> [] \<longrightarrow> cl_Name c = TrimSpace location)"
  proof (cases "TrimSpace location = []")
    case False
    with assms(3) have "st_ClusterByName st (TrimSpace location) = Some c" and "?good c"
      by (auto simp: resolveCluster_def pl assms(2) usable_def Let_def split: option.splits if_splits)
    with by_name [OF assms(1)] show ?thesis by (auto simp: found_def)
  next
    case True
    consider "st_WorkspaceDefault st ws = Some c" "?good c"
      | "first_planned st ?good (pp_Locations policy) = Some c"
      | cs where "st_Clusters st = Some cs" "find ?good cs = Some c"
      using assms(3) True
      by (auto simp: resolveCluster_def pl assms(2) Let_def split: option.splits if_splits)
    then show ?thesis
    proof cases
      case 3
      then show ?thesis using True by (auto simp: found_def find_Some_iff)
    qed (use True first_planned_found [of ?good "pp_Locations policy" c] in \<open>auto simp: found_def\<close>)
  qed
  then show "found st c" and "allows (accessFor s ws admin) c" and "\<not> cl_Cordoned c"
    and "permits (fst (planPlacement s ws)) (snd (planPlacement s ws)) (cl_ID c) (ac_confined (accessFor s ws admin))"
    and "TrimSpace location \<noteq> [] \<Longrightarrow> cl_Name c = TrimSpace location"
    by (simp_all add: pl usable_def)
qed

lemma resolveID_idem: "ok \<Longrightarrow> resolveID st (resolveID st i) = resolveID st i"
  using found_id by (auto simp: resolveID_def found_def split: option.splits)

end

text \<open>A store in which the listed clusters can also be read one by one.\<close>

locale reliable_store = cluster_store +
  fixes rows :: "Cluster list"
  assumes listed: "ok \<Longrightarrow> st_Clusters st = Some rows"
    and named: "\<lbrakk>ok; c \<in> set rows\<rbrakk> \<Longrightarrow> st_ClusterByName st (cl_Name c) = Some c"
    and found_listed: "\<lbrakk>ok; found st c\<rbrakk> \<Longrightarrow> c \<in> set rows"
begin

lemma allows_not_hidden: "allows acc c \<Longrightarrow> \<not> hidden acc c"
  by (auto simp: allows_def hidden_def split: option.splits if_splits)

text \<open>A location named by its listed cluster is resolved to it iff it is usable.\<close>

lemma resolve_by_name:
  assumes "ok" and "sc_store s = st" and "c \<in> set rows"
    and "TrimSpace (cl_Name c) = cl_Name c" and "cl_Name c \<noteq> []"
  shows "resolveCluster s ws (cl_Name c) admin = Inr c \<longleftrightarrow>
         usable (accessFor s ws admin) (fst (planPlacement s ws)) (snd (planPlacement s ws)) c"
  using assms(2-) named [OF assms(1,3)] allows_not_hidden
  by (auto simp: resolveCluster_def usable_def Let_def split: prod.splits)

lemma resolve_default:
  assumes "ok" and "sc_store s = st"
  shows "(\<exists>d. resolveCluster s ws [] admin = Inr d) \<longleftrightarrow>
    (\<exists>c \<in> set rows. usable (accessFor s ws admin) (fst (planPlacement s ws)) (snd (planPlacement s ws)) c)"
proof
  assume "\<exists>d. resolveCluster s ws [] admin = Inr d"
  then obtain d where d: "resolveCluster s ws [] admin = Inr d" by (elim exE)
  note r = resolve_found [OF assms d]
  show "\<exists>c \<in> set rows. usable (accessFor s ws admin) (fst (planPlacement s ws)) (snd (planPlacement s ws)) c"
    using r(2-4) found_listed [OF assms(1) r(1)] by (intro bexI [of _ d]) (simp_all add: usable_def)
next
  assume "\<exists>c \<in> set rows. usable (accessFor s ws admin) (fst (planPlacement s ws)) (snd (planPlacement s ws)) c"
  then have "find (usable (accessFor s ws admin) (fst (planPlacement s ws)) (snd (planPlacement s ws))) rows \<noteq> None"
    by (auto simp: find_None_iff)
  then show "\<exists>d. resolveCluster s ws [] admin = Inr d"
    using listed [OF assms(1)]
    by (auto simp: resolveCluster_def assms(2) Let_def TrimSpace_Nil split: prod.splits option.splits)
qed

end

lemma found_store_of: "found (store_of fails db) c \<Longrightarrow> c \<in> set (pd_clusters db)"
  by (auto simp: found_def store_of_def FindByID_def FindDefault_def FindByName_def WorkspaceDefault_def
      cluster_List_def find_Some_iff split: if_splits option.splits)

lemma rows_unique:
  "\<lbrakk>distinct (map f xs); x \<in> set xs; y \<in> set xs; f x = f y\<rbrakk> \<Longrightarrow> x = y"
  by (auto simp: distinct_map dest: inj_onD)

interpretation tables: cluster_store "store_of fails db" "place_db_ok db" for fails db
proof
  show "cl_ID c \<noteq> 0" "cl_OrganizationID c \<noteq> Some 0" if "place_db_ok db" "found (store_of fails db) c" for c
    using that found_store_of [of fails db c] by (auto simp: place_db_ok_def)
  show "c = c'" if "place_db_ok db" "found (store_of fails db) c" "found (store_of fails db) c'"
    "cl_ID c = cl_ID c'" for c c'
    using that found_store_of [of fails db] rows_unique [of cl_ID "pd_clusters db" c c']
    by (auto simp: place_db_ok_def)
  show "cl_ID c = i" if "st_ClusterByID (store_of fails db) i = Some c" "i \<noteq> 0" for i c
    using that by (auto simp: store_of_def FindByID_def find_Some_iff split: if_splits)
  show "st_ClusterByID (store_of fails db) 0 = st_DefaultCluster (store_of fails db)"
    by (simp add: store_of_def FindByID_def)
  show "cl_Name c = n" if "st_ClusterByName (store_of fails db) n = Some c" for n c
    using that by (auto simp: store_of_def FindByName_def find_Some_iff split: if_splits)
qed

lemma FindByName_member:
  assumes "place_db_ok db" and "c \<in> set (pd_clusters db)"
  shows "FindByName db (cl_Name c) = Some c"
proof (cases "FindByName db (cl_Name c)")
  case None
  with assms(2) show ?thesis by (auto simp: FindByName_def find_None_iff)
next
  case (Some c')
  then have "c' \<in> set (pd_clusters db)" "cl_Name c' = cl_Name c"
    by (auto simp: FindByName_def find_Some_iff)
  with assms have "c' = c" using rows_unique [of cl_Name "pd_clusters db" c' c] by (simp add: place_db_ok_def)
  with Some show ?thesis by simp
qed

interpretation clean: reliable_store "store_of {} db" "place_db_ok db" "cluster_List db" for db
proof unfold_locales
  show "st_Clusters (store_of {} db) = Some (cluster_List db)" by (simp add: store_of_def)
  show "st_ClusterByName (store_of {} db) (cl_Name c) = Some c" if "place_db_ok db" "c \<in> set (cluster_List db)" for c
    using that FindByName_member by (simp add: store_of_def cluster_List_def)
  show "c \<in> set (cluster_List db)" if "found (store_of {} db) c" for c
    using found_store_of [OF that] by (simp add: cluster_List_def)
qed

section \<open>Isolation of organizations\<close>

definition org_of :: "Service \<Rightarrow> nat \<Rightarrow> nat" where
  "org_of s ws = (case sc_orgs s of None \<Rightarrow> 0 | Some og \<Rightarrow> OrganizationOfWorkspace og ws)"

definition owns_clusters :: "Service \<Rightarrow> nat \<Rightarrow> bool" where
  "owns_clusters s org = (case sc_orgs s of None \<Rightarrow> False | Some og \<Rightarrow> OwnsClusters og org)"

definition within_org :: "Service \<Rightarrow> nat \<Rightarrow> Cluster \<Rightarrow> bool" where
  "within_org s ws c \<longleftrightarrow>
     (case cl_OrganizationID c of
        Some org \<Rightarrow> org = org_of s ws
      | None \<Rightarrow> \<not> owns_clusters s (org_of s ws))"

lemma accessFor_simps [simp]:
  "ac_admin (accessFor s ws admin) = admin"
  "ac_orgID (accessFor s ws admin) = org_of s ws"
  "ac_confined (accessFor s ws admin) = owns_clusters s (org_of s ws)"
  by (simp_all add: accessFor_def org_of_def owns_clusters_def OwnsClusters_def Let_def split: option.split)

lemma allows_within: "allows (accessFor s ws admin) c \<Longrightarrow> within_org s ws c"
  by (auto simp: allows_def within_org_def split: option.splits if_splits)

lemma sameOrg_within:
  assumes "sameOrg s req cid = None"
    and "st_ClusterByID (sc_store s) (resolveID (sc_store s) cid) = Some c"
  shows "within_org s (rq_WorkspaceID req) c"
  using assms by (auto simp: sameOrg_def within_org_def Let_def split: option.splits if_splits)

lemma on_required_node_cases:
  assumes "on_required_node s req serverID pin = Inr (cid, n)"
  obtains srv where "st_ServerByID (sc_store s) serverID = Some srv" "n = serverID"
    "cid = resolveID (sc_store s) (sv_ClusterID srv)" "pin \<longrightarrow> \<not> sv_Cordoned srv"
    "TrimSpace (rq_Location req) \<noteq> [] \<longrightarrow>
       (\<exists>d. st_ClusterByName (sc_store s) (TrimSpace (rq_Location req)) = Some d \<and> cl_ID d = cid)"
    "sameOrg s req cid = None"
proof -
  have node: "onNode (sc_store s) serverID (rq_Location req) pin = Inr (cid, n)" and "sameOrg s req cid = None"
    using assms by (auto simp: on_required_node_def split: sum.splits option.splits)
  moreover obtain srv where "st_ServerByID (sc_store s) serverID = Some srv"
    using node by (auto simp: onNode_def split: option.splits)
  ultimately show thesis
    using that [of srv] by (auto simp: onNode_def Let_def split: option.splits if_splits)
qed

lemma Place_cases:
  assumes "Place s req = Inr (cid, n)"
  obtains (required) pin serverID where "serverID \<noteq> 0" "on_required_node s req serverID pin = Inr (cid, n)"
    "pin \<longrightarrow> rq_Admin req"
  | (chosen) c where "resolveCluster s (rq_WorkspaceID req) (rq_Location req) (rq_Admin req) = Inr c"
    "cid = cl_ID c" "pickNode s c (rq_Service req) (pp_Pool (fst (planPlacement s (rq_WorkspaceID req))))
       (snd (planPlacement s (rq_WorkspaceID req))) = Inr n"
    "rq_ServerID req = 0" "rq_Colocate req = 0"
  using assms by (auto simp: Place_def split: if_splits sum.splits prod.splits)

section \<open>Choosing a node\<close>

definition lighter :: "(nat \<Rightarrow> ServerLoad) \<Rightarrow> Server \<Rightarrow> Server \<Rightarrow> bool" where
  "lighter loads a b \<longleftrightarrow> load_Less (loads (sv_ID a)) (loads (sv_ID b))"

interpretation load: strict_weak "lighter loads" "\<lambda>_. True" for loads
  by unfold_locales (auto simp: lighter_def load_Less_def split: if_splits)

lemma node_loop_keep_best:
  assumes "\<forall>srv \<in> set srvs. sv_ID srv \<noteq> 0"
    and "case best of None \<Rightarrow> i = 0 | Some b \<Rightarrow> i = sv_ID b \<and> sv_ID b \<noteq> 0 \<and> l = loads (sv_ID b)"
  shows "node_loop good loads i l srvs =
         (case keep_best good (lighter loads) best srvs of None \<Rightarrow> 0 | Some b \<Rightarrow> sv_ID b)"
  using assms
proof (induction srvs arbitrary: best i l)
  case (Cons srv srvs)
  have "node_loop good loads (sv_ID srv) (loads (sv_ID srv)) srvs =
        (case keep_best good (lighter loads) (Some srv) srvs of None \<Rightarrow> 0 | Some b \<Rightarrow> sv_ID b)"
    using Cons.prems by (intro Cons.IH) simp_all
  moreover have "node_loop good loads i l srvs =
        (case keep_best good (lighter loads) best srvs of None \<Rightarrow> 0 | Some b \<Rightarrow> sv_ID b)"
    using Cons.prems by (intro Cons.IH) simp_all
  moreover have "i = 0 \<or> load_Less (loads (sv_ID srv)) l \<longleftrightarrow>
      (case best of None \<Rightarrow> True | Some b \<Rightarrow> lighter loads srv b)"
    using Cons.prems(2) by (cases best) (auto simp: lighter_def)
  ultimately show ?case by (simp add: Let_def)
qed (auto split: option.splits)

lemma swarm_node_reads:
  assumes "sc_store s = store_of fails db" and "Read_Servers \<notin> fails" and "Read_Loads \<notin> fails"
    and "place_db_ok db"
  shows "swarm_node s c pool pooled =
    (case keep_best (takes_work s c pool pooled) (lighter (ServerLoads db (cl_ID c))) None (pd_servers db) of
       None \<Rightarrow> Inl (if pooled then ErrPoolUnavailable pool else ErrNoSchedulableNode)
     | Some b \<Rightarrow> Inr (sv_ID b))"
proof -
  let ?k = "keep_best (takes_work s c pool pooled) (lighter (ServerLoads db (cl_ID c))) None (pd_servers db)"
  have "node_loop (takes_work s c pool pooled) (ServerLoads db (cl_ID c)) 0 no_load (pd_servers db) =
        (case ?k of None \<Rightarrow> 0 | Some b \<Rightarrow> sv_ID b)"
    using assms(4) by (intro node_loop_keep_best) (simp_all add: place_db_ok_def)
  moreover have "b \<in> set (pd_servers db)" if "?k = Some b" for b
    using load.keep_best_Some(1) [OF _ that] by simp
  ultimately show ?thesis
    using assms by (auto simp: swarm_node_def store_of_def place_db_ok_def split: option.splits)
qed

section \<open>A sample installation\<close>

definition sample_cluster :: "nat \<Rightarrow> string \<Rightarrow> string \<Rightarrow> bool \<Rightarrow> nat option \<Rightarrow> Cluster" where
  "sample_cluster i name mode def org =
     \<lparr>cl_ID = i, cl_Name = name, cl_DisplayName = [], cl_LocationCode = [], cl_Mode = mode,
      cl_IsDefault = def, cl_ManagerServerID = 10 * i, cl_Visibility = VisibilityAll,
      cl_OrganizationID = org, cl_Cordoned = False\<rparr>"

definition sample_server :: "nat \<Rightarrow> nat \<Rightarrow> bool \<Rightarrow> Server" where
  "sample_server i cluster isLocal =
     \<lparr>sv_ID = i, sv_Name = ''n'', sv_DisplayName = [], sv_ClusterID = cluster, sv_IsLocal = isLocal,
      sv_Cordoned = False, sv_Labels = [], sv_SwarmNodeID = []\<rparr>"

text \<open>A shared default location, a location of organization 5, and one of organization 6.\<close>

definition sample_places :: PlaceDb where
  "sample_places =
     \<lparr>pd_clusters = [sample_cluster 2 ''eu'' ClusterModeSwarm True None,
                     sample_cluster 3 ''acme'' ClusterModeStandalone False (Some 5),
                     sample_cluster 4 ''rival'' ClusterModeStandalone False (Some 6)],
      pd_servers = [sample_server 20 2 True, sample_server 21 2 False, sample_server 30 3 False,
                    sample_server 40 4 False],
      pd_apps = [\<lparr>ap_ServerID = 20, ap_ClusterID = 2, ap_MemoryBytes = 512, ap_RuntimeKind = ''container''\<rparr>],
      pd_instances = [], pd_volumes = [], pd_defaults = (\<lambda>_. None)\<rparr>"

text \<open>Workspace 7 belongs to organization 5, workspace 8 to organization 9, which owns no cluster.\<close>

definition sample_orgs :: Orgs where
  "sample_orgs =
     \<lparr>og_Workspace = (\<lambda>ws. if ws = 7 then Some (False, Some 5) else if ws = 8 then Some (False, Some 9) else None),
      og_Default = 1,
      og_Clusters = (\<lambda>org. Some (length (filter (\<lambda>c. cl_OrganizationID c = Some org) (pd_clusters sample_places)))),
      og_Label = (\<lambda>_. ''org'')\<rparr>"

definition sample_service :: "reading set \<Rightarrow> Service" where
  "sample_service fails =
     \<lparr>sc_store = store_of fails sample_places, sc_online = Some (\<lambda>_. True), sc_policy = None,
      sc_orgs = Some sample_orgs\<rparr>"

definition sample_place :: "nat \<Rightarrow> string \<Rightarrow> nat \<Rightarrow> nat \<Rightarrow> bool \<Rightarrow> Request" where
  "sample_place ws location server colocate admin =
     \<lparr>rq_WorkspaceID = ws, rq_Location = location, rq_ServerID = server, rq_Colocate = colocate,
      rq_Admin = admin, rq_Service = False\<rparr>"

lemmas sample_defs =
  sample_cluster_def sample_server_def sample_places_def sample_orgs_def sample_service_def sample_place_def

lemmas read_defs =
  store_of_def FindByID_def FindByName_def FindDefault_def WorkspaceDefault_def server_FindByID_def FindLocal_def

lemmas org_defs =
  org_of_def owns_clusters_def OwnsClusters_def OrganizationOfWorkspace_def org_Resolve_def sample_orgs_def

lemma sample_places_ok: "place_db_ok sample_places"
  by (simp add: place_db_ok_def sample_defs)

lemma TrimSpace_names [simp]:
  "TrimSpace ''eu'' = ''eu''" "TrimSpace ''acme'' = ''acme''" "TrimSpace ''rival'' = ''rival''"
  "TrimSpace ''none'' = ''none''"
  by (simp_all add: TrimSpace_plain plain_char_def)

section \<open>The properties\<close>


lemma sample_access:
  "org_of (sample_service fails) 7 = 5" "owns_clusters (sample_service fails) 5"
  "org_of (sample_service fails) 8 = 9" "\<not> owns_clusters (sample_service fails) 9"
  by (simp_all add: org_defs sample_service_def sample_places_def sample_cluster_def)

lemma sample_reads:
  "Read_ByID \<notin> fails \<Longrightarrow> st_ClusterByID (sc_store (sample_service fails)) 3 =
     Some (sample_cluster 3 ''acme'' ClusterModeStandalone False (Some 5))"
  "Read_ByID \<notin> fails \<Longrightarrow> st_ClusterByID (sc_store (sample_service fails)) 4 =
     Some (sample_cluster 4 ''rival'' ClusterModeStandalone False (Some 6))"
  "Read_ByID \<in> fails \<Longrightarrow> st_ClusterByID (sc_store (sample_service fails)) 4 = None"
  "Read_ByName \<notin> fails \<Longrightarrow> st_ClusterByName (sc_store (sample_service fails)) ''acme'' =
     Some (sample_cluster 3 ''acme'' ClusterModeStandalone False (Some 5))"
  "Read_ByName \<notin> fails \<Longrightarrow> st_ClusterByName (sc_store (sample_service fails)) ''rival'' =
     Some (sample_cluster 4 ''rival'' ClusterModeStandalone False (Some 6))"
  "st_ClusterByName (sc_store (sample_service fails)) ''none'' = None"
  "Read_Server \<notin> fails \<Longrightarrow> st_ServerByID (sc_store (sample_service fails)) 30 = Some (sample_server 30 3 False)"
  "Read_Server \<notin> fails \<Longrightarrow> st_ServerByID (sc_store (sample_service fails)) 40 = Some (sample_server 40 4 False)"
  by (simp_all add: sample_service_def read_defs sample_places_def sample_cluster_def sample_server_def)

lemmas sample_simps =
  sample_reads sample_access sample_place_def sample_cluster_def sample_server_def

lemmas place_defs =
  Place_def names_hidden_def on_required_node_def onNode_def sameOrg_def hidden_def resolveID_def

lemma sample_place_admin:
  "Place (sample_service {}) (sample_place 7 ''acme'' 30 0 True) = Inr (3, 30)"
  by (simp add: place_defs sample_simps Let_def)

lemma sample_store: "sc_store (sample_service fails) = store_of fails sample_places"
  by (simp add: sample_service_def)


text \<open>
  The limit of that isolation. The check of a pinned or colocated node lets the resource through
  when the location's row cannot be read: with that one read failing, an administrator's pin places a
  resource of one organization in the location of another, which the same request is refused
  otherwise.
\<close>

theorem failed_read_crosses_organizations:
  "\<exists>req db s s' fails c.
     place_db_ok db \<and> s = s'\<lparr>sc_store := store_of fails db\<rparr> \<and> sc_store s' = store_of {} db \<and>
     Place s req = Inr (cl_ID c, rq_ServerID req) \<and> Place s' req = Inl ErrLocationNotAllowed \<and>
     c \<in> set (pd_clusters db) \<and> \<not> within_org s' (rq_WorkspaceID req) c"
proof (intro exI conjI)
  let ?req = "sample_place 7 [] 40 0 True" and ?s = "sample_service {Read_ByID}"
  let ?c = "sample_cluster 4 ''rival'' ClusterModeStandalone False (Some 6)"
  show "place_db_ok sample_places" by (rule sample_places_ok)
  show "?s = (sample_service {})\<lparr>sc_store := store_of {Read_ByID} sample_places\<rparr>"
    by (simp add: sample_service_def)
  show "sc_store (sample_service {}) = store_of {} sample_places" by (rule sample_store)
  show "Place ?s ?req = Inr (cl_ID ?c, rq_ServerID ?req)"
    by (simp add: place_defs sample_simps Let_def)
  show "Place (sample_service {}) ?req = Inl ErrLocationNotAllowed"
    by (simp add: place_defs sample_simps Let_def)
  show "?c \<in> set (pd_clusters sample_places)" by (simp add: sample_places_def)
  show "\<not> within_org (sample_service {}) (rq_WorkspaceID ?req) ?c"
    by (simp add: within_org_def sample_simps)
qed

text \<open>
  A stranger cannot probe for locations. For a caller who is not a platform admin, naming a
  location hidden from the workspace gives the same answer as naming one that does not exist, from
  resolving, placing, listing nodes and choosing a default alike.
\<close>

theorem hidden_location_like_missing:
  assumes "st_ClusterByName (sc_store s) (TrimSpace name) = Some c"
    and "hidden (accessFor s ws False) c"
    and "st_ClusterByName (sc_store s) (TrimSpace missing) = None"
    and "TrimSpace name \<noteq> []" and "TrimSpace missing \<noteq> []"
    and "rq_WorkspaceID req = ws" and "\<not> rq_Admin req"
    and "rq_Colocate req \<noteq> 0 \<longrightarrow> st_ServerByID (sc_store s) (rq_Colocate req) \<noteq> None"
  shows "resolveCluster s ws name False = resolveCluster s ws missing False \<and>
         Place s (req\<lparr>rq_Location := name\<rparr>) = Place s (req\<lparr>rq_Location := missing\<rparr>) \<and>
         Nodes s ws name False = Nodes s ws missing False \<and>
         SetDefaultLocation s ws name False = SetDefaultLocation s ws missing False"
proof -
  have r: "resolveCluster s ws name False = Inl ErrLocationNotFound"
    "resolveCluster s ws missing False = Inl ErrLocationNotFound"
    using assms(1-5) by (simp_all add: resolveCluster_def Let_def split: prod.splits)
  have d: "SetDefaultLocation s ws name False = SetDefaultLocation s ws missing False"
    using assms(1-5) by (simp add: SetDefaultLocation_def Let_def split: prod.splits)
  have n: "Nodes s ws name False = Nodes s ws missing False"
    by (simp add: Nodes_def r)
  have "Place s (req\<lparr>rq_Location := name\<rparr>) = Place s (req\<lparr>rq_Location := missing\<rparr>)"
  proof (cases "rq_ServerID req = 0")
    case False
    with assms(7) show ?thesis by (simp add: Place_def)
  next
    case True
    show ?thesis
    proof (cases "rq_Colocate req = 0")
      case Z: True
      with True assms(6,7) r show ?thesis by (simp add: Place_def names_hidden_def)
    next
      case C: False
      then obtain srv where "st_ServerByID (sc_store s) (rq_Colocate req) = Some srv"
        using assms(8) by auto
      with True C assms(1-7) show ?thesis
        by (simp add: Place_def names_hidden_def on_required_node_def onNode_def Let_def)
    qed
  qed
  with r d n show ?thesis by simp
qed

theorem hidden_location_like_missing_witness:
  "Place (sample_service {}) (sample_place 7 ''rival'' 0 0 False) =
   Place (sample_service {}) (sample_place 7 ''none'' 0 0 False)"
  using hidden_location_like_missing [of "sample_service {}" "''rival''" _ 7 "''none''" "sample_place 7 [] 0 0 False"]
  by (simp add: sample_simps hidden_def)

text \<open>
  The list of locations is exactly what a create accepts. While the database answers, a location
  with a plain name is listed for a workspace iff naming it resolves to it; and a create that names
  none is resolved iff the list is not empty, to a listed location.
\<close>

theorem locations_are_what_resolves:
  assumes "place_db_ok db" and "sc_store s = store_of {} db"
    and "c \<in> set (pd_clusters db)" and "TrimSpace (cl_Name c) = cl_Name c" and "cl_Name c \<noteq> []"
  shows "\<exists>locs. Locations s ws admin = Inr locs \<and>
    (cl_ID c \<in> lo_ID ` set locs \<longleftrightarrow> resolveCluster s ws (cl_Name c) admin = Inr c) \<and>
    (locs \<noteq> [] \<longleftrightarrow> (\<exists>d. resolveCluster s ws [] admin = Inr d)) \<and>
    (\<forall>d. resolveCluster s ws [] admin = Inr d \<longrightarrow> cl_ID d \<in> lo_ID ` set locs)"
proof -
  let ?good = "usable (accessFor s ws admin) (fst (planPlacement s ws)) (snd (planPlacement s ws))"
  obtain policy enforced where pl: "planPlacement s ws = (policy, enforced)"
    by (cases "planPlacement s ws")
  obtain locs where locs: "Locations s ws admin = Inr locs"
    and ids: "lo_ID ` set locs = cl_ID ` {c \<in> set (pd_clusters db). ?good c}"
    by (simp add: Locations_def assms(2) clean.listed [OF assms(1)] cluster_List_def Let_def usable_def
        image_image pl)
  have unique: "d = c" if "d \<in> set (pd_clusters db)" "cl_ID d = cl_ID c" for d
    using that assms(1,3) rows_unique [of cl_ID "pd_clusters db" d c] by (simp add: place_db_ok_def)
  have mem: "cl_ID c \<in> lo_ID ` set locs \<longleftrightarrow> ?good c"
    unfolding ids
  proof
    assume "cl_ID c \<in> cl_ID ` {d \<in> set (pd_clusters db). ?good d}"
    then obtain d where d: "d \<in> set (pd_clusters db)" "?good d" "cl_ID c = cl_ID d"
      by (elim imageE CollectE conjE)
    from unique [OF d(1) d(3) [symmetric]] d(2) show "?good c" by simp
  qed (use assms(3) in simp)
  have name: "resolveCluster s ws (cl_Name c) admin = Inr c \<longleftrightarrow> ?good c"
    by (rule clean.resolve_by_name [OF assms(1,2) _ assms(4,5)]) (simp add: cluster_List_def assms(3))
  have ne: "locs \<noteq> [] \<longleftrightarrow> (\<exists>d. resolveCluster s ws [] admin = Inr d)"
  proof -
    have "locs \<noteq> [] \<longleftrightarrow> (\<exists>x \<in> set (pd_clusters db). ?good x)"
      using ids by (metis (no_types, lifting) empty_Collect_eq image_is_empty set_empty)
    also have "\<dots> \<longleftrightarrow> (\<exists>d. resolveCluster s ws [] admin = Inr d)"
      using clean.resolve_default [OF assms(1,2), of ws admin] by (simp add: cluster_List_def)
    finally show ?thesis .
  qed
  have "cl_ID d \<in> lo_ID ` set locs" if d: "resolveCluster s ws [] admin = Inr d" for d
  proof -
    note r = tables.resolve_found [OF assms(1,2) d]
    have "d \<in> set (pd_clusters db)" by (rule found_store_of [OF r(1)])
    with r(2-4) show ?thesis by (auto simp: ids usable_def)
  qed
  with locs mem name ne show ?thesis by blast
qed

lemma sample_list:
  "cluster_List sample_places =
     [sample_cluster 2 ''eu'' ClusterModeSwarm True None,
      sample_cluster 3 ''acme'' ClusterModeStandalone False (Some 5),
      sample_cluster 4 ''rival'' ClusterModeStandalone False (Some 6)]"
  by code_simp

lemma sample_listed:
  "st_Clusters (sc_store (sample_service {})) = Some (cluster_List sample_places)"
  "st_WorkspaceDefault (sc_store (sample_service {})) ws = None"
  "sc_policy (sample_service {}) = None"
  by (simp_all add: sample_service_def read_defs sample_places_def)

lemma sample_default:
  "resolveCluster (sample_service {}) 8 [] False = Inr (sample_cluster 2 ''eu'' ClusterModeSwarm True None)"
  by (simp add: resolveCluster_def planPlacement_def Let_def usable_def permits_def allows_def
      sample_listed sample_list sample_access) (simp add: sample_cluster_def)

theorem locations_are_what_resolves_witness:
  "\<exists>locs. Locations (sample_service {}) 8 False = Inr locs \<and> 2 \<in> lo_ID ` set locs"
  using locations_are_what_resolves [OF sample_places_ok sample_store,
      of "sample_cluster 2 ''eu'' ClusterModeSwarm True None" 8 False] sample_default
  by (auto simp: sample_places_def sample_cluster_def)

text \<open>
  On a swarm location a new resource lands on the least loaded node that can take it. While the
  node and load reads answer, \<open>pickNode\<close> fails iff no node of the location is uncordoned, online (or
  local) and in the plan's pool when a plan binds; otherwise it returns such a node, and no other such
  node carries less container memory, or the same memory with fewer workloads.
\<close>

theorem swarm_node_least_loaded:
  assumes "place_db_ok db" and "sc_store s = store_of fails db"
    and "Read_Servers \<notin> fails" and "Read_Loads \<notin> fails" and "cl_Mode c = ClusterModeSwarm"
  shows "(\<forall>e. pickNode s c False pool pooled = Inl e \<longrightarrow>
            (\<forall>srv \<in> set (pd_servers db). \<not> takes_work s c pool pooled srv)) \<and>
    (\<forall>n. pickNode s c False pool pooled = Inr n \<longrightarrow>
       (\<exists>srv \<in> set (pd_servers db). sv_ID srv = n \<and> takes_work s c pool pooled srv \<and>
          (\<forall>srv' \<in> set (pd_servers db). takes_work s c pool pooled srv' \<longrightarrow>
             ld_MemoryBytes (ServerLoads db (cl_ID c) n) \<le> ld_MemoryBytes (ServerLoads db (cl_ID c) (sv_ID srv')) \<and>
             (ld_MemoryBytes (ServerLoads db (cl_ID c) n) = ld_MemoryBytes (ServerLoads db (cl_ID c) (sv_ID srv')) \<longrightarrow>
                ld_Workloads (ServerLoads db (cl_ID c) n) \<le> ld_Workloads (ServerLoads db (cl_ID c) (sv_ID srv'))))))"
proof -
  let ?ok = "takes_work s c pool pooled" and ?lt = "lighter (ServerLoads db (cl_ID c))"
  have pick: "pickNode s c False pool pooled =
      (case keep_best ?ok ?lt None (pd_servers db) of
         None \<Rightarrow> Inl (if pooled then ErrPoolUnavailable pool else ErrNoSchedulableNode)
       | Some b \<Rightarrow> Inr (sv_ID b))"
    using swarm_node_reads [OF assms(2-4,1), of c pool pooled] assms(5) by (simp add: pickNode_def)
  show ?thesis
  proof (cases "keep_best ?ok ?lt None (pd_servers db)")
    case None
    with pick keep_best_None [of ?ok ?lt None "pd_servers db"] show ?thesis by simp
  next
    case (Some b)
    have least: "\<not> ?lt srv b" if "srv \<in> set (pd_servers db)" "?ok srv" for srv
      using load.keep_best_Some(3) [OF _ Some] that by simp
    have "ld_MemoryBytes (ServerLoads db (cl_ID c) (sv_ID b)) \<le> ld_MemoryBytes (ServerLoads db (cl_ID c) (sv_ID srv)) \<and>
          (ld_MemoryBytes (ServerLoads db (cl_ID c) (sv_ID b)) = ld_MemoryBytes (ServerLoads db (cl_ID c) (sv_ID srv)) \<longrightarrow>
           ld_Workloads (ServerLoads db (cl_ID c) (sv_ID b)) \<le> ld_Workloads (ServerLoads db (cl_ID c) (sv_ID srv)))"
      if "srv \<in> set (pd_servers db)" "?ok srv" for srv
      using least [OF that] by (simp add: lighter_def load_Less_def split: if_splits)
    moreover have "b \<in> set (pd_servers db)" "?ok b"
      using load.keep_best_Some(1,2) [OF _ Some] by simp_all
    ultimately show ?thesis using Some pick by auto
  qed
qed

lemma sample_pick:
  "pickNode (sample_service {}) (sample_cluster 2 ''eu'' ClusterModeSwarm True None) False [] False = Inr 21"
  by (simp add: pickNode_def swarm_node_def sample_service_def read_defs takes_work_def Let_def
      ServerLoads_def load_Less_def no_load_def sample_places_def sample_cluster_def sample_server_def)

theorem swarm_node_least_loaded_witness:
  "\<exists>srv \<in> set (pd_servers sample_places). sv_ID srv = 21 \<and>
     takes_work (sample_service {}) (sample_cluster 2 ''eu'' ClusterModeSwarm True None) [] False srv"
  using swarm_node_least_loaded [OF sample_places_ok sample_store, of
      "{}" "sample_cluster 2 ''eu'' ClusterModeSwarm True None" "[]" False] sample_pick
  by (auto simp: sample_cluster_def)

text \<open>A default swarm location whose only node is local and carries cluster id 0.\<close>

definition zero_cluster :: Cluster where
  "zero_cluster = sample_cluster 2 ''eu'' ClusterModeSwarm True None"

definition zero_node :: Server where
  "zero_node = sample_server 20 0 True"

definition zero_places :: PlaceDb where
  "zero_places =
     \<lparr>pd_clusters = [zero_cluster], pd_servers = [zero_node], pd_apps = [], pd_instances = [],
      pd_volumes = [], pd_defaults = (\<lambda>_. None)\<rparr>"

definition zero_service :: Service where
  "zero_service =
     \<lparr>sc_store = store_of {} zero_places, sc_online = None, sc_policy = None, sc_orgs = None\<rparr>"

lemma zero_simps:
  "sc_online zero_service = None" "sc_policy zero_service = None" "sc_orgs zero_service = None"
  "st_Clusters (sc_store zero_service) = Some [zero_cluster]"
  "st_WorkspaceDefault (sc_store zero_service) ws = None"
  "st_DefaultCluster (sc_store zero_service) = Some zero_cluster"
  "st_Servers (sc_store zero_service) = Some [zero_node]"
  "st_Loads (sc_store zero_service) i = Some (ServerLoads zero_places i)"
  by (simp_all add: zero_service_def zero_places_def read_defs cluster_List_def zero_cluster_def sample_cluster_def)

lemma zero_fields:
  "cl_ID zero_cluster = 2" "cl_OrganizationID zero_cluster = None" "\<not> cl_Cordoned zero_cluster"
  "cl_Visibility zero_cluster = VisibilityAll" "cl_Mode zero_cluster = ClusterModeSwarm"
  "sv_ID zero_node = 20" "sv_ClusterID zero_node = 0" "sv_IsLocal zero_node" "\<not> sv_Cordoned zero_node"
  by (simp_all add: zero_cluster_def zero_node_def sample_cluster_def sample_server_def)

lemma zero_resolve: "resolveCluster zero_service 7 [] False = Inr zero_cluster"
  by (simp add: resolveCluster_def planPlacement_def Let_def usable_def permits_def allows_def
      owns_clusters_def zero_simps zero_fields)

text \<open>
  A node that carries cluster id 0, which stands for the default cluster everywhere else, is
  invisible to the choice of a node. In a default swarm location whose only node, local and
  uncordoned, is such a node, the create form lists the node as online, and placing fails with no
  schedulable node.
\<close>

theorem cluster_zero_node_not_chosen:
  "\<exists>s db nd. place_db_ok db \<and> sc_store s = store_of {} db \<and>
     Nodes s 7 [] False = Inr [nd] \<and> nd_Online nd \<and> \<not> nd_Cordoned nd \<and>
     Place s (sample_place 7 [] 0 0 False) = Inl ErrNoSchedulableNode"
proof (intro exI conjI)
  show "place_db_ok zero_places"
    by (simp add: place_db_ok_def zero_places_def zero_fields)
  show "sc_store zero_service = store_of {} zero_places" by (simp add: zero_service_def)
  show "Nodes zero_service 7 [] False = Inr [node_of zero_service zero_node]"
    by (simp add: Nodes_def zero_resolve zero_simps zero_fields planPlacement_def resolveID_def)
  show "nd_Online (node_of zero_service zero_node)" "\<not> nd_Cordoned (node_of zero_service zero_node)"
    by (simp_all add: node_of_def zero_fields)
  have "pickNode zero_service zero_cluster False [] False = Inl ErrNoSchedulableNode"
    by (simp add: pickNode_def swarm_node_def zero_simps zero_fields takes_work_def Let_def)
  then show "Place zero_service (sample_place 7 [] 0 0 False) = Inl ErrNoSchedulableNode"
    by (simp add: Place_def names_hidden_def sample_place_def zero_resolve planPlacement_def no_placement_def
        zero_simps)
qed

end
