(* ===== verification/Go_Float.thy ===== *)
theory Go_Float
  imports Go_Prelude
begin

text \<open>
  The part of Go's \<^verbatim>\<open>float64\<close> that the plan limits use: conversion of a 64-bit integer, the product, the
  maximum and the comparisons of IEEE 754 binary64, rounded to the nearest value with ties to even. A finite
  number \<open>Fin m e\<close> is \<open>m * 2 ^ e\<close>; the same number has several representations, and the comparisons do not
  depend on which. The sign of zero is not kept: no operation here can tell it.
\<close>

datatype float64 = Fin int int | Inf bool | NaN

text \<open>The number of binary digits of a magnitude.\<close>

function bits :: "int \<Rightarrow> int" where
  "bits n = (if n \<le> 0 then 0 else 1 + bits (n div 2))"
  by auto
termination by (relation "measure nat") auto

declare bits.simps [simp del]

text \<open>Division by a power of two, to the nearest integer, ties to even.\<close>

definition round_half_even :: "int \<Rightarrow> nat \<Rightarrow> int" where
  "round_half_even m k =
     (let q = m div 2 ^ k; r = m mod 2 ^ k in
      if 2 ^ k < 2 * r \<or> 2 * r = 2 ^ k \<and> odd q then q + 1 else q)"

text \<open>
  Rounding \<open>m * 2 ^ e\<close> to 53 binary digits (fewer where the exponent would pass below -1074), and to an
  infinity from \<open>2 ^ 1024\<close> on.
\<close>

definition round64 :: "int \<Rightarrow> int \<Rightarrow> float64" where
  "round64 m e =
     (let k = max (bits \<bar>m\<bar> - 53) (-1074 - e);
          m' = (if k \<le> 0 then m else round_half_even m (nat k));
          e' = (if k \<le> 0 then e else e + k) in
      if 1024 < bits \<bar>m'\<bar> + e' then Inf (m < 0) else Fin m' e')"

definition float_of_int :: "int \<Rightarrow> float64" where
  "float_of_int n = round64 n 0"

fun float_mult :: "float64 \<Rightarrow> float64 \<Rightarrow> float64" where
  "float_mult NaN y = NaN"
| "float_mult x NaN = NaN"
| "float_mult (Fin m e) (Fin n f) = round64 (m * n) (e + f)"
| "float_mult (Inf s) (Inf t) = Inf (s \<noteq> t)"
| "float_mult (Inf s) (Fin n f) = (if n = 0 then NaN else Inf (s \<noteq> (n < 0)))"
| "float_mult (Fin m e) (Inf t) = (if m = 0 then NaN else Inf (t \<noteq> (m < 0)))"

text \<open>\<open>\<le>\<close> and \<open><\<close>: every comparison with a NaN is false.\<close>

fun float_le :: "float64 \<Rightarrow> float64 \<Rightarrow> bool" where
  "float_le NaN y = False"
| "float_le x NaN = False"
| "float_le (Fin m e) (Fin n f) \<longleftrightarrow> m * 2 ^ nat (e - min e f) \<le> n * 2 ^ nat (f - min e f)"
| "float_le (Inf s) (Inf t) \<longleftrightarrow> s \<or> \<not> t"
| "float_le (Inf s) (Fin n f) \<longleftrightarrow> s"
| "float_le (Fin m e) (Inf t) \<longleftrightarrow> \<not> t"

definition float_less :: "float64 \<Rightarrow> float64 \<Rightarrow> bool" where
  "float_less x y \<longleftrightarrow> float_le x y \<and> \<not> float_le y x"

definition float_eq :: "float64 \<Rightarrow> float64 \<Rightarrow> bool" where
  "float_eq x y \<longleftrightarrow> float_le x y \<and> float_le y x"

text \<open>The built-in \<^verbatim>\<open>max\<close>: a NaN operand makes the result a NaN.\<close>

definition float_max :: "float64 \<Rightarrow> float64 \<Rightarrow> float64" where
  "float_max x y = (if x = NaN \<or> y = NaN then NaN else if float_le x y then y else x)"

section \<open>Where the operations are exact\<close>

lemma bits_nonneg: "0 \<le> bits n"
proof (induction n rule: bits.induct)
  case (1 n) then show ?case by (subst bits.simps) auto
qed

lemma bits_bounds: "0 < n \<Longrightarrow> 2 ^ nat (bits n - 1) \<le> n \<and> n < 2 ^ nat (bits n)"
proof (induction n rule: bits.induct)
  case (1 n)
  have b: "bits n = 1 + bits (n div 2)"
    using 1(2) by (subst bits.simps) simp
  show ?case
  proof (cases "n div 2 = 0")
    case True
    then have "n = 1"
      using 1(2) by presburger
    moreover have "bits 0 = 0"
      by (subst bits.simps) simp
    ultimately show ?thesis
      using b by simp
  next
    case False
    then have pos: "0 < n div 2"
      using 1(2) by simp
    have IH: "2 ^ nat (bits (n div 2) - 1) \<le> n div 2" "n div 2 < 2 ^ nat (bits (n div 2))"
      using 1(1)[OF _ pos] 1(2) by auto
    have ge: "1 \<le> bits (n div 2)"
      using pos bits_nonneg [of "n div 2 div 2"] by (subst bits.simps) simp
    have "nat (bits n - 1) = Suc (nat (bits (n div 2) - 1))" "nat (bits n) = Suc (nat (bits (n div 2)))"
      using b ge by auto
    moreover have "2 * a \<le> n" if "a \<le> n div 2" for a
      using that by presburger
    moreover have "n < 2 * a" if "n div 2 < a" for a
      using that by presburger
    ultimately show ?thesis
      using IH by simp
  qed
qed

lemma bits_le: "0 \<le> n \<Longrightarrow> n < 2 ^ k \<Longrightarrow> bits n \<le> int k"
proof (rule ccontr)
  assume n: "0 \<le> n" "n < 2 ^ k" and "\<not> bits n \<le> int k"
  then have k: "k \<le> nat (bits n - 1)"
    by linarith
  have "0 < n"
    using n(1) \<open>\<not> bits n \<le> int k\<close> by (cases "n = 0") (simp_all add: bits.simps)
  then have "2 ^ nat (bits n - 1) \<le> n"
    using bits_bounds by blast
  moreover have "(2 :: int) ^ k \<le> 2 ^ nat (bits n - 1)"
    using k by (simp add: power_increasing)
  ultimately show False
    using n(2) by linarith
qed

lemma bits_gt: "2 ^ k \<le> n \<Longrightarrow> int k < bits n"
proof (rule ccontr)
  assume n: "2 ^ k \<le> n" and "\<not> int k < bits n"
  then have "nat (bits n) \<le> k"
    by linarith
  then have "(2 :: int) ^ nat (bits n) \<le> 2 ^ k"
    by (simp add: power_increasing)
  moreover have "0 < n"
    using n zero_less_power [of "2 :: int" k] by linarith
  ultimately show False
    using bits_bounds [of n] n by linarith
qed

text \<open>Integers of at most 53 digits are kept as they are.\<close>

lemma round64_exact: "\<bar>m\<bar> < 2 ^ 53 \<Longrightarrow> round64 m 0 = Fin m 0"
  using bits_le [of "\<bar>m\<bar>" 53] by (simp add: round64_def Let_def)

lemma round_half_even_ge: "m div 2 ^ k \<le> round_half_even m k"
  by (simp add: round_half_even_def Let_def)

lemma round_half_even_le: "round_half_even m k \<le> m div 2 ^ k + 1"
  by (simp add: round_half_even_def Let_def)

text \<open>A comparison of any 64-bit integer with an exact one is not disturbed by the rounding.\<close>

lemma float_le_exact:
  assumes n: "in_int64 n" and c: "0 \<le> c" "c < 2 ^ 53"
  shows "float_le (float_of_int n) (Fin c 0) \<longleftrightarrow> n \<le> c"
proof (cases "\<bar>n\<bar> < 2 ^ 53")
  case True
  then show ?thesis
    by (simp add: float_of_int_def round64_exact)
next
  case False
  define k where "k = bits \<bar>n\<bar> - 53"
  define q where "q = round_half_even n (nat k)"
  have lt: "\<bar>n\<bar> < 2 ^ 64"
    using n by (simp add: in_int64_def abs_less_iff)
  have "bits \<bar>n\<bar> \<le> 64"
    using bits_le [OF _ lt] by simp
  moreover have "53 < bits \<bar>n\<bar>"
    using False bits_gt [of 53 "\<bar>n\<bar>"] by simp
  ultimately have k: "0 < k" "k \<le> 11"
    by (simp_all add: k_def)
  have "2 ^ nat (bits \<bar>n\<bar> - 1) \<le> \<bar>n\<bar>"
    using bits_bounds [of "\<bar>n\<bar>"] False by (cases "n = 0") simp_all
  moreover have "nat (bits \<bar>n\<bar> - 1) = 52 + nat k"
    using k(1) by (simp add: k_def)
  ultimately have big: "2 ^ 52 * 2 ^ nat k \<le> \<bar>n\<bar>"
    by (simp add: power_add)
  have q: "n div 2 ^ nat k \<le> q" "q \<le> n div 2 ^ nat k + 1"
    by (simp_all add: q_def round_half_even_ge round_half_even_le)
  have "n div 2 ^ nat k \<le> \<bar>n\<bar>" "- \<bar>n\<bar> \<le> n div 2 ^ nat k"
    using zdiv_mono2 [of n 1 "2 ^ nat k"] zdiv_mono2_neg [of n 1 "2 ^ nat k"]
      pos_imp_zdiv_neg_iff [of "2 ^ nat k" n] pos_imp_zdiv_nonneg_iff [of "2 ^ nat k" n]
    by (cases "0 \<le> n"; simp)+
  then have "\<bar>q\<bar> < 2 ^ 65"
    using q lt by simp
  then have "bits \<bar>q\<bar> \<le> 65"
    using bits_le [of "\<bar>q\<bar>" 65] by simp
  then have "round64 n 0 = Fin q k"
    using k by (simp add: round64_def Let_def q_def flip: k_def)
  moreover have "q * 2 ^ nat k \<le> c \<longleftrightarrow> n \<le> c"
  proof (cases "0 \<le> n")
    case True
    then have "2 ^ 52 * 2 ^ nat k \<le> n"
      using big by simp
    then have "2 ^ 52 \<le> n div 2 ^ nat k"
      using zdiv_mono1 [of "2 ^ 52 * 2 ^ nat k" n "2 ^ nat k"] by simp
    then have "2 ^ 52 * 2 \<le> q * 2 ^ nat k"
      using q(1) k(1) by (intro mult_mono) (auto simp: self_le_power)
    then show ?thesis
      using c False True by simp
  next
    case False
    then have "n div 2 ^ nat k < 0"
      by (simp add: pos_imp_zdiv_neg_iff)
    then have "q \<le> 0"
      using q(2) by linarith
    then have "q * 2 ^ nat k \<le> 0"
      by (simp add: mult_nonpos_nonneg)
    then show ?thesis
      using c False by linarith
  qed
  ultimately show ?thesis
    using k by (simp add: float_of_int_def)
qed

end
