(* ===== verification/Plan_Quota.thy ===== *)
theory Plan_Quota
  imports Go_Float Placement Runner_Scheduler
begin

text \<open>
  Plan limits and their enforcement: \<^verbatim>\<open>internal/services/quota/quota.go\<close>, \<^verbatim>\<open>platformrunner.go\<close> and
  \<^verbatim>\<open>storageclass.go\<close>, with \<^verbatim>\<open>internal/models/plan.go\<close>, the reads of \<^verbatim>\<open>plan_repo.go\<close>, \<^verbatim>\<open>workspace_quota_repo.go\<close>
  and \<^verbatim>\<open>quota_counts.go\<close>, and the places where the application, GPU, storage and database services consult them.

  A nil service is \<open>None\<close>. The tables are a record, with the list of reads that fail. Counters and byte sums are
  64-bit numbers (\<open>wrap64\<close> where Go wraps, an error where the database would overflow); the CPU allowance is computed
  in binary64 (\<open>Go_Float\<close>). \<open>placement_quota\<close> and \<open>scheduler_quota\<close> are what the placement and scheduling theories
  take as their quota. The text of a refusal is not built; each refusal carries the values its message shows.
\<close>

section \<open>Plans, overrides and effective limits\<close>

abbreviation ResourceApps :: string where "ResourceApps \<equiv> ''apps''"
abbreviation ResourceDatabaseInstances :: string where "ResourceDatabaseInstances \<equiv> ''database_instances''"
abbreviation ResourceCronJobs :: string where "ResourceCronJobs \<equiv> ''cron_jobs''"
abbreviation ResourceVolumes :: string where "ResourceVolumes \<equiv> ''volumes''"
abbreviation ResourceNetworks :: string where "ResourceNetworks \<equiv> ''networks''"
abbreviation ResourceAPIKeys :: string where "ResourceAPIKeys \<equiv> ''api_keys''"
abbreviation ResourceMembers :: string where "ResourceMembers \<equiv> ''members''"
abbreviation ResourceDatabasesPerInstance :: string where "ResourceDatabasesPerInstance \<equiv> ''databases_per_instance''"
abbreviation ResourceRunners :: string where "ResourceRunners \<equiv> ''runners''"
abbreviation ResourceGPUs :: string where "ResourceGPUs \<equiv> ''gpus''"

abbreviation CapCustomTLS :: string where "CapCustomTLS \<equiv> ''custom_tls''"
abbreviation CapPrivilegedHostMounts :: string where "CapPrivilegedHostMounts \<equiv> ''privileged_host_mounts''"
abbreviation CapShellExec :: string where "CapShellExec \<equiv> ''shell_exec''"
abbreviation CapSharedStorage :: string where "CapSharedStorage \<equiv> ''shared_storage''"
abbreviation CapDNSProviders :: string where "CapDNSProviders \<equiv> ''dns_providers''"
abbreviation CapCustomLabels :: string where "CapCustomLabels \<equiv> ''custom_labels''"
abbreviation CapPlatformRunners :: string where "CapPlatformRunners \<equiv> ''platform_runners''"
abbreviation CapCustomBuilder :: string where "CapCustomBuilder \<equiv> ''custom_builder''"
abbreviation CapGPU :: string where "CapGPU \<equiv> ''gpu''"
abbreviation CapServiceRuntime :: string where "CapServiceRuntime \<equiv> ''service_runtime''"

abbreviation SecurityProfileDefault :: string where "SecurityProfileDefault \<equiv> ''default''"
abbreviation SecurityProfileRestricted :: string where "SecurityProfileRestricted \<equiv> ''restricted''"

definition NormalizeSecurityProfile :: "string \<Rightarrow> string" where
  "NormalizeSecurityProfile p =
     (if p = SecurityProfileRestricted then SecurityProfileRestricted else SecurityProfileDefault)"

text \<open>The columns of a plan that limits depend on; -1 is unlimited, 0 is none.\<close>

record Plan =
  pl_ID :: nat
  pl_Name :: string
  pl_IsDefault :: bool
  pl_IsActive :: bool
  pl_System :: bool
  pl_ManagedBy :: string
  pl_MaxApps :: int
  pl_MaxDatabaseInstances :: int
  pl_MaxCronJobs :: int
  pl_MaxVolumes :: int
  pl_MaxNetworks :: int
  pl_MaxAPIKeys :: int
  pl_MaxMembers :: int
  pl_MaxDatabasesPerInstance :: int
  pl_MaxCPUCores :: int
  pl_MaxMemoryMB :: int
  pl_MaxDatabaseInstanceSizeMB :: int
  pl_MaxStorageMB :: int
  pl_MaxRunners :: int
  pl_MaxGPUs :: int
  pl_MaxDatabaseCPUCores :: int
  pl_MaxDatabaseMemoryMB :: int
  pl_AllowCustomTLS :: bool
  pl_AllowPrivilegedHostMounts :: bool
  pl_AllowShellExec :: bool
  pl_AllowSharedStorage :: bool
  pl_AllowDNSProviders :: bool
  pl_AllowCustomLabels :: bool
  pl_AllowPlatformRunners :: bool
  pl_AllowCustomBuilder :: bool
  pl_AllowGPU :: bool
  pl_AllowServiceRuntime :: bool
  pl_DefaultCPUMillicores :: int
  pl_DefaultMemoryMB :: int
  pl_RequireResourceLimits :: bool
  pl_SecurityProfile :: string
  pl_AllowOfficialImageUser :: bool
  pl_Placement :: PlanPlacement
  pl_DatabaseSizes :: "nat list"
  pl_StorageClasses :: "string list"
  pl_DefaultStorageClass :: string
  pl_PlatformRunners :: "string list"

text \<open>A workspace's override row: a set field wins over the plan's, an unset one inherits it.\<close>

record WorkspaceQuota =
  wq_WorkspaceID :: nat
  wq_MaxApps :: "int option"
  wq_MaxDatabaseInstances :: "int option"
  wq_MaxCronJobs :: "int option"
  wq_MaxVolumes :: "int option"
  wq_MaxNetworks :: "int option"
  wq_MaxAPIKeys :: "int option"
  wq_MaxMembers :: "int option"
  wq_MaxDatabasesPerInstance :: "int option"
  wq_MaxCPUCores :: "int option"
  wq_MaxMemoryMB :: "int option"
  wq_MaxDatabaseInstanceSizeMB :: "int option"
  wq_MaxStorageMB :: "int option"
  wq_MaxRunners :: "int option"
  wq_MaxGPUs :: "int option"
  wq_MaxDatabaseCPUCores :: "int option"
  wq_MaxDatabaseMemoryMB :: "int option"
  wq_AllowCustomTLS :: "bool option"
  wq_AllowPrivilegedHostMounts :: "bool option"
  wq_AllowShellExec :: "bool option"
  wq_AllowSharedStorage :: "bool option"
  wq_AllowDNSProviders :: "bool option"
  wq_AllowCustomLabels :: "bool option"
  wq_AllowPlatformRunners :: "bool option"
  wq_AllowCustomBuilder :: "bool option"
  wq_AllowGPU :: "bool option"
  wq_AllowServiceRuntime :: "bool option"
  wq_DefaultCPUMillicores :: "int option"
  wq_DefaultMemoryMB :: "int option"
  wq_RequireResourceLimits :: "bool option"
  wq_SecurityProfile :: "string option"
  wq_AllowOfficialImageUser :: "bool option"
  wq_Placement :: "PlanPlacement option"
  wq_DatabaseSizes :: "nat list option"
  wq_StorageClasses :: "string list option"
  wq_DefaultStorageClass :: "string option"
  wq_PlatformRunners :: "string list option"

record Limits =
  lm_MaxApps :: int
  lm_MaxDatabaseInstances :: int
  lm_MaxCronJobs :: int
  lm_MaxVolumes :: int
  lm_MaxNetworks :: int
  lm_MaxAPIKeys :: int
  lm_MaxMembers :: int
  lm_MaxDatabasesPerInstance :: int
  lm_MaxCPUCores :: int
  lm_MaxMemoryMB :: int
  lm_MaxDatabaseInstanceSizeMB :: int
  lm_MaxStorageMB :: int
  lm_MaxRunners :: int
  lm_MaxGPUs :: int
  lm_MaxDatabaseCPUCores :: int
  lm_MaxDatabaseMemoryMB :: int
  lm_AllowCustomTLS :: bool
  lm_AllowPrivilegedHostMounts :: bool
  lm_AllowShellExec :: bool
  lm_AllowSharedStorage :: bool
  lm_AllowDNSProviders :: bool
  lm_AllowCustomLabels :: bool
  lm_AllowPlatformRunners :: bool
  lm_AllowCustomBuilder :: bool
  lm_AllowGPU :: bool
  lm_AllowServiceRuntime :: bool
  lm_DefaultCPUMillicores :: int
  lm_DefaultMemoryMB :: int
  lm_RequireResourceLimits :: bool
  lm_SecurityProfile :: string
  lm_AllowOfficialImageUser :: bool
  lm_CPUOvercommit :: float64

definition unlimited :: Limits where
  "unlimited = \<lparr>
     lm_MaxApps = -1, lm_MaxDatabaseInstances = -1, lm_MaxCronJobs = -1, lm_MaxVolumes = -1,
     lm_MaxNetworks = -1, lm_MaxAPIKeys = -1, lm_MaxMembers = -1, lm_MaxDatabasesPerInstance = -1,
     lm_MaxCPUCores = -1, lm_MaxMemoryMB = -1, lm_MaxDatabaseInstanceSizeMB = -1,
     lm_MaxStorageMB = -1, lm_MaxRunners = -1, lm_MaxGPUs = -1, lm_MaxDatabaseCPUCores = -1,
     lm_MaxDatabaseMemoryMB = -1, lm_AllowCustomTLS = True, lm_AllowPrivilegedHostMounts = True,
     lm_AllowShellExec = True, lm_AllowSharedStorage = True, lm_AllowDNSProviders = True,
     lm_AllowCustomLabels = True, lm_AllowPlatformRunners = True, lm_AllowCustomBuilder = True,
     lm_AllowGPU = True, lm_AllowServiceRuntime = True, lm_DefaultCPUMillicores = 0,
     lm_DefaultMemoryMB = 0, lm_RequireResourceLimits = False,
     lm_SecurityProfile = SecurityProfileDefault, lm_AllowOfficialImageUser = True,
     lm_CPUOvercommit = Fin 1 0\<rparr>"

definition limitsFromPlan :: "Plan option \<Rightarrow> Limits" where
  "limitsFromPlan po = (case po of None \<Rightarrow> unlimited | Some p \<Rightarrow> \<lparr>
     lm_MaxApps = pl_MaxApps p, lm_MaxDatabaseInstances = pl_MaxDatabaseInstances p,
     lm_MaxCronJobs = pl_MaxCronJobs p, lm_MaxVolumes = pl_MaxVolumes p,
     lm_MaxNetworks = pl_MaxNetworks p, lm_MaxAPIKeys = pl_MaxAPIKeys p,
     lm_MaxMembers = pl_MaxMembers p, lm_MaxDatabasesPerInstance = pl_MaxDatabasesPerInstance p,
     lm_MaxCPUCores = pl_MaxCPUCores p, lm_MaxMemoryMB = pl_MaxMemoryMB p,
     lm_MaxDatabaseInstanceSizeMB = pl_MaxDatabaseInstanceSizeMB p,
     lm_MaxStorageMB = pl_MaxStorageMB p, lm_MaxRunners = pl_MaxRunners p,
     lm_MaxGPUs = pl_MaxGPUs p, lm_MaxDatabaseCPUCores = pl_MaxDatabaseCPUCores p,
     lm_MaxDatabaseMemoryMB = pl_MaxDatabaseMemoryMB p, lm_AllowCustomTLS = pl_AllowCustomTLS p,
     lm_AllowPrivilegedHostMounts = pl_AllowPrivilegedHostMounts p,
     lm_AllowShellExec = pl_AllowShellExec p, lm_AllowSharedStorage = pl_AllowSharedStorage p,
     lm_AllowDNSProviders = pl_AllowDNSProviders p, lm_AllowCustomLabels = pl_AllowCustomLabels p,
     lm_AllowPlatformRunners = pl_AllowPlatformRunners p,
     lm_AllowCustomBuilder = pl_AllowCustomBuilder p, lm_AllowGPU = pl_AllowGPU p,
     lm_AllowServiceRuntime = pl_AllowServiceRuntime p,
     lm_DefaultCPUMillicores = pl_DefaultCPUMillicores p,
     lm_DefaultMemoryMB = pl_DefaultMemoryMB p,
     lm_RequireResourceLimits = pl_RequireResourceLimits p,
     lm_SecurityProfile = NormalizeSecurityProfile (pl_SecurityProfile p),
     lm_AllowOfficialImageUser = pl_AllowOfficialImageUser p, lm_CPUOvercommit = Fin 0 0\<rparr>)"

definition set_to :: "'a \<Rightarrow> 'a option \<Rightarrow> 'a" where
  "set_to d v = (case v of None \<Rightarrow> d | Some x \<Rightarrow> x)"

definition applyOverride :: "Limits \<Rightarrow> WorkspaceQuota option \<Rightarrow> Limits" where
  "applyOverride l ov = (case ov of None \<Rightarrow> l | Some q \<Rightarrow> l\<lparr>
     lm_MaxApps := set_to (lm_MaxApps l) (wq_MaxApps q),
     lm_MaxDatabaseInstances := set_to (lm_MaxDatabaseInstances l) (wq_MaxDatabaseInstances q),
     lm_MaxCronJobs := set_to (lm_MaxCronJobs l) (wq_MaxCronJobs q),
     lm_MaxVolumes := set_to (lm_MaxVolumes l) (wq_MaxVolumes q),
     lm_MaxNetworks := set_to (lm_MaxNetworks l) (wq_MaxNetworks q),
     lm_MaxAPIKeys := set_to (lm_MaxAPIKeys l) (wq_MaxAPIKeys q),
     lm_MaxMembers := set_to (lm_MaxMembers l) (wq_MaxMembers q),
     lm_MaxDatabasesPerInstance := set_to (lm_MaxDatabasesPerInstance l) (wq_MaxDatabasesPerInstance q),
     lm_MaxCPUCores := set_to (lm_MaxCPUCores l) (wq_MaxCPUCores q),
     lm_MaxMemoryMB := set_to (lm_MaxMemoryMB l) (wq_MaxMemoryMB q),
     lm_MaxDatabaseInstanceSizeMB := set_to (lm_MaxDatabaseInstanceSizeMB l) (wq_MaxDatabaseInstanceSizeMB q),
     lm_MaxStorageMB := set_to (lm_MaxStorageMB l) (wq_MaxStorageMB q),
     lm_MaxRunners := set_to (lm_MaxRunners l) (wq_MaxRunners q),
     lm_MaxGPUs := set_to (lm_MaxGPUs l) (wq_MaxGPUs q),
     lm_MaxDatabaseCPUCores := set_to (lm_MaxDatabaseCPUCores l) (wq_MaxDatabaseCPUCores q),
     lm_MaxDatabaseMemoryMB := set_to (lm_MaxDatabaseMemoryMB l) (wq_MaxDatabaseMemoryMB q),
     lm_AllowCustomTLS := set_to (lm_AllowCustomTLS l) (wq_AllowCustomTLS q),
     lm_AllowPrivilegedHostMounts := set_to (lm_AllowPrivilegedHostMounts l) (wq_AllowPrivilegedHostMounts q),
     lm_AllowShellExec := set_to (lm_AllowShellExec l) (wq_AllowShellExec q),
     lm_AllowSharedStorage := set_to (lm_AllowSharedStorage l) (wq_AllowSharedStorage q),
     lm_AllowDNSProviders := set_to (lm_AllowDNSProviders l) (wq_AllowDNSProviders q),
     lm_AllowCustomLabels := set_to (lm_AllowCustomLabels l) (wq_AllowCustomLabels q),
     lm_AllowPlatformRunners := set_to (lm_AllowPlatformRunners l) (wq_AllowPlatformRunners q),
     lm_AllowCustomBuilder := set_to (lm_AllowCustomBuilder l) (wq_AllowCustomBuilder q),
     lm_AllowGPU := set_to (lm_AllowGPU l) (wq_AllowGPU q),
     lm_AllowServiceRuntime := set_to (lm_AllowServiceRuntime l) (wq_AllowServiceRuntime q),
     lm_DefaultCPUMillicores := set_to (lm_DefaultCPUMillicores l) (wq_DefaultCPUMillicores q),
     lm_DefaultMemoryMB := set_to (lm_DefaultMemoryMB l) (wq_DefaultMemoryMB q),
     lm_RequireResourceLimits := set_to (lm_RequireResourceLimits l) (wq_RequireResourceLimits q),
     lm_SecurityProfile := (case wq_SecurityProfile q of None \<Rightarrow> lm_SecurityProfile l | Some p \<Rightarrow> NormalizeSecurityProfile p),
     lm_AllowOfficialImageUser := set_to (lm_AllowOfficialImageUser l) (wq_AllowOfficialImageUser q)\<rparr>)"

definition resourceLimit :: "Limits \<Rightarrow> string \<Rightarrow> int" where
  "resourceLimit l r =
     (if r = ResourceApps then lm_MaxApps l
      else if r = ResourceDatabaseInstances then lm_MaxDatabaseInstances l
      else if r = ResourceCronJobs then lm_MaxCronJobs l
      else if r = ResourceVolumes then lm_MaxVolumes l
      else if r = ResourceNetworks then lm_MaxNetworks l
      else if r = ResourceAPIKeys then lm_MaxAPIKeys l
      else if r = ResourceMembers then lm_MaxMembers l
      else if r = ResourceDatabasesPerInstance then lm_MaxDatabasesPerInstance l
      else if r = ResourceRunners then lm_MaxRunners l
      else if r = ResourceGPUs then lm_MaxGPUs l
      else -1)"

definition capability_of :: "Limits \<Rightarrow> string \<Rightarrow> bool" where
  "capability_of l c =
     (if c = CapCustomTLS then lm_AllowCustomTLS l
      else if c = CapPrivilegedHostMounts then lm_AllowPrivilegedHostMounts l
      else if c = CapShellExec then lm_AllowShellExec l
      else if c = CapSharedStorage then lm_AllowSharedStorage l
      else if c = CapDNSProviders then lm_AllowDNSProviders l
      else if c = CapCustomLabels then lm_AllowCustomLabels l
      else if c = CapPlatformRunners then lm_AllowPlatformRunners l
      else if c = CapCustomBuilder then lm_AllowCustomBuilder l
      else if c = CapGPU then lm_AllowGPU l
      else if c = CapServiceRuntime then lm_AllowServiceRuntime l
      else True)"

section \<open>What the service reads\<close>

text \<open>The rows the sums run over, with the columns they use.\<close>

record AppUse =
  au_ID :: nat
  au_WorkspaceID :: nat
  au_RuntimeKind :: string
  au_Replicas :: int
  au_NanoCPUs :: int
  au_MemoryBytes :: int
  au_GPUCount :: int
  au_Status :: string

record VolumeUse =
  vu_ID :: nat
  vu_WorkspaceID :: nat
  vu_SizeBytes :: int
  vu_UsedBytes :: int

record InstanceUse =
  iu_ID :: nat
  iu_WorkspaceID :: nat
  iu_NanoCPUs :: int
  iu_MemoryBytes :: int
  iu_VolumeSizeBytes :: int

datatype quota_read = RPlanForWorkspace | RFindDefault | RFindByWorkspace | RSumApps | RSumGPUs
  | RSumVolumes | RSumInstanceVolumes | RSumInstances | RCountApps | RCountVolumes | RCountInstances

text \<open>The tables, and the reads that fail.\<close>

record QuotaDb =
  qd_plans :: "Plan list"
  qd_workspaces :: "(nat \<times> nat option) list"
  qd_overrides :: "WorkspaceQuota list"
  qd_apps :: "AppUse list"
  qd_volumes :: "VolumeUse list"
  qd_instances :: "InstanceUse list"
  qd_fails :: "quota_read list"

abbreviation RuntimeService :: string where "RuntimeService \<equiv> ''service''"
abbreviation AppStatusRunning :: string where "AppStatusRunning \<equiv> ''running''"

text \<open>\<^verbatim>\<open>First\<close> takes the row of the smallest primary key.\<close>

definition first_plan :: "Plan list \<Rightarrow> Plan option" where
  "first_plan ps = keep_best (\<lambda>_. True) (\<lambda>a b. pl_ID a < pl_ID b) None ps"

definition PlanForWorkspace :: "QuotaDb \<Rightarrow> nat \<Rightarrow> Plan option" where
  "PlanForWorkspace db ws =
     (if RPlanForWorkspace \<in> set (qd_fails db) then None
      else first_plan (filter (\<lambda>p. (ws, Some (pl_ID p)) \<in> set (qd_workspaces db)) (qd_plans db)))"

definition plan_FindDefault :: "QuotaDb \<Rightarrow> Plan option" where
  "plan_FindDefault db =
     (if RFindDefault \<in> set (qd_fails db) then None
      else first_plan (filter (\<lambda>p. pl_IsDefault p \<and> pl_IsActive p) (qd_plans db)))"

definition FindByWorkspace :: "QuotaDb \<Rightarrow> nat \<Rightarrow> WorkspaceQuota option" where
  "FindByWorkspace db ws =
     (if RFindByWorkspace \<in> set (qd_fails db) then None
      else find (\<lambda>q. wq_WorkspaceID q = ws) (qd_overrides db))"

text \<open>
  A sum of 64-bit columns. The database computes in 64 bits and answers with an error where a term or the
  total leaves that range, as PostgreSQL does.
\<close>

definition sql_sum :: "int list \<Rightarrow> int option" where
  "sql_sum xs =
     (if list_all in_int64 xs \<and> in_int64 (sum_list xs) then Some (sum_list xs) else None)"

definition sql_replicas :: "AppUse \<Rightarrow> int" where
  "sql_replicas a =
     (if au_RuntimeKind a = RuntimeService \<and> 1 < au_Replicas a then au_Replicas a else 1)"

text \<open>The apps of a workspace, without the excluded one; the id 0 excludes nothing.\<close>

definition other_apps :: "QuotaDb \<Rightarrow> nat \<Rightarrow> nat \<Rightarrow> AppUse list" where
  "other_apps db ws excl =
     filter (\<lambda>a. au_WorkspaceID a = ws \<and> (excl = 0 \<or> au_ID a \<noteq> excl)) (qd_apps db)"

definition app_SumResourcesByWorkspace :: "QuotaDb \<Rightarrow> nat \<Rightarrow> nat \<Rightarrow> (int \<times> int) option" where
  "app_SumResourcesByWorkspace db ws excl =
     (if RSumApps \<in> set (qd_fails db) then None
      else case (sql_sum (map (\<lambda>a. au_NanoCPUs a * sql_replicas a) (other_apps db ws excl)),
                 sql_sum (map (\<lambda>a. au_MemoryBytes a * sql_replicas a) (other_apps db ws excl))) of
          (Some cpu, Some mem) \<Rightarrow> Some (cpu, mem)
        | _ \<Rightarrow> None)"

definition SumRunningGPUsByWorkspace :: "QuotaDb \<Rightarrow> nat \<Rightarrow> nat \<Rightarrow> int option" where
  "SumRunningGPUsByWorkspace db ws excl =
     (if RSumGPUs \<in> set (qd_fails db) then None
      else sql_sum (map (\<lambda>a. au_GPUCount a * (if au_Replicas a < 1 then 1 else au_Replicas a))
             (filter (\<lambda>a. au_Status a = AppStatusRunning \<and> 0 < au_GPUCount a) (other_apps db ws excl))))"

definition SumSizeByWorkspace :: "QuotaDb \<Rightarrow> nat \<Rightarrow> int option" where
  "SumSizeByWorkspace db ws =
     (if RSumVolumes \<in> set (qd_fails db) then None
      else sql_sum (map vu_SizeBytes (filter (\<lambda>v. vu_WorkspaceID v = ws) (qd_volumes db))))"

definition SumVolumeSizeByWorkspace :: "QuotaDb \<Rightarrow> nat \<Rightarrow> int option" where
  "SumVolumeSizeByWorkspace db ws =
     (if RSumInstanceVolumes \<in> set (qd_fails db) then None
      else sql_sum (map iu_VolumeSizeBytes (filter (\<lambda>i. iu_WorkspaceID i = ws) (qd_instances db))))"

definition other_instances :: "QuotaDb \<Rightarrow> nat \<Rightarrow> nat \<Rightarrow> InstanceUse list" where
  "other_instances db ws excl =
     filter (\<lambda>i. iu_WorkspaceID i = ws \<and> iu_ID i \<noteq> excl) (qd_instances db)"

definition db_SumResourcesByWorkspace :: "QuotaDb \<Rightarrow> nat \<Rightarrow> nat \<Rightarrow> (int \<times> int) option" where
  "db_SumResourcesByWorkspace db ws excl =
     (if RSumInstances \<in> set (qd_fails db) then None
      else case (sql_sum (map iu_NanoCPUs (other_instances db ws excl)),
                 sql_sum (map iu_MemoryBytes (other_instances db ws excl))) of
          (Some cpu, Some mem) \<Rightarrow> Some (cpu, mem)
        | _ \<Rightarrow> None)"

section \<open>The service\<close>

record QuotaService =
  qs_enforce :: bool
  qs_overrides :: bool
  qs_edition :: "(string \<Rightarrow> bool) option"
  qs_forceNonRoot :: bool
  qs_restricted :: "(nat \<Rightarrow> string option) option"
  qs_cpuOvercommit :: float64

abbreviation flagSecurityProfile :: string where "flagSecurityProfile \<equiv> ''security_profile''"
abbreviation flagPlacementPolicy :: string where "flagPlacementPolicy \<equiv> ''placement_policy''"
abbreviation flagDatabaseSizes :: string where "flagDatabaseSizes \<equiv> ''database_sizes''"
abbreviation flagPlatformRunners :: string where "flagPlatformRunners \<equiv> ''platform_runners''"

text \<open>The refusals. Each carries the values its message shows; the message itself is not built.\<close>

datatype quota_error =
    RestrictedWorkspace string
  | QuotaExceeded string int int
  | CapabilityDenied string
  | PlatformRunnerDenied string
  | StorageClassDenied string
  | ResourceLimitsRequired "string list"
  | CPULimitExceeded string int int
  | CPUAllowanceExceeded string int float64 int
  | MemoryLimitExceeded string int int
  | InstanceSizeExceeded int int
  | StorageExceeded int int

definition entitled :: "QuotaService \<Rightarrow> string \<Rightarrow> bool" where
  "entitled s flag = (case qs_edition s of None \<Rightarrow> False | Some has \<Rightarrow> has flag)"

text \<open>Most methods accept a nil service, which is \<open>None\<close> here.\<close>

definition Enabled :: "QuotaService option \<Rightarrow> bool" where
  "Enabled so = (case so of None \<Rightarrow> False | Some s \<Rightarrow> qs_enforce s)"

definition effectivePlan :: "QuotaDb \<Rightarrow> nat \<Rightarrow> Plan option" where
  "effectivePlan db ws =
     (case PlanForWorkspace db ws of
        Some p \<Rightarrow> if pl_IsActive p then Some p else plan_FindDefault db
      | None \<Rightarrow> plan_FindDefault db)"

definition override_of :: "QuotaService \<Rightarrow> QuotaDb \<Rightarrow> nat \<Rightarrow> WorkspaceQuota option" where
  "override_of s db ws = (if qs_overrides s then FindByWorkspace db ws else None)"

text \<open>
  The placement and the runner list that a plan or an override sets, as the placement and scheduling services
  consult them: an absent plan and a row without the field are both \<open>None\<close>.
\<close>

definition placement_quota :: "QuotaService \<Rightarrow> QuotaDb \<Rightarrow> PlacementQuota" where
  "placement_quota s db =
     \<lparr>pq_enforce = qs_enforce s, pq_entitled = entitled s flagPlacementPolicy,
      pq_override = (\<lambda>ws. Option.bind (override_of s db ws) wq_Placement),
      pq_plan = (\<lambda>ws. map_option pl_Placement (effectivePlan db ws))\<rparr>"

definition databaseSizesFrom :: "Plan option \<Rightarrow> WorkspaceQuota option \<Rightarrow> nat list" where
  "databaseSizesFrom p ov =
     (case Option.bind ov wq_DatabaseSizes of Some ids \<Rightarrow> ids
      | None \<Rightarrow> (case p of None \<Rightarrow> [] | Some p' \<Rightarrow> pl_DatabaseSizes p'))"

definition EffectiveDatabaseSizes :: "QuotaService option \<Rightarrow> QuotaDb \<Rightarrow> nat \<Rightarrow> nat list \<times> bool" where
  "EffectiveDatabaseSizes so db ws =
     (case so of None \<Rightarrow> ([], False) | Some s \<Rightarrow>
       if \<not> Enabled so \<or> \<not> entitled s flagDatabaseSizes then ([], False)
       else (databaseSizesFrom (effectivePlan db ws) (override_of s db ws), True))"

definition DatabaseSizesLicensed :: "QuotaService option \<Rightarrow> bool" where
  "DatabaseSizesLicensed so = (case so of None \<Rightarrow> False | Some s \<Rightarrow> entitled s flagDatabaseSizes)"

definition EffectivePlanName :: "QuotaService option \<Rightarrow> QuotaDb \<Rightarrow> nat \<Rightarrow> string" where
  "EffectivePlanName so db ws =
     (case so of None \<Rightarrow> [] | Some s \<Rightarrow>
       case effectivePlan db ws of None \<Rightarrow> [] | Some p \<Rightarrow> pl_Name p)"

definition EffectiveLimits :: "QuotaService option \<Rightarrow> QuotaDb \<Rightarrow> nat \<Rightarrow> Limits" where
  "EffectiveLimits so db ws =
     (case so of None \<Rightarrow> unlimited | Some s \<Rightarrow>
       let l = applyOverride (limitsFromPlan (effectivePlan db ws)) (override_of s db ws);
           l = (if \<not> entitled s flagSecurityProfile then l\<lparr>lm_SecurityProfile := SecurityProfileDefault\<rparr> else l)
       in l\<lparr>lm_CPUOvercommit := float_max (Fin 1 0) (qs_cpuOvercommit s)\<rparr>)"

definition CheckCreate :: "QuotaService option \<Rightarrow> QuotaDb \<Rightarrow> nat \<Rightarrow> string \<Rightarrow> int \<Rightarrow> quota_error option" where
  "CheckCreate so db ws r currentCount =
     (case Option.bind (Option.bind so qs_restricted) (\<lambda>f. f ws) of
        Some e \<Rightarrow> Some (RestrictedWorkspace e)
      | None \<Rightarrow>
          if \<not> Enabled so then None
          else let limit = resourceLimit (EffectiveLimits so db ws) r in
            if limit < 0 then None
            else if limit \<le> currentCount then Some (QuotaExceeded r currentCount limit)
            else None)"

definition RestrictedProfile :: "QuotaService option \<Rightarrow> QuotaDb \<Rightarrow> nat \<Rightarrow> bool" where
  "RestrictedProfile so db ws =
     (if \<not> Enabled so then False
      else lm_SecurityProfile (EffectiveLimits so db ws) = SecurityProfileRestricted)"

definition AllowOfficialImageUser :: "QuotaService option \<Rightarrow> QuotaDb \<Rightarrow> nat \<Rightarrow> bool" where
  "AllowOfficialImageUser so db ws =
     (if \<not> Enabled so then True else lm_AllowOfficialImageUser (EffectiveLimits so db ws))"

definition RequireNonRootUser :: "QuotaService option \<Rightarrow> QuotaDb \<Rightarrow> nat \<Rightarrow> bool \<Rightarrow> bool" where
  "RequireNonRootUser so db ws officialTemplate =
     (case so of None \<Rightarrow> False | Some s \<Rightarrow>
       if qs_forceNonRoot s then True
       else if \<not> RestrictedProfile so db ws then False
       else \<not> (officialTemplate \<and> AllowOfficialImageUser so db ws))"

definition Require :: "QuotaService option \<Rightarrow> QuotaDb \<Rightarrow> nat \<Rightarrow> string \<Rightarrow> quota_error option" where
  "Require so db ws c =
     (if \<not> Enabled so then None
      else if capability_of (EffectiveLimits so db ws) c then None
      else Some (CapabilityDenied c))"

definition CustomBuilderAllowed :: "QuotaService option \<Rightarrow> QuotaDb \<Rightarrow> nat \<Rightarrow> bool" where
  "CustomBuilderAllowed so db ws \<longleftrightarrow> Require so db ws CapCustomBuilder = None"

text \<open>The runner list and the storage classes of a plan.\<close>

definition scheduler_quota :: "QuotaService \<Rightarrow> QuotaDb \<Rightarrow> Quota" where
  "scheduler_quota s db =
     \<lparr>qt_enforce = qs_enforce s, qt_entitled = entitled s flagPlatformRunners,
      qt_allow = (\<lambda>ws. lm_AllowPlatformRunners (EffectiveLimits (Some s) db ws)),
      qt_override = (\<lambda>ws. Option.bind (override_of s db ws) wq_PlatformRunners),
      qt_plan = (\<lambda>ws. map_option pl_PlatformRunners (effectivePlan db ws))\<rparr>"

definition PlatformRunnersLicensed :: "QuotaService option \<Rightarrow> bool" where
  "PlatformRunnersLicensed so = (case so of None \<Rightarrow> False | Some s \<Rightarrow> entitled s flagPlatformRunners)"

definition RequirePlatformRunner :: "QuotaService option \<Rightarrow> QuotaDb \<Rightarrow> nat \<Rightarrow> string \<Rightarrow> quota_error option" where
  "RequirePlatformRunner so db ws name =
     (case Option.bind so (\<lambda>s. EffectivePlatformRunners (scheduler_quota s db) ws) of
        None \<Rightarrow> None
      | Some allowed \<Rightarrow> if binding_Allows allowed name then None else Some (PlatformRunnerDenied name))"

record StorageClassBinding =
  sb_Allowed :: "string list"
  sb_Default :: string

definition storage_Allows :: "StorageClassBinding \<Rightarrow> string \<Rightarrow> bool" where
  "storage_Allows b name \<longleftrightarrow> sb_Allowed b = [] \<or> name \<in> set (sb_Allowed b)"

definition EffectiveStorageClasses :: "QuotaService option \<Rightarrow> QuotaDb \<Rightarrow> nat \<Rightarrow> StorageClassBinding" where
  "EffectiveStorageClasses so db ws =
     (case so of None \<Rightarrow> \<lparr>sb_Allowed = [], sb_Default = []\<rparr> | Some s \<Rightarrow>
       if \<not> Enabled so then \<lparr>sb_Allowed = [], sb_Default = []\<rparr>
       else let ov = override_of s db ws;
                b = (case effectivePlan db ws of
                       None \<Rightarrow> \<lparr>sb_Allowed = [], sb_Default = []\<rparr>
                     | Some p \<Rightarrow> \<lparr>sb_Allowed = pl_StorageClasses p,
                                   sb_Default = TrimSpace (pl_DefaultStorageClass p)\<rparr>)
            in \<lparr>sb_Allowed = set_to (sb_Allowed b) (Option.bind ov wq_StorageClasses),
                sb_Default = set_to (sb_Default b) (map_option TrimSpace (Option.bind ov wq_DefaultStorageClass))\<rparr>)"

definition RequireStorageClass :: "QuotaService option \<Rightarrow> QuotaDb \<Rightarrow> nat \<Rightarrow> string \<Rightarrow> quota_error option" where
  "RequireStorageClass so db ws name =
     (if \<not> Enabled so then None
      else if storage_Allows (EffectiveStorageClasses so db ws) name then None
      else Some (StorageClassDenied name))"

section \<open>Compute, storage and devices\<close>

abbreviation bytesPerMB :: int where "bytesPerMB \<equiv> 1048576"
abbreviation nanoPerCore :: int where "nanoPerCore \<equiv> 1000000000"

text \<open>Go's integer division truncates towards zero.\<close>

definition go_quot :: "int \<Rightarrow> int \<Rightarrow> int" where
  "go_quot a b = (if a < 0 then - (- a div b) else a div b)"

definition CPUAllowance :: "Limits \<Rightarrow> int \<Rightarrow> float64" where
  "CPUAllowance l cores =
     (if cores < 0 then Fin (-1) 0
      else float_mult (float_of_int cores) (float_max (Fin 1 0) (lm_CPUOvercommit l)))"

definition checkCPU :: "Limits \<Rightarrow> int \<Rightarrow> int \<Rightarrow> string \<Rightarrow> quota_error option" where
  "checkCPU l cores nanoCPUs what =
     (let allowance = CPUAllowance l cores in
      if float_less allowance (Fin 0 0)
         \<or> float_le (float_of_int nanoCPUs) (float_mult allowance (float_of_int nanoPerCore)) then None
      else if float_eq allowance (float_of_int cores) then Some (CPULimitExceeded what nanoCPUs cores)
      else Some (CPUAllowanceExceeded what nanoCPUs allowance cores))"

text \<open>The first component is the memory and the second the CPU, filled in where the refusal leaves them.\<close>

definition resolveAppResources :: "Limits \<Rightarrow> int \<Rightarrow> int \<Rightarrow> int \<times> int \<times> quota_error option" where
  "resolveAppResources l memoryBytes nanoCPUs =
     (let mem = (if memoryBytes = 0 \<and> 0 < lm_DefaultMemoryMB l
                 then wrap64 (lm_DefaultMemoryMB l * bytesPerMB) else memoryBytes);
          cpu = (if nanoCPUs = 0 \<and> 0 < lm_DefaultCPUMillicores l
                 then wrap64 (lm_DefaultCPUMillicores l * 1000000) else nanoCPUs);
          missing = (if mem = 0 then [''memory''] else []) @ (if cpu = 0 then [''CPU''] else [])
      in (mem, cpu, if lm_RequireResourceLimits l \<and> missing \<noteq> []
                    then Some (ResourceLimitsRequired missing) else None))"

definition ResolveAppResources ::
    "QuotaService option \<Rightarrow> QuotaDb \<Rightarrow> nat \<Rightarrow> int \<Rightarrow> int \<Rightarrow> int \<times> int \<times> quota_error option" where
  "ResolveAppResources so db ws memoryBytes nanoCPUs =
     (if \<not> Enabled so then (memoryBytes, nanoCPUs, None)
      else resolveAppResources (EffectiveLimits so db ws) memoryBytes nanoCPUs)"

text \<open>A memory budget: \<open>used\<close> is the sum after the addition.\<close>

definition checkMemory :: "int \<Rightarrow> int \<Rightarrow> string \<Rightarrow> quota_error option" where
  "checkMemory capMB used what =
     (if 0 \<le> capMB \<and> wrap64 (capMB * bytesPerMB) < used
      then Some (MemoryLimitExceeded what (go_quot used bytesPerMB) capMB) else None)"

definition CheckComputeAdd ::
    "QuotaService option \<Rightarrow> QuotaDb \<Rightarrow> nat \<Rightarrow> int \<Rightarrow> int \<Rightarrow> nat \<Rightarrow> quota_error option" where
  "CheckComputeAdd so db ws addNanoCPUs addMemBytes excludeAppID =
     (if \<not> Enabled so then None
      else let l = EffectiveLimits so db ws in
        if lm_MaxCPUCores l < 0 \<and> lm_MaxMemoryMB l < 0 then None
        else case app_SumResourcesByWorkspace db ws excludeAppID of
            None \<Rightarrow> None
          | Some (curCPU, curMem) \<Rightarrow>
              (case checkCPU l (lm_MaxCPUCores l) (wrap64 (curCPU + addNanoCPUs)) ''workspace'' of
                 Some e \<Rightarrow> Some e
               | None \<Rightarrow> checkMemory (lm_MaxMemoryMB l) (wrap64 (curMem + addMemBytes)) ''workspace''))"

definition CheckDatabaseComputeAdd ::
    "QuotaService option \<Rightarrow> QuotaDb \<Rightarrow> nat \<Rightarrow> int \<Rightarrow> int \<Rightarrow> nat \<Rightarrow> quota_error option" where
  "CheckDatabaseComputeAdd so db ws addNanoCPUs addMemBytes excludeInstanceID =
     (if \<not> Enabled so then None
      else let l = EffectiveLimits so db ws in
        if lm_MaxDatabaseCPUCores l < 0 \<and> lm_MaxDatabaseMemoryMB l < 0 then None
        else case db_SumResourcesByWorkspace db ws excludeInstanceID of
            None \<Rightarrow> None
          | Some (curCPU, curMem) \<Rightarrow>
              (case checkCPU l (lm_MaxDatabaseCPUCores l) (wrap64 (curCPU + addNanoCPUs)) ''database'' of
                 Some e \<Rightarrow> Some e
               | None \<Rightarrow> checkMemory (lm_MaxDatabaseMemoryMB l) (wrap64 (curMem + addMemBytes)) ''database''))"

definition CheckGPURequest :: "QuotaService option \<Rightarrow> QuotaDb \<Rightarrow> nat \<Rightarrow> int \<Rightarrow> nat \<Rightarrow> quota_error option" where
  "CheckGPURequest so db ws requested excludeAppID =
     (if \<not> Enabled so \<or> requested \<le> 0 then None
      else let limit = resourceLimit (EffectiveLimits so db ws) ResourceGPUs in
        if limit < 0 then None
        else case SumRunningGPUsByWorkspace db ws excludeAppID of
            None \<Rightarrow> None
          | Some cur \<Rightarrow>
              if limit < wrap64 (cur + requested)
              then Some (QuotaExceeded ResourceGPUs (wrap64 (cur + requested)) limit) else None)"

definition CheckInstanceSize :: "QuotaService option \<Rightarrow> QuotaDb \<Rightarrow> nat \<Rightarrow> int \<Rightarrow> quota_error option" where
  "CheckInstanceSize so db ws sizeBytes =
     (if \<not> Enabled so \<or> sizeBytes \<le> 0 then None
      else let l = EffectiveLimits so db ws in
        if lm_MaxDatabaseInstanceSizeMB l < 0 then None
        else if wrap64 (lm_MaxDatabaseInstanceSizeMB l * bytesPerMB) < sizeBytes
        then Some (InstanceSizeExceeded (go_quot sizeBytes bytesPerMB) (lm_MaxDatabaseInstanceSizeMB l))
        else None)"

text \<open>A sum that fails to read counts as zero here.\<close>

definition CheckStorageAdd :: "QuotaService option \<Rightarrow> QuotaDb \<Rightarrow> nat \<Rightarrow> int \<Rightarrow> quota_error option" where
  "CheckStorageAdd so db ws addBytes =
     (if \<not> Enabled so \<or> addBytes \<le> 0 then None
      else let l = EffectiveLimits so db ws in
        if lm_MaxStorageMB l < 0 then None
        else let volTotal = set_to 0 (SumSizeByWorkspace db ws);
                 dbTotal = set_to 0 (SumVolumeSizeByWorkspace db ws);
                 used = wrap64 (wrap64 (volTotal + dbTotal) + addBytes) in
          if wrap64 (lm_MaxStorageMB l * bytesPerMB) < used
          then Some (StorageExceeded (go_quot used bytesPerMB) (lm_MaxStorageMB l)) else None)"

definition DatabaseComputeCapped :: "QuotaService option \<Rightarrow> QuotaDb \<Rightarrow> nat \<Rightarrow> bool \<times> bool" where
  "DatabaseComputeCapped so db ws =
     (if \<not> Enabled so then (False, False)
      else let l = EffectiveLimits so db ws in
        (0 \<le> lm_MaxDatabaseCPUCores l, 0 \<le> lm_MaxDatabaseMemoryMB l))"

section \<open>What the application, storage and database services make of it\<close>

abbreviation MaxReplicas :: int where "MaxReplicas \<equiv> 100"
abbreviation RuntimeContainer :: string where "RuntimeContainer \<equiv> ''container''"

datatype app_error = ResourceCap | InvalidGPUCount | GPUDisabled | NotService | TooManyReplicas
  | AppQuota quota_error

text \<open>The platform-wide caps of the settings, 0 for none.\<close>

definition checkResourceCaps :: "int \<Rightarrow> int \<Rightarrow> int \<Rightarrow> int \<Rightarrow> app_error option" where
  "checkResourceCaps maxMemoryMB maxCPUCores memoryBytes nanoCPUs =
     (if 0 < maxMemoryMB \<and> wrap64 (maxMemoryMB * bytesPerMB) < memoryBytes then Some ResourceCap
      else if 0 < maxCPUCores \<and> wrap64 (maxCPUCores * nanoPerCore) < nanoCPUs then Some ResourceCap
      else None)"

definition validateResources :: "(int \<times> int) option \<Rightarrow> int \<Rightarrow> int \<Rightarrow> app_error option" where
  "validateResources settings memoryBytes nanoCPUs =
     (if memoryBytes < 0 \<or> nanoCPUs < 0 then Some ResourceCap
      else case settings of None \<Rightarrow> None
        | Some (maxMemoryMB, maxCPUCores) \<Rightarrow> checkResourceCaps maxMemoryMB maxCPUCores memoryBytes nanoCPUs)"

definition validateGPUCount :: "int \<Rightarrow> app_error option" where
  "validateGPUCount gpuCount = (if gpuCount < 0 \<or> 64 < gpuCount then Some InvalidGPUCount else None)"

definition gpuAllowed :: "QuotaService option \<Rightarrow> QuotaDb \<Rightarrow> nat \<Rightarrow> int \<Rightarrow> quota_error option" where
  "gpuAllowed so db ws gpuCount =
     (if gpuCount \<le> 0 \<or> so = None then None else Require so db ws CapGPU)"

definition effReplicas :: "AppUse \<Rightarrow> int" where
  "effReplicas a = (if au_Replicas a < 1 then 1 else au_Replicas a)"

text \<open>The check before a deployment that asks for devices.\<close>

definition gpu_Preflight :: "bool \<Rightarrow> QuotaService option \<Rightarrow> QuotaDb \<Rightarrow> AppUse \<Rightarrow> app_error option" where
  "gpu_Preflight gpuEnabled so db a =
     (if au_GPUCount a \<le> 0 then None
      else if \<not> gpuEnabled then Some GPUDisabled
      else if so = None then None
      else case Require so db (au_WorkspaceID a) CapGPU of
          Some e \<Rightarrow> Some (AppQuota e)
        | None \<Rightarrow> map_option AppQuota (CheckGPURequest so db (au_WorkspaceID a)
                     (wrap64 (au_GPUCount a * effReplicas a)) (au_ID a)))"

definition normalizeRuntime :: "AppUse \<Rightarrow> AppUse" where
  "normalizeRuntime a =
     a\<lparr>au_RuntimeKind := (if au_RuntimeKind a = RuntimeContainer \<or> au_RuntimeKind a = RuntimeService
                          then au_RuntimeKind a else RuntimeContainer),
       au_Replicas := (if au_Replicas a < 1 then 1 else au_Replicas a)\<rparr>"

definition checkCompute :: "QuotaService option \<Rightarrow> QuotaDb \<Rightarrow> AppUse \<Rightarrow> int \<Rightarrow> quota_error option" where
  "checkCompute so db a replicas =
     (let n = (if au_RuntimeKind a = RuntimeService \<and> 1 < replicas then replicas else 1) in
      CheckComputeAdd so db (au_WorkspaceID a) (wrap64 (au_NanoCPUs a * n)) (wrap64 (au_MemoryBytes a * n))
        (au_ID a))"

definition app_CountByWorkspace :: "QuotaDb \<Rightarrow> nat \<Rightarrow> int" where
  "app_CountByWorkspace db ws = int (length (filter (\<lambda>a. au_WorkspaceID a = ws) (qd_apps db)))"

text \<open>The gate at the head of \<^verbatim>\<open>Create\<close>: the count, then the check.\<close>

definition create_gate :: "QuotaService option \<Rightarrow> QuotaDb \<Rightarrow> nat \<Rightarrow> quota_error option" where
  "create_gate so db ws =
     (if Enabled so
      then CheckCreate so db ws ResourceApps (if RCountApps \<in> set (qd_fails db) then 0 else app_CountByWorkspace db ws)
      else None)"

text \<open>The resources of an app as \<^verbatim>\<open>Create\<close> and \<^verbatim>\<open>Update\<close> settle them.\<close>

definition app_resources :: "QuotaService option \<Rightarrow> (int \<times> int) option \<Rightarrow> QuotaDb \<Rightarrow> AppUse \<Rightarrow> app_error + AppUse" where
  "app_resources so settings db a =
     (case ResolveAppResources so db (au_WorkspaceID a) (au_MemoryBytes a) (au_NanoCPUs a) of
        (_, _, Some e) \<Rightarrow> Inl (AppQuota e)
      | (mem, cpu, None) \<Rightarrow>
          (case validateResources settings mem cpu of Some e \<Rightarrow> Inl e | None \<Rightarrow>
           case validateGPUCount (au_GPUCount a) of Some e \<Rightarrow> Inl e | None \<Rightarrow>
           case gpuAllowed so db (au_WorkspaceID a) (au_GPUCount a) of Some e \<Rightarrow> Inl (AppQuota e)
           | None \<Rightarrow> Inr (a\<lparr>au_MemoryBytes := mem, au_NanoCPUs := cpu\<rparr>)))"

definition put_app :: "QuotaDb \<Rightarrow> AppUse \<Rightarrow> QuotaDb" where
  "put_app db a = db\<lparr>qd_apps := filter (\<lambda>b. au_ID b \<noteq> au_ID a) (qd_apps db) @ [a]\<rparr>"

text \<open>
  \<^verbatim>\<open>Create\<close>, \<^verbatim>\<open>Update\<close> and \<^verbatim>\<open>Scale\<close> as far as compute goes; the runtime kind is the one \<^verbatim>\<open>validateRuntime\<close>
  leaves. A new app has the id 0 until the row is written under the fresh id \<open>i\<close>.
\<close>

definition app_Create ::
    "QuotaService option \<Rightarrow> (int \<times> int) option \<Rightarrow> QuotaDb \<Rightarrow> nat \<Rightarrow> AppUse \<Rightarrow> app_error + QuotaDb" where
  "app_Create so settings db i a =
     (case create_gate so db (au_WorkspaceID a) of Some e \<Rightarrow> Inl (AppQuota e) | None \<Rightarrow>
      case app_resources so settings db a of Inl e \<Rightarrow> Inl e | Inr b \<Rightarrow>
      let b = normalizeRuntime (b\<lparr>au_ID := 0\<rparr>) in
      case checkCompute so db b (au_Replicas b) of Some e \<Rightarrow> Inl (AppQuota e)
      | None \<Rightarrow> Inr (put_app db (b\<lparr>au_ID := i\<rparr>)))"

definition app_Update ::
    "QuotaService option \<Rightarrow> (int \<times> int) option \<Rightarrow> QuotaDb \<Rightarrow> AppUse \<Rightarrow> app_error + QuotaDb" where
  "app_Update so settings db a =
     (case app_resources so settings db a of Inl e \<Rightarrow> Inl e | Inr b \<Rightarrow>
      let b = normalizeRuntime b in
      if MaxReplicas < au_Replicas b then Inl TooManyReplicas
      else case checkCompute so db b (au_Replicas b) of Some e \<Rightarrow> Inl (AppQuota e)
      | None \<Rightarrow> Inr (put_app db b))"

definition app_Scale :: "QuotaService option \<Rightarrow> QuotaDb \<Rightarrow> AppUse \<Rightarrow> int \<Rightarrow> app_error + QuotaDb" where
  "app_Scale so db a replicas =
     (if au_RuntimeKind a \<noteq> RuntimeService then Inl NotService
      else let replicas = (if replicas < 1 then 1 else replicas) in
        if MaxReplicas < replicas then Inl TooManyReplicas
        else case checkCompute so db a replicas of Some e \<Rightarrow> Inl (AppQuota e)
        | None \<Rightarrow> Inr (put_app db (a\<lparr>au_Replicas := replicas\<rparr>)))"

definition delete_app :: "QuotaDb \<Rightarrow> nat \<Rightarrow> QuotaDb" where
  "delete_app db i = db\<lparr>qd_apps := filter (\<lambda>b. au_ID b \<noteq> i) (qd_apps db)\<rparr>"

text \<open>Volumes: the quota part of \<^verbatim>\<open>Create\<close>, and \<^verbatim>\<open>Resize\<close>.\<close>

datatype volume_error = VolumeNotFound | VolumeShrink | VolumeBelowUsage | VolumeQuota quota_error

definition volume_CountByWorkspace :: "QuotaDb \<Rightarrow> nat \<Rightarrow> int" where
  "volume_CountByWorkspace db ws = int (length (filter (\<lambda>v. vu_WorkspaceID v = ws) (qd_volumes db)))"

definition volume_Create :: "QuotaService option \<Rightarrow> QuotaDb \<Rightarrow> nat \<Rightarrow> nat \<Rightarrow> int \<Rightarrow> quota_error + QuotaDb" where
  "volume_Create so db i ws sizeBytes =
     (let sizeBytes = (if sizeBytes < 0 then 0 else sizeBytes);
          n = (if RCountVolumes \<in> set (qd_fails db) then 0 else volume_CountByWorkspace db ws);
          refusal = (if Enabled so then
              (case CheckCreate so db ws ResourceVolumes n of Some e \<Rightarrow> Some e
               | None \<Rightarrow> CheckStorageAdd so db ws sizeBytes) else None)
      in case refusal of Some e \<Rightarrow> Inl e
         | None \<Rightarrow> Inr (db\<lparr>qd_volumes := qd_volumes db @
             [\<lparr>vu_ID = i, vu_WorkspaceID = ws, vu_SizeBytes = sizeBytes, vu_UsedBytes = 0\<rparr>]\<rparr>))"

definition volume_Resize :: "QuotaService option \<Rightarrow> QuotaDb \<Rightarrow> nat \<Rightarrow> nat \<Rightarrow> int \<Rightarrow> volume_error + QuotaDb" where
  "volume_Resize so db ws i sizeBytes =
     (case find (\<lambda>v. vu_ID v = i \<and> vu_WorkspaceID v = ws) (qd_volumes db) of
        None \<Rightarrow> Inl VolumeNotFound
      | Some v \<Rightarrow>
          let sizeBytes = (if sizeBytes < 0 then 0 else sizeBytes) in
          if 0 < vu_SizeBytes v \<and> sizeBytes < vu_SizeBytes v then Inl VolumeShrink
          else if 0 < sizeBytes \<and> sizeBytes < vu_UsedBytes v then Inl VolumeBelowUsage
          else let delta = wrap64 (sizeBytes - vu_SizeBytes v) in
            case (if 0 < delta \<and> Enabled so then CheckStorageAdd so db ws delta else None) of
              Some e \<Rightarrow> Inl (VolumeQuota e)
            | None \<Rightarrow> Inr (db\<lparr>qd_volumes :=
                map (\<lambda>u. if vu_ID u = i then v\<lparr>vu_SizeBytes := sizeBytes\<rparr> else u) (qd_volumes db)\<rparr>))"

text \<open>The quota part of provisioning a database instance.\<close>

definition instance_CountByWorkspace :: "QuotaDb \<Rightarrow> nat \<Rightarrow> int" where
  "instance_CountByWorkspace db ws = int (length (filter (\<lambda>i. iu_WorkspaceID i = ws) (qd_instances db)))"

definition provision_gate :: "QuotaService option \<Rightarrow> QuotaDb \<Rightarrow> nat \<Rightarrow> int \<Rightarrow> int \<Rightarrow> int \<Rightarrow> quota_error option" where
  "provision_gate so db ws memoryBytes nanoCPUs volumeSizeBytes =
     (if \<not> Enabled so then None
      else case CheckDatabaseComputeAdd so db ws nanoCPUs memoryBytes 0 of Some e \<Rightarrow> Some e | None \<Rightarrow>
           case CheckCreate so db ws ResourceDatabaseInstances
             (if RCountInstances \<in> set (qd_fails db) then 0 else instance_CountByWorkspace db ws) of Some e \<Rightarrow> Some e | None \<Rightarrow>
           case CheckInstanceSize so db ws volumeSizeBytes of Some e \<Rightarrow> Some e
           | None \<Rightarrow> CheckStorageAdd so db ws volumeSizeBytes)"

definition instance_Provision ::
    "QuotaService option \<Rightarrow> QuotaDb \<Rightarrow> nat \<Rightarrow> nat \<Rightarrow> int \<Rightarrow> int \<Rightarrow> int \<Rightarrow> quota_error + QuotaDb" where
  "instance_Provision so db i ws memoryBytes nanoCPUs volumeSizeBytes =
     (let volumeSizeBytes = (if volumeSizeBytes < 0 then 0 else volumeSizeBytes) in
      case provision_gate so db ws memoryBytes nanoCPUs volumeSizeBytes of Some e \<Rightarrow> Inl e
      | None \<Rightarrow> Inr (db\<lparr>qd_instances := qd_instances db @
          [\<lparr>iu_ID = i, iu_WorkspaceID = ws, iu_NanoCPUs = nanoCPUs, iu_MemoryBytes = memoryBytes,
            iu_VolumeSizeBytes = volumeSizeBytes\<rparr>]\<rparr>))"

section \<open>Resolving a limit\<close>

text \<open>The same limit read off one row: what a plan, and what an override, says of a resource.\<close>

definition plan_limit :: "Plan \<Rightarrow> string \<Rightarrow> int" where
  "plan_limit p r = resourceLimit (limitsFromPlan (Some p)) r"

definition override_limit :: "WorkspaceQuota \<Rightarrow> string \<Rightarrow> int option" where
  "override_limit q r =
     (if r = ResourceApps then wq_MaxApps q
      else if r = ResourceDatabaseInstances then wq_MaxDatabaseInstances q
      else if r = ResourceCronJobs then wq_MaxCronJobs q
      else if r = ResourceVolumes then wq_MaxVolumes q
      else if r = ResourceNetworks then wq_MaxNetworks q
      else if r = ResourceAPIKeys then wq_MaxAPIKeys q
      else if r = ResourceMembers then wq_MaxMembers q
      else if r = ResourceDatabasesPerInstance then wq_MaxDatabasesPerInstance q
      else if r = ResourceRunners then wq_MaxRunners q
      else if r = ResourceGPUs then wq_MaxGPUs q
      else None)"

lemma set_to_simps [simp]: "set_to d None = d" "set_to d (Some x) = x"
  by (simp_all add: set_to_def)

lemma resourceLimit_override:
  "resourceLimit (applyOverride l (Some q)) r = set_to (resourceLimit l r) (override_limit q r)"
  by (simp add: resourceLimit_def applyOverride_def override_limit_def)

lemma resourceLimit_unlimited: "resourceLimit unlimited r = -1"
  by (simp add: resourceLimit_def unlimited_def)

lemma resourceLimit_update [simp]:
  "resourceLimit (l\<lparr>lm_SecurityProfile := p\<rparr>) r = resourceLimit l r"
  "resourceLimit (l\<lparr>lm_CPUOvercommit := v\<rparr>) r = resourceLimit l r"
  by (simp_all add: resourceLimit_def)

lemma applyOverride_None [simp]: "applyOverride l None = l"
  by (simp add: applyOverride_def)

lemma resourceLimit_Effective:
  "resourceLimit (EffectiveLimits (Some s) db ws) r =
     (case Option.bind (override_of s db ws) (\<lambda>q. override_limit q r) of
        Some n \<Rightarrow> n
      | None \<Rightarrow> (case effectivePlan db ws of Some p \<Rightarrow> plan_limit p r | None \<Rightarrow> -1))"
  by (cases "override_of s db ws"; cases "effectivePlan db ws")
    (auto simp: EffectiveLimits_def Let_def resourceLimit_override plan_limit_def set_to_def
      limitsFromPlan_def [of None] resourceLimit_unlimited split: option.splits)

lemma EffectiveLimits_tables:
  assumes "qd_plans db' = qd_plans db" and "qd_workspaces db' = qd_workspaces db"
    and "qd_overrides db' = qd_overrides db" and "qd_fails db' = qd_fails db"
  shows "EffectiveLimits so db' ws = EffectiveLimits so db ws"
proof -
  have "effectivePlan db' ws = effectivePlan db ws"
    using assms
    by (simp add: effectivePlan_def PlanForWorkspace_def plan_FindDefault_def cong: option.case_cong if_cong)
  moreover have "override_of s db' ws = override_of s db ws" for s
    using assms by (simp add: override_of_def FindByWorkspace_def)
  ultimately show ?thesis
    by (cases so) (simp_all add: EffectiveLimits_def)
qed

section \<open>Sums and the compute checks\<close>

lemma sum_list_member_le:
  fixes xs :: "int list"
  assumes "\<And>x. x \<in> set xs \<Longrightarrow> 0 \<le> x" and "x \<in> set xs"
  shows "x \<le> sum_list xs"
  using assms
proof (induction xs)
  case (Cons y ys)
  then have "0 \<le> sum_list ys"
    by (intro sum_list_nonneg) auto
  with Cons show ?case
    by (cases "x = y") (auto intro: order_trans [of x "sum_list ys"])
qed simp

lemma sql_sum_small:
  assumes "\<And>x. x \<in> set xs \<Longrightarrow> 0 \<le> x" and "sum_list xs < 2 ^ 63"
  shows "sql_sum xs = Some (sum_list xs)"
proof -
  have "0 \<le> sum_list xs"
    using assms(1) by (simp add: sum_list_nonneg)
  moreover have "x \<le> sum_list xs" if "x \<in> set xs" for x
    using that assms(1) by (rule sum_list_member_le [rotated])
  ultimately show ?thesis
    using assms by (force simp: sql_sum_def list_all_iff in_int64_def)
qed

lemma checkCPU_exact_aux:
  assumes "lm_CPUOvercommit l = Fin 1 0" and "0 \<le> cores" "cores \<le> 9007199" and "in_int64 n"
  shows "checkCPU l cores n what = None \<longleftrightarrow> n \<le> cores * nanoPerCore"
proof -
  have max: "float_max (Fin 1 0) (Fin 1 0) = Fin 1 0"
    by (simp add: float_max_def)
  have f: "float_of_int c = Fin c 0" if "0 \<le> c" "c < 2 ^ 53" for c
    using that by (simp add: float_of_int_def round64_exact)
  have "CPUAllowance l cores = Fin cores 0"
    using assms by (simp add: CPUAllowance_def max f round64_exact)
  moreover have "float_mult (Fin cores 0) (float_of_int nanoPerCore) = Fin (cores * nanoPerCore) 0"
    using assms by (simp add: f round64_exact)
  moreover have "\<not> float_less (Fin cores 0) (Fin 0 0)"
    using assms by (simp add: float_less_def)
  ultimately show ?thesis
    using float_le_exact [of n "cores * nanoPerCore"] assms by (simp add: checkCPU_def Let_def)
qed

lemma compute_sums:
  assumes "RSumApps \<notin> set (qd_fails db)"
    and "\<And>a. a \<in> set (other_apps db ws excl) \<Longrightarrow> 0 \<le> au_NanoCPUs a * sql_replicas a \<and> 0 \<le> au_MemoryBytes a * sql_replicas a"
    and "(\<Sum>a\<leftarrow>other_apps db ws excl. au_NanoCPUs a * sql_replicas a) < 2 ^ 63"
    and "(\<Sum>a\<leftarrow>other_apps db ws excl. au_MemoryBytes a * sql_replicas a) < 2 ^ 63"
  shows "app_SumResourcesByWorkspace db ws excl =
    Some (\<Sum>a\<leftarrow>other_apps db ws excl. au_NanoCPUs a * sql_replicas a,
          \<Sum>a\<leftarrow>other_apps db ws excl. au_MemoryBytes a * sql_replicas a)"
proof -
  have "sql_sum (map (\<lambda>a. au_NanoCPUs a * sql_replicas a) (other_apps db ws excl)) =
      Some (\<Sum>a\<leftarrow>other_apps db ws excl. au_NanoCPUs a * sql_replicas a)"
    using assms(2,3) by (intro sql_sum_small) auto
  moreover have "sql_sum (map (\<lambda>a. au_MemoryBytes a * sql_replicas a) (other_apps db ws excl)) =
      Some (\<Sum>a\<leftarrow>other_apps db ws excl. au_MemoryBytes a * sql_replicas a)"
    using assms(2,4) by (intro sql_sum_small) auto
  ultimately show ?thesis
    using assms(1) by (simp add: app_SumResourcesByWorkspace_def)
qed

section \<open>Budgets under any sequence of app changes\<close>

text \<open>
  \<open>create\<close> carries what \<^verbatim>\<open>validateRuntime\<close> has checked by then: a service has at most \<open>MaxReplicas\<close> replicas.
  An update or a scaling names a stored app.
\<close>

inductive app_step :: "QuotaService option \<Rightarrow> (int \<times> int) option \<Rightarrow> QuotaDb \<Rightarrow> QuotaDb \<Rightarrow> bool"
  for so settings where
  app_create: "\<lbrakk>app_Create so settings db i a = Inr db'; i \<noteq> 0; i \<notin> au_ID ` set (qd_apps db);
      au_RuntimeKind a = RuntimeService \<longrightarrow> au_Replicas a \<le> MaxReplicas\<rbrakk> \<Longrightarrow> app_step so settings db db'"
| app_update: "\<lbrakk>app_Update so settings db a = Inr db'; au_ID a \<noteq> 0; b \<in> set (qd_apps db);
      au_ID b = au_ID a; au_WorkspaceID b = au_WorkspaceID a\<rbrakk> \<Longrightarrow> app_step so settings db db'"
| app_scale: "\<lbrakk>app_Scale so db a n = Inr db'; au_ID a \<noteq> 0; a \<in> set (qd_apps db)\<rbrakk> \<Longrightarrow> app_step so settings db db'"
| app_delete: "app_step so settings db (delete_app db i)"

definition cpu_used :: "QuotaDb \<Rightarrow> nat \<Rightarrow> int" where
  "cpu_used db ws = (\<Sum>a\<leftarrow>other_apps db ws 0. au_NanoCPUs a * sql_replicas a)"

definition memory_used :: "QuotaDb \<Rightarrow> nat \<Rightarrow> int" where
  "memory_used db ws = (\<Sum>a\<leftarrow>other_apps db ws 0. au_MemoryBytes a * sql_replicas a)"

definition within_budget :: "int \<Rightarrow> int \<Rightarrow> QuotaDb \<Rightarrow> nat \<Rightarrow> bool" where
  "within_budget cores mb db ws \<longleftrightarrow>
     list_all (\<lambda>a. 0 \<le> au_NanoCPUs a \<and> 0 \<le> au_MemoryBytes a) (other_apps db ws 0)
     \<and> cpu_used db ws \<le> cores * nanoPerCore \<and> memory_used db ws \<le> mb * bytesPerMB"

definition same_tables :: "QuotaDb \<Rightarrow> QuotaDb \<Rightarrow> bool" where
  "same_tables db db' \<longleftrightarrow> qd_plans db' = qd_plans db \<and> qd_workspaces db' = qd_workspaces db
     \<and> qd_overrides db' = qd_overrides db \<and> qd_fails db' = qd_fails db"

lemma same_tables_simps [simp]:
  "same_tables db db" "same_tables db (put_app db' a) = same_tables db db'"
  "same_tables db (delete_app db' i) = same_tables db db'"
  by (simp_all add: same_tables_def put_app_def delete_app_def)

lemma same_tables_limits: "same_tables db db' \<Longrightarrow> EffectiveLimits so db' ws = EffectiveLimits so db ws"
  by (rule EffectiveLimits_tables) (simp_all add: same_tables_def)

lemma other_apps_put:
  "au_ID a \<noteq> 0 \<Longrightarrow> other_apps (put_app db a) ws 0 =
     other_apps db ws (au_ID a) @ (if au_WorkspaceID a = ws then [a] else [])"
  by (simp add: other_apps_def put_app_def conj_commute)

lemma other_apps_delete: "other_apps (delete_app db i) ws 0 = filter (\<lambda>a. au_ID a \<noteq> i) (other_apps db ws 0)"
  by (simp add: other_apps_def delete_app_def conj_commute)

lemma other_apps_excl: "i \<noteq> 0 \<Longrightarrow> other_apps db ws i = filter (\<lambda>a. au_ID a \<noteq> i) (other_apps db ws 0)"
  by (simp add: other_apps_def conj_commute)

lemma other_apps_fresh:
  "i \<notin> au_ID ` set (qd_apps db) \<Longrightarrow> other_apps db ws i = other_apps db ws 0"
  by (auto simp: other_apps_def intro!: filter_cong)

lemma sql_replicas_pos: "1 \<le> sql_replicas a"
  by (simp add: sql_replicas_def)

text \<open>Leaving rows of nonnegative weight out lowers a sum.\<close>

lemma sum_filter_le:
  fixes f :: "'a \<Rightarrow> int"
  assumes "\<And>x. x \<in> set xs \<Longrightarrow> 0 \<le> f x"
  shows "(\<Sum>x\<leftarrow>filter P xs. f x) \<le> (\<Sum>x\<leftarrow>xs. f x)"
  using assms by (induction xs) (auto intro: add_mono_thms_linordered_semiring(2) order_trans)

lemma sum_member_le:
  fixes f :: "'a \<Rightarrow> int"
  assumes "\<And>x. x \<in> set xs \<Longrightarrow> 0 \<le> f x" and "x \<in> set xs"
  shows "f x \<le> (\<Sum>x\<leftarrow>xs. f x)"
  using assms by (intro sum_list_member_le) auto

lemma within_budget_sub:
  assumes "within_budget cores mb db ws"
  shows "list_all (\<lambda>a. 0 \<le> au_NanoCPUs a \<and> 0 \<le> au_MemoryBytes a) (filter P (other_apps db ws 0))"
    and "(\<Sum>a\<leftarrow>filter P (other_apps db ws 0). au_NanoCPUs a * sql_replicas a) \<le> cores * nanoPerCore"
    and "(\<Sum>a\<leftarrow>filter P (other_apps db ws 0). au_MemoryBytes a * sql_replicas a) \<le> mb * bytesPerMB"
proof -
  have nn: "0 \<le> au_NanoCPUs a * sql_replicas a" "0 \<le> au_MemoryBytes a * sql_replicas a"
    if "a \<in> set (other_apps db ws 0)" for a
    using assms that sql_replicas_pos [of a] by (auto simp: within_budget_def list_all_iff)
  show "list_all (\<lambda>a. 0 \<le> au_NanoCPUs a \<and> 0 \<le> au_MemoryBytes a) (filter P (other_apps db ws 0))"
    using assms by (auto simp: within_budget_def list_all_iff)
  show "(\<Sum>a\<leftarrow>filter P (other_apps db ws 0). au_NanoCPUs a * sql_replicas a) \<le> cores * nanoPerCore"
    using sum_filter_le [of "other_apps db ws 0" "\<lambda>a. au_NanoCPUs a * sql_replicas a" P] nn(1) assms
    by (simp add: within_budget_def cpu_used_def)
  show "(\<Sum>a\<leftarrow>filter P (other_apps db ws 0). au_MemoryBytes a * sql_replicas a) \<le> mb * bytesPerMB"
    using sum_filter_le [of "other_apps db ws 0" "\<lambda>a. au_MemoryBytes a * sql_replicas a" P] nn(2) assms
    by (simp add: within_budget_def memory_used_def)
qed

lemma within_budget_member:
  assumes "within_budget cores mb db (au_WorkspaceID a)" and "a \<in> set (qd_apps db)"
  shows "0 \<le> au_NanoCPUs a" "0 \<le> au_MemoryBytes a"
    and "au_NanoCPUs a \<le> cores * nanoPerCore" "au_MemoryBytes a \<le> mb * bytesPerMB"
proof -
  have a: "a \<in> set (other_apps db (au_WorkspaceID a) 0)"
    using assms(2) by (simp add: other_apps_def)
  then show nn: "0 \<le> au_NanoCPUs a" "0 \<le> au_MemoryBytes a"
    using assms(1) by (auto simp: within_budget_def list_all_iff)
  have le: "x \<le> x * sql_replicas a" if "0 \<le> x" for x
    using mult_left_mono [OF sql_replicas_pos that, of a] by simp
  have "au_NanoCPUs b * sql_replicas b \<ge> 0" "au_MemoryBytes b * sql_replicas b \<ge> 0"
    if "b \<in> set (other_apps db (au_WorkspaceID a) 0)" for b
    using assms(1) that sql_replicas_pos [of b] by (auto simp: within_budget_def list_all_iff)
  then have "au_NanoCPUs a * sql_replicas a \<le> cpu_used db (au_WorkspaceID a)"
    "au_MemoryBytes a * sql_replicas a \<le> memory_used db (au_WorkspaceID a)"
    using a by (auto simp: cpu_used_def memory_used_def intro!: sum_member_le)
  then show "au_NanoCPUs a \<le> cores * nanoPerCore" "au_MemoryBytes a \<le> mb * bytesPerMB"
    using assms(1) le [OF nn(1)] le [OF nn(2)] unfolding within_budget_def by linarith+
qed

definition counted_replicas :: "AppUse \<Rightarrow> int \<Rightarrow> int" where
  "counted_replicas a replicas = (if au_RuntimeKind a = RuntimeService \<and> 1 < replicas then replicas else 1)"

text \<open>
  The settings under which the budget holds: enforcement without CPU overcommit, a readable sum, platform caps
  of at most a million gigabytes and cores, and plan caps of the same size.
\<close>

definition budget_setting :: "QuotaService \<Rightarrow> QuotaDb \<Rightarrow> nat \<Rightarrow> int \<Rightarrow> int \<Rightarrow> bool" where
  "budget_setting s db ws cores mb \<longleftrightarrow>
     qs_enforce s \<and> qs_cpuOvercommit s = Fin 1 0 \<and> RSumApps \<notin> set (qd_fails db)
     \<and> lm_MaxCPUCores (EffectiveLimits (Some s) db ws) = cores \<and> 0 \<le> cores \<and> cores \<le> 2 ^ 20
     \<and> lm_MaxMemoryMB (EffectiveLimits (Some s) db ws) = mb \<and> 0 \<le> mb \<and> mb \<le> 2 ^ 30"

definition modest_caps :: "(int \<times> int) option \<Rightarrow> bool" where
  "modest_caps settings = (case settings of None \<Rightarrow> False
     | Some (mb, cores) \<Rightarrow> 0 < mb \<and> mb \<le> 2 ^ 30 \<and> 0 < cores \<and> cores \<le> 2 ^ 20)"

lemma mult_bounds:
  fixes x n :: int
  assumes "0 \<le> x" "x \<le> 2 ^ 50" "1 \<le> n" "n \<le> 100"
  shows "0 \<le> x * n" "x * n \<le> 2 ^ 57"
proof -
  show "0 \<le> x * n" using assms by simp
  have "x * n \<le> 2 ^ 50 * 100" using assms by (intro mult_mono) auto
  then show "x * n \<le> 2 ^ 57" by simp
qed

lemma admitted:
  assumes set: "budget_setting s db (au_WorkspaceID a) cores mb"
    and inv: "within_budget cores mb db (au_WorkspaceID a)"
    and excl: "other_apps db (au_WorkspaceID a) (au_ID a) = filter P (other_apps db (au_WorkspaceID a) 0)"
    and size: "0 \<le> au_NanoCPUs a" "au_NanoCPUs a \<le> 2 ^ 50" "0 \<le> au_MemoryBytes a" "au_MemoryBytes a \<le> 2 ^ 50"
    and rep: "counted_replicas a n \<le> 100"
    and chk: "checkCompute (Some s) db a n = None"
  shows "(\<Sum>b\<leftarrow>other_apps db (au_WorkspaceID a) (au_ID a). au_NanoCPUs b * sql_replicas b)
           + au_NanoCPUs a * counted_replicas a n \<le> cores * nanoPerCore"
    and "(\<Sum>b\<leftarrow>other_apps db (au_WorkspaceID a) (au_ID a). au_MemoryBytes b * sql_replicas b)
           + au_MemoryBytes a * counted_replicas a n \<le> mb * bytesPerMB"
proof -
  let ?ws = "au_WorkspaceID a" and ?r = "counted_replicas a n"
  let ?cpu = "\<Sum>b\<leftarrow>other_apps db ?ws (au_ID a). au_NanoCPUs b * sql_replicas b"
  let ?mem = "\<Sum>b\<leftarrow>other_apps db ?ws (au_ID a). au_MemoryBytes b * sql_replicas b"
  let ?l = "EffectiveLimits (Some s) db ?ws"
  have caps: "0 \<le> cores" "cores \<le> 2 ^ 20" "0 \<le> mb" "mb \<le> 2 ^ 30"
    using set by (auto simp: budget_setting_def)
  have sub: "list_all (\<lambda>b. 0 \<le> au_NanoCPUs b \<and> 0 \<le> au_MemoryBytes b) (other_apps db ?ws (au_ID a))"
    "?cpu \<le> cores * nanoPerCore" "?mem \<le> mb * bytesPerMB"
    using within_budget_sub [OF inv, of P] by (simp_all add: excl)
  have nn: "0 \<le> au_NanoCPUs b * sql_replicas b \<and> 0 \<le> au_MemoryBytes b * sql_replicas b"
    if "b \<in> set (other_apps db ?ws (au_ID a))" for b
    using sub(1) that sql_replicas_pos [of b] by (auto simp: list_all_iff)
  have r: "1 \<le> ?r" by (simp add: counted_replicas_def)
  note add = mult_bounds [OF size(1,2) r rep] mult_bounds [OF size(3,4) r rep]
  have pos: "0 \<le> ?cpu" "0 \<le> ?mem"
    using nn by (auto intro!: sum_list_nonneg)
  have bound: "cores * nanoPerCore \<le> 2 ^ 50" "mb * bytesPerMB \<le> 2 ^ 50"
    using caps by simp_all
  have sums: "app_SumResourcesByWorkspace db ?ws (au_ID a) = Some (?cpu, ?mem)"
    using set sub(2,3) bound nn by (intro compute_sums) (auto simp: budget_setting_def)
  have w: "wrap64 (au_NanoCPUs a * ?r) = au_NanoCPUs a * ?r" "wrap64 (au_MemoryBytes a * ?r) = au_MemoryBytes a * ?r"
    "wrap64 (?cpu + au_NanoCPUs a * ?r) = ?cpu + au_NanoCPUs a * ?r"
    "wrap64 (?mem + au_MemoryBytes a * ?r) = ?mem + au_MemoryBytes a * ?r"
    "wrap64 (mb * bytesPerMB) = mb * bytesPerMB"
    "in_int64 (?cpu + au_NanoCPUs a * ?r)"
    using add pos sub(2,3) bound caps by (auto simp: in_int64_def intro!: wrap64_id)
  have oc: "lm_CPUOvercommit ?l = Fin 1 0"
    using set by (simp add: budget_setting_def EffectiveLimits_def Let_def float_max_def)
  have "CheckComputeAdd (Some s) db ?ws (au_NanoCPUs a * ?r) (au_MemoryBytes a * ?r) (au_ID a) = None"
    using chk w(1,2) by (simp add: checkCompute_def counted_replicas_def Let_def)
  then have c: "checkCPU ?l cores (?cpu + au_NanoCPUs a * ?r) ''workspace'' = None"
    and m: "checkMemory mb (?mem + au_MemoryBytes a * ?r) ''workspace'' = None"
    using set caps by (simp_all add: CheckComputeAdd_def Enabled_def budget_setting_def sums w Let_def split: option.splits)
  show "?cpu + au_NanoCPUs a * ?r \<le> cores * nanoPerCore"
    using c checkCPU_exact_aux [OF oc _ _ w(6)] caps by simp
  show "?mem + au_MemoryBytes a * ?r \<le> mb * bytesPerMB"
    using m caps by (simp add: checkMemory_def w split: if_splits)
qed

lemma within_budget_put:
  assumes set: "budget_setting s db ws cores mb" and inv: "within_budget cores mb db ws"
    and id: "au_ID b \<noteq> 0"
    and excl: "other_apps db (au_WorkspaceID a) (au_ID a) = other_apps db (au_WorkspaceID a) (au_ID b)"
    and same: "au_WorkspaceID b = au_WorkspaceID a" "au_NanoCPUs b = au_NanoCPUs a" "au_MemoryBytes b = au_MemoryBytes a"
      "sql_replicas b = counted_replicas a n"
    and size: "au_WorkspaceID a = ws \<Longrightarrow> 0 \<le> au_NanoCPUs a \<and> au_NanoCPUs a \<le> 2 ^ 50
        \<and> 0 \<le> au_MemoryBytes a \<and> au_MemoryBytes a \<le> 2 ^ 50"
    and rep: "counted_replicas a n \<le> 100"
    and chk: "checkCompute (Some s) db a n = None"
  shows "within_budget cores mb (put_app db b) ws"
proof -
  have sub: "other_apps db ws (au_ID b) = filter (\<lambda>c. au_ID c \<noteq> au_ID b) (other_apps db ws 0)"
    using id by (rule other_apps_excl)
  show ?thesis
  proof (cases "au_WorkspaceID a = ws")
    case False
    then have "other_apps (put_app db b) ws 0 = other_apps db ws (au_ID b)"
      using id same by (simp add: other_apps_put)
    then show ?thesis
      using within_budget_sub [OF inv] by (simp add: within_budget_def cpu_used_def memory_used_def sub)
  next
    case True
    have put: "other_apps (put_app db b) ws 0 = other_apps db ws (au_ID b) @ [b]"
      using id same True by (simp add: other_apps_put)
    note adm = admitted [of s db a cores mb "\<lambda>c. au_ID c \<noteq> au_ID b" n]
    show ?thesis
      using adm assms True within_budget_sub(1) [OF inv]
      by (simp add: within_budget_def cpu_used_def memory_used_def put sub)
  qed
qed

lemma app_resources_Inr:
  assumes "app_resources so settings db a = Inr b"
  shows "b = a\<lparr>au_MemoryBytes := au_MemoryBytes b, au_NanoCPUs := au_NanoCPUs b\<rparr>"
    and "validateResources settings (au_MemoryBytes b) (au_NanoCPUs b) = None"
  using assms by (auto simp: app_resources_def split: prod.splits option.splits)

lemma validateResources_modest:
  assumes "validateResources settings mem cpu = None" and "modest_caps settings"
  shows "0 \<le> cpu" "cpu \<le> 2 ^ 50" "0 \<le> mem" "mem \<le> 2 ^ 50"
proof -
  obtain m c where s: "settings = Some (m, c)" "0 < m" "m \<le> 2 ^ 30" "0 < c" "c \<le> 2 ^ 20"
    using assms(2) by (auto simp: modest_caps_def split: option.splits)
  then have w: "wrap64 (m * bytesPerMB) = m * bytesPerMB" "wrap64 (c * nanoPerCore) = c * nanoPerCore"
    by (auto simp: in_int64_def intro!: wrap64_id)
  show "0 \<le> cpu" "cpu \<le> 2 ^ 50" "0 \<le> mem" "mem \<le> 2 ^ 50"
    using assms(1) s by (auto simp: validateResources_def checkResourceCaps_def w split: if_splits)
qed

lemma normalizeRuntime_simps [simp]:
  "au_ID (normalizeRuntime a) = au_ID a" "au_WorkspaceID (normalizeRuntime a) = au_WorkspaceID a"
  "au_NanoCPUs (normalizeRuntime a) = au_NanoCPUs a" "au_MemoryBytes (normalizeRuntime a) = au_MemoryBytes a"
  by (simp_all add: normalizeRuntime_def)

lemma sql_replicas_counted: "sql_replicas a = counted_replicas a (au_Replicas a)"
  by (simp add: sql_replicas_def counted_replicas_def)

lemma counted_replicas_id [simp]:
  "counted_replicas (a\<lparr>au_ID := i\<rparr>) = counted_replicas a" "counted_replicas (a\<lparr>au_Replicas := k\<rparr>) = counted_replicas a"
  by (simp_all add: counted_replicas_def fun_eq_iff)

lemma app_step_tables: "app_step so settings db db' \<Longrightarrow> same_tables db db'"
  by (cases rule: app_step.cases)
    (auto simp: app_Create_def app_Update_def app_Scale_def Let_def split: option.splits sum.splits if_splits)

lemma app_step_budget:
  assumes step: "app_step (Some s) settings db db'" and caps: "modest_caps settings"
    and set: "budget_setting s db ws cores mb" and inv: "within_budget cores mb db ws"
  shows "within_budget cores mb db' ws"
  using step
proof cases
  case (app_create i a)
  then obtain b where b: "app_resources (Some s) settings db a = Inr b"
    and chk: "checkCompute (Some s) db (normalizeRuntime (b\<lparr>au_ID := 0\<rparr>)) (au_Replicas (normalizeRuntime (b\<lparr>au_ID := 0\<rparr>))) = None"
    and db': "db' = put_app db (normalizeRuntime (b\<lparr>au_ID := 0\<rparr>)\<lparr>au_ID := i\<rparr>)"
    by (auto simp: app_Create_def Let_def split: option.splits sum.splits)
  note r = app_resources_Inr [OF b]
  note v = validateResources_modest [OF r(2) caps]
  have k: "au_RuntimeKind b = au_RuntimeKind a" "au_Replicas b = au_Replicas a"
    by (subst r(1), simp)+
  have rep: "counted_replicas (normalizeRuntime (b\<lparr>au_ID := 0\<rparr>)) (au_Replicas (normalizeRuntime (b\<lparr>au_ID := 0\<rparr>))) \<le> 100"
    using app_create(4) by (auto simp: counted_replicas_def normalizeRuntime_def k)
  show ?thesis
    unfolding db' using app_create(2,3) v
    by (intro within_budget_put [OF set inv _ _ _ _ _ _ _ rep chk])
      (simp_all add: other_apps_fresh sql_replicas_counted)
next
  case (app_update a c)
  then obtain b where b: "app_resources (Some s) settings db a = Inr b"
    and rep: "au_Replicas (normalizeRuntime b) \<le> MaxReplicas"
    and chk: "checkCompute (Some s) db (normalizeRuntime b) (au_Replicas (normalizeRuntime b)) = None"
    and db': "db' = put_app db (normalizeRuntime b)"
    by (auto simp: app_Update_def Let_def split: option.splits sum.splits if_splits)
  note r = app_resources_Inr [OF b]
  note v = validateResources_modest [OF r(2) caps]
  have "au_ID b = au_ID a"
    by (subst r(1), simp)
  moreover have "counted_replicas (normalizeRuntime b) (au_Replicas (normalizeRuntime b)) \<le> 100"
    using rep by (simp add: counted_replicas_def)
  ultimately show ?thesis
    unfolding db' using app_update(2) v
    by (intro within_budget_put [OF set inv _ _ _ _ _ _ _ _ chk]) (simp_all add: sql_replicas_counted)
next
  case (app_scale a n)
  define k where "k = (if n < 1 then 1 else n)"
  from app_scale have kind: "au_RuntimeKind a = RuntimeService" and k100: "k \<le> MaxReplicas"
    and chk: "checkCompute (Some s) db a k = None"
    and db': "db' = put_app db (a\<lparr>au_Replicas := k\<rparr>)"
    by (auto simp: app_Scale_def k_def Let_def split: option.splits if_splits)
  have "0 \<le> au_NanoCPUs a \<and> au_NanoCPUs a \<le> 2 ^ 50 \<and> 0 \<le> au_MemoryBytes a \<and> au_MemoryBytes a \<le> 2 ^ 50"
    if "au_WorkspaceID a = ws"
    using within_budget_member [of cores mb db a] that inv app_scale(3) set
    by (auto simp: budget_setting_def)
  moreover have "counted_replicas a k \<le> 100"
    using k100 by (simp add: counted_replicas_def)
  ultimately show ?thesis
    unfolding db' using app_scale(2)
    by (intro within_budget_put [OF set inv _ _ _ _ _ _ _ _ chk]) (simp_all add: sql_replicas_counted)
next
  case (app_delete i)
  then show ?thesis
    using within_budget_sub [OF inv, of "\<lambda>a. au_ID a \<noteq> i"]
    by (simp add: within_budget_def cpu_used_def memory_used_def other_apps_delete)
qed

lemma budget_setting_tables: "same_tables db db' \<Longrightarrow> budget_setting s db' ws cores mb = budget_setting s db ws cores mb"
  by (simp add: budget_setting_def same_tables_limits) (simp add: same_tables_def)

lemma same_tables_trans: "same_tables x y \<Longrightarrow> same_tables y z \<Longrightarrow> same_tables x z"
  by (simp add: same_tables_def)

lemma app_steps_tables: "(app_step so settings)\<^sup>*\<^sup>* db db' \<Longrightarrow> same_tables db db'"
  by (induction rule: rtranclp_induct) (auto intro: app_step_tables same_tables_trans)

lemma app_steps_budget:
  assumes "(app_step (Some s) settings)\<^sup>*\<^sup>* db db'" and "modest_caps settings"
    and "budget_setting s db ws cores mb" and "within_budget cores mb db ws"
  shows "within_budget cores mb db' ws"
  using assms
proof (induction rule: rtranclp_induct)
  case (step y z)
  then show ?case
    using app_step_budget [of s settings y z ws cores mb] app_steps_tables budget_setting_tables by blast
qed

section \<open>Counted resources\<close>

text \<open>The scheduler's admission contract, with the apps of a workspace as what is held.\<close>

definition held_apps :: "QuotaService \<Rightarrow> QuotaDb \<Rightarrow> QuotaDb \<Rightarrow> nat \<Rightarrow> int" where
  "held_apps s db0 db ws =
     (if 0 \<le> resourceLimit (EffectiveLimits (Some s) db0 ws) ResourceApps then app_CountByWorkspace db ws else 0)"

definition counted_step :: "QuotaService \<Rightarrow> (int \<times> int) option \<Rightarrow> QuotaDb \<Rightarrow> QuotaDb \<Rightarrow> QuotaDb \<Rightarrow> bool" where
  "counted_step s settings db0 db db' \<longleftrightarrow>
     app_step (Some s) settings db db' \<and> same_tables db0 db \<and> qs_enforce s \<and> RCountApps \<notin> set (qd_fails db0)"

lemma app_Count_put:
  "app_CountByWorkspace (put_app db b) ws =
     int (length (filter (\<lambda>a. au_WorkspaceID a = ws \<and> au_ID a \<noteq> au_ID b) (qd_apps db)))
       + of_bool (au_WorkspaceID b = ws)"
  by (simp add: app_CountByWorkspace_def put_app_def conj_commute)

lemma length_filter_less_member:
  assumes "x \<in> set xs" and "P x" and "\<not> Q x"
  shows "length (filter (\<lambda>y. P y \<and> Q y) xs) < length (filter P xs)"
  using assms
proof (induction xs)
  case (Cons y ys)
  have "length (filter (\<lambda>y. P y \<and> Q y) ys) \<le> length (filter P ys)"
    by (induction ys) auto
  with Cons show ?case by auto
qed simp

lemma app_Count_replace:
  assumes "c \<in> set (qd_apps db)" and "au_ID c = au_ID b" and "au_WorkspaceID c = au_WorkspaceID b"
  shows "app_CountByWorkspace (put_app db b) ws \<le> app_CountByWorkspace db ws"
proof (cases "au_WorkspaceID b = ws")
  case True
  then show ?thesis
    using length_filter_less_member [of c "qd_apps db" "\<lambda>a. au_WorkspaceID a = ws" "\<lambda>a. au_ID a \<noteq> au_ID b"] assms
    by (simp add: app_Count_put) (simp add: app_CountByWorkspace_def)
next
  case False
  have "length (filter (\<lambda>a. P a \<and> Q a) xs) \<le> length (filter P xs)" for P Q and xs :: "AppUse list"
    by (induction xs) auto
  with False show ?thesis
    by (simp add: app_Count_put) (simp add: app_CountByWorkspace_def)
qed

lemma app_Count_delete: "app_CountByWorkspace (delete_app db i) ws \<le> app_CountByWorkspace db ws"
proof -
  have "length (filter P (filter Q xs)) \<le> length (filter P xs)" for P Q and xs :: "AppUse list"
    by (induction xs) auto
  then show ?thesis by (simp add: app_CountByWorkspace_def delete_app_def)
qed

lemma app_step_count:
  assumes step: "app_step (Some s) settings db db'" and enf: "qs_enforce s" and rd: "RCountApps \<notin> set (qd_fails db)"
  shows "app_CountByWorkspace db' ws \<le> app_CountByWorkspace db ws
    \<or> (let n = resourceLimit (EffectiveLimits (Some s) db ws) ResourceApps in
       (n < 0 \<or> app_CountByWorkspace db ws < n) \<and> app_CountByWorkspace db' ws = app_CountByWorkspace db ws + 1)"
  using step
proof cases
  case (app_create i a)
  then obtain b where b: "app_resources (Some s) settings db a = Inr b"
    and g: "create_gate (Some s) db (au_WorkspaceID a) = None"
    and db': "db' = put_app db (normalizeRuntime (b\<lparr>au_ID := 0\<rparr>)\<lparr>au_ID := i\<rparr>)"
    by (auto simp: app_Create_def Let_def split: option.splits sum.splits)
  have w: "au_WorkspaceID b = au_WorkspaceID a"
    by (subst app_resources_Inr(1) [OF b], simp)
  have n: "resourceLimit (EffectiveLimits (Some s) db (au_WorkspaceID a)) ResourceApps < 0
      \<or> app_CountByWorkspace db (au_WorkspaceID a) < resourceLimit (EffectiveLimits (Some s) db (au_WorkspaceID a)) ResourceApps"
    using g enf rd by (auto simp: create_gate_def CheckCreate_def Enabled_def Let_def split: option.splits if_splits)
  have "filter (\<lambda>c. au_WorkspaceID c = ws \<and> au_ID c \<noteq> i) (qd_apps db) = filter (\<lambda>c. au_WorkspaceID c = ws) (qd_apps db)"
    using app_create(3) by (auto intro!: filter_cong)
  then have "app_CountByWorkspace db' ws = app_CountByWorkspace db ws + of_bool (au_WorkspaceID a = ws)"
    by (simp add: db' app_Count_put w) (simp add: app_CountByWorkspace_def)
  with n show ?thesis by (auto simp: Let_def)
next
  case (app_update a c)
  then obtain b where b: "app_resources (Some s) settings db a = Inr b"
    and db': "db' = put_app db (normalizeRuntime b)"
    by (auto simp: app_Update_def Let_def split: option.splits sum.splits if_splits)
  have "au_ID b = au_ID a" "au_WorkspaceID b = au_WorkspaceID a"
    by (subst app_resources_Inr(1) [OF b], simp)+
  then show ?thesis
    using app_Count_replace [of c db "normalizeRuntime b" ws] app_update by (simp add: db')
next
  case (app_scale a n)
  then obtain k where "db' = put_app db (a\<lparr>au_Replicas := k\<rparr>)"
    by (auto simp: app_Scale_def Let_def split: option.splits if_splits)
  then show ?thesis
    using app_Count_replace [of a db "a\<lparr>au_Replicas := k\<rparr>" ws] app_scale by simp
next
  case (app_delete i)
  then show ?thesis using app_Count_delete by simp
qed

interpretation apps: admission "counted_step s settings db0" "held_apps s db0"
  "\<lambda>ws. resourceLimit (EffectiveLimits (Some s) db0 ws) ResourceApps" for s settings db0
proof
  fix x y ws
  assume "counted_step s settings db0 x y"
  then have st: "app_step (Some s) settings x y" and tb: "same_tables db0 x" and enf: "qs_enforce s"
    and rd: "RCountApps \<notin> set (qd_fails db0)"
    by (simp_all add: counted_step_def)
  have "RCountApps \<notin> set (qd_fails x)"
    using rd tb by (simp add: same_tables_def)
  with app_step_count [OF st enf, of ws]
  show "held_apps s db0 y ws \<le> held_apps s db0 x ws \<or>
      held_apps s db0 x ws < resourceLimit (EffectiveLimits (Some s) db0 ws) ResourceApps
      \<and> held_apps s db0 y ws = held_apps s db0 x ws + 1"
    by (auto simp: held_apps_def same_tables_limits [OF tb] Let_def)
qed

lemma app_steps_counted:
  assumes "(app_step (Some s) settings)\<^sup>*\<^sup>* db db'" and "qs_enforce s" and "RCountApps \<notin> set (qd_fails db)"
  shows "(counted_step s settings db)\<^sup>*\<^sup>* db db'"
  using assms
proof (induction rule: rtranclp_induct)
  case (step y z)
  then have "counted_step s settings db y z"
    using app_steps_tables by (simp add: counted_step_def)
  with step show ?case by (meson rtranclp.rtrancl_into_rtrancl)
qed simp

section \<open>Storage\<close>

inductive storage_step :: "QuotaService option \<Rightarrow> QuotaDb \<Rightarrow> QuotaDb \<Rightarrow> bool" for so where
  volume_create: "\<lbrakk>volume_Create so db i ws bytes = Inr db'; i \<notin> vu_ID ` set (qd_volumes db); bytes \<le> 2 ^ 60\<rbrakk>
    \<Longrightarrow> storage_step so db db'"
| volume_resize: "\<lbrakk>volume_Resize so db ws i bytes = Inr db'; bytes \<le> 2 ^ 60\<rbrakk> \<Longrightarrow> storage_step so db db'"
| volume_delete: "storage_step so db (db\<lparr>qd_volumes := filter (\<lambda>v. vu_ID v \<noteq> i) (qd_volumes db)\<rparr>)"
| instance_provision: "\<lbrakk>instance_Provision so db i ws mem cpu bytes = Inr db'; bytes \<le> 2 ^ 60\<rbrakk> \<Longrightarrow> storage_step so db db'"
| instance_delete: "storage_step so db (db\<lparr>qd_instances := filter (\<lambda>v. iu_ID v \<noteq> i) (qd_instances db)\<rparr>)"

definition volume_bytes :: "QuotaDb \<Rightarrow> nat \<Rightarrow> int" where
  "volume_bytes db ws = (\<Sum>v\<leftarrow>filter (\<lambda>v. vu_WorkspaceID v = ws) (qd_volumes db). vu_SizeBytes v)"

definition instance_bytes :: "QuotaDb \<Rightarrow> nat \<Rightarrow> int" where
  "instance_bytes db ws = (\<Sum>i\<leftarrow>filter (\<lambda>i. iu_WorkspaceID i = ws) (qd_instances db). iu_VolumeSizeBytes i)"

definition within_storage :: "int \<Rightarrow> QuotaDb \<Rightarrow> nat \<Rightarrow> bool" where
  "within_storage mb db ws \<longleftrightarrow>
     distinct (map vu_ID (qd_volumes db)) \<and> list_all (\<lambda>v. 0 \<le> vu_SizeBytes v) (qd_volumes db)
     \<and> list_all (\<lambda>i. 0 \<le> iu_VolumeSizeBytes i) (qd_instances db)
     \<and> volume_bytes db ws + instance_bytes db ws \<le> mb * bytesPerMB"

definition storage_setting :: "QuotaService \<Rightarrow> QuotaDb \<Rightarrow> nat \<Rightarrow> int \<Rightarrow> bool" where
  "storage_setting s db ws mb \<longleftrightarrow>
     qs_enforce s \<and> RSumVolumes \<notin> set (qd_fails db) \<and> RSumInstanceVolumes \<notin> set (qd_fails db)
     \<and> lm_MaxStorageMB (EffectiveLimits (Some s) db ws) = mb \<and> 0 \<le> mb \<and> mb \<le> 2 ^ 40"

lemma CheckStorageAdd_None:
  assumes set: "storage_setting s db ws mb" and inv: "within_storage mb db ws"
    and add: "0 \<le> n" "n \<le> 2 ^ 60" and chk: "CheckStorageAdd (Some s) db ws n = None"
  shows "volume_bytes db ws + instance_bytes db ws + n \<le> mb * bytesPerMB"
proof (cases "n = 0")
  case True
  then show ?thesis using inv by (simp add: within_storage_def)
next
  case False
  have caps: "0 \<le> mb" "mb * bytesPerMB \<le> 2 ^ 60"
    using set by (auto simp: storage_setting_def)
  have nn: "0 \<le> volume_bytes db ws" "0 \<le> instance_bytes db ws"
    using inv by (auto simp: within_storage_def volume_bytes_def instance_bytes_def list_all_iff intro!: sum_list_nonneg)
  have le: "volume_bytes db ws + instance_bytes db ws \<le> mb * bytesPerMB"
    using inv by (simp add: within_storage_def)
  have v: "SumSizeByWorkspace db ws = Some (volume_bytes db ws)"
    using set inv nn le caps unfolding SumSizeByWorkspace_def volume_bytes_def
    by (auto simp: storage_setting_def within_storage_def volume_bytes_def list_all_iff intro!: sql_sum_small)
  have i: "SumVolumeSizeByWorkspace db ws = Some (instance_bytes db ws)"
    using set inv nn le caps unfolding SumVolumeSizeByWorkspace_def instance_bytes_def
    by (auto simp: storage_setting_def within_storage_def instance_bytes_def list_all_iff intro!: sql_sum_small)
  have w: "wrap64 (volume_bytes db ws + instance_bytes db ws) = volume_bytes db ws + instance_bytes db ws"
    "wrap64 (volume_bytes db ws + instance_bytes db ws + n) = volume_bytes db ws + instance_bytes db ws + n"
    "wrap64 (mb * bytesPerMB) = mb * bytesPerMB"
    using nn le caps add by (auto simp: in_int64_def intro!: wrap64_id)
  show ?thesis
    using chk set False add(1)
    by (simp add: CheckStorageAdd_def Enabled_def storage_setting_def v i w Let_def split: if_splits)
qed

text \<open>Replacing the size of the one row with an id.\<close>

lemma volume_bytes_resize:
  assumes "distinct (map vu_ID vs)" and "v \<in> set vs"
  shows "(\<Sum>u\<leftarrow>filter (\<lambda>u. vu_WorkspaceID u = ws)
             (map (\<lambda>u. if vu_ID u = vu_ID v then v\<lparr>vu_SizeBytes := n\<rparr> else u) vs). vu_SizeBytes u)
         = (\<Sum>u\<leftarrow>filter (\<lambda>u. vu_WorkspaceID u = ws) vs. vu_SizeBytes u)
           + (if vu_WorkspaceID v = ws then n - vu_SizeBytes v else 0)"
  using assms
proof (induction vs)
  case (Cons u us)
  have same: "map (\<lambda>u. if vu_ID u = vu_ID v then v\<lparr>vu_SizeBytes := n\<rparr> else u) us = us"
    if "vu_ID v \<notin> vu_ID ` set us"
    using that by (intro map_idI) (auto simp: image_iff)
  show ?case
  proof (cases "u = v")
    case True
    then show ?thesis using Cons same by auto
  next
    case False
    then have "vu_ID u \<noteq> vu_ID v" "v \<in> set us"
      using Cons(2,3) by force+
    then show ?thesis using Cons by simp
  qed
qed simp

lemma within_storage_volumes:
  assumes "within_storage mb db ws" and "distinct (map vu_ID vs)" and "list_all (\<lambda>v. 0 \<le> vu_SizeBytes v) vs"
    and "(\<Sum>u\<leftarrow>filter (\<lambda>u. vu_WorkspaceID u = ws) vs. vu_SizeBytes u) + instance_bytes db ws \<le> mb * bytesPerMB"
  shows "within_storage mb (db\<lparr>qd_volumes := vs\<rparr>) ws"
  using assms by (simp add: within_storage_def volume_bytes_def instance_bytes_def)

lemma within_storage_instances:
  assumes "within_storage mb db ws" and "list_all (\<lambda>i. 0 \<le> iu_VolumeSizeBytes i) is"
    and "volume_bytes db ws + (\<Sum>i\<leftarrow>filter (\<lambda>i. iu_WorkspaceID i = ws) is. iu_VolumeSizeBytes i) \<le> mb * bytesPerMB"
  shows "within_storage mb (db\<lparr>qd_instances := is\<rparr>) ws"
  using assms by (simp add: within_storage_def volume_bytes_def instance_bytes_def)

lemma sum_filter_filter_le:
  fixes f :: "'a \<Rightarrow> int"
  assumes "list_all (\<lambda>x. 0 \<le> f x) xs"
  shows "(\<Sum>x\<leftarrow>filter Q (filter P xs). f x) \<le> (\<Sum>x\<leftarrow>filter Q xs. f x)"
proof -
  have "filter Q (filter P xs) = filter P (filter Q xs)"
    by (simp add: conj_commute)
  then show ?thesis
    using assms sum_filter_le [of "filter Q xs" f P] by (simp add: list_all_iff)
qed

lemma storage_step_kept:
  assumes step: "storage_step (Some s) db db'" and set: "storage_setting s db ws mb" and inv: "within_storage mb db ws"
  shows "within_storage mb db' ws"
  using step
proof cases
  case (volume_create i w bytes)
  define n where "n = (if bytes < 0 then 0 else bytes)"
  have n: "0 \<le> n" "n \<le> 2 ^ 60"
    using volume_create(3) by (simp_all add: n_def)
  from volume_create have "w = ws \<Longrightarrow> CheckStorageAdd (Some s) db ws n = None"
    and db': "db' = db\<lparr>qd_volumes := qd_volumes db @
      [\<lparr>vu_ID = i, vu_WorkspaceID = w, vu_SizeBytes = n, vu_UsedBytes = 0\<rparr>]\<rparr>"
    using set by (auto simp: volume_Create_def n_def Let_def Enabled_def storage_setting_def
        split: option.splits if_splits)
  then have "w = ws \<Longrightarrow> volume_bytes db ws + instance_bytes db ws + n \<le> mb * bytesPerMB"
    using CheckStorageAdd_None [OF set inv n] by simp
  then show ?thesis
    unfolding db' using inv volume_create(2) n(1)
    by (intro within_storage_volumes [OF inv]) (auto simp: within_storage_def volume_bytes_def)
next
  case (volume_resize w i bytes)
  define n where "n = (if bytes < 0 then 0 else bytes)"
  have n: "0 \<le> n" "n \<le> 2 ^ 60"
    using volume_resize(2) by (simp_all add: n_def)
  from volume_resize obtain v where v: "find (\<lambda>v. vu_ID v = i \<and> vu_WorkspaceID v = w) (qd_volumes db) = Some v"
    by (auto simp: volume_Resize_def split: option.splits)
  then have mem: "v \<in> set (qd_volumes db)" "vu_ID v = i" "vu_WorkspaceID v = w"
    by (auto simp: find_Some_iff)
  with inv have pos: "0 \<le> vu_SizeBytes v"
    by (auto simp: within_storage_def list_all_iff)
  from volume_resize v have grow: "vu_SizeBytes v \<le> n"
    and chk: "0 < wrap64 (n - vu_SizeBytes v) \<Longrightarrow> CheckStorageAdd (Some s) db w (wrap64 (n - vu_SizeBytes v)) = None"
    and db': "db' = db\<lparr>qd_volumes :=
      map (\<lambda>u. if vu_ID u = i then v\<lparr>vu_SizeBytes := n\<rparr> else u) (qd_volumes db)\<rparr>"
    using set pos by (auto simp: volume_Resize_def n_def Let_def Enabled_def storage_setting_def
        split: option.splits if_splits)
  have d: "wrap64 (n - vu_SizeBytes v) = n - vu_SizeBytes v"
    using n grow pos by (auto simp: in_int64_def intro!: wrap64_id)
  have "w = ws \<Longrightarrow> volume_bytes db ws + instance_bytes db ws + (n - vu_SizeBytes v) \<le> mb * bytesPerMB"
    using CheckStorageAdd_None [OF set inv, of "n - vu_SizeBytes v"] chk grow n pos inv
    by (cases "n = vu_SizeBytes v") (auto simp: d within_storage_def)
  then have "(\<Sum>u\<leftarrow>filter (\<lambda>u. vu_WorkspaceID u = ws)
      (map (\<lambda>u. if vu_ID u = i then v\<lparr>vu_SizeBytes := n\<rparr> else u) (qd_volumes db)). vu_SizeBytes u)
      + instance_bytes db ws \<le> mb * bytesPerMB"
    using volume_bytes_resize [of "qd_volumes db" v ws n] mem inv
    by (auto simp: within_storage_def volume_bytes_def split: if_splits)
  moreover have "map vu_ID (map (\<lambda>u. if vu_ID u = i then v\<lparr>vu_SizeBytes := n\<rparr> else u) (qd_volumes db))
      = map vu_ID (qd_volumes db)"
    using mem(2) by (simp add: o_def)
  moreover have "list_all (\<lambda>u. 0 \<le> vu_SizeBytes u)
      (map (\<lambda>u. if vu_ID u = i then v\<lparr>vu_SizeBytes := n\<rparr> else u) (qd_volumes db))"
    using inv n(1) by (auto simp: within_storage_def list_all_iff)
  ultimately show ?thesis
    unfolding db' using inv by (intro within_storage_volumes [OF inv]) (simp_all only: within_storage_def)
next
  case (volume_delete i)
  then show ?thesis
    using inv sum_filter_filter_le [of vu_SizeBytes "qd_volumes db" "\<lambda>v. vu_WorkspaceID v = ws" "\<lambda>v. vu_ID v \<noteq> i"]
    by (intro within_storage_volumes [OF inv, of "filter (\<lambda>v. vu_ID v \<noteq> i) (qd_volumes db)", folded volume_delete])
      (auto simp: within_storage_def volume_bytes_def list_all_iff distinct_map_filter simp del: filter_filter)
next
  case (instance_provision i w mem cpu bytes)
  define n where "n = (if bytes < 0 then 0 else bytes)"
  have n: "0 \<le> n" "n \<le> 2 ^ 60"
    using instance_provision(2) by (simp_all add: n_def)
  from instance_provision have "w = ws \<Longrightarrow> CheckStorageAdd (Some s) db ws n = None"
    and db': "db' = db\<lparr>qd_instances := qd_instances db @
      [\<lparr>iu_ID = i, iu_WorkspaceID = w, iu_NanoCPUs = cpu, iu_MemoryBytes = mem, iu_VolumeSizeBytes = n\<rparr>]\<rparr>"
    using set by (auto simp: instance_Provision_def provision_gate_def n_def Let_def Enabled_def storage_setting_def
        split: option.splits if_splits)
  then have "w = ws \<Longrightarrow> volume_bytes db ws + instance_bytes db ws + n \<le> mb * bytesPerMB"
    using CheckStorageAdd_None [OF set inv n] by simp
  then show ?thesis
    unfolding db' using inv n(1)
    by (intro within_storage_instances [OF inv]) (auto simp: within_storage_def instance_bytes_def)
next
  case (instance_delete i)
  then show ?thesis
    using inv sum_filter_filter_le [of iu_VolumeSizeBytes "qd_instances db" "\<lambda>v. iu_WorkspaceID v = ws" "\<lambda>v. iu_ID v \<noteq> i"]
    by (intro within_storage_instances [OF inv, of "filter (\<lambda>v. iu_ID v \<noteq> i) (qd_instances db)", folded instance_delete])
      (auto simp: within_storage_def instance_bytes_def list_all_iff simp del: filter_filter)
qed

section \<open>A small plan\<close>

definition zero_Plan :: Plan where
  "zero_Plan = \<lparr>
     pl_ID = 0, pl_Name = [], pl_IsDefault = False, pl_IsActive = False, pl_System = False,
     pl_ManagedBy = [], pl_MaxApps = 0, pl_MaxDatabaseInstances = 0, pl_MaxCronJobs = 0,
     pl_MaxVolumes = 0, pl_MaxNetworks = 0, pl_MaxAPIKeys = 0, pl_MaxMembers = 0,
     pl_MaxDatabasesPerInstance = 0, pl_MaxCPUCores = 0, pl_MaxMemoryMB = 0,
     pl_MaxDatabaseInstanceSizeMB = 0, pl_MaxStorageMB = 0, pl_MaxRunners = 0, pl_MaxGPUs = 0,
     pl_MaxDatabaseCPUCores = 0, pl_MaxDatabaseMemoryMB = 0, pl_AllowCustomTLS = False,
     pl_AllowPrivilegedHostMounts = False, pl_AllowShellExec = False,
     pl_AllowSharedStorage = False, pl_AllowDNSProviders = False, pl_AllowCustomLabels = False,
     pl_AllowPlatformRunners = False, pl_AllowCustomBuilder = False, pl_AllowGPU = False,
     pl_AllowServiceRuntime = False, pl_DefaultCPUMillicores = 0, pl_DefaultMemoryMB = 0,
     pl_RequireResourceLimits = False, pl_SecurityProfile = [], pl_AllowOfficialImageUser = False,
     pl_Placement = no_placement, pl_DatabaseSizes = [], pl_StorageClasses = [],
     pl_DefaultStorageClass = [], pl_PlatformRunners = []\<rparr>"

definition zero_WorkspaceQuota :: WorkspaceQuota where
  "zero_WorkspaceQuota = \<lparr>
     wq_WorkspaceID = 0, wq_MaxApps = None, wq_MaxDatabaseInstances = None, wq_MaxCronJobs = None,
     wq_MaxVolumes = None, wq_MaxNetworks = None, wq_MaxAPIKeys = None, wq_MaxMembers = None,
     wq_MaxDatabasesPerInstance = None, wq_MaxCPUCores = None, wq_MaxMemoryMB = None,
     wq_MaxDatabaseInstanceSizeMB = None, wq_MaxStorageMB = None, wq_MaxRunners = None,
     wq_MaxGPUs = None, wq_MaxDatabaseCPUCores = None, wq_MaxDatabaseMemoryMB = None,
     wq_AllowCustomTLS = None, wq_AllowPrivilegedHostMounts = None, wq_AllowShellExec = None,
     wq_AllowSharedStorage = None, wq_AllowDNSProviders = None, wq_AllowCustomLabels = None,
     wq_AllowPlatformRunners = None, wq_AllowCustomBuilder = None, wq_AllowGPU = None,
     wq_AllowServiceRuntime = None, wq_DefaultCPUMillicores = None, wq_DefaultMemoryMB = None,
     wq_RequireResourceLimits = None, wq_SecurityProfile = None, wq_AllowOfficialImageUser = None,
     wq_Placement = None, wq_DatabaseSizes = None, wq_StorageClasses = None,
     wq_DefaultStorageClass = None, wq_PlatformRunners = None\<rparr>"

definition sample_plan :: Plan where
  "sample_plan = zero_Plan\<lparr>pl_ID := 3, pl_Name := ''starter'', pl_IsActive := True, pl_MaxApps := 2,
     pl_MaxVolumes := 4, pl_MaxCPUCores := 2, pl_MaxMemoryMB := 1024, pl_MaxStorageMB := 2048\<rparr>"

definition sample_quota :: QuotaService where
  "sample_quota = \<lparr>qs_enforce = True, qs_overrides = True, qs_edition = None, qs_forceNonRoot = False,
     qs_restricted = None, qs_cpuOvercommit = Fin 1 0\<rparr>"

definition sample_tables :: QuotaDb where
  "sample_tables = \<lparr>qd_plans = [sample_plan], qd_workspaces = [(7, Some 3)], qd_overrides = [], qd_apps = [],
     qd_volumes = [], qd_instances = [], qd_fails = []\<rparr>"

definition sample_use :: AppUse where
  "sample_use = \<lparr>au_ID = 4, au_WorkspaceID = 7, au_RuntimeKind = RuntimeService, au_Replicas = 2,
     au_NanoCPUs = 500000000, au_MemoryBytes = 268435456, au_GPUCount = 0, au_Status = AppStatusRunning\<rparr>"

lemma sample_app_created:
  "app_Create (Some sample_quota) (Some (4096, 8)) sample_tables 4 sample_use = Inr (put_app sample_tables sample_use)"
  by code_simp

lemma sample_effective:
  "EffectiveLimits (Some sample_quota) sample_tables 7 = (limitsFromPlan (Some sample_plan))\<lparr>lm_CPUOvercommit := Fin 1 0\<rparr>"
  by code_simp

definition sample_used :: QuotaDb where
  "sample_used = put_app sample_tables sample_use"

lemma sample_limits:
  "lm_MaxCPUCores (EffectiveLimits (Some sample_quota) sample_tables 7) = 2"
  "lm_MaxMemoryMB (EffectiveLimits (Some sample_quota) sample_tables 7) = 1024"
  "lm_MaxStorageMB (EffectiveLimits (Some sample_quota) sample_tables 7) = 2048"
  "resourceLimit (EffectiveLimits (Some sample_quota) sample_tables 7) ResourceApps = 2"
  by (simp_all add: sample_effective limitsFromPlan_def sample_plan_def zero_Plan_def resourceLimit_def)

lemma sample_app_step: "app_step (Some sample_quota) (Some (4096, 8)) sample_tables sample_used"
  by (rule app_create [OF sample_app_created [folded sample_used_def]])
    (simp_all add: sample_tables_def sample_use_def)

section \<open>Properties\<close>

text \<open>Where a limit comes from: for every workspace and every counted resource, the effective limit is the one
  the workspace's override sets, else the one of its own plan if that plan is active, else the one of the active
  default plan, else none (-1).\<close>

theorem limit_resolution:
  "resourceLimit (EffectiveLimits (Some s) db ws) r =
     (case Option.bind (override_of s db ws) (\<lambda>q. override_limit q r) of
        Some n \<Rightarrow> n
      | None \<Rightarrow>
          (case PlanForWorkspace db ws of
             Some p \<Rightarrow> if pl_IsActive p then plan_limit p r
                        else (case plan_FindDefault db of Some d \<Rightarrow> plan_limit d r | None \<Rightarrow> -1)
           | None \<Rightarrow> (case plan_FindDefault db of Some d \<Rightarrow> plan_limit d r | None \<Rightarrow> -1)))"
  by (auto simp: resourceLimit_Effective effectivePlan_def split: option.splits)

text \<open>C4: The compute budget of a plan is kept: whatever apps are created, updated, scaled and deleted, one change
  after the other, the CPU and memory limits of a workspace's apps, replicas counted, never add up to more than
  its plan allows. This needs enforcement without CPU overcommit, a readable sum, and a platform cap on a single
  app (\<open>modest_caps\<close>): without that cap the 64-bit sums can wrap.\<close>

theorem compute_budget_kept:
  assumes "(app_step (Some s) settings)\<^sup>*\<^sup>* db db'" and "modest_caps settings"
    and "budget_setting s db ws cores mb" and "within_budget cores mb db ws"
  shows "within_budget cores mb db' ws"
  using assms by (rule app_steps_budget)

theorem compute_budget_kept_witness:
  "within_budget 2 1024 sample_used 7 \<and> cpu_used sample_used 7 = 1000000000 \<and> memory_used sample_used 7 = 536870912"
proof -
  have "within_budget 2 1024 sample_used 7"
  proof (rule compute_budget_kept)
    show "(app_step (Some sample_quota) (Some (4096, 8)))\<^sup>*\<^sup>* sample_tables sample_used"
      using sample_app_step by blast
    show "modest_caps (Some (4096, 8))"
      by (simp add: modest_caps_def)
    show "budget_setting sample_quota sample_tables 7 2 1024"
      by (simp add: budget_setting_def sample_limits) (simp add: sample_quota_def sample_tables_def)
    show "within_budget 2 1024 sample_tables 7"
      by (simp add: within_budget_def cpu_used_def memory_used_def other_apps_def sample_tables_def)
  qed
  moreover have "cpu_used sample_used 7 = 1000000000 \<and> memory_used sample_used 7 = 536870912"
    by code_simp
  ultimately show ?thesis by simp
qed

text \<open>A counted limit is kept: where the plan limits the number of apps and the count can be read, no sequence
  of creates, updates, scalings and deletes takes a workspace past the limit.\<close>

theorem app_count_within_plan:
  assumes "(app_step (Some s) settings)\<^sup>*\<^sup>* db db'" and "qs_enforce s" and "RCountApps \<notin> set (qd_fails db)"
    and "resourceLimit (EffectiveLimits (Some s) db ws) ResourceApps = n" and "0 \<le> n"
    and "app_CountByWorkspace db ws \<le> n"
  shows "app_CountByWorkspace db' ws \<le> n"
  using apps.within_limit [OF app_steps_counted [OF assms(1-3)], of ws] assms(4-6)
  by (simp add: held_apps_def)

theorem app_count_within_plan_witness:
  "app_CountByWorkspace sample_used 7 \<le> 2 \<and> app_CountByWorkspace sample_used 7 = 1"
proof -
  have "app_CountByWorkspace sample_used 7 \<le> 2"
    by (rule app_count_within_plan [of sample_quota "Some (4096, 8)" sample_tables sample_used 7 2])
      (use sample_app_step in \<open>auto simp: sample_limits\<close>, simp_all add: sample_quota_def sample_tables_def
        app_CountByWorkspace_def)
  moreover have "app_CountByWorkspace sample_used 7 = 1"
    by code_simp
  ultimately show ?thesis by simp
qed


definition sample_stored :: QuotaDb where
  "sample_stored = sample_tables\<lparr>qd_volumes :=
     [\<lparr>vu_ID = 6, vu_WorkspaceID = 7, vu_SizeBytes = 1073741824, vu_UsedBytes = 0\<rparr>]\<rparr>"

lemma sample_volume_created: "volume_Create (Some sample_quota) sample_tables 6 7 1073741824 = Inr sample_stored"
  by code_simp


text \<open>The CPU check is exact without overcommit, although it is done in floating point: for any plan of up to
  nine million cores and any 64-bit sum of limits, it refuses exactly the sums above the plan's cores.\<close>

theorem cpu_check_exact:
  assumes "lm_CPUOvercommit l = Fin 1 0" and "0 \<le> cores" and "cores \<le> 9007199" and "in_int64 n"
  shows "checkCPU l cores n what = None \<longleftrightarrow> n \<le> cores * nanoPerCore"
  using assms by (rule checkCPU_exact_aux)

theorem cpu_check_exact_witness:
  "checkCPU (unlimited\<lparr>lm_CPUOvercommit := Fin 1 0\<rparr>) 3 3000000000 ''workspace'' = None
   \<and> checkCPU (unlimited\<lparr>lm_CPUOvercommit := Fin 1 0\<rparr>) 3 3000000001 ''workspace'' \<noteq> None"
  using cpu_check_exact [of "unlimited\<lparr>lm_CPUOvercommit := Fin 1 0\<rparr>" 3 3000000000 "''workspace''"]
    cpu_check_exact [of "unlimited\<lparr>lm_CPUOvercommit := Fin 1 0\<rparr>" 3 3000000001 "''workspace''"]
  by (simp add: in_int64_def)

text \<open>Who must drop root: with the server-wide mandate everyone, official templates included; otherwise exactly
  the workspaces whose override, or else whose plan, sets the restricted profile, while limits are enforced and
  the license covers profiles, except an official template the plan exempts.\<close>

theorem non_root_gate:
  "RequireNonRootUser (Some s) db ws officialTemplate \<longleftrightarrow>
     qs_forceNonRoot s \<or>
     qs_enforce s \<and> entitled s flagSecurityProfile
     \<and> (case Option.bind (override_of s db ws) wq_SecurityProfile of
          Some p \<Rightarrow> p = SecurityProfileRestricted
        | None \<Rightarrow> (case effectivePlan db ws of None \<Rightarrow> False
                   | Some p \<Rightarrow> pl_SecurityProfile p = SecurityProfileRestricted))
     \<and> \<not> (officialTemplate \<and>
          (case Option.bind (override_of s db ws) wq_AllowOfficialImageUser of
             Some b \<Rightarrow> b
           | None \<Rightarrow> (case effectivePlan db ws of None \<Rightarrow> True | Some p \<Rightarrow> pl_AllowOfficialImageUser p)))"
  by (cases "override_of s db ws"; cases "effectivePlan db ws")
    (auto simp: RequireNonRootUser_def RestrictedProfile_def AllowOfficialImageUser_def Enabled_def
      EffectiveLimits_def Let_def applyOverride_def limitsFromPlan_def unlimited_def set_to_def
      NormalizeSecurityProfile_def split: option.splits)

section \<open>What modelling showed\<close>

definition huge_app :: AppUse where
  "huge_app = sample_use\<lparr>au_Replicas := 4, au_MemoryBytes := 4611686018427387904\<rparr>"

text \<open>With the platform caps at their default 0, a memory limit of 2^62 bytes times four replicas wraps to zero and
  passes a plan of 1024 MB; from then on the sum cannot be read, and the next app passes whatever it asks for.\<close>

theorem wrapped_memory_escapes_plan:
  "\<exists>db. app_Create (Some sample_quota) (Some (0, 0)) sample_tables 4 huge_app = Inr db
     \<and> app_SumResourcesByWorkspace db 7 0 = None
     \<and> CheckComputeAdd (Some sample_quota) db 7 0 1099511627776 0 = None"
proof (intro exI conjI)
  show "app_Create (Some sample_quota) (Some (0, 0)) sample_tables 4 huge_app = Inr (put_app sample_tables huge_app)"
    by code_simp
  show "app_SumResourcesByWorkspace (put_app sample_tables huge_app) 7 0 = None"
    by code_simp
  show "CheckComputeAdd (Some sample_quota) (put_app sample_tables huge_app) 7 0 1099511627776 0 = None"
    by code_simp
qed

text \<open>An overcommit of NaN (which the environment variable accepts) refuses every app of a plan that caps CPU.\<close>

theorem nan_overcommit_refuses_all:
  "0 \<le> lm_MaxCPUCores l \<Longrightarrow> checkCPU (l\<lparr>lm_CPUOvercommit := NaN\<rparr>) (lm_MaxCPUCores l) n what \<noteq> None"
  by (cases "float_of_int (lm_MaxCPUCores l)"; cases "float_of_int n")
    (simp_all add: checkCPU_def CPUAllowance_def float_max_def float_less_def Let_def)

text \<open>The hold on a restricted workspace is meant to apply without plan enforcement too, but \<^verbatim>\<open>Create\<close> consults
  \<^verbatim>\<open>CheckCreate\<close> only when limits are enforced.\<close>

theorem hold_skipped_without_plans:
  "CheckCreate (Some (sample_quota\<lparr>qs_enforce := False, qs_restricted := Some (\<lambda>_. Some ''suspended'')\<rparr>))
     sample_tables 7 ResourceApps 0 = Some (RestrictedWorkspace ''suspended'')
   \<and> create_gate (Some (sample_quota\<lparr>qs_enforce := False, qs_restricted := Some (\<lambda>_. Some ''suspended'')\<rparr>))
     sample_tables 7 = None"
  by code_simp

end
