(* ===== verification/Workspace_Restriction.thy ===== *)
theory Workspace_Restriction
  imports Go_Prelude
begin

text \<open>
  Holds on a workspace: \<^verbatim>\<open>internal/services/restriction/restriction.go\<close> (the gate with its cache, setting, lifting,
  freezing and expiring a restriction), the workload loops of \<^verbatim>\<open>internal/services/account/account.go\<close> it uses, and
  the enforcement of billing levels in \<^verbatim>\<open>internal/services/billing/enforce.go\<close> and \<^verbatim>\<open>accounts.go\<close>.

  A world holds the workspace rows, the workloads with their status and the gate's cache. What lies outside (failing
  storage calls, the container engine) is the argument \<open>Outside\<close>. An app that is started comes back with the
  status the outside names, as a start can turn into a queued redeployment. Times are nanoseconds.
\<close>

section \<open>Workspaces, workloads and the gate's cache\<close>

abbreviation RestrictionNone :: string where "RestrictionNone \<equiv> []"
abbreviation RestrictionReadOnly :: string where "RestrictionReadOnly \<equiv> ''read_only''"
abbreviation RestrictionSuspended :: string where "RestrictionSuspended \<equiv> ''suspended''"
abbreviation RestrictionFrozen :: string where "RestrictionFrozen \<equiv> ''frozen''"

abbreviation StatusRunning :: string where "StatusRunning \<equiv> ''running''"
abbreviation StatusStopped :: string where "StatusStopped \<equiv> ''stopped''"

definition restriction_Valid :: "string \<Rightarrow> bool" where
  "restriction_Valid r \<longleftrightarrow> r = RestrictionReadOnly \<or> r = RestrictionSuspended"

text \<open>The apps and database instances a suspension stopped.\<close>

record FrozenResources =
  fr_Apps :: "nat list"
  fr_Databases :: "nat list"

record Workspace =
  ws_ID :: nat
  ws_System :: bool
  ws_Restriction :: string
  ws_RestrictionReason :: string
  ws_RestrictionUntil :: "int option"
  ws_RestrictedAt :: "int option"
  ws_RestrictedBy :: "nat option"
  ws_FrozenResources :: "FrozenResources option"
  ws_BillingAccountID :: "nat option"

record Workload =
  wl_ID :: nat
  wl_WorkspaceID :: nat
  wl_Status :: string

record cache_entry =
  ce_state :: string
  ce_reason :: string
  ce_billing :: bool
  ce_at :: int

text \<open>Times are nanoseconds. \<open>wd_changed\<close> records the calls of the change hook.\<close>

record World =
  wd_workspaces :: "Workspace list"
  wd_apps :: "Workload list"
  wd_dbs :: "Workload list"
  wd_cache :: "nat \<Rightarrow> cache_entry option"
  wd_changed :: "nat list"

datatype restriction_call = CFind | CSetState | CSetFrozen | CClearFrozen | CListDue

text \<open>
  What lies outside: which storage calls fail, which containers the engine stops, with which status an app comes
  back from a start (\<open>None\<close> where the start fails), whether the rows can be listed and whether starting is
  wired at all.
\<close>

record Outside =
  out_fails :: "restriction_call list"
  out_list_apps :: bool
  out_list_dbs :: bool
  out_stop_app :: "nat \<Rightarrow> bool"
  out_stop_db :: "nat \<Rightarrow> bool"
  out_startable :: bool
  out_start_app :: "nat \<Rightarrow> string option"
  out_start_db :: "nat \<Rightarrow> bool"

datatype restriction_error = ErrInvalidState | ErrUntilPast | ErrNotFound | ErrSystem | ErrFrozen
  | ErrRestricted | ErrStorage | ErrStartUnavailable

definition ws_FindByID :: "Outside \<Rightarrow> World \<Rightarrow> nat \<Rightarrow> Workspace option" where
  "ws_FindByID out w i =
     (if CFind \<in> set (out_fails out) then None else find (\<lambda>r. ws_ID r = i) (wd_workspaces w))"

definition set_row :: "World \<Rightarrow> nat \<Rightarrow> (Workspace \<Rightarrow> Workspace) \<Rightarrow> World" where
  "set_row w i f = w\<lparr>wd_workspaces := map (\<lambda>r. if ws_ID r = i then f r else r) (wd_workspaces w)\<rparr>"

section \<open>Stopping and starting a workspace's workloads\<close>

definition set_status :: "Workload list \<Rightarrow> nat \<Rightarrow> string \<Rightarrow> Workload list" where
  "set_status rows i st = map (\<lambda>r. if wl_ID r = i then r\<lparr>wl_Status := st\<rparr> else r) rows"

definition of_workspace :: "bool \<Rightarrow> Workload list \<Rightarrow> nat \<Rightarrow> Workload list" where
  "of_workspace listed rows ws = (if listed then filter (\<lambda>r. wl_WorkspaceID r = ws) rows else [])"

text \<open>The loop over the listed rows: the rows as they become, and the ids that were stopped.\<close>

fun stop_loop :: "(nat \<Rightarrow> bool) \<Rightarrow> Workload list \<Rightarrow> Workload list \<Rightarrow> Workload list \<times> nat list" where
  "stop_loop ok [] rows = (rows, [])"
| "stop_loop ok (x # xs) rows =
     (if wl_Status x \<noteq> StatusRunning then stop_loop ok xs rows
      else if \<not> ok (wl_ID x) then stop_loop ok xs rows
      else (let (rows', ids) = stop_loop ok xs (set_status rows (wl_ID x) StatusStopped)
            in (rows', wl_ID x # ids)))"

definition stopWorkspace :: "Outside \<Rightarrow> World \<Rightarrow> nat \<Rightarrow> bool \<Rightarrow> World \<times> FrozenResources" where
  "stopWorkspace out w ws databases =
     (let (apps, appIDs) = stop_loop (out_stop_app out) (of_workspace (out_list_apps out) (wd_apps w) ws) (wd_apps w)
      in if \<not> databases then (w\<lparr>wd_apps := apps\<rparr>, \<lparr>fr_Apps = appIDs, fr_Databases = []\<rparr>)
         else let (dbs, dbIDs) = stop_loop (out_stop_db out) (of_workspace (out_list_dbs out) (wd_dbs w) ws) (wd_dbs w)
              in (w\<lparr>wd_apps := apps, wd_dbs := dbs\<rparr>, \<lparr>fr_Apps = appIDs, fr_Databases = dbIDs\<rparr>))"

text \<open>\<open>wanted = None\<close> starts whatever is stopped. The count is that of the starts that failed.\<close>

fun start_loop :: "(nat \<Rightarrow> string option) \<Rightarrow> nat list option \<Rightarrow> Workload list \<Rightarrow> Workload list \<Rightarrow> Workload list \<times> nat" where
  "start_loop start wanted [] rows = (rows, 0)"
| "start_loop start wanted (x # xs) rows =
     (if wl_Status x \<noteq> StatusStopped \<or> (case wanted of None \<Rightarrow> False | Some ids \<Rightarrow> wl_ID x \<notin> set ids)
      then start_loop start wanted xs rows
      else (case start (wl_ID x) of
              None \<Rightarrow> (let (rows', n) = start_loop start wanted xs rows in (rows', Suc n))
            | Some st \<Rightarrow> start_loop start wanted xs (set_status rows (wl_ID x) st)))"

definition StartWorkspace :: "Outside \<Rightarrow> World \<Rightarrow> nat \<Rightarrow> FrozenResources option \<Rightarrow> World \<times> (restriction_error + nat)" where
  "StartWorkspace out w ws only =
     (if \<not> out_startable out then (w, Inl ErrStartUnavailable)
      else let (dbs, m) = start_loop (\<lambda>i. if out_start_db out i then Some StatusRunning else None)
                 (map_option fr_Databases only) (of_workspace (out_list_dbs out) (wd_dbs w) ws) (wd_dbs w);
               (apps, n) = start_loop (out_start_app out) (map_option fr_Apps only)
                 (of_workspace (out_list_apps out) (wd_apps w) ws) (wd_apps w)
           in (w\<lparr>wd_apps := apps, wd_dbs := dbs\<rparr>, Inr (m + n)))"

section \<open>The restriction service\<close>

datatype Action = ActionWrite | ActionDeploy | ActionRun

record refusal =
  rf_State :: string
  rf_Reason :: string
  rf_Billing :: bool

definition refusal_Code :: "refusal \<Rightarrow> string" where
  "refusal_Code e =
     (if rf_Billing e then ''BILLING_RESTRICTED''
      else if rf_State e = RestrictionSuspended then ''WORKSPACE_SUSPENDED''
      else if rf_State e = RestrictionFrozen then ''WORKSPACE_FROZEN''
      else ''WORKSPACE_READ_ONLY'')"

definition refusal_Error :: "refusal \<Rightarrow> string" where
  "refusal_Error e =
     (let why = (if rf_Reason e \<noteq> [] then '': '' @ rf_Reason e else []) in
      if rf_State e = RestrictionFrozen then ''this workspace is frozen for a migration'' @ why
      else ''this workspace is ''
        @ (if rf_State e = RestrictionSuspended then ''suspended'' else ''read-only'')
        @ (if rf_Billing e then '' because of its billing status'' else '' by the platform administrator'') @ why)"

abbreviation cacheTTL :: int where "cacheTTL \<equiv> 15000000000"

definition forget :: "World \<Rightarrow> nat \<Rightarrow> World" where
  "forget w i = w\<lparr>wd_cache := (wd_cache w)(i := None)\<rparr>"

definition notify :: "World \<Rightarrow> nat \<Rightarrow> World" where
  "notify w i = w\<lparr>wd_changed := i # wd_changed w\<rparr>"

text \<open>
  \<open>lookup\<close> is two steps, which other calls may separate: reading the row into a fresh entry stamped with the time
  the lookup began, and storing the entry. \<open>actor\<close> is the billing service user, where one is wired.
\<close>

definition read_entry :: "Outside \<Rightarrow> nat option \<Rightarrow> int \<Rightarrow> World \<Rightarrow> nat \<Rightarrow> cache_entry" where
  "read_entry out actor now w i =
     (case ws_FindByID out w i of
        None \<Rightarrow> \<lparr>ce_state = [], ce_reason = [], ce_billing = False, ce_at = now\<rparr>
      | Some r \<Rightarrow> \<lparr>ce_state = ws_Restriction r, ce_reason = ws_RestrictionReason r,
                   ce_billing = (case (ws_RestrictedBy r, actor) of (Some b, Some a) \<Rightarrow> a \<noteq> 0 \<and> b = a | _ \<Rightarrow> False),
                   ce_at = now\<rparr>)"

definition store_entry :: "World \<Rightarrow> nat \<Rightarrow> cache_entry \<Rightarrow> World" where
  "store_entry w i e = w\<lparr>wd_cache := (wd_cache w)(i := Some e)\<rparr>"

definition cached :: "int \<Rightarrow> World \<Rightarrow> nat \<Rightarrow> cache_entry option" where
  "cached now w i =
     (case wd_cache w i of None \<Rightarrow> None | Some e \<Rightarrow> if now - ce_at e < cacheTTL then Some e else None)"

definition lookup :: "Outside \<Rightarrow> nat option \<Rightarrow> int \<Rightarrow> World \<Rightarrow> nat \<Rightarrow> World \<times> cache_entry" where
  "lookup out actor now w i =
     (case cached now w i of
        Some e \<Rightarrow> (w, e)
      | None \<Rightarrow> let e = read_entry out actor now w i in (store_entry w i e, e))"

definition decide :: "cache_entry \<Rightarrow> Action \<Rightarrow> refusal option" where
  "decide e a =
     (let no = Some \<lparr>rf_State = ce_state e, rf_Reason = ce_reason e, rf_Billing = ce_billing e\<rparr> in
      if ce_state e = RestrictionReadOnly then (if a = ActionRun then None else no)
      else if ce_state e = RestrictionSuspended \<or> ce_state e = RestrictionFrozen then no
      else None)"

definition Allowed :: "Outside \<Rightarrow> nat option \<Rightarrow> int \<Rightarrow> World \<Rightarrow> nat \<Rightarrow> Action \<Rightarrow> World \<times> refusal option" where
  "Allowed out actor now w i a =
     (if i = 0 then (w, None) else let (w', e) = lookup out actor now w i in (w', decide e a))"

definition restart :: "Outside \<Rightarrow> World \<Rightarrow> Workspace \<Rightarrow> World \<times> restriction_error option" where
  "restart out w r =
     (let frozen = (case ws_FrozenResources r of None \<Rightarrow> \<lparr>fr_Apps = [], fr_Databases = []\<rparr> | Some f \<Rightarrow> f) in
      case StartWorkspace out w (ws_ID r) (Some frozen) of
        (w, Inl e) \<Rightarrow> (w, Some e)
      | (w, Inr failed) \<Rightarrow>
          if CClearFrozen \<in> set (out_fails out) then (w, Some ErrStorage)
          else (set_row w (ws_ID r) (\<lambda>r. r\<lparr>ws_FrozenResources := None\<rparr>), None))"

definition freeze_resources :: "Outside \<Rightarrow> World \<Rightarrow> nat \<Rightarrow> bool \<Rightarrow> World \<times> restriction_error option" where
  "freeze_resources out w i databases =
     (let (w, frozen) = stopWorkspace out w i databases in
      if CSetFrozen \<in> set (out_fails out) then (w, Some ErrStorage)
      else (set_row w i (\<lambda>r. r\<lparr>ws_FrozenResources := Some frozen\<rparr>), None))"

record SetInput =
  in_State :: string
  in_Reason :: string
  in_Until :: "int option"

text \<open>The result is the world and the error; the row an operation returns is the one it leaves.\<close>

definition Set_restriction ::
    "Outside \<Rightarrow> int \<Rightarrow> World \<Rightarrow> nat \<Rightarrow> nat \<Rightarrow> SetInput \<Rightarrow> World \<times> restriction_error option" where
  "Set_restriction out now w i actorID inp =
     (if \<not> restriction_Valid (in_State inp) then (w, Some ErrInvalidState)
      else if (case in_Until inp of None \<Rightarrow> False | Some u \<Rightarrow> u \<le> now) then (w, Some ErrUntilPast)
      else case ws_FindByID out w i of
        None \<Rightarrow> (w, Some ErrNotFound)
      | Some r \<Rightarrow>
          if ws_System r then (w, Some ErrSystem)
          else if ws_Restriction r = RestrictionFrozen then (w, Some ErrFrozen)
          else if CSetState \<in> set (out_fails out) then (w, Some ErrStorage)
          else
            let w = forget (set_row w i (\<lambda>r. r\<lparr>ws_Restriction := in_State inp,
                      ws_RestrictionReason := TrimSpace (in_Reason inp), ws_RestrictionUntil := in_Until inp,
                      ws_RestrictedAt := Some now, ws_RestrictedBy := Some actorID\<rparr>)) i;
                (w, err) =
                  (if in_State inp = RestrictionSuspended \<and> ws_Restriction r \<noteq> RestrictionSuspended
                   then freeze_resources out w i True
                   else if in_State inp = RestrictionReadOnly \<and> ws_Restriction r = RestrictionSuspended
                   then restart out w r
                   else (w, None))
            in (case err of Some e \<Rightarrow> (w, Some e) | None \<Rightarrow> (notify w i, None)))"

definition Lift :: "Outside \<Rightarrow> World \<Rightarrow> nat \<Rightarrow> World \<times> restriction_error option" where
  "Lift out w i =
     (case ws_FindByID out w i of
        None \<Rightarrow> (w, Some ErrNotFound)
      | Some r \<Rightarrow>
          if CSetState \<in> set (out_fails out) then (w, Some ErrStorage)
          else
            let w = forget (set_row w i (\<lambda>r. r\<lparr>ws_Restriction := RestrictionNone, ws_RestrictionReason := [],
                      ws_RestrictionUntil := None, ws_RestrictedAt := None, ws_RestrictedBy := None\<rparr>)) i;
                (w, err) =
                  (if ws_Restriction r = RestrictionSuspended \<or> ws_Restriction r = RestrictionFrozen
                   then restart out w r else (w, None))
            in (case err of Some e \<Rightarrow> (w, Some e) | None \<Rightarrow> (notify w i, None)))"

definition SetFrozenReason :: "Outside \<Rightarrow> World \<Rightarrow> nat \<Rightarrow> string \<Rightarrow> World \<times> restriction_error option" where
  "SetFrozenReason out w i reason =
     (if CSetState \<in> set (out_fails out) then (w, Some ErrStorage)
      else (forget (set_row w i (\<lambda>r. r\<lparr>ws_RestrictionReason := TrimSpace reason\<rparr>)) i, None))"

definition Freeze :: "Outside \<Rightarrow> int \<Rightarrow> World \<Rightarrow> nat \<Rightarrow> nat \<Rightarrow> string \<Rightarrow> World \<times> restriction_error option" where
  "Freeze out now w i actorID reason =
     (case ws_FindByID out w i of
        None \<Rightarrow> (w, Some ErrNotFound)
      | Some r \<Rightarrow>
          if ws_System r then (w, Some ErrSystem)
          else if ws_Restriction r = RestrictionFrozen then SetFrozenReason out w i reason
          else if ws_Restriction r \<noteq> RestrictionNone then (w, Some ErrRestricted)
          else if CSetState \<in> set (out_fails out) then (w, Some ErrStorage)
          else
            let w = forget (set_row w i (\<lambda>r. r\<lparr>ws_Restriction := RestrictionFrozen,
                      ws_RestrictionReason := TrimSpace reason, ws_RestrictionUntil := None,
                      ws_RestrictedAt := Some now, ws_RestrictedBy := Some actorID\<rparr>)) i
            in (case freeze_resources out w i False of
                  (w, Some e) \<Rightarrow> (w, Some e)
                | (w, None) \<Rightarrow> (notify w i, None)))"

definition Unfreeze :: "Outside \<Rightarrow> World \<Rightarrow> nat \<Rightarrow> World \<times> restriction_error option" where
  "Unfreeze out w i =
     (case ws_FindByID out w i of
        None \<Rightarrow> (w, Some ErrNotFound)
      | Some r \<Rightarrow> if ws_Restriction r \<noteq> RestrictionFrozen then (w, None) else Lift out w i)"

definition ListRestrictionsDue :: "int \<Rightarrow> World \<Rightarrow> Workspace list" where
  "ListRestrictionsDue now w =
     filter (\<lambda>r. ws_Restriction r \<noteq> RestrictionNone
               \<and> (case ws_RestrictionUntil r of None \<Rightarrow> False | Some u \<Rightarrow> u \<le> now)) (wd_workspaces w)"

fun lift_all :: "Outside \<Rightarrow> World \<Rightarrow> nat list \<Rightarrow> World \<times> (nat \<times> restriction_error) list" where
  "lift_all out w [] = (w, [])"
| "lift_all out w (i # is) =
     (let (w, err) = Lift out w i; (w, errs) = lift_all out w is
      in (w, (case err of None \<Rightarrow> errs | Some e \<Rightarrow> (i, e) # errs)))"

definition restriction_ExpireDue :: "Outside \<Rightarrow> int \<Rightarrow> World \<Rightarrow> World \<times> (nat \<times> restriction_error) list" where
  "restriction_ExpireDue out now w =
     (if CListDue \<in> set (out_fails out) then (w, [(0, ErrStorage)])
      else lift_all out w (map ws_ID (ListRestrictionsDue now w)))"

section \<open>Billing levels and their enforcement\<close>

abbreviation LevelNone :: string where "LevelNone \<equiv> ''none''"
abbreviation LevelWarning :: string where "LevelWarning \<equiv> ''warning''"
abbreviation LevelSoft :: string where "LevelSoft \<equiv> ''soft''"
abbreviation LevelHard :: string where "LevelHard \<equiv> ''hard''"
abbreviation AccountCanceled :: string where "AccountCanceled \<equiv> ''canceled''"

record BillingAccount =
  ba_ID :: nat
  ba_Status :: string
  ba_RestrictionLevel :: string
  ba_ForcedRestriction :: string
  ba_ForcedReason :: string
  ba_ForcedUntil :: "int option"
  ba_SubStatus :: string
  ba_GraceUntil :: "int option"

text \<open>A name that is not a level ranks 0, as in the source's map.\<close>

definition levelRank :: "string \<Rightarrow> nat" where
  "levelRank l = (if l = LevelWarning then 1 else if l = LevelSoft then 2 else if l = LevelHard then 3 else 0)"

definition DerivedLevel :: "string \<Rightarrow> int option \<Rightarrow> int \<Rightarrow> int \<Rightarrow> string" where
  "DerivedLevel status graceUntil now hardAfter =
     (if status \<in> {''past_due'', ''unpaid'', ''incomplete''} then
        (case graceUntil of
           None \<Rightarrow> LevelWarning
         | Some g \<Rightarrow> if now < g then LevelWarning
                     else if 0 < hardAfter \<and> g + hardAfter \<le> now then LevelHard
                     else LevelSoft)
      else if status = ''paused'' then LevelSoft
      else if status = ''canceled'' \<or> status = ''incomplete_expired'' then LevelHard
      else LevelNone)"

definition forced_active :: "BillingAccount \<Rightarrow> int \<Rightarrow> bool" where
  "forced_active a now \<longleftrightarrow> ba_ForcedRestriction a \<noteq> []
     \<and> (case ba_ForcedUntil a of None \<Rightarrow> True | Some u \<Rightarrow> now < u)"

definition EffectiveLevel :: "BillingAccount \<Rightarrow> int \<Rightarrow> int \<Rightarrow> string" where
  "EffectiveLevel a now hardAfter =
     (if ba_Status a = AccountCanceled then LevelHard
      else let level = DerivedLevel (ba_SubStatus a) (ba_GraceUntil a) now hardAfter in
        if forced_active a now \<and> levelRank level < levelRank (ba_ForcedRestriction a)
        then ba_ForcedRestriction a else level)"

definition workspaceState :: "string \<Rightarrow> string" where
  "workspaceState level =
     (if level = LevelSoft then RestrictionReadOnly
      else if level = LevelHard then RestrictionSuspended else RestrictionNone)"

definition restrictionReason :: "BillingAccount \<Rightarrow> int \<Rightarrow> string" where
  "restrictionReason a now =
     (if forced_active a now \<and> ba_RestrictionLevel a = ba_ForcedRestriction a
      then (if TrimSpace (ba_ForcedReason a) \<noteq> [] then TrimSpace (ba_ForcedReason a)
            else ''on hold by the billing provider'')
      else if ba_Status a = AccountCanceled then ''the subscription is canceled''
      else if ba_SubStatus a \<in> {''past_due'', ''unpaid'', ''incomplete''} then ''payment is overdue''
      else if ba_SubStatus a = ''paused'' then ''the subscription is paused''
      else if ba_SubStatus a = ''canceled'' then ''the subscription is canceled''
      else if ba_SubStatus a = ''incomplete_expired'' then ''the subscription expired before its first payment''
      else [])"

text \<open>One workspace of the loop, on the row as it was listed.\<close>

definition enforce_one :: "Outside \<Rightarrow> int \<Rightarrow> nat \<Rightarrow> BillingAccount \<Rightarrow> World \<Rightarrow> Workspace \<Rightarrow> World" where
  "enforce_one out now actor a w r =
     (let want = workspaceState (ba_RestrictionLevel a); reason = restrictionReason a now in
      if ws_System r then w
      else if ws_Restriction r \<noteq> RestrictionNone \<and> ws_RestrictedBy r \<noteq> Some actor then w
      else if want = RestrictionNone \<and> ws_Restriction r \<noteq> RestrictionNone then fst (Lift out w (ws_ID r))
      else if want \<noteq> RestrictionNone \<and> (ws_Restriction r \<noteq> want \<or> ws_RestrictionReason r \<noteq> reason)
      then fst (Set_restriction out now w (ws_ID r) actor \<lparr>in_State = want, in_Reason = reason, in_Until = None\<rparr>)
      else w)"

text \<open>An empty \<open>only\<close> means every workspace billed to the account.\<close>

definition enforce :: "Outside \<Rightarrow> int \<Rightarrow> nat \<Rightarrow> BillingAccount \<Rightarrow> nat list \<Rightarrow> World \<Rightarrow> World" where
  "enforce out now actor a only w =
     fold (\<lambda>r w. enforce_one out now actor a w r)
       (SliceStable (\<lambda>x y. ws_ID x < ws_ID y)
          (filter (\<lambda>r. ws_BillingAccountID r = Some (ba_ID a) \<and> (only = [] \<or> ws_ID r \<in> set only))
            (wd_workspaces w))) w"

definition updateLevel :: "int \<Rightarrow> int \<Rightarrow> BillingAccount \<Rightarrow> BillingAccount" where
  "updateLevel now hardAfter a = a\<lparr>ba_RestrictionLevel := EffectiveLevel a now hardAfter\<rparr>"

text \<open>\<open>None\<close> for a refused request.\<close>

definition SuspendAccount :: "int \<Rightarrow> int \<Rightarrow> string \<Rightarrow> string \<Rightarrow> int option \<Rightarrow> BillingAccount \<Rightarrow> BillingAccount option" where
  "SuspendAccount now hardAfter level reason until a =
     (if level \<noteq> LevelSoft \<and> level \<noteq> LevelHard \<or> (case until of None \<Rightarrow> False | Some u \<Rightarrow> u \<le> now) then None
      else Some (updateLevel now hardAfter (a\<lparr>ba_ForcedRestriction := level,
        ba_ForcedReason := TrimSpace reason, ba_ForcedUntil := map_option (\<lambda>u. u - u mod 1000000000) until\<rparr>)))"

definition ResumeAccount :: "int \<Rightarrow> int \<Rightarrow> BillingAccount \<Rightarrow> BillingAccount" where
  "ResumeAccount now hardAfter a =
     updateLevel now hardAfter (a\<lparr>ba_ForcedRestriction := [], ba_ForcedReason := [], ba_ForcedUntil := None\<rparr>)"

definition sweep_account :: "int \<Rightarrow> int \<Rightarrow> BillingAccount \<Rightarrow> BillingAccount" where
  "sweep_account now hardAfter a =
     updateLevel now hardAfter
       (if (case ba_ForcedUntil a of None \<Rightarrow> False | Some u \<Rightarrow> u \<le> now)
        then a\<lparr>ba_ForcedRestriction := [], ba_ForcedReason := [], ba_ForcedUntil := None\<rparr> else a)"

fun Sweep :: "Outside \<Rightarrow> int \<Rightarrow> int \<Rightarrow> nat \<Rightarrow> BillingAccount list \<Rightarrow> World \<Rightarrow> BillingAccount list \<times> World" where
  "Sweep out now hardAfter actor [] w = ([], w)"
| "Sweep out now hardAfter actor (a # as) w =
     (let a' = sweep_account now hardAfter a; (as', w') = Sweep out now hardAfter actor as (enforce out now actor a' [] w)
      in (a' # as', w'))"

section \<open>The loops in closed form\<close>

definition with_status :: "nat set \<Rightarrow> string \<Rightarrow> Workload list \<Rightarrow> Workload list" where
  "with_status ids st rows = map (\<lambda>r. if wl_ID r \<in> ids then r\<lparr>wl_Status := st\<rparr> else r) rows"

lemma set_status_with: "set_status rows i st = with_status {i} st rows"
  by (simp add: set_status_def with_status_def)

lemma with_status_twice: "with_status B st (with_status A st rows) = with_status (A \<union> B) st rows"
  by (simp add: with_status_def)

lemma with_status_empty [simp]: "with_status {} st rows = rows"
  by (simp add: with_status_def)

definition stopped_ids :: "(nat \<Rightarrow> bool) \<Rightarrow> Workload list \<Rightarrow> nat list" where
  "stopped_ids ok xs = map wl_ID (filter (\<lambda>x. wl_Status x = StatusRunning \<and> ok (wl_ID x)) xs)"

lemma stop_loop_eq:
  "stop_loop ok xs rows = (with_status (set (stopped_ids ok xs)) StatusStopped rows, stopped_ids ok xs)"
  by (induction xs arbitrary: rows)
    (auto simp: stopped_ids_def Let_def set_status_with with_status_twice)

text \<open>Starting with one status for every app that starts.\<close>

definition started_ids :: "(nat \<Rightarrow> bool) \<Rightarrow> nat list \<Rightarrow> Workload list \<Rightarrow> nat set" where
  "started_ids ok wanted xs = {wl_ID x | x. x \<in> set xs \<and> wl_Status x = StatusStopped \<and> wl_ID x \<in> set wanted \<and> ok (wl_ID x)}"

lemma start_loop_eq:
  "fst (start_loop (\<lambda>i. if ok i then Some st else None) (Some wanted) xs rows)
     = with_status (started_ids ok wanted xs) st rows"
proof (induction xs arbitrary: rows)
  case Nil
  then show ?case by (simp add: started_ids_def)
next
  case (Cons x xs)
  have "started_ids ok wanted (x # xs) =
      (if wl_Status x = StatusStopped \<and> wl_ID x \<in> set wanted \<and> ok (wl_ID x) then {wl_ID x} else {}) \<union> started_ids ok wanted xs"
    by (auto simp: started_ids_def)
  then show ?case
    by (auto simp: Cons set_status_with with_status_twice split: prod.splits)
      (metis Cons fst_conv)+
qed

text \<open>
  Stopping the running rows of a workspace and starting what was stopped gives back the table: ids are unique.
\<close>

lemma stop_start:
  fixes ws :: nat
  assumes "distinct (map wl_ID rows)"
  defines "ids \<equiv> stopped_ids (\<lambda>_. True) (of_workspace True rows ws)"
  defines "rows' \<equiv> with_status (set ids) StatusStopped rows"
  shows "with_status (started_ids (\<lambda>_. True) ids (of_workspace True rows' ws)) StatusRunning rows' = rows"
proof -
  have own: "wl_Status r = StatusRunning \<and> wl_WorkspaceID r = ws" if "r \<in> set rows" "wl_ID r \<in> set ids" for r
    using that assms(1) unfolding ids_def stopped_ids_def of_workspace_def
    by (auto simp: distinct_map dest: inj_onD)
  have st: "started_ids (\<lambda>_. True) ids (of_workspace True rows' ws) = set ids"
  proof
    show "started_ids (\<lambda>_. True) ids (of_workspace True rows' ws) \<subseteq> set ids"
      by (auto simp: started_ids_def)
    show "set ids \<subseteq> started_ids (\<lambda>_. True) ids (of_workspace True rows' ws)"
    proof
      fix i assume i: "i \<in> set ids"
      then obtain r where r: "r \<in> set rows" "wl_ID r = i" "wl_WorkspaceID r = ws"
        by (auto simp: ids_def stopped_ids_def of_workspace_def)
      then have "r\<lparr>wl_Status := StatusStopped\<rparr> \<in> set rows'"
        using i by (auto simp: rows'_def with_status_def image_iff intro!: bexI [of _ r])
      then show "i \<in> started_ids (\<lambda>_. True) ids (of_workspace True rows' ws)"
        using r i by (auto simp: started_ids_def of_workspace_def intro!: exI [of _ "r\<lparr>wl_Status := StatusStopped\<rparr>"])
    qed
  qed
  show ?thesis
    unfolding st unfolding rows'_def with_status_def using own
    by (auto simp: o_def intro!: map_idI)
qed

section \<open>A suspension and its end\<close>

definition world_ok :: "World \<Rightarrow> bool" where
  "world_ok w \<longleftrightarrow> distinct (map ws_ID (wd_workspaces w)) \<and> distinct (map wl_ID (wd_apps w))
     \<and> distinct (map wl_ID (wd_dbs w))"

text \<open>Nothing outside fails, and an app that starts is running.\<close>

definition all_works :: Outside where
  "all_works = \<lparr>out_fails = [], out_list_apps = True, out_list_dbs = True, out_stop_app = (\<lambda>_. True),
     out_stop_db = (\<lambda>_. True), out_startable = True, out_start_app = (\<lambda>_. Some StatusRunning), out_start_db = (\<lambda>_. True)\<rparr>"

lemma all_works_simps [simp]:
  "out_fails all_works = []" "out_list_apps all_works = True" "out_list_dbs all_works = True"
  "out_stop_app all_works = (\<lambda>_. True)" "out_stop_db all_works = (\<lambda>_. True)" "out_startable all_works = True"
  "out_start_app all_works = (\<lambda>_. Some StatusRunning)" "out_start_db all_works = (\<lambda>_. True)"
  by (simp_all add: all_works_def)

lemma find_row:
  assumes "distinct (map ws_ID rows)" and "r \<in> set rows"
  shows "find (\<lambda>x. ws_ID x = ws_ID r) rows = Some r"
  using assms by (induction rows) auto

lemma find_row_Some: "find (\<lambda>x. ws_ID x = i) rows = Some r \<Longrightarrow> r \<in> set rows \<and> ws_ID r = i"
  by (auto simp: find_Some_iff)

lemma find_set_row:
  assumes "\<And>r. ws_ID (f r) = ws_ID r"
  shows "find (\<lambda>x. ws_ID x = i) (map (\<lambda>r. if ws_ID r = j then f r else r) rows) =
    map_option (\<lambda>r. if i = j then f r else r) (find (\<lambda>x. ws_ID x = i) rows)"
  by (induction rows) (auto simp: assms)

lemma FindByID_set_row:
  assumes "\<And>r. ws_ID (f r) = ws_ID r"
  shows "ws_FindByID out (set_row w j f) i = map_option (\<lambda>r. if i = j then f r else r) (ws_FindByID out w i)"
  by (simp add: ws_FindByID_def set_row_def find_set_row assms)

lemma FindByID_simps [simp]:
  "ws_FindByID out (forget w j) i = ws_FindByID out w i" "ws_FindByID out (notify w j) i = ws_FindByID out w i"
  "ws_FindByID out (store_entry w j e) i = ws_FindByID out w i"
  "ws_FindByID out (w\<lparr>wd_apps := as\<rparr>) i = ws_FindByID out w i" "ws_FindByID out (w\<lparr>wd_dbs := ds\<rparr>) i = ws_FindByID out w i"
  by (simp_all add: ws_FindByID_def forget_def notify_def store_entry_def)

lemma world_parts [simp]:
  "wd_apps (set_row w i f) = wd_apps w" "wd_dbs (set_row w i f) = wd_dbs w" "wd_cache (set_row w i f) = wd_cache w"
  "wd_apps (forget w i) = wd_apps w" "wd_dbs (forget w i) = wd_dbs w" "wd_workspaces (forget w i) = wd_workspaces w"
  "wd_apps (notify w i) = wd_apps w" "wd_dbs (notify w i) = wd_dbs w" "wd_workspaces (notify w i) = wd_workspaces w"
  "wd_cache (forget w i) = (wd_cache w)(i := None)" "wd_cache (notify w i) = wd_cache w"
  by (simp_all add: set_row_def forget_def notify_def)

lemma stopWorkspace_all:
  "stopWorkspace all_works w i True =
     (w\<lparr>wd_apps := with_status (set (stopped_ids (\<lambda>_. True) (of_workspace True (wd_apps w) i))) StatusStopped (wd_apps w),
        wd_dbs := with_status (set (stopped_ids (\<lambda>_. True) (of_workspace True (wd_dbs w) i))) StatusStopped (wd_dbs w)\<rparr>,
      \<lparr>fr_Apps = stopped_ids (\<lambda>_. True) (of_workspace True (wd_apps w) i),
       fr_Databases = stopped_ids (\<lambda>_. True) (of_workspace True (wd_dbs w) i)\<rparr>)"
  by (simp add: stopWorkspace_def stop_loop_eq)

lemma StartWorkspace_all:
  "\<exists>n. StartWorkspace all_works w i (Some f) =
     (w\<lparr>wd_apps := with_status (started_ids (\<lambda>_. True) (fr_Apps f) (of_workspace True (wd_apps w) i)) StatusRunning (wd_apps w),
        wd_dbs := with_status (started_ids (\<lambda>_. True) (fr_Databases f) (of_workspace True (wd_dbs w) i)) StatusRunning (wd_dbs w)\<rparr>,
      Inr n)"
  using start_loop_eq [of "\<lambda>_. True" StatusRunning "fr_Apps f" "of_workspace True (wd_apps w) i" "wd_apps w"]
    start_loop_eq [of "\<lambda>_. True" StatusRunning "fr_Databases f" "of_workspace True (wd_dbs w) i" "wd_dbs w"]
  by (auto simp: StartWorkspace_def split: prod.splits)

lemma stopped_none_running:
  assumes "distinct (map wl_ID rows)"
    and "x \<in> set (with_status (set (stopped_ids (\<lambda>_. True) (of_workspace True rows ws))) StatusStopped rows)"
    and "wl_WorkspaceID x = ws"
  shows "wl_Status x \<noteq> StatusRunning"
  using assms(2,3) by (auto simp: with_status_def stopped_ids_def of_workspace_def split: if_splits)

lemma Allowed_uncached:
  assumes "wd_cache w i = None" and "i \<noteq> 0" and "ws_FindByID out w i = Some r"
  shows "snd (Allowed out actor now w i a) = None \<longleftrightarrow>
     ws_Restriction r \<notin> {RestrictionReadOnly, RestrictionSuspended, RestrictionFrozen}
     \<or> ws_Restriction r = RestrictionReadOnly \<and> a = ActionRun"
  using assms by (auto simp: Allowed_def lookup_def cached_def read_entry_def decide_def Let_def)

lemma suspend_Inr:
  assumes ok: "world_ok w" and r: "r \<in> set (wd_workspaces w)" "\<not> ws_System r" "ws_Restriction r = RestrictionNone"
  shows "\<exists>w1. Set_restriction all_works now w (ws_ID r) actor \<lparr>in_State = RestrictionSuspended, in_Reason = reason, in_Until = None\<rparr> = (w1, None)
    \<and> wd_apps w1 = with_status (set (stopped_ids (\<lambda>_. True) (of_workspace True (wd_apps w) (ws_ID r)))) StatusStopped (wd_apps w)
    \<and> wd_dbs w1 = with_status (set (stopped_ids (\<lambda>_. True) (of_workspace True (wd_dbs w) (ws_ID r)))) StatusStopped (wd_dbs w)
    \<and> wd_cache w1 (ws_ID r) = None
    \<and> ws_FindByID all_works w1 (ws_ID r) = Some (r\<lparr>ws_Restriction := RestrictionSuspended,
        ws_RestrictionReason := TrimSpace reason, ws_RestrictionUntil := None, ws_RestrictedAt := Some now,
        ws_RestrictedBy := Some actor,
        ws_FrozenResources := Some \<lparr>fr_Apps = stopped_ids (\<lambda>_. True) (of_workspace True (wd_apps w) (ws_ID r)),
          fr_Databases = stopped_ids (\<lambda>_. True) (of_workspace True (wd_dbs w) (ws_ID r))\<rparr>\<rparr>)"
proof -
  have f: "ws_FindByID all_works w (ws_ID r) = Some r"
    using ok r(1) by (simp add: ws_FindByID_def world_ok_def find_row)
  show ?thesis
    by (auto simp: Set_restriction_def restriction_Valid_def f r freeze_resources_def stopWorkspace_all
        Let_def FindByID_set_row)
qed

lemma lift_suspended:
  assumes f: "ws_FindByID all_works w i = Some r" and r: "ws_Restriction r = RestrictionSuspended" "ws_ID r = i"
    "ws_FrozenResources r = Some fr"
  shows "\<exists>w1. Lift all_works w i = (w1, None)
    \<and> wd_apps w1 = with_status (started_ids (\<lambda>_. True) (fr_Apps fr) (of_workspace True (wd_apps w) i)) StatusRunning (wd_apps w)
    \<and> wd_dbs w1 = with_status (started_ids (\<lambda>_. True) (fr_Databases fr) (of_workspace True (wd_dbs w) i)) StatusRunning (wd_dbs w)
    \<and> wd_cache w1 i = None
    \<and> ws_FindByID all_works w1 i = Some (r\<lparr>ws_Restriction := RestrictionNone, ws_RestrictionReason := [],
        ws_RestrictionUntil := None, ws_RestrictedAt := None, ws_RestrictedBy := None, ws_FrozenResources := None\<rparr>)"
proof -
  let ?w = "forget (set_row w i (\<lambda>r. r\<lparr>ws_Restriction := RestrictionNone, ws_RestrictionReason := [],
      ws_RestrictionUntil := None, ws_RestrictedAt := None, ws_RestrictedBy := None\<rparr>)) i"
  obtain n where "StartWorkspace all_works ?w i (Some fr) =
      (?w\<lparr>wd_apps := with_status (started_ids (\<lambda>_. True) (fr_Apps fr) (of_workspace True (wd_apps ?w) i)) StatusRunning (wd_apps ?w),
        wd_dbs := with_status (started_ids (\<lambda>_. True) (fr_Databases fr) (of_workspace True (wd_dbs ?w) i)) StatusRunning (wd_dbs ?w)\<rparr>,
      Inr n)"
    using StartWorkspace_all by blast
  then show ?thesis
    by (simp add: Lift_def f r restart_def Let_def FindByID_set_row)
qed

section \<open>Enforcement settles, and touches only what is its own\<close>

definition same_identity :: "Workspace \<Rightarrow> Workspace \<Rightarrow> bool" where
  "same_identity r r' \<longleftrightarrow> ws_ID r' = ws_ID r \<and> ws_System r' = ws_System r
     \<and> ws_BillingAccountID r' = ws_BillingAccountID r"

definition only_rows :: "nat set \<Rightarrow> World \<Rightarrow> World \<Rightarrow> bool" where
  "only_rows I w w' \<longleftrightarrow> (\<exists>g. (\<forall>r. same_identity r (g r))
     \<and> wd_workspaces w' = map (\<lambda>r. if ws_ID r \<in> I then g r else r) (wd_workspaces w))"

lemma only_rows_same: "wd_workspaces w' = wd_workspaces w \<Longrightarrow> only_rows I w w'"
  by (auto simp: only_rows_def same_identity_def intro!: exI [of _ "\<lambda>r. r"])

lemma only_rows_trans:
  assumes "only_rows I w w'" and "only_rows J w' w''"
  shows "only_rows (I \<union> J) w w''"
proof -
  obtain g h where g: "\<And>r. same_identity r (g r)" "wd_workspaces w' = map (\<lambda>r. if ws_ID r \<in> I then g r else r) (wd_workspaces w)"
    and h: "\<And>r. same_identity r (h r)" "wd_workspaces w'' = map (\<lambda>r. if ws_ID r \<in> J then h r else r) (wd_workspaces w')"
    using assms unfolding only_rows_def by blast
  define k where "k r = (let r' = (if ws_ID r \<in> I then g r else r) in if ws_ID r \<in> J then h r' else r')" for r
  have "same_identity r (k r)" for r
    using g(1) [of r] h(1) [of r] h(1) [of "g r"] by (auto simp: k_def same_identity_def Let_def)
  moreover have "ws_ID (g r) = ws_ID r" for r
    using g(1) by (simp add: same_identity_def)
  then have "wd_workspaces w'' = map (\<lambda>r. if ws_ID r \<in> I \<union> J then k r else r) (wd_workspaces w)"
    by (auto simp: g(2) h(2) k_def Let_def)
  ultimately show ?thesis
    unfolding only_rows_def by blast
qed

lemma only_rows_set_row:
  assumes "\<And>r. same_identity r (f r)"
  shows "only_rows {i} w (set_row w i f)"
  using assms by (auto simp: only_rows_def set_row_def intro!: exI [of _ f])

lemma only_row_trans: "only_rows {i} w w' \<Longrightarrow> only_rows {i} w' w'' \<Longrightarrow> only_rows {i} w w''"
  using only_rows_trans [of "{i}" w w' "{i}" w''] by simp

lemma stopWorkspace_rows: "wd_workspaces (fst (stopWorkspace out w i b)) = wd_workspaces w"
  by (simp add: stopWorkspace_def stop_loop_eq Let_def)

lemma StartWorkspace_rows: "wd_workspaces (fst (StartWorkspace out w i f)) = wd_workspaces w"
  by (simp add: StartWorkspace_def split: prod.splits)

lemma freeze_only_row: "only_rows {i} w (fst (freeze_resources out w i b))"
proof -
  have "only_rows {i} w (fst (stopWorkspace out w i b))"
    by (intro only_rows_same stopWorkspace_rows)
  moreover have "only_rows {i} (fst (stopWorkspace out w i b))
      (set_row (fst (stopWorkspace out w i b)) i (\<lambda>r. r\<lparr>ws_FrozenResources := Some fr\<rparr>))" for fr
    by (intro only_rows_set_row) (simp add: same_identity_def)
  ultimately show ?thesis
    using only_row_trans by (auto simp: freeze_resources_def split: prod.splits)
qed

lemma restart_only_row: "only_rows {ws_ID r} w (fst (restart out w r))"
proof -
  define w' where "w' = fst (StartWorkspace out w (ws_ID r)
    (Some (case ws_FrozenResources r of None \<Rightarrow> \<lparr>fr_Apps = [], fr_Databases = []\<rparr> | Some f \<Rightarrow> f)))"
  have 1: "only_rows {ws_ID r} w w'"
    unfolding w'_def by (intro only_rows_same StartWorkspace_rows)
  have 2: "only_rows {ws_ID r} w' (set_row w' (ws_ID r) (\<lambda>r. r\<lparr>ws_FrozenResources := None\<rparr>))"
    by (intro only_rows_set_row) (simp add: same_identity_def)
  have "fst (restart out w r) \<in> {w', set_row w' (ws_ID r) (\<lambda>r. r\<lparr>ws_FrozenResources := None\<rparr>)}"
    unfolding restart_def w'_def Let_def by (auto split: prod.splits sum.splits)
  with 1 only_row_trans [OF 1 2] show ?thesis by auto
qed

lemma only_row_forget_notify:
  "only_rows I w (forget w' i) = only_rows I w w'" "only_rows I w (notify w' i) = only_rows I w w'"
  by (simp_all add: only_rows_def)

lemma Set_only_row: "only_rows {i} w (fst (Set_restriction out now w i actor inp))"
proof (cases "ws_FindByID out w i")
  case None
  then show ?thesis by (simp add: Set_restriction_def only_rows_same)
next
  case (Some r)
  then have id: "ws_ID r = i"
    by (auto simp: ws_FindByID_def dest: find_row_Some split: if_splits)
  let ?w = "forget (set_row w i (\<lambda>r. r\<lparr>ws_Restriction := in_State inp,
      ws_RestrictionReason := TrimSpace (in_Reason inp), ws_RestrictionUntil := in_Until inp,
      ws_RestrictedAt := Some now, ws_RestrictedBy := Some actor\<rparr>)) i"
  have 1: "only_rows {i} w ?w"
    unfolding only_row_forget_notify by (intro only_rows_set_row) (simp add: same_identity_def)
  have 2: "only_rows {i} w (fst (freeze_resources out ?w i True))" "only_rows {i} w (fst (restart out ?w r))"
    using 1 freeze_only_row restart_only_row [of r ?w out] id by (auto intro: only_row_trans)
  show ?thesis
    using 1 2 by (auto simp: Set_restriction_def Some Let_def only_rows_same only_row_forget_notify
        split: prod.splits option.splits)
qed

lemma Lift_only_row: "only_rows {i} w (fst (Lift out w i))"
proof (cases "ws_FindByID out w i")
  case None
  then show ?thesis by (simp add: Lift_def only_rows_same)
next
  case (Some r)
  then have id: "ws_ID r = i"
    by (auto simp: ws_FindByID_def dest: find_row_Some split: if_splits)
  let ?w = "forget (set_row w i (\<lambda>r. r\<lparr>ws_Restriction := RestrictionNone, ws_RestrictionReason := [],
      ws_RestrictionUntil := None, ws_RestrictedAt := None, ws_RestrictedBy := None\<rparr>)) i"
  have 1: "only_rows {i} w ?w"
    unfolding only_row_forget_notify by (intro only_rows_set_row) (simp add: same_identity_def)
  have "only_rows {i} w (fst (restart out ?w r))"
    using 1 restart_only_row [of r ?w out] id by (auto intro: only_row_trans)
  with 1 show ?thesis
    by (auto simp: Lift_def Some Let_def only_rows_same only_row_forget_notify split: prod.splits option.splits)
qed

lemma enforce_one_only_row: "only_rows {ws_ID r} w (enforce_one out now actor a w r)"
  using Set_only_row [of "ws_ID r" w] Lift_only_row [of "ws_ID r" w]
  by (simp add: enforce_one_def Let_def only_rows_same)

text \<open>What a row says after the state was written, whatever becomes of the workloads.\<close>

definition row_state :: "World \<Rightarrow> nat \<Rightarrow> (string \<times> string \<times> nat option) option" where
  "row_state w i = map_option (\<lambda>r. (ws_Restriction r, ws_RestrictionReason r, ws_RestrictedBy r))
     (find (\<lambda>r. ws_ID r = i) (wd_workspaces w))"

lemma row_state_parts [simp]:
  "row_state (forget w j) i = row_state w i" "row_state (notify w j) i = row_state w i"
  by (simp_all add: row_state_def)

lemma row_state_same: "wd_workspaces w' = wd_workspaces w \<Longrightarrow> row_state w' i = row_state w i"
  by (simp add: row_state_def)

lemma row_state_frozen: "row_state (set_row w j (\<lambda>r. r\<lparr>ws_FrozenResources := f\<rparr>)) i = row_state w i"
  by (simp add: row_state_def set_row_def find_set_row option.map_comp o_def if_distrib cong: if_cong)

lemma row_state_freeze: "row_state (fst (freeze_resources out w i b)) j = row_state w j"
  using row_state_same [OF stopWorkspace_rows [of out w i b]]
  by (auto simp: freeze_resources_def row_state_frozen split: prod.splits)

lemma row_state_restart: "row_state (fst (restart out w r)) j = row_state w j"
proof -
  define w' where "w' = fst (StartWorkspace out w (ws_ID r)
    (Some (case ws_FrozenResources r of None \<Rightarrow> \<lparr>fr_Apps = [], fr_Databases = []\<rparr> | Some f \<Rightarrow> f)))"
  have "row_state w' j = row_state w j"
    unfolding w'_def by (intro row_state_same StartWorkspace_rows)
  moreover have "fst (restart out w r) \<in> {w', set_row w' (ws_ID r) (\<lambda>r. r\<lparr>ws_FrozenResources := None\<rparr>)}"
    unfolding restart_def w'_def Let_def by (auto split: prod.splits sum.splits)
  ultimately show ?thesis by (auto simp: row_state_frozen)
qed

lemma Set_row_state:
  assumes "restriction_Valid (in_State inp)" and "in_Until inp = None"
    and "ws_FindByID out w i = Some r" and "\<not> ws_System r" and "ws_Restriction r \<noteq> RestrictionFrozen"
    and "CSetState \<notin> set (out_fails out)"
  shows "row_state (fst (Set_restriction out now w i actor inp)) i = Some (in_State inp, TrimSpace (in_Reason inp), Some actor)"
proof -
  let ?w = "forget (set_row w i (\<lambda>r. r\<lparr>ws_Restriction := in_State inp,
      ws_RestrictionReason := TrimSpace (in_Reason inp), ws_RestrictionUntil := in_Until inp,
      ws_RestrictedAt := Some now, ws_RestrictedBy := Some actor\<rparr>)) i"
  have "find (\<lambda>r. ws_ID r = i) (wd_workspaces w) = Some r"
    using assms(3) by (simp add: ws_FindByID_def split: if_splits)
  then have "row_state ?w i = Some (in_State inp, TrimSpace (in_Reason inp), Some actor)"
    by (simp add: row_state_def set_row_def find_set_row)
  then show ?thesis
    using assms row_state_freeze [of out ?w i True i] row_state_restart [of out ?w r i]
    by (auto simp: Set_restriction_def Let_def split: prod.splits option.splits)
qed

lemma Lift_row_state:
  assumes "ws_FindByID out w i = Some r" and "CSetState \<notin> set (out_fails out)"
  shows "row_state (fst (Lift out w i)) i = Some (RestrictionNone, [], None)"
proof -
  let ?w = "forget (set_row w i (\<lambda>r. r\<lparr>ws_Restriction := RestrictionNone, ws_RestrictionReason := [],
      ws_RestrictionUntil := None, ws_RestrictedAt := None, ws_RestrictedBy := None\<rparr>)) i"
  have "find (\<lambda>r. ws_ID r = i) (wd_workspaces w) = Some r"
    using assms(1) by (simp add: ws_FindByID_def split: if_splits)
  then have "row_state ?w i = Some (RestrictionNone, [], None)"
    by (simp add: row_state_def set_row_def find_set_row)
  then show ?thesis
    using assms row_state_restart [of out ?w r i]
    by (auto simp: Lift_def Let_def split: prod.splits option.splits)
qed

definition settled :: "Outside \<Rightarrow> int \<Rightarrow> nat \<Rightarrow> BillingAccount \<Rightarrow> Workspace \<Rightarrow> bool" where
  "settled out now actor a r \<longleftrightarrow>
     (\<forall>w. ws_FindByID out w (ws_ID r) \<in> {None, Some r} \<longrightarrow> enforce_one out now actor a w r = w)"

lemma TrimSpace_reason: "TrimSpace (restrictionReason a now) = restrictionReason a now"
  by (simp add: restrictionReason_def TrimSpace_idem) code_simp

lemma workspaceState_valid: "workspaceState l \<noteq> RestrictionNone \<Longrightarrow> restriction_Valid (workspaceState l)"
  by (simp add: workspaceState_def restriction_Valid_def split: if_splits)

lemma settled_by_state:
  assumes "workspaceState (ba_RestrictionLevel a) = RestrictionNone \<and> ws_Restriction r = RestrictionNone
    \<or> ws_Restriction r = workspaceState (ba_RestrictionLevel a) \<and> ws_RestrictionReason r = restrictionReason a now"
  shows "settled out now actor a r"
  using assms by (auto simp: settled_def enforce_one_def Let_def)

lemma row_state_member:
  assumes "distinct (map ws_ID (wd_workspaces w))" and "r \<in> set (wd_workspaces w)"
  shows "row_state w (ws_ID r) = Some (ws_Restriction r, ws_RestrictionReason r, ws_RestrictedBy r)"
  using find_row [OF assms] by (simp add: row_state_def)

lemma only_rows_ids:
  assumes "only_rows I w w'"
  shows "map ws_ID (wd_workspaces w') = map ws_ID (wd_workspaces w)"
  using assms by (auto simp: only_rows_def same_identity_def)

lemma enforce_one_settles:
  assumes dist: "distinct (map ws_ID (wd_workspaces w))" and r: "r \<in> set (wd_workspaces w)"
    and r': "r' \<in> set (wd_workspaces (enforce_one out now actor a w r))" "ws_ID r' = ws_ID r"
  shows "settled out now actor a r'"
proof -
  let ?w = "enforce_one out now actor a w r" and ?want = "workspaceState (ba_RestrictionLevel a)"
  note keep = enforce_one_only_row [of r w out now actor a]
  have dist': "distinct (map ws_ID (wd_workspaces ?w))"
    using dist only_rows_ids [OF keep] by simp
  have find: "ws_FindByID out w (ws_ID r) = (if CFind \<in> set (out_fails out) then None else Some r)"
    using find_row [OF dist r] by (simp add: ws_FindByID_def)
  have same: "settled out now actor a r'" if "?w = w" "\<And>w. ws_FindByID out w (ws_ID r) \<in> {None, Some r} \<Longrightarrow> enforce_one out now actor a w r = w"
  proof -
    have "r' = r"
      using find_row [OF dist r] find_row [OF dist, of r'] that(1) r' by simp
    with that(2) show ?thesis by (simp add: settled_def)
  qed
  have now_state: "settled out now actor a r'"
    if "row_state ?w (ws_ID r) = Some (st, reason, by)"
      "?want = RestrictionNone \<and> st = RestrictionNone \<or> st = ?want \<and> reason = restrictionReason a now" for st reason "by"
    using row_state_member [OF dist' r'(1)] that r'(2) by (intro settled_by_state) auto
  have "(\<forall>w. enforce_one out now actor a w r = w)
    \<or> (\<forall>w. enforce_one out now actor a w r = fst (Lift out w (ws_ID r))) \<and> ?want = RestrictionNone
    \<or> (\<forall>w. enforce_one out now actor a w r = fst (Set_restriction out now w (ws_ID r) actor
          \<lparr>in_State = ?want, in_Reason = restrictionReason a now, in_Until = None\<rparr>))
        \<and> ?want \<noteq> RestrictionNone \<and> \<not> ws_System r"
    unfolding enforce_one_def Let_def
    by (cases "ws_System r"; cases "ws_Restriction r = RestrictionNone"; cases "ws_RestrictedBy r = Some actor";
        cases "?want = RestrictionNone"; cases "ws_Restriction r = ?want \<and> ws_RestrictionReason r = restrictionReason a now")
      simp_all
  then consider (skip) "\<And>w. enforce_one out now actor a w r = w"
    | (lift) "\<And>w. enforce_one out now actor a w r = fst (Lift out w (ws_ID r))" "?want = RestrictionNone"
    | (hold) "\<And>w. enforce_one out now actor a w r = fst (Set_restriction out now w (ws_ID r) actor
        \<lparr>in_State = ?want, in_Reason = restrictionReason a now, in_Until = None\<rparr>)" "?want \<noteq> RestrictionNone"
        "\<not> ws_System r"
    by blast
  then show ?thesis
  proof cases
    case skip
    then show ?thesis by (intro same) auto
  next
    case lift
    show ?thesis
    proof (cases "CFind \<in> set (out_fails out) \<or> CSetState \<in> set (out_fails out)")
      case True
      then have "enforce_one out now actor a v r = v" if "ws_FindByID out v (ws_ID r) \<in> {None, Some r}" for v
        using that by (auto simp: lift Lift_def ws_FindByID_def split: option.splits)
      then show ?thesis using find by (intro same) auto
    next
      case False
      then show ?thesis
        using Lift_row_state [of out w "ws_ID r" r] find lift by (intro now_state) auto
    qed
  next
    case hold
    show ?thesis
    proof (cases "CFind \<in> set (out_fails out) \<or> CSetState \<in> set (out_fails out) \<or> ws_Restriction r = RestrictionFrozen")
      case True
      then have "enforce_one out now actor a v r = v" if "ws_FindByID out v (ws_ID r) \<in> {None, Some r}" for v
        using that hold(2,3) workspaceState_valid
        by (auto simp: hold(1) Set_restriction_def ws_FindByID_def split: option.splits)
      then show ?thesis using find by (intro same) auto
    next
      case False
      then show ?thesis
        using Set_row_state [of "\<lparr>in_State = ?want, in_Reason = restrictionReason a now, in_Until = None\<rparr>" out w "ws_ID r" r now actor]
          find hold workspaceState_valid by (intro now_state) (auto simp: TrimSpace_reason)
    qed
  qed
qed

lemma only_rows_member:
  assumes "only_rows I w w'" and "r \<in> set (wd_workspaces w)" and "ws_ID r \<notin> I"
  shows "r \<in> set (wd_workspaces w')"
  using assms by (force simp: only_rows_def image_iff)

lemma only_rows_back:
  assumes "only_rows I w w'" and "r' \<in> set (wd_workspaces w')"
  obtains r where "r \<in> set (wd_workspaces w)" "same_identity r r'" "ws_ID r' \<notin> I \<Longrightarrow> r' = r"
proof -
  obtain g where g: "\<And>r. same_identity r (g r)" "wd_workspaces w' = map (\<lambda>r. if ws_ID r \<in> I then g r else r) (wd_workspaces w)"
    using assms(1) unfolding only_rows_def by blast
  then obtain r where r: "r \<in> set (wd_workspaces w)" "r' = (if ws_ID r \<in> I then g r else r)"
    using assms(2) by auto
  then have "same_identity r r'"
    using g(1) by (auto simp: same_identity_def)
  with r show ?thesis
    by (intro that [of r]) (auto simp: same_identity_def split: if_splits)
qed

lemma fold_enforce:
  assumes "distinct (map ws_ID (wd_workspaces w))" and "distinct (map ws_ID rs)" and "set rs \<subseteq> set (wd_workspaces w)"
  shows "only_rows (ws_ID ` set rs) w (fold (\<lambda>r w. enforce_one out now actor a w r) rs w)
    \<and> (\<forall>r\<in>set (wd_workspaces (fold (\<lambda>r w. enforce_one out now actor a w r) rs w)). ws_ID r \<in> ws_ID ` set rs \<longrightarrow> settled out now actor a r)"
  using assms
proof (induction rs arbitrary: w)
  case Nil
  then show ?case by (simp add: only_rows_same)
next
  case (Cons r rs)
  let ?v = "enforce_one out now actor a w r" and ?w' = "fold (\<lambda>r w. enforce_one out now actor a w r) (r # rs) w"
  have one: "only_rows {ws_ID r} w ?v"
    by (rule enforce_one_only_row)
  have dv: "distinct (map ws_ID (wd_workspaces ?v))"
    using Cons.prems(1) only_rows_ids [OF one] by simp
  have sub: "set rs \<subseteq> set (wd_workspaces ?v)"
  proof
    fix x assume x: "x \<in> set rs"
    then have "x \<in> set (wd_workspaces w)" "ws_ID x \<notin> {ws_ID r}"
      using Cons.prems(2,3) by (auto simp: image_iff)
    then show "x \<in> set (wd_workspaces ?v)"
      by (rule only_rows_member [OF one])
  qed
  have IH: "only_rows (ws_ID ` set rs) ?v ?w'"
    "\<And>q. q \<in> set (wd_workspaces ?w') \<Longrightarrow> ws_ID q \<in> ws_ID ` set rs \<Longrightarrow> settled out now actor a q"
    using Cons.IH [OF dv _ sub] Cons.prems(2) by simp_all
  have "settled out now actor a q" if q: "q \<in> set (wd_workspaces ?w')" "ws_ID q = ws_ID r" for q
  proof -
    have "ws_ID q \<notin> ws_ID ` set rs"
      using Cons.prems(2) q(2) by simp
    then have "q \<in> set (wd_workspaces ?v)"
      using only_rows_back [OF IH(1) q(1)] by metis
    then show ?thesis
      using Cons.prems(3) q(2) by (intro enforce_one_settles [OF Cons.prems(1), of r]) simp_all
  qed
  with IH only_rows_trans [OF one IH(1)] show ?case
    by auto
qed

lemma fold_settled:
  assumes "\<And>r. r \<in> set rs \<Longrightarrow> settled out now actor a r \<and> r \<in> set (wd_workspaces w)"
    and "distinct (map ws_ID (wd_workspaces w))"
  shows "fold (\<lambda>r w. enforce_one out now actor a w r) rs w = w"
  using assms
proof (induction rs)
  case (Cons r rs)
  then have "settled out now actor a r" "find (\<lambda>x. ws_ID x = ws_ID r) (wd_workspaces w) = Some r"
    using find_row by auto
  moreover from this(2) have "ws_FindByID out w (ws_ID r) \<in> {None, Some r}"
    by (simp add: ws_FindByID_def)
  ultimately have "enforce_one out now actor a w r = w"
    unfolding settled_def by blast
  with Cons show ?case by simp
qed simp

definition billed :: "BillingAccount \<Rightarrow> nat list \<Rightarrow> World \<Rightarrow> Workspace list" where
  "billed a only w = SliceStable (\<lambda>x y. ws_ID x < ws_ID y)
     (filter (\<lambda>r. ws_BillingAccountID r = Some (ba_ID a) \<and> (only = [] \<or> ws_ID r \<in> set only)) (wd_workspaces w))"

lemma billed_set: "set (billed a only w) = {r \<in> set (wd_workspaces w).
    ws_BillingAccountID r = Some (ba_ID a) \<and> (only = [] \<or> ws_ID r \<in> set only)}"
  by (auto simp: billed_def set_SliceStable)

lemma billed_distinct:
  assumes "distinct (map ws_ID (wd_workspaces w))"
  shows "distinct (map ws_ID (billed a only w))"
proof -
  have "mset (map ws_ID (billed a only w)) = mset (map ws_ID (filter (\<lambda>r. ws_BillingAccountID r = Some (ba_ID a)
      \<and> (only = [] \<or> ws_ID r \<in> set only)) (wd_workspaces w)))"
    by (simp add: billed_def)
  then show ?thesis
    using distinct_map_filter [OF assms] mset_eq_imp_distinct_iff by blast
qed

lemma enforce_billed: "enforce out now actor a only w = fold (\<lambda>r w. enforce_one out now actor a w r) (billed a only w) w"
  by (simp add: enforce_def billed_def)

lemma enforce_facts:
  assumes "distinct (map ws_ID (wd_workspaces w))"
  shows "only_rows (ws_ID ` set (billed a only w)) w (enforce out now actor a only w)"
    and "\<And>r. r \<in> set (wd_workspaces (enforce out now actor a only w)) \<Longrightarrow> ws_ID r \<in> ws_ID ` set (billed a only w)
      \<Longrightarrow> settled out now actor a r"
proof -
  have "set (billed a only w) \<subseteq> set (wd_workspaces w)"
    by (auto simp: billed_set)
  note fold = fold_enforce [OF assms billed_distinct [OF assms, of a only] this, of out now actor a, folded enforce_billed]
  show "only_rows (ws_ID ` set (billed a only w)) w (enforce out now actor a only w)"
    using fold by (rule conjunct1)
  show "settled out now actor a r" if "r \<in> set (wd_workspaces (enforce out now actor a only w))"
    "ws_ID r \<in> ws_ID ` set (billed a only w)" for r
    using fold that by blast
qed

lemma enforce_twice:
  assumes dist: "distinct (map ws_ID (wd_workspaces w))"
  shows "enforce out now actor a only (enforce out now actor a only w) = enforce out now actor a only w"
proof -
  let ?v = "enforce out now actor a only w"
  note f = enforce_facts [OF dist, where a = a and only = only and out = out and now = now and actor = actor]
  have "settled out now actor a r \<and> r \<in> set (wd_workspaces ?v)" if r: "r \<in> set (billed a only ?v)" for r
  proof -
    have rv: "r \<in> set (wd_workspaces ?v)" "ws_BillingAccountID r = Some (ba_ID a)" "only = [] \<or> ws_ID r \<in> set only"
      using r by (auto simp: billed_set)
    then obtain q where "q \<in> set (wd_workspaces w)" "same_identity q r"
      using only_rows_back [OF f(1)] by metis
    with rv have "q \<in> set (billed a only w)" "ws_ID q = ws_ID r"
      by (auto simp: billed_set same_identity_def)
    then have "ws_ID r \<in> ws_ID ` set (billed a only w)"
      by (metis image_eqI)
    with f(2) rv(1) show ?thesis by blast
  qed
  moreover have "distinct (map ws_ID (wd_workspaces ?v))"
    using dist only_rows_ids [OF f(1)] by simp
  ultimately show ?thesis
    by (subst enforce_billed) (rule fold_settled)
qed

section \<open>How stale the gate can be\<close>

definition keeps_cache :: "World \<Rightarrow> World \<Rightarrow> bool" where
  "keeps_cache w w' \<longleftrightarrow> (\<forall>i. wd_cache w' i = None \<or> wd_cache w' i = wd_cache w i)"

lemma keeps_cache_same: "wd_cache w' = wd_cache w \<Longrightarrow> keeps_cache w w'"
  by (simp add: keeps_cache_def)

lemma keeps_cache_trans: "keeps_cache w w' \<Longrightarrow> keeps_cache w' w'' \<Longrightarrow> keeps_cache w w''"
  by (metis keeps_cache_def)

lemma keeps_cache_parts [simp]:
  "keeps_cache w (notify w' i) = keeps_cache w w'" "keeps_cache w (set_row w' i f) = keeps_cache w w'"
  by (simp_all add: keeps_cache_def)

lemma keeps_cache_forget: "keeps_cache w w' \<Longrightarrow> keeps_cache w (forget w' i)"
  by (simp add: keeps_cache_def)

lemma freeze_cache: "wd_cache (fst (freeze_resources out w i b)) = wd_cache w"
  by (simp add: freeze_resources_def stopWorkspace_def stop_loop_eq Let_def)

lemma restart_cache: "wd_cache (fst (restart out w r)) = wd_cache w"
  by (auto simp: restart_def StartWorkspace_def Let_def split: prod.splits sum.splits if_splits)

lemma cache_forgot: "(c(i := None)) = d \<Longrightarrow> d j \<noteq> c j \<Longrightarrow> d j = None"
  by (metis fun_upd_apply)

lemma Set_cache: "keeps_cache w (fst (Set_restriction out now w i actor inp))"
  unfolding Set_restriction_def Let_def
  by (auto simp: keeps_cache_def dest!: arg_cong [where f = "\<lambda>p. wd_cache (fst p)"]
      simp: freeze_cache restart_cache split: option.splits prod.splits if_splits intro: cache_forgot)

lemma Lift_cache: "keeps_cache w (fst (Lift out w i))"
  unfolding Lift_def Let_def
  by (auto simp: keeps_cache_def dest!: arg_cong [where f = "\<lambda>p. wd_cache (fst p)"]
      simp: restart_cache split: option.splits prod.splits if_splits intro: cache_forgot)

lemma SetFrozenReason_cache: "keeps_cache w (fst (SetFrozenReason out w i reason))"
  by (simp add: SetFrozenReason_def keeps_cache_def)

lemma Freeze_cache: "keeps_cache w (fst (Freeze out now w i actor reason))"
  unfolding Freeze_def Let_def
  by (auto simp: keeps_cache_def dest!: arg_cong [where f = "\<lambda>p. wd_cache (fst p)"]
      simp: freeze_cache SetFrozenReason_def split: option.splits prod.splits if_splits intro: cache_forgot)

lemma lift_all_cache: "keeps_cache w (fst (lift_all out w is))"
proof (induction "is" arbitrary: w)
  case (Cons i "is")
  show ?case
    using Cons.IH [of "fst (Lift out w i)"] Lift_cache [of w out i]
    by (auto simp: split: prod.splits intro: keeps_cache_trans)
qed (simp add: keeps_cache_same)

text \<open>
  The gate and the operations, interleaved: time passes, lookups read (stamped with the time \<open>t0\<close> they began) and
  later store what they read, and restrictions change. \<open>gt_past\<close> records the worlds there have been.
\<close>

record Gate =
  gt_world :: World
  gt_pending :: "(nat \<times> cache_entry) list"
  gt_now :: int
  gt_past :: "(int \<times> World) list"

definition gate_to :: "Gate \<Rightarrow> World \<Rightarrow> Gate" where
  "gate_to g w = g\<lparr>gt_world := w, gt_past := (gt_now g, w) # gt_past g\<rparr>"

inductive gate_step :: "nat option \<Rightarrow> Gate \<Rightarrow> Gate \<Rightarrow> bool" for billing where
  gate_tick: "gt_now g \<le> t \<Longrightarrow> gate_step billing g (g\<lparr>gt_now := t, gt_past := (t, gt_world g) # gt_past g\<rparr>)"
| gate_read: "\<lbrakk>t0 \<le> gt_now g; CFind \<notin> set (out_fails out)\<rbrakk> \<Longrightarrow>
    gate_step billing g (g\<lparr>gt_pending := (i, read_entry out billing t0 (gt_world g) i) # gt_pending g,
      gt_past := (gt_now g, gt_world g) # gt_past g\<rparr>)"
| gate_store: "(i, e) \<in> set (gt_pending g) \<Longrightarrow> gate_step billing g (gate_to g (store_entry (gt_world g) i e))"
| gate_set: "gate_step billing g (gate_to g (fst (Set_restriction out now (gt_world g) i actor inp)))"
| gate_lift: "gate_step billing g (gate_to g (fst (Lift out (gt_world g) i)))"
| gate_freeze: "gate_step billing g (gate_to g (fst (Freeze out now (gt_world g) i actor reason)))"
| gate_unfreeze: "gate_step billing g (gate_to g (fst (Unfreeze out (gt_world g) i)))"
| gate_expire: "gate_step billing g (gate_to g (fst (restriction_ExpireDue out now (gt_world g))))"

text \<open>An entry tells what the row said in some past world, no earlier than its stamp.\<close>

definition entry_seen :: "nat option \<Rightarrow> Gate \<Rightarrow> nat \<Rightarrow> cache_entry \<Rightarrow> bool" where
  "entry_seen billing g i e \<longleftrightarrow>
     (\<exists>t w. (t, w) \<in> set (gt_past g) \<and> ce_at e \<le> t \<and> t \<le> gt_now g \<and> e = read_entry all_works billing (ce_at e) w i)"

definition gate_inv :: "nat option \<Rightarrow> Gate \<Rightarrow> bool" where
  "gate_inv billing g \<longleftrightarrow>
     (\<forall>i e. (i, e) \<in> set (gt_pending g) \<longrightarrow> entry_seen billing g i e)
     \<and> (\<forall>i e. wd_cache (gt_world g) i = Some e \<longrightarrow> entry_seen billing g i e)"

lemma read_entry_out: "CFind \<notin> set (out_fails out) \<Longrightarrow> read_entry out = read_entry all_works"
  by (simp add: read_entry_def ws_FindByID_def fun_eq_iff)

lemma read_entry_at [simp]: "ce_at (read_entry out billing t w i) = t"
  by (simp add: read_entry_def split: option.splits)

lemma entry_seen_later:
  assumes "entry_seen billing g i e" and "set (gt_past g) \<subseteq> set (gt_past g')" and "gt_now g \<le> gt_now g'"
  shows "entry_seen billing g' i e"
  using assms unfolding entry_seen_def by (meson order_trans subsetD)

lemma gate_inv_to:
  assumes "gate_inv billing g" and "keeps_cache (gt_world g) w"
  shows "gate_inv billing (gate_to g w)"
proof -
  have later: "entry_seen billing (gate_to g w) i e" if "entry_seen billing g i e" for i e
    using that by (rule entry_seen_later) (auto simp: gate_to_def)
  have "entry_seen billing (gate_to g w) i e" if "wd_cache w i = Some e" for i e
  proof -
    have "wd_cache (gt_world g) i = Some e"
      using assms(2) that by (metis keeps_cache_def option.distinct(1))
    then show ?thesis
      using assms(1) later by (simp add: gate_inv_def)
  qed
  with assms(1) later show ?thesis
    by (simp add: gate_inv_def) (simp add: gate_to_def)
qed

lemma gate_step_inv:
  assumes "gate_step billing g g'" and inv: "gate_inv billing g"
  shows "gate_inv billing g'"
  using assms(1)
proof cases
  case (gate_tick t)
  have "entry_seen billing g' i e" if "entry_seen billing g i e" for i e
    using that by (rule entry_seen_later) (auto simp: gate_tick)
  with inv show ?thesis by (simp add: gate_inv_def gate_tick)
next
  case (gate_read t0 out i)
  have later: "entry_seen billing g' j e" if "entry_seen billing g j e" for j e
    using that by (rule entry_seen_later) (auto simp: gate_read)
  have "entry_seen billing g' i (read_entry out billing t0 (gt_world g) i)"
    unfolding entry_seen_def
    using gate_read(2) by (auto simp: gate_read(1) read_entry_out [OF gate_read(3)])
  with inv later show ?thesis
    by (auto simp: gate_inv_def gate_read(1))
next
  case (gate_store i e)
  have later: "entry_seen billing g' j d" if "entry_seen billing g j d" for j d
    using that by (rule entry_seen_later) (auto simp: gate_store gate_to_def)
  with inv gate_store(2) show ?thesis
    by (auto simp: gate_inv_def gate_store(1) gate_to_def store_entry_def split: if_splits)
next
  case (gate_set out now i actor inp)
  then show ?thesis using gate_inv_to [OF inv Set_cache] by simp
next
  case (gate_lift out i)
  then show ?thesis using gate_inv_to [OF inv Lift_cache] by simp
next
  case (gate_freeze out now i actor reason)
  then show ?thesis using gate_inv_to [OF inv Freeze_cache] by simp
next
  case (gate_unfreeze out i)
  have "keeps_cache (gt_world g) (fst (Unfreeze out (gt_world g) i))"
    using Lift_cache by (auto simp: Unfreeze_def keeps_cache_same split: option.splits)
  then show ?thesis using gate_inv_to [OF inv] gate_unfreeze by simp
next
  case (gate_expire out now)
  have "keeps_cache (gt_world g) (fst (restriction_ExpireDue out now (gt_world g)))"
    using lift_all_cache by (simp add: restriction_ExpireDue_def keeps_cache_same)
  then show ?thesis using gate_inv_to [OF inv] gate_expire by simp
qed

lemma gate_steps_inv: "(gate_step billing)\<^sup>*\<^sup>* g g' \<Longrightarrow> gate_inv billing g \<Longrightarrow> gate_inv billing g'"
  by (induction rule: rtranclp_induct) (auto intro: gate_step_inv)

lemma fold_keeps_hold:
  assumes "distinct (map ws_ID (wd_workspaces w0))" and "r \<in> set (wd_workspaces w0)" and "set rs \<subseteq> set (wd_workspaces w0)"
    and "ws_Restriction r \<noteq> RestrictionNone" and "ws_RestrictedBy r \<noteq> Some actor" and "r \<in> set (wd_workspaces w)"
  shows "r \<in> set (wd_workspaces (fold (\<lambda>r w. enforce_one out now actor a w r) rs w))"
  using assms(3,6)
proof (induction rs arbitrary: w)
  case (Cons q qs)
  have "r \<in> set (wd_workspaces (enforce_one out now actor a w q))"
  proof (cases "ws_ID q = ws_ID r")
    case True
    then have "q = r"
      using find_row [OF assms(1,2)] find_row [OF assms(1), of q] Cons.prems(1) by simp
    then show ?thesis
      using assms(4,5) Cons.prems(2) by (simp add: enforce_one_def Let_def)
  next
    case False
    then show ?thesis
      using only_rows_member [OF enforce_one_only_row, of r w q] Cons.prems(2) by simp
  qed
  with Cons show ?case by simp
qed simp

section \<open>A small platform\<close>

definition sample_row :: Workspace where
  "sample_row = \<lparr>ws_ID = 7, ws_System = False, ws_Restriction = RestrictionNone, ws_RestrictionReason = [],
     ws_RestrictionUntil = None, ws_RestrictedAt = None, ws_RestrictedBy = None, ws_FrozenResources = None,
     ws_BillingAccountID = Some 3\<rparr>"

definition held_row :: Workspace where
  "held_row = sample_row\<lparr>ws_ID := 8, ws_Restriction := RestrictionReadOnly, ws_RestrictedBy := Some 2\<rparr>"

definition sample_world :: World where
  "sample_world = \<lparr>wd_workspaces = [sample_row, held_row],
     wd_apps = [\<lparr>wl_ID = 11, wl_WorkspaceID = 7, wl_Status = StatusRunning\<rparr>,
                \<lparr>wl_ID = 12, wl_WorkspaceID = 7, wl_Status = StatusStopped\<rparr>,
                \<lparr>wl_ID = 13, wl_WorkspaceID = 8, wl_Status = StatusRunning\<rparr>],
     wd_dbs = [\<lparr>wl_ID = 21, wl_WorkspaceID = 7, wl_Status = StatusRunning\<rparr>],
     wd_cache = (\<lambda>_. None), wd_changed = []\<rparr>"

definition sample_account :: BillingAccount where
  "sample_account = \<lparr>ba_ID = 3, ba_Status = ''active'', ba_RestrictionLevel = LevelHard, ba_ForcedRestriction = [],
     ba_ForcedReason = [], ba_ForcedUntil = None, ba_SubStatus = ''past_due'', ba_GraceUntil = Some 100\<rparr>"

lemma sample_world_ok: "world_ok sample_world"
  by (simp add: world_ok_def sample_world_def sample_row_def held_row_def)

lemma sample_members: "sample_row \<in> set (wd_workspaces sample_world)" "held_row \<in> set (wd_workspaces sample_world)"
  by (simp_all add: sample_world_def)

section \<open>Properties\<close>



text \<open>C35: Billing never touches a hold that is not its own: whatever an account's level, enforcement leaves the row of
  a workspace restricted by anybody else as it is, whatever fails on the way.\<close>

theorem billing_respects_holds:
  assumes "distinct (map ws_ID (wd_workspaces w))" and "r \<in> set (wd_workspaces w)"
    and "ws_Restriction r \<noteq> RestrictionNone" and "ws_RestrictedBy r \<noteq> Some actor"
  shows "r \<in> set (wd_workspaces (enforce out now actor a only w))"
  unfolding enforce_billed
  using assms by (intro fold_keeps_hold [OF assms(1,2) _ assms(3,4,2)]) (auto simp: billed_set)

theorem billing_respects_holds_witness:
  "held_row \<in> set (wd_workspaces (enforce all_works 50 9 sample_account [] sample_world))"
  by (rule billing_respects_holds [OF _ sample_members(2)])
    (simp_all add: sample_world_def held_row_def sample_row_def)

text \<open>Enforcing twice is enforcing once: after an enforcement, whatever failed in it, a second one with the same
  account and time changes nothing, so the periodic sweep converges.\<close>

theorem enforcement_converges:
  assumes "distinct (map ws_ID (wd_workspaces w))"
  shows "enforce out now actor a only (enforce out now actor a only w) = enforce out now actor a only w"
  using assms by (rule enforce_twice)

theorem enforcement_converges_witness:
  "enforce all_works 50 9 sample_account [] (enforce all_works 50 9 sample_account [] sample_world)
     = enforce all_works 50 9 sample_account [] sample_world
   \<and> map ws_Restriction (wd_workspaces (enforce all_works 50 9 sample_account [] sample_world))
     = [RestrictionSuspended, RestrictionReadOnly]"
proof
  show "enforce all_works 50 9 sample_account [] (enforce all_works 50 9 sample_account [] sample_world)
     = enforce all_works 50 9 sample_account [] sample_world"
    by (rule enforcement_converges) (simp add: sample_world_def held_row_def sample_row_def)
  show "map ws_Restriction (wd_workspaces (enforce all_works 50 9 sample_account [] sample_world))
     = [RestrictionSuspended, RestrictionReadOnly]"
    by code_simp
qed

text \<open>A billing level only hardens with time: as long as the account is not edited and no forced hold ends, a
  later evaluation never yields a lower level.\<close>

theorem billing_level_hardens:
  assumes "t \<le> t'" and "ba_ForcedUntil a = None \<or> ba_ForcedRestriction a = []"
  shows "levelRank (EffectiveLevel a t hardAfter) \<le> levelRank (EffectiveLevel a t' hardAfter)"
proof -
  have d: "levelRank (DerivedLevel s g t hardAfter) \<le> levelRank (DerivedLevel s g t' hardAfter)" for s g
    using assms(1) by (auto simp: DerivedLevel_def levelRank_def split: option.splits)
  have "forced_active a t = forced_active a t'"
    using assms(2) by (auto simp: forced_active_def)
  with d [of "ba_SubStatus a" "ba_GraceUntil a"] show ?thesis
    by (auto simp: EffectiveLevel_def Let_def)
qed

theorem billing_level_hardens_witness:
  "levelRank (EffectiveLevel sample_account 50 1000) \<le> levelRank (EffectiveLevel sample_account 2000 1000)
   \<and> EffectiveLevel sample_account 50 1000 = LevelWarning \<and> EffectiveLevel sample_account 2000 1000 = LevelHard"
  using billing_level_hardens [of 50 2000 sample_account 1000]
  by (simp add: sample_account_def EffectiveLevel_def DerivedLevel_def forced_active_def Let_def)

text \<open>C22: The gate is never more than 15 seconds stale: under any interleaving of lookups with restrictions being set,
  lifted, frozen and expired, an entry the gate answers from is what the workspace's row said at some moment of the
  last 15 seconds, provided the reads succeed.\<close>

theorem gate_staleness_bounded:
  assumes "(gate_step billing)\<^sup>*\<^sup>* g g'" and "wd_cache (gt_world g) = (\<lambda>_. None)" and "gt_pending g = []"
    and "cached (gt_now g') (gt_world g') i = Some e"
  shows "\<exists>t v. (t, v) \<in> set (gt_past g') \<and> gt_now g' - t < cacheTTL \<and> t \<le> gt_now g'
    \<and> e = read_entry all_works billing (ce_at e) v i"
proof -
  have "gate_inv billing g"
    using assms(2,3) by (simp add: gate_inv_def)
  then have inv: "gate_inv billing g'"
    using assms(1) gate_steps_inv by blast
  have e: "wd_cache (gt_world g') i = Some e" "gt_now g' - ce_at e < cacheTTL"
    using assms(4) by (auto simp: cached_def split: option.splits if_splits)
  then obtain t v where "(t, v) \<in> set (gt_past g')" "ce_at e \<le> t" "t \<le> gt_now g'" "e = read_entry all_works billing (ce_at e) v i"
    using inv unfolding gate_inv_def entry_seen_def by blast
  with e(2) show ?thesis by (intro exI [of _ t] exI [of _ v]) auto
qed

definition sample_entry :: cache_entry where
  "sample_entry = read_entry all_works None 5 sample_world 7"

definition sample_gate :: Gate where
  "sample_gate = \<lparr>gt_world = sample_world, gt_pending = [], gt_now = 5, gt_past = []\<rparr>"

definition sample_gate_read :: Gate where
  "sample_gate_read = sample_gate\<lparr>gt_pending := [(7, sample_entry)], gt_past := [(5, sample_world)]\<rparr>"

theorem gate_staleness_bounded_witness:
  "\<exists>t v. (t, v) \<in> set (gt_past (gate_to sample_gate_read (store_entry sample_world 7 sample_entry)))
     \<and> 5 - t < cacheTTL \<and> t \<le> 5 \<and> sample_entry = read_entry all_works None (ce_at sample_entry) v 7"
proof -
  have "gate_step None sample_gate sample_gate_read"
    using gate_read [of 5 sample_gate all_works None 7]
    by (simp add: sample_gate_def sample_gate_read_def sample_entry_def)
  moreover have "gate_step None sample_gate_read (gate_to sample_gate_read (store_entry sample_world 7 sample_entry))"
    using gate_store [of 7 sample_entry sample_gate_read None] by (simp add: sample_gate_read_def sample_gate_def)
  ultimately have "(gate_step None)\<^sup>*\<^sup>* sample_gate (gate_to sample_gate_read (store_entry sample_world 7 sample_entry))"
    by (meson rtranclp.rtrancl_refl rtranclp.rtrancl_into_rtrancl)
  moreover have "ce_at sample_entry = 5"
    by (simp add: sample_entry_def)
  then have "cached 5 (store_entry sample_world 7 sample_entry) 7 = Some sample_entry"
    by (simp add: cached_def store_entry_def)
  moreover have "wd_cache (gt_world sample_gate) = (\<lambda>_. None)" "gt_pending sample_gate = []"
    by (simp_all add: sample_gate_def sample_world_def)
  moreover have "gt_now (gate_to sample_gate_read v) = 5" "gt_world (gate_to sample_gate_read v) = v" for v
    by (simp_all add: gate_to_def sample_gate_read_def sample_gate_def)
  ultimately show ?thesis
    using gate_staleness_bounded [of None sample_gate "gate_to sample_gate_read (store_entry sample_world 7 sample_entry)" 7 sample_entry]
    by simp
qed

section \<open>What modelling showed\<close>

definition suspend_input :: SetInput where
  "suspend_input = \<lparr>in_State = RestrictionSuspended, in_Reason = [], in_Until = None\<rparr>"

text \<open>A local change does not invalidate at once: a lookup that read the row before the change stores its entry after
  the change dropped the cache, and the suspended workspace stays open for the rest of the 15 seconds.\<close>

theorem stale_entry_survives_suspension:
  "let e = read_entry all_works None 5 sample_world 7;
       w = fst (Set_restriction all_works 6 sample_world 7 1 suspend_input);
       w' = store_entry w 7 e
   in map ws_Restriction (wd_workspaces w') = [RestrictionSuspended, RestrictionReadOnly]
      \<and> snd (Allowed all_works None 15000000004 w' 7 ActionWrite) = None"
  by code_simp

text \<open>A read that fails opens the gate, and the answer is kept for 15 seconds although the storage is back.\<close>

theorem failed_read_opens_gate:
  "let w = fst (Set_restriction all_works 6 sample_world 7 1 suspend_input);
       w' = fst (Allowed (all_works\<lparr>out_fails := [CFind]\<rparr>) None 10 w 7 ActionWrite)
   in snd (Allowed all_works None 10 w 7 ActionWrite) \<noteq> None
      \<and> snd (Allowed all_works None 20 w' 7 ActionWrite) = None"
  by code_simp

text \<open>Moving a suspended workspace to read-only writes the state before it restarts the workloads. When the restart is
  not available the error is returned, but the workspace is read-only then, and lifting it restarts nothing.\<close>

theorem failed_restart_not_retried:
  "let w1 = fst (Set_restriction all_works 6 sample_world 7 1 suspend_input);
       (w2, e2) = Set_restriction (all_works\<lparr>out_startable := False\<rparr>) 7 w1 7 1 \<lparr>in_State = RestrictionReadOnly, in_Reason = [], in_Until = None\<rparr>;
       (w3, e3) = Lift all_works w2 7
   in e2 = Some ErrStartUnavailable \<and> e3 = None
      \<and> map wl_Status (wd_apps w3) = [StatusStopped, StatusStopped, StatusRunning]"
  by code_simp

text \<open>When storing what a suspension stopped fails, lifting it reports success and restarts nothing.\<close>

theorem lost_list_restarts_nothing:
  "let (w1, e1) = Set_restriction (all_works\<lparr>out_fails := [CSetFrozen]\<rparr>) 6 sample_world 7 1 suspend_input;
       (w2, e2) = Lift all_works w1 7
   in e1 = Some ErrStorage \<and> e2 = None
      \<and> map wl_Status (wd_apps w2) = [StatusStopped, StatusStopped, StatusRunning]"
  by code_simp

end
