(* ===== verification/Leader_Election.thy ===== *)
theory Leader_Election
  imports Go_Prelude
begin

text \<open>
  Leases on a shared Redis server and what is built on them: \<^verbatim>\<open>internal/leader/lease.go\<close> (the three scripts and the
  lease), \<^verbatim>\<open>internal/leader/leader.go\<close> (the elector that decides which process runs the singleton work) and
  \<^verbatim>\<open>internal/worker/deploylock.go\<close> (one deploy per app).

  A server is its clock and its keys, a key with the time it expires at. Scripts are atomic, so each is a
  function. What several processes do is a step relation whose steps are the points at which they can
  interleave: a campaign starts, its script runs on the server, its reply arrives or the call fails. A
  call that failed may still have run, or run later. Times are nanoseconds; every process has a clock of its own.
\<close>

section \<open>The lease scripts\<close>

record Redis =
  rd_now :: int
  rd_keys :: "string \<Rightarrow> (string \<times> int) option"

definition nanosPerMilli :: int where "nanosPerMilli = 1000000"

definition Milliseconds :: "int \<Rightarrow> int" where "Milliseconds d = d div nanosPerMilli"

text \<open>Documented behaviour of the commands: a key is there until it expires, \<open>PX\<close> and \<open>PEXPIRE\<close> count in milliseconds.\<close>

definition redis_get :: "Redis \<Rightarrow> string \<Rightarrow> string option" where
  "redis_get r k = (case rd_keys r k of Some (v, e) \<Rightarrow> if rd_now r < e then Some v else None | None \<Rightarrow> None)"

definition redis_set_px :: "Redis \<Rightarrow> string \<Rightarrow> string \<Rightarrow> int \<Rightarrow> Redis" where
  "redis_set_px r k v ms = r\<lparr>rd_keys := (rd_keys r)(k := Some (v, rd_now r + ms * nanosPerMilli))\<rparr>"

definition redis_pexpire :: "Redis \<Rightarrow> string \<Rightarrow> int \<Rightarrow> Redis \<times> int" where
  "redis_pexpire r k ms = (case redis_get r k of None \<Rightarrow> (r, 0) | Some v \<Rightarrow> (redis_set_px r k v ms, 1))"

definition redis_del :: "Redis \<Rightarrow> string \<Rightarrow> Redis \<times> int" where
  "redis_del r k = (case redis_get r k of None \<Rightarrow> (r, 0) | Some v \<Rightarrow> (r\<lparr>rd_keys := (rd_keys r)(k := None)\<rparr>, 1))"

definition acquireScript :: "Redis \<Rightarrow> string \<Rightarrow> string \<Rightarrow> int \<Rightarrow> Redis \<times> int" where
  "acquireScript r k tok ms =
     (case redis_get r k of
        None \<Rightarrow> (redis_set_px r k tok ms, 1)
      | Some v \<Rightarrow> if v = tok then redis_pexpire r k ms else (r, 0))"

definition refreshScript :: "Redis \<Rightarrow> string \<Rightarrow> string \<Rightarrow> int \<Rightarrow> Redis \<times> int" where
  "refreshScript r k tok ms = (if redis_get r k = Some tok then redis_pexpire r k ms else (r, 0))"

definition releaseScript :: "Redis \<Rightarrow> string \<Rightarrow> string \<Rightarrow> Redis \<times> int" where
  "releaseScript r k tok = (if redis_get r k = Some tok then redis_del r k else (r, 0))"

record Lease =
  le_key :: string
  le_token :: string
  le_ttl :: int

definition Lease_Acquire :: "Redis \<Rightarrow> Lease \<Rightarrow> Redis \<times> bool" where
  "Lease_Acquire r l = (let (r', n) = acquireScript r (le_key l) (le_token l) (Milliseconds (le_ttl l)) in (r', n = 1))"

definition Lease_Refresh :: "Redis \<Rightarrow> Lease \<Rightarrow> Redis \<times> bool" where
  "Lease_Refresh r l = (let (r', n) = refreshScript r (le_key l) (le_token l) (Milliseconds (le_ttl l)) in (r', n = 1))"

definition Lease_Release :: "Redis \<Rightarrow> Lease \<Rightarrow> Redis" where
  "Lease_Release r l = fst (releaseScript r (le_key l) (le_token l))"

text \<open>How long the entry of a key lives on.\<close>

definition remaining :: "Redis \<Rightarrow> string \<Rightarrow> int" where
  "remaining r k = (case rd_keys r k of Some (v, e) \<Rightarrow> e - rd_now r | None \<Rightarrow> 0)"

definition lease_span :: "int \<Rightarrow> int" where
  "lease_span ttl = Milliseconds ttl * nanosPerMilli"

lemma lease_span_dvd: "nanosPerMilli dvd ttl \<Longrightarrow> lease_span ttl = ttl"
  by (simp add: lease_span_def Milliseconds_def nanosPerMilli_def)

lemma lease_span_le: "lease_span ttl \<le> ttl"
  by (simp add: lease_span_def Milliseconds_def nanosPerMilli_def)

lemma get_set_px: "0 < ms \<Longrightarrow> redis_get (redis_set_px r k v ms) k = Some v"
  by (simp add: redis_get_def redis_set_px_def nanosPerMilli_def)

lemma get_set_px_other: "j \<noteq> k \<Longrightarrow> redis_get (redis_set_px r k v ms) j = redis_get r j"
  by (auto simp: redis_get_def redis_set_px_def split: option.splits)

lemma get_del: "redis_get (r\<lparr>rd_keys := (rd_keys r)(k := None)\<rparr>) k = None"
  by (simp add: redis_get_def)

lemma remaining_set_px [simp]: "remaining (redis_set_px r k v ms) k = ms * nanosPerMilli"
  by (simp add: remaining_def redis_set_px_def)

lemma now_set_px [simp]: "rd_now (redis_set_px r k v ms) = rd_now r"
  by (simp add: redis_set_px_def)

lemma held_remaining: "redis_get r k = Some v \<Longrightarrow> 0 < remaining r k"
  by (auto simp: redis_get_def remaining_def split: option.splits prod.splits if_splits)

text \<open>The three scripts by who holds the key.\<close>

lemma acquire_cases:
  "acquireScript r k tok ms =
     (if redis_get r k \<in> {None, Some tok} then (redis_set_px r k tok ms, 1) else (r, 0))"
  by (auto simp: acquireScript_def redis_pexpire_def split: option.splits)

lemma refresh_cases:
  "refreshScript r k tok ms = (if redis_get r k = Some tok then (redis_set_px r k tok ms, 1) else (r, 0))"
  by (auto simp: refreshScript_def redis_pexpire_def split: option.splits)

lemma release_cases:
  "releaseScript r k tok =
     (if redis_get r k = Some tok then (r\<lparr>rd_keys := (rd_keys r)(k := None)\<rparr>, 1) else (r, 0))"
  by (auto simp: releaseScript_def redis_del_def split: option.splits)

lemma now_scripts [simp]:
  "rd_now (fst (acquireScript r k tok ms)) = rd_now r"
  "rd_now (fst (releaseScript r k tok)) = rd_now r"
  by (simp_all add: acquire_cases release_cases)

section \<open>The contract of a lease\<close>

text \<open>What the clients rely on: an acquisition succeeds exactly when nobody else holds the lease, a refresh exactly
  when one holds it oneself, and nobody can take or drop what another holds.\<close>

locale exclusive_lease =
  fixes acquire :: "'s \<Rightarrow> 't \<Rightarrow> 's \<times> bool"
    and refresh :: "'s \<Rightarrow> 't \<Rightarrow> 's \<times> bool"
    and release :: "'s \<Rightarrow> 't \<Rightarrow> 's"
    and holder :: "'s \<Rightarrow> 't option"
  assumes acquire_iff: "snd (acquire s t) \<longleftrightarrow> holder s = None \<or> holder s = Some t"
    and acquire_holds: "snd (acquire s t) \<Longrightarrow> holder (fst (acquire s t)) = Some t"
    and acquire_refused: "\<not> snd (acquire s t) \<Longrightarrow> fst (acquire s t) = s"
    and refresh_iff: "snd (refresh s t) \<longleftrightarrow> holder s = Some t"
    and refresh_keeps: "holder (fst (refresh s t)) = holder s"
    and release_holder: "holder (release s t) = (if holder s = Some t then None else holder s)"
begin

lemma acquire_stable: "holder s = Some t \<Longrightarrow> holder (fst (acquire s u)) = Some t"
  using acquire_iff [of s u] acquire_holds [of s u] acquire_refused [of s u] by (cases "u = t") auto

lemma release_stable: "holder s = Some t \<Longrightarrow> u \<noteq> t \<Longrightarrow> holder (release s u) = Some t"
  by (simp add: release_holder)

lemma acquire_other: "holder s = Some t \<Longrightarrow> u \<noteq> t \<Longrightarrow> acquire s u = (s, False)"
  using acquire_iff [of s u] acquire_refused [of s u] by (auto simp: prod_eq_iff)

lemma lost_lease_refused: "holder s = Some t \<Longrightarrow> u \<noteq> t \<Longrightarrow> \<not> snd (refresh s u)"
  by (simp add: refresh_iff)

lemma acquire_release: "snd (acquire s t) \<Longrightarrow> snd (acquire (release (fst (acquire s t)) t) u)"
  by (simp add: acquire_iff release_holder acquire_holds)

end

text \<open>The scripts keep the contract for any time to live of a millisecond and more. \<open>NewLease\<close> draws the token; a
  client here is known by it.\<close>

definition NewLease :: "string \<Rightarrow> int \<Rightarrow> string \<Rightarrow> Lease" where
  "NewLease k ttl tok = \<lparr>le_key = k, le_token = tok, le_ttl = ttl\<rparr>"

lemma lease_contract:
  assumes "nanosPerMilli \<le> ttl"
  shows "exclusive_lease (\<lambda>r tok. Lease_Acquire r (NewLease k ttl tok)) (\<lambda>r tok. Lease_Refresh r (NewLease k ttl tok))
    (\<lambda>r tok. Lease_Release r (NewLease k ttl tok)) (\<lambda>r. redis_get r k)"
proof -
  have "0 < Milliseconds ttl"
    using assms by (simp add: Milliseconds_def nanosPerMilli_def pos_imp_zdiv_pos_iff)
  then show ?thesis
    by unfold_locales
      (auto simp: Lease_Acquire_def Lease_Refresh_def Lease_Release_def acquire_cases refresh_cases release_cases
        NewLease_def get_set_px get_del split: if_splits)
qed

text \<open>The lease of the control plane and the lock of a deploy.\<close>

definition defaultTTL :: int where "defaultTTL = 30000000000"

definition deployLockTTL :: int where "deployLockTTL = 60000000000"

definition leaderKey :: "string \<Rightarrow> string" where "leaderKey name = ''miabi:leader:'' @ name"

definition deployLockKey :: "nat \<Rightarrow> string" where "deployLockKey appID = ''miabi:deploylock:app:'' @ nat_digits appID"

interpretation leader_lease:
  exclusive_lease "\<lambda>r tok. Lease_Acquire r (NewLease (leaderKey name) defaultTTL tok)"
    "\<lambda>r tok. Lease_Refresh r (NewLease (leaderKey name) defaultTTL tok)"
    "\<lambda>r tok. Lease_Release r (NewLease (leaderKey name) defaultTTL tok)" "\<lambda>r. redis_get r (leaderKey name)" for name
  by (rule lease_contract) (simp add: defaultTTL_def nanosPerMilli_def)

interpretation deploy_lease:
  exclusive_lease "\<lambda>r tok. Lease_Acquire r (NewLease (deployLockKey app) deployLockTTL tok)"
    "\<lambda>r tok. Lease_Refresh r (NewLease (deployLockKey app) deployLockTTL tok)"
    "\<lambda>r tok. Lease_Release r (NewLease (deployLockKey app) deployLockTTL tok)"
    "\<lambda>r. redis_get r (deployLockKey app)" for app
  by (rule lease_contract) (simp add: deployLockTTL_def nanosPerMilli_def)

section \<open>The elector\<close>

text \<open>\<open>None\<close> for the zero time. \<open>el_campaign\<close> holds the start of a campaign under way and what its script returned once it
  ran; \<open>el_next\<close> is the next tick of the process, \<open>None\<close> before its first campaign is over; \<open>el_lost\<close> says that a
  call was given up whose script had not run.\<close>

record Elector =
  el_clock :: int
  el_validUntil :: "int option"
  el_leading :: bool
  el_campaign :: "(int \<times> int option) option"
  el_next :: "int option"
  el_stopped :: bool
  el_lost :: bool

definition interval :: "int \<Rightarrow> int" where "interval ttl = ttl div 3"

definition validity :: "int \<Rightarrow> int" where "validity ttl = ttl div 2"

definition Before :: "int \<Rightarrow> int option \<Rightarrow> bool" where
  "Before now u = (case u of Some t \<Rightarrow> now < t | None \<Rightarrow> False)"

definition Leading :: "Elector \<Rightarrow> bool" where
  "Leading e = Before (el_clock e) (el_validUntil e)"

definition setLeading :: "bool \<Rightarrow> Elector \<Rightarrow> Elector" where
  "setLeading leading e = (if leading = el_leading e then e else e\<lparr>el_leading := leading\<rparr>)"

text \<open>The end of \<^verbatim>\<open>campaign\<close>, with the reply of the script, or \<open>None\<close> for an error.\<close>

definition settle_campaign :: "int \<Rightarrow> int \<Rightarrow> int option \<Rightarrow> Elector \<Rightarrow> Elector" where
  "settle_campaign ttl start reply e =
     (let u = (case reply of
                 None \<Rightarrow> el_validUntil e
               | Some n \<Rightarrow> if n = 1 then Some (start + validity ttl) else None)
      in setLeading (Before (el_clock e) u) (e\<lparr>el_validUntil := u\<rparr>))"

definition resign_local :: "Elector \<Rightarrow> Elector" where
  "resign_local e = (setLeading False (e\<lparr>el_validUntil := None\<rparr>))\<lparr>el_stopped := True\<rparr>"

text \<open>The ticker is made after the first campaign.\<close>

definition next_tick :: "int \<Rightarrow> Elector \<Rightarrow> Elector" where
  "next_tick ttl e = e\<lparr>el_next := Some (case el_next e of None \<Rightarrow> el_clock e + interval ttl | Some t \<Rightarrow> t)\<rparr>"

definition end_campaign :: "int \<Rightarrow> int \<Rightarrow> int option \<Rightarrow> Elector \<Rightarrow> Elector" where
  "end_campaign ttl start reply e = next_tick ttl ((settle_campaign ttl start reply e)\<lparr>el_campaign := None\<rparr>)"

record Election =
  en_redis :: Redis
  en_elector :: "nat \<Rightarrow> Elector"

definition put_elector :: "Election \<Rightarrow> nat \<Rightarrow> Elector \<Rightarrow> Election" where
  "put_elector s p e = s\<lparr>en_elector := (en_elector s)(p := e)\<rparr>"

text \<open>A schedule is timely when campaigns start on their tick and end within their timeout, and the server's clock is
  no faster than a process's. Without it only one thing is asked: that the server's clock runs at most twice as fast.\<close>

definition tick_ok :: "bool \<Rightarrow> int \<Rightarrow> Elector \<Rightarrow> int \<Rightarrow> int \<Rightarrow> bool" where
  "tick_ok timely ttl e c d \<longleftrightarrow>
     el_clock e \<le> c \<and>
     (if timely
      then d \<le> c - el_clock e \<and>
        (el_stopped e \<or>
         (case el_campaign e of
            Some (st, _) \<Rightarrow> c \<le> st + interval ttl div 2
          | None \<Rightarrow> (case el_next e of Some t \<Rightarrow> c \<le> t | None \<Rightarrow> True)))
      else d \<le> 2 * (c - el_clock e))"

definition may_start :: "bool \<Rightarrow> Elector \<Rightarrow> bool" where
  "may_start timely e \<longleftrightarrow>
     \<not> el_stopped e \<and> el_campaign e = None \<and>
     (timely \<longrightarrow> (case el_next e of None \<Rightarrow> True | Some t \<Rightarrow> el_clock e = t))"

definition start_campaign :: "int \<Rightarrow> Elector \<Rightarrow> Elector" where
  "start_campaign ttl e =
     e\<lparr>el_campaign := Some (el_clock e, None),
       el_next := (case el_next e of None \<Rightarrow> None | Some t \<Rightarrow> Some (t + interval ttl))\<rparr>"

inductive elect_step :: "bool \<Rightarrow> int \<Rightarrow> string \<Rightarrow> (nat \<Rightarrow> string) \<Rightarrow> Election \<Rightarrow> Election \<Rightarrow> bool"
  for timely ttl k tok where
  campaign_starts: "may_start timely (en_elector s p) \<Longrightarrow>
    elect_step timely ttl k tok s (put_elector s p (start_campaign ttl (en_elector s p)))"
| script_runs: "el_campaign (en_elector s p) = Some (st, None) \<Longrightarrow>
    acquireScript (en_redis s) k (tok p) (Milliseconds ttl) = (r, n) \<Longrightarrow>
    elect_step timely ttl k tok s
      (put_elector (s\<lparr>en_redis := r\<rparr>) p ((en_elector s p)\<lparr>el_campaign := Some (st, Some n)\<rparr>))"
| reply_arrives: "el_campaign (en_elector s p) = Some (st, Some n) \<Longrightarrow>
    elect_step timely ttl k tok s (put_elector s p (end_campaign ttl st (Some n) (en_elector s p)))"
| call_fails: "el_campaign (en_elector s p) = Some (st, reply) \<Longrightarrow>
    elect_step timely ttl k tok s
      (put_elector s p ((end_campaign ttl st None (en_elector s p))\<lparr>el_lost := True\<rparr>))"
| late_script: "el_lost (en_elector s p) \<Longrightarrow>
    elect_step timely ttl k tok s (s\<lparr>en_redis := fst (acquireScript (en_redis s) k (tok p) (Milliseconds ttl))\<rparr>)"
| resigns: "\<not> el_stopped (en_elector s p) \<Longrightarrow> el_campaign (en_elector s p) = None \<Longrightarrow>
    elect_step timely ttl k tok s (put_elector s p (resign_local (en_elector s p)))"
| release_runs: "el_stopped (en_elector s p) \<Longrightarrow>
    elect_step timely ttl k tok s (s\<lparr>en_redis := fst (releaseScript (en_redis s) k (tok p))\<rparr>)"
| time_passes: "0 \<le> d \<Longrightarrow> (\<And>p. tick_ok timely ttl (en_elector s p) (c p) d) \<Longrightarrow>
    elect_step timely ttl k tok s
      \<lparr>en_redis = (en_redis s)\<lparr>rd_now := rd_now (en_redis s) + d\<rparr>,
       en_elector = (\<lambda>p. (en_elector s p)\<lparr>el_clock := c p\<rparr>)\<rparr>"

text \<open>Every process starts idle, with nothing assumed of the server: the lease may be held.\<close>

definition fresh_electors :: "Election \<Rightarrow> bool" where
  "fresh_electors s \<longleftrightarrow>
     (\<forall>p. el_validUntil (en_elector s p) = None \<and> \<not> el_leading (en_elector s p) \<and> el_campaign (en_elector s p) = None \<and>
          el_next (en_elector s p) = None \<and> \<not> el_stopped (en_elector s p) \<and> \<not> el_lost (en_elector s p))"

section \<open>Who holds the lease\<close>

text \<open>What a process believes for a while after a campaign that started at \<open>st\<close> is what the server will keep true that long:
  \<open>f\<close> is how much faster the server's clock may run.\<close>

definition covers :: "int \<Rightarrow> string \<Rightarrow> string \<Rightarrow> Redis \<Rightarrow> int \<Rightarrow> int \<Rightarrow> bool" where
  "covers f k t r now until \<longleftrightarrow>
     (now < until \<longrightarrow> redis_get r k = Some t \<and> f * (until - now) \<le> remaining r k)"

definition belief :: "int \<Rightarrow> int \<Rightarrow> int \<Rightarrow> string \<Rightarrow> string \<Rightarrow> Redis \<Rightarrow> Elector \<Rightarrow> bool" where
  "belief f h ttl k t r e \<longleftrightarrow>
     (\<forall>st. el_validUntil e = Some (st + validity ttl) \<longrightarrow>
        st \<le> el_clock e \<and> covers f k t r (el_clock e) (st + h)) \<and>
     (\<forall>st n. el_campaign e = Some (st, n) \<longrightarrow> st \<le> el_clock e \<and> (n = Some 1 \<longrightarrow> covers f k t r (el_clock e) (st + h))) \<and>
     (el_stopped e \<longrightarrow> el_validUntil e = None \<and> el_campaign e = None)"

definition lease_inv :: "int \<Rightarrow> int \<Rightarrow> int \<Rightarrow> string \<Rightarrow> (nat \<Rightarrow> string) \<Rightarrow> Election \<Rightarrow> bool" where
  "lease_inv f h ttl k tok s \<longleftrightarrow> (\<forall>p. belief f h ttl k (tok p) (en_redis s) (en_elector s p))"

lemma covers_acquire:
  assumes "covers f k t r now until" and "0 \<le> until - now \<Longrightarrow> f * (until - now) \<le> ms * nanosPerMilli" and "0 < ms"
  shows "covers f k t (fst (acquireScript r k u ms)) now until"
  using assms by (auto simp: covers_def acquire_cases get_set_px)

lemma covers_release: "covers f k t r now until \<Longrightarrow> u \<noteq> t \<Longrightarrow> covers f k t (fst (releaseScript r k u)) now until"
  by (auto simp: covers_def release_cases)

lemma covers_later:
  assumes "covers f k t r now until" and "0 \<le> d" and "d \<le> f * (now' - now)" and "now \<le> now'" and "0 < f"
  shows "covers f k t (r\<lparr>rd_now := rd_now r + d\<rparr>) now' until"
proof -
  have "redis_get (r\<lparr>rd_now := rd_now r + d\<rparr>) k = Some t \<and> f * (until - now') \<le> remaining r k - d"
    if "now' < until"
  proof -
    have h: "redis_get r k = Some t" "f * (until - now) \<le> remaining r k"
      using assms(1,4) that by (auto simp: covers_def)
    have "f * (until - now') + f * (now' - now) = f * (until - now)"
      by (simp add: algebra_simps)
    then have le: "f * (until - now') \<le> remaining r k - d"
      using h(2) assms(3) by linarith
    moreover have "0 < f * (until - now')"
      using that assms(5) by simp
    ultimately show ?thesis
      using h(1) by (auto simp: redis_get_def remaining_def split: option.splits if_splits)
  qed
  then show ?thesis
    using assms(2) by (auto simp: covers_def remaining_def split: option.splits)
qed

lemmas elector_defs = start_campaign_def end_campaign_def next_tick_def settle_campaign_def setLeading_def
  resign_local_def

lemma put_elector_simps [simp]:
  "en_redis (put_elector s p e) = en_redis s"
  "en_elector (put_elector s p e) q = (if q = p then e else en_elector s q)"
  by (simp_all add: put_elector_def)

lemma start_belief: "belief f h ttl k t r e \<Longrightarrow> \<not> el_stopped e \<Longrightarrow> belief f h ttl k t r (start_campaign ttl e)"
  by (auto simp: belief_def start_campaign_def)

lemma end_belief:
  assumes "belief f h ttl k t r e" and "el_campaign e = Some (st, reply)" and "got = None \<or> got = reply"
  shows "belief f h ttl k t r (end_campaign ttl st got e)"
  using assms by (auto simp: belief_def elector_defs Let_def split: option.splits if_splits)

lemma lost_belief: "belief f h ttl k t r e \<Longrightarrow> belief f h ttl k t r (e\<lparr>el_lost := True\<rparr>)"
  by (simp add: belief_def)

lemma resign_belief: "belief f h ttl k t r e \<Longrightarrow> el_campaign e = None \<Longrightarrow> belief f h ttl k t r (resign_local e)"
  by (auto simp: belief_def elector_defs)

lemma acquire_belief:
  assumes "belief f h ttl k t r e" and "0 \<le> f" and "f * h \<le> lease_span ttl" and "0 < Milliseconds ttl"
  shows "belief f h ttl k t (fst (acquireScript r k u (Milliseconds ttl))) e"
proof -
  have bound: "f * (st + h - el_clock e) \<le> lease_span ttl" if "st \<le> el_clock e" for st
    using mult_left_mono [OF _ assms(2), of "st + h - el_clock e" h] that assms(3) by linarith
  have "covers f k t (fst (acquireScript r k u (Milliseconds ttl))) (el_clock e) (st + h)"
    if "covers f k t r (el_clock e) (st + h)" "st \<le> el_clock e" for st
    using that(1) bound [OF that(2)] assms(4) by (intro covers_acquire) (simp_all add: lease_span_def)
  then show ?thesis
    using assms(1) by (auto simp: belief_def)
qed

lemma ran_belief:
  assumes "belief f h ttl k t r e" and "el_campaign e = Some (st, None)" and "acquireScript r k t (Milliseconds ttl) = (r', n)"
    and "0 \<le> f" and "f * h \<le> lease_span ttl" and "0 < Milliseconds ttl"
  shows "belief f h ttl k t r' (e\<lparr>el_campaign := Some (st, Some n)\<rparr>)"
proof -
  have "belief f h ttl k t r' e"
    using acquire_belief [OF assms(1,4,5,6), of t] assms(3) by simp
  moreover have "st \<le> el_clock e"
    using assms(1,2) by (auto simp: belief_def)
  moreover have "covers f k t r' (el_clock e) (st + h)" if "n = 1" "st \<le> el_clock e"
  proof -
    have "r' = redis_set_px r k t (Milliseconds ttl)"
      using assms(3) that(1) by (simp add: acquire_cases split: if_splits)
    moreover have "f * (st + h - el_clock e) \<le> lease_span ttl"
      using mult_left_mono [OF _ assms(4), of "st + h - el_clock e" h] that(2) assms(5) by linarith
    ultimately show ?thesis
      using assms(6) by (simp add: covers_def get_set_px lease_span_def)
  qed
  ultimately show ?thesis
    using assms(2) by (auto simp: belief_def)
qed

lemma release_belief:
  "belief f h ttl k t r e \<Longrightarrow> u \<noteq> t \<or> el_stopped e \<Longrightarrow> belief f h ttl k t (fst (releaseScript r k u)) e"
  by (auto simp: belief_def intro: covers_release)

lemma later_belief:
  assumes "belief f h ttl k t r e" and "0 \<le> d" and "d \<le> f * (c - el_clock e)" and "el_clock e \<le> c" and "0 < f"
  shows "belief f h ttl k t (r\<lparr>rd_now := rd_now r + d\<rparr>) (e\<lparr>el_clock := c\<rparr>)"
  using assms(1,4) covers_later [OF _ assms(2,3,4,5)] by (force simp: belief_def)

definition speed :: "bool \<Rightarrow> int" where "speed timely = (if timely then 1 else 2)"

lemma tick_speed: "tick_ok timely ttl e c d \<Longrightarrow> el_clock e \<le> c \<and> d \<le> speed timely * (c - el_clock e)"
  by (auto simp: tick_ok_def speed_def split: if_splits)

lemma elect_step_lease_inv:
  assumes "elect_step timely ttl k tok s s'" and "lease_inv (speed timely) h ttl k tok s" and "inj tok"
    and "speed timely * h \<le> lease_span ttl" and "nanosPerMilli \<le> ttl"
  shows "lease_inv (speed timely) h ttl k tok s'"
proof -
  have f: "0 \<le> speed timely" "0 < speed timely"
    by (simp_all add: speed_def)
  have ms: "0 < Milliseconds ttl"
    using assms(5) by (simp add: Milliseconds_def nanosPerMilli_def pos_imp_zdiv_pos_iff)
  have inv: "belief (speed timely) h ttl k (tok q) (en_redis s) (en_elector s q)" for q
    using assms(2) by (simp add: lease_inv_def)
  show ?thesis
    using assms(1)
  proof cases
    case (campaign_starts p)
    then show ?thesis
      using inv by (auto simp: lease_inv_def may_start_def intro: start_belief)
  next
    case (script_runs p st r n)
    have "belief (speed timely) h ttl k (tok q) r (en_elector s q)" for q
      using acquire_belief [OF inv f(1) assms(4) ms, of q "tok p"] script_runs(3) by simp
    then show ?thesis
      using script_runs ran_belief [OF inv script_runs(2,3) f(1) assms(4) ms] by (simp add: lease_inv_def)
  next
    case (reply_arrives p st n)
    then show ?thesis
      using inv end_belief [OF inv [of p], of st "Some n" "Some n"] by (simp add: lease_inv_def)
  next
    case (call_fails p st reply)
    then show ?thesis
      using inv end_belief [OF inv [of p], of st reply None] by (simp add: lease_inv_def lost_belief)
  next
    case (late_script p)
    then show ?thesis
      using acquire_belief [OF inv f(1) assms(4) ms] by (simp add: lease_inv_def)
  next
    case (resigns p)
    then show ?thesis
      using inv by (auto simp: lease_inv_def intro: resign_belief)
  next
    case (release_runs p)
    have "belief (speed timely) h ttl k (tok q) (fst (releaseScript (en_redis s) k (tok p))) (en_elector s q)" for q
      using inv release_runs(2) assms(3) by (intro release_belief) (auto dest: injD)
    then show ?thesis
      using release_runs(1) by (simp add: lease_inv_def)
  next
    case (time_passes d c)
    then show ?thesis
      using later_belief [OF inv time_passes(2)] tick_speed [OF time_passes(3)] f(2) by (simp add: lease_inv_def)
  qed
qed

lemma elect_steps_lease_inv:
  assumes "(elect_step timely ttl k tok)\<^sup>*\<^sup>* s s'" and "fresh_electors s" and "inj tok"
    and "speed timely * h \<le> lease_span ttl" and "nanosPerMilli \<le> ttl"
  shows "lease_inv (speed timely) h ttl k tok s'"
  using assms(1)
proof (induction rule: rtranclp_induct)
  case base
  then show ?case
    using assms(2) by (simp add: lease_inv_def belief_def fresh_electors_def)
next
  case (step y z)
  then show ?case
    using elect_step_lease_inv assms(3-5) by blast
qed

section \<open>How long the flag outlives the last success\<close>

definition flag_fresh :: "int \<Rightarrow> Elector \<Rightarrow> bool" where
  "flag_fresh ttl e \<longleftrightarrow>
     (\<forall>b n. el_campaign e = Some (b, n) \<longrightarrow>
        b \<le> el_clock e \<and> el_clock e \<le> b + interval ttl div 2 \<and> (\<forall>t. el_next e = Some t \<longrightarrow> t = b + interval ttl)) \<and>
     (\<forall>t. el_campaign e = None \<and> \<not> el_stopped e \<and> el_next e = Some t \<longrightarrow> el_clock e \<le> t) \<and>
     (el_stopped e \<longrightarrow> \<not> el_leading e \<and> el_campaign e = None) \<and>
     (el_leading e \<longrightarrow>
        (\<exists>v. el_validUntil e = Some v \<and>
           (case el_campaign e of
              Some (b, n) \<Rightarrow> b < v + interval ttl
            | None \<Rightarrow> \<exists>t. el_next e = Some t \<and> t < v + interval ttl)))"

lemma spans: "nanosPerMilli \<le> ttl \<Longrightarrow>
  0 < interval ttl \<and> interval ttl div 2 < validity ttl \<and> validity ttl + interval ttl + interval ttl div 2 \<le> ttl
  \<and> validity ttl < ttl \<and> 2 * validity ttl \<le> ttl"
  unfolding nanosPerMilli_def interval_def validity_def by (intro conjI) linarith+

lemma flag_start:
  assumes "flag_fresh ttl e" and "may_start True e" and "nanosPerMilli \<le> ttl"
  shows "flag_fresh ttl (start_campaign ttl e)"
proof -
  have i: "0 \<le> interval ttl div 2"
    using spans [OF assms(3)] by simp
  have e: "\<not> el_stopped e" "el_campaign e = None" and nx: "el_next e = Some t \<Longrightarrow> el_clock e = t" for t
    using assms(2) by (auto simp: may_start_def)
  have "\<exists>v. el_validUntil e = Some v \<and> el_clock e < v + interval ttl" if "el_leading e"
    using assms(1) e(2) nx that by (auto simp: flag_fresh_def)
  then show ?thesis
    using e i nx by (auto simp: flag_fresh_def start_campaign_def split: option.splits)
qed

lemma end_campaign_simps [simp]:
  "el_clock (end_campaign ttl st got e) = el_clock e"
  "el_campaign (end_campaign ttl st got e) = None"
  "el_next (end_campaign ttl st got e) = Some (case el_next e of None \<Rightarrow> el_clock e + interval ttl | Some t \<Rightarrow> t)"
  "el_stopped (end_campaign ttl st got e) = el_stopped e"
  "el_validUntil (end_campaign ttl st got e) =
     (case got of None \<Rightarrow> el_validUntil e | Some n \<Rightarrow> if n = 1 then Some (st + validity ttl) else None)"
  "el_leading (end_campaign ttl st got e) = Before (el_clock e) (el_validUntil (end_campaign ttl st got e))"
  by (simp_all add: elector_defs Let_def split: option.split)

lemma Before_Some: "Before now u \<longleftrightarrow> (\<exists>t. u = Some t \<and> now < t)"
  by (cases u) (simp_all add: Before_def)

lemma flag_ran:
  assumes "flag_fresh ttl e" and "el_campaign e = Some (st, None)"
  shows "flag_fresh ttl (e\<lparr>el_campaign := Some (st, Some n)\<rparr>)"
  using assms by (auto simp: flag_fresh_def)

lemma flag_end:
  assumes "flag_fresh ttl e" and "el_campaign e = Some (st, reply)" and "nanosPerMilli \<le> ttl"
  shows "flag_fresh ttl (end_campaign ttl st got e)"
proof -
  have st: "st \<le> el_clock e" "el_clock e \<le> st + interval ttl div 2" "\<not> el_stopped e"
    and nx: "el_next e = Some t \<Longrightarrow> t = st + interval ttl" for t
    using assms(1,2) by (auto simp: flag_fresh_def)
  let ?t = "case el_next e of None \<Rightarrow> el_clock e + interval ttl | Some t \<Rightarrow> t"
  have t: "el_clock e \<le> ?t" "?t \<le> el_clock e + interval ttl" "?t \<le> st + interval ttl div 2 + interval ttl"
    using st nx spans [OF assms(3)] by (auto split: option.splits)
  have "?t < v + interval ttl" if "el_clock e < v" for v
    using t that by linarith
  moreover have "?t < st + validity ttl + interval ttl"
    using t spans [OF assms(3)] by linarith
  ultimately show ?thesis
    using st(3) t(1) by (auto simp: flag_fresh_def Before_Some split: option.splits if_splits)
qed

lemma flag_tick: "flag_fresh ttl e \<Longrightarrow> tick_ok True ttl e c d \<Longrightarrow> flag_fresh ttl (e\<lparr>el_clock := c\<rparr>)"
  by (auto simp: flag_fresh_def tick_ok_def split: option.splits)

lemma flag_resign: "flag_fresh ttl e \<Longrightarrow> el_campaign e = None \<Longrightarrow> flag_fresh ttl (resign_local e)"
  by (auto simp: flag_fresh_def elector_defs)

lemma elect_step_flag:
  assumes "elect_step True ttl k tok s s'" and "nanosPerMilli \<le> ttl" and "\<And>p. flag_fresh ttl (en_elector s p)"
  shows "flag_fresh ttl (en_elector s' p)"
  using assms(1)
proof cases
  case (campaign_starts q)
  then show ?thesis
    using assms(2,3) flag_start by simp
next
  case (script_runs q st r n)
  then show ?thesis
    using flag_ran [OF assms(3) [of q]] assms(3) [of p] by simp
next
  case (reply_arrives q st n)
  then show ?thesis
    using assms(2,3) flag_end by simp
next
  case (call_fails q st reply)
  have "flag_fresh ttl (end_campaign ttl st None (en_elector s q))"
    using assms(2,3) call_fails(2) by (intro flag_end)
  then show ?thesis
    using call_fails assms(3) by (simp add: flag_fresh_def)
next
  case (resigns q)
  then show ?thesis
    using assms(3) flag_resign by simp
next
  case (time_passes d c)
  then show ?thesis
    using flag_tick [OF assms(3) time_passes(3)] by simp
qed (simp_all add: assms(3))

lemma elect_steps_flag:
  assumes "(elect_step True ttl k tok)\<^sup>*\<^sup>* s s'" and "nanosPerMilli \<le> ttl" and "fresh_electors s"
  shows "flag_fresh ttl (en_elector s' p)"
  using assms(1)
proof (induction arbitrary: p rule: rtranclp_induct)
  case base
  then show ?case
    using assms(3) by (simp add: fresh_electors_def flag_fresh_def)
next
  case (step y z)
  then show ?case
    using elect_step_flag assms(2) by blast
qed

lemma flag_horizon:
  assumes "flag_fresh ttl e" and "el_leading e" and "nanosPerMilli \<le> ttl"
  shows "\<exists>st. el_validUntil e = Some (st + validity ttl) \<and> el_clock e < st + ttl"
proof -
  from assms(1,2) obtain v where v: "el_validUntil e = Some v" and "el_clock e < v + interval ttl + interval ttl div 2"
    using spans [OF assms(3)] by (fastforce simp: flag_fresh_def split: option.splits)
  then have "v = (v - validity ttl) + validity ttl" "el_clock e < (v - validity ttl) + ttl"
    using spans [OF assms(3)] by simp_all
  then show ?thesis
    using v by metis
qed

lemma holder_of_belief:
  assumes "lease_inv f h ttl k tok s" and "el_validUntil (en_elector s q) = Some (st + validity ttl)"
    and "el_clock (en_elector s q) < st + h"
  shows "redis_get (en_redis s) k = Some (tok q)"
  using assms by (simp add: lease_inv_def belief_def covers_def)

lemma single_holder:
  assumes "\<And>q. P q \<Longrightarrow> redis_get r k = Some (tok q)" and "inj tok" and "P p"
  shows "redis_get r k = Some (tok p) \<and> (\<forall>q. P q \<longrightarrow> q = p)"
  using assms by (metis injD option.inject)

section \<open>At most one leader\<close>

text \<open>C5: Two processes never lead at once: whatever the interleaving of campaigns, scripts, lost replies, late scripts,
  resignations and releases, and with every clock its own as long as the server's runs at most twice as fast as any
  process's, at most one process that campaigns for a lease reports itself leading. It holds the lease on the server.\<close>

theorem one_process_leads:
  assumes "(elect_step False ttl k tok)\<^sup>*\<^sup>* s s'" and "fresh_electors s" and "inj tok"
    and "nanosPerMilli dvd ttl" and "nanosPerMilli \<le> ttl" and "Leading (en_elector s' p)"
  shows "redis_get (en_redis s') k = Some (tok p) \<and> (\<forall>q. Leading (en_elector s' q) \<longrightarrow> q = p)"
proof -
  have inv: "lease_inv (speed False) (validity ttl) ttl k tok s'"
    using elect_steps_lease_inv [OF assms(1,2,3) _ assms(5)] spans [OF assms(5)] lease_span_dvd [OF assms(4)]
    by (simp add: speed_def)
  have "redis_get (en_redis s') k = Some (tok q)" if q: "Leading (en_elector s' q)" for q
  proof -
    from q obtain v where "el_validUntil (en_elector s' q) = Some v" "el_clock (en_elector s' q) < v"
      by (auto simp: Leading_def Before_Some)
    then show ?thesis
      using holder_of_belief [OF inv, of q "v - validity ttl"] by simp
  qed
  from single_holder [of "\<lambda>q. Leading (en_elector s' q)", OF this assms(3,6)] show ?thesis .
qed


text \<open>A process that starts on a free lease leads; another one is refused.\<close>

definition sample_tok :: "nat \<Rightarrow> string" where "sample_tok p = replicate p (CHR ''t'')"

definition idle_elector :: "Elector" where
  "idle_elector = \<lparr>el_clock = 0, el_validUntil = None, el_leading = False, el_campaign = None, el_next = None,
     el_stopped = False, el_lost = False\<rparr>"

definition sample_election :: Election where
  "sample_election = \<lparr>en_redis = \<lparr>rd_now = 0, rd_keys = (\<lambda>_. None)\<rparr>, en_elector = (\<lambda>_. idle_elector)\<rparr>"

definition first_leads :: Election where
  "first_leads = put_elector
     (sample_election\<lparr>en_redis := redis_set_px (en_redis sample_election) (leaderKey ''control-plane'') (sample_tok 1) 30000\<rparr>) 1
     (idle_elector\<lparr>el_validUntil := Some 15000000000, el_leading := True, el_next := Some 10000000000\<rparr>)"

lemma sample_tok_inj: "inj sample_tok"
  by (rule injI) (metis length_replicate sample_tok_def)

lemma sample_fresh: "fresh_electors sample_election"
  by (simp add: fresh_electors_def sample_election_def idle_elector_def)

lemma defaultTTL_facts: "nanosPerMilli dvd defaultTTL" "nanosPerMilli \<le> defaultTTL" "Milliseconds defaultTTL = 30000"
  by (simp_all add: nanosPerMilli_def defaultTTL_def Milliseconds_def)

lemma first_leads_reached:
  "(elect_step timely defaultTTL (leaderKey ''control-plane'') sample_tok)\<^sup>*\<^sup>* sample_election first_leads"
proof -
  let ?step = "elect_step timely defaultTTL (leaderKey ''control-plane'') sample_tok"
  let ?s1 = "put_elector sample_election 1 (idle_elector\<lparr>el_campaign := Some (0, None)\<rparr>)"
  let ?s2 = "put_elector (?s1\<lparr>en_redis := redis_set_px (en_redis sample_election) (leaderKey ''control-plane'')
    (sample_tok 1) 30000\<rparr>) 1 (idle_elector\<lparr>el_campaign := Some (0, Some 1)\<rparr>)"
  have e: "en_elector sample_election p = idle_elector" for p
    by (simp add: sample_election_def)
  have "?step sample_election ?s1"
    using campaign_starts [of timely sample_election 1]
    by (simp add: e may_start_def start_campaign_def idle_elector_def)
  moreover have "?step ?s1 ?s2"
    using script_runs [of ?s1 1 0 "leaderKey ''control-plane''" sample_tok defaultTTL _ 1 timely]
    by (simp add: acquire_cases redis_get_def sample_election_def idle_elector_def defaultTTL_facts)
  moreover have "?step ?s2 first_leads"
    using reply_arrives [of ?s2 1 0 1 timely defaultTTL "leaderKey ''control-plane''" sample_tok]
    by (simp add: first_leads_def put_elector_def end_campaign_def next_tick_def settle_campaign_def setLeading_def
        idle_elector_def Before_def validity_def interval_def defaultTTL_def)
  ultimately show ?thesis
    by (meson rtranclp.rtrancl_into_rtrancl rtranclp.rtrancl_refl)
qed

lemma first_leads_elector: "Leading (en_elector first_leads 1)" "el_leading (en_elector first_leads 1)"
  by (simp_all add: first_leads_def Leading_def Before_def idle_elector_def)

theorem one_process_leads_witness:
  "Leading (en_elector first_leads 1) \<and> redis_get (en_redis first_leads) (leaderKey ''control-plane'') = Some (sample_tok 1)
   \<and> {q. Leading (en_elector first_leads q)} = {1}"
  using first_leads_elector(1)
    one_process_leads [OF first_leads_reached sample_fresh sample_tok_inj defaultTTL_facts(1,2) first_leads_elector(1)]
  by blast


text \<open>C21: A standby takes over: once the leader's release has run, or its lease has outlived its time, the next campaign of
  any other process whose reply comes back within its validity makes that process the leader and the holder.\<close>

theorem standby_takes_over:
  assumes "redis_get r k = Some (tok p)" and "nanosPerMilli \<le> ttl" and "el_clock e < st + validity ttl"
    and "r1 = fst (releaseScript r k (tok p)) \<or> (\<exists>d. remaining r k \<le> d \<and> r1 = r\<lparr>rd_now := rd_now r + d\<rparr>)"
  shows "let (r2, n) = acquireScript r1 k (tok q) (Milliseconds ttl)
    in Leading (settle_campaign ttl st (Some n) e) \<and> redis_get r2 k = Some (tok q)"
proof -
  have "0 < Milliseconds ttl"
    using assms(2) by (simp add: Milliseconds_def nanosPerMilli_def pos_imp_zdiv_pos_iff)
  moreover have "redis_get r1 k = None"
    using assms(1,4) by (auto simp: release_cases get_del redis_get_def remaining_def split: option.splits if_splits)
  ultimately show ?thesis
    using assms(3)
    by (simp add: acquire_cases get_set_px settle_campaign_def setLeading_def Leading_def Before_def Let_def)
qed

theorem standby_takes_over_witness:
  "let r = redis_set_px \<lparr>rd_now = 0, rd_keys = (\<lambda>_. None)\<rparr> ''k'' (sample_tok 1) 30000;
       (r2, n) = acquireScript (fst (releaseScript r ''k'' (sample_tok 1))) ''k'' (sample_tok 2) (Milliseconds defaultTTL)
   in Leading (settle_campaign defaultTTL 0 (Some n) idle_elector) \<and> redis_get r2 ''k'' = Some (sample_tok 2)"
  unfolding Let_def
  by (rule standby_takes_over [where tok = sample_tok, unfolded Let_def, OF _ defaultTTL_facts(2) _ disjI1 [OF refl]])
    (simp_all add: get_set_px idle_elector_def validity_def defaultTTL_def)

text \<open>A single failed renewal does stop a leader, against the comment on \<^verbatim>\<open>newElector\<close>: the validity of half the time to
  live ends before the second tick after the last success, at two thirds of it, so \<^verbatim>\<open>Leading\<close> is false from then to the
  next successful campaign however fast the failed one was, while the flag stays up.\<close>

theorem failed_renewal_interrupts_leading:
  assumes "nanosPerMilli \<le> ttl" and "el_clock e = st" and "st + interval ttl \<le> t1" and "t1 < st + validity ttl"
    and "st + validity ttl \<le> t2"
  shows "let e1 = settle_campaign ttl st (Some 1) e;
             e2 = settle_campaign ttl t1 None (e1\<lparr>el_clock := t1\<rparr>);
             e3 = e2\<lparr>el_clock := t2\<rparr>
         in Leading e1 \<and> el_leading e3 \<and> \<not> Leading e3 \<and> st + validity ttl < st + 2 * interval ttl"
proof -
  have "validity ttl < 2 * interval ttl" "0 < validity ttl"
    using assms(1) unfolding nanosPerMilli_def interval_def validity_def by linarith+
  then show ?thesis
    using assms(2-5) by (simp add: settle_campaign_def setLeading_def Leading_def Before_def Let_def)
qed

theorem failed_renewal_interrupts_leading_witness:
  "let e1 = settle_campaign defaultTTL 0 (Some 1) idle_elector;
       e2 = settle_campaign defaultTTL 10000000001 None (e1\<lparr>el_clock := 10000000001\<rparr>);
       e3 = e2\<lparr>el_clock := 15000000000\<rparr>
   in Leading e1 \<and> el_leading e3 \<and> \<not> Leading e3 \<and> 0 + validity defaultTTL < 0 + 2 * interval defaultTTL"
  by (rule failed_renewal_interrupts_leading)
    (simp_all add: defaultTTL_facts idle_elector_def interval_def validity_def, simp_all add: defaultTTL_def)

section \<open>The deploy lock\<close>

text \<open>One deploy of an app is one lease, as every acquisition makes its own. The refresher stops when it sees that the lease
  is lost; the deploy itself is not told.\<close>

datatype deploy_phase = DeployQueued | DeployRunning bool | DeployDone

definition is_running :: "deploy_phase \<Rightarrow> bool" where
  "is_running d = (case d of DeployRunning _ \<Rightarrow> True | _ \<Rightarrow> False)"

record DeployQueue =
  dq_redis :: Redis
  dq_deploy :: "nat \<Rightarrow> deploy_phase"

definition put_deploy :: "DeployQueue \<Rightarrow> nat \<Rightarrow> deploy_phase \<Rightarrow> DeployQueue" where
  "put_deploy s w d = s\<lparr>dq_deploy := (dq_deploy s)(w := d)\<rparr>"

abbreviation deploy_lock :: "nat \<Rightarrow> string \<Rightarrow> Lease" where
  "deploy_lock app tok \<equiv> NewLease (deployLockKey app) deployLockTTL tok"

text \<open>\<open>prompt\<close> asks that a running deploy's next refresh comes before its lease runs out.\<close>

inductive lock_step :: "bool \<Rightarrow> nat \<Rightarrow> (nat \<Rightarrow> string) \<Rightarrow> DeployQueue \<Rightarrow> DeployQueue \<Rightarrow> bool"
  for prompt app tok where
  lock_acquired: "dq_deploy s w = DeployQueued \<Longrightarrow> Lease_Acquire (dq_redis s) (deploy_lock app (tok w)) = (r, True) \<Longrightarrow>
    lock_step prompt app tok s (put_deploy (s\<lparr>dq_redis := r\<rparr>) w (DeployRunning True))"
| lock_deferred: "dq_deploy s w = DeployQueued \<Longrightarrow> Lease_Acquire (dq_redis s) (deploy_lock app (tok w)) = (r, False) \<Longrightarrow>
    lock_step prompt app tok s (s\<lparr>dq_redis := r\<rparr>)"
| lock_refreshed: "dq_deploy s w = DeployRunning True \<Longrightarrow>
    Lease_Refresh (dq_redis s) (deploy_lock app (tok w)) = (r, held) \<Longrightarrow>
    lock_step prompt app tok s (put_deploy (s\<lparr>dq_redis := r\<rparr>) w (DeployRunning held))"
| deploy_ends: "dq_deploy s w = DeployRunning h \<Longrightarrow>
    lock_step prompt app tok s
      (put_deploy (s\<lparr>dq_redis := Lease_Release (dq_redis s) (deploy_lock app (tok w))\<rparr>) w DeployDone)"
| release_fails: "dq_deploy s w = DeployRunning h \<Longrightarrow> lock_step prompt app tok s (put_deploy s w DeployDone)"
| lock_time: "0 \<le> d \<Longrightarrow>
    (\<And>w. prompt \<Longrightarrow> dq_deploy s w = DeployRunning True \<Longrightarrow> d < remaining (dq_redis s) (deployLockKey app)) \<Longrightarrow>
    lock_step prompt app tok s (s\<lparr>dq_redis := (dq_redis s)\<lparr>rd_now := rd_now (dq_redis s) + d\<rparr>\<rparr>)"

definition lock_inv :: "nat \<Rightarrow> (nat \<Rightarrow> string) \<Rightarrow> DeployQueue \<Rightarrow> bool" where
  "lock_inv app tok s \<longleftrightarrow>
     (\<forall>w. is_running (dq_deploy s w) \<longrightarrow>
        dq_deploy s w = DeployRunning True \<and> redis_get (dq_redis s) (deployLockKey app) = Some (tok w))"

lemma put_deploy_simps [simp]:
  "dq_redis (put_deploy s w d) = dq_redis s"
  "dq_deploy (put_deploy s w d) v = (if v = w then d else dq_deploy s v)"
  by (simp_all add: put_deploy_def)

lemma is_running_simps [simp]:
  "is_running (DeployRunning h)" "\<not> is_running DeployQueued" "\<not> is_running DeployDone"
  by (simp_all add: is_running_def)

lemma later_get: "redis_get r k = Some t \<Longrightarrow> d < remaining r k \<Longrightarrow> redis_get (r\<lparr>rd_now := rd_now r + d\<rparr>) k = Some t"
  by (auto simp: redis_get_def remaining_def split: option.splits if_splits)

lemma lock_step_inv:
  assumes "lock_step True app tok s s'" and "lock_inv app tok s" and "inj tok"
  shows "lock_inv app tok s'"
  using assms(1)
proof cases
  case (lock_acquired w r)
  have "snd (Lease_Acquire (dq_redis s) (deploy_lock app (tok w)))"
    using lock_acquired(3) by simp
  then have h: "redis_get (dq_redis s) (deployLockKey app) \<in> {None, Some (tok w)}"
    "redis_get r (deployLockKey app) = Some (tok w)"
    using deploy_lease.acquire_iff [of "dq_redis s" app "tok w"] deploy_lease.acquire_holds [of "dq_redis s" app "tok w"]
      lock_acquired(3) by auto
  then have "\<not> is_running (dq_deploy s v)" if "v \<noteq> w" for v
    using assms(2) that by (auto simp: lock_inv_def inj_eq [OF assms(3)])
  then show ?thesis
    using h(2) lock_acquired(1) by (auto simp: lock_inv_def)
next
  case (lock_deferred w r)
  then have "r = dq_redis s"
    using deploy_lease.acquire_refused [of "dq_redis s" app "tok w"] by simp
  then show ?thesis
    using lock_deferred(1) assms(2) by (simp add: lock_inv_def)
next
  case (lock_refreshed w r held)
  have "redis_get (dq_redis s) (deployLockKey app) = Some (tok w)"
    using assms(2) lock_refreshed(2) by (simp add: lock_inv_def)
  then have "held" "redis_get r (deployLockKey app) = redis_get (dq_redis s) (deployLockKey app)"
    using deploy_lease.refresh_iff [of "dq_redis s" app "tok w"] deploy_lease.refresh_keeps [of "dq_redis s" app "tok w"]
      lock_refreshed(3) by simp_all
  then show ?thesis
    using lock_refreshed(1,2) assms(2) by (simp add: lock_inv_def)
next
  case (deploy_ends w h)
  have "redis_get (Lease_Release (dq_redis s) (deploy_lock app (tok w))) (deployLockKey app) = Some (tok v)"
    if "v \<noteq> w" "redis_get (dq_redis s) (deployLockKey app) = Some (tok v)" for v
    using deploy_lease.release_stable [OF that(2), of "tok w"] that(1) assms(3) by (auto dest: injD)
  then show ?thesis
    using deploy_ends(1) assms(2) by (simp add: lock_inv_def)
next
  case (release_fails w h)
  then show ?thesis
    using assms(2) by (simp add: lock_inv_def)
next
  case (lock_time d)
  then show ?thesis
    using assms(2) later_get by (fastforce simp: lock_inv_def)
qed

lemma lock_steps_inv:
  assumes "(lock_step True app tok)\<^sup>*\<^sup>* s s'" and "lock_inv app tok s" and "inj tok"
  shows "lock_inv app tok s'"
  using assms(1,2) by (induction rule: rtranclp_induct) (use assms(3) lock_step_inv in blast)+

text \<open>C20: Deploys of one app exclude each other while their locks are renewed in time: from a queue of waiting deploys, no
  interleaving of acquisitions, refreshes and releases, failed ones included, has two of them running.\<close>

theorem deploys_exclude_each_other:
  assumes "(lock_step True app tok)\<^sup>*\<^sup>* s s'" and "\<And>w. dq_deploy s w = DeployQueued" and "inj tok"
    and "is_running (dq_deploy s' v)" and "is_running (dq_deploy s' w)"
  shows "v = w"
proof -
  have "lock_inv app tok s'"
    using lock_steps_inv [OF assms(1) _ assms(3)] assms(2) by (simp add: lock_inv_def)
  then show ?thesis
    using assms(4,5) by (metis lock_inv_def assms(3) injD option.inject)
qed

definition sample_queue :: DeployQueue where
  "sample_queue = \<lparr>dq_redis = \<lparr>rd_now = 0, rd_keys = (\<lambda>_. None)\<rparr>, dq_deploy = (\<lambda>_. DeployQueued)\<rparr>"

definition sample_locked :: DeployQueue where
  "sample_locked = put_deploy
     (sample_queue\<lparr>dq_redis := redis_set_px (dq_redis sample_queue) (deployLockKey 3) (sample_tok 1) 60000\<rparr>) 1 (DeployRunning True)"

lemma deployLock_millis: "Milliseconds deployLockTTL = 60000"
  by (simp add: Milliseconds_def deployLockTTL_def nanosPerMilli_def)

lemma sample_lock_step: "lock_step prompt 3 sample_tok sample_queue sample_locked"
proof -
  have "Lease_Acquire (dq_redis sample_queue) (deploy_lock 3 (sample_tok 1))
    = (redis_set_px (dq_redis sample_queue) (deployLockKey 3) (sample_tok 1) 60000, True)"
    by (simp add: Lease_Acquire_def NewLease_def acquire_cases deployLock_millis redis_get_def sample_queue_def)
  then show ?thesis
    unfolding sample_locked_def by (intro lock_acquired) (simp add: sample_queue_def)
qed

theorem deploys_exclude_each_other_witness:
  "{v. is_running (dq_deploy sample_locked v)} = {1}"
proof -
  have "is_running (dq_deploy sample_locked 1)"
    by (simp add: sample_locked_def)
  moreover have "(lock_step True 3 sample_tok)\<^sup>*\<^sup>* sample_queue sample_locked"
    using sample_lock_step by (rule r_into_rtranclp)
  then have "v = 1" if "is_running (dq_deploy sample_locked v)" for v
    by (rule deploys_exclude_each_other) (simp_all add: sample_queue_def sample_tok_inj that, simp add: sample_locked_def)
  ultimately show ?thesis
    by blast
qed

text \<open>A deploy that loses its lock runs on: once refreshes have failed for the time to live, a second deploy of the same
  app acquires the lock and both are running. \<^verbatim>\<open>DeployLock\<close> promises that deploys are serialized per app.\<close>

theorem lost_lock_runs_two_deploys:
  "\<exists>s. (lock_step False 3 sample_tok)\<^sup>*\<^sup>* sample_queue s \<and> is_running (dq_deploy s 1) \<and> is_running (dq_deploy s 2)"
proof -
  let ?r = "(dq_redis sample_locked)\<lparr>rd_now := rd_now (dq_redis sample_locked) + 60000000000\<rparr>"
  let ?s = "sample_locked\<lparr>dq_redis := ?r\<rparr>"
  obtain r where r: "Lease_Acquire (dq_redis ?s) (deploy_lock 3 (sample_tok 2)) = (r, True)"
    by (simp add: Lease_Acquire_def NewLease_def acquire_cases redis_get_def sample_locked_def sample_queue_def
        redis_set_px_def nanosPerMilli_def)
  have "lock_step False 3 sample_tok sample_locked ?s"
    by (rule lock_time) simp_all
  moreover have "lock_step False 3 sample_tok ?s (put_deploy (?s\<lparr>dq_redis := r\<rparr>) 2 (DeployRunning True))"
    using r by (intro lock_acquired) (simp_all add: sample_locked_def sample_queue_def)
  ultimately have "(lock_step False 3 sample_tok)\<^sup>*\<^sup>* sample_queue (put_deploy (?s\<lparr>dq_redis := r\<rparr>) 2 (DeployRunning True))"
    using sample_lock_step by (meson rtranclp.rtrancl_into_rtrancl rtranclp.rtrancl_refl)
  then show ?thesis
    by (intro exI [where x = "put_deploy (?s\<lparr>dq_redis := r\<rparr>) 2 (DeployRunning True)"] conjI) (simp_all add: sample_locked_def)
qed

end
