(* ===== verification/Control_Manager.thy ===== *)
theory Control_Manager
  imports Go_Prelude
begin

text \<open>
  The control manager: \<^verbatim>\<open>internal/services/controlmanager\<close> (\<^verbatim>\<open>controlmanager.go\<close>: what is expected to run;
  \<^verbatim>\<open>observe.go\<close>: what the engines show of it; \<^verbatim>\<open>state.go\<close>: findings, confirmation and blocking; \<^verbatim>\<open>act.go\<close>: what is
  restored, with its budgets, backoff and breaker), the drift vocabulary of \<^verbatim>\<open>internal/drift\<close> and the guard of
  \<^verbatim>\<open>internal/datavolume/guard.go\<close> that a starting workload passes.

  A sweep reads the tables and the engines. A table that could not be read is \<open>None\<close>, as is a call to an engine that
  failed. The clock is read once when a sweep starts and once when it records and acts. Times are nanoseconds.
\<close>

section \<open>What the sweep reads\<close>

datatype Mode = ModeOff | ModeObserve | ModeEnforce

abbreviation kindContainer :: string where "kindContainer \<equiv> ''container''"
abbreviation kindService :: string where "kindService \<equiv> ''service''"
abbreviation kindVolume :: string where "kindVolume \<equiv> ''volume''"
abbreviation kindGateway :: string where "kindGateway \<equiv> ''gateway''"

abbreviation ClassMissing :: string where "ClassMissing \<equiv> ''missing''"
abbreviation ClassReplaced :: string where "ClassReplaced \<equiv> ''replaced''"

abbreviation ActionRedeploy :: string where "ActionRedeploy \<equiv> ''redeploy''"
abbreviation ActionRestore :: string where "ActionRestore \<equiv> ''restore''"
abbreviation ActionNone :: string where "ActionNone \<equiv> ''none''"

abbreviation OwnerApp :: string where "OwnerApp \<equiv> ''app''"
abbreviation OwnerDatabase :: string where "OwnerDatabase \<equiv> ''database''"
abbreviation OwnerVolume :: string where "OwnerVolume \<equiv> ''volume''"
abbreviation OwnerNode :: string where "OwnerNode \<equiv> ''node''"

abbreviation RuntimeService :: string where "RuntimeService \<equiv> ''service''"
abbreviation VolumeDriverHost :: string where "VolumeDriverHost \<equiv> ''host''"
abbreviation VolumeDriverNFS :: string where "VolumeDriverNFS \<equiv> ''nfs''"
abbreviation VolumeDriverCIFS :: string where "VolumeDriverCIFS \<equiv> ''cifs''"
abbreviation ConnectivityEdgeGateway :: string where "ConnectivityEdgeGateway \<equiv> ''edge-gateway''"
abbreviation BackupCompleted :: string where "BackupCompleted \<equiv> ''completed''"

record AppMount =
  mt_VolumeID :: nat
  mt_DockerName :: string
  mt_HostPreset :: string
  mt_HostPath :: string
  mt_ConfigID :: nat

record Application =
  ap_ID :: nat
  ap_WorkspaceID :: nat
  ap_ServerID :: nat
  ap_ClusterID :: nat
  ap_Name :: string
  ap_Alias :: string
  ap_RuntimeKind :: string
  ap_ReconcilePolicy :: string
  ap_Status :: string
  ap_CurrentReleaseID :: "nat option"
  ap_Mounts :: "AppMount list"

record Volume =
  vo_ID :: nat
  vo_WorkspaceID :: nat
  vo_ServerID :: nat
  vo_ClusterID :: nat
  vo_Name :: string
  vo_DockerName :: string
  vo_Driver :: string
  vo_EngineCreatedAt :: string

record DatabaseInstance =
  di_ID :: nat
  di_WorkspaceID :: nat
  di_ServerID :: nat
  di_ClusterID :: nat
  di_Name :: string
  di_VolumeName :: string
  di_VolumeEngineCreatedAt :: string

record Server =
  sv_ID :: nat
  sv_ClusterID :: nat
  sv_Name :: string
  sv_Connectivity :: string
  sv_GatewayContainer :: string
  sv_GatewayDeployed :: bool
  sv_GatewayImported :: bool
  sv_IsLocal :: bool
  sv_Cordoned :: bool

record Deployment =
  dp_ID :: nat
  dp_ApplicationID :: nat
  dp_Status :: string

record Backup =
  bk_ID :: nat
  bk_Owner :: nat
  bk_Status :: string
  bk_Ref :: string

record Tables =
  tb_apps :: "Application list option"
  tb_deployments :: "Deployment list option"
  tb_volumes :: "Volume list option"
  tb_instances :: "DatabaseInstance list option"
  tb_servers :: "Server list option"
  tb_releases :: "(nat \<times> string) list"
  tb_configs :: "(nat \<times> nat) list"
  tb_suspended :: "nat list"
  tb_volumeBackups :: "Backup list option"
  tb_recoveryPoints :: "Backup list option"
  tb_mode :: string

text \<open>What the engines answer. \<open>en_since\<close>: \<open>None\<close> when no agent is connected, \<open>Some None\<close> for the zero time.\<close>

datatype inspected = InspectFound string | InspectNotFound | InspectFailed

record Engines =
  eg_since :: "nat \<Rightarrow> int option option"
  eg_for :: "nat \<Rightarrow> bool"
  eg_containers :: "nat \<Rightarrow> string list option"
  eg_volumes :: "nat \<Rightarrow> (string \<times> string) list option"
  eg_container :: "nat \<Rightarrow> string \<Rightarrow> inspected"
  eg_manager :: "nat \<Rightarrow> bool"
  eg_service :: "nat \<Rightarrow> string \<Rightarrow> inspected"

text \<open>Which optional collaborators are wired.\<close>

record Wiring =
  wi_redeployer :: bool
  wi_servers :: bool
  wi_gateways :: bool
  wi_placement :: bool
  wi_suspended :: bool
  wi_configs :: bool
  wi_volumeBackups :: bool
  wi_dbBackups :: bool

definition ParseMode :: "string \<Rightarrow> Mode" where
  "ParseMode v =
     (let m = ToLower (TrimSpace v) in
      if m = ''off'' then ModeOff else if m = ''enforce'' then ModeEnforce else ModeObserve)"

text \<open>The apps expected to run, and those with a deploy under way.\<close>

definition ListReconcilable :: "Tables \<Rightarrow> Application list option" where
  "ListReconcilable t = map_option
     (filter (\<lambda>a. ap_CurrentReleaseID a \<noteq> None \<and> ap_Status a \<notin> {''created'', ''deploying'', ''stopped''})) (tb_apps t)"

definition InProgressAppIDs :: "Tables \<Rightarrow> nat list option" where
  "InProgressAppIDs t = map_option
     (\<lambda>ds. remdups (map dp_ApplicationID
        (filter (\<lambda>d. dp_Status d \<in> {''pending'', ''building'', ''deploying''}) ds))) (tb_deployments t)"

definition IsTerminal :: "string \<Rightarrow> bool" where
  "IsTerminal s \<longleftrightarrow> s = ''succeeded'' \<or> s = ''failed''"

definition FindActive :: "Tables \<Rightarrow> nat \<Rightarrow> string option" where
  "FindActive t app = map_of (tb_releases t) app"

definition AppAlias :: "Application \<Rightarrow> string" where
  "AppAlias a = (if ap_Alias a \<noteq> [] then ap_Alias a else ''mb-app-'' @ nat_digits (ap_ID a))"

definition ContainerNameFor :: "Server \<Rightarrow> string" where
  "ContainerNameFor s =
     (if TrimSpace (sv_GatewayContainer s) \<noteq> [] then TrimSpace (sv_GatewayContainer s) else ''mb-node-gateway'')"

definition effectivePolicy :: "Application \<Rightarrow> Mode \<Rightarrow> Mode" where
  "effectivePolicy a platform =
     (if ap_ReconcilePolicy a = ''off'' then ModeOff
      else if ap_ReconcilePolicy a = ''observe'' then ModeObserve
      else if ap_ReconcilePolicy a = ''enforce'' then (if platform = ModeOff then ModeOff else ModeEnforce)
      else platform)"

section \<open>The items of a sweep\<close>

record Restore =
  re_From :: string
  re_Available :: bool
  re_BackupID :: nat
  re_Ref :: string

record subject =
  su_workspaceID :: nat
  su_appID :: nat
  su_databaseID :: nat
  su_databaseName :: string

record item =
  it_key :: string
  it_kind :: string
  it_name :: string
  it_ref :: string
  it_owner :: string
  it_id :: nat
  it_workspaceID :: nat
  it_nodeID :: nat
  it_clusterID :: nat
  it_app :: "Application option"
  it_policy :: "Mode option"
  it_containerID :: string
  it_service :: string
  it_gatewayName :: string
  it_imported :: bool
  it_volumeName :: string
  it_engineCreatedAt :: string
  it_restore :: "Restore option"
  it_subjects :: "subject list"
  it_needs :: "string list"

definition zero_item :: item where
  "zero_item = \<lparr>it_key = [], it_kind = [], it_name = [], it_ref = [], it_owner = [], it_id = 0, it_workspaceID = 0,
     it_nodeID = 0, it_clusterID = 0, it_app = None, it_policy = None, it_containerID = [], it_service = [],
     it_gatewayName = [], it_imported = False, it_volumeName = [], it_engineCreatedAt = [], it_restore = None,
     it_subjects = [], it_needs = []\<rparr>"

definition appKey :: "nat \<Rightarrow> string" where "appKey i = ''app:'' @ nat_digits i"
definition volumeKey :: "nat \<Rightarrow> string" where "volumeKey i = ''volume:'' @ nat_digits i"
definition dbVolumeKey :: "nat \<Rightarrow> string" where "dbVolumeKey i = ''dbvolume:'' @ nat_digits i"
definition gatewayKey :: "nat \<Rightarrow> string" where "gatewayKey i = ''gateway:'' @ nat_digits i"
definition nodeRef :: "nat \<Rightarrow> string" where "nodeRef i = ''node:'' @ nat_digits i"

text \<open>Backups are listed newest first. The newest completed one, with what \<^verbatim>\<open>newFinding\<close> makes of it: available when it names one.\<close>

definition latest_backup :: "bool \<Rightarrow> string \<Rightarrow> Backup list option \<Rightarrow> nat \<Rightarrow> Restore option" where
  "latest_backup wired from rows owner =
     (if \<not> wired then None else
      case rows of None \<Rightarrow> None
      | Some bs \<Rightarrow>
          (case filter (\<lambda>b. bk_Owner b = owner \<and> bk_Status b = BackupCompleted) bs of
             [] \<Rightarrow> Some \<lparr>re_From = from, re_Available = False, re_BackupID = 0, re_Ref = []\<rparr>
           | b # _ \<Rightarrow> Some \<lparr>re_From = from, re_Available = bk_ID b \<noteq> 0, re_BackupID = bk_ID b, re_Ref = bk_Ref b\<rparr>))"

text \<open>A volume by row id, then by Docker name. Later rows win, as in the Go maps.\<close>

definition volume_of :: "Volume list \<Rightarrow> AppMount \<Rightarrow> string option" where
  "volume_of vs m =
     (case map_of (rev (map (\<lambda>v. (vo_ID v, volumeKey (vo_ID v))) vs)) (mt_VolumeID m) of
        Some k \<Rightarrow> Some k
      | None \<Rightarrow> map_of (rev (map (\<lambda>v. (vo_DockerName v, volumeKey (vo_ID v))) vs)) (mt_DockerName m))"

definition needs_of :: "Volume list \<Rightarrow> Application \<Rightarrow> string list" where
  "needs_of vs a = List.map_filter (volume_of vs) (ap_Mounts a)"

definition app_subject :: "Application \<Rightarrow> subject" where
  "app_subject a = \<lparr>su_workspaceID = ap_WorkspaceID a, su_appID = ap_ID a, su_databaseID = 0, su_databaseName = []\<rparr>"

text \<open>The item of an app, if it has one: not deploying, not exempted, and with a container to judge it by.\<close>

definition watched_app :: "Tables \<Rightarrow> nat list \<Rightarrow> Application \<Rightarrow> bool" where
  "watched_app t busy a \<longleftrightarrow> ap_ID a \<notin> set busy \<and> effectivePolicy a (ParseMode (tb_mode t)) \<noteq> ModeOff"

definition app_item :: "Tables \<Rightarrow> nat list \<Rightarrow> Volume list \<Rightarrow> Application \<Rightarrow> item option" where
  "app_item t busy vs a =
     (if \<not> watched_app t busy a then None
      else let it = zero_item\<lparr>it_name := ap_Name a, it_ref := appKey (ap_ID a), it_owner := OwnerApp, it_id := ap_ID a,
             it_app := Some a, it_policy := Some (effectivePolicy a (ParseMode (tb_mode t))), it_key := appKey (ap_ID a),
             it_workspaceID := ap_WorkspaceID a, it_nodeID := ap_ServerID a, it_clusterID := ap_ClusterID a,
             it_subjects := [app_subject a], it_needs := needs_of vs a\<rparr>
        in if ap_RuntimeKind a = RuntimeService
           then Some (it\<lparr>it_kind := kindService, it_service := AppAlias a\<rparr>)
           else case FindActive t (ap_ID a) of
                  None \<Rightarrow> None
                | Some c \<Rightarrow> if c = [] then None else Some (it\<lparr>it_kind := kindContainer, it_containerID := c\<rparr>))"

text \<open>The timelines of a volume are those of the apps that mount it, whether or not the app became an item.\<close>

definition mountedBy :: "Tables \<Rightarrow> nat list \<Rightarrow> Volume list \<Rightarrow> Application list \<Rightarrow> string \<Rightarrow> subject list" where
  "mountedBy t busy vs apps key =
     concat (map (\<lambda>a. if watched_app t busy a
                     then map (\<lambda>_. app_subject a) (filter (\<lambda>k. k = key) (needs_of vs a)) else []) apps)"

definition volume_item :: "Wiring \<Rightarrow> Tables \<Rightarrow> (string \<Rightarrow> subject list) \<Rightarrow> Volume \<Rightarrow> item option" where
  "volume_item w t mounted v =
     (if vo_Driver v = VolumeDriverHost \<or> vo_DockerName v = [] then None
      else Some (zero_item\<lparr>it_key := volumeKey (vo_ID v), it_kind := kindVolume, it_name := vo_Name v,
        it_ref := volumeKey (vo_ID v), it_owner := OwnerVolume, it_id := vo_ID v, it_workspaceID := vo_WorkspaceID v,
        it_nodeID := vo_ServerID v, it_clusterID := vo_ClusterID v, it_volumeName := vo_DockerName v,
        it_engineCreatedAt := vo_EngineCreatedAt v,
        it_restore := latest_backup (wi_volumeBackups w) ''volume-backup'' (tb_volumeBackups t) (vo_ID v),
        it_subjects := mounted (volumeKey (vo_ID v))\<rparr>))"

definition instance_item :: "Wiring \<Rightarrow> Tables \<Rightarrow> DatabaseInstance \<Rightarrow> item option" where
  "instance_item w t d =
     (if di_VolumeName d = [] then None
      else Some (zero_item\<lparr>it_key := dbVolumeKey (di_ID d), it_kind := kindVolume, it_name := di_Name d,
        it_ref := dbVolumeKey (di_ID d), it_owner := OwnerDatabase, it_id := di_ID d, it_workspaceID := di_WorkspaceID d,
        it_nodeID := di_ServerID d, it_clusterID := di_ClusterID d, it_volumeName := di_VolumeName d,
        it_engineCreatedAt := di_VolumeEngineCreatedAt d,
        it_restore := latest_backup (wi_dbBackups w) ''recovery-point'' (tb_recoveryPoints t) (di_ID d),
        it_subjects := [\<lparr>su_workspaceID = di_WorkspaceID d, su_appID = 0, su_databaseID = di_ID d,
          su_databaseName = di_Name d\<rparr>]\<rparr>))"

definition gateway_item :: "Server \<Rightarrow> item option" where
  "gateway_item s =
     (if \<not> sv_GatewayDeployed s \<or> sv_Connectivity s \<noteq> ConnectivityEdgeGateway then None
      else Some (zero_item\<lparr>it_key := gatewayKey (sv_ID s), it_kind := kindGateway, it_name := sv_Name s,
        it_ref := nodeRef (sv_ID s), it_owner := OwnerNode, it_id := sv_ID s, it_nodeID := sv_ID s,
        it_clusterID := sv_ClusterID s, it_gatewayName := ContainerNameFor s, it_imported := sv_GatewayImported s\<rparr>))"

definition gatewayItems :: "Wiring \<Rightarrow> Tables \<Rightarrow> item list" where
  "gatewayItems w t =
     (if \<not> wi_servers w then [] else
      case tb_servers t of None \<Rightarrow> [] | Some ss \<Rightarrow> List.map_filter gateway_item ss)"

definition plan_items :: "Wiring \<Rightarrow> Tables \<Rightarrow> item list option" where
  "plan_items w t =
     (case ListReconcilable t of None \<Rightarrow> None | Some apps \<Rightarrow>
      case InProgressAppIDs t of None \<Rightarrow> None | Some busy \<Rightarrow>
      case tb_volumes t of None \<Rightarrow> None | Some vs \<Rightarrow>
      case tb_instances t of None \<Rightarrow> None | Some ds \<Rightarrow>
        Some (List.map_filter (app_item t busy vs) apps @
              List.map_filter (volume_item w t (mountedBy t busy vs apps)) vs @
              List.map_filter (instance_item w t) ds @
              gatewayItems w t))"

section \<open>Observation\<close>

datatype state = Unknown | Intact | Gone | Replaced

definition state_class :: "state \<Rightarrow> string" where
  "state_class st = (if st = Replaced then ClassReplaced else ClassMissing)"

record Skip =
  sk_Scope :: string
  sk_ID :: nat
  sk_Reason :: string

definition drift_Replaced :: "string \<Rightarrow> string \<Rightarrow> bool" where
  "drift_Replaced recorded created \<longleftrightarrow> recorded \<noteq> [] \<and> created \<noteq> [] \<and> created \<noteq> recorded"

definition gatewayState :: "Engines \<Rightarrow> nat \<Rightarrow> string \<Rightarrow> state" where
  "gatewayState e n name =
     (case eg_container e n name of
        InspectNotFound \<Rightarrow> Gone
      | InspectFailed \<Rightarrow> Unknown
      | InspectFound st \<Rightarrow> if st \<noteq> ''running'' then Gone else Intact)"

definition containerState :: "string list \<Rightarrow> string \<Rightarrow> state" where
  "containerState cs c = (if list_ex (\<lambda>i. HasPrefix i c) cs then Intact else Gone)"

text \<open>The state of a volume, and the time of creation to adopt. Later volumes of a name win, as in the Go map.\<close>

definition volumeState :: "(string \<times> string) list \<Rightarrow> string \<Rightarrow> string \<Rightarrow> state \<times> string" where
  "volumeState live name recorded =
     (case map_of (rev live) name of
        None \<Rightarrow> (Gone, [])
      | Some created \<Rightarrow>
          if recorded = [] then (Intact, created)
          else if drift_Replaced recorded created then (Replaced, [])
          else (Intact, []))"

text \<open>The listings a node's items need, in the order they are asked for; a failing one ends the node's observation.\<close>

fun node_listings ::
    "Engines \<Rightarrow> nat \<Rightarrow> item list \<Rightarrow> string list option \<Rightarrow> (string \<times> string) list \<Rightarrow>
      string + (string list \<times> (string \<times> string) list)" where
  "node_listings e n [] cs live = Inr ((case cs of None \<Rightarrow> [] | Some c \<Rightarrow> c), live)"
| "node_listings e n (it # its) cs live =
     (if it_kind it = kindContainer \<and> cs = None
      then (case eg_containers e n of
              None \<Rightarrow> Inl ''listing containers failed''
            | Some c \<Rightarrow> node_listings e n its (Some c) live)
      else if it_kind it = kindVolume \<and> live = []
      then (case eg_volumes e n of
              None \<Rightarrow> Inl ''listing volumes failed''
            | Some vs \<Rightarrow> node_listings e n its cs vs)
      else node_listings e n its cs live)"

definition item_state :: "Engines \<Rightarrow> nat \<Rightarrow> string list \<Rightarrow> (string \<times> string) list \<Rightarrow> item \<Rightarrow> state" where
  "item_state e n cs live it =
     (if it_kind it = kindContainer then containerState cs (it_containerID it)
      else if it_kind it = kindGateway then gatewayState e n (it_gatewayName it)
      else fst (volumeState live (it_volumeName it) (it_engineCreatedAt it)))"

definition nodeGrace :: int where "nodeGrace = 60000000000"

text \<open>The listings of a node, or why nothing is seen of it.\<close>

definition node_view :: "Engines \<Rightarrow> int \<Rightarrow> nat \<Rightarrow> item list \<Rightarrow> string + (string list \<times> (string \<times> string) list)" where
  "node_view e now n its =
     (case eg_since e n of
        None \<Rightarrow> Inl ''offline''
      | Some since \<Rightarrow>
          if (case since of Some t \<Rightarrow> now - t < nodeGrace | None \<Rightarrow> False) then Inl ''agent connected recently''
          else if \<not> eg_for e n then Inl ''offline''
          else node_listings e n its None [])"

definition observeNode :: "Engines \<Rightarrow> int \<Rightarrow> nat \<Rightarrow> item list \<Rightarrow> string + (string \<times> state) list" where
  "observeNode e now n its =
     (case node_view e now n its of
        Inl r \<Rightarrow> Inl r
      | Inr (cs, live) \<Rightarrow> Inr (map (\<lambda>it. (it_key it, item_state e n cs live it)) its))"

definition service_state :: "Engines \<Rightarrow> nat \<Rightarrow> item \<Rightarrow> (string \<times> state) option" where
  "service_state e c it =
     (case eg_service e c (it_service it) of
        InspectFound _ \<Rightarrow> Some (it_key it, Intact)
      | InspectNotFound \<Rightarrow> Some (it_key it, Gone)
      | InspectFailed \<Rightarrow> None)"

definition observeCluster :: "Engines \<Rightarrow> nat \<Rightarrow> item list \<Rightarrow> string + (string \<times> state) list" where
  "observeCluster e c its =
     (if \<not> eg_manager e c then Inl ''manager unreachable'' else Inr (List.map_filter (service_state e c) its))"

text \<open>The groups in the order of their first item: the code walks a map, and no group's result depends on another.\<close>

definition group_ids :: "(item \<Rightarrow> nat) \<Rightarrow> item list \<Rightarrow> nat list" where
  "group_ids f its = rev (remdups (rev (map f its)))"

definition skip_less :: "Skip \<Rightarrow> Skip \<Rightarrow> bool" where
  "skip_less a b = (if sk_Scope a \<noteq> sk_Scope b then CompareStr (sk_Scope b) (sk_Scope a) < 0 else sk_ID a < sk_ID b)"

definition group_results :: "string \<Rightarrow> (nat \<Rightarrow> item list \<Rightarrow> string + (string \<times> state) list) \<Rightarrow> (item \<Rightarrow> nat) \<Rightarrow> item list \<Rightarrow>
    (string \<times> state) list \<times> Skip list" where
  "group_results scope look f its =
     (let rs = map (\<lambda>i. (i, look i (filter (\<lambda>it. f it = i) its))) (group_ids f its)
      in (concat (map (\<lambda>(i, r). case r of Inl _ \<Rightarrow> [] | Inr seen \<Rightarrow> seen) rs),
          List.map_filter (\<lambda>(i, r). case r of Inl why \<Rightarrow> Some \<lparr>sk_Scope = scope, sk_ID = i, sk_Reason = why\<rparr>
                                           | Inr _ \<Rightarrow> None) rs))"

definition observe :: "Engines \<Rightarrow> int \<Rightarrow> item list \<Rightarrow> (string \<times> state) list \<times> Skip list" where
  "observe e now its =
     (let (seen1, sk1) = group_results ''node'' (observeNode e now) it_nodeID (filter (\<lambda>it. it_kind it \<noteq> kindService) its);
          (seen2, sk2) = group_results ''cluster'' (observeCluster e) it_clusterID (filter (\<lambda>it. it_kind it = kindService) its)
      in (seen2 @ seen1, SliceStable skip_less (sk1 @ sk2)))"

text \<open>The zero observation of a Go map is unknown.\<close>

definition seen_state :: "(string \<times> state) list \<Rightarrow> string \<Rightarrow> state" where
  "seen_state seen k = (case map_of seen k of None \<Rightarrow> Unknown | Some st \<Rightarrow> st)"

text \<open>The creation times that an observed node's volumes report and a row does not record yet are written to the rows.\<close>

definition adoptions :: "Engines \<Rightarrow> int \<Rightarrow> item list \<Rightarrow> (string \<times> string) list" where
  "adoptions e now its =
     List.map_filter (\<lambda>it.
       if it_kind it \<noteq> kindVolume then None
       else case node_view e now (it_nodeID it)
                  (filter (\<lambda>x. it_nodeID x = it_nodeID it \<and> it_kind x \<noteq> kindService) its) of
              Inl _ \<Rightarrow> None
            | Inr (cs, live) \<Rightarrow>
                (let at = snd (volumeState live (it_volumeName it) (it_engineCreatedAt it))
                 in if at = [] then None else Some (it_key it, at))) its"

definition adopt_created :: "(string \<times> string) list \<Rightarrow> Tables \<Rightarrow> Tables" where
  "adopt_created ws t = t\<lparr>
     tb_volumes := map_option (map (\<lambda>v. case map_of ws (volumeKey (vo_ID v)) of
        Some at \<Rightarrow> if vo_EngineCreatedAt v = [] then v\<lparr>vo_EngineCreatedAt := at\<rparr> else v | None \<Rightarrow> v)) (tb_volumes t),
     tb_instances := map_option (map (\<lambda>d. case map_of ws (dbVolumeKey (di_ID d)) of
        Some at \<Rightarrow> if di_VolumeEngineCreatedAt d = [] then d\<lparr>di_VolumeEngineCreatedAt := at\<rparr> else d | None \<Rightarrow> d)) (tb_instances t)\<rparr>"

section \<open>Findings\<close>

record Finding =
  fi_Class :: string
  fi_Kind :: string
  fi_Ref :: string
  fi_Name :: string
  fi_OwnerKind :: string
  fi_OwnerID :: nat
  fi_Action :: string
  fi_WorkspaceID :: nat
  fi_ServerID :: nat
  fi_ClusterID :: nat
  fi_FirstSeenAt :: int
  fi_LastSeenAt :: int
  fi_Confirmed :: bool
  fi_Restore :: "Restore option"
  fi_Blocked :: bool
  fi_BlockedReason :: string
  fi_misses :: int
  fi_subjects :: "subject list"

record attempt =
  at_tries :: int
  at_failures :: int
  at_breakerOpen :: bool
  at_lastActedAt :: int
  at_nextAt :: int
  at_saidBlocked :: string

record ControlManager =
  cm_findings :: "string \<Rightarrow> Finding option"
  cm_blocked :: "nat \<Rightarrow> string option"
  cm_attempts :: "string \<Rightarrow> attempt option"
  cm_inflight :: "(nat \<times> nat) list"
  cm_skipped :: "Skip list"
  cm_lastSweep :: "int option"

definition new_manager :: ControlManager where
  "new_manager = \<lparr>cm_findings = (\<lambda>_. None), cm_blocked = (\<lambda>_. None), cm_attempts = (\<lambda>_. None), cm_inflight = [],
     cm_skipped = [], cm_lastSweep = None\<rparr>"

text \<open>Where an event goes: what was detected or came back, and what enforcement did.\<close>

datatype cm_event =
    DriftDetected Finding
  | DriftResolved Finding
  | Restored string int
  | BreakerOpened string int
  | NotRestored string string
  | Deferred string
  | Failed string

definition confirmAfter :: int where "confirmAfter = 2"

definition forgetAfter :: int where "forgetAfter = 600000000000"

definition newFinding :: "item \<Rightarrow> state \<Rightarrow> int \<Rightarrow> Finding" where
  "newFinding it st now =
     \<lparr>fi_Class = state_class st, fi_Kind = it_kind it, fi_Ref = it_ref it, fi_Name = it_name it,
      fi_OwnerKind = it_owner it, fi_OwnerID = it_id it,
      fi_Action = (if it_kind it = kindVolume then ActionRestore
                   else if it_kind it = kindGateway \<and> it_imported it then ActionNone else ActionRedeploy),
      fi_WorkspaceID = it_workspaceID it, fi_ServerID = it_nodeID it, fi_ClusterID = it_clusterID it,
      fi_FirstSeenAt = now, fi_LastSeenAt = now, fi_Confirmed = False,
      fi_Restore = (if it_kind it = kindVolume then it_restore it else None),
      fi_Blocked = False, fi_BlockedReason = [], fi_misses = 0, fi_subjects = it_subjects it\<rparr>"

text \<open>One item against its observation: the finding it has then, and the notice it gives.\<close>

definition judge :: "int \<Rightarrow> item \<Rightarrow> state \<Rightarrow> Finding option \<Rightarrow> Finding option \<times> cm_event list" where
  "judge now it st f =
     (case st of
        Unknown \<Rightarrow> (f, [])
      | Intact \<Rightarrow>
          (None, case f of Some g \<Rightarrow> if fi_Confirmed g then [DriftResolved g] else [] | None \<Rightarrow> [])
      | _ \<Rightarrow>
          let g = (case f of Some g \<Rightarrow> if fi_Class g \<noteq> state_class st then newFinding it st now else g
                           | None \<Rightarrow> newFinding it st now);
              g = g\<lparr>fi_misses := fi_misses g + 1, fi_LastSeenAt := now\<rparr>
          in if \<not> fi_Confirmed g \<and> confirmAfter \<le> fi_misses g
             then (Some (g\<lparr>fi_Confirmed := True\<rparr>), [DriftDetected (g\<lparr>fi_Confirmed := True\<rparr>)])
             else (Some g, []))"

fun judge_all :: "int \<Rightarrow> (string \<times> state) list \<Rightarrow> item list \<Rightarrow> (string \<Rightarrow> Finding option) \<Rightarrow>
    (string \<Rightarrow> Finding option) \<times> cm_event list" where
  "judge_all now seen [] fs = (fs, [])"
| "judge_all now seen (it # its) fs =
     (let (f, ev) = judge now it (seen_state seen (it_key it)) (fs (it_key it));
          (fs', evs) = judge_all now seen its (fs(it_key it := f))
      in (fs', ev @ evs))"

text \<open>Why an app may not start, for the last of its volumes that is confirmed lost.\<close>

definition lost_reason :: "Finding \<Rightarrow> string" where
  "lost_reason f = ''its data volume '' @ fi_Name f @ '' is '' @ fi_Class f @
     '', so it needs a manual restore before it runs again''"

definition lost_need :: "(string \<Rightarrow> Finding option) \<Rightarrow> item \<Rightarrow> string option" where
  "lost_need fs it =
     (if it_owner it \<noteq> OwnerApp then None
      else fold (\<lambda>need acc. case fs need of
             Some f \<Rightarrow> if fi_Confirmed f then Some (lost_reason f) else acc | None \<Rightarrow> acc) (it_needs it) None)"

definition mark_blocked :: "string \<Rightarrow> Finding \<Rightarrow> Finding" where
  "mark_blocked reason f = f\<lparr>fi_Blocked := True, fi_BlockedReason := reason, fi_Action := ActionRestore\<rparr>"

definition block_item :: "item \<Rightarrow> (string \<Rightarrow> Finding option) \<times> (nat \<Rightarrow> string option) \<Rightarrow>
    (string \<Rightarrow> Finding option) \<times> (nat \<Rightarrow> string option)" where
  "block_item it = (\<lambda>(fs, bs).
     case lost_need fs it of None \<Rightarrow> (fs, bs)
     | Some reason \<Rightarrow> (fs(it_key it := map_option (mark_blocked reason) (fs (it_key it))), bs(it_id it := Some reason)))"

definition blockLocked :: "item list \<Rightarrow> (string \<Rightarrow> Finding option) \<Rightarrow>
    (string \<Rightarrow> Finding option) \<times> (nat \<Rightarrow> string option)" where
  "blockLocked its fs = fold block_item its (fs, (\<lambda>_. None))"

definition keep_attempt :: "int \<Rightarrow> (string \<Rightarrow> Finding option) \<Rightarrow> string \<Rightarrow> attempt option \<Rightarrow> attempt option" where
  "keep_attempt now fs key a =
     (case a of None \<Rightarrow> None
      | Some x \<Rightarrow> if fs key = None \<and> forgetAfter < now - at_lastActedAt x then None else Some x)"

definition record_sweep :: "item list \<Rightarrow> (string \<times> state) list \<Rightarrow> Skip list \<Rightarrow> int \<Rightarrow> int \<Rightarrow> ControlManager \<Rightarrow>
    ControlManager \<times> cm_event list" where
  "record_sweep its seen skipped start now cm =
     (let (fs, evs) = judge_all now seen its (cm_findings cm);
          fs = (\<lambda>k. if k \<in> it_key ` set its then fs k else None);
          as = (\<lambda>k. keep_attempt now fs k (cm_attempts cm k));
          (fs, bs) = blockLocked its fs
      in (cm\<lparr>cm_findings := fs, cm_attempts := as, cm_blocked := bs, cm_skipped := skipped, cm_lastSweep := Some start\<rparr>, evs))"

definition BlockedRedeploy :: "ControlManager \<Rightarrow> nat \<Rightarrow> string option" where
  "BlockedRedeploy cm app = cm_blocked cm app"

definition reset :: "ControlManager \<Rightarrow> ControlManager" where
  "reset cm = new_manager"

section \<open>Enforcement\<close>

definition backoffBase :: int where "backoffBase = 60000000000"
definition backoffMax :: int where "backoffMax = 1800000000000"
definition breakerAfter :: int where "breakerAfter = 5"
definition budgetPerNode :: int where "budgetPerNode = 3"
definition budgetPlatform :: int where "budgetPlatform = 10"

text \<open>A Go shift of an \<open>int64\<close> keeps the low 64 bits, and is zero from 64 on.\<close>

definition shift_left :: "int \<Rightarrow> int \<Rightarrow> int" where
  "shift_left d n = (if 64 \<le> n then 0 else wrap64 (d * 2 ^ nat n))"

definition backoff :: "int \<Rightarrow> int" where
  "backoff tries =
     (let d = shift_left backoffBase (max (tries - 1) 0) in if backoffMax < d \<or> d \<le> 0 then backoffMax else d)"

record actionable =
  ac_item :: item
  ac_finding :: Finding

definition zero_attempt :: attempt where
  "zero_attempt = \<lparr>at_tries = 0, at_failures = 0, at_breakerOpen = False, at_lastActedAt = 0, at_nextAt = 0,
     at_saidBlocked = []\<rparr>"

definition attemptLocked :: "ControlManager \<Rightarrow> string \<Rightarrow> attempt" where
  "attemptLocked cm key = (case cm_attempts cm key of Some a \<Rightarrow> a | None \<Rightarrow> zero_attempt)"

definition set_attempt :: "ControlManager \<Rightarrow> string \<Rightarrow> attempt \<Rightarrow> ControlManager" where
  "set_attempt cm key a = cm\<lparr>cm_attempts := (cm_attempts cm)(key := Some a)\<rparr>"

definition canAct :: "Wiring \<Rightarrow> Mode \<Rightarrow> item \<Rightarrow> bool" where
  "canAct w mode it =
     (if it_kind it = kindContainer \<or> it_kind it = kindService
      then it_app it \<noteq> None \<and> wi_redeployer w \<and> it_policy it = Some ModeEnforce
      else if it_kind it = kindGateway then \<not> it_imported it \<and> wi_gateways w \<and> mode = ModeEnforce
      else False)"

text \<open>Whether an item's attempts allow another one now.\<close>

definition attempt_due :: "int \<Rightarrow> attempt option \<Rightarrow> bool" where
  "attempt_due now a = (case a of None \<Rightarrow> True | Some x \<Rightarrow> \<not> at_breakerOpen x \<and> \<not> now < at_nextAt x)"

definition actionable_of :: "Wiring \<Rightarrow> Mode \<Rightarrow> int \<Rightarrow> ControlManager \<Rightarrow> item \<Rightarrow> actionable option" where
  "actionable_of w mode now cm it =
     (if \<not> canAct w mode it then None
      else case cm_findings cm (it_key it) of
             None \<Rightarrow> None
           | Some f \<Rightarrow> if \<not> fi_Confirmed f \<or> \<not> attempt_due now (cm_attempts cm (it_key it)) then None
                       else Some \<lparr>ac_item = it, ac_finding = f\<rparr>)"

text \<open>Oldest first. \<^verbatim>\<open>sort.Slice\<close> leaves the order of equal times open; the model keeps theirs.\<close>

definition due :: "Wiring \<Rightarrow> Mode \<Rightarrow> int \<Rightarrow> ControlManager \<Rightarrow> item list \<Rightarrow> actionable list" where
  "due w mode now cm its =
     SliceStable (\<lambda>a b. fi_FirstSeenAt (ac_finding a) < fi_FirstSeenAt (ac_finding b))
       (List.map_filter (actionable_of w mode now cm) its)"

definition Placeable :: "Tables \<Rightarrow> nat \<Rightarrow> string option" where
  "Placeable t n =
     (if n = 0 then None
      else case find (\<lambda>s. sv_ID s = n) (case tb_servers t of None \<Rightarrow> [] | Some ss \<Rightarrow> ss) of
             None \<Rightarrow> Some ''node not found''
           | Some s \<Rightarrow> if sv_IsLocal s then None
                       else if sv_Cordoned s then Some ''node is cordoned and cannot accept new placements'' else None)"

definition missing_config :: "Tables \<Rightarrow> item \<Rightarrow> AppMount \<Rightarrow> bool" where
  "missing_config t it m \<longleftrightarrow> mt_ConfigID m \<noteq> 0 \<and> (it_workspaceID it, mt_ConfigID m) \<notin> set (tb_configs t)"

definition refuse :: "Wiring \<Rightarrow> Tables \<Rightarrow> ControlManager \<Rightarrow> item \<Rightarrow> string option" where
  "refuse w t cm it =
     (if it_kind it = kindGateway then None
      else case BlockedRedeploy cm (it_id it) of Some reason \<Rightarrow> Some reason
      | None \<Rightarrow>
        if wi_suspended w \<and> (case it_app it of Some a \<Rightarrow> ap_WorkspaceID a \<in> set (tb_suspended t) | None \<Rightarrow> False)
        then Some ''its workspace is suspended by the platform administrator''
        else case (if wi_placement w then Placeable t (it_nodeID it) else None) of
               Some err \<Rightarrow> Some (''its node cannot take a workload: '' @ err)
             | None \<Rightarrow>
               (case (if wi_configs w then it_app it else None) of None \<Rightarrow> None
                | Some a \<Rightarrow>
                  (case find (missing_config t it) (ap_Mounts a) of None \<Rightarrow> None
                   | Some m \<Rightarrow> Some (''a config it mounts (#'' @ nat_digits (mt_ConfigID m) @ '') no longer exists''))))"

text \<open>Deployments still under way; those that are over, or cannot be found, are dropped from the books.\<close>

definition in_flight :: "Tables \<Rightarrow> nat \<Rightarrow> bool" where
  "in_flight t dep =
     (case find (\<lambda>d. dp_ID d = dep) (case tb_deployments t of None \<Rightarrow> [] | Some ds \<Rightarrow> ds) of
        None \<Rightarrow> False | Some d \<Rightarrow> \<not> IsTerminal (dp_Status d))"

definition node_count :: "(nat \<times> nat) list \<Rightarrow> nat \<Rightarrow> int" where
  "node_count ds n = int (length (filter (\<lambda>d. snd d = n) ds))"

definition inflight :: "Tables \<Rightarrow> ControlManager \<Rightarrow> ControlManager \<times> (nat \<Rightarrow> int) \<times> int" where
  "inflight t cm =
     (let ds = filter (\<lambda>d. in_flight t (fst d)) (cm_inflight cm)
      in (cm\<lparr>cm_inflight := ds\<rparr>, node_count ds, int (length ds)))"

definition reportBlocked :: "string \<Rightarrow> string \<Rightarrow> ControlManager \<Rightarrow> ControlManager \<times> cm_event list" where
  "reportBlocked key reason cm =
     (let a = attemptLocked cm key
      in (set_attempt cm key (a\<lparr>at_saidBlocked := reason\<rparr>),
          if at_saidBlocked a = reason then [] else [NotRestored key reason]))"

definition put_inflight :: "(nat \<times> nat) list \<Rightarrow> nat \<Rightarrow> nat \<Rightarrow> (nat \<times> nat) list" where
  "put_inflight ds dep n = filter (\<lambda>d. fst d \<noteq> dep) ds @ [(dep, n)]"

definition started :: "int \<Rightarrow> item \<Rightarrow> nat option \<Rightarrow> ControlManager \<Rightarrow> ControlManager \<times> cm_event list" where
  "started now it dep cm =
     (let a = attemptLocked cm (it_key it); tries = at_tries a + 1;
          a = a\<lparr>at_tries := tries, at_failures := 0, at_lastActedAt := now, at_nextAt := now + backoff tries,
                at_saidBlocked := []\<rparr>;
          cm = set_attempt cm (it_key it) a;
          cm = (case dep of None \<Rightarrow> cm | Some i \<Rightarrow> cm\<lparr>cm_inflight := put_inflight (cm_inflight cm) i (it_nodeID it)\<rparr>)
      in (cm, [Restored (it_key it) tries]))"

definition failed :: "int \<Rightarrow> item \<Rightarrow> ControlManager \<Rightarrow> ControlManager \<times> cm_event list" where
  "failed now it cm =
     (let a = attemptLocked cm (it_key it); tries = at_tries a + 1; failures = at_failures a + 1;
          opened = (breakerAfter \<le> failures \<and> \<not> at_breakerOpen a);
          a = a\<lparr>at_tries := tries, at_failures := failures, at_lastActedAt := now, at_nextAt := now + backoff tries,
                at_breakerOpen := (at_breakerOpen a \<or> opened)\<rparr>
      in (set_attempt cm (it_key it) a,
          Failed (it_key it) # (if opened then [BreakerOpened (it_key it) failures] else [])))"

text \<open>What restoring gives: the new deployment of an app, or an error; gateways have no deployment.\<close>

record Restorer =
  rs_redeploy :: "nat \<Rightarrow> nat option"
  rs_ensure :: "nat \<Rightarrow> bool"

definition restore :: "Restorer \<Rightarrow> item \<Rightarrow> (nat option) option" where
  "restore r it =
     (if it_kind it = kindGateway then (if rs_ensure r (it_nodeID it) then Some None else None)
      else case it_app it of
             None \<Rightarrow> None
           | Some a \<Rightarrow> (case rs_redeploy r (ap_ID a) of None \<Rightarrow> None | Some d \<Rightarrow> Some (Some d)))"

fun act_loop :: "Wiring \<Rightarrow> Tables \<Rightarrow> Restorer \<Rightarrow> int \<Rightarrow> actionable list \<Rightarrow> (nat \<Rightarrow> int) \<Rightarrow> int \<Rightarrow> ControlManager \<Rightarrow>
    ControlManager \<times> cm_event list" where
  "act_loop w t r now [] perNode tot cm = (cm, [])"
| "act_loop w t r now (d # ds) perNode tot cm =
     (let it = ac_item d; key = it_key it; n = it_nodeID it in
      case refuse w t cm it of
        Some reason \<Rightarrow>
          (let (cm1, ev) = reportBlocked key reason cm; (cm2, evs) = act_loop w t r now ds perNode tot cm1
           in (cm2, ev @ evs))
      | None \<Rightarrow>
          if budgetPlatform \<le> tot \<or> budgetPerNode \<le> perNode n
          then (let (cm2, evs) = act_loop w t r now ds perNode tot cm in (cm2, Deferred key # evs))
          else (case restore r it of
                  None \<Rightarrow>
                    (let (cm1, ev) = failed now it cm; (cm2, evs) = act_loop w t r now ds perNode tot cm1
                     in (cm2, ev @ evs))
                | Some dep \<Rightarrow>
                    (let (cm1, ev) = started now it dep cm;
                         (cm2, evs) = act_loop w t r now ds (perNode(n := perNode n + 1)) (tot + 1) cm1
                     in (cm2, ev @ evs))))"

definition act :: "Wiring \<Rightarrow> Tables \<Rightarrow> Restorer \<Rightarrow> int \<Rightarrow> item list \<Rightarrow> ControlManager \<Rightarrow> ControlManager \<times> cm_event list" where
  "act w t r now its cm =
     (if ParseMode (tb_mode t) = ModeOff then (cm, [])
      else let (cm, perNode, tot) = inflight t cm
           in act_loop w t r now (due w (ParseMode (tb_mode t)) now cm its) perNode tot cm)"

section \<open>A sweep\<close>

record Outlook =
  ol_tables :: Tables
  ol_engines :: Engines
  ol_restorer :: Restorer
  ol_start :: int
  ol_now :: int

text \<open>\<open>None\<close>: the tables could not be read, and nothing changes.\<close>

definition Sweep :: "Wiring \<Rightarrow> Outlook \<Rightarrow> ControlManager \<Rightarrow> (ControlManager \<times> cm_event list) option" where
  "Sweep w o1 cm =
     (let t = ol_tables o1 in
      if ParseMode (tb_mode t) = ModeOff then Some (reset cm, [])
      else case plan_items w t of
             None \<Rightarrow> None
           | Some its \<Rightarrow>
               (let (seen, skipped) = observe (ol_engines o1) (ol_start o1) its;
                    (cm1, evs1) = record_sweep its seen skipped (ol_start o1) (ol_now o1) cm;
                    (cm2, evs2) = act w t (ol_restorer o1) (ol_now o1) its cm1
                in Some (cm2, evs1 @ evs2)))"

definition sweep_state :: "Wiring \<Rightarrow> Outlook \<Rightarrow> ControlManager \<Rightarrow> ControlManager" where
  "sweep_state w o1 cm = (case Sweep w o1 cm of None \<Rightarrow> cm | Some (cm', _) \<Rightarrow> cm')"

text \<open>What a sweep writes to the tables: the creation times it adopts.\<close>

definition sweep_tables :: "Wiring \<Rightarrow> Outlook \<Rightarrow> Tables" where
  "sweep_tables w o1 =
     (let t = ol_tables o1 in
      if ParseMode (tb_mode t) = ModeOff then t
      else case plan_items w t of None \<Rightarrow> t
           | Some its \<Rightarrow> adopt_created (adoptions (ol_engines o1) (ol_start o1) its) t)"

text \<open>The timeline entries of a notice: for each subject of the finding its workspace, app, database, type and severity.\<close>

definition announce :: "cm_event \<Rightarrow> (nat \<times> nat \<times> nat \<times> string \<times> string) list" where
  "announce e =
     (let to = (\<lambda>f typ sev. map (\<lambda>su. (su_workspaceID su, (if su_databaseID su \<noteq> 0 then 0 else su_appID su),
                su_databaseID su, typ, sev)) (fi_subjects f))
      in case e of
           DriftDetected f \<Rightarrow> to f ''drift.detected'' (if fi_Kind f = kindVolume then ''error'' else ''warning'')
         | DriftResolved f \<Rightarrow> to f ''drift.resolved'' ''info''
         | _ \<Rightarrow> [])"

section \<open>The guard of a starting workload\<close>

text \<open>\<open>None\<close> when the engine cannot answer, the empty class for a volume that is as recorded. A found volume answers with
  its time of creation.\<close>

definition VolumeState :: "inspected \<Rightarrow> string \<Rightarrow> string option" where
  "VolumeState i recorded =
     (case i of
        InspectNotFound \<Rightarrow> Some ClassMissing
      | InspectFailed \<Rightarrow> None
      | InspectFound created \<Rightarrow> Some (if drift_Replaced recorded created then ClassReplaced else []))"

definition watched :: "Volume \<Rightarrow> bool" where
  "watched v \<longleftrightarrow> vo_DockerName v \<noteq> [] \<and> vo_Driver v \<noteq> VolumeDriverHost \<and> vo_Driver v \<noteq> VolumeDriverNFS
     \<and> vo_Driver v \<noteq> VolumeDriverCIFS"

text \<open>The inspection of a volume on its node, \<open>None\<close> when the node cannot be reached.\<close>

type_synonym VolumeLook = "nat \<Rightarrow> (string \<Rightarrow> inspected) option"

definition CheckVolume :: "VolumeLook \<Rightarrow> nat \<Rightarrow> string \<Rightarrow> string \<Rightarrow> string \<Rightarrow> (string \<times> string) option" where
  "CheckVolume look server dockerName recorded label =
     (if dockerName = [] then None
      else case look server of None \<Rightarrow> None
      | Some inspect \<Rightarrow>
          (case VolumeState (inspect dockerName) recorded of
             None \<Rightarrow> None
           | Some c \<Rightarrow> if c = [] then None else Some (if label = [] then dockerName else label, c)))"

definition resolve_mount :: "Volume list \<Rightarrow> nat \<Rightarrow> AppMount \<Rightarrow> Volume option" where
  "resolve_mount vs ws m =
     (case (if mt_VolumeID m \<noteq> 0 then find (\<lambda>v. vo_ID v = mt_VolumeID m \<and> vo_WorkspaceID v = ws) vs else None) of
        Some v \<Rightarrow> Some v
      | None \<Rightarrow> if mt_DockerName m \<noteq> [] then find (\<lambda>v. vo_DockerName v = mt_DockerName m) vs else None)"

definition check_mount :: "VolumeLook \<Rightarrow> Volume list \<Rightarrow> nat \<Rightarrow> AppMount \<Rightarrow> (string \<times> string) option" where
  "check_mount look vs ws m =
     (if mt_HostPreset m \<noteq> [] \<or> mt_HostPath m \<noteq> [] \<or> mt_ConfigID m \<noteq> 0 then None
      else case resolve_mount vs ws m of None \<Rightarrow> None
      | Some v \<Rightarrow>
          if \<not> watched v then None
          else CheckVolume look (vo_ServerID v) (vo_DockerName v) (vo_EngineCreatedAt v) (vo_Name v))"

text \<open>The first lost volume, with its class; \<open>None\<close> lets the app start.\<close>

fun check_mounts :: "VolumeLook \<Rightarrow> Volume list \<Rightarrow> nat \<Rightarrow> AppMount list \<Rightarrow> (string \<times> string) option" where
  "check_mounts look vs ws [] = None"
| "check_mounts look vs ws (m # ms) =
     (case check_mount look vs ws m of Some l \<Rightarrow> Some l | None \<Rightarrow> check_mounts look vs ws ms)"

definition CheckApp :: "VolumeLook \<Rightarrow> Volume list \<Rightarrow> Application \<Rightarrow> (string \<times> string) option" where
  "CheckApp look vs a = check_mounts look vs (ap_WorkspaceID a) (ap_Mounts a)"

section \<open>Backoff\<close>

lemma wrapped_shifts:
  "\<forall>k\<in>set [28..52]. let d = wrap64 (backoffBase * 2 ^ nat k) in backoffMax < d \<or> d \<le> 0"
  by code_simp

lemma wrap64_multiple: "wrap64 (x * 2 ^ 64) = 0"
  by (simp add: wrap64_def)

lemma shift_overflow:
  assumes "28 \<le> k"
  shows "let d = shift_left backoffBase k in backoffMax < d \<or> d \<le> 0"
proof (cases "k \<le> 52")
  case True
  then have "k \<in> set [28..52]"
    using assms by (simp only: set_upto atLeastAtMost_iff)
  from bspec [OF wrapped_shifts this] show ?thesis
    using True by (simp add: shift_left_def)
next
  case False
  have "shift_left backoffBase k = 0"
  proof (cases "64 \<le> k")
    case f: False
    have "nat k = nat (k - 53) + 53"
      using False by simp
    then have "backoffBase * 2 ^ nat k = (29296875 * 2 ^ nat (k - 53)) * 2 ^ 64"
      by (simp add: backoffBase_def power_add)
    then show ?thesis
      using f by (simp only: shift_left_def wrap64_multiple if_False)
  qed (simp add: shift_left_def)
  then show ?thesis
    by simp
qed

lemma shift_small:
  assumes "0 \<le> k" and "k < 28"
  shows "shift_left backoffBase k = backoffBase * 2 ^ nat k"
proof -
  have "(2::int) ^ nat k \<le> 2 ^ 27"
    using assms by (intro power_increasing) auto
  moreover have "- 4503599627370496 \<le> 29296875 * (2::int) ^ nat k"
    by (rule order_trans [of _ 0]) simp_all
  ultimately have "in_int64 (backoffBase * 2 ^ nat k)"
    by (simp add: in_int64_def backoffBase_def)
  then show ?thesis
    using assms by (simp add: shift_left_def wrap64_id)
qed

text \<open>The wait before the next attempt doubles from a minute up to half an hour and stays there, for every number of
  attempts: the shift overflows from the 29th on, but no overflowed value is ever taken for a wait.\<close>

theorem backoff_saturates: "backoff tries = min (backoffBase * 2 ^ nat (tries - 1)) backoffMax"
proof (cases "tries - 1 < 28")
  case True
  have "nat (tries - 1) = nat (max (tries - 1) 0)"
    by simp
  moreover have "0 < backoffBase * 2 ^ nat (tries - 1)"
    by (simp add: backoffBase_def)
  ultimately show ?thesis
    using True shift_small [of "max (tries - 1) 0"] by (auto simp: backoff_def Let_def)
next
  case False
  then have "(2::int) ^ 28 \<le> 2 ^ nat (tries - 1)"
    by (intro power_increasing) auto
  then have "backoffMax \<le> backoffBase * 2 ^ nat (tries - 1)"
    by (simp add: backoffBase_def backoffMax_def)
  moreover have "backoff tries = backoffMax"
    using shift_overflow [of "max (tries - 1) 0"] False by (auto simp: backoff_def Let_def)
  ultimately show ?thesis
    by simp
qed

section \<open>Keys\<close>

lemma key_inj [simp]:
  "appKey i = appKey j \<longleftrightarrow> i = j" "volumeKey i = volumeKey j \<longleftrightarrow> i = j"
  "dbVolumeKey i = dbVolumeKey j \<longleftrightarrow> i = j" "gatewayKey i = gatewayKey j \<longleftrightarrow> i = j"
  by (auto simp: appKey_def volumeKey_def dbVolumeKey_def gatewayKey_def nat_digits_inj)

lemma key_distinct [simp]:
  "appKey i \<noteq> volumeKey j" "appKey i \<noteq> dbVolumeKey j" "appKey i \<noteq> gatewayKey j" "volumeKey i \<noteq> dbVolumeKey j"
  "volumeKey i \<noteq> gatewayKey j" "dbVolumeKey i \<noteq> gatewayKey j" "volumeKey i \<noteq> appKey j" "dbVolumeKey i \<noteq> appKey j"
  "gatewayKey i \<noteq> appKey j" "dbVolumeKey i \<noteq> volumeKey j" "gatewayKey i \<noteq> volumeKey j" "gatewayKey i \<noteq> dbVolumeKey j"
  by (simp_all add: appKey_def volumeKey_def dbVolumeKey_def gatewayKey_def)

text \<open>The primary keys of the tables.\<close>

definition rows_distinct :: "Tables \<Rightarrow> bool" where
  "rows_distinct t \<longleftrightarrow>
     (\<forall>xs. tb_apps t = Some xs \<longrightarrow> distinct (map ap_ID xs)) \<and>
     (\<forall>xs. tb_volumes t = Some xs \<longrightarrow> distinct (map vo_ID xs)) \<and>
     (\<forall>xs. tb_instances t = Some xs \<longrightarrow> distinct (map di_ID xs)) \<and>
     (\<forall>xs. tb_servers t = Some xs \<longrightarrow> distinct (map sv_ID xs))"

lemma item_keys:
  "app_item t busy vs a = Some it \<Longrightarrow> it_key it = appKey (ap_ID a) \<and> it_id it = ap_ID a \<and> it_owner it = OwnerApp
     \<and> it_app it = Some a"
  "volume_item w t m v = Some it \<Longrightarrow> it_key it = volumeKey (vo_ID v) \<and> it_kind it = kindVolume"
  "instance_item w t d = Some it \<Longrightarrow> it_key it = dbVolumeKey (di_ID d) \<and> it_kind it = kindVolume"
  "gateway_item s = Some it \<Longrightarrow> it_key it = gatewayKey (sv_ID s) \<and> it_kind it = kindGateway"
  by (auto simp: app_item_def volume_item_def instance_item_def gateway_item_def zero_item_def Let_def
      split: if_splits option.splits)

lemma map_filter_keys:
  assumes "\<And>x y. f x = Some y \<Longrightarrow> g y = h (i x)" and "inj h" and "distinct (map i xs)"
  shows "distinct (map g (List.map_filter f xs)) \<and> g ` set (List.map_filter f xs) \<subseteq> range h"
proof -
  have "distinct (map g (List.map_filter f xs)) \<and> g ` set (List.map_filter f xs) \<subseteq> h ` i ` set xs"
    using assms(3)
  proof (induction xs)
    case (Cons x xs)
    then have IH: "distinct (map g (List.map_filter f xs))" "g ` set (List.map_filter f xs) \<subseteq> h ` i ` set xs"
      by simp_all
    have "h (i x) \<notin> h ` i ` set xs"
      using Cons.prems assms(2) by (auto dest: injD)
    then show ?case
      using IH assms(1) [of x] by (cases "f x") (auto simp: List.map_filter_simps)
  qed (simp add: List.map_filter_simps)
  then show ?thesis
    by blast
qed

lemma append_keys:
  assumes "distinct (map f a) \<and> f ` set a \<subseteq> A" and "distinct (map f b) \<and> f ` set b \<subseteq> B" and "A \<inter> B = {}"
  shows "distinct (map f (a @ b)) \<and> f ` set (a @ b) \<subseteq> A \<union> B"
proof -
  have "f ` set a \<inter> f ` set b \<subseteq> A \<inter> B"
    using assms(1,2) by (intro Int_mono) simp_all
  then have "f ` set a \<inter> f ` set b = {}"
    unfolding assms(3) by simp
  then show ?thesis
    using assms(1,2) by (simp only: map_append distinct_append set_map set_append image_Un) blast
qed

lemma key_ranges: "range appKey \<inter> (range volumeKey \<union> (range dbVolumeKey \<union> range gatewayKey)) = {}"
  "range volumeKey \<inter> (range dbVolumeKey \<union> range gatewayKey) = {}" "range dbVolumeKey \<inter> range gatewayKey = {}"
  by auto

lemma inj_keys: "inj appKey" "inj volumeKey" "inj dbVolumeKey" "inj gatewayKey"
  by (auto intro: injI)

lemma plan_keys_distinct:
  assumes "plan_items w t = Some its" and "rows_distinct t"
  shows "distinct (map it_key its)"
proof -
  obtain apps busy vs ds where p: "ListReconcilable t = Some apps" "InProgressAppIDs t = Some busy"
    "tb_volumes t = Some vs" "tb_instances t = Some ds"
    "its = List.map_filter (app_item t busy vs) apps @ List.map_filter (volume_item w t (mountedBy t busy vs apps)) vs
      @ List.map_filter (instance_item w t) ds @ gatewayItems w t"
    using assms(1) by (auto simp: plan_items_def split: option.splits)
  have "distinct (map ap_ID apps)" "distinct (map vo_ID vs)" "distinct (map di_ID ds)"
    using p(1,3,4) assms(2) by (auto simp: ListReconcilable_def rows_distinct_def distinct_map_filter)
  then have a: "distinct (map it_key (List.map_filter (app_item t busy vs) apps)) \<and>
      it_key ` set (List.map_filter (app_item t busy vs) apps) \<subseteq> range appKey"
    and v: "distinct (map it_key (List.map_filter (volume_item w t (mountedBy t busy vs apps)) vs)) \<and>
      it_key ` set (List.map_filter (volume_item w t (mountedBy t busy vs apps)) vs) \<subseteq> range volumeKey"
    and d: "distinct (map it_key (List.map_filter (instance_item w t) ds)) \<and>
      it_key ` set (List.map_filter (instance_item w t) ds) \<subseteq> range dbVolumeKey"
    by (intro map_filter_keys [OF _ inj_keys(1)] map_filter_keys [OF _ inj_keys(2)] map_filter_keys [OF _ inj_keys(3)];
        simp add: item_keys)+
  have g: "distinct (map it_key (gatewayItems w t)) \<and> it_key ` set (gatewayItems w t) \<subseteq> range gatewayKey"
  proof (cases "wi_servers w \<and> tb_servers t \<noteq> None")
    case True
    then obtain ss where ss: "tb_servers t = Some ss" "distinct (map sv_ID ss)"
      using assms(2) by (auto simp: rows_distinct_def)
    then show ?thesis
      using True map_filter_keys [of gateway_item it_key gatewayKey sv_ID, OF _ inj_keys(4) ss(2)] item_keys(4)
      by (simp add: gatewayItems_def)
  qed (auto simp: gatewayItems_def)
  show ?thesis
    unfolding p(5) using append_keys [OF a append_keys [OF v append_keys [OF d g key_ranges(3)] key_ranges(2)] key_ranges(1)]
    by (rule conjunct1)
qed

section \<open>What a sweep makes of a key\<close>

lemma judge_all_at:
  assumes "distinct (map it_key its)"
  shows "fst (judge_all now seen its fs) k =
    (case find (\<lambda>it. it_key it = k) its of
       None \<Rightarrow> fs k
     | Some it \<Rightarrow> fst (judge now it (seen_state seen k) (fs k)))"
  using assms
proof (induction its arbitrary: fs)
  case (Cons it its)
  let ?f = "fst (judge now it (seen_state seen (it_key it)) (fs (it_key it)))"
  have step: "fst (judge_all now seen (it # its) fs) = fst (judge_all now seen its (fs(it_key it := ?f)))"
    by (simp add: Let_def case_prod_beta)
  show ?case
  proof (cases "it_key it = k")
    case True
    then have "find (\<lambda>it. it_key it = k) its = None"
      using Cons.prems by (auto simp: find_None_iff image_iff)
    then show ?thesis
      unfolding step using Cons True by simp
  next
    case False
    then show ?thesis
      unfolding step using Cons not_sym [OF False] by (simp split: option.split)
  qed
qed simp

text \<open>The part of a finding that blocking leaves alone.\<close>

definition core :: "Finding \<Rightarrow> string \<times> int \<times> bool \<times> int \<times> string" where
  "core f = (fi_Class f, fi_misses f, fi_Confirmed f, fi_FirstSeenAt f, fi_Name f)"

lemma core_mark [simp]: "core (mark_blocked r f) = core f"
  by (simp add: core_def mark_blocked_def)

lemma block_item_core: "map_option core (fst (block_item it x) k) = map_option core (fst x k)"
  by (cases x) (auto simp: block_item_def option.map_comp o_def split: option.splits)

lemma fold_block_core: "map_option core (fst (fold block_item its x) k) = map_option core (fst x k)"
  by (induction its arbitrary: x) (simp_all add: block_item_core)

lemma core_fields: "map_option core x = map_option core y \<Longrightarrow> x = Some f \<Longrightarrow>
  \<exists>g. y = Some g \<and> fi_Class g = fi_Class f \<and> fi_misses g = fi_misses f \<and> fi_Confirmed g = fi_Confirmed f
    \<and> fi_FirstSeenAt g = fi_FirstSeenAt f \<and> fi_Name g = fi_Name f"
  by (cases y) (auto simp: core_def)

lemma lost_need_core:
  assumes "\<And>k. map_option core (fs k) = map_option core (gs k)"
  shows "lost_need fs it = lost_need gs it"
proof -
  have "(case fs k of Some f \<Rightarrow> if fi_Confirmed f then Some (lost_reason f) else acc | None \<Rightarrow> acc)
      = (case gs k of Some f \<Rightarrow> if fi_Confirmed f then Some (lost_reason f) else acc | None \<Rightarrow> acc)" for k acc
    using assms [of k] by (cases "fs k"; cases "gs k") (auto simp: core_def lost_reason_def)
  then show ?thesis
    by (simp add: lost_need_def)
qed

definition confirmed_lost :: "(string \<Rightarrow> Finding option) \<Rightarrow> string \<Rightarrow> bool" where
  "confirmed_lost fs k \<longleftrightarrow> (\<exists>f. fs k = Some f \<and> fi_Confirmed f)"

lemma lost_need_iff: "lost_need fs it \<noteq> None \<longleftrightarrow> it_owner it = OwnerApp \<and> (\<exists>k\<in>set (it_needs it). confirmed_lost fs k)"
proof -
  have "fold (\<lambda>k acc. case fs k of Some f \<Rightarrow> if fi_Confirmed f then Some (lost_reason f) else acc | None \<Rightarrow> acc) ks acc \<noteq> None
      \<longleftrightarrow> acc \<noteq> None \<or> (\<exists>k\<in>set ks. confirmed_lost fs k)" for ks acc
    by (induction ks arbitrary: acc) (auto simp: confirmed_lost_def split: option.splits)
  then show ?thesis
    by (simp add: lost_need_def)
qed

lemma fold_block_blocked:
  "snd (fold block_item its x) i \<noteq> None \<longleftrightarrow>
     snd x i \<noteq> None \<or> (\<exists>it\<in>set its. it_id it = i \<and> lost_need (fst x) it \<noteq> None)"
proof (induction its arbitrary: x)
  case (Cons it its)
  have "lost_need (fst (block_item it x)) j = lost_need (fst x) j" for j
    by (rule lost_need_core) (rule block_item_core)
  moreover have "snd (block_item it x) i \<noteq> None \<longleftrightarrow> snd x i \<noteq> None \<or> it_id it = i \<and> lost_need (fst x) it \<noteq> None"
    by (cases x) (auto simp: block_item_def split: option.splits)
  ultimately show ?case
    using Cons [of "block_item it x"] by auto
qed simp

text \<open>The finding of a key after a sweep has been recorded, blocking aside.\<close>

lemma record_findings:
  assumes "distinct (map it_key its)"
  shows "map_option core (cm_findings (fst (record_sweep its seen sk st now cm)) k) =
    (case find (\<lambda>it. it_key it = k) its of
       None \<Rightarrow> None
     | Some it \<Rightarrow> map_option core (fst (judge now it (seen_state seen k) (cm_findings cm k))))"
proof -
  have "(find (\<lambda>it. it_key it = k) its = None) \<longleftrightarrow> k \<notin> it_key ` set its"
    by (auto simp: find_None_iff)
  then show ?thesis
    using judge_all_at [OF assms, of now seen "cm_findings cm" k]
    by (auto simp: record_sweep_def Let_def case_prod_beta blockLocked_def fold_block_core split: option.split)
qed

lemma record_blocked:
  "cm_blocked (fst (record_sweep its seen sk st now cm)) i \<noteq> None \<longleftrightarrow>
     (\<exists>it\<in>set its. it_id it = i \<and> it_owner it = OwnerApp \<and>
        (\<exists>k\<in>set (it_needs it). confirmed_lost (cm_findings (fst (record_sweep its seen sk st now cm))) k))"
proof -
  let ?f = "\<lambda>k. if k \<in> it_key ` set its then fst (judge_all now seen its (cm_findings cm)) k else None"
  have r: "cm_findings (fst (record_sweep its seen sk st now cm)) = fst (fold block_item its (?f, \<lambda>_. None))"
    "cm_blocked (fst (record_sweep its seen sk st now cm)) = snd (fold block_item its (?f, \<lambda>_. None))"
    by (simp_all add: record_sweep_def Let_def case_prod_beta blockLocked_def)
  have "lost_need (fst (fold block_item its (?f, \<lambda>_. None))) it = lost_need ?f it" for it
    by (rule lost_need_core) (simp add: fold_block_core)
  then show ?thesis
    unfolding r fold_block_blocked lost_need_iff [symmetric] by (auto simp flip: lost_need_iff)
qed

text \<open>Acting leaves the findings and the blocks as they are.\<close>

lemma act_step_keeps:
  "cm_findings (fst (reportBlocked k r cm)) = cm_findings cm \<and> cm_blocked (fst (reportBlocked k r cm)) = cm_blocked cm"
  "cm_findings (fst (failed now it cm)) = cm_findings cm \<and> cm_blocked (fst (failed now it cm)) = cm_blocked cm"
  "cm_findings (fst (started now it d cm)) = cm_findings cm \<and> cm_blocked (fst (started now it d cm)) = cm_blocked cm"
  by (simp_all add: reportBlocked_def failed_def started_def set_attempt_def Let_def split: option.split)

lemma act_loop_keeps:
  "cm_findings (fst (act_loop w t r now ds pn tot cm)) = cm_findings cm
   \<and> cm_blocked (fst (act_loop w t r now ds pn tot cm)) = cm_blocked cm"
  by (induction ds arbitrary: pn tot cm)
    (simp_all add: Let_def case_prod_beta act_step_keeps split: option.split)

lemma act_keeps: "cm_findings (fst (act w t r now its cm)) = cm_findings cm
   \<and> cm_blocked (fst (act w t r now its cm)) = cm_blocked cm"
  by (simp add: act_def inflight_def act_loop_keeps Let_def)

section \<open>Findings are streaks\<close>

text \<open>The specification: what the sweeps made of one key, newest first. A key that is not expected or was seen intact has
  no streak; an unknown observation neither lengthens nor ends one; a change of class starts a new one.\<close>

datatype look = NotExpected | Saw state

fun streak :: "look list \<Rightarrow> (string \<times> int) option" where
  "streak [] = None"
| "streak (NotExpected # h) = None"
| "streak (Saw Intact # h) = None"
| "streak (Saw Unknown # h) = streak h"
| "streak (Saw st # h) =
     (case streak h of
        Some (c, n) \<Rightarrow> Some (state_class st, if c = state_class st then n + 1 else 1)
      | None \<Rightarrow> Some (state_class st, 1))"

definition look_at :: "Wiring \<Rightarrow> Outlook \<Rightarrow> string \<Rightarrow> look list" where
  "look_at w o1 k =
     (if ParseMode (tb_mode (ol_tables o1)) = ModeOff then [NotExpected]
      else case plan_items w (ol_tables o1) of
             None \<Rightarrow> []
           | Some its \<Rightarrow>
               [if k \<in> it_key ` set its then Saw (seen_state (fst (observe (ol_engines o1) (ol_start o1) its)) k)
                else NotExpected])"

definition run_sweeps :: "Wiring \<Rightarrow> Outlook list \<Rightarrow> ControlManager" where
  "run_sweeps w os = fold (sweep_state w) os new_manager"

definition history :: "Wiring \<Rightarrow> Outlook list \<Rightarrow> string \<Rightarrow> look list" where
  "history w os k = concat (map (\<lambda>o1. look_at w o1 k) (rev os))"

text \<open>A finding as its streak, and its confirmation as the length of it.\<close>

definition as_streak :: "Finding option \<Rightarrow> (string \<times> int) option" where
  "as_streak f = map_option (\<lambda>g. (fi_Class g, fi_misses g)) f"

definition confirmed_by_count :: "Finding option \<Rightarrow> bool" where
  "confirmed_by_count f \<longleftrightarrow> (\<forall>g. f = Some g \<longrightarrow> 1 \<le> fi_misses g \<and> (fi_Confirmed g \<longleftrightarrow> confirmAfter \<le> fi_misses g))"

lemma as_streak_core: "map_option core x = map_option core y \<Longrightarrow> as_streak x = as_streak y"
  by (cases x; cases y) (auto simp: core_def as_streak_def)

lemma count_core: "map_option core x = map_option core y \<Longrightarrow> confirmed_by_count x = confirmed_by_count y"
  by (cases x; cases y) (auto simp: core_def confirmed_by_count_def)

lemma judge_streak:
  assumes "as_streak f = streak h" and "confirmed_by_count f"
  shows "as_streak (fst (judge now it st f)) = streak (Saw st # h) \<and> confirmed_by_count (fst (judge now it st f))"
proof -
  have "streak h = as_streak f"
    using assms(1) by simp
  then show ?thesis
    using assms(2)
    by (cases st; cases f)
      (auto simp: judge_def as_streak_def confirmed_by_count_def newFinding_def confirmAfter_def Let_def)
qed

lemma sweep_streak:
  assumes "rows_distinct (ol_tables o1)" and "as_streak (cm_findings cm k) = streak h" and "confirmed_by_count (cm_findings cm k)"
  shows "as_streak (cm_findings (sweep_state w o1 cm) k) = streak (look_at w o1 k @ h)
    \<and> confirmed_by_count (cm_findings (sweep_state w o1 cm) k)"
proof (cases "ParseMode (tb_mode (ol_tables o1)) = ModeOff")
  case True
  then show ?thesis
    by (simp add: sweep_state_def Sweep_def reset_def new_manager_def look_at_def as_streak_def confirmed_by_count_def Let_def)
next
  case mode: False
  show ?thesis
  proof (cases "plan_items w (ol_tables o1)")
    case None
    then show ?thesis
      using mode assms by (simp add: sweep_state_def Sweep_def look_at_def Let_def)
  next
    case (Some its)
    let ?seen = "fst (observe (ol_engines o1) (ol_start o1) its)"
    let ?cm = "fst (record_sweep its ?seen (snd (observe (ol_engines o1) (ol_start o1) its)) (ol_start o1) (ol_now o1) cm)"
    have f: "cm_findings (sweep_state w o1 cm) k = cm_findings ?cm k"
      using mode Some act_keeps by (simp add: sweep_state_def Sweep_def Let_def case_prod_beta)
    show ?thesis
    proof (cases "find (\<lambda>it. it_key it = k) its")
      case None
      have "map_option core (cm_findings ?cm k) = None"
        unfolding record_findings [OF plan_keys_distinct [OF Some assms(1)]] using None by simp
      moreover have "k \<notin> it_key ` set its"
        using None by (auto simp: find_None_iff)
      ultimately have "cm_findings ?cm k = None" "k \<notin> it_key ` set its"
        by simp_all
      then show ?thesis
        unfolding f using mode Some by (simp add: look_at_def as_streak_def confirmed_by_count_def)
    next
      case it: (Some it)
      then have "k \<in> it_key ` set its"
        by (auto simp: find_Some_iff)
      then have l: "look_at w o1 k = [Saw (seen_state ?seen k)]"
        using mode Some by (simp add: look_at_def)
      have "map_option core (cm_findings ?cm k) = map_option core (fst (judge (ol_now o1) it (seen_state ?seen k) (cm_findings cm k)))"
        using record_findings [OF plan_keys_distinct [OF Some assms(1)], of ?seen] it by simp
      then show ?thesis
        unfolding f l using as_streak_core count_core judge_streak [OF assms(2,3)] by (metis append_Cons append_Nil)
    qed
  qed
qed

text \<open>C11: Detection is exactly two consecutive looks: after any sequence of sweeps, whatever they read, the finding of a
  workload is the streak of its own observations since it was last seen intact or left the plan, counted per
  class, with unknown observations passed over, and it is confirmed exactly when the streak is two or longer.\<close>

theorem findings_are_streaks:
  assumes "\<forall>o1\<in>set os. rows_distinct (ol_tables o1)"
  shows "as_streak (cm_findings (run_sweeps w os) k) = streak (history w os k)
    \<and> (\<forall>f. cm_findings (run_sweeps w os) k = Some f \<longrightarrow> (fi_Confirmed f \<longleftrightarrow> 2 \<le> fi_misses f))"
proof -
  have "as_streak (cm_findings (run_sweeps w os) k) = streak (history w os k)
      \<and> confirmed_by_count (cm_findings (run_sweeps w os) k)"
    using assms
  proof (induction os rule: rev_induct)
    case Nil
    then show ?case
      by (simp add: run_sweeps_def history_def new_manager_def as_streak_def confirmed_by_count_def)
  next
    case (snoc o1 os)
    then show ?case
      using sweep_streak [of o1 "run_sweeps w os" k "history w os k" w] by (simp add: run_sweeps_def history_def)
  qed
  then show ?thesis
    by (simp add: confirmed_by_count_def confirmAfter_def)
qed

section \<open>What enforcement may do\<close>

lemma refuse_blocked: "cm_blocked cm = cm_blocked cm' \<Longrightarrow> refuse w t cm it = refuse w t cm' it"
  by (simp add: refuse_def BlockedRedeploy_def)

lemma no_restored: "Restored k n \<notin> set (snd (reportBlocked key r cm))" "Restored k n \<notin> set (snd (failed now it cm))"
  by (simp_all add: reportBlocked_def failed_def Let_def)

lemma act_loop_restored:
  assumes "Restored k n \<in> set (snd (act_loop w t r now ds pn tot cm))"
  shows "\<exists>d\<in>set ds. it_key (ac_item d) = k \<and> refuse w t cm (ac_item d) = None"
  using assms
proof (induction ds arbitrary: pn tot cm)
  case (Cons d ds)
  let ?it = "ac_item d"
  have tail: ?case
    if "Restored k n \<in> set (snd (act_loop w t r now ds pn' tot' cm'))" "cm_blocked cm' = cm_blocked cm" for pn' tot' cm'
    using Cons.IH [OF that(1)] refuse_blocked [OF that(2)] by auto
  show ?case
  proof (cases "refuse w t cm ?it")
    case (Some reason)
    then have "Restored k n \<in> set (snd (act_loop w t r now ds pn tot (fst (reportBlocked (it_key ?it) reason cm))))"
      using Cons.prems no_restored(1) by (simp add: Let_def case_prod_beta)
    then show ?thesis
      by (rule tail) (simp add: act_step_keeps)
  next
    case free: None
    show ?thesis
    proof (cases "budgetPlatform \<le> tot \<or> budgetPerNode \<le> pn (it_nodeID ?it)")
      case True
      then have "Restored k n \<in> set (snd (act_loop w t r now ds pn tot cm))"
        using Cons.prems free by (simp add: Let_def case_prod_beta)
      then show ?thesis
        by (rule tail) simp
    next
      case budget: False
      show ?thesis
      proof (cases "restore r ?it")
        case None
        then have "Restored k n \<in> set (snd (act_loop w t r now ds pn tot (fst (failed now ?it cm))))"
          using Cons.prems free budget no_restored(2) by (simp add: Let_def case_prod_beta)
        then show ?thesis
          by (rule tail) (simp add: act_step_keeps)
      next
        case (Some dep)
        then have "it_key ?it = k \<or> Restored k n \<in> set (snd (act_loop w t r now ds
            (pn(it_nodeID ?it := pn (it_nodeID ?it) + 1)) (tot + 1) (fst (started now ?it dep cm))))"
          using Cons.prems free budget by (auto simp: Let_def case_prod_beta started_def)
        then show ?thesis
          using free tail [where cm' = "fst (started now ?it dep cm)"] by (auto simp: act_step_keeps)
      qed
    qed
  qed
qed simp

lemma due_member:
  "d \<in> set (due w mode now cm its) \<longleftrightarrow> (\<exists>it\<in>set its. actionable_of w mode now cm it = Some d)"
  by (simp add: due_def set_map_filter)

lemma actionable_of_Some:
  "actionable_of w mode now cm it = Some d \<longleftrightarrow>
     canAct w mode it \<and> d = \<lparr>ac_item = it, ac_finding = ac_finding d\<rparr> \<and> cm_findings cm (it_key it) = Some (ac_finding d)
     \<and> fi_Confirmed (ac_finding d) \<and> attempt_due now (cm_attempts cm (it_key it))"
  by (cases d) (auto simp: actionable_of_def split: option.splits)

lemma plan_members:
  assumes "plan_items w t = Some its" and "it \<in> set its" and "it_kind it = kindContainer \<or> it_kind it = kindService"
  shows "it_owner it = OwnerApp \<and> (\<exists>a. it_app it = Some a \<and> it_id it = ap_ID a)"
  using assms item_keys
  by (fastforce simp: plan_items_def set_map_filter gatewayItems_def split: option.splits if_splits)

lemma refuse_None:
  assumes "refuse w t cm it = None" and "it_kind it \<noteq> kindGateway"
  shows "cm_blocked cm (it_id it) = None"
    and "wi_suspended w \<Longrightarrow> it_app it = Some a \<Longrightarrow> ap_WorkspaceID a \<notin> set (tb_suspended t)"
    and "wi_placement w \<Longrightarrow> Placeable t (it_nodeID it) = None"
    and "wi_configs w \<Longrightarrow> it_app it = Some a \<Longrightarrow> \<forall>m\<in>set (ap_Mounts a). \<not> missing_config t it m"
  using assms by (auto simp: refuse_def BlockedRedeploy_def find_None_iff split: option.splits if_splits)

text \<open>What an item must have for enforcement to restore it, over the findings as they are recorded.\<close>

definition may_restore :: "Wiring \<Rightarrow> Tables \<Rightarrow> (string \<Rightarrow> Finding option) \<Rightarrow> item \<Rightarrow> bool" where
  "may_restore w t fs it \<longleftrightarrow>
     it_kind it = kindGateway \<and> \<not> it_imported it \<and> ParseMode (tb_mode t) = ModeEnforce \<or>
     (it_kind it = kindContainer \<or> it_kind it = kindService) \<and> it_policy it = Some ModeEnforce \<and>
     (\<forall>k\<in>set (it_needs it). \<not> confirmed_lost fs k) \<and>
     (wi_placement w \<longrightarrow> Placeable t (it_nodeID it) = None) \<and>
     (\<exists>a. it_app it = Some a \<and>
        (wi_suspended w \<longrightarrow> ap_WorkspaceID a \<notin> set (tb_suspended t)) \<and>
        (wi_configs w \<longrightarrow> (\<forall>m\<in>set (ap_Mounts a). \<not> missing_config t it m)))"

lemma record_attempts:
  assumes "cm_findings (fst (record_sweep its seen sk st now cm)) k = Some f"
  shows "cm_attempts (fst (record_sweep its seen sk st now cm)) k = cm_attempts cm k"
proof -
  let ?f = "\<lambda>k. if k \<in> it_key ` set its then fst (judge_all now seen its (cm_findings cm)) k else None"
  have "map_option core (cm_findings (fst (record_sweep its seen sk st now cm)) k) = map_option core (?f k)"
    by (simp add: record_sweep_def Let_def case_prod_beta blockLocked_def fold_block_core)
  then have "?f k \<noteq> None"
    using assms by (metis map_option_is_None option.distinct(1))
  then show ?thesis
    by (simp add: record_sweep_def Let_def case_prod_beta keep_attempt_def)
      (auto split: option.split if_splits)
qed

lemma record_restores_nothing: "Restored k n \<notin> set (snd (record_sweep its seen sk st now cm))"
proof -
  have "Restored k n \<notin> set (snd (judge_all now seen xs fs))" for xs fs
  proof (induction xs arbitrary: fs)
    case (Cons x xs)
    then show ?case
      by (auto simp: judge_def Let_def case_prod_beta split: state.splits option.splits if_splits)
  qed simp
  then show ?thesis
    by (simp add: record_sweep_def Let_def case_prod_beta)
qed

lemma Sweep_act:
  assumes "Sweep w o1 cm = Some (cm', evs)" and "Restored k n \<in> set evs"
  obtains its cm1 where
    "plan_items w (ol_tables o1) = Some its"
    "cm1 = fst (record_sweep its (fst (observe (ol_engines o1) (ol_start o1) its))
              (snd (observe (ol_engines o1) (ol_start o1) its)) (ol_start o1) (ol_now o1) cm)"
    "cm' = fst (act w (ol_tables o1) (ol_restorer o1) (ol_now o1) its cm1)"
    "Restored k n \<in> set (snd (act w (ol_tables o1) (ol_restorer o1) (ol_now o1) its cm1))"
proof -
  have on: "ParseMode (tb_mode (ol_tables o1)) \<noteq> ModeOff"
    using assms by (auto simp: Sweep_def)
  then obtain its where its: "plan_items w (ol_tables o1) = Some its"
    using assms(1) by (auto simp: Sweep_def Let_def split: option.splits)
  show thesis
    using that [OF its refl] assms its on record_restores_nothing
    by (auto simp: Sweep_def Let_def case_prod_beta)
qed

text \<open>What acting restores was due, was not refused, and had a confirmed finding.\<close>

lemma act_restores:
  assumes "Restored k n \<in> set (snd (act w t r now its cm))"
  shows "\<exists>it f. it \<in> set its \<and> it_key it = k \<and> refuse w t cm it = None \<and> canAct w (ParseMode (tb_mode t)) it \<and>
    cm_findings cm k = Some f \<and> fi_Confirmed f \<and> attempt_due now (cm_attempts cm k)"
proof -
  let ?cm = "fst (inflight t cm)"
  have keeps: "cm_blocked ?cm = cm_blocked cm" "cm_findings ?cm = cm_findings cm" "cm_attempts ?cm = cm_attempts cm"
    by (simp_all add: inflight_def Let_def)
  have "Restored k n \<in> set (snd (act_loop w t r now (due w (ParseMode (tb_mode t)) now ?cm its)
      (fst (snd (inflight t cm))) (snd (snd (inflight t cm))) ?cm))"
    using assms by (simp add: act_def Let_def case_prod_beta split: if_splits)
  from act_loop_restored [OF this] obtain d where d: "it_key (ac_item d) = k" "refuse w t ?cm (ac_item d) = None"
    "d \<in> set (due w (ParseMode (tb_mode t)) now ?cm its)"
    by blast
  obtain it where it: "it \<in> set its" "actionable_of w (ParseMode (tb_mode t)) now ?cm it = Some d"
    using d(3) unfolding due_member by blast
  then have "ac_item d = it"
    unfolding actionable_of_Some by (metis actionable.select_convs(1))
  moreover have "refuse w t cm (ac_item d) = None"
    using d(2) keeps(1) refuse_blocked by metis
  ultimately show ?thesis
    using it d(1) unfolding actionable_of_Some keeps by auto
qed

text \<open>An item that is not refused after a sweep's record lost none of the volumes it needs.\<close>

lemma unrefused_may_restore:
  assumes its: "plan_items w t = Some its" and "it \<in> set its" and "canAct w (ParseMode (tb_mode t)) it"
    and cm: "cm1 = fst (record_sweep its seen sk st now cm)" and free: "refuse w t cm1 it = None"
  shows "may_restore w t (cm_findings cm1) it"
proof (cases "it_kind it = kindGateway")
  case True
  then show ?thesis
    using assms(3) by (simp add: canAct_def may_restore_def)
next
  case False
  then have k: "it_kind it = kindContainer \<or> it_kind it = kindService" "it_policy it = Some ModeEnforce"
    using assms(3) by (auto simp: canAct_def split: if_splits)
  obtain app where app: "it_owner it = OwnerApp" "it_app it = Some app"
    using plan_members [OF its assms(2) k(1)] by auto
  have "\<forall>k\<in>set (it_needs it). \<not> confirmed_lost (cm_findings cm1) k"
    using record_blocked [of its seen sk st now cm "it_id it"] refuse_None(1) [OF free False] assms(2) app(1) cm by auto
  then show ?thesis
    using k app refuse_None [OF free False] by (simp add: may_restore_def)
qed

text \<open>C6: Enforcement is cautious: whatever a sweep restores was expected by this sweep, has a confirmed finding, is past
  its backoff with its breaker closed, and is a gateway of Miabi's own under platform enforcement, or an app that is
  itself enforced, none of whose volumes is confirmed lost, in a workspace that is not suspended, on a node that
  takes workloads, with every config it mounts. No volume is ever restored.\<close>

theorem restores_are_cautious:
  assumes "Sweep w o1 cm = Some (cm', evs)" and "Restored k n \<in> set evs"
  shows "\<exists>its it f. plan_items w (ol_tables o1) = Some its \<and> it \<in> set its \<and> it_key it = k \<and>
    cm_findings cm' k = Some f \<and> fi_Confirmed f \<and> attempt_due (ol_now o1) (cm_attempts cm k) \<and>
    may_restore w (ol_tables o1) (cm_findings cm') it"
proof -
  let ?t = "ol_tables o1"
  obtain its cm1 where its: "plan_items w ?t = Some its"
    and cm1: "cm1 = fst (record_sweep its (fst (observe (ol_engines o1) (ol_start o1) its))
              (snd (observe (ol_engines o1) (ol_start o1) its)) (ol_start o1) (ol_now o1) cm)"
    and cm': "cm' = fst (act w ?t (ol_restorer o1) (ol_now o1) its cm1)"
    and "Restored k n \<in> set (snd (act w ?t (ol_restorer o1) (ol_now o1) its cm1))"
    using Sweep_act [OF assms] by blast
  from act_restores [OF this(4)] obtain it f where it: "it \<in> set its" "it_key it = k" "refuse w ?t cm1 it = None"
    "canAct w (ParseMode (tb_mode ?t)) it" "cm_findings cm1 k = Some f" "fi_Confirmed f"
    "attempt_due (ol_now o1) (cm_attempts cm1 k)"
    by blast
  have "cm_findings cm' = cm_findings cm1"
    using act_keeps cm' by simp
  moreover have "cm_attempts cm1 k = cm_attempts cm k"
    using record_attempts it(5) unfolding cm1 .
  ultimately show ?thesis
    using its it unrefused_may_restore [OF its it(1,4) cm1 it(3)] by auto
qed

section \<open>Budgets and the breaker\<close>

definition within_budget :: "(nat \<times> nat) list \<Rightarrow> bool" where
  "within_budget ds \<longleftrightarrow> int (length ds) \<le> budgetPlatform \<and> (\<forall>n. node_count ds n \<le> budgetPerNode)"

lemma node_count_filter: "node_count (filter P ds) n \<le> node_count ds n"
  unfolding node_count_def filter_filter by (induction ds) auto

lemma within_budget_filter: "within_budget ds \<Longrightarrow> within_budget (filter P ds)"
proof -
  assume d: "within_budget ds"
  have "int (length (filter P ds)) \<le> int (length ds)"
    by simp
  then have "int (length (filter P ds)) \<le> budgetPlatform"
    using d unfolding within_budget_def by linarith
  moreover have "node_count (filter P ds) n \<le> budgetPerNode" for n
    using d node_count_filter [of P ds n] unfolding within_budget_def by (meson order_trans)
  ultimately show ?thesis
    by (simp add: within_budget_def)
qed

lemma put_inflight_counts:
  "int (length (put_inflight ds i n)) \<le> int (length ds) + 1"
  "node_count (put_inflight ds i n) m \<le> node_count ds m + (if m = n then 1 else 0)"
  using length_filter_le [of "\<lambda>d. fst d \<noteq> i" ds] node_count_filter [of "\<lambda>d. fst d \<noteq> i" ds m]
  by (auto simp: put_inflight_def node_count_def)

text \<open>The loop's counters bound the books.\<close>

lemma act_loop_budget:
  assumes "int (length (cm_inflight cm)) \<le> tot" and "\<And>n. node_count (cm_inflight cm) n \<le> pn n"
    and "tot \<le> budgetPlatform" and "\<And>n. pn n \<le> budgetPerNode"
  shows "within_budget (cm_inflight (fst (act_loop w t r now ds pn tot cm)))"
  using assms
proof (induction ds arbitrary: pn tot cm)
  case Nil
  then show ?case
    by (auto simp: within_budget_def intro: order_trans)
next
  case (Cons d ds)
  let ?it = "ac_item d"
  have keep: "cm_inflight (fst (reportBlocked k x cm)) = cm_inflight cm" "cm_inflight (fst (failed now i cm)) = cm_inflight cm"
    for k x i
    by (simp_all add: reportBlocked_def failed_def set_attempt_def Let_def)
  have same: "within_budget (cm_inflight (fst (act_loop w t r now ds pn tot cm')))"
    if "cm_inflight cm' = cm_inflight cm" for cm'
    using Cons.prems that by (intro Cons.IH) simp_all
  have more: "within_budget (cm_inflight (fst (act_loop w t r now ds (pn(it_nodeID ?it := pn (it_nodeID ?it) + 1)) (tot + 1)
      (fst (started now ?it dep cm)))))"
    if "tot < budgetPlatform" "pn (it_nodeID ?it) < budgetPerNode" for dep
  proof (rule Cons.IH)
    have i: "cm_inflight (fst (started now ?it dep cm)) =
        (case dep of None \<Rightarrow> cm_inflight cm | Some i \<Rightarrow> put_inflight (cm_inflight cm) i (it_nodeID ?it))"
      by (simp add: started_def set_attempt_def Let_def split: option.split)
    show "int (length (cm_inflight (fst (started now ?it dep cm)))) \<le> tot + 1"
      unfolding i using Cons.prems(1) order_trans [OF put_inflight_counts(1) add_right_mono [OF Cons.prems(1), of 1]]
      by (simp split: option.split)
    show "node_count (cm_inflight (fst (started now ?it dep cm))) n \<le> (pn(it_nodeID ?it := pn (it_nodeID ?it) + 1)) n" for n
    proof (cases dep)
      case None
      then show ?thesis
        unfolding i using Cons.prems(2) [of n] by auto
    next
      case (Some j)
      then show ?thesis
        unfolding i using Cons.prems(2) [of n] put_inflight_counts(2) [of "cm_inflight cm" j "it_nodeID ?it" n]
        by (simp split: if_splits)
    qed
    show "(pn(it_nodeID ?it := pn (it_nodeID ?it) + 1)) n \<le> budgetPerNode" for n
      using Cons.prems(4) that(2) by simp
  qed (use that(1) in simp)
  show ?case
    using same keep more by (simp add: Let_def case_prod_beta split: option.split)
qed

lemma act_budget: "within_budget (cm_inflight cm) \<Longrightarrow> within_budget (cm_inflight (fst (act w t r now its cm)))"
proof -
  assume b: "within_budget (cm_inflight cm)"
  let ?ds = "filter (\<lambda>d. in_flight t (fst d)) (cm_inflight cm)"
  have "within_budget ?ds"
    by (rule within_budget_filter [OF b])
  then have "within_budget (cm_inflight (fst (act_loop w t r now ds (node_count ?ds) (int (length ?ds))
      (cm\<lparr>cm_inflight := ?ds\<rparr>))))" for ds
    by (intro act_loop_budget) (simp_all add: within_budget_def)
  then show ?thesis
    using b by (simp add: act_def inflight_def Let_def)
qed

text \<open>Two sides of an attempt record: it counts failures up to the breaker, and the breaker is open exactly there.\<close>

definition attempt_ok :: "attempt option \<Rightarrow> bool" where
  "attempt_ok a \<longleftrightarrow> (\<forall>x. a = Some x \<longrightarrow> 0 \<le> at_failures x \<and> at_failures x \<le> breakerAfter \<and>
     (at_breakerOpen x \<longleftrightarrow> at_failures x = breakerAfter))"

lemma reportBlocked_attempts:
  "attempt_ok (cm_attempts cm k) \<Longrightarrow> attempt_ok (cm_attempts (fst (reportBlocked key r cm)) k)"
  by (auto simp: attempt_ok_def reportBlocked_def set_attempt_def attemptLocked_def zero_attempt_def breakerAfter_def Let_def
      split: option.splits)

lemma tried_attempts:
  assumes "attempt_ok (cm_attempts cm k)" and "k = it_key it \<Longrightarrow> attempt_due now (cm_attempts cm k)"
  shows "attempt_ok (cm_attempts (fst (failed now it cm)) k)" and "attempt_ok (cm_attempts (fst (started now it dep cm)) k)"
  using assms
  by (auto simp: attempt_ok_def attempt_due_def failed_def started_def set_attempt_def attemptLocked_def zero_attempt_def
      breakerAfter_def Let_def split: option.splits)

lemma other_attempts:
  "k \<noteq> key \<Longrightarrow> cm_attempts (fst (reportBlocked key r cm)) k = cm_attempts cm k"
  "k \<noteq> it_key it \<Longrightarrow> cm_attempts (fst (failed now it cm)) k = cm_attempts cm k"
  "k \<noteq> it_key it \<Longrightarrow> cm_attempts (fst (started now it dep cm)) k = cm_attempts cm k"
  by (simp_all add: reportBlocked_def failed_def started_def set_attempt_def Let_def split: option.split)

lemma act_loop_attempts:
  assumes "\<And>k. attempt_ok (cm_attempts cm k)" and "distinct (map (\<lambda>d. it_key (ac_item d)) ds)"
    and "\<And>d. d \<in> set ds \<Longrightarrow> attempt_due now (cm_attempts cm (it_key (ac_item d)))"
  shows "attempt_ok (cm_attempts (fst (act_loop w t r now ds pn tot cm)) k)"
  using assms
proof (induction ds arbitrary: pn tot cm)
  case (Cons d ds)
  have IH: "attempt_ok (cm_attempts (fst (act_loop w t r now ds pn' tot' cm')) k)"
    if "\<And>k. attempt_ok (cm_attempts cm' k)" "\<And>k. k \<noteq> it_key (ac_item d) \<Longrightarrow> cm_attempts cm' k = cm_attempts cm k"
    for pn' tot' cm'
  proof (rule Cons.IH [OF that(1)])
    fix e
    assume e: "e \<in> set ds"
    then have "it_key (ac_item e) \<in> (\<lambda>d. it_key (ac_item d)) ` set ds"
      by (rule imageI)
    then have "it_key (ac_item e) \<noteq> it_key (ac_item d)"
      using Cons.prems(2) by (metis distinct.simps(2) list.simps(9) set_map)
    then show "attempt_due now (cm_attempts cm' (it_key (ac_item e)))"
      using Cons.prems(3) that(2) e by simp
  qed (use Cons.prems(2) in simp)
  have due: "k = it_key (ac_item d) \<Longrightarrow> attempt_due now (cm_attempts cm k)" for k
    using Cons.prems(3) by simp
  show ?case
    using IH reportBlocked_attempts [OF Cons.prems(1)] tried_attempts [OF Cons.prems(1) due] other_attempts Cons.prems(1)
    by (simp add: Let_def case_prod_beta split: option.split)
qed simp

lemma due_keys:
  assumes "distinct (map it_key its)"
  shows "distinct (map (\<lambda>d. it_key (ac_item d)) (due w mode now cm its))"
proof -
  have "map (\<lambda>d. it_key (ac_item d)) (List.map_filter (actionable_of w mode now cm) its)
      = map it_key (filter (\<lambda>it. actionable_of w mode now cm it \<noteq> None) its)"
    by (induction its) (auto simp: List.map_filter_simps actionable_of_def split: option.splits)
  then have "distinct (map (\<lambda>d. it_key (ac_item d)) (List.map_filter (actionable_of w mode now cm) its))"
    using assms by (simp add: distinct_map_filter)
  then show ?thesis
    unfolding due_def by (metis distinct_map mset_SliceStable mset_eq_imp_distinct_iff mset_map)
qed

lemma act_attempts:
  assumes "\<And>k. attempt_ok (cm_attempts cm k)" and "distinct (map it_key its)"
  shows "attempt_ok (cm_attempts (fst (act w t r now its cm)) k)"
proof -
  let ?cm = "fst (inflight t cm)"
  have i: "cm_attempts ?cm = cm_attempts cm"
    by (simp add: inflight_def Let_def)
  have "attempt_due now (cm_attempts ?cm (it_key (ac_item d)))"
    if "d \<in> set (due w (ParseMode (tb_mode t)) now ?cm its)" for d
    using that unfolding due_member actionable_of_Some by (metis actionable.select_convs(1))
  then show ?thesis
    using act_loop_attempts [of ?cm "due w (ParseMode (tb_mode t)) now ?cm its" now] assms due_keys [OF assms(2)] i
    by (simp add: act_def Let_def case_prod_beta)
qed

lemma sweep_limits:
  assumes "within_budget (cm_inflight cm)" and "\<And>k. attempt_ok (cm_attempts cm k)" and "rows_distinct (ol_tables o1)"
  shows "within_budget (cm_inflight (sweep_state w o1 cm)) \<and> attempt_ok (cm_attempts (sweep_state w o1 cm) k)"
proof (cases "Sweep w o1 cm")
  case None
  then show ?thesis
    using assms by (simp add: sweep_state_def)
next
  case (Some x)
  show ?thesis
  proof (cases "ParseMode (tb_mode (ol_tables o1)) = ModeOff")
    case True
    then show ?thesis
      by (simp add: sweep_state_def Sweep_def Let_def reset_def new_manager_def within_budget_def node_count_def attempt_ok_def
          budgetPlatform_def budgetPerNode_def)
  next
    case False
    then obtain its where its: "plan_items w (ol_tables o1) = Some its"
      using Some by (auto simp: Sweep_def Let_def split: option.splits)
    let ?ob = "observe (ol_engines o1) (ol_start o1) its"
    let ?cm = "fst (record_sweep its (fst ?ob) (snd ?ob) (ol_start o1) (ol_now o1) cm)"
    have s: "sweep_state w o1 cm = fst (act w (ol_tables o1) (ol_restorer o1) (ol_now o1) its ?cm)"
      using False its by (simp add: sweep_state_def Sweep_def Let_def case_prod_beta)
    have "cm_inflight ?cm = cm_inflight cm"
      by (simp add: record_sweep_def Let_def case_prod_beta)
    moreover have "attempt_ok (cm_attempts ?cm k)" for k
      using assms(2) [of k]
      by (auto simp: record_sweep_def Let_def case_prod_beta keep_attempt_def attempt_ok_def split: option.splits)
    ultimately show ?thesis
      unfolding s using act_budget act_attempts [OF _ plan_keys_distinct [OF its assms(3)]] assms(1) by simp
  qed
qed


section \<open>Sample sweeps\<close>

definition all_wired :: Wiring where
  "all_wired = \<lparr>wi_redeployer = True, wi_servers = True, wi_gateways = True, wi_placement = True, wi_suspended = True,
     wi_configs = True, wi_volumeBackups = True, wi_dbBackups = True\<rparr>"

definition sample_app :: Application where
  "sample_app = \<lparr>ap_ID = 7, ap_WorkspaceID = 1, ap_ServerID = 0, ap_ClusterID = 1, ap_Name = ''web'', ap_Alias = [],
     ap_RuntimeKind = ''container'', ap_ReconcilePolicy = ''inherit'', ap_Status = ''running'', ap_CurrentReleaseID = Some 1,
     ap_Mounts = [\<lparr>mt_VolumeID = 3, mt_DockerName = ''mb-data'', mt_HostPreset = [], mt_HostPath = [], mt_ConfigID = 0\<rparr>]\<rparr>"

definition sample_volume :: Volume where
  "sample_volume = \<lparr>vo_ID = 3, vo_WorkspaceID = 1, vo_ServerID = 0, vo_ClusterID = 1, vo_Name = ''data'',
     vo_DockerName = ''mb-data'', vo_Driver = ''local'', vo_EngineCreatedAt = ''t0''\<rparr>"

definition sample_tables :: Tables where
  "sample_tables = \<lparr>tb_apps = Some [sample_app], tb_deployments = Some [], tb_volumes = Some [sample_volume],
     tb_instances = Some [], tb_servers = Some [], tb_releases = [(7, ''c1'')], tb_configs = [], tb_suspended = [],
     tb_volumeBackups = Some [], tb_recoveryPoints = Some [], tb_mode = ''enforce''\<rparr>"

text \<open>The local engine with the given containers and volumes.\<close>

definition engine_with :: "string list \<Rightarrow> (string \<times> string) list \<Rightarrow> Engines" where
  "engine_with cs vs = \<lparr>eg_since = (\<lambda>_. Some None), eg_for = (\<lambda>_. True), eg_containers = (\<lambda>_. Some cs),
     eg_volumes = (\<lambda>_. Some vs), eg_container = (\<lambda>_ _. InspectNotFound), eg_manager = (\<lambda>_. True),
     eg_service = (\<lambda>_ _. InspectNotFound)\<rparr>"

definition outlook_at :: "int \<Rightarrow> Tables \<Rightarrow> Engines \<Rightarrow> Outlook" where
  "outlook_at now t e = \<lparr>ol_tables = t, ol_engines = e,
     ol_restorer = \<lparr>rs_redeploy = (\<lambda>_. Some 41), rs_ensure = (\<lambda>_. True)\<rparr>, ol_start = now, ol_now = now\<rparr>"

definition one_minute :: int where "one_minute = 60000000000"

text \<open>What the last sweep of a sequence emitted, as names.\<close>

fun event_text :: "cm_event \<Rightarrow> string" where
  "event_text (DriftDetected f) = ''detected '' @ fi_Ref f"
| "event_text (DriftResolved f) = ''resolved '' @ fi_Ref f"
| "event_text (Restored k n) = ''restored '' @ k"
| "event_text (BreakerOpened k n) = ''gave up '' @ k"
| "event_text (NotRestored k r) = ''not restored '' @ k"
| "event_text (Deferred k) = ''deferred '' @ k"
| "event_text (Failed k) = ''failed '' @ k"

definition last_events :: "Wiring \<Rightarrow> Outlook list \<Rightarrow> string list" where
  "last_events w os =
     (case Sweep w (last os) (run_sweeps w (butlast os)) of None \<Rightarrow> [] | Some (cm, evs) \<Rightarrow> map event_text evs)"

definition lost_container :: "int \<Rightarrow> Outlook" where
  "lost_container k = outlook_at (k * one_minute) sample_tables (engine_with [''c9''] [(''mb-data'', ''t0'')])"

lemma sample_restored: "last_events all_wired [lost_container 0, lost_container 1] = [''detected app:7'', ''restored app:7'']"
  by code_simp

fun restores :: "string \<Rightarrow> cm_event \<Rightarrow> bool" where
  "restores k (Restored k' n) \<longleftrightarrow> k' = k"
| "restores k _ \<longleftrightarrow> False"

lemma restores_iff: "restores k e \<longleftrightarrow> (\<exists>n. e = Restored k n)"
  by (cases e) auto

lemma sample_sweep:
  "\<exists>cm evs n. Sweep all_wired (lost_container 1) (run_sweeps all_wired [lost_container 0]) = Some (cm, evs) \<and>
     Restored (appKey 7) n \<in> set evs"
proof -
  have "case Sweep all_wired (lost_container 1) (run_sweeps all_wired [lost_container 0]) of
      None \<Rightarrow> False | Some (cm, evs) \<Rightarrow> list_ex (restores (appKey 7)) evs"
    by code_simp
  then show ?thesis
    by (auto simp: list_ex_iff restores_iff split: option.splits)
qed

theorem restores_are_cautious_witness:
  "\<exists>its it (cm :: ControlManager). plan_items all_wired sample_tables = Some its \<and> it \<in> set its \<and> it_key it = appKey 7 \<and>
     may_restore all_wired sample_tables (cm_findings cm) it"
proof -
  obtain cm evs n where "Sweep all_wired (lost_container 1) (run_sweeps all_wired [lost_container 0]) = Some (cm, evs)"
    "Restored (appKey 7) n \<in> set evs"
    using sample_sweep by blast
  from restores_are_cautious [OF this] have "\<exists>its it. plan_items all_wired (ol_tables (lost_container 1)) = Some its \<and>
      it \<in> set its \<and> it_key it = appKey 7 \<and> may_restore all_wired (ol_tables (lost_container 1)) (cm_findings cm) it"
    by blast
  moreover have t: "ol_tables (lost_container 1) = sample_tables"
    by (simp add: lost_container_def outlook_at_def)
  ultimately show ?thesis
    unfolding t by blast
qed

lemma sample_rows: "rows_distinct (ol_tables (lost_container k))"
  by (simp add: lost_container_def outlook_at_def sample_tables_def rows_distinct_def)

theorem findings_are_streaks_witness:
  "as_streak (cm_findings (run_sweeps all_wired [lost_container 0, lost_container 1]) (appKey 7)) = Some (ClassMissing, 2)"
proof -
  have "streak (history all_wired [lost_container 0, lost_container 1] (appKey 7)) = Some (ClassMissing, 2)"
    by code_simp
  moreover have "\<forall>o1\<in>set [lost_container 0, lost_container 1]. rows_distinct (ol_tables o1)"
    using sample_rows by simp
  from findings_are_streaks [OF this]
  have "as_streak (cm_findings (run_sweeps all_wired [lost_container 0, lost_container 1]) (appKey 7))
      = streak (history all_wired [lost_container 0, lost_container 1] (appKey 7))"
    by (rule conjunct1)
  ultimately show ?thesis
    by simp
qed


section \<open>Limits of the control manager\<close>

text \<open>The container and its volume are gone, then the volume is back under its name but empty.\<close>

definition lost_both :: "int \<Rightarrow> Outlook" where
  "lost_both k = outlook_at (k * one_minute) sample_tables (engine_with [''c9''] [(''other'', ''t0'')])"

definition volume_recreated :: "int \<Rightarrow> Outlook" where
  "volume_recreated k = outlook_at (k * one_minute) sample_tables (engine_with [''c9''] [(''mb-data'', ''t1'')])"

text \<open>A confirmed loss stops blocking when its class changes: a volume that was missing and then reappears recreated gets a
  fresh, unconfirmed finding, so for one sweep the app that mounts it is no longer blocked and is redeployed onto the
  empty volume.\<close>

theorem recreated_volume_unblocks_app:
  "last_events all_wired [lost_both 0, lost_both 1]
     = [''detected app:7'', ''detected volume:3'', ''not restored app:7'']
   \<and> last_events all_wired [lost_both 0, lost_both 1, volume_recreated 2] = [''restored app:7'']"
  by code_simp

text \<open>Blocking outlives its cause in the report: once the volume is back as it was, the app may be redeployed, but its own
  finding still says that it is blocked and asks for a restore.\<close>

definition observed_only :: "Outlook \<Rightarrow> Outlook" where
  "observed_only o1 = o1\<lparr>ol_tables := (ol_tables o1)\<lparr>tb_mode := ''observe''\<rparr>\<rparr>"

theorem blocked_flag_outlives_block:
  "let cm = run_sweeps all_wired (map observed_only [lost_both 0, lost_both 1, lost_container 2])
   in BlockedRedeploy cm 7 = None \<and> map_option fi_Blocked (cm_findings cm (appKey 7)) = Some True
      \<and> map_option fi_Action (cm_findings cm (appKey 7)) = Some ActionRestore"
  by code_simp

text \<open>A shared volume is taken for lost data: an NFS volume that no task has mounted on its recorded node blocks its app,
  while the guard of the deploy itself lets the app start.\<close>

definition shared_tables :: Tables where
  "shared_tables = sample_tables\<lparr>tb_volumes := Some [sample_volume\<lparr>vo_Driver := VolumeDriverNFS\<rparr>]\<rparr>"

definition shared_lost :: "int \<Rightarrow> Outlook" where
  "shared_lost k = outlook_at (k * one_minute) shared_tables (engine_with [''c9''] [(''other'', ''t0'')])"

theorem shared_volume_blocks_app:
  "last_events all_wired [shared_lost 0, shared_lost 1]
     = [''detected app:7'', ''detected volume:3'', ''not restored app:7'']
   \<and> CheckApp (\<lambda>_. Some (\<lambda>_. InspectNotFound)) [sample_volume\<lparr>vo_Driver := VolumeDriverNFS\<rparr>] sample_app = None"
  by code_simp

text \<open>Enforcement acts without a look: a finding confirmed earlier is acted on by a sweep that skipped its node as offline.\<close>

definition remote_tables :: "string \<Rightarrow> Tables" where
  "remote_tables mode = sample_tables\<lparr>tb_apps := Some [sample_app\<lparr>ap_ServerID := 2, ap_Mounts := []\<rparr>],
     tb_servers := Some [\<lparr>sv_ID = 2, sv_ClusterID = 1, sv_Name = ''edge'', sv_Connectivity = ''agent'',
       sv_GatewayContainer = [], sv_GatewayDeployed = False, sv_GatewayImported = False, sv_IsLocal = False,
       sv_Cordoned = False\<rparr>], tb_mode := mode\<rparr>"

definition remote_offline :: Outlook where
  "remote_offline = outlook_at (2 * one_minute) (remote_tables ''enforce'') ((engine_with [] [])\<lparr>eg_since := (\<lambda>_. None)\<rparr>)"

definition remote_lost :: "int \<Rightarrow> Outlook" where
  "remote_lost k = outlook_at (k * one_minute) (remote_tables ''observe'') (engine_with [''c9''] [])"

theorem unobserved_node_acted_on:
  "last_events all_wired [remote_lost 0, remote_lost 1, remote_offline] = [''restored app:7'']"
  by code_simp

text \<open>A failed read clears findings: a sweep that cannot read the list of servers drops the finding of every gateway, a
  confirmed one included, and the next sweep starts counting again.\<close>

theorem failed_read_clears_findings:
  assumes "ParseMode (tb_mode (ol_tables o1)) \<noteq> ModeOff" and "tb_servers (ol_tables o1) = None"
    and "plan_items w (ol_tables o1) = Some its" and "rows_distinct (ol_tables o1)"
  shows "cm_findings (sweep_state w o1 cm) (gatewayKey n) = None"
proof -
  have "gatewayItems w (ol_tables o1) = []"
    using assms(2) by (simp add: gatewayItems_def)
  then have "it_key it \<noteq> gatewayKey n" if "it \<in> set its" for it
    using that assms(3) item_keys(1-3) by (fastforce simp: plan_items_def set_map_filter split: option.splits)
  then have "find (\<lambda>it. it_key it = gatewayKey n) its = None"
    by (simp add: find_None_iff)
  then have "map_option core (cm_findings (fst (record_sweep its seen sk st now cm)) (gatewayKey n)) = None" for seen sk st now
    unfolding record_findings [OF plan_keys_distinct [OF assms(3,4)]] by simp
  then show ?thesis
    using assms(1,3) act_keeps by (simp add: sweep_state_def Sweep_def Let_def case_prod_beta)
qed

text \<open>One healthy look more than ten minutes after the last attempt forgets the attempts of a workload, an open breaker and a
  wait that is not over included: the waits after the fifth attempt are longer than that.\<close>

theorem healthy_look_forgets_backoff:
  assumes "distinct (map it_key its)" and "it \<in> set its" and "seen_state seen (it_key it) = Intact"
    and "cm_attempts cm (it_key it) = Some a" and "at_lastActedAt a + forgetAfter < now"
  shows "cm_attempts (fst (record_sweep its seen sk st now cm)) (it_key it) = None \<and> forgetAfter < backoff 5"
proof
  obtain jt where "find (\<lambda>x. it_key x = it_key it) its = Some jt"
    using assms(2) by (metis (mono_tags, lifting) find_None_iff option.exhaust)
  then have "fst (judge_all now seen its (cm_findings cm)) (it_key it) = None"
    using judge_all_at [OF assms(1), of now seen "cm_findings cm" "it_key it"] assms(3) by (simp add: judge_def)
  then show "cm_attempts (fst (record_sweep its seen sk st now cm)) (it_key it) = None"
    using assms(4,5) by (simp add: record_sweep_def Let_def case_prod_beta keep_attempt_def)
  show "forgetAfter < backoff 5"
    unfolding backoff_saturates by (simp add: forgetAfter_def backoffBase_def backoffMax_def)
qed

end
