(* ===== verification/Security_Policy.thy ===== *)
theory Security_Policy
  imports Go_Prelude "HOL-Library.Word"
begin

text \<open>
  The platform's security policies, \<^verbatim>\<open>internal/services/secpolicy\<close>: the host-port specification and its decisions
  (\<^verbatim>\<open>policy.go\<close>, \<^verbatim>\<open>ports.go\<close>), the admin-console access specification (\<^verbatim>\<open>adminaccess.go\<close>), and the table of
  rules by scope with its resolution, save and delete (\<^verbatim>\<open>service.go\<close>).

  A rule is a row of the table; its specification column is what its text decodes to (\<open>None\<close> when it does not).
  A rule for a workspace, organization or plan may only tighten the platform's rule, unless that one allows
  exceptions; the lemmas show that the decisions keep to this.
\<close>

section \<open>The host-port specification\<close>

abbreviation PortsApproval :: string where "PortsApproval \<equiv> ''approval''"
abbreviation PortsAutoApproveInRange :: string where "PortsAutoApproveInRange \<equiv> ''auto_approve_in_range''"
abbreviation PortsRejectAll :: string where "PortsRejectAll \<equiv> ''reject_all''"
abbreviation PortsExistingKeep :: string where "PortsExistingKeep \<equiv> ''keep''"
abbreviation PortsExistingReport :: string where "PortsExistingReport \<equiv> ''report''"
abbreviation PortsExistingRevoke :: string where "PortsExistingRevoke \<equiv> ''revoke''"
abbreviation ModeOff :: string where "ModeOff \<equiv> ''off''"
abbreviation ModeAudit :: string where "ModeAudit \<equiv> ''audit''"
abbreviation ModeEnforce :: string where "ModeEnforce \<equiv> ''enforce''"

definition maxPortNumber :: int where "maxPortNumber = 65535"

record PortRange =
  rg_From :: int
  rg_To :: int
  rg_Protocols :: "string list"

record PortsSpec =
  ps_V :: int
  ps_Mode :: string
  ps_AllowedRanges :: "PortRange list"
  ps_BindAddress :: string
  ps_PrivilegedBypass :: "bool option"
  ps_Existing :: string

definition range_contains :: "PortRange \<Rightarrow> int \<Rightarrow> string \<Rightarrow> bool" where
  "range_contains r port proto \<longleftrightarrow>
     \<not> (port < rg_From r \<or> port > rg_To r) \<and> (rg_Protocols r = [] \<or> proto \<in> set (rg_Protocols r))"

definition privilegedBypass :: "PortsSpec \<Rightarrow> bool" where
  "privilegedBypass s = (case ps_PrivilegedBypass s of None \<Rightarrow> True | Some b \<Rightarrow> b)"

datatype spec_error = MalformedSpec | UnsupportedVersion | UnknownPortsMode | UnknownExistingMode | InvalidWindow nat | UnknownProtocol nat | NoAllowedRange
  | InvalidBindAddress

fun check_ranges :: "nat \<Rightarrow> PortRange list \<Rightarrow> spec_error option" where
  "check_ranges i [] = None"
| "check_ranges i (r # rs) =
     (if rg_From r < 1 \<or> rg_To r > maxPortNumber \<or> rg_From r > rg_To r then Some (InvalidWindow (i + 1))
      else if list_ex (\<lambda>p. p \<noteq> ''tcp'' \<and> p \<noteq> ''udp'') (rg_Protocols r) then Some (UnknownProtocol (i + 1))
      else check_ranges (i + 1) rs)"

text \<open>The defaults of a decoded document, and the first thing wrong with it.\<close>

definition fill_defaults :: "PortsSpec \<Rightarrow> PortsSpec" where
  "fill_defaults s =
     s\<lparr>ps_V := (if ps_V s = 0 then 1 else ps_V s), ps_Mode := (if ps_Mode s = [] then PortsApproval else ps_Mode s),
       ps_Existing := (if ps_Existing s = [] then PortsExistingKeep else ps_Existing s)\<rparr>"

definition ports_spec_error :: "(string \<Rightarrow> bool) \<Rightarrow> PortsSpec \<Rightarrow> spec_error option" where
  "ports_spec_error is_addr s =
     (if ps_V s \<noteq> 1 then Some UnsupportedVersion
      else if ps_Mode s \<notin> {PortsApproval, PortsAutoApproveInRange, PortsRejectAll} then Some UnknownPortsMode
      else if ps_Existing s \<notin> {PortsExistingKeep, PortsExistingReport, PortsExistingRevoke} then Some UnknownExistingMode
      else case check_ranges 0 (ps_AllowedRanges s) of Some e \<Rightarrow> Some e
      | None \<Rightarrow>
          if ps_Mode s = PortsAutoApproveInRange \<and> ps_AllowedRanges s = [] then Some NoAllowedRange
          else if ps_BindAddress s \<noteq> [] \<and> \<not> is_addr (ps_BindAddress s) then Some InvalidBindAddress
          else None)"

text \<open>
  The stored document, defaults filled in and checked. \<open>None\<close> is text that is not the JSON of a specification;
  \<open>is_addr\<close> tells what the address parser of \<^verbatim>\<open>net/netip\<close> accepts.
\<close>

definition ParsePortsSpec :: "(string \<Rightarrow> bool) \<Rightarrow> PortsSpec option \<Rightarrow> spec_error + PortsSpec" where
  "ParsePortsSpec is_addr doc =
     (case doc of None \<Rightarrow> Inl MalformedSpec
      | Some s0 \<Rightarrow> let s = fill_defaults s0 in
          case ports_spec_error is_addr s of Some e \<Rightarrow> Inl e | None \<Rightarrow> Inr s)"

record PortDecision =
  pd_Allowed :: bool
  pd_AutoApprove :: bool
  pd_Note :: string

definition privileged_note :: string where "privileged_note = ''Auto-approved (privileged workspace)''"

definition defaultPortDecision :: "bool \<Rightarrow> PortDecision" where
  "defaultPortDecision privileged =
     \<lparr>pd_Allowed = True, pd_AutoApprove = privileged, pd_Note = (if privileged then privileged_note else [])\<rparr>"

definition range_note :: "PortRange \<Rightarrow> string" where
  "range_note r = ''Auto-approved (within '' @ Itoa (rg_From r) @ ''-'' @ Itoa (rg_To r) @ '' by platform policy)''"

definition denied_reason :: string where "denied_reason = ''host ports are disabled by platform policy''"

text \<open>The decision, and the reason to record for a denial.\<close>

definition decidePortRequest :: "string \<Rightarrow> PortsSpec \<Rightarrow> int \<Rightarrow> string \<Rightarrow> bool \<Rightarrow> PortDecision \<times> string" where
  "decidePortRequest mode spec hostPort protocol privileged =
     (let proto = (if protocol \<noteq> ''udp'' then ''tcp'' else protocol) in
      if ps_Mode spec = PortsRejectAll
      then (if mode = ModeAudit then (defaultPortDecision privileged, denied_reason)
            else (\<lparr>pd_Allowed = False, pd_AutoApprove = False, pd_Note = []\<rparr>, denied_reason))
      else if mode = ModeAudit then (defaultPortDecision privileged, [])
      else case (if ps_Mode spec = PortsAutoApproveInRange \<and> hostPort \<noteq> 0
                 then find (\<lambda>r. range_contains r hostPort proto) (ps_AllowedRanges spec) else None) of
             Some r \<Rightarrow> (\<lparr>pd_Allowed = True, pd_AutoApprove = True, pd_Note = range_note r\<rparr>, [])
           | None \<Rightarrow>
               if privileged \<and> privilegedBypass spec
               then (\<lparr>pd_Allowed = True, pd_AutoApprove = True, pd_Note = privileged_note\<rparr>, [])
               else (\<lparr>pd_Allowed = True, pd_AutoApprove = False, pd_Note = []\<rparr>, []))"

definition modeRank :: "string \<Rightarrow> int" where
  "modeRank m = (if m = ModeEnforce then 2 else if m = ModeAudit then 1 else 0)"

definition portsModeRank :: "string \<Rightarrow> int" where
  "portsModeRank m = (if m = PortsRejectAll then 2 else if m = PortsApproval then 1 else 0)"

definition rangeCovered :: "PortRange \<Rightarrow> PortRange list \<Rightarrow> bool" where
  "rangeCovered r base =
     list_all (\<lambda>p. list_all (\<lambda>port. list_ex (\<lambda>b. range_contains b port p) base) [rg_From r..rg_To r])
       (if rg_Protocols r = [] then [''tcp'', ''udp''] else rg_Protocols r)"

definition portsLoosens :: "string \<Rightarrow> PortsSpec \<Rightarrow> string \<Rightarrow> PortsSpec \<Rightarrow> bool" where
  "portsLoosens baseMode base narrowMode narrow \<longleftrightarrow>
     modeRank narrowMode < modeRank baseMode \<or>
     portsModeRank (ps_Mode narrow) < portsModeRank (ps_Mode base) \<or>
     (\<not> privilegedBypass base \<and> privilegedBypass narrow) \<or>
     (ps_BindAddress base \<noteq> [] \<and> ps_BindAddress narrow \<noteq> ps_BindAddress base) \<or>
     (ps_Mode base = PortsAutoApproveInRange \<and> ps_Mode narrow = PortsAutoApproveInRange \<and>
      \<not> list_all (\<lambda>r. rangeCovered r (ps_AllowedRanges base)) (ps_AllowedRanges narrow))"


section \<open>Publishing\<close>

text \<open>What the decision reads of an approved binding.\<close>

record PublishView =
  pv_HostPort :: int
  pv_Protocol :: string
  pv_AdminAdopted :: bool
  pv_UpdatedAt :: int

record PublishDecision =
  ud_Allowed :: bool
  ud_BindAddress :: string
  ud_Reason :: string

definition grandfathered :: "PortsSpec \<Rightarrow> int \<Rightarrow> PublishView \<Rightarrow> bool" where
  "grandfathered spec policyAt b \<longleftrightarrow> ps_Existing spec \<noteq> PortsExistingRevoke \<and> \<not> pv_UpdatedAt b > policyAt"

definition not_published :: "PublishView \<Rightarrow> string" where
  "not_published b = ''host port '' @ Itoa (pv_HostPort b) @ ''/'' @ pv_Protocol b @
     '' not published: host ports are disabled by platform policy''"

definition decidePublish :: "string \<Rightarrow> PortsSpec \<Rightarrow> int \<Rightarrow> PublishView \<Rightarrow> PublishDecision \<times> string" where
  "decidePublish mode spec policyAt b =
     (let bound = \<lparr>ud_Allowed = True, ud_BindAddress = ps_BindAddress spec, ud_Reason = []\<rparr>;
          free = \<lparr>ud_Allowed = True, ud_BindAddress = [], ud_Reason = []\<rparr> in
      if pv_AdminAdopted b then (if mode = ModeAudit then (free, []) else (bound, []))
      else if mode = ModeAudit
      then (if ps_Mode spec = PortsRejectAll \<and> \<not> grandfathered spec policyAt b
            then (free, ''would not publish: host ports are disabled by platform policy'') else (free, []))
      else if ps_Mode spec = PortsRejectAll \<and> \<not> grandfathered spec policyAt b
      then (\<lparr>ud_Allowed = False, ud_BindAddress = [], ud_Reason = not_published b\<rparr>, not_published b)
      else (bound, []))"

section \<open>The admin console's specification\<close>

text \<open>Durations are nanoseconds, as in \<^verbatim>\<open>time.Duration\<close>.\<close>

definition minute :: int where "minute = 60 * 1000000000"

datatype Addr = V4 "32 word" | V6 "128 word" string

record Prefix =
  px_Addr :: Addr
  px_Bits :: nat

definition addr_bits :: "Addr \<Rightarrow> nat" where
  "addr_bits a = (case a of V4 _ \<Rightarrow> 32 | V6 _ _ \<Rightarrow> 128)"

text \<open>\<open>Addr.Unmap\<close> and \<open>Prefix.Contains\<close> of \<^verbatim>\<open>net/netip\<close>.\<close>

definition Unmap :: "Addr \<Rightarrow> Addr" where
  "Unmap a = (case a of V4 w \<Rightarrow> V4 w
     | V6 w z \<Rightarrow> if drop_bit 32 w = 0xFFFF then V4 (ucast w) else V6 w z)"

definition prefix_Contains :: "Prefix \<Rightarrow> Addr \<Rightarrow> bool" where
  "prefix_Contains p a =
     (case (px_Addr p, a) of
        (V4 n, V4 w) \<Rightarrow> px_Bits p \<le> 32 \<and> drop_bit (32 - px_Bits p) n = drop_bit (32 - px_Bits p) w
      | (V6 n _, V6 w z) \<Rightarrow> z = [] \<and> px_Bits p \<le> 128 \<and> drop_bit (128 - px_Bits p) n = drop_bit (128 - px_Bits p) w
      | _ \<Rightarrow> False)"

text \<open>What the specification asks of the standard library: the parsers of durations, addresses and prefixes.\<close>

record AccessLib =
  al_ParseDuration :: "string \<Rightarrow> int option"
  al_ParseAddr :: "string \<Rightarrow> Addr option"
  al_ParsePrefix :: "string \<Rightarrow> Prefix option"

record AdminAccessSpec =
  aa_V :: int
  aa_Required :: bool
  aa_Factors :: "string list"
  aa_TTL :: string
  aa_IdleTimeout :: string
  aa_SensitiveWindow :: string
  aa_MaxAttempts :: int
  aa_Lockout :: string
  aa_AllowedIPs :: "string list"

record AdminAccess =
  ac_Required :: bool
  ac_TTL :: int
  ac_IdleTimeout :: int
  ac_SensitiveWindow :: int
  ac_MaxAttempts :: int
  ac_Lockout :: int
  ac_AllowedIPs :: "Prefix list"

definition DefaultAdminAccess :: AdminAccess where
  "DefaultAdminAccess =
     \<lparr>ac_Required = True, ac_TTL = 30 * minute, ac_IdleTimeout = 10 * minute, ac_SensitiveWindow = 5 * minute,
       ac_MaxAttempts = 5, ac_Lockout = 15 * minute, ac_AllowedIPs = []\<rparr>"

definition NoAdminAccess :: AdminAccess where
  "NoAdminAccess = \<lparr>ac_Required = False, ac_TTL = 0, ac_IdleTimeout = 0, ac_SensitiveWindow = 0, ac_MaxAttempts = 0,
     ac_Lockout = 0, ac_AllowedIPs = []\<rparr>"

datatype access_error = MalformedAccess | UnsupportedAccessVersion | FactorUnavailable string | BadDuration string
  | IdleExceedsTTL | BadMaxAttempts | BadAllowedIP string

definition parsePrefix :: "AccessLib \<Rightarrow> string \<Rightarrow> Prefix option" where
  "parsePrefix lib s0 =
     (let s = TrimSpace s0 in
      if ContainsStr s ''/'' then al_ParsePrefix lib s
      else case al_ParseAddr lib s of None \<Rightarrow> None | Some a \<Rightarrow> Some \<lparr>px_Addr = a, px_Bits = addr_bits a\<rparr>)"

fun parse_prefixes :: "AccessLib \<Rightarrow> string list \<Rightarrow> access_error + Prefix list" where
  "parse_prefixes lib [] = Inr []"
| "parse_prefixes lib (ip # ips) =
     (case parsePrefix lib ip of None \<Rightarrow> Inl (BadAllowedIP ip)
      | Some p \<Rightarrow> (case parse_prefixes lib ips of Inl e \<Rightarrow> Inl e | Inr ps \<Rightarrow> Inr (p # ps)))"

text \<open>One optional duration: absent, it keeps its default; given, it is between a minute and a day.\<close>

definition access_duration :: "AccessLib \<Rightarrow> string \<Rightarrow> string \<Rightarrow> int \<Rightarrow> access_error + int" where
  "access_duration lib nm raw dflt =
     (if raw = [] then Inr dflt
      else case al_ParseDuration lib raw of None \<Rightarrow> Inl (BadDuration nm)
           | Some v \<Rightarrow> if v < minute \<or> v > 24 * 60 * minute then Inl (BadDuration nm) else Inr v)"

definition fill_access :: "AdminAccessSpec \<Rightarrow> AdminAccessSpec" where
  "fill_access s = s\<lparr>aa_V := (if aa_V s = 0 then 1 else aa_V s), aa_Factors := (if aa_Factors s = [] then [''totp''] else aa_Factors s)\<rparr>"

text \<open>The four durations in the order they are read: ttl, idle timeout, sensitive window, lockout.\<close>

definition access_durations :: "AccessLib \<Rightarrow> AdminAccessSpec \<Rightarrow> access_error + int \<times> int \<times> int \<times> int" where
  "access_durations lib s =
     (case access_duration lib ''ttl'' (aa_TTL s) (ac_TTL DefaultAdminAccess) of Inl e \<Rightarrow> Inl e | Inr ttl \<Rightarrow>
      case access_duration lib ''idle_timeout'' (aa_IdleTimeout s) (ac_IdleTimeout DefaultAdminAccess) of Inl e \<Rightarrow> Inl e | Inr idle \<Rightarrow>
      case access_duration lib ''sensitive_window'' (aa_SensitiveWindow s) (ac_SensitiveWindow DefaultAdminAccess) of
        Inl e \<Rightarrow> Inl e | Inr window \<Rightarrow>
      case access_duration lib ''lockout'' (aa_Lockout s) (ac_Lockout DefaultAdminAccess) of Inl e \<Rightarrow> Inl e | Inr lockout \<Rightarrow>
      Inr (ttl, idle, window, lockout))"

definition ParseAdminAccessSpec :: "AccessLib \<Rightarrow> AdminAccessSpec option \<Rightarrow> access_error + AdminAccessSpec \<times> AdminAccess" where
  "ParseAdminAccessSpec lib doc =
     (case doc of None \<Rightarrow> Inl MalformedAccess | Some s0 \<Rightarrow>
      let s = fill_access s0 in
      if aa_V s \<noteq> 1 then Inl UnsupportedAccessVersion
      else case find (\<lambda>f. f \<noteq> ''totp'') (aa_Factors s) of Some f \<Rightarrow> Inl (FactorUnavailable f) | None \<Rightarrow>
      case access_durations lib s of Inl e \<Rightarrow> Inl e | Inr (ttl, idle, window, lockout) \<Rightarrow>
      if idle > ttl then Inl IdleExceedsTTL
      else if aa_MaxAttempts s < 0 \<or> aa_MaxAttempts s > 50 then Inl BadMaxAttempts
      else case parse_prefixes lib (aa_AllowedIPs s) of Inl e \<Rightarrow> Inl e | Inr ips \<Rightarrow>
        Inr (s, \<lparr>ac_Required = aa_Required s, ac_TTL = ttl, ac_IdleTimeout = idle, ac_SensitiveWindow = window,
                  ac_MaxAttempts = (if aa_MaxAttempts s > 0 then aa_MaxAttempts s else ac_MaxAttempts DefaultAdminAccess),
                  ac_Lockout = lockout, ac_AllowedIPs = ips\<rparr>))"

section \<open>Rules by scope\<close>

abbreviation KindPorts :: string where "KindPorts \<equiv> ''ports''"
abbreviation KindAdminAccess :: string where "KindAdminAccess \<equiv> ''admin_access''"
abbreviation ScopePlatform :: string where "ScopePlatform \<equiv> ''platform''"
abbreviation ScopePlan :: string where "ScopePlan \<equiv> ''plan''"
abbreviation ScopeOrganization :: string where "ScopeOrganization \<equiv> ''organization''"
abbreviation ScopeWorkspace :: string where "ScopeWorkspace \<equiv> ''workspace''"

text \<open>The text of a rule's specification, by what either decoder makes of it.\<close>

record SpecDoc =
  sd_ports :: "PortsSpec option"
  sd_admin :: "AdminAccessSpec option"

record SecurityPolicy =
  sp_ID :: nat
  sp_Kind :: string
  sp_ScopeType :: string
  sp_ScopeID :: nat
  sp_Mode :: string
  sp_AllowExceptions :: bool
  sp_Spec :: SpecDoc
  sp_Version :: int
  sp_UpdatedBy :: "nat option"
  sp_UpdatedAt :: int

text \<open>The rows of the workspaces table a resolution reads: plan and organization.\<close>

record PolicyWorkspace =
  pw_Plan :: "nat option"
  pw_Organization :: "nat option"

record Security =
  se_enabled :: bool
  se_entitled :: bool
  se_lib :: AccessLib
  se_rows :: "SecurityPolicy list"
  se_next :: nat
  se_workspaces :: "(nat \<times> PolicyWorkspace) list"
  se_readDown :: bool
  se_writeDown :: bool
  se_now :: int

definition is_addr :: "AccessLib \<Rightarrow> string \<Rightarrow> bool" where
  "is_addr lib s \<longleftrightarrow> al_ParseAddr lib s \<noteq> None"

definition parse_ports :: "AccessLib \<Rightarrow> SpecDoc \<Rightarrow> spec_error + PortsSpec" where
  "parse_ports lib d = ParsePortsSpec (is_addr lib) (sd_ports d)"

definition loosens :: "AccessLib \<Rightarrow> SecurityPolicy \<Rightarrow> SecurityPolicy \<Rightarrow> bool" where
  "loosens lib base narrow =
     (if sp_Kind base = KindPorts
      then (case (parse_ports lib (sp_Spec base), parse_ports lib (sp_Spec narrow)) of
              (Inr b, Inr n) \<Rightarrow> portsLoosens (sp_Mode base) b (sp_Mode narrow) n
            | _ \<Rightarrow> True)
      else modeRank (sp_Mode narrow) < modeRank (sp_Mode base))"

definition find_scope :: "SecurityPolicy list \<Rightarrow> string \<Rightarrow> nat \<Rightarrow> SecurityPolicy option" where
  "find_scope rows scope i =
     (if scope \<noteq> ScopePlatform \<and> i = 0 then None
      else find (\<lambda>p. sp_ScopeType p = scope \<and> sp_ScopeID p = i) rows)"

fun resolve_chain :: "AccessLib \<Rightarrow> SecurityPolicy option \<Rightarrow> SecurityPolicy option list \<Rightarrow> SecurityPolicy option" where
  "resolve_chain lib platform [] = platform"
| "resolve_chain lib platform (None # cs) = resolve_chain lib platform cs"
| "resolve_chain lib platform (Some p # cs) =
     (case platform of
        Some base \<Rightarrow> if \<not> sp_AllowExceptions base \<and> loosens lib base p then Some base else Some p
      | None \<Rightarrow> Some p)"

definition resolve :: "AccessLib \<Rightarrow> SecurityPolicy list \<Rightarrow> nat \<Rightarrow> nat \<Rightarrow> nat \<Rightarrow> SecurityPolicy option" where
  "resolve lib rows workspaceID planID orgID =
     resolve_chain lib (find_scope rows ScopePlatform 0)
       [find_scope rows ScopeWorkspace workspaceID, find_scope rows ScopeOrganization orgID, find_scope rows ScopePlan planID]"

definition ListByKind :: "Security \<Rightarrow> string \<Rightarrow> SecurityPolicy list" where
  "ListByKind s kind = filter (\<lambda>p. sp_Kind p = kind) (se_rows s)"

definition active :: "Security \<Rightarrow> bool" where
  "active s \<longleftrightarrow> se_enabled s \<and> se_entitled s"

text \<open>The rule that governs a workspace: an error, none, or one.\<close>

definition effective :: "Security \<Rightarrow> string \<Rightarrow> nat \<Rightarrow> unit + SecurityPolicy option" where
  "effective s kind workspaceID =
     (if se_readDown s then Inl ()
      else let rows = ListByKind s kind;
               ws = (if workspaceID = 0 then None else map_of (se_workspaces s) workspaceID);
               planID = (case ws of None \<Rightarrow> 0 | Some w \<Rightarrow> (case pw_Plan w of None \<Rightarrow> 0 | Some i \<Rightarrow> i));
               orgID = (case ws of None \<Rightarrow> 0 | Some w \<Rightarrow> (case pw_Organization w of None \<Rightarrow> 0 | Some i \<Rightarrow> i))
           in if rows = [] then Inr None else Inr (resolve (se_lib s) rows workspaceID planID orgID))"

text \<open>The rule in force for host ports, with its parsed specification; \<open>None\<close> wherever Community behaviour applies.\<close>

definition ports_rule :: "Security \<Rightarrow> nat \<Rightarrow> (SecurityPolicy \<times> PortsSpec) option" where
  "ports_rule s workspaceID =
     (if \<not> active s then None
      else case effective s KindPorts workspaceID of
             Inl _ \<Rightarrow> None
           | Inr None \<Rightarrow> None
           | Inr (Some p) \<Rightarrow>
               if sp_Mode p = ModeOff then None
               else (case parse_ports (se_lib s) (sp_Spec p) of Inl _ \<Rightarrow> None | Inr spec \<Rightarrow> Some (p, spec)))"

definition CheckPortRequest :: "Security \<Rightarrow> nat \<Rightarrow> int \<Rightarrow> string \<Rightarrow> bool \<Rightarrow> PortDecision" where
  "CheckPortRequest s workspaceID hostPort protocol privileged =
     (case ports_rule s workspaceID of
        None \<Rightarrow> defaultPortDecision privileged
      | Some (p, spec) \<Rightarrow> fst (decidePortRequest (sp_Mode p) spec hostPort protocol privileged))"

definition CheckPortPublish :: "Security \<Rightarrow> nat \<Rightarrow> PublishView \<Rightarrow> PublishDecision" where
  "CheckPortPublish s workspaceID b =
     (case ports_rule s workspaceID of
        None \<Rightarrow> \<lparr>ud_Allowed = True, ud_BindAddress = [], ud_Reason = []\<rparr>
      | Some (p, spec) \<Rightarrow> fst (decidePublish (sp_Mode p) spec (sp_UpdatedAt p) b))"

record PortsPolicyView =
  vw_RequestsAllowed :: bool
  vw_Mode :: string
  vw_AutoApprove :: "PortRange list"
  vw_Reason :: string

definition PortsView :: "Security \<Rightarrow> nat \<Rightarrow> PortsPolicyView" where
  "PortsView s workspaceID =
     (let v = \<lparr>vw_RequestsAllowed = True, vw_Mode = PortsApproval, vw_AutoApprove = [], vw_Reason = []\<rparr> in
      case ports_rule s workspaceID of None \<Rightarrow> v
      | Some (p, spec) \<Rightarrow>
          if sp_Mode p \<noteq> ModeEnforce then v
          else if ps_Mode spec = PortsRejectAll
          then v\<lparr>vw_Mode := PortsRejectAll, vw_RequestsAllowed := False, vw_Reason := denied_reason\<rparr>
          else if ps_Mode spec = PortsAutoApproveInRange
          then v\<lparr>vw_Mode := PortsAutoApproveInRange, vw_AutoApprove := ps_AllowedRanges spec\<rparr>
          else v\<lparr>vw_Mode := ps_Mode spec\<rparr>)"

text \<open>The first enforced platform rule decides; one whose text does not parse decides nothing.\<close>

definition AdminAccessPolicy :: "Security \<Rightarrow> AdminAccess option" where
  "AdminAccessPolicy s =
     (if \<not> active s \<or> se_readDown s then None
      else case find (\<lambda>p. sp_ScopeType p = ScopePlatform \<and> sp_Mode p = ModeEnforce) (ListByKind s KindAdminAccess) of
             None \<Rightarrow> None
           | Some p \<Rightarrow> (case ParseAdminAccessSpec (se_lib s) (sd_admin (sp_Spec p)) of Inl _ \<Rightarrow> None | Inr (_, a) \<Rightarrow> Some a))"

section \<open>Saving and deleting rules\<close>

record SaveInput =
  si_Kind :: string
  si_ScopeType :: string
  si_ScopeID :: nat
  si_Mode :: string
  si_AllowExceptions :: bool
  si_Spec :: SpecDoc

datatype save_error = PlatformTakesNoID | ScopeNeedsID | UnknownScope | UnknownMode | BadPortsSpec spec_error
  | BadAccessSpec access_error | UnknownKind | AdminAccessScope | AdminAccessAudit | ExceptionsScope | Loosens
  | PolicyStorage

definition ValidScope :: "string \<Rightarrow> nat \<Rightarrow> save_error option" where
  "ValidScope scope i =
     (if scope = ScopePlatform then (if i \<noteq> 0 then Some PlatformTakesNoID else None)
      else if scope \<in> {ScopePlan, ScopeOrganization, ScopeWorkspace} then (if i = 0 then Some ScopeNeedsID else None)
      else Some UnknownScope)"

definition ValidMode :: "string \<Rightarrow> bool" where
  "ValidMode m \<longleftrightarrow> m = ModeOff \<or> m = ModeAudit \<or> m = ModeEnforce"

text \<open>The text of a specification with its defaults written out.\<close>

definition normalizeSpec :: "AccessLib \<Rightarrow> string \<Rightarrow> SpecDoc \<Rightarrow> save_error + SpecDoc" where
  "normalizeSpec lib kind d =
     (if kind = KindPorts
      then (case parse_ports lib d of Inl e \<Rightarrow> Inl (BadPortsSpec e) | Inr spec \<Rightarrow> Inr (d\<lparr>sd_ports := Some spec\<rparr>))
      else if kind = KindAdminAccess
      then (case ParseAdminAccessSpec lib (sd_admin d) of Inl e \<Rightarrow> Inl (BadAccessSpec e)
            | Inr (spec, _) \<Rightarrow> Inr (d\<lparr>sd_admin := Some spec\<rparr>))
      else Inl UnknownKind)"

definition FindScope :: "Security \<Rightarrow> string \<Rightarrow> string \<Rightarrow> nat \<Rightarrow> SecurityPolicy option" where
  "FindScope s kind scope i =
     find (\<lambda>p. sp_Kind p = kind \<and> sp_ScopeType p = scope \<and> sp_ScopeID p = i) (se_rows s)"

definition repo_save :: "Security \<Rightarrow> SecurityPolicy \<Rightarrow> Security \<times> SecurityPolicy" where
  "repo_save s p0 =
     (let p = p0\<lparr>sp_UpdatedAt := se_now s\<rparr> in
      if sp_ID p = 0
      then let p = p\<lparr>sp_ID := se_next s\<rparr> in (s\<lparr>se_rows := se_rows s @ [p], se_next := se_next s + 1\<rparr>, p)
      else if list_ex (\<lambda>x. sp_ID x = sp_ID p) (se_rows s)
      then (s\<lparr>se_rows := map (\<lambda>x. if sp_ID x = sp_ID p then p else x) (se_rows s)\<rparr>, p)
      else (s\<lparr>se_rows := se_rows s @ [p]\<rparr>, p))"

definition new_rule :: "SaveInput \<Rightarrow> SpecDoc \<Rightarrow> SecurityPolicy" where
  "new_rule inp spec =
     \<lparr>sp_ID = 0, sp_Kind = si_Kind inp, sp_ScopeType = si_ScopeType inp, sp_ScopeID = si_ScopeID inp,
       sp_Mode = si_Mode inp, sp_AllowExceptions = si_AllowExceptions inp, sp_Spec = spec,
       sp_Version = 1, sp_UpdatedBy = None, sp_UpdatedAt = 0\<rparr>"

text \<open>Whether the platform's rule refuses a new one; when it cannot be read, it does not.\<close>

definition platform_refuses :: "Security \<Rightarrow> SecurityPolicy \<Rightarrow> bool" where
  "platform_refuses s new \<longleftrightarrow>
     sp_ScopeType new \<noteq> ScopePlatform \<and> \<not> se_readDown s \<and>
     (case FindScope s (sp_Kind new) ScopePlatform 0 of None \<Rightarrow> False
      | Some base \<Rightarrow> \<not> sp_AllowExceptions base \<and> loosens (se_lib s) base new)"

text \<open>The row to write: the new rule, or the stored one of its scope with the new settings.\<close>

definition row_for :: "Security \<Rightarrow> SecurityPolicy \<Rightarrow> SecurityPolicy" where
  "row_for s new =
     (case FindScope s (sp_Kind new) (sp_ScopeType new) (sp_ScopeID new) of None \<Rightarrow> new
      | Some r \<Rightarrow> r\<lparr>sp_Mode := sp_Mode new, sp_AllowExceptions := sp_AllowExceptions new,
                     sp_Spec := sp_Spec new, sp_Version := sp_Version r + 1\<rparr>)"

definition Save :: "Security \<Rightarrow> nat \<Rightarrow> SaveInput \<Rightarrow> save_error + Security \<times> SecurityPolicy" where
  "Save s actor inp =
     (case ValidScope (si_ScopeType inp) (si_ScopeID inp) of Some e \<Rightarrow> Inl e | None \<Rightarrow>
      if \<not> ValidMode (si_Mode inp) then Inl UnknownMode
      else case normalizeSpec (se_lib s) (si_Kind inp) (si_Spec inp) of Inl e \<Rightarrow> Inl e | Inr spec \<Rightarrow>
        if si_Kind inp = KindAdminAccess \<and> si_ScopeType inp \<noteq> ScopePlatform then Inl AdminAccessScope
        else if si_Kind inp = KindAdminAccess \<and> si_Mode inp = ModeAudit then Inl AdminAccessAudit
        else if si_ScopeType inp \<noteq> ScopePlatform \<and> si_AllowExceptions inp then Inl ExceptionsScope
        else if platform_refuses s (new_rule inp spec) then Inl Loosens
        else if se_readDown s \<or> se_writeDown s then Inl PolicyStorage
        else Inr (repo_save s ((row_for s (new_rule inp spec))\<lparr>sp_UpdatedBy := Some actor\<rparr>)))"

definition Delete :: "Security \<Rightarrow> nat \<Rightarrow> save_error + Security" where
  "Delete s i =
     (if se_readDown s \<or> \<not> list_ex (\<lambda>p. sp_ID p = i) (se_rows s) \<or> se_writeDown s then Inl PolicyStorage
      else Inr (s\<lparr>se_rows := filter (\<lambda>p. sp_ID p \<noteq> i) (se_rows s)\<rparr>))"

section \<open>A narrower rule only tightens\<close>

lemma range_contains_protocol:
  "range_contains r port proto \<Longrightarrow> proto \<in> {''tcp'', ''udp''} \<Longrightarrow>
     proto \<in> set (if rg_Protocols r = [] then [''tcp'', ''udp''] else rg_Protocols r)"
  by (auto simp: range_contains_def)

lemma rangeCovered_iff:
  "rangeCovered r base \<longleftrightarrow>
     (\<forall>p\<in>set (if rg_Protocols r = [] then [''tcp'', ''udp''] else rg_Protocols r).
        \<forall>port\<in>{rg_From r..rg_To r}. \<exists>b\<in>set base. range_contains b port p)"
  unfolding rangeCovered_def by (simp add: list_all_iff list_ex_iff)

lemma covered_contains:
  assumes "rangeCovered r base" "range_contains r port proto" "proto \<in> {''tcp'', ''udp''}"
  shows "\<exists>b\<in>set base. range_contains b port proto"
proof -
  have "rg_From r \<le> port \<and> port \<le> rg_To r" using assms(2) by (simp add: range_contains_def)
  then show ?thesis using assms(1) range_contains_protocol [OF assms(2,3)] unfolding rangeCovered_iff
    by (meson atLeastAtMost_iff)
qed

lemma ParsePortsSpec_SomeD:
  "ParsePortsSpec f d = Inr spec \<Longrightarrow> ports_spec_error f spec = None \<and> (\<exists>s0. spec = fill_defaults s0)"
  unfolding ParsePortsSpec_def Let_def by (auto split: option.split_asm)

lemma spec_ok_mode:
  "ports_spec_error f spec = None \<Longrightarrow>
     ps_Mode spec = PortsApproval \<or> ps_Mode spec = PortsAutoApproveInRange \<or> ps_Mode spec = PortsRejectAll"
  unfolding ports_spec_error_def by (simp split: if_split_asm)

lemma parsed_mode:
  "ParsePortsSpec f d = Inr spec \<Longrightarrow>
     ps_Mode spec = PortsApproval \<or> ps_Mode spec = PortsAutoApproveInRange \<or> ps_Mode spec = PortsRejectAll"
  using ParsePortsSpec_SomeD spec_ok_mode by blast

lemma fill_defaults_idem: "fill_defaults (fill_defaults s) = fill_defaults s"
  unfolding fill_defaults_def by simp

lemma ParsePortsSpec_idem:
  assumes "ParsePortsSpec f d = Inr spec"
  shows "ParsePortsSpec f (Some spec) = Inr spec"
proof -
  obtain s0 where "spec = fill_defaults s0" "ports_spec_error f spec = None" using ParsePortsSpec_SomeD [OF assms] by blast
  then show ?thesis by (simp add: ParsePortsSpec_def fill_defaults_idem)
qed

lemma modeRank_enforce: "\<not> modeRank m < modeRank ModeEnforce \<Longrightarrow> m = ModeEnforce"
  by (simp add: modeRank_def split: if_splits)

definition normalProto :: "string \<Rightarrow> string" where
  "normalProto protocol = (if protocol \<noteq> ''udp'' then ''tcp'' else protocol)"

lemma normalProto_range: "normalProto protocol \<in> {''tcp'', ''udp''}"
  by (simp add: normalProto_def)

lemma enforced_allowed:
  "pd_Allowed (fst (decidePortRequest ModeEnforce spec port protocol priv)) \<longleftrightarrow> ps_Mode spec \<noteq> PortsRejectAll"
  unfolding decidePortRequest_def by (simp add: Let_def split: option.split)

lemma enforced_auto:
  "pd_AutoApprove (fst (decidePortRequest ModeEnforce spec port protocol priv)) \<longleftrightarrow>
     ps_Mode spec \<noteq> PortsRejectAll \<and>
     (ps_Mode spec = PortsAutoApproveInRange \<and> port \<noteq> 0 \<and>
        (\<exists>r\<in>set (ps_AllowedRanges spec). range_contains r port (normalProto protocol)) \<or>
      priv \<and> privilegedBypass spec)"
proof -
  have "(find (\<lambda>r. range_contains r port (normalProto protocol)) (ps_AllowedRanges spec) = None) =
      (\<not> (\<exists>r\<in>set (ps_AllowedRanges spec). range_contains r port (normalProto protocol)))"
    by (auto simp: find_None_iff)
  then show ?thesis
    unfolding decidePortRequest_def normalProto_def [symmetric] Let_def
    by (cases "find (\<lambda>r. range_contains r port (normalProto protocol)) (ps_AllowedRanges spec)")
      (simp_all del: not_None_eq)
qed

lemma tighter_auto:
  assumes "\<not> portsLoosens ModeEnforce b ModeEnforce n"
    and modes: "ps_Mode b = PortsApproval \<or> ps_Mode b = PortsAutoApproveInRange \<or> ps_Mode b = PortsRejectAll"
      "ps_Mode n = PortsApproval \<or> ps_Mode n = PortsAutoApproveInRange \<or> ps_Mode n = PortsRejectAll"
    and auto: "pd_AutoApprove (fst (decidePortRequest ModeEnforce n port protocol priv))"
  shows "pd_AutoApprove (fst (decidePortRequest ModeEnforce b port protocol priv))"
proof -
  have rank: "\<not> portsModeRank (ps_Mode n) < portsModeRank (ps_Mode b)"
    and bypass: "privilegedBypass n \<longrightarrow> privilegedBypass b"
    and covered: "ps_Mode b = PortsAutoApproveInRange \<and> ps_Mode n = PortsAutoApproveInRange \<longrightarrow>
      list_all (\<lambda>r. rangeCovered r (ps_AllowedRanges b)) (ps_AllowedRanges n)"
    using assms(1) unfolding portsLoosens_def by blast+
  have reject: "ps_Mode b \<noteq> PortsRejectAll"
    using rank auto modes(2) unfolding enforced_auto by (auto simp: portsModeRank_def)
  show ?thesis
  proof (cases "priv \<and> privilegedBypass n")
    case True then show ?thesis using bypass reject unfolding enforced_auto by blast
  next
    case False
    then obtain r where r: "ps_Mode n = PortsAutoApproveInRange" "port \<noteq> 0" "r \<in> set (ps_AllowedRanges n)"
        "range_contains r port (normalProto protocol)"
      using auto unfolding enforced_auto by blast
    have "ps_Mode b = PortsAutoApproveInRange" using rank reject modes(1) r(1) by (auto simp: portsModeRank_def)
    moreover have "\<exists>c\<in>set (ps_AllowedRanges b). range_contains c port (normalProto protocol)"
      by (rule covered_contains [OF _ r(4) normalProto_range])
        (use covered calculation r(1,3) in \<open>simp add: list_all_iff\<close>)
    ultimately show ?thesis using r(2) reject unfolding enforced_auto by blast
  qed
qed

lemma tighter_allowed:
  assumes "\<not> portsLoosens ModeEnforce b ModeEnforce n"
    and modes: "ps_Mode n = PortsApproval \<or> ps_Mode n = PortsAutoApproveInRange \<or> ps_Mode n = PortsRejectAll"
    and allowed: "pd_Allowed (fst (decidePortRequest ModeEnforce n port protocol priv))"
  shows "pd_Allowed (fst (decidePortRequest ModeEnforce b port protocol priv))"
proof -
  have "\<not> portsModeRank (ps_Mode n) < portsModeRank (ps_Mode b)" using assms(1) unfolding portsLoosens_def by blast
  then show ?thesis using allowed modes unfolding enforced_allowed by (auto simp: portsModeRank_def)
qed

text \<open>What governs a workspace under an enforced platform rule without exceptions.\<close>

lemma resolve_cases:
  assumes "find_scope rows ScopePlatform 0 = Some base" "\<not> sp_AllowExceptions base"
  shows "\<exists>p. resolve lib rows w pl org = Some p \<and> (p = base \<or> \<not> loosens lib base p)"
proof -
  have "\<exists>p. resolve_chain lib (Some base) cs = Some p \<and> (p = base \<or> \<not> loosens lib base p)" for cs
  proof (induction cs)
    case (Cons c cs) then show ?case using assms(2) by (cases c) auto
  qed simp
  then show ?thesis unfolding resolve_def assms(1) .
qed

lemma not_loosens_ports:
  assumes "\<not> loosens lib base p" "sp_Kind base = KindPorts"
  obtains b n where "parse_ports lib (sp_Spec base) = Inr b" "parse_ports lib (sp_Spec p) = Inr n"
    "\<not> portsLoosens (sp_Mode base) b (sp_Mode p) n"
proof (cases "parse_ports lib (sp_Spec base)")
  case (Inr b)
  show thesis
  proof (cases "parse_ports lib (sp_Spec p)")
    case (Inr n)
    then show thesis using that [OF \<open>parse_ports lib (sp_Spec base) = Inr b\<close> Inr] assms \<open>parse_ports lib (sp_Spec base) = Inr b\<close>
      by (simp add: loosens_def)
  qed (use assms Inr in \<open>simp add: loosens_def\<close>)
qed (use assms in \<open>simp add: loosens_def\<close>)

lemma find_scope_kind:
  "find_scope (ListByKind s k) scope i = Some p \<Longrightarrow> sp_Kind p = k"
  unfolding find_scope_def ListByKind_def by (auto simp: find_Some_iff split: if_splits dest: nth_mem)

lemma effective_nonempty:
  assumes "find_scope (ListByKind s k) ScopePlatform 0 = Some base" "\<not> se_readDown s"
  shows "\<exists>pl org. effective s k w = Inr (resolve (se_lib s) (ListByKind s k) w pl org)"
proof -
  have "ListByKind s k \<noteq> []" using assms(1) by (auto simp: find_scope_def)
  then show ?thesis unfolding effective_def using assms(2) by (auto simp: Let_def)
qed

lemma governing_rule:
  assumes platform: "find_scope (ListByKind s KindPorts) ScopePlatform 0 = Some base"
    and enforced: "sp_Mode base = ModeEnforce" "\<not> sp_AllowExceptions base"
    and spec: "parse_ports (se_lib s) (sp_Spec base) = Inr b"
    and up: "active s" "\<not> se_readDown s"
  obtains p n where "ports_rule s w = Some (p, n)" "sp_Mode p = ModeEnforce" "n = b \<or> \<not> portsLoosens ModeEnforce b ModeEnforce n"
    "parse_ports (se_lib s) (sp_Spec p) = Inr n"
proof -
  obtain pl org p where p: "effective s KindPorts w = Inr (Some p)" "p = base \<or> \<not> loosens (se_lib s) base p"
    using effective_nonempty [OF platform up(2)] resolve_cases [OF platform enforced(2)] by metis
  show thesis
  proof (cases "p = base")
    case True
    then show thesis using that [of base b] p(1) up enforced spec unfolding ports_rule_def by simp
  next
    case False
    then obtain b' n where n: "parse_ports (se_lib s) (sp_Spec base) = Inr b'" "parse_ports (se_lib s) (sp_Spec p) = Inr n"
        "\<not> portsLoosens (sp_Mode base) b' (sp_Mode p) n"
      using p(2) not_loosens_ports [of "se_lib s" base p] find_scope_kind [OF platform] by blast
    have m: "sp_Mode p = ModeEnforce"
      using n(3) modeRank_enforce [of "sp_Mode p"] unfolding portsLoosens_def enforced(1) by blast
    then show thesis using that [of p n] p(1) up(1) n spec enforced(1) unfolding ports_rule_def by simp
  qed
qed

lemma tighter_address:
  "\<not> portsLoosens bm b nm n \<Longrightarrow> ps_BindAddress b \<noteq> [] \<Longrightarrow> ps_BindAddress n = ps_BindAddress b"
  unfolding portsLoosens_def by blast

lemma enforced_publish_address:
  "ud_Allowed (fst (decidePublish ModeEnforce spec at v)) \<Longrightarrow> ud_BindAddress (fst (decidePublish ModeEnforce spec at v)) = ps_BindAddress spec"
  unfolding decidePublish_def Let_def by (auto split: if_splits)

text \<open>
  C10: an enforced platform rule for host ports that allows no exceptions binds every workspace. Whatever rules its
  organization, its plan or itself have, a request is allowed, and approved without review, only when the platform's
  rule alone would do so, and a port is published only on the address the platform's rule names.
\<close>

theorem narrow_rule_never_loosens:
  assumes platform: "find_scope (ListByKind s KindPorts) ScopePlatform 0 = Some base"
    and enforced: "sp_Mode base = ModeEnforce" "\<not> sp_AllowExceptions base"
    and spec: "parse_ports (se_lib s) (sp_Spec base) = Inr b"
    and up: "active s" "\<not> se_readDown s"
  shows "(pd_Allowed (CheckPortRequest s w port protocol priv) \<longrightarrow>
            pd_Allowed (fst (decidePortRequest ModeEnforce b port protocol priv))) \<and>
         (pd_AutoApprove (CheckPortRequest s w port protocol priv) \<longrightarrow>
            pd_AutoApprove (fst (decidePortRequest ModeEnforce b port protocol priv))) \<and>
         (ps_BindAddress b \<noteq> [] \<and> ud_Allowed (CheckPortPublish s w v) \<longrightarrow>
            ud_BindAddress (CheckPortPublish s w v) = ps_BindAddress b)"
proof -
  obtain p n where p: "ports_rule s w = Some (p, n)" "sp_Mode p = ModeEnforce" "n = b \<or> \<not> portsLoosens ModeEnforce b ModeEnforce n"
      "parse_ports (se_lib s) (sp_Spec p) = Inr n"
    using governing_rule [OF platform enforced spec up] by blast
  have modes: "ps_Mode n = PortsApproval \<or> ps_Mode n = PortsAutoApproveInRange \<or> ps_Mode n = PortsRejectAll"
      "ps_Mode b = PortsApproval \<or> ps_Mode b = PortsAutoApproveInRange \<or> ps_Mode b = PortsRejectAll"
    using parsed_mode p(4) spec unfolding parse_ports_def by blast+
  have req: "CheckPortRequest s w port protocol priv = fst (decidePortRequest ModeEnforce n port protocol priv)"
    and pub: "CheckPortPublish s w v = fst (decidePublish ModeEnforce n (sp_UpdatedAt p) v)"
    by (simp_all add: CheckPortRequest_def CheckPortPublish_def p(1,2))
  have "ps_BindAddress b \<noteq> [] \<longrightarrow> ps_BindAddress n = ps_BindAddress b" using p(3) tighter_address by blast
  then show ?thesis
    unfolding req pub using p(3) tighter_allowed [OF _ modes(1)] tighter_auto [OF _ modes(2,1)] enforced_publish_address
    by metis
qed

section \<open>The table of rules\<close>

definition rule_key :: "SecurityPolicy \<Rightarrow> string \<times> string \<times> nat" where
  "rule_key p = (sp_Kind p, sp_ScopeType p, sp_ScopeID p)"

text \<open>One rule per kind and scope, distinct ids, and every scope type and id consistent.\<close>

definition rules_ok :: "Security \<Rightarrow> bool" where
  "rules_ok s \<longleftrightarrow> 0 < se_next s \<and> distinct (map sp_ID (se_rows s)) \<and> distinct (map rule_key (se_rows s)) \<and>
     list_all (\<lambda>p. 0 < sp_ID p \<and> sp_ID p < se_next s \<and> ValidScope (sp_ScopeType p) (sp_ScopeID p) = None) (se_rows s)"

lemma FindScope_key: "FindScope s k sc i = find (\<lambda>p. rule_key p = (k, sc, i)) (se_rows s)"
  unfolding FindScope_def rule_key_def by simp

lemma find_scope_nonempty: "find_scope rows sc i = Some p \<Longrightarrow> rows \<noteq> []"
  by (auto simp: find_scope_def split: if_split_asm)

lemma find_filter: "find P (filter Q xs) = find (\<lambda>x. Q x \<and> P x) xs"
  by (induction xs) auto

lemma find_scope_FindScope:
  "sc = ScopePlatform \<or> i \<noteq> 0 \<Longrightarrow> find_scope (ListByKind s k) sc i = FindScope s k sc i"
  unfolding find_scope_def ListByKind_def FindScope_def find_filter by auto

lemma find_replace:
  assumes "\<forall>x\<in>set rows. (f x = g x) \<and> (g x = g r \<longrightarrow> x = r)" "g p = g r"
  shows "find (\<lambda>x. g x = k) (map (\<lambda>x. if x = r then p else x) rows) =
     (if k = g r \<and> r \<in> set rows then Some p else find (\<lambda>x. g x = k) rows)"
  using assms by (induction rows) auto

lemma find_snoc: "find P (xs @ [x]) = (case find P xs of None \<Rightarrow> if P x then Some x else None | Some y \<Rightarrow> Some y)"
  by (induction xs) auto

lemma replace_by_id:
  assumes "rules_ok s" "r \<in> set (se_rows s)"
  shows "map (\<lambda>x. if sp_ID x = sp_ID r then p else x) (se_rows s) = map (\<lambda>x. if x = r then p else x) (se_rows s)"
proof (rule map_cong [OF refl])
  fix x assume "x \<in> set (se_rows s)"
  then have "sp_ID x = sp_ID r \<longleftrightarrow> x = r"
    using assms distinct_map_unique [of sp_ID "se_rows s" x r] unfolding rules_ok_def by blast
  then show "(if sp_ID x = sp_ID r then p else x) = (if x = r then p else x)" by simp
qed

lemma FindScope_SomeD: "FindScope s k sc i = Some r \<Longrightarrow> r \<in> set (se_rows s) \<and> rule_key r = (k, sc, i)"
  unfolding FindScope_key by (auto simp: find_Some_iff dest: nth_mem)

text \<open>A successful save, by its parts.\<close>

lemma Save_parts:
  assumes "Save s actor inp = Inr (s', row)"
  obtains spec where
    "ValidScope (si_ScopeType inp) (si_ScopeID inp) = None" "normalizeSpec (se_lib s) (si_Kind inp) (si_Spec inp) = Inr spec"
    "\<not> se_readDown s" "\<not> platform_refuses s (new_rule inp spec)"
    "repo_save s ((row_for s (new_rule inp spec))\<lparr>sp_UpdatedBy := Some actor\<rparr>) = (s', row)"
proof -
  have scope: "ValidScope (si_ScopeType inp) (si_ScopeID inp) = None"
    using assms unfolding Save_def by (cases "ValidScope (si_ScopeType inp) (si_ScopeID inp)") simp_all
  obtain spec where spec: "normalizeSpec (se_lib s) (si_Kind inp) (si_Spec inp) = Inr spec"
    using assms unfolding Save_def scope
    by (cases "normalizeSpec (se_lib s) (si_Kind inp) (si_Spec inp)") (auto split: if_split_asm)
  let ?row = "(row_for s (new_rule inp spec))\<lparr>sp_UpdatedBy := Some actor\<rparr>"
  have run: "Save s actor inp =
      (if \<not> ValidMode (si_Mode inp) then Inl UnknownMode
       else if si_Kind inp = KindAdminAccess \<and> si_ScopeType inp \<noteq> ScopePlatform then Inl AdminAccessScope
       else if si_Kind inp = KindAdminAccess \<and> si_Mode inp = ModeAudit then Inl AdminAccessAudit
       else if si_ScopeType inp \<noteq> ScopePlatform \<and> si_AllowExceptions inp then Inl ExceptionsScope
       else if platform_refuses s (new_rule inp spec) then Inl Loosens
       else if se_readDown s \<or> se_writeDown s then Inl PolicyStorage else Inr (repo_save s ?row))"
    unfolding Save_def scope spec by (simp only: option.case sum.case)
  have "\<not> se_readDown s \<and> \<not> platform_refuses s (new_rule inp spec) \<and> repo_save s ?row = (s', row)"
    using assms unfolding run by (metis Inl_Inr_False Inr_inject)
  then show thesis using that [OF scope spec] by blast
qed

lemma row_for_None:
  "FindScope s (sp_Kind new) (sp_ScopeType new) (sp_ScopeID new) = None \<Longrightarrow> row_for s new = new"
  by (simp add: row_for_def)

abbreviation at_scope :: "Security \<Rightarrow> SecurityPolicy \<Rightarrow> SecurityPolicy option" where
  "at_scope s new \<equiv> FindScope s (sp_Kind new) (sp_ScopeType new) (sp_ScopeID new)"

lemma at_scope_SomeD: "at_scope s new = Some r \<Longrightarrow> r \<in> set (se_rows s) \<and> rule_key r = rule_key new"
  using FindScope_SomeD [of s "sp_Kind new" "sp_ScopeType new" "sp_ScopeID new" r] unfolding rule_key_def [of new] by simp

lemma row_for_Some:
  assumes "at_scope s new = Some r"
  shows "rule_key (row_for s new) = rule_key r" "sp_ID (row_for s new) = sp_ID r"
    "sp_Mode (row_for s new) = sp_Mode new" "sp_Spec (row_for s new) = sp_Spec new"
  using assms by (simp_all add: row_for_def rule_key_def)

lemma row_for_keeps:
  "rule_key (row_for s new) = rule_key new \<and> sp_Mode (row_for s new) = sp_Mode new \<and> sp_Spec (row_for s new) = sp_Spec new"
proof (cases "at_scope s new")
  case (Some r) then show ?thesis using row_for_Some [OF Some] at_scope_SomeD [OF Some] by metis
qed (simp add: row_for_None)

lemma key_UpdatedBy [simp]: "rule_key (p\<lparr>sp_UpdatedBy := u\<rparr>) = rule_key p"
  by (simp add: rule_key_def)

text \<open>
  A write under an id that is either new or that of the rule with the same key: that rule's place is taken, or one
  is added, and every other rule is left alone.
\<close>

definition fits :: "Security \<Rightarrow> SecurityPolicy \<Rightarrow> bool" where
  "fits s p \<longleftrightarrow> (sp_ID p = 0 \<and> rule_key p \<notin> rule_key ` set (se_rows s)) \<or>
     (\<exists>r\<in>set (se_rows s). sp_ID r = sp_ID p \<and> rule_key r = rule_key p)"

lemma fits_row_for:
  assumes "sp_ID new = 0"
  shows "fits s ((row_for s new)\<lparr>sp_UpdatedBy := u\<rparr>)"
proof (cases "at_scope s new")
  case None
  then have "rule_key new \<notin> rule_key ` set (se_rows s)"
    unfolding FindScope_key rule_key_def [of new, symmetric] find_None_iff by force
  then show ?thesis using assms unfolding fits_def row_for_None [OF None] by simp
next
  case (Some r)
  then show ?thesis using at_scope_SomeD [OF Some] row_for_Some(1,2) [OF Some] unfolding fits_def
    by (intro disjI2 bexI [of _ r]) simp_all
qed

lemma repo_save_cases:
  assumes "rules_ok s" "fits s p" "repo_save s p = (s', row)"
  obtains (added) "se_rows s' = se_rows s @ [row]" "sp_ID row = se_next s" "se_next s' = se_next s + 1"
      "rule_key p \<notin> rule_key ` set (se_rows s)" "row = p\<lparr>sp_UpdatedAt := se_now s, sp_ID := se_next s\<rparr>"
      "s' = s\<lparr>se_rows := se_rows s', se_next := se_next s'\<rparr>"
    | (replaced) r where "r \<in> set (se_rows s)" "se_rows s' = map (\<lambda>x. if x = r then row else x) (se_rows s)"
      "sp_ID r = sp_ID p" "rule_key r = rule_key p" "row = p\<lparr>sp_UpdatedAt := se_now s\<rparr>"
      "s' = s\<lparr>se_rows := se_rows s'\<rparr>"
proof -
  consider "sp_ID p = 0" "rule_key p \<notin> rule_key ` set (se_rows s)"
    | r where "r \<in> set (se_rows s)" "sp_ID r = sp_ID p" "rule_key r = rule_key p" using assms(2) unfolding fits_def by metis
  then show thesis
  proof cases
    case 1 then show thesis using assms(3) by (intro added) (auto simp: repo_save_def Let_def)
  next
    case (2 r)
    have "sp_ID p \<noteq> 0" using assms(1) 2(1,2) unfolding rules_ok_def list_all_iff by fastforce
    moreover have "list_ex (\<lambda>x. sp_ID x = sp_ID p) (se_rows s)" using 2 by (auto simp: list_ex_iff)
    ultimately have "row = p\<lparr>sp_UpdatedAt := se_now s\<rparr>"
      "s' = s\<lparr>se_rows := map (\<lambda>x. if sp_ID x = sp_ID r then row else x) (se_rows s)\<rparr>"
      using assms(3) 2(2) by (auto simp: repo_save_def Let_def)
    then show thesis using replace_by_id [OF assms(1) 2(1)] 2 by (intro replaced [of r]) auto
  qed
qed

text \<open>What a lookup by key finds after a write.\<close>

lemma FindScope_after:
  assumes "rules_ok s" "fits s p" "repo_save s p = (s', row)"
  shows "FindScope s' k sc i = (if (k, sc, i) = rule_key p then Some row else FindScope s k sc i)"
  using assms
proof (cases rule: repo_save_cases)
  case added
  have "rule_key row = rule_key p" using added(5) by (simp add: rule_key_def)
  moreover have "find (\<lambda>x. rule_key x = rule_key p) (se_rows s) = None" using added(4) unfolding find_None_iff by (metis image_eqI)
  ultimately show ?thesis using added(1) unfolding FindScope_key
    by (cases "rule_key p = (k, sc, i)") (auto simp: find_snoc split: option.split)
next
  case (replaced r)
  have key: "rule_key row = rule_key r" using replaced(4,5) by (simp add: rule_key_def)
  have "\<forall>x\<in>set (se_rows s). rule_key x = rule_key x \<and> (rule_key x = rule_key r \<longrightarrow> x = r)"
    using assms(1) replaced(1) distinct_map_unique [of rule_key "se_rows s" _ r] unfolding rules_ok_def by blast
  from find_replace [OF this key, of "(k, sc, i)"] show ?thesis
    unfolding FindScope_key replaced(2) using replaced(1,4) by simp
qed

lemma rules_ok_repo_save:
  assumes "rules_ok s" "fits s p" "repo_save s p = (s', row)" "ValidScope (sp_ScopeType p) (sp_ScopeID p) = None"
  shows "rules_ok s'"
  using assms(1-3)
proof (cases rule: repo_save_cases)
  case added
  have "rule_key row = rule_key p" "sp_ScopeType row = sp_ScopeType p" "sp_ScopeID row = sp_ScopeID p"
    using added(5) by (simp_all add: rule_key_def)
  moreover have "list_all (\<lambda>p. 0 < sp_ID p \<and> sp_ID p < se_next s + 1 \<and> ValidScope (sp_ScopeType p) (sp_ScopeID p) = None) (se_rows s)"
    using assms(1) unfolding rules_ok_def list_all_iff by auto
  moreover have "sp_ID row \<notin> sp_ID ` set (se_rows s)" using assms(1) added(2) unfolding rules_ok_def list_all_iff by force
  moreover have "0 < se_next s" "distinct (map sp_ID (se_rows s))" "distinct (map rule_key (se_rows s))"
    using assms(1) unfolding rules_ok_def by blast+
  ultimately show ?thesis using assms(4) added(2-4) unfolding rules_ok_def added(1) by simp
next
  case (replaced r)
  have row: "rule_key row = rule_key r" "sp_ID row = sp_ID r" "sp_ScopeType row = sp_ScopeType p" "sp_ScopeID row = sp_ScopeID p"
    using replaced(3-5) by (simp_all add: rule_key_def)
  have keys: "map sp_ID (se_rows s') = map sp_ID (se_rows s)" "map rule_key (se_rows s') = map rule_key (se_rows s)"
    using replaced(2) row(1,2) by simp_all
  have bounds: "0 < sp_ID r \<and> sp_ID r < se_next s" using assms(1) replaced(1) unfolding rules_ok_def list_all_iff by blast
  have up: "se_next s' = se_next s" using replaced(6) by (metis Security.select_convs(5) Security.surjective Security.update_convs(4))
  have "list_all (\<lambda>p. 0 < sp_ID p \<and> sp_ID p < se_next s \<and> ValidScope (sp_ScopeType p) (sp_ScopeID p) = None) (se_rows s')"
    using assms(1,4) row bounds unfolding replaced(2) rules_ok_def list_all_iff by auto
  then show ?thesis using assms(1) keys up unfolding rules_ok_def by simp
qed

lemma new_rule_simps [simp]:
  "sp_ID (new_rule inp spec) = 0" "sp_Kind (new_rule inp spec) = si_Kind inp" "sp_ScopeType (new_rule inp spec) = si_ScopeType inp"
  "sp_ScopeID (new_rule inp spec) = si_ScopeID inp" "sp_Mode (new_rule inp spec) = si_Mode inp" "sp_Spec (new_rule inp spec) = spec"
  by (simp_all add: new_rule_def)

lemma Save_rules_ok:
  assumes "rules_ok s" "Save s actor inp = Inr (s', row)"
  shows "rules_ok s'"
proof -
  obtain spec where ok: "ValidScope (si_ScopeType inp) (si_ScopeID inp) = None"
      "repo_save s ((row_for s (new_rule inp spec))\<lparr>sp_UpdatedBy := Some actor\<rparr>) = (s', row)"
    using Save_parts [OF assms(2)] by metis
  have "rule_key (row_for s (new_rule inp spec)) = rule_key (new_rule inp spec)" using row_for_keeps by blast
  then have "ValidScope (sp_ScopeType (row_for s (new_rule inp spec))) (sp_ScopeID (row_for s (new_rule inp spec))) = None"
    using ok(1) by (simp add: rule_key_def)
  then show ?thesis
    using rules_ok_repo_save [OF assms(1) fits_row_for ok(2)] by simp
qed

lemma Delete_rules_ok: "rules_ok s \<Longrightarrow> Delete s i = Inr s' \<Longrightarrow> rules_ok s'"
  unfolding Delete_def rules_ok_def by (auto simp: list_all_iff distinct_map inj_on_def split: if_split_asm)

text \<open>The rules' table under any saves and deletes, failed ones included.\<close>

datatype rule_op = SaveRule nat SaveInput | DeleteRule nat

definition rule_step :: "rule_op \<Rightarrow> Security \<Rightarrow> Security" where
  "rule_step oper s =
     (case oper of
        SaveRule actor inp \<Rightarrow> (case Save s actor inp of Inl _ \<Rightarrow> s | Inr (s', _) \<Rightarrow> s')
      | DeleteRule i \<Rightarrow> (case Delete s i of Inl _ \<Rightarrow> s | Inr s' \<Rightarrow> s'))"

definition rule_run :: "rule_op list \<Rightarrow> Security \<Rightarrow> Security" where
  "rule_run ops s = fold rule_step ops s"

lemma rule_step_ok:
  assumes "rules_ok s"
  shows "rules_ok (rule_step oper s)"
proof (cases oper)
  case (SaveRule actor inp)
  show ?thesis
  proof (cases "Save s actor inp")
    case (Inr p) then show ?thesis using Save_rules_ok [OF assms, of actor inp] SaveRule by (cases p) (simp add: rule_step_def)
  qed (simp add: rule_step_def SaveRule assms)
next
  case (DeleteRule i)
  show ?thesis using Delete_rules_ok [OF assms, of i] assms by (cases "Delete s i") (simp_all add: rule_step_def DeleteRule)
qed

lemma rule_run_ok: "rules_ok s \<Longrightarrow> rules_ok (rule_run ops s)"
  unfolding rule_run_def by (induction ops arbitrary: s) (simp_all add: rule_step_ok)

lemma repo_save_fields:
  "repo_save s p = (s', row) \<Longrightarrow> sp_Kind row = sp_Kind p \<and> sp_Mode row = sp_Mode p \<and> sp_Spec row = sp_Spec p"
  unfolding repo_save_def Let_def by (simp split: if_split_asm) auto

lemma repo_save_world:
  "repo_save s p = (s', row) \<Longrightarrow> se_lib s' = se_lib s \<and> se_readDown s' = se_readDown s"
  unfolding repo_save_def Let_def by (simp split: if_split_asm) auto

lemma loosens_row:
  "sp_Kind p = sp_Kind q \<Longrightarrow> sp_Mode p = sp_Mode q \<Longrightarrow> sp_Spec p = sp_Spec q \<Longrightarrow> loosens lib base p = loosens lib base q"
  unfolding loosens_def by (simp only:)


section \<open>The admin console's settings\<close>

lemma access_duration_bounds:
  "access_duration lib nm raw d = Inr v \<Longrightarrow> minute \<le> d \<and> d \<le> 24 * 60 * minute \<Longrightarrow> minute \<le> v \<and> v \<le> 24 * 60 * minute"
  unfolding access_duration_def by (auto split: option.split_asm if_split_asm)

lemma parse_prefixes_length: "parse_prefixes lib xs = Inr ps \<Longrightarrow> length ps = length xs"
  by (induction xs arbitrary: ps) (auto split: option.split_asm sum.split_asm)

lemma access_durations_bounds:
  assumes "access_durations lib s = Inr (ttl, idle, window, lockout)"
  shows "minute \<le> ttl \<and> ttl \<le> 24 * 60 * minute \<and> minute \<le> idle \<and> idle \<le> 24 * 60 * minute \<and>
    minute \<le> window \<and> window \<le> 24 * 60 * minute \<and> minute \<le> lockout \<and> lockout \<le> 24 * 60 * minute"
proof -
  have defaults: "minute \<le> ac_TTL DefaultAdminAccess \<and> ac_TTL DefaultAdminAccess \<le> 24 * 60 * minute"
    "minute \<le> ac_IdleTimeout DefaultAdminAccess \<and> ac_IdleTimeout DefaultAdminAccess \<le> 24 * 60 * minute"
    "minute \<le> ac_SensitiveWindow DefaultAdminAccess \<and> ac_SensitiveWindow DefaultAdminAccess \<le> 24 * 60 * minute"
    "minute \<le> ac_Lockout DefaultAdminAccess \<and> ac_Lockout DefaultAdminAccess \<le> 24 * 60 * minute"
    by (simp_all add: DefaultAdminAccess_def minute_def)
  have parts: "access_duration lib ''ttl'' (aa_TTL s) (ac_TTL DefaultAdminAccess) = Inr ttl"
    "access_duration lib ''idle_timeout'' (aa_IdleTimeout s) (ac_IdleTimeout DefaultAdminAccess) = Inr idle"
    "access_duration lib ''sensitive_window'' (aa_SensitiveWindow s) (ac_SensitiveWindow DefaultAdminAccess) = Inr window"
    "access_duration lib ''lockout'' (aa_Lockout s) (ac_Lockout DefaultAdminAccess) = Inr lockout"
    using assms unfolding access_durations_def by (simp_all split: sum.split_asm)
  show ?thesis using parts defaults access_duration_bounds by blast
qed

text \<open>
  The settings of the admin console's unlock that a specification is accepted for are bounded. Its lifetime, idle
  timeout, sensitive window and lockout last between a minute and a day, the idle timeout is no longer than the
  lifetime, between 1 and 50 wrong codes lock it, and TOTP is its one factor.
\<close>

theorem access_settings_bounded:
  assumes "ParseAdminAccessSpec lib d = Inr (spec, a)"
  shows "minute \<le> ac_IdleTimeout a \<and> ac_IdleTimeout a \<le> ac_TTL a \<and> ac_TTL a \<le> 24 * 60 * minute \<and>
    minute \<le> ac_SensitiveWindow a \<and> ac_SensitiveWindow a \<le> 24 * 60 * minute \<and>
    minute \<le> ac_Lockout a \<and> ac_Lockout a \<le> 24 * 60 * minute \<and>
    1 \<le> ac_MaxAttempts a \<and> ac_MaxAttempts a \<le> 50 \<and> set (aa_Factors spec) = {''totp''} \<and>
    length (ac_AllowedIPs a) = length (aa_AllowedIPs spec)"
proof -
  obtain s0 where d: "d = Some s0" using assms by (cases d) (simp_all add: ParseAdminAccessSpec_def)
  let ?s = "fill_access s0"
  have factors: "find (\<lambda>f. f \<noteq> ''totp'') (aa_Factors ?s) = None"
    using assms unfolding d ParseAdminAccessSpec_def by (simp add: Let_def split: option.split_asm if_split_asm)
  obtain t where t: "access_durations lib ?s = Inr t"
    using assms factors unfolding d ParseAdminAccessSpec_def by (simp add: Let_def split: sum.split_asm if_split_asm)
  obtain ttl idle window lockout where t': "t = (ttl, idle, window, lockout)" by (cases t)
  obtain ips where ips: "parse_prefixes lib (aa_AllowedIPs ?s) = Inr ips"
    using assms factors t t' unfolding d ParseAdminAccessSpec_def by (simp add: Let_def split: sum.split_asm if_split_asm)
  have run: "spec = ?s" "ac_TTL a = ttl" "ac_IdleTimeout a = idle" "ac_SensitiveWindow a = window" "ac_Lockout a = lockout"
      "idle \<le> ttl" "1 \<le> ac_MaxAttempts a" "ac_MaxAttempts a \<le> 50" "ac_AllowedIPs a = ips"
    using assms factors t t' ips unfolding d ParseAdminAccessSpec_def
    by (auto simp: Let_def DefaultAdminAccess_def split: if_split_asm)
  have "aa_Factors ?s \<noteq> []" by (simp add: fill_access_def)
  then have "set (aa_Factors ?s) = {''totp''}" using factors unfolding find_None_iff by (cases "aa_Factors ?s") auto
  moreover have "length ips = length (aa_AllowedIPs ?s)" using ips parse_prefixes_length by blast
  ultimately show ?thesis using access_durations_bounds [of lib ?s] t t' run by simp
qed

section \<open>At concrete inputs\<close>

definition nolib :: AccessLib where
  "nolib = \<lparr>al_ParseDuration = (\<lambda>s. if s = ''2m'' then Some (2 * minute) else None),
     al_ParseAddr = (\<lambda>s. if s = ''10.0.0.1'' then Some (V4 0x0A000001) else None), al_ParsePrefix = (\<lambda>_. None)\<rparr>"

text \<open>The platform approves ports 8000 to 9000 by itself and binds them to one address; workspace 4 narrows this.\<close>

definition range8000 :: "PortsSpec" where
  "range8000 = \<lparr>ps_V = 1, ps_Mode = PortsAutoApproveInRange,
     ps_AllowedRanges = [\<lparr>rg_From = 8000, rg_To = 8001, rg_Protocols = []\<rparr>], ps_BindAddress = ''10.0.0.1'',
     ps_PrivilegedBypass = None, ps_Existing = PortsExistingKeep\<rparr>"

definition reject_revoke :: "PortsSpec" where
  "reject_revoke = \<lparr>ps_V = 1, ps_Mode = PortsRejectAll, ps_AllowedRanges = [], ps_BindAddress = [],
     ps_PrivilegedBypass = None, ps_Existing = PortsExistingRevoke\<rparr>"

definition platform_rule :: "PortsSpec \<Rightarrow> SecurityPolicy" where
  "platform_rule spec = \<lparr>sp_ID = 1, sp_Kind = KindPorts, sp_ScopeType = ScopePlatform, sp_ScopeID = 0, sp_Mode = ModeEnforce,
     sp_AllowExceptions = False, sp_Spec = \<lparr>sd_ports = Some spec, sd_admin = None\<rparr>, sp_Version = 1,
     sp_UpdatedBy = None, sp_UpdatedAt = 10\<rparr>"

definition security_at :: "PortsSpec \<Rightarrow> Security" where
  "security_at spec = \<lparr>se_enabled = True, se_entitled = True, se_lib = nolib, se_rows = [platform_rule spec], se_next = 2,
     se_workspaces = [], se_readDown = False, se_writeDown = False, se_now = 20\<rparr>"

definition workspace_rule :: "PortsSpec \<Rightarrow> SaveInput" where
  "workspace_rule spec = \<lparr>si_Kind = KindPorts, si_ScopeType = ScopeWorkspace, si_ScopeID = 4, si_Mode = ModeEnforce,
     si_AllowExceptions = False, si_Spec = \<lparr>sd_ports = Some spec, sd_admin = None\<rparr>\<rparr>"

lemmas security_defs = security_at_def platform_rule_def workspace_rule_def nolib_def range8000_def reject_revoke_def

lemma platform_found: "find_scope (ListByKind (security_at spec) KindPorts) ScopePlatform 0 = Some (platform_rule spec)"
  by (simp add: find_scope_def ListByKind_def security_at_def platform_rule_def)

text \<open>A stored rule for workspace 4 that would approve port 8000, below a platform rule that rejects every port.\<close>

definition loosened :: Security where
  "loosened = (security_at reject_revoke)\<lparr>se_rows := [platform_rule reject_revoke,
     (platform_rule range8000)\<lparr>sp_ID := 2, sp_ScopeType := ScopeWorkspace, sp_ScopeID := 4\<rparr>]\<rparr>"

lemma reject_revoke_parses: "parse_ports nolib (sp_Spec (platform_rule reject_revoke)) = Inr reject_revoke"
  by code_simp

theorem narrow_rule_never_loosens_witness:
  "\<not> pd_Allowed (CheckPortRequest loosened 4 8000 ''tcp'' False)"
proof -
  have "find_scope (ListByKind loosened KindPorts) ScopePlatform 0 = Some (platform_rule reject_revoke)"
    by (simp add: find_scope_def ListByKind_def loosened_def security_at_def platform_rule_def)
  then show ?thesis
    using narrow_rule_never_loosens [of loosened "platform_rule reject_revoke" reject_revoke 4 8000 "''tcp''" False] reject_revoke_parses
    by (simp add: loosened_def platform_rule_def security_at_def active_def decidePortRequest_def reject_revoke_def)
qed

definition narrower :: PortsSpec where
  "narrower = range8000\<lparr>ps_AllowedRanges := [\<lparr>rg_From = 8001, rg_To = 8001, rg_Protocols = [''tcp'']\<rparr>]\<rparr>"

definition saved_narrower :: "save_error + Security \<times> SecurityPolicy" where
  "saved_narrower = Save (security_at range8000) 7 (workspace_rule narrower)"

lemma saved_narrower_accepted: "\<not> isl saved_narrower"
  by code_simp


definition two_minutes :: AdminAccessSpec where
  "two_minutes = \<lparr>aa_V = 0, aa_Required = True, aa_Factors = [], aa_TTL = [], aa_IdleTimeout = ''2m'', aa_SensitiveWindow = [],
     aa_MaxAttempts = 3, aa_Lockout = ''2m'', aa_AllowedIPs = [''10.0.0.1'']\<rparr>"

lemma two_minutes_parses:
  "ParseAdminAccessSpec nolib (Some two_minutes) =
     Inr (two_minutes\<lparr>aa_V := 1, aa_Factors := [''totp'']\<rparr>,
       \<lparr>ac_Required = True, ac_TTL = 30 * minute, ac_IdleTimeout = 2 * minute, ac_SensitiveWindow = 5 * minute,
         ac_MaxAttempts = 3, ac_Lockout = 2 * minute, ac_AllowedIPs = [\<lparr>px_Addr = V4 0x0A000001, px_Bits = 32\<rparr>]\<rparr>)"
  by code_simp

theorem access_settings_bounded_witness:
  "\<exists>spec a. ParseAdminAccessSpec nolib (Some two_minutes) = Inr (spec, a) \<and> ac_IdleTimeout a \<le> ac_TTL a \<and>
     minute \<le> ac_Lockout a \<and> ac_MaxAttempts a \<le> 50"
  using access_settings_bounded [OF two_minutes_parses] two_minutes_parses by blast

text \<open>
  A rule for one workspace is not compared on what it does with ports approved earlier: under a platform rule that
  rejects all ports and revokes those already approved, a workspace's rule that keeps them is accepted, and a deploy
  publishes a port that the platform's rule alone would withhold.
\<close>
theorem kept_ports_escape_revocation:
  "\<exists>s' row. Save (security_at reject_revoke) 7 (workspace_rule (reject_revoke\<lparr>ps_Existing := PortsExistingKeep\<rparr>)) = Inr (s', row) \<and>
     ud_Allowed (CheckPortPublish s' 4 \<lparr>pv_HostPort = 25, pv_Protocol = ''tcp'', pv_AdminAdopted = False, pv_UpdatedAt = 5\<rparr>) \<and>
     \<not> ud_Allowed (CheckPortPublish (security_at reject_revoke) 4
         \<lparr>pv_HostPort = 25, pv_Protocol = ''tcp'', pv_AdminAdopted = False, pv_UpdatedAt = 5\<rparr>)"
proof -
  let ?b = "\<lparr>pv_HostPort = 25, pv_Protocol = ''tcp'', pv_AdminAdopted = False, pv_UpdatedAt = 5\<rparr>"
  let ?r = "Save (security_at reject_revoke) 7 (workspace_rule (reject_revoke\<lparr>ps_Existing := PortsExistingKeep\<rparr>))"
  have "\<not> isl ?r \<and> ud_Allowed (CheckPortPublish (fst (projr ?r)) 4 ?b)" by code_simp
  moreover have "\<not> ud_Allowed (CheckPortPublish (security_at reject_revoke) 4 ?b)" by code_simp
  ultimately show ?thesis by (cases ?r) auto
qed

end
