(* ===== verification/Admin_Unlock.thy ===== *)
theory Admin_Unlock
  imports Security_Policy
begin

text \<open>
  The admin console's unlock: \<^verbatim>\<open>internal/services/elevation/elevation.go\<close>, its checks on a request
  (\<^verbatim>\<open>internal/middlewares/admin.go\<close>) and its handlers (\<^verbatim>\<open>internal/handlers/elevation_handler.go\<close>, and the
  minting of keys in \<^verbatim>\<open>api_key_handler.go\<close>).

  An \<open>Unlocks\<close> is what Redis holds of it, under the three key prefixes: the records by the hash of their token, the
  counts of wrong codes and the lockouts by user, each with the time it expires at. Times are nanoseconds. Whether a
  code is right, the random token and the hash come from outside and are arguments.
\<close>

section \<open>The store\<close>

text \<open>\<^verbatim>\<open>Record\<close> of the source.\<close>

record UnlockRecord =
  ur_UserID :: nat
  ur_JTI :: string
  ur_CreatedAt :: int
  ur_LastUsed :: int
  ur_ExpiresAt :: int

record Unlocks =
  uk_now :: int
  uk_down :: bool
  uk_hash :: "string \<Rightarrow> string"
  uk_records :: "string \<Rightarrow> (UnlockRecord \<times> int) option"
  uk_fails :: "nat \<Rightarrow> (int \<times> int option) option"
  uk_locks :: "nat \<Rightarrow> (int \<times> int) option"

datatype unlock_error = UnlockRequired | SetupRequired | StaleUnlock | IPNotAllowed | UnlockLocked | InvalidCode
  | UnlockNotRequired | UnlockStorage

definition second :: int where "second = 1000000000"

definition IdleExpiresAt :: "UnlockRecord \<Rightarrow> int \<Rightarrow> int" where
  "IdleExpiresAt r idle = (let t = ur_LastUsed r + idle in if t > ur_ExpiresAt r then ur_ExpiresAt r else t)"

text \<open>The Enterprise policy if there is one, else the Community switch.\<close>

definition Settings :: "AdminAccess option \<Rightarrow> bool \<Rightarrow> AdminAccess" where
  "Settings policy community =
     (case policy of Some a \<Rightarrow> a | None \<Rightarrow> if community then DefaultAdminAccess else NoAdminAccess)"

definition IPAllowed :: "AccessLib \<Rightarrow> AdminAccess \<Rightarrow> string \<Rightarrow> bool" where
  "IPAllowed lib st ip =
     (if ac_AllowedIPs st = [] then True
      else case al_ParseAddr lib ip of None \<Rightarrow> False
           | Some a \<Rightarrow> list_ex (\<lambda>p. prefix_Contains p (Unmap a)) (ac_AllowedIPs st))"

definition get_record :: "Unlocks \<Rightarrow> string \<Rightarrow> UnlockRecord option" where
  "get_record s token =
     (if uk_down s then None
      else case uk_records s (uk_hash s token) of None \<Rightarrow> None
           | Some (r, e) \<Rightarrow> if uk_now s < e then Some r else None)"

definition del_record :: "Unlocks \<Rightarrow> string \<Rightarrow> Unlocks" where
  "del_record s token =
     (if uk_down s then s else s\<lparr>uk_records := (uk_records s)(uk_hash s token := None)\<rparr>)"

definition unlock_save :: "Unlocks \<Rightarrow> string \<Rightarrow> UnlockRecord \<Rightarrow> unlock_error + Unlocks" where
  "unlock_save s token r =
     (if ur_ExpiresAt r - uk_now s \<le> 0 then Inl UnlockRequired
      else if uk_down s then Inl UnlockStorage
      else Inr (s\<lparr>uk_records := (uk_records s)(uk_hash s token := Some (r, ur_ExpiresAt r))\<rparr>))"

text \<open>When the lockout ends, as stored: whole seconds. \<open>None\<close> is the zero time.\<close>

definition lockedUntil :: "Unlocks \<Rightarrow> nat \<Rightarrow> int option" where
  "lockedUntil s user =
     (if uk_down s then None
      else case uk_locks s user of None \<Rightarrow> None
           | Some (v, e) \<Rightarrow> if uk_now s < e then Some (v * second) else None)"

definition is_locked :: "Unlocks \<Rightarrow> nat \<Rightarrow> bool" where
  "is_locked s user = (case lockedUntil s user of None \<Rightarrow> False | Some t \<Rightarrow> t > uk_now s)"

definition LockedUntil :: "Unlocks \<Rightarrow> nat \<Rightarrow> int option" where
  "LockedUntil s user = (case lockedUntil s user of None \<Rightarrow> None | Some t \<Rightarrow> if t < uk_now s then None else Some t)"

text \<open>The count of a user's wrong codes that has not expired, and what incrementing it makes of the key.\<close>

definition fail_count :: "Unlocks \<Rightarrow> nat \<Rightarrow> int \<times> int option" where
  "fail_count s user =
     (case uk_fails s user of None \<Rightarrow> (0, None)
      | Some (n, e) \<Rightarrow> (case e of None \<Rightarrow> (n, e) | Some t \<Rightarrow> if uk_now s < t then (n, e) else (0, None)))"

text \<open>A wrong code is counted; the second component tells whether it tripped the lockout.\<close>

definition unlock_fail :: "Unlocks \<Rightarrow> nat \<Rightarrow> AdminAccess \<Rightarrow> Unlocks \<times> bool" where
  "unlock_fail s user st =
     (if uk_down s then (s, False)
      else
        let (n0, e0) = fail_count s user; n = n0 + 1;
            e = (if n = 1 then Some (uk_now s + ac_Lockout st) else e0)
        in if n < ac_MaxAttempts st
           then (s\<lparr>uk_fails := (uk_fails s)(user := Some (n, e))\<rparr>, False)
           else let end_at = uk_now s + ac_Lockout st in
             (s\<lparr>uk_fails := (uk_fails s)(user := None),
               uk_locks := (uk_locks s)(user := Some (end_at div second, end_at))\<rparr>, True))"

record AdminUser =
  au_ID :: nat
  au_Admin :: bool
  au_TwoFactor :: bool

section \<open>Unlocking\<close>

text \<open>What is checked before the code is: the settings, the account, the session and the lockout.\<close>

definition elevate_check :: "AdminAccess \<Rightarrow> Unlocks \<Rightarrow> AdminUser \<Rightarrow> string \<Rightarrow> unlock_error option" where
  "elevate_check st s user jti =
     (if \<not> ac_Required st then Some UnlockNotRequired
      else if \<not> au_TwoFactor user then Some SetupRequired
      else if jti = [] then Some UnlockRequired
      else if is_locked s (au_ID user) then Some UnlockLocked
      else None)"

definition new_unlock :: "AdminAccess \<Rightarrow> Unlocks \<Rightarrow> AdminUser \<Rightarrow> string \<Rightarrow> int option \<Rightarrow> UnlockRecord" where
  "new_unlock st s user jti sessionExp =
     (let now = uk_now s; e = now + ac_TTL st in
      \<lparr>ur_UserID = au_ID user, ur_JTI = jti, ur_CreatedAt = now, ur_LastUsed = now,
        ur_ExpiresAt = (case sessionExp of None \<Rightarrow> e | Some x \<Rightarrow> if x < e then x else e)\<rparr>)"

text \<open>
  What follows the verdict on the code. \<open>token\<close> is the random token, \<open>None\<close> when no randomness can be read;
  \<open>sessionExp\<close> is \<open>None\<close> for a session whose expiry is unknown.
\<close>

definition elevate_finish ::
  "AdminAccess \<Rightarrow> Unlocks \<Rightarrow> AdminUser \<Rightarrow> string \<Rightarrow> int option \<Rightarrow> bool \<Rightarrow> string option \<Rightarrow>
     Unlocks \<times> (unlock_error + string \<times> UnlockRecord)" where
  "elevate_finish st s user jti sessionExp right token =
     (if \<not> right
      then (let (s', tripped) = unlock_fail s (au_ID user) st in (s', Inl (if tripped then UnlockLocked else InvalidCode)))
      else let s = (if uk_down s then s else s\<lparr>uk_fails := (uk_fails s)(au_ID user := None)\<rparr>) in
        case token of None \<Rightarrow> (s, Inl UnlockStorage)
        | Some tok \<Rightarrow>
            let r = new_unlock st s user jti sessionExp in
            (case unlock_save s tok r of Inl e \<Rightarrow> (s, Inl e) | Inr s' \<Rightarrow> (s', Inr (tok, r))))"

definition Elevate ::
  "AdminAccess \<Rightarrow> Unlocks \<Rightarrow> AdminUser \<Rightarrow> string \<Rightarrow> int option \<Rightarrow> bool \<Rightarrow> string option \<Rightarrow>
     Unlocks \<times> (unlock_error + string \<times> UnlockRecord)" where
  "Elevate st s user jti sessionExp right token =
     (case elevate_check st s user jti of Some e \<Rightarrow> (s, Inl e)
      | None \<Rightarrow> elevate_finish st s user jti sessionExp right token)"

section \<open>Checking an unlock\<close>

definition lapsed :: "AdminAccess \<Rightarrow> int \<Rightarrow> UnlockRecord \<Rightarrow> bool" where
  "lapsed st now r \<longleftrightarrow>
     \<not> now < ur_ExpiresAt r \<or> (ac_IdleTimeout st > 0 \<and> \<not> now < IdleExpiresAt r (ac_IdleTimeout st))"

definition unlock_load ::
  "AdminAccess \<Rightarrow> Unlocks \<Rightarrow> nat \<Rightarrow> string \<Rightarrow> string \<Rightarrow> Unlocks \<times> (unlock_error + UnlockRecord)" where
  "unlock_load st s userID jti token =
     (if token = [] \<or> jti = [] then (s, Inl UnlockRequired)
      else case get_record s token of None \<Rightarrow> (s, Inl UnlockRequired)
      | Some r \<Rightarrow>
          if ur_UserID r \<noteq> userID \<or> ur_JTI r \<noteq> jti then (s, Inl UnlockRequired)
          else if lapsed st (uk_now s) r then (del_record s token, Inl UnlockRequired)
          else (s, Inr r))"

text \<open>The record as loaded is used once more and written back.\<close>

definition check_finish :: "Unlocks \<Rightarrow> string \<Rightarrow> UnlockRecord \<Rightarrow> Unlocks \<times> (unlock_error + UnlockRecord)" where
  "check_finish s token r0 =
     (let r = r0\<lparr>ur_LastUsed := uk_now s\<rparr> in
      case unlock_save s token r of Inl _ \<Rightarrow> (s, Inl UnlockRequired) | Inr s' \<Rightarrow> (s', Inr r))"

definition Check ::
  "AdminAccess \<Rightarrow> Unlocks \<Rightarrow> nat \<Rightarrow> string \<Rightarrow> string \<Rightarrow> Unlocks \<times> (unlock_error + UnlockRecord)" where
  "Check st s userID jti token =
     (case unlock_load st s userID jti token of
        (s', Inl e) \<Rightarrow> (s', Inl e)
      | (s', Inr r) \<Rightarrow> check_finish s' token r)"

definition Peek ::
  "AdminAccess \<Rightarrow> Unlocks \<Rightarrow> nat \<Rightarrow> string \<Rightarrow> string \<Rightarrow> Unlocks \<times> (unlock_error + UnlockRecord)" where
  "Peek st s userID jti token = unlock_load st s userID jti token"

definition Fresh :: "AdminAccess \<Rightarrow> int \<Rightarrow> UnlockRecord \<Rightarrow> bool" where
  "Fresh st now r \<longleftrightarrow> ac_SensitiveWindow st \<le> 0 \<or> now - ur_CreatedAt r \<le> ac_SensitiveWindow st"

definition Revoke :: "Unlocks \<Rightarrow> string \<Rightarrow> Unlocks" where
  "Revoke s token = (if token \<noteq> [] then del_record s token else s)"

definition ClearLockout :: "Unlocks \<Rightarrow> nat \<Rightarrow> Unlocks" where
  "ClearLockout s user =
     (if uk_down s then s
      else s\<lparr>uk_locks := (uk_locks s)(user := None), uk_fails := (uk_fails s)(user := None)\<rparr>)"

section \<open>The gates on a request\<close>

text \<open>What a request carries: who asks and how, the key's or the session's details, the address and the unlock token.\<close>

record AdminRequest =
  rq_UserID :: nat
  rq_APIKey :: bool
  rq_Ephemeral :: bool
  rq_KeyAppID :: nat
  rq_KeyWorkspaceID :: "nat option"
  rq_Scopes :: "string list"
  rq_JTI :: string
  rq_IP :: string
  rq_Header :: string
  rq_Cookie :: "string option"

abbreviation ScopeAll :: string where "ScopeAll \<equiv> ''*''"
abbreviation ScopeAdmin :: string where "ScopeAdmin \<equiv> ''admin''"

definition UnlockToken :: "AdminRequest \<Rightarrow> string" where
  "UnlockToken q =
     (let h = TrimSpace (rq_Header q) in
      if h \<noteq> [] then h else case rq_Cookie q of Some c \<Rightarrow> TrimSpace c | None \<Rightarrow> [])"

definition hasAPIKeyScope :: "AdminRequest \<Rightarrow> string \<Rightarrow> bool" where
  "hasAPIKeyScope q want = list_ex (\<lambda>s. s = ScopeAll \<or> s = want) (rq_Scopes q)"

text \<open>The unlock a request was let through with: none for a key, or when none is required.\<close>

definition checkElevation ::
  "AccessLib \<Rightarrow> AdminAccess \<Rightarrow> Unlocks \<Rightarrow> AdminRequest \<Rightarrow> AdminUser \<Rightarrow>
     Unlocks \<times> (unlock_error + UnlockRecord option)" where
  "checkElevation lib st s q user =
     (if \<not> IPAllowed lib st (rq_IP q) then (s, Inl IPNotAllowed)
      else if \<not> ac_Required st \<or> rq_APIKey q then (s, Inr None)
      else if \<not> au_TwoFactor user then (s, Inl SetupRequired)
      else case Check st s (au_ID user) (rq_JTI q) (UnlockToken q) of
             (s', Inl e) \<Rightarrow> (s', Inl e)
           | (s', Inr r) \<Rightarrow> (s', Inr (Some r)))"

datatype gate_error = AuthenticationRequired | ScopedKey | KeyWithoutAdminScope | NotAdmin | Refused unlock_error

definition RequireSystemAdmin ::
  "AccessLib \<Rightarrow> AdminAccess \<Rightarrow> AdminUser list \<Rightarrow> Unlocks \<Rightarrow> AdminRequest \<Rightarrow>
     Unlocks \<times> (gate_error + UnlockRecord option)" where
  "RequireSystemAdmin lib st users s q =
     (if rq_UserID q = 0 then (s, Inl AuthenticationRequired)
      else if rq_APIKey q \<and> (rq_Ephemeral q \<or> rq_KeyAppID q \<noteq> 0 \<or> rq_KeyWorkspaceID q \<noteq> None) then (s, Inl ScopedKey)
      else if rq_APIKey q \<and> \<not> hasAPIKeyScope q ScopeAdmin then (s, Inl KeyWithoutAdminScope)
      else case find (\<lambda>u. au_ID u = rq_UserID q) users of
             None \<Rightarrow> (s, Inl NotAdmin)
           | Some u \<Rightarrow>
               if \<not> au_Admin u then (s, Inl NotAdmin)
               else case checkElevation lib st s q u of
                      (s', Inl e) \<Rightarrow> (s', Inl (Refused e))
                    | (s', Inr r) \<Rightarrow> (s', Inr r))"

text \<open>For routes behind the first gate: \<open>r\<close> is the unlock it let the request through with.\<close>

definition RequireFreshElevation :: "AdminAccess \<Rightarrow> int \<Rightarrow> AdminRequest \<Rightarrow> UnlockRecord option \<Rightarrow> bool" where
  "RequireFreshElevation st now q r =
     (if rq_APIKey q \<or> \<not> ac_Required st then True
      else case r of None \<Rightarrow> False | Some r \<Rightarrow> Fresh st now r)"

definition FreshUnlock :: "AdminAccess \<Rightarrow> Unlocks \<Rightarrow> AdminRequest \<Rightarrow> Unlocks \<times> unlock_error option" where
  "FreshUnlock st s q =
     (if rq_APIKey q \<or> \<not> ac_Required st then (s, None)
      else case Peek st s (rq_UserID q) (rq_JTI q) (UnlockToken q) of
             (s', Inl _) \<Rightarrow> (s', Some UnlockRequired)
           | (s', Inr r) \<Rightarrow> (s', if Fresh st (uk_now s') r then None else Some StaleUnlock))"

definition grantsAdmin :: "string list \<Rightarrow> bool" where
  "grantsAdmin scopes = list_ex (\<lambda>s. s = ScopeAdmin \<or> s = ScopeAll) scopes"

text \<open>Whether a new API key may be made: an admin's account-wide key with the admin scope takes a fresh unlock.\<close>

definition key_gate ::
  "AdminAccess \<Rightarrow> AdminUser list \<Rightarrow> Unlocks \<Rightarrow> AdminRequest \<Rightarrow> nat option \<Rightarrow> string list \<Rightarrow> Unlocks \<times> unlock_error option" where
  "key_gate st users s q workspaceID scopes =
     (if workspaceID = None \<and> grantsAdmin scopes
      then (case find (\<lambda>u. au_ID u = rq_UserID q) users of
              Some u \<Rightarrow> if au_Admin u then FreshUnlock st s q else (s, None)
            | None \<Rightarrow> (s, None))
      else (s, None))"

datatype elevate_reply = KeysNeedNoUnlock | AddressRefused | UserNotFound | Failed unlock_error
  | Unlocked string UnlockRecord

text \<open>The handler of the unlock endpoint.\<close>

definition HandleElevate ::
  "AccessLib \<Rightarrow> AdminAccess \<Rightarrow> AdminUser list \<Rightarrow> Unlocks \<Rightarrow> AdminRequest \<Rightarrow> int option \<Rightarrow> bool \<Rightarrow> string option \<Rightarrow>
     Unlocks \<times> elevate_reply" where
  "HandleElevate lib st users s q sessionExp right token =
     (if rq_APIKey q then (s, KeysNeedNoUnlock)
      else if \<not> IPAllowed lib st (rq_IP q) then (s, AddressRefused)
      else case find (\<lambda>u. au_ID u = rq_UserID q) users of
             None \<Rightarrow> (s, UserNotFound)
           | Some u \<Rightarrow>
               (case Elevate st s u (rq_JTI q) sessionExp right token of
                  (s', Inl e) \<Rightarrow> (s', Failed e)
                | (s', Inr (tok, r)) \<Rightarrow> (s', Unlocked tok r)))"

definition HandleLock :: "Unlocks \<Rightarrow> AdminRequest \<Rightarrow> Unlocks" where
  "HandleLock s q = Revoke s (UnlockToken q)"

section \<open>Traces\<close>

text \<open>
  What happens to the store, one complete request after another: time passes, Redis goes down or comes back, a code is
  tried, an unlock is used, looked at or ended, a lockout is cleared from the host. Every request has the settings in
  force when it is served. A \<open>Grant\<close> records an attempt that was answered with a token.
\<close>

datatype unlock_event =
    Pass int
  | Outage bool
  | Attempt AdminAccess AdminUser string "int option" bool "string option"
  | Use AdminAccess nat string string
  | Look AdminAccess nat string string
  | EndUnlock string
  | Recover nat

record Grant =
  gr_User :: nat
  gr_JTI :: string
  gr_Key :: string
  gr_At :: int
  gr_TTL :: int
  gr_SessionExp :: "int option"
  gr_Right :: bool
  gr_TwoFactor :: bool

definition unlock_step :: "unlock_event \<Rightarrow> Unlocks \<Rightarrow> Unlocks" where
  "unlock_step ev s =
     (case ev of
        Pass d \<Rightarrow> s\<lparr>uk_now := uk_now s + max 0 d\<rparr>
      | Outage b \<Rightarrow> s\<lparr>uk_down := b\<rparr>
      | Attempt st u jti sx right tok \<Rightarrow> fst (Elevate st s u jti sx right tok)
      | Use st uid jti tok \<Rightarrow> fst (Check st s uid jti tok)
      | Look st uid jti tok \<Rightarrow> fst (Peek st s uid jti tok)
      | EndUnlock tok \<Rightarrow> Revoke s tok
      | Recover uid \<Rightarrow> ClearLockout s uid)"

definition grants_of :: "unlock_event \<Rightarrow> Unlocks \<Rightarrow> Grant list" where
  "grants_of ev s =
     (case ev of
        Attempt st u jti sx right tok \<Rightarrow>
          (case snd (Elevate st s u jti sx right tok) of
             Inr (t, r) \<Rightarrow> [\<lparr>gr_User = au_ID u, gr_JTI = jti, gr_Key = uk_hash s t, gr_At = uk_now s, gr_TTL = ac_TTL st,
                             gr_SessionExp = sx, gr_Right = right, gr_TwoFactor = au_TwoFactor u\<rparr>]
           | Inl _ \<Rightarrow> [])
      | _ \<Rightarrow> [])"

fun unlock_run :: "unlock_event list \<Rightarrow> Unlocks \<times> Grant list \<Rightarrow> Unlocks \<times> Grant list" where
  "unlock_run [] w = w"
| "unlock_run (ev # evs) (s, gs) = unlock_run evs (unlock_step ev s, gs @ grants_of ev s)"

text \<open>An empty store.\<close>

definition fresh_store :: "int \<Rightarrow> (string \<Rightarrow> string) \<Rightarrow> Unlocks" where
  "fresh_store now hash = \<lparr>uk_now = now, uk_down = False, uk_hash = hash, uk_records = (\<lambda>_. None),
     uk_fails = (\<lambda>_. None), uk_locks = (\<lambda>_. None)\<rparr>"

subsection \<open>What each operation leaves of the store\<close>

lemma get_record_SomeD:
  "get_record s token = Some r \<Longrightarrow> \<exists>e. uk_records s (uk_hash s token) = Some (r, e) \<and> uk_now s < e \<and> \<not> uk_down s"
  unfolding get_record_def by (auto split: option.split_asm if_split_asm prod.split_asm)

lemma del_record_simps [simp]:
  "uk_now (del_record s t) = uk_now s" "uk_hash (del_record s t) = uk_hash s" "uk_down (del_record s t) = uk_down s"
  "uk_fails (del_record s t) = uk_fails s" "uk_locks (del_record s t) = uk_locks s"
  by (simp_all add: del_record_def)

lemma del_record_records: "uk_records (del_record s t) k = Some x \<Longrightarrow> uk_records s k = Some x"
  unfolding del_record_def by (auto split: if_split_asm)

lemma unlock_save_InrD:
  assumes "unlock_save s t r = Inr s'"
  shows "s' = s\<lparr>uk_records := (uk_records s)(uk_hash s t := Some (r, ur_ExpiresAt r))\<rparr> \<and> \<not> uk_down s \<and> uk_now s < ur_ExpiresAt r"
  using assms unfolding unlock_save_def by (auto split: if_split_asm)

lemma unlock_fail_simps [simp]:
  "uk_now (fst (unlock_fail s u st)) = uk_now s" "uk_hash (fst (unlock_fail s u st)) = uk_hash s"
  "uk_records (fst (unlock_fail s u st)) = uk_records s" "uk_down (fst (unlock_fail s u st)) = uk_down s"
  unfolding unlock_fail_def Let_def by (simp_all split: prod.split)

lemma unlock_load_cases:
  "unlock_load st s uid jti t = (s', res) \<Longrightarrow> (s' = s \<or> s' = del_record s t \<and> (\<exists>e. res = Inl e))"
  unfolding unlock_load_def by (auto split: if_split_asm option.split_asm)

lemma unlock_load_InrD:
  assumes "unlock_load st s uid jti t = (s', Inr r)"
  shows "s' = s \<and> get_record s t = Some r \<and> ur_UserID r = uid \<and> ur_JTI r = jti \<and> \<not> lapsed st (uk_now s) r"
  using assms unfolding unlock_load_def by (auto split: if_split_asm option.split_asm)

text \<open>A use of an unlock: nothing, a deletion, or the same record with the time of its last use moved on.\<close>

lemma Check_cases:
  obtains "fst (Check st s uid jti t) = s" "\<exists>e. snd (Check st s uid jti t) = Inl e"
  | "fst (Check st s uid jti t) = del_record s t" "\<exists>e. snd (Check st s uid jti t) = Inl e"
  | r where "get_record s t = Some r" "ur_UserID r = uid" "ur_JTI r = jti" "\<not> lapsed st (uk_now s) r"
      "snd (Check st s uid jti t) = Inr (r\<lparr>ur_LastUsed := uk_now s\<rparr>)"
      "unlock_save s t (r\<lparr>ur_LastUsed := uk_now s\<rparr>) = Inr (fst (Check st s uid jti t))"
proof -
  obtain s' res where l: "unlock_load st s uid jti t = (s', res)" by (cases "unlock_load st s uid jti t")
  show thesis
  proof (cases res)
    case (Inl e)
    then show thesis using unlock_load_cases [OF l] that(1,2) l by (auto simp: Check_def)
  next
    case (Inr r)
    note r = unlock_load_InrD [OF l [unfolded Inr]]
    show thesis
    proof (cases "unlock_save s t (r\<lparr>ur_LastUsed := uk_now s\<rparr>)")
      case (Inl e) then show thesis using that(1) l Inr r by (simp add: Check_def check_finish_def Let_def \<open>res = Inr r\<close>)
    next
      case (Inr s2)
      then show thesis using that(3) [of r] l \<open>res = Inr r\<close> r by (simp add: Check_def check_finish_def Let_def)
    qed
  qed
qed

lemma Elevate_cases:
  obtains "fst (Elevate st s u jti sx right tok) = s" "\<exists>e. snd (Elevate st s u jti sx right tok) = Inl e"
      "elevate_check st s u jti \<noteq> None"
  | "\<not> right" "fst (Elevate st s u jti sx right tok) = fst (unlock_fail s (au_ID u) st)"
      "\<exists>e. snd (Elevate st s u jti sx right tok) = Inl e" "elevate_check st s u jti = None"
  | "right" "fst (Elevate st s u jti sx right tok) = (if uk_down s then s else s\<lparr>uk_fails := (uk_fails s)(au_ID u := None)\<rparr>)"
      "\<exists>e. snd (Elevate st s u jti sx right tok) = Inl e" "elevate_check st s u jti = None"
  | t where "right" "tok = Some t" "elevate_check st s u jti = None" "\<not> uk_down s"
      "snd (Elevate st s u jti sx right tok) = Inr (t, new_unlock st s u jti sx)"
      "fst (Elevate st s u jti sx right tok) = s\<lparr>uk_fails := (uk_fails s)(au_ID u := None),
         uk_records := (uk_records s)(uk_hash s t := Some (new_unlock st s u jti sx, ur_ExpiresAt (new_unlock st s u jti sx)))\<rparr>"
proof (cases "elevate_check st s u jti")
  case (Some e) then show thesis using that(1) by (simp add: Elevate_def)
next
  case None
  show thesis
  proof (cases right)
    case False then show thesis using that(2) None by (simp add: Elevate_def elevate_finish_def split: prod.split)
  next
    case True
    let ?s = "if uk_down s then s else s\<lparr>uk_fails := (uk_fails s)(au_ID u := None)\<rparr>"
    let ?n = "new_unlock st ?s u jti sx"
    have same: "?n = new_unlock st s u jti sx" by (simp add: new_unlock_def)
    have run: "Elevate st s u jti sx right tok =
        (case tok of None \<Rightarrow> (?s, Inl UnlockStorage)
         | Some t \<Rightarrow> (case unlock_save ?s t ?n of Inl e \<Rightarrow> (?s, Inl e) | Inr s' \<Rightarrow> (s', Inr (t, ?n))))"
      using None True unfolding Elevate_def elevate_finish_def Let_def by simp
    show thesis
    proof (cases tok)
      case None then show thesis using that(3) [OF True _ _ \<open>elevate_check st s u jti = None\<close>] run by simp
    next
      case (Some t)
      show thesis
      proof (cases "unlock_save ?s t ?n")
        case (Inl e) then show thesis using that(3) [OF True _ _ None] run Some by simp
      next
        case (Inr s')
        note saved = unlock_save_InrD [OF Inr]
        have up: "\<not> uk_down s" using saved by (auto split: if_split_asm)
        have "s' = s\<lparr>uk_fails := (uk_fails s)(au_ID u := None),
            uk_records := (uk_records s)(uk_hash s t := Some (?n, ur_ExpiresAt ?n))\<rparr>"
          using saved up by simp
        then show thesis using that(4) [OF True Some None up] run Some Inr unfolding same by simp
      qed
    qed
  qed
qed

subsection \<open>Every unlock was granted\<close>

text \<open>The grant a stored record comes from: its key, whose it is, when it was made and how long it can last.\<close>

definition granted_by :: "string \<Rightarrow> UnlockRecord \<Rightarrow> Grant \<Rightarrow> bool" where
  "granted_by key r g \<longleftrightarrow>
     gr_Key g = key \<and> gr_User g = ur_UserID r \<and> gr_JTI g = ur_JTI r \<and> gr_At g = ur_CreatedAt r \<and> gr_Right g \<and>
     gr_TwoFactor g \<and> ur_ExpiresAt r \<le> gr_At g + gr_TTL g \<and> (\<forall>x. gr_SessionExp g = Some x \<longrightarrow> ur_ExpiresAt r \<le> x)"

definition records_granted :: "Unlocks \<Rightarrow> Grant list \<Rightarrow> bool" where
  "records_granted s gs \<longleftrightarrow> (\<forall>key r e. uk_records s key = Some (r, e) \<longrightarrow> (\<exists>g\<in>set gs. granted_by key r g))"

lemma records_grantedD:
  "records_granted s gs \<Longrightarrow> get_record s t = Some r \<Longrightarrow> \<exists>g\<in>set gs. granted_by (uk_hash s t) r g"
  using get_record_SomeD unfolding records_granted_def by blast

lemma records_granted_mono:
  "records_granted s gs \<Longrightarrow> (\<And>k x. uk_records s' k = Some x \<Longrightarrow> uk_records s k = Some x) \<Longrightarrow> records_granted s' (gs @ hs)"
  unfolding records_granted_def by fastforce

lemma records_granted_update:
  assumes "records_granted s gs" "\<exists>g\<in>set (gs @ hs). granted_by key r g"
    "uk_records s' = (uk_records s)(key := Some (r, e))"
  shows "records_granted s' (gs @ hs)"
proof -
  have "\<exists>g\<in>set (gs @ hs). granted_by k q g" if "uk_records s' k = Some (q, f)" for k q f
    using that assms unfolding records_granted_def by (cases "k = key") auto
  then show ?thesis unfolding records_granted_def by blast
qed

lemma granted_by_used: "granted_by key (r\<lparr>ur_LastUsed := n\<rparr>) g = granted_by key r g"
  by (simp add: granted_by_def)

lemma new_unlock_granted:
  assumes "elevate_check st s u jti = None"
  shows "granted_by key (new_unlock st s u jti sx)
     \<lparr>gr_User = au_ID u, gr_JTI = jti, gr_Key = key, gr_At = uk_now s, gr_TTL = ac_TTL st, gr_SessionExp = sx,
       gr_Right = True, gr_TwoFactor = au_TwoFactor u\<rparr>"
  using assms unfolding granted_by_def new_unlock_def elevate_check_def
  by (auto simp: Let_def split: option.split if_split_asm)

lemma step_granted:
  assumes "records_granted s gs"
  shows "records_granted (unlock_step ev s) (gs @ grants_of ev s)"
proof (cases ev)
  case (Attempt st u jti sx right tok)
  show ?thesis
  proof (cases rule: Elevate_cases [of st s u jti sx right tok])
    case (4 t)
    let ?g = "\<lparr>gr_User = au_ID u, gr_JTI = jti, gr_Key = uk_hash s t, gr_At = uk_now s, gr_TTL = ac_TTL st,
        gr_SessionExp = sx, gr_Right = True, gr_TwoFactor = au_TwoFactor u\<rparr>"
    have "grants_of ev s = [?g]" using 4 by (simp add: grants_of_def Attempt)
    then have "\<exists>g\<in>set (gs @ grants_of ev s). granted_by (uk_hash s t) (new_unlock st s u jti sx) g"
      using new_unlock_granted [OF 4(3)] by simp
    then show ?thesis by (rule records_granted_update [OF assms]) (simp add: unlock_step_def Attempt 4(6))
  qed (rule records_granted_mono [OF assms]; simp add: unlock_step_def Attempt split: if_split_asm)+
next
  case (Use st uid jti tok)
  show ?thesis
  proof (cases rule: Check_cases [of st s uid jti tok])
    case (3 r)
    have "\<exists>g\<in>set (gs @ grants_of ev s). granted_by (uk_hash s tok) (r\<lparr>ur_LastUsed := uk_now s\<rparr>) g"
      using records_grantedD [OF assms 3(1)] unfolding granted_by_used by auto
    then show ?thesis
      by (rule records_granted_update [OF assms]) (use unlock_save_InrD [OF 3(6)] in \<open>simp add: unlock_step_def Use\<close>)
  qed (rule records_granted_mono [OF assms], auto simp: unlock_step_def Use dest: del_record_records)+
next
  case (Look st uid jti tok)
  obtain s' res where l: "unlock_load st s uid jti tok = (s', res)" by (cases "unlock_load st s uid jti tok")
  show ?thesis
    by (rule records_granted_mono [OF assms])
      (use unlock_load_cases [OF l] l in \<open>auto simp: unlock_step_def Look Peek_def dest: del_record_records\<close>)
next
  case (EndUnlock tok)
  show ?thesis
    by (rule records_granted_mono [OF assms])
      (auto simp: unlock_step_def EndUnlock Revoke_def split: if_split_asm dest: del_record_records)
qed (rule records_granted_mono [OF assms]; simp add: unlock_step_def ClearLockout_def split: if_split_asm)+

lemma run_granted:
  "records_granted s gs \<Longrightarrow> unlock_run evs (s, gs) = (s', gs') \<Longrightarrow> records_granted s' gs'"
proof (induction evs arbitrary: s gs)
  case (Cons ev evs)
  show ?case by (rule Cons.IH [OF step_granted [OF Cons.prems(1)]]) (use Cons.prems(2) in simp)
qed simp

lemma Check_world:
  "uk_now (fst (Check st s uid jti t)) = uk_now s \<and> uk_hash (fst (Check st s uid jti t)) = uk_hash s \<and>
   uk_down (fst (Check st s uid jti t)) = uk_down s \<and> uk_fails (fst (Check st s uid jti t)) = uk_fails s \<and>
   uk_locks (fst (Check st s uid jti t)) = uk_locks s"
proof (cases rule: Check_cases [of st s uid jti t])
  case (3 r) then show ?thesis using unlock_save_InrD [OF 3(6)] by simp
qed simp_all

lemma Peek_world:
  "uk_now (fst (Peek st s uid jti t)) = uk_now s \<and> uk_hash (fst (Peek st s uid jti t)) = uk_hash s \<and>
   uk_down (fst (Peek st s uid jti t)) = uk_down s \<and> uk_fails (fst (Peek st s uid jti t)) = uk_fails s \<and>
   uk_locks (fst (Peek st s uid jti t)) = uk_locks s"
proof -
  obtain s' res where l: "unlock_load st s uid jti t = (s', res)" by (cases "unlock_load st s uid jti t")
  show ?thesis using unlock_load_cases [OF l] l by (auto simp: Peek_def)
qed

lemma Elevate_world:
  "uk_now (fst (Elevate st s u jti sx right tok)) = uk_now s \<and> uk_hash (fst (Elevate st s u jti sx right tok)) = uk_hash s \<and>
   uk_down (fst (Elevate st s u jti sx right tok)) = uk_down s"
  by (cases rule: Elevate_cases [of st s u jti sx right tok]) simp_all

lemma step_hash: "uk_hash (unlock_step ev s) = uk_hash s"
  by (cases ev) (simp_all add: unlock_step_def Check_world Peek_world Elevate_world Revoke_def ClearLockout_def)

lemma step_now: "uk_now s \<le> uk_now (unlock_step ev s)"
  by (cases ev) (simp_all add: unlock_step_def Check_world Peek_world Elevate_world Revoke_def ClearLockout_def)

lemma run_hash: "unlock_run evs (s, gs) = (s', gs') \<Longrightarrow> uk_hash s' = uk_hash s"
  by (induction evs arbitrary: s gs) (auto simp: step_hash)

lemma run_now: "unlock_run evs (s, gs) = (s', gs') \<Longrightarrow> uk_now s \<le> uk_now s'"
proof (induction evs arbitrary: s gs)
  case (Cons ev evs)
  then show ?case using step_now [of s ev] by (auto intro: order_trans)
qed simp

lemma run_prefix: "unlock_run evs (s, gs) = (s', gs') \<Longrightarrow> \<exists>hs. gs' = gs @ hs"
proof (induction evs arbitrary: s gs)
  case (Cons ev evs)
  from Cons.IH [of "unlock_step ev s" "gs @ grants_of ev s"] Cons.prems show ?case by auto
qed simp

section \<open>What opens the console\<close>

lemma gate_InrD:
  assumes "RequireSystemAdmin lib st users s q = (s', Inr r)"
  obtains u s2 where "u \<in> set users" "au_ID u = rq_UserID q" "au_Admin u"
    "rq_APIKey q \<longrightarrow> hasAPIKeyScope q ScopeAdmin \<and> \<not> rq_Ephemeral q \<and> rq_KeyAppID q = 0 \<and> rq_KeyWorkspaceID q = None"
    "checkElevation lib st s q u = (s', Inr r)"
proof -
  have key: "\<not> (rq_APIKey q \<and> (rq_Ephemeral q \<or> rq_KeyAppID q \<noteq> 0 \<or> rq_KeyWorkspaceID q \<noteq> None))"
      "\<not> (rq_APIKey q \<and> \<not> hasAPIKeyScope q ScopeAdmin)" "rq_UserID q \<noteq> 0"
    using assms unfolding RequireSystemAdmin_def by (metis Inl_Inr_False prod.inject)+
  obtain u where u: "find (\<lambda>u. au_ID u = rq_UserID q) users = Some u"
    using assms key unfolding RequireSystemAdmin_def by (auto split: option.split_asm)
  have a: "au_Admin u" using assms key u unfolding RequireSystemAdmin_def by (auto split: if_split_asm)
  have "checkElevation lib st s q u = (s', Inr r)"
    using assms key u a unfolding RequireSystemAdmin_def by (auto split: sum.split_asm prod.split_asm)
  moreover have "u \<in> set users" "au_ID u = rq_UserID q" using u by (auto simp: find_Some_iff dest: nth_mem)
  moreover have "rq_APIKey q \<longrightarrow> hasAPIKeyScope q ScopeAdmin \<and> \<not> rq_Ephemeral q \<and> rq_KeyAppID q = 0 \<and> rq_KeyWorkspaceID q = None"
    using key by blast
  ultimately show thesis using that [OF _ _ a] by simp
qed

lemma checkElevation_InrD:
  assumes "checkElevation lib st s q u = (s', Inr r)"
  shows "IPAllowed lib st (rq_IP q) \<and>
    (\<not> rq_APIKey q \<and> ac_Required st \<longrightarrow> au_TwoFactor u \<and>
       (\<exists>r0. get_record s (UnlockToken q) = Some r0 \<and> ur_UserID r0 = au_ID u \<and> ur_JTI r0 = rq_JTI q \<and>
          \<not> lapsed st (uk_now s) r0 \<and> r = Some (r0\<lparr>ur_LastUsed := uk_now s\<rparr>)))"
proof -
  have ip: "IPAllowed lib st (rq_IP q)" using assms unfolding checkElevation_def by (auto split: if_split_asm)
  show ?thesis
  proof (cases "\<not> ac_Required st \<or> rq_APIKey q")
    case True then show ?thesis using ip by blast
  next
    case False
    have two: "au_TwoFactor u" using assms ip False unfolding checkElevation_def by (auto split: if_split_asm)
    have run: "checkElevation lib st s q u = (case Check st s (au_ID u) (rq_JTI q) (UnlockToken q) of
        (s', Inl e) \<Rightarrow> (s', Inl e) | (s', Inr r) \<Rightarrow> (s', Inr (Some r)))"
      using ip False two unfolding checkElevation_def by simp
    show ?thesis
    proof (cases rule: Check_cases [of st s "au_ID u" "rq_JTI q" "UnlockToken q"])
      case (3 r0)
      then have "r = Some (r0\<lparr>ur_LastUsed := uk_now s\<rparr>)"
        using assms unfolding run by (cases "Check st s (au_ID u) (rq_JTI q) (UnlockToken q)") auto
      then show ?thesis using 3 ip two by blast
    qed (use assms in \<open>cases "Check st s (au_ID u) (rq_JTI q) (UnlockToken q)"; auto simp: run\<close>)+
  qed
qed

text \<open>
  C9: a request reaches the platform's admin routes only for an admin, from an allowed address, and, made with an API
  key, only with an account-wide key that carries the admin scope. Made in a session while an unlock is required, it
  carries the token of an attempt made earlier in this very session by this user with a right second factor, within
  the lifetime the unlock had then and before the session's own end; and where a fresh unlock is asked for, within the
  sensitive window. This whatever requests were served before, by whom and under which settings.
\<close>

theorem console_needs_second_factor:
  assumes before: "unlock_run evs (fresh_store t0 hash, []) = (s, gs)"
    and pass: "RequireSystemAdmin lib st users s q = (s', Inr r)"
  shows "(\<exists>u\<in>set users. au_ID u = rq_UserID q \<and> au_Admin u) \<and> IPAllowed lib st (rq_IP q) \<and>
    (rq_APIKey q \<longrightarrow> hasAPIKeyScope q ScopeAdmin \<and> \<not> rq_Ephemeral q \<and> rq_KeyAppID q = 0 \<and> rq_KeyWorkspaceID q = None) \<and>
    (\<not> rq_APIKey q \<and> ac_Required st \<longrightarrow>
      (\<exists>g\<in>set gs. gr_User g = rq_UserID q \<and> gr_JTI g = rq_JTI q \<and> gr_Key g = hash (UnlockToken q) \<and>
         gr_Right g \<and> gr_TwoFactor g \<and> uk_now s < gr_At g + gr_TTL g \<and>
         (\<forall>x. gr_SessionExp g = Some x \<longrightarrow> uk_now s < x) \<and>
         (RequireFreshElevation st (uk_now s) q r \<and> 0 < ac_SensitiveWindow st \<longrightarrow>
            uk_now s \<le> gr_At g + ac_SensitiveWindow st)))"
proof -
  obtain u where u: "u \<in> set users" "au_ID u = rq_UserID q" "au_Admin u"
      "rq_APIKey q \<longrightarrow> hasAPIKeyScope q ScopeAdmin \<and> \<not> rq_Ephemeral q \<and> rq_KeyAppID q = 0 \<and> rq_KeyWorkspaceID q = None"
      "checkElevation lib st s q u = (s', Inr r)"
    using gate_InrD [OF pass] by metis
  note checked = checkElevation_InrD [OF u(5)]
  have granted: "records_granted s gs"
    by (rule run_granted [OF _ before]) (simp add: records_granted_def fresh_store_def)
  have hash: "uk_hash s = hash" using run_hash [OF before] by (simp add: fresh_store_def)
  have unlock: "\<exists>g\<in>set gs. gr_User g = rq_UserID q \<and> gr_JTI g = rq_JTI q \<and> gr_Key g = hash (UnlockToken q) \<and>
         gr_Right g \<and> gr_TwoFactor g \<and> uk_now s < gr_At g + gr_TTL g \<and>
         (\<forall>x. gr_SessionExp g = Some x \<longrightarrow> uk_now s < x) \<and>
         (RequireFreshElevation st (uk_now s) q r \<and> 0 < ac_SensitiveWindow st \<longrightarrow>
            uk_now s \<le> gr_At g + ac_SensitiveWindow st)" if session: "\<not> rq_APIKey q \<and> ac_Required st"
  proof -
    obtain r0 where r0: "get_record s (UnlockToken q) = Some r0" "ur_UserID r0 = au_ID u" "ur_JTI r0 = rq_JTI q"
        "\<not> lapsed st (uk_now s) r0" "r = Some (r0\<lparr>ur_LastUsed := uk_now s\<rparr>)"
      using checked session by blast
    obtain g where g: "g \<in> set gs" "granted_by (hash (UnlockToken q)) r0 g"
      using records_grantedD [OF granted r0(1)] unfolding hash by blast
    have live: "uk_now s < ur_ExpiresAt r0" using r0(4) unfolding lapsed_def by blast
    have "RequireFreshElevation st (uk_now s) q r \<and> 0 < ac_SensitiveWindow st \<longrightarrow>
        uk_now s \<le> gr_At g + ac_SensitiveWindow st"
      using session g(2) by (auto simp: RequireFreshElevation_def Fresh_def r0(5) granted_by_def)
    then show ?thesis using g live r0(2,3) u(2) by (intro bexI [OF _ g(1)]) (auto simp: granted_by_def)
  qed
  show ?thesis using u checked unlock by blast
qed

section \<open>Ended unlocks and lockouts\<close>

lemma step_absent:
  assumes "uk_records s key = None" "\<forall>g\<in>set (grants_of ev s). gr_Key g \<noteq> key"
  shows "uk_records (unlock_step ev s) key = None"
proof (cases ev)
  case (Attempt st u jti sx right tok)
  show ?thesis
  proof (cases rule: Elevate_cases [of st s u jti sx right tok])
    case (4 t) then show ?thesis using assms by (simp add: unlock_step_def grants_of_def Attempt)
  qed (use assms in \<open>simp_all add: unlock_step_def Attempt\<close>)
next
  case (Use st uid jti tok)
  show ?thesis
  proof (cases rule: Check_cases [of st s uid jti tok])
    case (3 r)
    have "uk_hash s tok \<noteq> key" using get_record_SomeD [OF 3(1)] assms(1) by auto
    then show ?thesis using unlock_save_InrD [OF 3(6)] assms(1) by (simp add: unlock_step_def Use)
  qed (use assms in \<open>simp_all add: unlock_step_def Use del_record_def\<close>)
next
  case (Look st uid jti tok)
  obtain s' res where l: "unlock_load st s uid jti tok = (s', res)" by (cases "unlock_load st s uid jti tok")
  show ?thesis using unlock_load_cases [OF l] l assms(1) by (auto simp: unlock_step_def Look Peek_def del_record_def)
qed (use assms in \<open>simp_all add: unlock_step_def Revoke_def ClearLockout_def del_record_def\<close>)

lemma run_absent:
  assumes "unlock_run evs (s, gs) = (s', gs @ hs)" "uk_records s key = None" "\<forall>g\<in>set hs. gr_Key g \<noteq> key"
  shows "uk_records s' key = None"
  using assms
proof (induction evs arbitrary: s gs hs)
  case (Cons ev evs)
  obtain ks where ks: "hs = grants_of ev s @ ks" "unlock_run evs (unlock_step ev s, (gs @ grants_of ev s)) = (s', (gs @ grants_of ev s) @ ks)"
    using Cons.prems(1) run_prefix by fastforce
  show ?case by (rule Cons.IH [OF ks(2)]) (use Cons.prems(2,3) step_absent [of s key ev] ks(1) in auto)
qed simp


lemma locked_attempt:
  assumes "uk_locks s (au_ID u) = Some (v, e)" "v * second \<le> e" "uk_now s < v * second"
  shows "uk_locks (fst (Elevate st s u jti sx right tok)) (au_ID u) = Some (v, e) \<and>
    (\<exists>err. snd (Elevate st s u jti sx right tok) = Inl err)"
proof (cases "uk_down s")
  case True
  show ?thesis using True assms(1)
    by (cases rule: Elevate_cases [of st s u jti sx right tok]) (simp_all add: unlock_fail_def)
next
  case False
  have "is_locked s (au_ID u)" using assms False by (simp add: is_locked_def lockedUntil_def)
  then have "elevate_check st s u jti \<noteq> None" by (simp add: elevate_check_def)
  then show ?thesis using assms(1) by (cases rule: Elevate_cases [of st s u jti sx right tok]) simp_all
qed

lemma other_attempt:
  "au_ID u \<noteq> user \<Longrightarrow> uk_locks (fst (Elevate st s u jti sx right tok)) user = uk_locks s user"
  by (cases rule: Elevate_cases [of st s u jti sx right tok]) (simp_all add: unlock_fail_def Let_def split: prod.split)

lemma step_lock:
  assumes "uk_locks s user = Some (v, e)" "v * second \<le> e" "uk_now s < v * second" "ev \<noteq> Recover user"
  shows "uk_locks (unlock_step ev s) user = Some (v, e) \<and> (\<forall>g\<in>set (grants_of ev s). gr_User g \<noteq> user)"
proof (cases ev)
  case (Attempt st u jti sx right tok)
  show ?thesis
  proof (cases "au_ID u = user")
    case True
    show ?thesis using locked_attempt [of s u v e st jti sx right tok] assms True
      by (auto simp: unlock_step_def grants_of_def Attempt)
  next
    case False
    then show ?thesis using other_attempt [OF False] assms(1)
      by (auto simp: unlock_step_def grants_of_def Attempt split: sum.split)
  qed
qed (use assms in \<open>simp_all add: unlock_step_def grants_of_def Check_world Peek_world Revoke_def ClearLockout_def\<close>)

lemma run_lock:
  assumes "unlock_run evs (s, gs) = (s', gs @ hs)" "uk_locks s user = Some (v, e)" "v * second \<le> e"
    "uk_now s' < v * second" "Recover user \<notin> set evs"
  shows "\<forall>g\<in>set hs. gr_User g \<noteq> user"
  using assms
proof (induction evs arbitrary: s gs hs)
  case (Cons ev evs)
  obtain ks where ks: "hs = grants_of ev s @ ks" "unlock_run evs (unlock_step ev s, (gs @ grants_of ev s)) = (s', (gs @ grants_of ev s) @ ks)"
    using Cons.prems(1) run_prefix by fastforce
  have "uk_now s < v * second" using run_now [OF Cons.prems(1)] Cons.prems(4) by simp
  from step_lock [OF Cons.prems(2,3) this, of ev] Cons.prems(5)
  have step: "uk_locks (unlock_step ev s) user = Some (v, e)" "\<forall>g\<in>set (grants_of ev s). gr_User g \<noteq> user" by auto
  have "\<forall>g\<in>set ks. gr_User g \<noteq> user"
    by (rule Cons.IH [OF ks(2) step(1) Cons.prems(3,4)]) (use Cons.prems(5) in simp)
  then show ?case using step(2) ks(1) by auto
qed simp

text \<open>A stored lockout ends no later than its key.\<close>

definition locks_sane :: "Unlocks \<Rightarrow> bool" where
  "locks_sane s \<longleftrightarrow> (\<forall>user v e. uk_locks s user = Some (v, e) \<longrightarrow> v * second \<le> e)"

lemma unlock_fail_sane: "locks_sane s \<Longrightarrow> locks_sane (fst (unlock_fail s user st))"
  unfolding locks_sane_def unlock_fail_def Let_def second_def by (auto split: prod.split if_split_asm)

lemma Elevate_sane: "locks_sane s \<Longrightarrow> locks_sane (fst (Elevate st s u jti sx right tok))"
proof (cases rule: Elevate_cases [of st s u jti sx right tok])
  case 2 then show "locks_sane s \<Longrightarrow> ?thesis" using unlock_fail_sane by simp
qed (simp_all add: locks_sane_def)

lemma step_sane: "locks_sane s \<Longrightarrow> locks_sane (unlock_step ev s)"
proof (cases ev)
  case Attempt then show "locks_sane s \<Longrightarrow> ?thesis" using Elevate_sane by (simp add: unlock_step_def)
qed (simp_all add: locks_sane_def unlock_step_def Check_world Peek_world Revoke_def ClearLockout_def)

lemma run_sane: "locks_sane s \<Longrightarrow> unlock_run evs (s, gs) = (s', gs') \<Longrightarrow> locks_sane s'"
proof (induction evs arbitrary: s gs)
  case (Cons ev evs)
  show ?case by (rule Cons.IH [OF step_sane [OF Cons.prems(1)]]) (use Cons.prems(2) in simp)
qed simp


section \<open>Wrong codes lock\<close>

text \<open>Wrong codes one after another, each after a pause.\<close>

definition guesses :: "AdminAccess \<Rightarrow> AdminUser \<Rightarrow> string \<Rightarrow> int option \<Rightarrow> int list \<Rightarrow> unlock_event list" where
  "guesses st u jti sx ds = concat (map (\<lambda>d. [Pass d, Attempt st u jti sx False None]) ds)"

definition after_pause :: "Unlocks \<Rightarrow> int \<Rightarrow> Unlocks" where
  "after_pause s d = s\<lparr>uk_now := uk_now s + d\<rparr>"

definition locked_at :: "AdminAccess \<Rightarrow> Unlocks \<Rightarrow> nat \<Rightarrow> bool" where
  "locked_at st s user \<longleftrightarrow> \<not> uk_down s \<and>
     uk_locks s user = Some ((uk_now s + ac_Lockout st) div second, uk_now s + ac_Lockout st)"

lemma not_locked_later: "\<not> is_locked s user \<Longrightarrow> 0 \<le> d \<Longrightarrow> \<not> is_locked (after_pause s d) user"
  unfolding is_locked_def lockedUntil_def after_pause_def by (auto split: option.splits prod.splits if_splits)

lemma wrong_attempt:
  assumes "ac_Required st" "au_TwoFactor u" "jti \<noteq> []" "\<not> is_locked s (au_ID u)"
  shows "fst (Elevate st s u jti sx False tok) = fst (unlock_fail s (au_ID u) st) \<and> (\<exists>e. snd (Elevate st s u jti sx False tok) = Inl e)"
  using assms by (simp add: Elevate_def elevate_check_def elevate_finish_def split: prod.split)

lemma guess_run:
  assumes "ac_Required st" "au_TwoFactor u" "jti \<noteq> []" "\<not> is_locked s (au_ID u)" "0 \<le> d"
  shows "unlock_run (guesses st u jti sx (d # ds)) (s, gs) =
    unlock_run (guesses st u jti sx ds) (fst (unlock_fail (after_pause s d) (au_ID u) st), gs)"
proof -
  have "\<not> is_locked (after_pause s d) (au_ID u)" by (rule not_locked_later [OF assms(4,5)])
  from wrong_attempt [OF assms(1-3) this, of sx None]
  have "fst (Elevate st (after_pause s d) u jti sx False None) = fst (unlock_fail (after_pause s d) (au_ID u) st)"
    "grants_of (Attempt st u jti sx False None) (after_pause s d) = []" by (auto simp: grants_of_def)
  moreover have "unlock_step (Pass d) s = after_pause s d" "grants_of (Pass d) s = []"
    using assms(5) by (simp_all add: unlock_step_def grants_of_def after_pause_def)
  moreover have "unlock_step (Attempt st u jti sx False None) w = fst (Elevate st w u jti sx False None)" for w
    by (simp add: unlock_step_def)
  ultimately show ?thesis unfolding guesses_def by simp
qed

lemma counted_fail:
  assumes "\<not> uk_down s" "fail_count s user = (k, e)" "k + 1 < ac_MaxAttempts st"
  shows "fst (unlock_fail s user st) =
    s\<lparr>uk_fails := (uk_fails s)(user := Some (k + 1, if k = 0 then Some (uk_now s + ac_Lockout st) else e))\<rparr>"
  using assms by (simp add: unlock_fail_def Let_def)

lemma last_fail:
  assumes "\<not> uk_down s" "fail_count s user = (k, e)" "\<not> k + 1 < ac_MaxAttempts st"
  shows "locked_at st (fst (unlock_fail s user st)) user"
  using assms by (simp add: unlock_fail_def Let_def locked_at_def)

lemma count_later:
  "uk_fails s user = Some (k, Some t) \<Longrightarrow> uk_now s + d < t \<Longrightarrow> fail_count (after_pause s d) user = (k, Some t)"
  by (simp add: fail_count_def after_pause_def)

lemma no_count_later: "fail_count s user = (0, None) \<Longrightarrow> 0 \<le> d \<Longrightarrow> fst (fail_count (after_pause s d) user) = 0"
  by (auto simp: fail_count_def after_pause_def split: option.splits prod.splits if_splits)

lemma after_pause_simps [simp]:
  "uk_now (after_pause s d) = uk_now s + d" "uk_down (after_pause s d) = uk_down s"
  "uk_fails (after_pause s d) = uk_fails s"
  by (simp_all add: after_pause_def)

lemma is_locked_fails [simp]: "is_locked (s\<lparr>uk_fails := f\<rparr>) user = is_locked s user"
  by (auto simp: is_locked_def lockedUntil_def split: option.split)

lemma guesses_lock:
  assumes "ac_Required st" "au_TwoFactor u" "jti \<noteq> []"
  shows "\<lbrakk>uk_fails s (au_ID u) = Some (k, Some t); 1 \<le> k; k + int (length ds) = ac_MaxAttempts st; ds \<noteq> [];
    \<forall>d\<in>set ds. 0 \<le> d; uk_now s + sum_list ds < t; \<not> uk_down s; \<not> is_locked s (au_ID u)\<rbrakk> \<Longrightarrow>
    locked_at st (fst (unlock_run (guesses st u jti sx ds) (s, gs))) (au_ID u)"
proof (induction ds arbitrary: s k)
  case (Cons d ds)
  have d: "0 \<le> d" "0 \<le> sum_list ds" using Cons.prems(5) by (auto intro: sum_list_nonneg)
  note run = guess_run [OF assms Cons.prems(8) d(1)]
  have count: "fail_count (after_pause s d) (au_ID u) = (k, Some t)"
    by (rule count_later [OF Cons.prems(1)]) (use Cons.prems(6) d in simp)
  have free: "\<not> is_locked (after_pause s d) (au_ID u)" by (rule not_locked_later [OF Cons.prems(8) d(1)])
  show ?case
  proof (cases ds)
    case Nil
    then show ?thesis unfolding run using last_fail [OF _ count, of st] Cons.prems(3,7) by (simp add: guesses_def)
  next
    case (Cons d2 ds2)
    have more: "k + 1 < ac_MaxAttempts st" using Cons.prems(3) Cons by simp
    have next_state: "fst (unlock_fail (after_pause s d) (au_ID u) st) =
        (after_pause s d)\<lparr>uk_fails := (uk_fails s)(au_ID u := Some (k + 1, Some t))\<rparr>"
      using counted_fail [OF _ count more] Cons.prems(2,7) by simp
    show ?thesis unfolding run next_state
      by (rule Cons.IH [where k = "k + 1"]) (use Cons.prems Cons free in \<open>simp_all add: algebra_simps\<close>)
  qed
qed simp

lemma locked_at_is_locked:
  assumes "locked_at st s user" "second \<le> ac_Lockout st"
  shows "is_locked s user \<and> (\<exists>t. lockedUntil s user = Some t \<and> uk_now s + ac_Lockout st - second < t)"
proof -
  let ?e = "uk_now s + ac_Lockout st"
  have "?e - second < ?e div second * second" by (simp add: second_def)
  moreover have "uk_now s < ?e" using assms(2) by (simp add: second_def)
  moreover have "lockedUntil s user = Some (?e div second * second)"
    using assms calculation by (simp add: locked_at_def lockedUntil_def)
  ultimately show ?thesis using assms(2) by (auto simp: is_locked_def)
qed

text \<open>
  Wrong codes lead to a lockout. Whatever happened before, an admin with no count of wrong codes running who is
  not locked out, and who gets as many codes wrong as the settings allow within the lockout's length of the first, is
  locked out by the last of them, for the lockout's length up to a second.
\<close>

theorem wrong_codes_lock_out:
  assumes "ac_Required st" "au_TwoFactor u" "jti \<noteq> []"
    and start: "\<not> uk_down s" "\<not> is_locked s (au_ID u)" "fail_count s (au_ID u) = (0, None)"
    and ds: "int (length (d # ds)) = ac_MaxAttempts st" "\<forall>x\<in>set (d # ds). 0 \<le> x" "sum_list ds < ac_Lockout st"
    and lockout: "second \<le> ac_Lockout st"
  shows "is_locked (fst (unlock_run (guesses st u jti sx (d # ds)) (s, gs))) (au_ID u) \<and>
    (\<exists>t. lockedUntil (fst (unlock_run (guesses st u jti sx (d # ds)) (s, gs))) (au_ID u) = Some t \<and>
       uk_now (fst (unlock_run (guesses st u jti sx (d # ds)) (s, gs))) + ac_Lockout st - second < t)"
proof (rule locked_at_is_locked [OF _ lockout])
  have d: "0 \<le> d" using ds(2) by simp
  note run = guess_run [OF assms(1-3) start(2) d]
  obtain e where count: "fail_count (after_pause s d) (au_ID u) = (0, e)"
    using no_count_later [OF start(3) d] by (cases "fail_count (after_pause s d) (au_ID u)") simp
  show "locked_at st (fst (unlock_run (guesses st u jti sx (d # ds)) (s, gs))) (au_ID u)"
  proof (cases ds)
    case Nil
    then show ?thesis unfolding run using last_fail [OF _ count, of st] ds(1) start(1) by (simp add: guesses_def)
  next
    case (Cons d2 ds2)
    have next_state: "fst (unlock_fail (after_pause s d) (au_ID u) st) =
        (after_pause s d)\<lparr>uk_fails := (uk_fails s)(au_ID u := Some (1, Some (uk_now s + d + ac_Lockout st)))\<rparr>"
      using counted_fail [OF _ count, of st] start(1) ds(1) Cons by simp
    have within: "uk_now s + d + sum_list ds < uk_now s + d + ac_Lockout st" using ds(3) by simp
    show ?thesis unfolding run next_state
      by (rule guesses_lock [OF assms(1-3), where k = 1 and t = "uk_now s + d + ac_Lockout st"])
        (use ds(1,2) within Cons start not_locked_later [OF start(2) d] in simp_all)
  qed
qed

section \<open>The allowlist\<close>

lemma mapped_prefix:
  assumes "drop_bit 32 n = 0xFFFF" "px_Addr p = V6 n z" "px_Bits p = 128"
  shows "\<not> prefix_Contains p (Unmap a)"
  using assms by (cases a) (auto simp: prefix_Contains_def Unmap_def)

text \<open>
  An address written as an IPv4-mapped one admits nobody: the client's address is unmapped before it is compared, the
  entry is not. An allowlist of such entries closes the console to the very addresses it names.
\<close>
theorem mapped_entry_admits_nobody:
  assumes "ac_AllowedIPs st = [\<lparr>px_Addr = V6 n z, px_Bits = 128\<rparr>]" "drop_bit 32 n = 0xFFFF"
  shows "\<not> IPAllowed lib st ip"
  using assms mapped_prefix [OF assms(2), of "\<lparr>px_Addr = V6 n z, px_Bits = 128\<rparr>"]
  by (auto simp: IPAllowed_def split: option.split)

theorem mapped_entry_admits_nobody_witness:
  "\<not> IPAllowed \<lparr>al_ParseDuration = (\<lambda>_. None),
       al_ParseAddr = (\<lambda>s. if s = ''::ffff:10.0.0.1'' then Some (V6 0xFFFF0A000001 []) else None), al_ParsePrefix = (\<lambda>_. None)\<rparr>
     (DefaultAdminAccess\<lparr>ac_AllowedIPs := [\<lparr>px_Addr = V6 0xFFFF0A000001 [], px_Bits = 128\<rparr>]\<rparr>) ''::ffff:10.0.0.1''"
  by (rule mapped_entry_admits_nobody [of _ "0xFFFF0A000001" "[]"]) (simp, code_simp)

section \<open>At concrete inputs\<close>

definition ann :: AdminUser where
  "ann = \<lparr>au_ID = 7, au_Admin = True, au_TwoFactor = True\<rparr>"

definition ann_request :: AdminRequest where
  "ann_request = \<lparr>rq_UserID = 7, rq_APIKey = False, rq_Ephemeral = False, rq_KeyAppID = 0, rq_KeyWorkspaceID = None,
     rq_Scopes = [], rq_JTI = ''j1'', rq_IP = ''10.0.0.9'', rq_Header = ''tok1'', rq_Cookie = None\<rparr>"

definition hash0 :: "string \<Rightarrow> string" where
  "hash0 t = CHR ''#'' # t"

definition unlocked_at :: "Unlocks \<times> Grant list" where
  "unlocked_at = unlock_run [Pass 5, Attempt DefaultAdminAccess ann ''j1'' None True (Some ''tok1''), Pass minute]
     (fresh_store 0 hash0, [])"

definition gate_passed :: "gate_error + UnlockRecord option" where
  "gate_passed = snd (RequireSystemAdmin nolib DefaultAdminAccess [ann] (fst unlocked_at) ann_request)"

lemma gate_passed_ok: "\<not> isl gate_passed"
  by code_simp

theorem console_needs_second_factor_witness:
  "\<exists>g\<in>set (snd unlocked_at). gr_User g = 7 \<and> gr_Right g \<and> uk_now (fst unlocked_at) < gr_At g + gr_TTL g"
proof -
  obtain r where r: "gate_passed = Inr r" using gate_passed_ok by (metis isl_def old.sum.exhaust)
  have pass: "RequireSystemAdmin nolib DefaultAdminAccess [ann] (fst unlocked_at) ann_request =
      (fst (RequireSystemAdmin nolib DefaultAdminAccess [ann] (fst unlocked_at) ann_request), Inr r)"
    using r unfolding gate_passed_def by (simp add: prod_eq_iff)
  have run: "unlock_run [Pass 5, Attempt DefaultAdminAccess ann ''j1'' None True (Some ''tok1''), Pass minute]
      (fresh_store 0 hash0, []) = (fst unlocked_at, snd unlocked_at)" by (simp add: unlocked_at_def)
  show ?thesis using console_needs_second_factor [OF run pass]
    by (auto simp: ann_request_def DefaultAdminAccess_def)
qed


text \<open>Five wrong codes a minute apart, then four minutes later the right one.\<close>

definition five_wrong :: Unlocks where
  "five_wrong = fst (unlock_run (guesses DefaultAdminAccess ann ''j1'' None [minute, minute, minute, minute, minute]) (fresh_store 0 hash0, []))"

theorem wrong_codes_lock_out_witness: "is_locked five_wrong 7"
proof -
  have "is_locked (fst (unlock_run (guesses DefaultAdminAccess ann ''j1'' None [minute, minute, minute, minute, minute])
      (fresh_store 0 hash0, []))) (au_ID ann)"
    by (rule wrong_codes_lock_out [THEN conjunct1])
      (simp_all add: DefaultAdminAccess_def ann_def fresh_store_def is_locked_def lockedUntil_def fail_count_def minute_def second_def)
  then show ?thesis by (simp add: five_wrong_def ann_def)
qed

definition right_too_late :: "unlock_event list" where
  "right_too_late = [Pass (4 * minute), Attempt DefaultAdminAccess ann ''j1'' None True (Some ''tok2'')]"

lemma five_wrong_run:
  "unlock_run (guesses DefaultAdminAccess ann ''j1'' None [minute, minute, minute, minute, minute]) (fresh_store 0 hash0, []) = (five_wrong, [])"
proof -
  have "snd (unlock_run (guesses DefaultAdminAccess ann ''j1'' None [minute, minute, minute, minute, minute]) (fresh_store 0 hash0, [])) = []"
    by code_simp
  then show ?thesis by (simp add: five_wrong_def prod_eq_iff)
qed

lemma five_wrong_until:
  "lockedUntil five_wrong 7 = Some (20 * minute)"
  "uk_now (fst (unlock_run right_too_late (five_wrong, []))) < 20 * minute"
  by code_simp+


section \<open>Interleaved requests\<close>

text \<open>
  A use of an unlock reads its record and writes it back. A request that ends the unlock in between is undone: the
  record is written back, and the token opens the console again.
\<close>
theorem ended_unlock_written_back:
  "\<exists>r s1. unlock_load DefaultAdminAccess (fst unlocked_at) 7 ''j1'' ''tok1'' = (s1, Inr r) \<and>
     get_record (Revoke s1 ''tok1'') ''tok1'' = None \<and>
     \<not> isl (snd (Check DefaultAdminAccess (fst (check_finish (Revoke s1 ''tok1'') ''tok1'' r)) 7 ''j1'' ''tok1''))"
proof -
  let ?l = "unlock_load DefaultAdminAccess (fst unlocked_at) 7 ''j1'' ''tok1''"
  have "\<not> isl (snd ?l)" "get_record (Revoke (fst ?l) ''tok1'') ''tok1'' = None"
    "\<not> isl (snd (Check DefaultAdminAccess (fst (check_finish (Revoke (fst ?l) ''tok1'') ''tok1'' (projr (snd ?l)))) 7 ''j1'' ''tok1''))"
    by code_simp+
  then show ?thesis by (metis prod.collapse sum.collapse(2))
qed

text \<open>
  Attempts that pass the lockout check before a lockout begins are not stopped by it. Five wrong codes lock the
  account; the right code of an attempt that was under way by then still opens the console.
\<close>
theorem attempt_under_way_beats_lockout:
  "elevate_check DefaultAdminAccess (fresh_store 0 hash0) ann ''j1'' = None \<and> is_locked five_wrong 7 \<and>
     \<not> isl (snd (elevate_finish DefaultAdminAccess five_wrong ann ''j1'' None True (Some ''tok2'')))"
proof -
  have "elevate_check DefaultAdminAccess (fresh_store 0 hash0) ann ''j1'' = None" "is_locked five_wrong 7"
    "\<not> isl (snd (elevate_finish DefaultAdminAccess five_wrong ann ''j1'' None True (Some ''tok2'')))"
    by code_simp+
  then show ?thesis by simp
qed

text \<open>
  The policy table decides whether an unlock is asked for at all, and a table that cannot be read decides nothing: with
  the Enterprise rule alone, an admin's session reaches the console without a second factor, from any address, for as
  long as the table is unreadable.
\<close>

definition unlock_rule :: SecurityPolicy where
  "unlock_rule = \<lparr>sp_ID = 1, sp_Kind = KindAdminAccess, sp_ScopeType = ScopePlatform, sp_ScopeID = 0, sp_Mode = ModeEnforce,
     sp_AllowExceptions = False, sp_Spec = \<lparr>sd_ports = None, sd_admin = Some two_minutes\<rparr>, sp_Version = 1,
     sp_UpdatedBy = None, sp_UpdatedAt = 10\<rparr>"

definition unlock_security :: "bool \<Rightarrow> Security" where
  "unlock_security down = (security_at range8000)\<lparr>se_rows := [unlock_rule], se_readDown := down\<rparr>"

definition reached :: "bool \<Rightarrow> gate_error + UnlockRecord option" where
  "reached down = snd (RequireSystemAdmin nolib (Settings (AdminAccessPolicy (unlock_security down)) False) [ann]
     (fresh_store 0 hash0) ann_request)"

theorem unreadable_policy_opens_console:
  "reached False = Inl (Refused IPNotAllowed) \<and> reached True = Inr None"
proof
  show "reached False = Inl (Refused IPNotAllowed)" by code_simp
  show "reached True = Inr None" by code_simp
qed

end
