(* ===== verification/Host_Ports.thy ===== *)
theory Host_Ports
  imports Security_Policy "HOL-Library.AList"
begin

text \<open>
  Host ports: \<^verbatim>\<open>internal/services/portbinding\<close> (requests, review, the search for a free port, the admin overview),
  the table of \<^verbatim>\<open>internal/storage/repositories/port_repo.go\<close>, what a deploy publishes of it
  (\<^verbatim>\<open>internal/worker/deploy.go\<close>) and the ports adopted with an imported container
  (\<^verbatim>\<open>internal/services/dockerimport/dockerimport.go\<close>).

  A \<open>PortWorld\<close> is the binding table with the rows of apps it refers to, the containers the nodes' engines list and the
  security policies. Each operation of the service is a function on it; an approval, which other requests can come
  between, is split into its check and its write.
\<close>

section \<open>Bindings\<close>

abbreviation PortBindingPending :: string where "PortBindingPending \<equiv> ''pending''"
abbreviation PortBindingApproved :: string where "PortBindingApproved \<equiv> ''approved''"
abbreviation PortBindingRejected :: string where "PortBindingRejected \<equiv> ''rejected''"

record PortBinding =
  pb_ID :: nat
  pb_WorkspaceID :: nat
  pb_ApplicationID :: nat
  pb_ContainerPort :: int
  pb_Protocol :: string
  pb_HostPort :: int
  pb_Status :: string
  pb_ServerID :: nat
  pb_RequestedBy :: nat
  pb_ReviewedBy :: "nat option"
  pb_ReviewNote :: string
  pb_AdminAdopted :: bool
  pb_UpdatedAt :: int

record AppRow =
  ar_ID :: nat
  ar_WorkspaceID :: nat
  ar_ServerID :: nat
  ar_Released :: bool
  ar_RedeployRequired :: bool

record AppPort =
  pt_ApplicationID :: nat
  pt_ContainerPort :: int
  pt_Protocol :: string

record Container =
  ct_ID :: string
  ct_Names :: "string list"
  ct_Workspace :: string
  ct_Ports :: "(int \<times> string) list"

text \<open>
  \<open>pw_live\<close> is \<open>None\<close> for a node whose engine cannot be asked; \<open>pw_readDown\<close> and \<open>pw_writeDown\<close> tell whether the port
  tables can be read and written.
\<close>

record PortWorld =
  pw_rows :: "PortBinding list"
  pw_next :: nat
  pw_apps :: "AppRow list"
  pw_ports :: "AppPort list"
  pw_privileged :: "nat list"
  pw_live :: "nat \<Rightarrow> Container list option"
  pw_security :: Security
  pw_readDown :: bool
  pw_writeDown :: bool
  pw_now :: int

record PortWindow =
  win_min :: int
  win_max :: int

datatype port_error = AppRequired | PortNotExposed | HostPortRange int int | HostPortTaken string | NoFreeHostPort
  | PortNotPending | PortNotFound | PolicyDenied | PortStorage

definition normProto :: "string \<Rightarrow> string" where
  "normProto p = (if p = ''udp'' then ''udp'' else ''tcp'')"

definition portKey :: "int \<Rightarrow> string \<Rightarrow> string" where
  "portKey hostPort proto = Itoa hostPort @ ''/'' @ normProto proto"

text \<open>The leading integer of a string without leading blanks, as \<open>Sscanf\<close> with \<open>%d\<close> reads it.\<close>

definition scan_int :: "string \<Rightarrow> int option" where
  "scan_int s =
     (let (neg, d) = (case s of [] \<Rightarrow> (False, []) | c # cs \<Rightarrow>
            if c = CHR ''-'' then (True, cs) else if c = CHR ''+'' then (False, cs) else (False, s));
          ds = takeWhile is_digit d
      in if ds = [] then None else Some (if neg then - digits_val ds else digits_val ds))"

definition parsePortKey :: "string \<Rightarrow> int \<times> string" where
  "parsePortKey key =
     (let (port, proto, found) = CutChar key (CHR ''/'') in
      if \<not> found then (0, ''tcp'')
      else case scan_int port of None \<Rightarrow> (0, normProto proto) | Some n \<Rightarrow> (n, normProto proto))"

definition containerName :: "Container \<Rightarrow> string" where
  "containerName c =
     (case ct_Names c of
        n # _ \<Rightarrow> TrimPrefix n ''/''
      | [] \<Rightarrow> if ct_ID c \<noteq> [] then take 12 (ct_ID c) else ''another container'')"

text \<open>Later ports win, as in the Go map.\<close>

definition publishedPorts :: "Container list \<Rightarrow> (string \<times> string) list" where
  "publishedPorts cs =
     rev (concat (map (\<lambda>c. map (\<lambda>(p, proto). (portKey p (normProto proto), containerName c))
                            (filter (\<lambda>(p, _). p \<noteq> 0) (ct_Ports c))) cs))"

definition livePublishedPorts :: "PortWorld \<Rightarrow> nat \<Rightarrow> (string \<times> string) list" where
  "livePublishedPorts w n = (case pw_live w n of None \<Rightarrow> [] | Some cs \<Rightarrow> publishedPorts cs)"

definition nodeContainers :: "PortWorld \<Rightarrow> nat \<Rightarrow> Container list" where
  "nodeContainers w n = (case pw_live w n of None \<Rightarrow> [] | Some cs \<Rightarrow> cs)"

definition claims :: "nat \<Rightarrow> int \<Rightarrow> string \<Rightarrow> PortBinding \<Rightarrow> bool" where
  "claims server hostPort proto b \<longleftrightarrow>
     pb_ServerID b = server \<and> pb_HostPort b = hostPort \<and> pb_Protocol b = proto \<and> pb_Status b = PortBindingApproved"

text \<open>\<open>None\<close> when the table cannot be read.\<close>

definition HostPortInUse :: "PortWorld \<Rightarrow> nat \<Rightarrow> int \<Rightarrow> string \<Rightarrow> nat \<Rightarrow> bool option" where
  "HostPortInUse w server hostPort proto excludeID =
     (if pw_readDown w then None
      else Some (list_ex (\<lambda>b. claims server hostPort proto b \<and> \<not> (0 < excludeID \<and> pb_ID b = excludeID)) (pw_rows w)))"

section \<open>The search for a free port\<close>

definition port_free :: "PortWorld \<Rightarrow> nat \<Rightarrow> string \<Rightarrow> int \<Rightarrow> bool option" where
  "port_free w server proto p =
     (if map_of (livePublishedPorts w server) (portKey p proto) \<noteq> None then Some False
      else map_option Not (HostPortInUse w server p proto 0))"

text \<open>A scan from \<open>p\<close> up to \<open>hi\<close>: an error, the first free port, or nothing.\<close>

function scan_ports :: "(int \<Rightarrow> bool option) \<Rightarrow> int \<Rightarrow> int \<Rightarrow> port_error + int option" where
  "scan_ports free p hi =
     (if hi < p then Inr None
      else case free p of None \<Rightarrow> Inl PortStorage
           | Some ok \<Rightarrow> if ok then Inr (Some p) else scan_ports free (p + 1) hi)"
  by auto
termination by (relation "measure (\<lambda>(free, p, hi). nat (hi - p + 1))") auto

definition FindFreeHostPort :: "PortWindow \<Rightarrow> PortWorld \<Rightarrow> nat \<Rightarrow> string \<Rightarrow> int \<Rightarrow> port_error + int" where
  "FindFreeHostPort win w server proto0 preferred =
     (let proto = normProto proto0; free = port_free w server proto;
          start = (if preferred < win_min win \<or> preferred > win_max win then win_min win else preferred) in
      case scan_ports free start (win_max win) of
        Inl e \<Rightarrow> Inl e
      | Inr (Some p) \<Rightarrow> Inr p
      | Inr None \<Rightarrow>
          (case scan_ports free (win_min win) (start - 1) of
             Inl e \<Rightarrow> Inl e
           | Inr (Some p) \<Rightarrow> Inr p
           | Inr None \<Rightarrow> Inr 0))"

definition hostPortAllowed :: "int \<Rightarrow> int \<Rightarrow> int \<Rightarrow> bool \<Rightarrow> bool" where
  "hostPortAllowed port minPort maxPort privileged =
     (if port < 1 \<or> port > maxPortNumber then False
      else if privileged then True
      else minPort \<le> port \<and> port \<le> maxPort)"

definition resolveHostPort :: "PortWindow \<Rightarrow> PortWorld \<Rightarrow> nat \<Rightarrow> int \<Rightarrow> string \<Rightarrow> bool \<Rightarrow> port_error + int" where
  "resolveHostPort win w server want proto privileged =
     (if want = 0
      then (case FindFreeHostPort win w server proto 0 of
              Inl e \<Rightarrow> Inl e
            | Inr free \<Rightarrow> if free = 0 then Inl NoFreeHostPort else Inr free)
      else if \<not> hostPortAllowed want (win_min win) (win_max win) privileged
      then Inl (if privileged then HostPortRange 1 maxPortNumber else HostPortRange (win_min win) (win_max win))
      else Inr want)"

section \<open>Requests and reviews\<close>

text \<open>Whether the port is taken, and by whom.\<close>

definition hostPortConflict :: "PortWorld \<Rightarrow> nat \<Rightarrow> int \<Rightarrow> string \<Rightarrow> nat \<Rightarrow> port_error + string option" where
  "hostPortConflict w server hostPort proto excludeID =
     (case HostPortInUse w server hostPort proto excludeID of
        None \<Rightarrow> Inl PortStorage
      | Some True \<Rightarrow> Inr (Some ''an approved binding'')
      | Some False \<Rightarrow> Inr (map_of (livePublishedPorts w server) (portKey hostPort proto)))"

definition tenantOwner :: "Container list \<Rightarrow> string \<Rightarrow> nat \<Rightarrow> string" where
  "tenantOwner cs owner ws =
     (if list_ex (\<lambda>c. containerName c = owner \<and> ct_Workspace c = nat_digits ws) cs then owner
      else ''another workload on the node'')"

definition tenantPortConflict :: "PortWorld \<Rightarrow> nat \<Rightarrow> nat \<Rightarrow> int \<Rightarrow> string \<Rightarrow> port_error + string option" where
  "tenantPortConflict w ws server hostPort proto =
     (case hostPortConflict w server hostPort proto 0 of
        Inl e \<Rightarrow> Inl e
      | Inr None \<Rightarrow> Inr None
      | Inr (Some owner) \<Rightarrow> Inr (Some (tenantOwner (nodeContainers w server) owner ws)))"

record RequestInput =
  ri_ApplicationID :: nat
  ri_ContainerPort :: int
  ri_Protocol :: string
  ri_HostPort :: int

definition exposes :: "PortWorld \<Rightarrow> nat \<Rightarrow> int \<Rightarrow> string \<Rightarrow> bool" where
  "exposes w app containerPort proto =
     list_ex (\<lambda>p. pt_ApplicationID p = app \<and> pt_ContainerPort p = containerPort \<and> normProto (pt_Protocol p) = proto)
       (pw_ports w)"

definition isPrivileged :: "PortWorld \<Rightarrow> nat \<Rightarrow> bool" where
  "isPrivileged w ws \<longleftrightarrow> ws \<in> set (pw_privileged w)"

definition newPendingBinding :: "PortWindow \<Rightarrow> PortWorld \<Rightarrow> nat \<Rightarrow> nat \<Rightarrow> RequestInput \<Rightarrow> bool \<Rightarrow> port_error + PortBinding" where
  "newPendingBinding win w ws user inp privileged =
     (case find (\<lambda>a. ar_ID a = ri_ApplicationID inp \<and> ar_WorkspaceID a = ws) (pw_apps w) of
        None \<Rightarrow> Inl AppRequired
      | Some a \<Rightarrow>
          let proto = normProto (ri_Protocol inp) in
          if pw_readDown w then Inl PortStorage
          else if \<not> exposes w (ar_ID a) (ri_ContainerPort inp) proto then Inl PortNotExposed
          else case resolveHostPort win w (ar_ServerID a) (ri_HostPort inp) proto privileged of
                 Inl e \<Rightarrow> Inl e
               | Inr hostPort \<Rightarrow>
                   Inr \<lparr>pb_ID = 0, pb_WorkspaceID = ws, pb_ApplicationID = ar_ID a, pb_ContainerPort = ri_ContainerPort inp,
                     pb_Protocol = proto, pb_HostPort = hostPort, pb_Status = PortBindingPending,
                     pb_ServerID = ar_ServerID a, pb_RequestedBy = user, pb_ReviewedBy = None, pb_ReviewNote = [],
                     pb_AdminAdopted = False, pb_UpdatedAt = 0\<rparr>)"

definition autoApprove :: "PortBinding \<Rightarrow> nat \<Rightarrow> string \<Rightarrow> PortBinding" where
  "autoApprove b reviewer note = b\<lparr>pb_Status := PortBindingApproved, pb_ReviewedBy := Some reviewer, pb_ReviewNote := note\<rparr>"

definition repo_Create :: "PortWorld \<Rightarrow> PortBinding \<Rightarrow> port_error + PortWorld \<times> PortBinding" where
  "repo_Create w b =
     (if pw_writeDown w then Inl PortStorage
      else let b = b\<lparr>pb_ID := pw_next w, pb_UpdatedAt := pw_now w\<rparr>
           in Inr (w\<lparr>pw_rows := pw_rows w @ [b], pw_next := pw_next w + 1\<rparr>, b))"

text \<open>\<^verbatim>\<open>Save\<close> writes the whole row, and inserts it again when it is no longer there.\<close>

definition repo_Save :: "PortWorld \<Rightarrow> PortBinding \<Rightarrow> port_error + PortWorld" where
  "repo_Save w b =
     (if pw_writeDown w then Inl PortStorage
      else let b = b\<lparr>pb_UpdatedAt := pw_now w\<rparr>
           in Inr (w\<lparr>pw_rows := (if list_ex (\<lambda>x. pb_ID x = pb_ID b) (pw_rows w)
                                then map (\<lambda>x. if pb_ID x = pb_ID b then b else x) (pw_rows w)
                                else pw_rows w @ [b])\<rparr>))"

definition markAppRedeploy :: "PortWorld \<Rightarrow> nat \<Rightarrow> PortWorld" where
  "markAppRedeploy w app =
     w\<lparr>pw_apps := map (\<lambda>a. if ar_ID a = app \<and> ar_Released a then a\<lparr>ar_RedeployRequired := True\<rparr> else a) (pw_apps w)\<rparr>"

definition decide :: "PortWorld \<Rightarrow> PortBinding \<Rightarrow> bool \<Rightarrow> PortDecision" where
  "decide w b privileged = CheckPortRequest (pw_security w) (pb_WorkspaceID b) (pb_HostPort b) (pb_Protocol b) privileged"

definition Request :: "PortWindow \<Rightarrow> PortWorld \<Rightarrow> nat \<Rightarrow> nat \<Rightarrow> RequestInput \<Rightarrow> port_error + PortWorld \<times> PortBinding" where
  "Request win w ws user inp =
     (let privileged = isPrivileged w ws in
      case newPendingBinding win w ws user inp privileged of Inl e \<Rightarrow> Inl e
      | Inr b \<Rightarrow>
          let d = decide w b privileged in
          if \<not> pd_Allowed d then Inl PolicyDenied
          else case (if pd_AutoApprove d
                     then (case tenantPortConflict w ws (pb_ServerID b) (pb_HostPort b) (pb_Protocol b) of
                             Inl e \<Rightarrow> Inl e
                           | Inr (Some owner) \<Rightarrow> Inl (HostPortTaken owner)
                           | Inr None \<Rightarrow> Inr (autoApprove b user (pd_Note d)))
                     else Inr b) of
                 Inl e \<Rightarrow> Inl e
               | Inr b \<Rightarrow>
                   (case repo_Create w b of Inl e \<Rightarrow> Inl e
                    | Inr (w', b') \<Rightarrow>
                        Inr (if pb_Status b' = PortBindingApproved then markAppRedeploy w' (pb_ApplicationID b') else w', b')))"

definition em_dash :: string where "em_dash = [CHR 0xE2, CHR 0x80, CHR 0x94]"

definition conflict_note :: "PortBinding \<Rightarrow> string \<Rightarrow> string" where
  "conflict_note b owner = ''host port '' @ Itoa (pb_HostPort b) @ ''/'' @ pb_Protocol b @
     '' already in use on the node by '' @ owner @ '' '' @ em_dash @ '' remap or have an admin review''"

definition RequestImport :: "PortWindow \<Rightarrow> PortWorld \<Rightarrow> nat \<Rightarrow> nat \<Rightarrow> RequestInput \<Rightarrow>
    port_error + PortWorld \<times> PortBinding \<times> string" where
  "RequestImport win w ws user inp =
     (let privileged = isPrivileged w ws in
      case newPendingBinding win w ws user inp privileged of Inl e \<Rightarrow> Inl e
      | Inr b \<Rightarrow>
          let d = decide w b privileged in
          if \<not> pd_Allowed d then Inl PolicyDenied
          else case tenantPortConflict w ws (pb_ServerID b) (pb_HostPort b) (pb_Protocol b) of
                 Inl e \<Rightarrow> Inl e
               | Inr conflict \<Rightarrow>
                   let b = (case conflict of
                              Some owner \<Rightarrow> b\<lparr>pb_ReviewNote := conflict_note b owner\<rparr>
                            | None \<Rightarrow> if pd_AutoApprove d then autoApprove b user (pd_Note d) else b) in
                   (case repo_Create w b of Inl e \<Rightarrow> Inl e
                    | Inr (w', b') \<Rightarrow> Inr (w', b', (case conflict of Some owner \<Rightarrow> owner | None \<Rightarrow> []))))"

definition SuggestHostPort :: "PortWindow \<Rightarrow> PortWorld \<Rightarrow> nat \<Rightarrow> nat \<Rightarrow> string \<Rightarrow> int \<Rightarrow> port_error + int" where
  "SuggestHostPort win w ws app proto preferred =
     (case find (\<lambda>a. ar_ID a = app \<and> ar_WorkspaceID a = ws) (pw_apps w) of
        None \<Rightarrow> Inl AppRequired
      | Some a \<Rightarrow> FindFreeHostPort win w (ar_ServerID a) proto preferred)"

definition binding_FindByID :: "PortWorld \<Rightarrow> nat \<Rightarrow> PortBinding option" where
  "binding_FindByID w i = (if pw_readDown w then None else find (\<lambda>b. pb_ID b = i) (pw_rows w))"

text \<open>The part of \<^verbatim>\<open>Approve\<close> before its write: the row as it was read, if it may be approved.\<close>

definition approve_check :: "PortWorld \<Rightarrow> nat \<Rightarrow> port_error + PortBinding" where
  "approve_check w i =
     (case binding_FindByID w i of None \<Rightarrow> Inl PortNotFound
      | Some b \<Rightarrow>
          if pb_Status b \<noteq> PortBindingPending then Inl PortNotPending
          else case hostPortConflict w (pb_ServerID b) (pb_HostPort b) (pb_Protocol b) (pb_ID b) of
                 Inl e \<Rightarrow> Inl e
               | Inr (Some owner) \<Rightarrow> Inl (HostPortTaken owner)
               | Inr None \<Rightarrow> Inr b)"

definition approve_write :: "PortWorld \<Rightarrow> PortBinding \<Rightarrow> nat \<Rightarrow> string \<Rightarrow> port_error + PortWorld" where
  "approve_write w b reviewer note =
     (case repo_Save w (b\<lparr>pb_Status := PortBindingApproved, pb_ReviewedBy := Some reviewer, pb_ReviewNote := note\<rparr>) of
        Inl e \<Rightarrow> Inl e
      | Inr w' \<Rightarrow> Inr (markAppRedeploy w' (pb_ApplicationID b)))"

definition Approve :: "PortWorld \<Rightarrow> nat \<Rightarrow> nat \<Rightarrow> string \<Rightarrow> port_error + PortWorld" where
  "Approve w i reviewer note =
     (case approve_check w i of Inl e \<Rightarrow> Inl e | Inr b \<Rightarrow> approve_write w b reviewer note)"

definition Reject :: "PortWorld \<Rightarrow> nat \<Rightarrow> nat \<Rightarrow> string \<Rightarrow> port_error + PortWorld" where
  "Reject w i reviewer note =
     (case binding_FindByID w i of None \<Rightarrow> Inl PortNotFound
      | Some b \<Rightarrow>
          if pb_Status b \<noteq> PortBindingPending then Inl PortNotPending
          else repo_Save w (b\<lparr>pb_Status := PortBindingRejected, pb_ReviewedBy := Some reviewer, pb_ReviewNote := note\<rparr>))"

definition Cancel :: "PortWorld \<Rightarrow> nat \<Rightarrow> nat \<Rightarrow> port_error + PortWorld" where
  "Cancel w ws i =
     (if pw_readDown w then Inl PortNotFound
      else case find (\<lambda>b. pb_ID b = i \<and> pb_WorkspaceID b = ws) (pw_rows w) of
             None \<Rightarrow> Inl PortNotFound
           | Some b \<Rightarrow> if pw_writeDown w then Inl PortStorage
                       else Inr (w\<lparr>pw_rows := filter (\<lambda>x. pb_ID x \<noteq> pb_ID b) (pw_rows w)\<rparr>))"

text \<open>The bindings revoked before the first write that failed, if one did.\<close>

fun revoke_each :: "nat \<Rightarrow> PortBinding list \<Rightarrow> PortWorld \<Rightarrow> PortWorld \<times> PortBinding list \<times> bool" where
  "revoke_each reviewer [] w = (w, [], True)"
| "revoke_each reviewer (b # bs) w =
     (case repo_Save w (b\<lparr>pb_Status := PortBindingRejected, pb_ReviewedBy := Some reviewer,
                          pb_ReviewNote := ''Revoked by platform policy''\<rparr>) of
        Inl e \<Rightarrow> (w, [], False)
      | Inr w' \<Rightarrow> (let (w2, done_bs, fine) = revoke_each reviewer bs (markAppRedeploy w' (pb_ApplicationID b))
                   in (w2, b # done_bs, fine)))"

definition ListByStatus :: "PortWorld \<Rightarrow> string \<Rightarrow> PortBinding list" where
  "ListByStatus w st = filter (\<lambda>b. pb_Status b = st) (pw_rows w)"

definition RevokeApproved :: "PortWorld \<Rightarrow> nat \<Rightarrow> bool \<Rightarrow> PortWorld \<times> PortBinding list \<times> bool" where
  "RevokeApproved w reviewer dryRun =
     (if pw_readDown w then (w, [], False)
      else if dryRun then (w, ListByStatus w PortBindingApproved, True)
      else revoke_each reviewer (ListByStatus w PortBindingApproved) w)"

definition DeleteByApp :: "PortWorld \<Rightarrow> nat \<Rightarrow> PortWorld" where
  "DeleteByApp w app = (if pw_writeDown w then w else w\<lparr>pw_rows := filter (\<lambda>b. pb_ApplicationID b \<noteq> app) (pw_rows w)\<rparr>)"

section \<open>Adopted ports\<close>

text \<open>A port of an imported container: container port, protocol, host port.\<close>

type_synonym adopted_port = "int \<times> string \<times> int"

text \<open>Recorded as approved, on the node of the zero id.\<close>

definition adopted_binding :: "nat \<Rightarrow> nat \<Rightarrow> nat \<Rightarrow> adopted_port \<Rightarrow> PortBinding" where
  "adopted_binding ws app actor p =
     (let (cport, proto, hport) = p in
      \<lparr>pb_ID = 0, pb_WorkspaceID = ws, pb_ApplicationID = app, pb_ContainerPort = cport, pb_Protocol = proto,
        pb_HostPort = hport, pb_Status = PortBindingApproved, pb_ServerID = 0, pb_RequestedBy = actor,
        pb_ReviewedBy = Some actor, pb_ReviewNote = ''imported (already published)'', pb_AdminAdopted = True,
        pb_UpdatedAt = 0\<rparr>)"

fun adopt_ports :: "nat \<Rightarrow> nat \<Rightarrow> nat \<Rightarrow> adopted_port list \<Rightarrow> PortWorld \<Rightarrow> PortWorld" where
  "adopt_ports ws app actor [] w = w"
| "adopt_ports ws app actor (p # ps) w =
     (if snd (snd p) \<le> 0 then adopt_ports ws app actor ps w
      else adopt_ports ws app actor ps
             (case repo_Create w (adopted_binding ws app actor p) of Inl _ \<Rightarrow> w | Inr (w', _) \<Rightarrow> w'))"

section \<open>What a deploy publishes\<close>

definition publish_view :: "PortBinding \<Rightarrow> PublishView" where
  "publish_view b = \<lparr>pv_HostPort = pb_HostPort b, pv_Protocol = pb_Protocol b, pv_AdminAdopted = pb_AdminAdopted b,
     pv_UpdatedAt = pb_UpdatedAt b\<rparr>"

definition ListApprovedByApp :: "PortWorld \<Rightarrow> nat \<Rightarrow> PortBinding list option" where
  "ListApprovedByApp w app =
     (if pw_readDown w then None
      else Some (filter (\<lambda>b. pb_ApplicationID b = app \<and> pb_Status b = PortBindingApproved) (pw_rows w)))"

definition container_key :: "PortBinding \<Rightarrow> string" where
  "container_key b = Itoa (pb_ContainerPort b) @ ''/'' @ pb_Protocol b"

text \<open>The ports and addresses by container port, as the Go maps: a later binding of the same port replaces.\<close>

definition put :: "string \<Rightarrow> string \<Rightarrow> (string \<times> string) list \<Rightarrow> (string \<times> string) list" where
  "put k v m = (k, v) # filter (\<lambda>(k', _). k' \<noteq> k) m"

definition publish_one :: "PortWorld \<Rightarrow> AppRow \<Rightarrow> PortBinding \<Rightarrow> (string \<times> string) list \<times> (string \<times> string) list \<Rightarrow>
    (string \<times> string) list \<times> (string \<times> string) list" where
  "publish_one w a b m =
     (let (ports, ips) = m; d = CheckPortPublish (pw_security w) (ar_WorkspaceID a) (publish_view b) in
      if \<not> ud_Allowed d then m
      else (put (container_key b) (Itoa (pb_HostPort b)) ports,
            if ud_BindAddress d \<noteq> [] then put (container_key b) (ud_BindAddress d) ips else ips))"

definition published_ports :: "PortWorld \<Rightarrow> AppRow \<Rightarrow> bool \<Rightarrow> (string \<times> string) list \<times> (string \<times> string) list" where
  "published_ports w a canary =
     (if canary then ([], [])
      else case ListApprovedByApp w (ar_ID a) of None \<Rightarrow> ([], [])
           | Some bs \<Rightarrow> fold (publish_one w a) bs ([], []))"

definition effectiveStrategy :: "string \<Rightarrow> nat \<Rightarrow> string" where
  "effectiveStrategy requested published = (if requested = ''rolling'' \<and> published > 0 then ''recreate'' else requested)"

section \<open>The overview\<close>

record PortEntry =
  pe_HostPort :: int
  pe_Protocol :: string
  pe_State :: string
  pe_BindingID :: nat
  pe_WorkspaceID :: nat
  pe_ApplicationID :: nat
  pe_ContainerPort :: int
  pe_Container :: string
  pe_RequestedBy :: nat

definition live_owner :: "(string \<times> string) list \<Rightarrow> string \<Rightarrow> string" where
  "live_owner live key = (case map_of live key of Some o1 \<Rightarrow> o1 | None \<Rightarrow> [])"

definition binding_entry :: "(string \<times> string) list \<Rightarrow> bool \<Rightarrow> PortBinding \<Rightarrow> PortEntry" where
  "binding_entry live inspected b =
     (let key = portKey (pb_HostPort b) (pb_Protocol b); owner = live_owner live key in
      \<lparr>pe_HostPort = pb_HostPort b, pe_Protocol = normProto (pb_Protocol b),
        pe_State = (if pb_Status b = PortBindingPending then ''pending''
                    else if \<not> inspected then ''reserved''
                    else if owner \<noteq> [] then ''published'' else ''reserved''),
        pe_BindingID = pb_ID b, pe_WorkspaceID = pb_WorkspaceID b, pe_ApplicationID = pb_ApplicationID b,
        pe_ContainerPort = pb_ContainerPort b, pe_Container = owner, pe_RequestedBy = pb_RequestedBy b\<rparr>)"

definition unmanaged_entry :: "string \<times> string \<Rightarrow> PortEntry" where
  "unmanaged_entry kv =
     (let (port, proto) = parsePortKey (fst kv) in
      \<lparr>pe_HostPort = port, pe_Protocol = proto, pe_State = ''unmanaged'', pe_BindingID = 0, pe_WorkspaceID = 0,
        pe_ApplicationID = 0, pe_ContainerPort = 0, pe_Container = snd kv, pe_RequestedBy = 0\<rparr>)"

definition entry_less :: "PortEntry \<Rightarrow> PortEntry \<Rightarrow> bool" where
  "entry_less x y = (if pe_HostPort x \<noteq> pe_HostPort y then pe_HostPort x < pe_HostPort y
                     else CompareStr (pe_Protocol x) (pe_Protocol y) < 0)"

text \<open>\<open>live\<close> has one entry per key, the map's; \<open>None\<close> for a node that could not be asked.\<close>

definition live_map :: "Container list option \<Rightarrow> (string \<times> string) list" where
  "live_map cs = (case cs of None \<Rightarrow> [] | Some cs \<Rightarrow> AList.clearjunk (publishedPorts cs))"

definition reconcile :: "PortBinding list \<Rightarrow> Container list option \<Rightarrow> PortEntry list" where
  "reconcile bindings cs =
     (let live = live_map cs; inspected = (cs \<noteq> None);
          claimed = map (\<lambda>b. portKey (pb_HostPort b) (pb_Protocol b)) bindings in
      SliceStable entry_less
        (map (binding_entry live inspected) bindings @
         (if inspected then map unmanaged_entry (filter (\<lambda>kv. fst kv \<notin> set claimed) live) else [])))"

definition node_bindings :: "PortWorld \<Rightarrow> nat \<Rightarrow> PortBinding list" where
  "node_bindings w n =
     filter (\<lambda>b. (pb_Status b = PortBindingPending \<or> pb_Status b = PortBindingApproved) \<and> pb_ServerID b = n) (pw_rows w)"

text \<open>The columns: every known server, and every node a binding names; the local node when there is none.\<close>

definition node_ids :: "PortWorld \<Rightarrow> nat list \<Rightarrow> nat list" where
  "node_ids w servers =
     (let extra = filter (\<lambda>n. n \<notin> set servers) (remdups (map pb_ServerID
            (filter (\<lambda>b. pb_Status b = PortBindingPending \<or> pb_Status b = PortBindingApproved) (pw_rows w))));
          ids = servers @ extra in if ids = [] then [0] else sort ids)"

definition Overview :: "PortWorld \<Rightarrow> nat list \<Rightarrow> (nat \<times> bool \<times> PortEntry list) list option" where
  "Overview w servers =
     (if pw_readDown w then None
      else Some (map (\<lambda>n. (n, pw_live w n \<noteq> None, reconcile (node_bindings w n) (pw_live w n))) (node_ids w servers)))"

section \<open>Sequences of requests\<close>

datatype port_op =
    OpRequest nat nat RequestInput
  | OpImport nat nat RequestInput
  | OpApprove nat nat string
  | OpReject nat nat string
  | OpCancel nat nat
  | OpRevoke nat bool
  | OpDeleteApp nat

definition port_step :: "PortWindow \<Rightarrow> port_op \<Rightarrow> PortWorld \<Rightarrow> PortWorld" where
  "port_step win oper w =
     (case oper of
        OpRequest ws user inp \<Rightarrow> (case Request win w ws user inp of Inl _ \<Rightarrow> w | Inr (w', _) \<Rightarrow> w')
      | OpImport ws user inp \<Rightarrow> (case RequestImport win w ws user inp of Inl _ \<Rightarrow> w | Inr (w', _, _) \<Rightarrow> w')
      | OpApprove i reviewer note \<Rightarrow> (case Approve w i reviewer note of Inl _ \<Rightarrow> w | Inr w' \<Rightarrow> w')
      | OpReject i reviewer note \<Rightarrow> (case Reject w i reviewer note of Inl _ \<Rightarrow> w | Inr w' \<Rightarrow> w')
      | OpCancel ws i \<Rightarrow> (case Cancel w ws i of Inl _ \<Rightarrow> w | Inr w' \<Rightarrow> w')
      | OpRevoke reviewer dry \<Rightarrow> fst (RevokeApproved w reviewer dry)
      | OpDeleteApp app \<Rightarrow> DeleteByApp w app)"

definition port_run :: "PortWindow \<Rightarrow> port_op list \<Rightarrow> PortWorld \<Rightarrow> PortWorld" where
  "port_run win ops w = fold (port_step win) ops w"

definition claim_key :: "PortBinding \<Rightarrow> nat \<times> int \<times> string" where
  "claim_key b = (pb_ServerID b, pb_HostPort b, pb_Protocol b)"

abbreviation approved :: "PortBinding \<Rightarrow> bool" where
  "approved b \<equiv> pb_Status b = PortBindingApproved"

text \<open>Ids are distinct and below the next one; two approved bindings never claim the same port of a node.\<close>

definition unique_claims :: "PortBinding set \<Rightarrow> bool" where
  "unique_claims B \<longleftrightarrow> (\<forall>b\<in>B. \<forall>c\<in>B. approved b \<and> approved c \<and> claim_key b = claim_key c \<longrightarrow> pb_ID b = pb_ID c)"

definition rows_ok :: "PortBinding list \<Rightarrow> nat \<Rightarrow> bool" where
  "rows_ok rows n \<longleftrightarrow> 0 < n \<and> distinct (map pb_ID rows) \<and> (\<forall>b\<in>set rows. 0 < pb_ID b \<and> pb_ID b < n) \<and>
     unique_claims (set rows)"

abbreviation ports_ok :: "PortWorld \<Rightarrow> bool" where
  "ports_ok w \<equiv> rows_ok (pw_rows w) (pw_next w)"

text \<open>A binding that would be approved clashes with no other's claim.\<close>

definition no_clash :: "PortBinding list \<Rightarrow> PortBinding \<Rightarrow> bool" where
  "no_clash rows b \<longleftrightarrow> (approved b \<longrightarrow> (\<forall>c\<in>set rows. approved c \<and> claim_key c = claim_key b \<longrightarrow> pb_ID c = pb_ID b))"

lemma unique_claimsD:
  "unique_claims B \<Longrightarrow> b \<in> B \<Longrightarrow> c \<in> B \<Longrightarrow> approved b \<Longrightarrow> approved c \<Longrightarrow> claim_key b = claim_key c \<Longrightarrow> pb_ID b = pb_ID c"
  unfolding unique_claims_def by blast

lemma unique_claims_mono: "unique_claims B \<Longrightarrow> A \<subseteq> B \<Longrightarrow> unique_claims A"
  unfolding unique_claims_def by (meson subsetD)

lemma no_clashD: "no_clash rows b \<Longrightarrow> approved b \<Longrightarrow> c \<in> set rows \<Longrightarrow> approved c \<Longrightarrow> claim_key c = claim_key b \<Longrightarrow> pb_ID c = pb_ID b"
  unfolding no_clash_def by blast

lemma unique_claims_insert:
  assumes "unique_claims A" "A \<subseteq> set rows" "no_clash rows b"
  shows "unique_claims (insert b A)"
proof -
  have "pb_ID x = pb_ID y" if "x \<in> insert b A" "y \<in> insert b A" "approved x" "approved y" "claim_key x = claim_key y" for x y
  proof (cases "x = b")
    case True
    show ?thesis
    proof (cases "y = b")
      case False
      then have "y \<in> set rows" using that(2) assms(2) by blast
      then show ?thesis using no_clashD [OF assms(3)] that(3-5) True by simp
    qed (simp add: True)
  next
    case False
    then have x: "x \<in> A" using that(1) by blast
    show ?thesis
    proof (cases "y = b")
      case True
      then show ?thesis using no_clashD [OF assms(3)] that(3-5) x assms(2) by blast
    next
      case False
      then have "y \<in> A" using that(2) by blast
      then show ?thesis using unique_claimsD [OF assms(1) x] that(3-5) by simp
    qed
  qed
  then show ?thesis unfolding unique_claims_def by blast
qed

lemma rows_ok_subset:
  assumes "rows_ok rows n" shows "rows_ok (filter P rows) n"
proof -
  have "distinct (map pb_ID (filter P rows))" using assms unfolding rows_ok_def by (simp add: distinct_map_filter)
  moreover have "unique_claims (set (filter P rows))"
    using assms unfolding rows_ok_def by (elim conjE unique_claims_mono) simp
  ultimately show ?thesis using assms unfolding rows_ok_def by simp
qed

lemma rows_ok_append:
  assumes "rows_ok rows n" "pb_ID b = n" "no_clash rows b"
  shows "rows_ok (rows @ [b]) (n + 1)"
proof -
  have ids: "\<forall>c\<in>set rows. 0 < pb_ID c \<and> pb_ID c < n" and pos: "0 < n" and dist: "distinct (map pb_ID rows)"
    using assms(1) unfolding rows_ok_def by blast+
  have "unique_claims (set (rows @ [b]))"
    using unique_claims_insert [OF _ subset_refl assms(3)] assms(1) unfolding rows_ok_def by simp
  moreover have "n \<notin> pb_ID ` set rows" using ids by (metis imageE less_irrefl)
  moreover have "\<forall>c\<in>set (rows @ [b]). 0 < pb_ID c \<and> pb_ID c < n + 1" using ids pos assms(2) by (simp add: less_SucI)
  ultimately show ?thesis using dist pos assms(2) unfolding rows_ok_def by (simp del: set_append)
qed

lemma rows_ok_replace:
  assumes "rows_ok rows n" "no_clash rows b" "b0 \<in> set rows" "pb_ID b = pb_ID b0"
  shows "rows_ok (map (\<lambda>x. if pb_ID x = pb_ID b then b else x) rows) n"
proof -
  let ?f = "\<lambda>x. if pb_ID x = pb_ID b then b else x"
  let ?rest = "{x \<in> set rows. pb_ID x \<noteq> pb_ID b}"
  have ids: "map pb_ID (map ?f rows) = map pb_ID rows" by simp
  have b: "0 < pb_ID b \<and> pb_ID b < n" using assms unfolding rows_ok_def by metis
  have sub: "set (map ?f rows) \<subseteq> insert b ?rest" by auto
  have "unique_claims ?rest" using assms(1) unfolding rows_ok_def by (elim conjE unique_claims_mono) blast
  from unique_claims_insert [OF this _ assms(2)] have "unique_claims (insert b ?rest)" by blast
  then have "unique_claims (set (map ?f rows))" using sub by (rule unique_claims_mono)
  moreover have "\<forall>x\<in>set (map ?f rows). 0 < pb_ID x \<and> pb_ID x < n"
    using sub b assms(1) unfolding rows_ok_def by blast
  ultimately show ?thesis using assms(1) ids unfolding rows_ok_def by metis
qed

lemma claims_key: "claims server port proto b \<longleftrightarrow> approved b \<and> claim_key b = (server, port, proto)"
  unfolding claims_def claim_key_def by auto

lemma free_no_clash:
  assumes "HostPortInUse w (pb_ServerID b) (pb_HostPort b) (pb_Protocol b) ex = Some False" "ex = 0 \<or> ex = pb_ID b"
  shows "no_clash (pw_rows w) b"
proof -
  have "\<not> list_ex (\<lambda>c. claims (pb_ServerID b) (pb_HostPort b) (pb_Protocol b) c \<and> \<not> (0 < ex \<and> pb_ID c = ex)) (pw_rows w)"
    using assms(1) by (simp add: HostPortInUse_def split: if_split_asm)
  then show ?thesis using assms(2) unfolding no_clash_def claims_key list_ex_iff claim_key_def [of b] by auto
qed

lemma conflict_free: "hostPortConflict w server port proto ex = Inr None \<Longrightarrow> HostPortInUse w server port proto ex = Some False"
  unfolding hostPortConflict_def by (auto split: option.split_asm bool.split_asm)

lemma tenant_conflict_free: "tenantPortConflict w ws server port proto = Inr None \<Longrightarrow> HostPortInUse w server port proto 0 = Some False"
  unfolding tenantPortConflict_def by (auto split: option.split_asm sum.split_asm dest: conflict_free)

lemma no_clash_cong:
  "claim_key b' = claim_key b \<Longrightarrow> approved b' \<Longrightarrow> approved b \<Longrightarrow> no_clash rows b \<Longrightarrow> pb_ID b' = pb_ID b \<Longrightarrow> no_clash rows b'"
  unfolding no_clash_def by simp

lemma markAppRedeploy_rows [simp]:
  "pw_rows (markAppRedeploy w a) = pw_rows w" "pw_next (markAppRedeploy w a) = pw_next w"
  by (simp_all add: markAppRedeploy_def)

lemma repo_Create_ok:
  assumes "ports_ok w" "repo_Create w b = Inr (w', b')" "\<not> approved b \<or> HostPortInUse w (pb_ServerID b) (pb_HostPort b) (pb_Protocol b) 0 = Some False"
  shows "ports_ok w'"
proof -
  let ?b = "b\<lparr>pb_ID := pw_next w, pb_UpdatedAt := pw_now w\<rparr>"
  have w': "w' = w\<lparr>pw_rows := pw_rows w @ [?b], pw_next := pw_next w + 1\<rparr>"
    using assms(2) by (auto simp: repo_Create_def Let_def split: if_split_asm)
  have "no_clash (pw_rows w) ?b"
    using assms(3) free_no_clash [of w ?b 0] by (auto simp: no_clash_def)
  from rows_ok_append [OF assms(1) _ this] show ?thesis unfolding w' by simp
qed

lemma repo_Save_ok:
  assumes "ports_ok w" "repo_Save w b = Inr w'" "b0 \<in> set (pw_rows w)" "pb_ID b = pb_ID b0"
    "\<not> approved b \<or> HostPortInUse w (pb_ServerID b) (pb_HostPort b) (pb_Protocol b) (pb_ID b) = Some False"
  shows "ports_ok w' \<and> set (map pb_ID (pw_rows w')) = set (map pb_ID (pw_rows w))"
proof -
  let ?b = "b\<lparr>pb_UpdatedAt := pw_now w\<rparr>"
  have w': "w' = w\<lparr>pw_rows := map (\<lambda>x. if pb_ID x = pb_ID ?b then ?b else x) (pw_rows w)\<rparr>"
    using assms(2-4) by (auto simp: repo_Save_def Let_def list_ex_iff split: if_split_asm)
  have "no_clash (pw_rows w) ?b"
    using assms(5) free_no_clash [of w ?b "pb_ID b"] by (auto simp: no_clash_def)
  from rows_ok_replace [OF assms(1) this assms(3)] have "ports_ok w'" using assms(4) unfolding w' by simp
  moreover have "map pb_ID (pw_rows w') = map pb_ID (pw_rows w)" unfolding w' by simp
  ultimately show ?thesis by metis
qed

lemma newPendingBinding_pending:
  assumes "newPendingBinding win w ws user inp privileged = Inr b"
  shows "pb_Status b = PortBindingPending \<and> pb_WorkspaceID b = ws \<and> (\<exists>a\<in>set (pw_apps w). ar_ID a = pb_ApplicationID b \<and>
    ar_WorkspaceID a = ws \<and> pb_ServerID b = ar_ServerID a)"
proof -
  obtain a where a: "find (\<lambda>a. ar_ID a = ri_ApplicationID inp \<and> ar_WorkspaceID a = ws) (pw_apps w) = Some a"
    using assms unfolding newPendingBinding_def by (auto split: option.split_asm)
  then have "a \<in> set (pw_apps w) \<and> ar_WorkspaceID a = ws" by (auto simp: find_Some_iff dest: nth_mem)
  then show ?thesis using assms a unfolding newPendingBinding_def
    by (auto simp: Let_def split: if_split_asm sum.split_asm)
qed

lemma autoApprove_simps [simp]:
  "pb_Status (autoApprove b u nt) = PortBindingApproved" "pb_ServerID (autoApprove b u nt) = pb_ServerID b"
  "pb_HostPort (autoApprove b u nt) = pb_HostPort b" "pb_Protocol (autoApprove b u nt) = pb_Protocol b"
  "pb_ApplicationID (autoApprove b u nt) = pb_ApplicationID b" "pb_WorkspaceID (autoApprove b u nt) = pb_WorkspaceID b"
  by (simp_all add: autoApprove_def)

text \<open>A request that succeeds: pending, or approved on a port that was free.\<close>

lemma Request_InrD:
  assumes "Request win w ws user inp = Inr (w', b')"
  obtains b0 b w1 where "newPendingBinding win w ws user inp (isPrivileged w ws) = Inr b0"
    "pd_Allowed (decide w b0 (isPrivileged w ws))"
    "b = b0 \<or> (tenantPortConflict w ws (pb_ServerID b0) (pb_HostPort b0) (pb_Protocol b0) = Inr None \<and>
       b = autoApprove b0 user (pd_Note (decide w b0 (isPrivileged w ws))))"
    "repo_Create w b = Inr (w1, b')" "pw_rows w' = pw_rows w1" "pw_next w' = pw_next w1"
proof -
  let ?p = "isPrivileged w ws"
  obtain b0 where b0: "newPendingBinding win w ws user inp ?p = Inr b0"
    using assms unfolding Request_def Let_def by (cases "newPendingBinding win w ws user inp ?p") simp_all
  have allowed: "pd_Allowed (decide w b0 ?p)"
    using assms unfolding Request_def Let_def b0 by (simp split: if_split_asm)
  show thesis
  proof (cases "pd_AutoApprove (decide w b0 ?p)")
    case False
    then obtain w1 where c: "repo_Create w b0 = Inr (w1, b')"
      "w' = (if pb_Status b' = PortBindingApproved then markAppRedeploy w1 (pb_ApplicationID b') else w1)"
      using assms allowed unfolding Request_def Let_def b0
      by (cases "repo_Create w b0") (auto simp del: not_None_eq)
    then show thesis using that [OF b0 allowed _ c(1)] by simp
  next
    case True
    have free: "tenantPortConflict w ws (pb_ServerID b0) (pb_HostPort b0) (pb_Protocol b0) = Inr None"
      using assms allowed True unfolding Request_def Let_def b0
      by (simp split: sum.split_asm option.split_asm)
    then obtain w1 where c: "repo_Create w (autoApprove b0 user (pd_Note (decide w b0 ?p))) = Inr (w1, b')"
      "w' = (if pb_Status b' = PortBindingApproved then markAppRedeploy w1 (pb_ApplicationID b') else w1)"
      using assms allowed True unfolding Request_def Let_def b0
      by (cases "repo_Create w (autoApprove b0 user (pd_Note (decide w b0 ?p)))") auto
    then show thesis using that [OF b0 allowed _ c(1)] free by simp
  qed
qed

lemma Request_ok: "ports_ok w \<Longrightarrow> Request win w ws user inp = Inr (w', b') \<Longrightarrow> ports_ok w'"
proof -
  assume ok: "ports_ok w" and run: "Request win w ws user inp = Inr (w', b')"
  obtain b0 b w1 where b0: "newPendingBinding win w ws user inp (isPrivileged w ws) = Inr b0"
    and b: "b = b0 \<or> (tenantPortConflict w ws (pb_ServerID b0) (pb_HostPort b0) (pb_Protocol b0) = Inr None \<and>
       b = autoApprove b0 user (pd_Note (decide w b0 (isPrivileged w ws))))"
    and w1: "repo_Create w b = Inr (w1, b')" "pw_rows w' = pw_rows w1" "pw_next w' = pw_next w1"
    using Request_InrD [OF run] by metis
  have "\<not> approved b \<or> HostPortInUse w (pb_ServerID b) (pb_HostPort b) (pb_Protocol b) 0 = Some False"
    using b newPendingBinding_pending [OF b0] tenant_conflict_free by (elim disjE) auto
  from repo_Create_ok [OF ok w1(1) this] show "ports_ok w'" using w1 by simp
qed

lemma RequestImport_InrD:
  assumes "RequestImport win w ws user inp = Inr (w', b', c)"
  obtains b0 b where "newPendingBinding win w ws user inp (isPrivileged w ws) = Inr b0"
    "pd_Allowed (decide w b0 (isPrivileged w ws))"
    "\<not> approved b \<or> HostPortInUse w (pb_ServerID b) (pb_HostPort b) (pb_Protocol b) 0 = Some False"
    "repo_Create w b = Inr (w', b')"
    "\<exists>conflict. tenantPortConflict w ws (pb_ServerID b0) (pb_HostPort b0) (pb_Protocol b0) = Inr conflict \<and>
       c = (case conflict of Some owner \<Rightarrow> owner | None \<Rightarrow> [])"
proof -
  let ?p = "isPrivileged w ws"
  obtain b0 where b0: "newPendingBinding win w ws user inp ?p = Inr b0"
    using assms unfolding RequestImport_def Let_def by (cases "newPendingBinding win w ws user inp ?p") simp_all
  have allowed: "pd_Allowed (decide w b0 ?p)"
    using assms unfolding RequestImport_def Let_def b0 by (simp split: if_split_asm)
  obtain conflict where conflict: "tenantPortConflict w ws (pb_ServerID b0) (pb_HostPort b0) (pb_Protocol b0) = Inr conflict"
    using assms allowed unfolding RequestImport_def Let_def b0
    by (cases "tenantPortConflict w ws (pb_ServerID b0) (pb_HostPort b0) (pb_Protocol b0)") simp_all
  let ?b = "case conflict of Some owner \<Rightarrow> b0\<lparr>pb_ReviewNote := conflict_note b0 owner\<rparr>
     | None \<Rightarrow> if pd_AutoApprove (decide w b0 ?p) then autoApprove b0 user (pd_Note (decide w b0 ?p)) else b0"
  have create: "repo_Create w ?b = Inr (w', b')" and c: "c = (case conflict of Some owner \<Rightarrow> owner | None \<Rightarrow> [])"
    using assms allowed conflict unfolding RequestImport_def Let_def b0 by (cases "repo_Create w ?b"; auto)+
  have "\<not> approved ?b \<or> HostPortInUse w (pb_ServerID ?b) (pb_HostPort ?b) (pb_Protocol ?b) 0 = Some False"
    using newPendingBinding_pending [OF b0] tenant_conflict_free conflict by (cases conflict) auto
  then show thesis using that [OF b0 allowed _ create] conflict c by blast
qed

lemma RequestImport_ok: "ports_ok w \<Longrightarrow> RequestImport win w ws user inp = Inr (w', b', c) \<Longrightarrow> ports_ok w'"
proof (erule RequestImport_InrD)
  fix b assume "ports_ok w" "repo_Create w b = Inr (w', b')"
    "\<not> approved b \<or> HostPortInUse w (pb_ServerID b) (pb_HostPort b) (pb_Protocol b) 0 = Some False"
  then show "ports_ok w'" by (rule repo_Create_ok)
qed

lemma binding_FindByID_SomeD: "binding_FindByID w i = Some b \<Longrightarrow> b \<in> set (pw_rows w) \<and> pb_ID b = i"
  unfolding binding_FindByID_def by (auto simp: find_Some_iff split: if_split_asm dest: nth_mem)

lemma approve_check_InrD:
  assumes "approve_check w i = Inr b"
  shows "b \<in> set (pw_rows w) \<and> pb_ID b = i \<and> pb_Status b = PortBindingPending \<and>
    hostPortConflict w (pb_ServerID b) (pb_HostPort b) (pb_Protocol b) (pb_ID b) = Inr None"
proof -
  obtain b1 where b1: "binding_FindByID w i = Some b1" using assms unfolding approve_check_def by (cases "binding_FindByID w i") simp_all
  have "pb_Status b1 = PortBindingPending" using assms b1 unfolding approve_check_def by (simp split: if_split_asm)
  moreover have "hostPortConflict w (pb_ServerID b1) (pb_HostPort b1) (pb_Protocol b1) (pb_ID b1) = Inr None \<and> b1 = b"
    using assms b1 calculation unfolding approve_check_def by (simp split: sum.split_asm option.split_asm)
  ultimately show ?thesis using binding_FindByID_SomeD [OF b1] by blast
qed

lemma Approve_ok:
  assumes "ports_ok w" "Approve w i reviewer nt = Inr w'"
  shows "ports_ok w'"
proof -
  obtain b where b: "approve_check w i = Inr b" using assms(2) unfolding Approve_def by (cases "approve_check w i") simp_all
  let ?b = "b\<lparr>pb_Status := PortBindingApproved, pb_ReviewedBy := Some reviewer, pb_ReviewNote := nt\<rparr>"
  obtain w1 where w1: "repo_Save w ?b = Inr w1" "w' = markAppRedeploy w1 (pb_ApplicationID b)"
    using assms(2) b unfolding Approve_def approve_write_def by (cases "repo_Save w ?b") simp_all
  note checked = approve_check_InrD [OF b]
  have "HostPortInUse w (pb_ServerID ?b) (pb_HostPort ?b) (pb_Protocol ?b) (pb_ID ?b) = Some False"
    using conflict_free [OF checked [THEN conjunct2, THEN conjunct2, THEN conjunct2]] by simp
  then show ?thesis using repo_Save_ok [OF assms(1) w1(1), of b] checked w1(2) by simp
qed

lemma Reject_ok:
  assumes "ports_ok w" "Reject w i reviewer nt = Inr w'"
  shows "ports_ok w'"
proof -
  obtain b where b: "binding_FindByID w i = Some b" using assms(2) unfolding Reject_def by (cases "binding_FindByID w i") simp_all
  let ?b = "b\<lparr>pb_Status := PortBindingRejected, pb_ReviewedBy := Some reviewer, pb_ReviewNote := nt\<rparr>"
  have "repo_Save w ?b = Inr w'" using assms(2) b unfolding Reject_def by (simp split: if_split_asm)
  from repo_Save_ok [OF assms(1) this, of b] show ?thesis using binding_FindByID_SomeD [OF b] by simp
qed

lemma Cancel_ok:
  assumes "ports_ok w" "Cancel w ws i = Inr w'"
  shows "ports_ok w'"
proof -
  have "\<exists>j. w' = w\<lparr>pw_rows := filter (\<lambda>x. pb_ID x \<noteq> j) (pw_rows w)\<rparr>"
    using assms(2) unfolding Cancel_def by (auto split: if_split_asm option.split_asm)
  then obtain j where "w' = w\<lparr>pw_rows := filter (\<lambda>x. pb_ID x \<noteq> j) (pw_rows w)\<rparr>" by blast
  then show ?thesis using rows_ok_subset [OF assms(1)] by simp
qed

lemma revoke_each_ok:
  assumes "ports_ok w" "set bs \<subseteq> {b. pb_ID b \<in> set (map pb_ID (pw_rows w))}"
  shows "ports_ok (fst (revoke_each reviewer bs w))"
  using assms
proof (induction bs arbitrary: w)
  case (Cons b bs)
  let ?b = "b\<lparr>pb_Status := PortBindingRejected, pb_ReviewedBy := Some reviewer, pb_ReviewNote := ''Revoked by platform policy''\<rparr>"
  show ?case
  proof (cases "repo_Save w ?b")
    case (Inr w1)
    obtain b0 where b0: "b0 \<in> set (pw_rows w)" "pb_ID ?b = pb_ID b0" using Cons.prems(2) by auto
    from repo_Save_ok [OF Cons.prems(1) Inr b0] have "ports_ok w1 \<and> set (map pb_ID (pw_rows w1)) = set (map pb_ID (pw_rows w))" by simp
    then have "ports_ok (fst (revoke_each reviewer bs (markAppRedeploy w1 (pb_ApplicationID b))))"
      using Cons.IH [of "markAppRedeploy w1 (pb_ApplicationID b)"] Cons.prems(2) by simp
    then show ?thesis using Inr by (cases "revoke_each reviewer bs (markAppRedeploy w1 (pb_ApplicationID b))") simp
  qed (use Cons.prems in simp)
qed simp

lemma port_step_ok:
  assumes "ports_ok w" shows "ports_ok (port_step win oper w)"
proof (cases oper)
  case (OpRequest ws user inp)
  show ?thesis
  proof (cases "Request win w ws user inp")
    case (Inr p) then show ?thesis using Request_ok [OF assms, of win ws user inp] OpRequest by (cases p) (simp add: port_step_def)
  qed (simp add: port_step_def OpRequest assms)
next
  case (OpImport ws user inp)
  show ?thesis
  proof (cases "RequestImport win w ws user inp")
    case (Inr p) then show ?thesis using RequestImport_ok [OF assms, of win ws user inp] OpImport by (cases p) (simp add: port_step_def)
  qed (simp add: port_step_def OpImport assms)
next
  case (OpApprove i reviewer nt)
  then show ?thesis using Approve_ok [OF assms, of i reviewer nt] assms
    by (cases "Approve w i reviewer nt") (simp_all add: port_step_def)
next
  case (OpReject i reviewer nt)
  then show ?thesis using Reject_ok [OF assms, of i reviewer nt] assms
    by (cases "Reject w i reviewer nt") (simp_all add: port_step_def)
next
  case (OpCancel ws i)
  then show ?thesis using Cancel_ok [OF assms, of ws i] assms
    by (cases "Cancel w ws i") (simp_all add: port_step_def)
next
  case (OpRevoke reviewer dry)
  have "set (ListByStatus w PortBindingApproved) \<subseteq> {b. pb_ID b \<in> set (map pb_ID (pw_rows w))}"
    by (auto simp: ListByStatus_def)
  then show ?thesis using revoke_each_ok [OF assms] assms OpRevoke
    by (simp add: port_step_def RevokeApproved_def)
next
  case (OpDeleteApp app)
  then show ?thesis using rows_ok_subset [OF assms] assms by (simp add: port_step_def DeleteByApp_def)
qed

lemma port_run_ok: "ports_ok w \<Longrightarrow> ports_ok (port_run win ops w)"
  unfolding port_run_def by (induction ops arbitrary: w) (simp_all add: port_step_ok)

text \<open>
  C8: two approved bindings never claim one host port of a node. Starting from an empty table, after any requests,
  imports, reviews, withdrawals, revocations and deletions of apps, one complete operation after another, the bindings
  that are approved are for distinct ports of distinct nodes.
\<close>

theorem one_binding_per_host_port:
  assumes "pw_rows w0 = []" "0 < pw_next w0" "w = port_run win ops w0"
    and "b \<in> set (pw_rows w)" "c \<in> set (pw_rows w)" "approved b" "approved c" "claim_key b = claim_key c"
  shows "b = c"
proof -
  have "ports_ok w0" using assms(1,2) by (simp add: rows_ok_def unique_claims_def)
  from port_run_ok [OF this, of win ops] have "ports_ok w" unfolding assms(3) .
  then have u: "unique_claims (set (pw_rows w))" and d: "distinct (map pb_ID (pw_rows w))" unfolding rows_ok_def by blast+
  have "pb_ID b = pb_ID c" by (rule unique_claimsD [OF u assms(4-8)])
  then show ?thesis using d assms(4,5) unfolding distinct_map by (metis inj_onD)
qed

section \<open>The search for a free port\<close>

declare scan_ports.simps [simp del]

lemma scan_ports_found:
  "scan_ports free p hi = Inr (Some q) \<Longrightarrow> p \<le> q \<and> q \<le> hi \<and> free q = Some True \<and> (\<forall>x\<in>{p..<q}. free x = Some False)"
proof (induction free p hi rule: scan_ports.induct)
  case (1 free p hi)
  show ?case
  proof (cases "free p")
    case None then show ?thesis using 1(2) by (subst (asm) scan_ports.simps) (simp split: if_split_asm)
  next
    case (Some ok)
    show ?thesis
    proof (cases ok)
      case True
      then show ?thesis using 1(2) Some by (subst (asm) scan_ports.simps) (simp split: if_split_asm)
    next
      case False
      have le: "\<not> hi < p" using 1(2) by (subst (asm) scan_ports.simps) (simp split: if_split_asm)
      then have "scan_ports free (p + 1) hi = Inr (Some q)" using 1(2) Some False by (subst (asm) scan_ports.simps) simp
      from 1(1) [OF le Some False this] have ih: "p + 1 \<le> q" "q \<le> hi" "free q = Some True" "\<forall>x\<in>{p + 1..<q}. free x = Some False" by blast+
      have "free x = Some False" if "x \<in> {p..<q}" for x
        using that ih(4) Some False by (cases "x = p") auto
      then show ?thesis using ih by auto
    qed
  qed
qed

lemma scan_ports_none: "scan_ports free p hi = Inr None \<Longrightarrow> \<forall>x\<in>{p..hi}. free x = Some False"
proof (induction free p hi rule: scan_ports.induct)
  case (1 free p hi)
  show ?case
  proof (cases "hi < p")
    case False
    then obtain "free p = Some False" "scan_ports free (p + 1) hi = Inr None"
      using 1(2) by (subst (asm) scan_ports.simps) (auto split: option.split_asm if_split_asm)
    then have "\<forall>x\<in>{p + 1..hi}. free x = Some False" using 1(1) [OF False] by blast
    then show ?thesis using \<open>free p = Some False\<close> by (metis atLeastAtMost_iff zless_add1_eq int_one_le_iff_zero_less add_le_cancel_left linorder_not_less order_less_le)
  qed simp
qed

lemma scan_ports_error: "scan_ports free p hi = Inl e \<Longrightarrow> e = PortStorage \<and> (\<exists>x\<in>{p..hi}. free x = None)"
proof (induction free p hi rule: scan_ports.induct)
  case (1 free p hi)
  have le: "\<not> hi < p" using 1(2) by (subst (asm) scan_ports.simps) (simp split: if_split_asm)
  show ?case
  proof (cases "free p")
    case None then show ?thesis using 1(2) le by (subst (asm) scan_ports.simps) auto
  next
    case (Some ok)
    then have "\<not> ok" "scan_ports free (p + 1) hi = Inl e"
      using 1(2) le by (subst (asm) scan_ports.simps, simp split: if_split_asm)+
    from 1(1) [OF le Some this] show ?thesis by auto
  qed
qed

lemma free_search_error:
  assumes "FindFreeHostPort win w server proto preferred = Inl e" shows "e = PortStorage"
  using assms unfolding FindFreeHostPort_def Let_def
  by (auto split: sum.split_asm option.split_asm dest: scan_ports_error)

definition search_start :: "PortWindow \<Rightarrow> int \<Rightarrow> int" where
  "search_start win preferred = (if preferred < win_min win \<or> preferred > win_max win then win_min win else preferred)"

lemma search_second:
  assumes none: "\<forall>x\<in>{search_start win preferred..win_max win}. free x = Some False"
    and "scan_ports free (win_min win) (search_start win preferred - 1) = Inr o2"
  shows "case o2 of
      Some p \<Rightarrow> win_min win \<le> p \<and> p < search_start win preferred \<and> p \<le> win_max win \<and> free p = Some True \<and>
        (\<forall>x\<in>{win_min win..<p}. free x = Some False)
    | None \<Rightarrow> \<forall>x\<in>{win_min win..win_max win}. free x = Some False"
proof (cases o2)
  case None
  then have "\<forall>x\<in>{win_min win..search_start win preferred - 1}. free x = Some False"
    using scan_ports_none assms(2) by blast
  moreover have "x \<in> {win_min win..search_start win preferred - 1} \<or> x \<in> {search_start win preferred..win_max win}"
    if "x \<in> {win_min win..win_max win}" for x
    using that by auto
  ultimately have "\<forall>x\<in>{win_min win..win_max win}. free x = Some False"
    using none by blast
  then show ?thesis
    using None by simp
next
  case (Some p)
  have "win_min win \<le> p" "p \<le> search_start win preferred - 1" "free p = Some True" "\<forall>x\<in>{win_min win..<p}. free x = Some False"
    using scan_ports_found [of free "win_min win" "search_start win preferred - 1" p] assms(2) Some by blast+
  then show ?thesis
    using Some by (simp add: search_start_def split: if_split_asm)
qed

lemma FindFreeHostPort_run:
  "FindFreeHostPort win w server proto preferred =
     (let free = port_free w server (normProto proto); s = search_start win preferred in
      case scan_ports free s (win_max win) of Inl e \<Rightarrow> Inl e | Inr (Some p) \<Rightarrow> Inr p
      | Inr None \<Rightarrow> (case scan_ports free (win_min win) (s - 1) of Inl e \<Rightarrow> Inl e | Inr (Some p) \<Rightarrow> Inr p | Inr None \<Rightarrow> Inr 0))"
  unfolding FindFreeHostPort_def search_start_def Let_def ..


section \<open>Port keys\<close>

lemma Itoa_no_slash: "0 \<le> p \<Longrightarrow> CHR ''/'' \<notin> set (Itoa p)"
  by (rule Itoa_no_char) (simp_all add: is_digit_def)

lemma scan_int_Itoa:
  assumes "0 \<le> p" shows "scan_int (Itoa p) = Some p"
proof -
  have ds: "list_all is_digit (Itoa p)" by (rule Itoa_digits [OF assms])
  then have tw: "takeWhile is_digit (Itoa p) = Itoa p" by (simp add: list_all_iff)
  obtain c cs where c: "Itoa p = c # cs" by (cases "Itoa p") auto
  have "is_digit c" using ds c by simp
  then have "c \<noteq> CHR ''-'' \<and> c \<noteq> CHR ''+''" by (auto simp: is_digit_def)
  then have "scan_int (Itoa p) = Some (digits_val (Itoa p))" using c tw by (simp add: scan_int_def)
  then show ?thesis using assms by (simp add: Itoa_def digits_val_nat_digits)
qed

lemma normProto_idem [simp]: "normProto (normProto p) = normProto p"
  by (simp add: normProto_def)

lemma parse_portKey:
  assumes "0 \<le> p"
  shows "parsePortKey (portKey p proto) = (p, normProto proto)"
proof -
  have "CutChar (portKey p proto) (CHR ''/'') = (Itoa p, normProto proto, True)"
    unfolding portKey_def using CutChar_append [OF Itoa_no_slash [OF assms], of "normProto proto"] by simp
  then show ?thesis by (simp add: parsePortKey_def scan_int_Itoa [OF assms])
qed

lemma portKey_norm: "portKey p (normProto q) = portKey p q"
  by (simp add: portKey_def)

text \<open>
  The key a host port is looked up under can be read back. For every port from zero up, parsing the key of a
  port and a protocol gives the port and the protocol as it is normalised; so two ports have one key only if they are
  the same port under the same protocol.
\<close>

theorem port_key_roundtrip:
  assumes "0 \<le> p" "0 \<le> q"
  shows "parsePortKey (portKey p proto) = (p, normProto proto) \<and>
    (portKey p proto = portKey q proto' \<longleftrightarrow> p = q \<and> normProto proto = normProto proto')"
  using parse_portKey [OF assms(1)] parse_portKey [OF assms(2)] portKey_norm by (metis prod.inject)

theorem port_key_roundtrip_witness: "parsePortKey (portKey 53 ''udp'') = (53, ''udp'')"
  using port_key_roundtrip [of 53 53 "''udp''" "''udp''"] by (simp add: normProto_def)

section \<open>What a tenant learns of a conflict\<close>

lemma tenantOwner_cases:
  "tenantOwner cs owner ws = ''another workload on the node'' \<or>
     (\<exists>c\<in>set cs. containerName c = tenantOwner cs owner ws \<and> ct_Workspace c = nat_digits ws)"
  unfolding tenantOwner_def by (auto simp: list_ex_iff)

lemma tenantPortConflict_names:
  assumes "tenantPortConflict w ws server port proto = Inr (Some owner)"
  shows "owner = ''another workload on the node'' \<or>
    (\<exists>c\<in>set (nodeContainers w server). containerName c = owner \<and> ct_Workspace c = nat_digits ws)"
proof -
  obtain o1 where "hostPortConflict w server port proto 0 = Inr (Some o1)"
    using assms unfolding tenantPortConflict_def by (auto split: sum.split_asm option.split_asm)
  then have "owner = tenantOwner (nodeContainers w server) o1 ws" using assms unfolding tenantPortConflict_def by simp
  then show ?thesis using tenantOwner_cases by simp
qed

lemma newPendingBinding_not_taken: "newPendingBinding win w ws user inp p \<noteq> Inl (HostPortTaken owner)"
proof -
  have r: "resolveHostPort win w server want proto p \<noteq> Inl (HostPortTaken owner)" for server want proto
  proof (cases "FindFreeHostPort win w server proto 0")
    case (Inl e)
    then have "e = PortStorage"
      using free_search_error by blast
    then show ?thesis using Inl by (simp add: resolveHostPort_def)
  qed (simp add: resolveHostPort_def)
  show ?thesis
    unfolding newPendingBinding_def using r by (auto simp: Let_def split: option.split sum.split)
qed

lemma repo_Create_error: "repo_Create w b = Inl e \<Longrightarrow> e = PortStorage"
  unfolding repo_Create_def by (auto simp: Let_def split: if_split_asm)

lemma tenant_conflict_error: "tenantPortConflict w ws server port proto = Inl e \<Longrightarrow> e = PortStorage"
  unfolding tenantPortConflict_def hostPortConflict_def by (auto split: option.split_asm bool.split_asm sum.split_asm)

lemma Request_taken:
  assumes "Request win w ws user inp = Inl (HostPortTaken owner)"
  shows "\<exists>b0. newPendingBinding win w ws user inp (isPrivileged w ws) = Inr b0 \<and>
    tenantPortConflict w ws (pb_ServerID b0) (pb_HostPort b0) (pb_Protocol b0) = Inr (Some owner)"
proof -
  let ?p = "isPrivileged w ws"
  obtain b0 where b0: "newPendingBinding win w ws user inp ?p = Inr b0"
    using assms newPendingBinding_not_taken [of win w ws user inp ?p owner] unfolding Request_def Let_def
    by (cases "newPendingBinding win w ws user inp ?p") simp_all
  have create: "(case repo_Create w b of Inl e \<Rightarrow> Inl e | Inr (w', b') \<Rightarrow> Inr (f w' b')) \<noteq> Inl (HostPortTaken owner)" for b and f :: "PortWorld \<Rightarrow> PortBinding \<Rightarrow> PortWorld \<times> PortBinding"
    using repo_Create_error by (cases "repo_Create w b") (auto split: prod.split)
  have allowed: "pd_Allowed (decide w b0 ?p)" using assms b0 unfolding Request_def Let_def by (simp split: if_split_asm)
  show ?thesis
  proof (cases "tenantPortConflict w ws (pb_ServerID b0) (pb_HostPort b0) (pb_Protocol b0)")
    case (Inl e)
    then show ?thesis using assms b0 allowed create tenant_conflict_error [OF Inl] unfolding Request_def Let_def
      by (cases "pd_AutoApprove (decide w b0 ?p)") simp_all
  next
    case (Inr c)
    then show ?thesis using assms b0 allowed create unfolding Request_def Let_def
      by (cases "pd_AutoApprove (decide w b0 ?p)"; cases c) simp_all
  qed
qed

text \<open>
  C29: a tenant whose port is taken learns of nobody else's containers. The holder that a refused request names, and
  the one an import reports, is a container labelled with the tenant's own workspace, on the node of the app, or it is
  just another workload.
\<close>

theorem conflict_names_only_own:
  assumes "Request win w ws user inp = Inl (HostPortTaken owner) \<or>
    (\<exists>w' b. RequestImport win w ws user inp = Inr (w', b, owner) \<and> owner \<noteq> [])"
  shows "owner = ''another workload on the node'' \<or>
    (\<exists>a\<in>set (pw_apps w). ar_WorkspaceID a = ws \<and>
       (\<exists>c\<in>set (nodeContainers w (ar_ServerID a)). containerName c = owner \<and> ct_Workspace c = nat_digits ws))"
proof -
  have "\<exists>b0. newPendingBinding win w ws user inp (isPrivileged w ws) = Inr b0 \<and>
      tenantPortConflict w ws (pb_ServerID b0) (pb_HostPort b0) (pb_Protocol b0) = Inr (Some owner)"
    using assms
  proof
    assume "Request win w ws user inp = Inl (HostPortTaken owner)"
    then show ?thesis by (rule Request_taken)
  next
    assume "\<exists>w' b. RequestImport win w ws user inp = Inr (w', b, owner) \<and> owner \<noteq> []"
    then obtain w' b where run: "RequestImport win w ws user inp = Inr (w', b, owner)" and named: "owner \<noteq> []" by blast
    obtain b0 conflict where b0: "newPendingBinding win w ws user inp (isPrivileged w ws) = Inr b0"
      "tenantPortConflict w ws (pb_ServerID b0) (pb_HostPort b0) (pb_Protocol b0) = Inr conflict"
      "owner = (case conflict of Some o1 \<Rightarrow> o1 | None \<Rightarrow> [])"
      using RequestImport_InrD [OF run] by metis
    then have "conflict = Some owner" using named by (cases conflict) simp_all
    then show ?thesis using b0 by blast
  qed
  then obtain b0 where b0: "newPendingBinding win w ws user inp (isPrivileged w ws) = Inr b0"
      "tenantPortConflict w ws (pb_ServerID b0) (pb_HostPort b0) (pb_Protocol b0) = Inr (Some owner)" by blast
  show ?thesis using newPendingBinding_pending [OF b0(1)] tenantPortConflict_names [OF b0(2)] by metis
qed

section \<open>Ports the platform rejects\<close>

lemma decide_denied:
  assumes "ports_rule (pw_security w) (pb_WorkspaceID b) = Some (p, spec)" "sp_Mode p = ModeEnforce" "ps_Mode spec = PortsRejectAll"
  shows "\<not> pd_Allowed (decide w b privileged)"
  using assms enforced_allowed by (simp add: decide_def CheckPortRequest_def)

lemma publish_one_keeps:
  assumes "hp \<in> snd ` set (fst (publish_one w a b m))"
  shows "hp \<in> snd ` set (fst m) \<or> (hp = Itoa (pb_HostPort b) \<and> ud_Allowed (CheckPortPublish (pw_security w) (ar_WorkspaceID a) (publish_view b)))"
  using assms unfolding publish_one_def put_def by (cases m) (auto simp: Let_def split: if_split_asm)

lemma publish_fold:
  "hp \<in> snd ` set (fst (fold (publish_one w a) bs m)) \<Longrightarrow>
     hp \<in> snd ` set (fst m) \<or> (\<exists>b\<in>set bs. hp = Itoa (pb_HostPort b) \<and>
        ud_Allowed (CheckPortPublish (pw_security w) (ar_WorkspaceID a) (publish_view b)))"
proof (induction bs arbitrary: m)
  case (Cons b bs)
  from Cons.IH [of "publish_one w a b m"] Cons.prems show ?case using publish_one_keeps [of hp w a b m] by auto
qed simp

lemma published_from:
  assumes "hp \<in> snd ` set (fst (published_ports w a canary))"
  obtains b where "b \<in> set (pw_rows w)" "pb_ApplicationID b = ar_ID a" "approved b" "hp = Itoa (pb_HostPort b)" "\<not> canary"
    "ud_Allowed (CheckPortPublish (pw_security w) (ar_WorkspaceID a) (publish_view b))"
proof -
  have c: "\<not> canary" using assms by (auto simp: published_ports_def)
  then obtain bs where bs: "ListApprovedByApp w (ar_ID a) = Some bs"
    using assms by (auto simp: published_ports_def split: option.split_asm)
  then have "hp \<in> snd ` set (fst (fold (publish_one w a) bs ([], [])))" using assms c by (simp add: published_ports_def)
  from publish_fold [OF this] obtain b where b: "b \<in> set bs" "hp = Itoa (pb_HostPort b)"
      "ud_Allowed (CheckPortPublish (pw_security w) (ar_WorkspaceID a) (publish_view b))" by auto
  have "b \<in> set (pw_rows w) \<and> pb_ApplicationID b = ar_ID a \<and> approved b"
    using b(1) bs by (auto simp: ListApprovedByApp_def split: if_split_asm)
  then show thesis using that b(2,3) c by blast
qed

lemma rejected_publish:
  assumes "ports_rule s ws = Some (p, spec)" "sp_Mode p = ModeEnforce" "ps_Mode spec = PortsRejectAll"
    "ud_Allowed (CheckPortPublish s ws v)"
  shows "pv_AdminAdopted v \<or> (ps_Existing spec \<noteq> PortsExistingRevoke \<and> pv_UpdatedAt v \<le> sp_UpdatedAt p)"
  using assms by (auto simp: CheckPortPublish_def decidePublish_def grandfathered_def Let_def split: if_split_asm)

lemma reject_all_tighter:
  assumes "n = b \<or> \<not> portsLoosens ModeEnforce b ModeEnforce n" "ps_Mode b = PortsRejectAll" "parse_ports lib d = Inr n"
  shows "ps_Mode n = PortsRejectAll"
proof (cases "n = b")
  case False
  then have "\<not> portsModeRank (ps_Mode n) < portsModeRank PortsRejectAll"
    using assms(1,2) unfolding portsLoosens_def by metis
  then show ?thesis using parsed_mode [of _ _ n] assms(3) unfolding parse_ports_def
    by (auto simp: portsModeRank_def split: if_split_asm)
qed (simp add: assms(2))

text \<open>
  C30: a platform that rejects host ports gets none. While its rule is enforced without exceptions, no request and no
  import of any workspace, privileged or not, stores a binding, whatever narrower rules there are; and a deploy
  publishes nothing but approved bindings of its app that an admin adopted or that were last changed before the rule
  governing the workspace was, and canaries nothing at all.
\<close>

theorem rejected_ports_stay_closed:
  assumes platform: "find_scope (ListByKind (pw_security w) KindPorts) ScopePlatform 0 = Some base"
    and enforced: "sp_Mode base = ModeEnforce" "\<not> sp_AllowExceptions base"
    and spec: "parse_ports (se_lib (pw_security w)) (sp_Spec base) = Inr b" "ps_Mode b = PortsRejectAll"
    and up: "active (pw_security w)" "\<not> se_readDown (pw_security w)"
  shows "isl (Request win w ws user inp) \<and> isl (RequestImport win w ws user inp) \<and>
    (\<forall>hp\<in>snd ` set (fst (published_ports w a canary)). \<not> canary \<and>
       (\<exists>c\<in>set (pw_rows w). approved c \<and> pb_ApplicationID c = ar_ID a \<and> hp = Itoa (pb_HostPort c) \<and>
          (pb_AdminAdopted c \<or> (\<exists>p n. ports_rule (pw_security w) (ar_WorkspaceID a) = Some (p, n) \<and>
             pb_UpdatedAt c \<le> sp_UpdatedAt p \<and> ps_Existing n \<noteq> PortsExistingRevoke))))"
proof -
  have rule: "\<exists>p n. ports_rule (pw_security w) i = Some (p, n) \<and> sp_Mode p = ModeEnforce \<and> ps_Mode n = PortsRejectAll" for i
  proof -
    obtain p n where p: "ports_rule (pw_security w) i = Some (p, n)" "sp_Mode p = ModeEnforce"
        "n = b \<or> \<not> portsLoosens ModeEnforce b ModeEnforce n" "parse_ports (se_lib (pw_security w)) (sp_Spec p) = Inr n"
      using governing_rule [OF platform enforced spec(1) up] by blast
    then show ?thesis using reject_all_tighter [OF p(3) spec(2) p(4)] by blast
  qed
  have denied: "\<not> pd_Allowed (decide w c pr)" for c pr using rule decide_denied by metis
  have "isl (Request win w ws user inp)"
  proof (rule ccontr)
    assume "\<not> isl (Request win w ws user inp)"
    then obtain w' b' where "Request win w ws user inp = Inr (w', b')" by (metis isl_def old.sum.exhaust surj_pair)
    then show False using Request_InrD denied by metis
  qed
  moreover have "isl (RequestImport win w ws user inp)"
  proof (rule ccontr)
    assume "\<not> isl (RequestImport win w ws user inp)"
    then obtain w' b' c where "RequestImport win w ws user inp = Inr (w', b', c)" by (metis isl_def old.sum.exhaust surj_pair)
    then show False using RequestImport_InrD denied by metis
  qed
  moreover have "\<not> canary \<and> (\<exists>c\<in>set (pw_rows w). approved c \<and> pb_ApplicationID c = ar_ID a \<and> hp = Itoa (pb_HostPort c) \<and>
          (pb_AdminAdopted c \<or> (\<exists>p n. ports_rule (pw_security w) (ar_WorkspaceID a) = Some (p, n) \<and>
             pb_UpdatedAt c \<le> sp_UpdatedAt p \<and> ps_Existing n \<noteq> PortsExistingRevoke)))"
    if published: "hp \<in> snd ` set (fst (published_ports w a canary))" for hp
  proof -
    obtain c where c: "c \<in> set (pw_rows w)" "pb_ApplicationID c = ar_ID a" "approved c" "hp = Itoa (pb_HostPort c)" "\<not> canary"
        "ud_Allowed (CheckPortPublish (pw_security w) (ar_WorkspaceID a) (publish_view c))"
      using published_from [OF published] by metis
    obtain p n where p: "ports_rule (pw_security w) (ar_WorkspaceID a) = Some (p, n)" "sp_Mode p = ModeEnforce" "ps_Mode n = PortsRejectAll"
      using rule by blast
    from rejected_publish [OF p c(6)] p(1) c show ?thesis by (auto simp: publish_view_def)
  qed
  ultimately show ?thesis by blast
qed

section \<open>The overview is complete\<close>

text \<open>The host ports the containers of a node publish.\<close>

definition live_ports :: "Container list \<Rightarrow> (int \<times> string) set" where
  "live_ports cs = {(p, normProto proto) | c p proto. c \<in> set cs \<and> (p, proto) \<in> set (ct_Ports c) \<and> p \<noteq> 0}"

lemma published_keys: "fst ` set (publishedPorts cs) = (\<lambda>(p, q). portKey p q) ` live_ports cs"
proof -
  have "fst ` set (publishedPorts cs) = {portKey p proto | c p proto. c \<in> set cs \<and> (p, proto) \<in> set (ct_Ports c) \<and> p \<noteq> 0}"
    unfolding publishedPorts_def by (force simp: portKey_norm)
  also have "\<dots> = (\<lambda>(p, q). portKey p q) ` live_ports cs"
    unfolding live_ports_def by (auto simp: portKey_norm image_iff) (metis portKey_norm)+
  finally show ?thesis .
qed

definition entry_port :: "PortEntry \<Rightarrow> int \<times> string" where
  "entry_port e = (pe_HostPort e, pe_Protocol e)"

definition claimed_ports :: "PortBinding list \<Rightarrow> (int \<times> string) set" where
  "claimed_ports bs = (\<lambda>b. (pb_HostPort b, normProto (pb_Protocol b))) ` set bs"

lemma claimed_keys: "(\<lambda>b. portKey (pb_HostPort b) (pb_Protocol b)) ` set bs = (\<lambda>(p, q). portKey p q) ` claimed_ports bs"
  unfolding claimed_ports_def image_image by (simp add: portKey_norm)

lemma set_reconcile:
  "set (reconcile bs (Some cs)) =
     binding_entry (live_map (Some cs)) True ` set bs \<union>
     unmanaged_entry ` {kv \<in> set (live_map (Some cs)). fst kv \<notin> (\<lambda>b. portKey (pb_HostPort b) (pb_Protocol b)) ` set bs}"
  unfolding reconcile_def Let_def by (simp add: set_SliceStable) 

text \<open>
  The overview of a node that could be asked accounts for every host port. A port has an entry just when a pending
  or approved binding claims it or a container on the node publishes it; the entries marked unmanaged are those of the
  ports that containers publish and no binding claims, and a binding is shown as published just when it is approved
  and a container holds its port.
\<close>

theorem overview_accounts_for_every_port:
  assumes "\<forall>b\<in>set bs. 0 \<le> pb_HostPort b" "\<forall>c\<in>set cs. \<forall>(p, proto)\<in>set (ct_Ports c). 0 \<le> p"
  shows "entry_port ` set (reconcile bs (Some cs)) = claimed_ports bs \<union> live_ports cs \<and>
    entry_port ` {e \<in> set (reconcile bs (Some cs)). pe_State e = ''unmanaged''} = live_ports cs - claimed_ports bs"
proof -
  have nonneg: "0 \<le> p" if "(p, q) \<in> live_ports cs \<union> claimed_ports bs" for p q
    using that assms unfolding live_ports_def claimed_ports_def by fastforce
  have norm: "normProto q = q" if "(p, q) \<in> live_ports cs \<union> claimed_ports bs" for p q
    using that unfolding live_ports_def claimed_ports_def by auto
  have inj: "inj_on (\<lambda>(p, q). portKey p q) (live_ports cs \<union> claimed_ports bs)"
    by (rule inj_onI) (metis (no_types, lifting) nonneg norm parse_portKey case_prod_conv surj_pair)
  let ?free = "{kv \<in> set (live_map (Some cs)). fst kv \<notin> (\<lambda>b. portKey (pb_HostPort b) (pb_Protocol b)) ` set bs}"
  have keys: "fst ` set (live_map (Some cs)) = (\<lambda>(p, q). portKey p q) ` live_ports cs"
    using published_keys by (simp add: live_map_def dom_clearjunk)
  have "fst ` ?free = fst ` set (live_map (Some cs)) - (\<lambda>b. portKey (pb_HostPort b) (pb_Protocol b)) ` set bs"
    by auto
  also have "\<dots> = (\<lambda>(p, q). portKey p q) ` live_ports cs - (\<lambda>(p, q). portKey p q) ` claimed_ports bs"
    unfolding keys claimed_keys ..
  also have "\<dots> = (\<lambda>(p, q). portKey p q) ` (live_ports cs - claimed_ports bs)"
    by (rule inj_on_image_set_diff [OF inj, symmetric]) auto
  finally have free: "fst ` ?free = (\<lambda>(p, q). portKey p q) ` (live_ports cs - claimed_ports bs)" .
  have parsed: "entry_port (unmanaged_entry kv) = parsePortKey (fst kv)" for kv
    by (simp add: entry_port_def unmanaged_entry_def split: prod.split)
  have "entry_port ` unmanaged_entry ` ?free = parsePortKey ` fst ` ?free" by (simp add: image_image parsed)
  also have "\<dots> = (\<lambda>(p, q). parsePortKey (portKey p q)) ` (live_ports cs - claimed_ports bs)"
    unfolding free image_image by (simp add: case_prod_beta)
  also have "\<dots> = (\<lambda>x. x) ` (live_ports cs - claimed_ports bs)"
  proof (rule image_cong [OF refl])
    fix x assume "x \<in> live_ports cs - claimed_ports bs"
    then show "(case x of (p, q) \<Rightarrow> parsePortKey (portKey p q)) = x"
      using nonneg [of "fst x" "snd x"] norm [of "fst x" "snd x"] parse_portKey [of "fst x" "snd x"] by (simp add: case_prod_beta)
  qed
  also have "\<dots> = live_ports cs - claimed_ports bs" by simp
  finally have unmanaged: "entry_port ` unmanaged_entry ` ?free = live_ports cs - claimed_ports bs" .
  have bound: "entry_port ` binding_entry l i ` set bs = claimed_ports bs" for l i
    by (simp add: image_image entry_port_def binding_entry_def claimed_ports_def Let_def)
  have states: "pe_State (unmanaged_entry kv) = ''unmanaged''" "pe_State (binding_entry l i b) \<noteq> ''unmanaged''" for kv l i b
    by (simp_all add: unmanaged_entry_def binding_entry_def Let_def split: prod.split)
  have "{e \<in> set (reconcile bs (Some cs)). pe_State e = ''unmanaged''} = unmanaged_entry ` ?free"
    unfolding set_reconcile using states by auto
  moreover have "entry_port ` set (reconcile bs (Some cs)) = claimed_ports bs \<union> live_ports cs"
    unfolding set_reconcile image_Un bound unmanaged by blast
  ultimately show ?thesis using unmanaged by simp
qed
section \<open>At concrete inputs\<close>

definition port_window :: PortWindow where
  "port_window = \<lparr>win_min = 1, win_max = 3\<rparr>"

definition shop :: AppRow where
  "shop = \<lparr>ar_ID = 1, ar_WorkspaceID = 4, ar_ServerID = 3, ar_Released = True, ar_RedeployRequired = False\<rparr>"

definition foreign_container :: Container where
  "foreign_container = \<lparr>ct_ID = ''abc'', ct_Names = [''/db''], ct_Workspace = ''9'', ct_Ports = [(1, ''tcp'')]\<rparr>"

definition port_world :: "Security \<Rightarrow> PortBinding list \<Rightarrow> PortWorld" where
  "port_world sec rows = \<lparr>pw_rows = rows, pw_next = Suc (length rows), pw_apps = [shop],
     pw_ports = [\<lparr>pt_ApplicationID = 1, pt_ContainerPort = 5, pt_Protocol = ''tcp''\<rparr>], pw_privileged = [],
     pw_live = (\<lambda>n. if n = 3 then Some [foreign_container] else None), pw_security = sec, pw_readDown = False,
     pw_writeDown = False, pw_now = 50\<rparr>"

definition pending :: "nat \<Rightarrow> int \<Rightarrow> PortBinding" where
  "pending i port = \<lparr>pb_ID = i, pb_WorkspaceID = 4, pb_ApplicationID = 1, pb_ContainerPort = 5, pb_Protocol = ''tcp'',
     pb_HostPort = port, pb_Status = PortBindingPending, pb_ServerID = 3, pb_RequestedBy = 7, pb_ReviewedBy = None,
     pb_ReviewNote = [], pb_AdminAdopted = False, pb_UpdatedAt = 40\<rparr>"

definition inactive :: Security where
  "inactive = (security_at range8000)\<lparr>se_enabled := False\<rparr>"


definition filed :: "port_op list" where
  "filed = [OpRequest 4 7 \<lparr>ri_ApplicationID = 1, ri_ContainerPort = 5, ri_Protocol = ''tcp'', ri_HostPort = 2\<rparr>,
     OpRequest 4 7 \<lparr>ri_ApplicationID = 1, ri_ContainerPort = 5, ri_Protocol = ''tcp'', ri_HostPort = 2\<rparr>,
     OpApprove 1 2 [], OpApprove 2 2 []]"

definition filed_world :: PortWorld where
  "filed_world = port_run port_window filed (port_world inactive [])"

definition approved_ids :: "PortWorld \<Rightarrow> nat list" where
  "approved_ids w = map pb_ID (ListByStatus w PortBindingApproved)"

lemma filed_approved: "approved_ids filed_world = [1]"
  by code_simp

theorem one_binding_per_host_port_witness:
  "{(b, c). b \<in> set (pw_rows filed_world) \<and> c \<in> set (pw_rows filed_world) \<and> approved b \<and> approved c \<and>
      claim_key b = claim_key c \<and> b \<noteq> c} = {}"
proof -
  have "\<forall>b\<in>set (pw_rows filed_world). \<forall>c\<in>set (pw_rows filed_world).
     approved b \<and> approved c \<and> claim_key b = claim_key c \<longrightarrow> b = c"
    using one_binding_per_host_port [of "port_world inactive []" filed_world port_window filed]
    by (simp add: filed_world_def port_world_def)
  then show ?thesis by blast
qed

definition taken_request :: "port_error + PortWorld \<times> PortBinding \<times> string" where
  "taken_request = RequestImport port_window (port_world inactive []) 4 7
     \<lparr>ri_ApplicationID = 1, ri_ContainerPort = 5, ri_Protocol = ''tcp'', ri_HostPort = 1\<rparr>"

lemma taken_request_owner: "\<not> isl taken_request \<and> snd (snd (projr taken_request)) = ''another workload on the node''"
  by code_simp

theorem conflict_names_only_own_witness:
  "\<exists>w' b. taken_request = Inr (w', b, ''another workload on the node'') \<and>
     (''another workload on the node'' = ''another workload on the node'' \<or>
      (\<exists>c\<in>set (nodeContainers (port_world inactive []) 3). containerName c = ''another workload on the node'' \<and> ct_Workspace c = ''4''))"
proof -
  obtain w' b where run: "taken_request = Inr (w', b, ''another workload on the node'')"
    using taken_request_owner by (metis isl_def old.sum.exhaust prod.collapse sum.sel(2))
  have "RequestImport port_window (port_world inactive []) 4 7
     \<lparr>ri_ApplicationID = 1, ri_ContainerPort = 5, ri_Protocol = ''tcp'', ri_HostPort = 1\<rparr> = Inr (w', b, ''another workload on the node'')"
    using run unfolding taken_request_def .
  then have "Request port_window (port_world inactive []) 4 7
     \<lparr>ri_ApplicationID = 1, ri_ContainerPort = 5, ri_Protocol = ''tcp'', ri_HostPort = 1\<rparr> = Inl (HostPortTaken ''another workload on the node'') \<or>
     (\<exists>w' b. RequestImport port_window (port_world inactive []) 4 7
     \<lparr>ri_ApplicationID = 1, ri_ContainerPort = 5, ri_Protocol = ''tcp'', ri_HostPort = 1\<rparr> = Inr (w', b, ''another workload on the node'') \<and>
        ''another workload on the node'' \<noteq> [])" by blast
  note conflict_names_only_own [OF this]
  then show ?thesis using run by blast
qed

theorem rejected_ports_stay_closed_witness:
  "isl (Request port_window (port_world (security_at reject_revoke) []) 4 7
     \<lparr>ri_ApplicationID = 1, ri_ContainerPort = 5, ri_Protocol = ''tcp'', ri_HostPort = 2\<rparr>)"
  using rejected_ports_stay_closed [of "port_world (security_at reject_revoke) []" "platform_rule reject_revoke" reject_revoke port_window 4 7
      "\<lparr>ri_ApplicationID = 1, ri_ContainerPort = 5, ri_Protocol = ''tcp'', ri_HostPort = 2\<rparr>" shop False]
    platform_found [of reject_revoke] reject_revoke_parses
  by (simp add: port_world_def platform_rule_def security_at_def active_def reject_revoke_def)

theorem overview_accounts_for_every_port_witness:
  "entry_port ` set (reconcile [pending 1 2] (Some [foreign_container])) = {(2, ''tcp''), (1, ''tcp'')}"
  using overview_accounts_for_every_port [of "[pending 1 2]" "[foreign_container]"]
  by (auto simp: pending_def foreign_container_def claimed_ports_def live_ports_def normProto_def)

section \<open>Interleaved reviews and other findings\<close>

text \<open>
  Two reviews of requests for one port, both checked before either is written, approve both: nothing in the table
  refuses the second.
\<close>

definition both_approved :: "port_error + PortWorld" where
  "both_approved = (case approve_write (port_world inactive [pending 1 2, pending 2 2]) (pending 1 2) 2 [] of
     Inl e \<Rightarrow> Inl e | Inr w \<Rightarrow> approve_write w (pending 2 2) 5 [])"

theorem interleaved_reviews_share_a_port:
  "approve_check (port_world inactive [pending 1 2, pending 2 2]) 1 = Inr (pending 1 2) \<and>
   approve_check (port_world inactive [pending 1 2, pending 2 2]) 2 = Inr (pending 2 2) \<and>
   map_sum (\<lambda>e. e) approved_ids both_approved = Inr [1, 2]"
proof (intro conjI)
  show "approve_check (port_world inactive [pending 1 2, pending 2 2]) 1 = Inr (pending 1 2)" by code_simp
  show "approve_check (port_world inactive [pending 1 2, pending 2 2]) 2 = Inr (pending 2 2)" by code_simp
  show "map_sum (\<lambda>e. e) approved_ids both_approved = Inr [1, 2]" by code_simp
qed

text \<open>A request withdrawn while its review is under way comes back approved: the review's write inserts the row again.\<close>
theorem withdrawn_request_comes_back:
  "\<exists>w1 w2. approve_check (port_world inactive [pending 1 2]) 1 = Inr (pending 1 2) \<and>
     Cancel (port_world inactive [pending 1 2]) 4 1 = Inr w1 \<and> pw_rows w1 = [] \<and>
     approve_write w1 (pending 1 2) 2 [] = Inr w2 \<and> approved_ids w2 = [1]"
proof -
  let ?c = "Cancel (port_world inactive [pending 1 2]) 4 1"
  have "approve_check (port_world inactive [pending 1 2]) 1 = Inr (pending 1 2)" by code_simp
  moreover have "\<not> isl ?c \<and> map pb_ID (pw_rows (projr ?c)) = [] \<and> \<not> isl (approve_write (projr ?c) (pending 1 2) 2 []) \<and>
      approved_ids (projr (approve_write (projr ?c) (pending 1 2) 2 [])) = [1]" by code_simp
  ultimately show ?thesis by (metis list.map_disc_iff sum.collapse(2))
qed

text \<open>
  A container port can have several approved host ports; a deploy publishes the last of them only. The other keeps its
  claim on the node, and no deploy will ever publish it.
\<close>

definition approved_binding :: "nat \<Rightarrow> int \<Rightarrow> PortBinding" where
  "approved_binding i port = (pending i port)\<lparr>pb_Status := PortBindingApproved\<rparr>"

theorem second_host_port_replaces_first:
  "fst (published_ports (port_world inactive [approved_binding 1 2, approved_binding 2 3]) shop False) = [(''5/tcp'', ''3'')] \<and>
   HostPortInUse (port_world inactive [approved_binding 1 2, approved_binding 2 3]) 3 2 ''tcp'' 0 = Some True"
proof
  show "fst (published_ports (port_world inactive [approved_binding 1 2, approved_binding 2 3]) shop False) = [(''5/tcp'', ''3'')]"
    by code_simp
  show "HostPortInUse (port_world inactive [approved_binding 1 2, approved_binding 2 3]) 3 2 ''tcp'' 0 = Some True" by code_simp
qed

text \<open>
  A port adopted with a container of a remote node is booked on the local one: the port is refused to everybody there,
  and free on the node that publishes it as soon as the container is stopped.
\<close>

definition adopted_world :: PortWorld where
  "adopted_world = adopt_ports 4 1 7 [(5, ''tcp'', 3)] (port_world inactive [])"

theorem adopted_port_on_wrong_node:
  "ar_ServerID shop = 3 \<and> HostPortInUse adopted_world 3 3 ''tcp'' 0 = Some False \<and> HostPortInUse adopted_world 0 3 ''tcp'' 0 = Some True"
  by code_simp

end
