(* ===== verification/Registry_Images.thy ===== *)
theory Registry_Images
  imports Registry_Access Go_Regexp
begin

text \<open>
  The images of a workspace in the platform's registry: the grammar of repository names and tags
  (\<^verbatim>\<open>internal/services/registryserver/name.go\<close>), the listing of repositories, the order of their tags and the deletion
  of a tag (\<^verbatim>\<open>repos.go\<close>). The registry itself is third-party, a \<open>RegistryClient\<close>.
\<close>

section \<open>Names of repositories and tags\<close>

datatype name_error = ErrInvalidRepository | ErrInvalidTag

definition name_char :: "char \<Rightarrow> bool" where
  "name_char c \<longleftrightarrow> (of_char c :: nat) \<in> {97..122} \<or> is_digit c"

definition repoComponent :: rx where
  "repoComponent =
     (let sep = Alt (Lit CHR ''.'') (Alt (Lit CHR ''_'') (Alt (Cat (Lit CHR ''_'') (Lit CHR ''_'')) (Many (Lit CHR ''-''))))
      in Cat (Many (Cls name_char)) (Star (Cat sep (Many (Cls name_char)))))"

definition tagPattern :: rx where
  "tagPattern =
     (let word = (\<lambda>c. is_alpha c \<or> is_digit c \<or> c = CHR ''_'')
      in Cat (Cls word) (Opt (Upto 127 (Cls (\<lambda>c. word c \<or> c = CHR ''.'' \<or> c = CHR ''-'')))))"

definition maxRepositoryLength :: nat where "maxRepositoryLength = 255"

definition validateRepository :: "string \<Rightarrow> name_error + string" where
  "validateRepository img =
     (let name = TrimChar (TrimSpace img) CHR ''/'' in
      if name = [] then Inl ErrInvalidRepository
      else if list_all (rx_match repoComponent) (SplitChar name CHR ''/'') then Inr name
      else Inl ErrInvalidRepository)"

definition repoPath :: "nat \<Rightarrow> string \<Rightarrow> name_error + string" where
  "repoPath workspaceID img =
     (case validateRepository img of
        Inl e \<Rightarrow> Inl e
      | Inr name \<Rightarrow>
          (let repo = Namespace workspaceID @ ''/'' @ name in
           if length repo > maxRepositoryLength then Inl ErrInvalidRepository else Inr repo))"

definition validateTag :: "string \<Rightarrow> name_error option" where
  "validateTag tag = (if rx_match tagPattern (TrimSpace tag) then None else Some ErrInvalidTag)"

section \<open>Listing and deleting\<close>

fun splitRun :: "bool \<Rightarrow> string \<Rightarrow> string \<times> string" where
  "splitRun digits s = (takeWhile (\<lambda>c. is_digit c = digits) s, dropWhile (\<lambda>c. is_digit c = digits) s)"

function naturalLess :: "string \<Rightarrow> string \<Rightarrow> bool" where
  "naturalLess a b =
     (if a = [] \<or> b = [] then length a < length b
      else let ad = is_digit (hd a); bd = is_digit (hd b) in
        if ad \<noteq> bd then CompareStr a b < 0
        else let (ar, a') = splitRun ad a; (br, b') = splitRun bd b in
          if ar = br then naturalLess a' b'
          else if \<not> ad then CompareStr ar br < 0
          else let an = dropWhile (\<lambda>c. c = CHR ''0'') ar; bn = dropWhile (\<lambda>c. c = CHR ''0'') br in
            if length an \<noteq> length bn then length an < length bn
            else if an \<noteq> bn then CompareStr an bn < 0
            else length ar < length br)"
  by pat_completeness auto
termination
  by (relation "measure (\<lambda>(a, b). length a)") (auto simp: length_dropWhile_le less_Suc_eq_le neq_Nil_conv split: if_splits intro!: le_imp_less_Suc length_dropWhile_le)

declare naturalLess.simps [simp del]

definition tag_less :: "string \<Rightarrow> string \<Rightarrow> bool" where
  "tag_less a b =
     (if (a = ''latest'') \<noteq> (b = ''latest'') then a = ''latest'' else naturalLess b a)"

definition SortTags :: "string list \<Rightarrow> string list" where
  "SortTags tags = SliceStable tag_less tags"

record Repository =
  rp_Name :: string
  rp_Tags :: "string list"

text \<open>
  The registry itself is third-party: its catalogue, the tags of a repository (none when it is not found), a tag's
  digest, and which digests live releases protect.
\<close>

record RegistryClient =
  rc_Catalog :: "string list option"
  rc_Tags :: "string \<Rightarrow> string list option option"
  rc_ManifestDigest :: "string \<Rightarrow> string \<Rightarrow> string option"
  rc_Protected :: "string list option option"

fun list_repositories :: "RegistryClient \<Rightarrow> string \<Rightarrow> string list \<Rightarrow> Repository list option" where
  "list_repositories rc prefix [] = Some []"
| "list_repositories rc prefix (repo # rest) =
     (if \<not> HasPrefix repo prefix then list_repositories rc prefix rest
      else case rc_Tags rc repo of
             None \<Rightarrow> None
           | Some tags \<Rightarrow>
               map_option ((#) \<lparr>rp_Name = TrimPrefix repo prefix,
                                rp_Tags = SortTags (case tags of None \<Rightarrow> [] | Some ts \<Rightarrow> ts)\<rparr>)
                 (list_repositories rc prefix rest))"

definition ListRepositories :: "RegistryClient \<Rightarrow> nat \<Rightarrow> Repository list option" where
  "ListRepositories rc workspaceID =
     (case rc_Catalog rc of
        None \<Rightarrow> None
      | Some repos \<Rightarrow>
          map_option (SliceStable (\<lambda>a b. CompareStr (rp_Name a) (rp_Name b) < 0))
            (list_repositories rc (Namespace workspaceID @ ''/'') repos))"

datatype delete_error = BadName name_error | NotFound | ProtectionUnknown | TagInUse

text \<open>The manifest a deletion of a tag takes away: the repository and the digest.\<close>

definition DeleteTag :: "RegistryClient \<Rightarrow> nat \<Rightarrow> string \<Rightarrow> string \<Rightarrow> delete_error + string \<times> string" where
  "DeleteTag rc workspaceID img tag =
     (case repoPath workspaceID img of
        Inl e \<Rightarrow> Inl (BadName e)
      | Inr repo \<Rightarrow>
          (case validateTag tag of
             Some e \<Rightarrow> Inl (BadName e)
           | None \<Rightarrow>
               (case rc_ManifestDigest rc repo tag of
                  None \<Rightarrow> Inl NotFound
                | Some digest \<Rightarrow>
                    (case rc_Protected rc of
                       None \<Rightarrow> Inr (repo, digest)
                     | Some None \<Rightarrow> Inl ProtectionUnknown
                     | Some (Some ds) \<Rightarrow> if digest \<in> set ds then Inl TagInUse else Inr (repo, digest)))))"

section \<open>Deletions stay in the namespace\<close>

lemma component_spelling:
  assumes "rx_match repoComponent part"
  shows "part \<noteq> []" "CHR ''/'' \<notin> set part" "part \<noteq> ''.''" "part \<noteq> ''..''"
proof -
  from assms have "spells repoComponent part" by (simp add: rx_match_iff)
  then obtain u v where "part = u @ v" "u \<noteq> []" "list_all name_char u"
    unfolding repoComponent_def Let_def by (auto elim!: spells_CatE)
  then obtain c t where c: "part = c # t" "name_char c" by (cases u) auto
  show "part \<noteq> []" using c by simp
  show "part \<noteq> ''.''" "part \<noteq> ''..''" using c by (auto simp: name_char_def is_digit_def)
  show "CHR ''/'' \<notin> set part"
    using rx_match_chars [OF assms, of "CHR ''/''"] by (auto simp: repoComponent_def Let_def name_char_def is_digit_def)
qed

lemma repoPath_SomeD:
  assumes "repoPath ws img = Inr repo"
  obtains parts where "parts \<noteq> []" "list_all (rx_match repoComponent) parts"
    "repo = JoinStr (Namespace ws # parts) ''/''" "length repo \<le> maxRepositoryLength"
    "path_segments (''/v2/'' @ repo) = ''v2'' # Namespace ws # parts"
proof -
  let ?name = "TrimChar (TrimSpace img) CHR ''/''" and ?parts = "SplitChar (TrimChar (TrimSpace img) CHR ''/'') CHR ''/''"
  have parts: "list_all (rx_match repoComponent) ?parts" and repo: "repo = Namespace ws @ ''/'' @ ?name"
    and len: "length repo \<le> maxRepositoryLength"
    using assms by (auto simp: repoPath_def validateRepository_def Let_def split: if_split_asm)
  have join: "repo = JoinStr (Namespace ws # ?parts) ''/''"
    using repo JoinStr_SplitChar [of ?name "CHR ''/''"] by (simp add: JoinStr_cases)
  have ok: "x \<noteq> [] \<and> x \<noteq> ''.'' \<and> x \<noteq> ''..'' \<and> CHR ''/'' \<notin> set x" if "x \<in> set (''v2'' # Namespace ws # ?parts)" for x
    using that component_spelling [of x] parts Namespace_segment [of ws] by (auto simp: list_all_iff)
  have "''/v2/'' @ repo = CHR ''/'' # JoinStr (''v2'' # Namespace ws # ?parts) ''/''"
    unfolding join by (simp add: JoinStr_cases)
  moreover have "path_segments (CHR ''/'' # JoinStr (''v2'' # Namespace ws # ?parts) ''/'') = ''v2'' # Namespace ws # ?parts"
    by (rule path_segments_plain) (blast, rule ok)
  ultimately have "path_segments (''/v2/'' @ repo) = ''v2'' # Namespace ws # ?parts" by (simp only:)
  then show thesis using that [of ?parts] parts join len by simp
qed

text \<open>
  C27: a deletion takes an image of the workspace's own namespace, one that no live release needs. The repository it
  names is below \<^verbatim>\<open>ws_<id>\<close> however the name is written and cleaned, fits the registry's limit, and the manifest is the
  tag's; when the releases' digests are known it is none of them, and when they cannot be read nothing is deleted.
\<close>

theorem deletions_stay_home:
  assumes "DeleteTag rc ws img tag = Inr (repo, digest)"
  shows "\<exists>parts. parts \<noteq> [] \<and> list_all (rx_match repoComponent) parts \<and> repo = JoinStr (Namespace ws # parts) ''/'' \<and>
      path_segments (''/v2/'' @ repo) = ''v2'' # Namespace ws # parts \<and> length repo \<le> 255 \<and>
      rx_match tagPattern (TrimSpace tag) \<and> rc_ManifestDigest rc repo tag = Some digest \<and>
      (rc_Protected rc = None \<or> (\<exists>ds. rc_Protected rc = Some (Some ds) \<and> digest \<notin> set ds))"
proof -
  have path: "repoPath ws img = Inr repo" and rest: "rx_match tagPattern (TrimSpace tag)" "rc_ManifestDigest rc repo tag = Some digest"
    "rc_Protected rc = None \<or> (\<exists>ds. rc_Protected rc = Some (Some ds) \<and> digest \<notin> set ds)"
    using assms by (auto simp: DeleteTag_def validateTag_def split: sum.split_asm option.split_asm if_split_asm)
  from path show ?thesis by (rule repoPath_SomeD) (use rest in \<open>auto simp: maxRepositoryLength_def\<close>)
qed

text \<open>What a workspace is shown are the repositories of its namespace, by name, each with its tags newest first.\<close>

lemma list_repositories_Some:
  "list_repositories rc prefix repos = Some out \<Longrightarrow>
     map rp_Name out = map (\<lambda>r. TrimPrefix r prefix) (filter (\<lambda>r. HasPrefix r prefix) repos) \<and>
     (\<forall>r\<in>set out. \<exists>ts. rp_Tags r = SortTags ts)"
proof (induction repos arbitrary: out)
  case (Cons repo rest)
  show ?case
  proof (cases "HasPrefix repo prefix")
    case True
    with Cons.prems obtain tags out' where "rc_Tags rc repo = Some tags" "list_repositories rc prefix rest = Some out'"
      "out = \<lparr>rp_Name = TrimPrefix repo prefix, rp_Tags = SortTags (case tags of None \<Rightarrow> [] | Some ts \<Rightarrow> ts)\<rparr> # out'"
      by (auto split: option.split_asm)
    then show ?thesis using Cons.IH True by auto
  qed (use Cons in simp)
qed simp

interpretation by_name: strict_weak "\<lambda>a b. CompareStr (rp_Name a) (rp_Name b) < 0" "\<lambda>_. True"
  by unfold_locales (auto simp: CompareStr_def split: if_splits)

theorem listing_is_the_namespace:
  assumes "ListRepositories rc ws = Some out" and "rc_Catalog rc = Some repos"
  shows "mset (map (\<lambda>r. Namespace ws @ ''/'' @ rp_Name r) out) = mset (filter (\<lambda>r. HasPrefix r (Namespace ws @ ''/'')) repos) \<and>
    sorted_wrt (\<lambda>a b. \<not> rp_Name b < rp_Name a) out"
proof -
  let ?p = "Namespace ws @ ''/''" and ?lt = "\<lambda>a b. CompareStr (rp_Name a) (rp_Name b) < 0"
  obtain rs where rs: "list_repositories rc ?p repos = Some rs" "out = SliceStable ?lt rs"
    using assms by (auto simp: ListRepositories_def)
  have whole: "?p @ TrimPrefix r ?p = r" if "HasPrefix r ?p" for r
    using that unfolding HasPrefix_iff by (auto simp: TrimPrefix_def HasPrefix_iff)
  have "map (\<lambda>r. ?p @ rp_Name r) rs = map ((@) ?p) (map rp_Name rs)" by simp
  also have "map rp_Name rs = map (\<lambda>r. TrimPrefix r ?p) (filter (\<lambda>r. HasPrefix r ?p) repos)"
    using list_repositories_Some [OF rs(1)] by simp
  also have "map ((@) ?p) (map (\<lambda>r. TrimPrefix r ?p) (filter (\<lambda>r. HasPrefix r ?p) repos)) = filter (\<lambda>r. HasPrefix r ?p) repos"
    using whole by (induction repos) auto
  finally have names: "map (\<lambda>r. ?p @ rp_Name r) rs = filter (\<lambda>r. HasPrefix r ?p) repos" .
  have "mset (map (\<lambda>r. ?p @ rp_Name r) out) = mset (map (\<lambda>r. ?p @ rp_Name r) rs)" unfolding rs(2) mset_map by simp
  then have all: "mset (map (\<lambda>r. ?p @ rp_Name r) out) = mset (filter (\<lambda>r. HasPrefix r ?p) repos)" unfolding names .
  have "sorted_wrt (\<lambda>a b. \<not> ?lt b a) out" unfolding rs(2) by (rule by_name.SliceStable_sorted) simp
  then have sorted: "sorted_wrt (\<lambda>a b. \<not> rp_Name b < rp_Name a) out"
    by (rule sorted_wrt_mono_rel [rotated]) (auto simp: CompareStr_def split: if_split_asm)
  show ?thesis using all sorted unfolding append_assoc by (rule conjI)
qed

section \<open>The order of tags\<close>

text \<open>The reading a person gives a tag: its runs of digits and of other characters, digits by their value.\<close>

function runs :: "string \<Rightarrow> string list" where
  "runs s = (if s = [] then [] else let (r, t) = splitRun (is_digit (hd s)) s in r # runs t)"
  by pat_completeness auto
termination
  by (relation "measure length") (auto simp: neq_Nil_conv less_Suc_eq_le length_dropWhile_le)

declare runs.simps [simp del]

definition run_cmp :: "string \<Rightarrow> string \<Rightarrow> int" where
  "run_cmp r t =
     (if list_all is_digit r \<and> list_all is_digit t then
        (if digits_val r \<noteq> digits_val t then sign_of (digits_val r - digits_val t)
         else sign_of (int (length r) - int (length t)))
      else CompareStr r t)"

definition a_run :: "string \<Rightarrow> bool" where
  "a_run r \<longleftrightarrow> r \<noteq> [] \<and> (list_all is_digit r \<or> list_all (\<lambda>c. \<not> is_digit c) r)"

subsection \<open>Digits by value\<close>

lemma digit_val_bounds: "is_digit c \<Longrightarrow> 0 \<le> digit_val c \<and> digit_val c \<le> 9"
  by (auto simp: is_digit_def digit_val_def)

lemma digits_val_Cons: "digits_val (c # s) = digit_val c * 10 ^ length s + digits_val s"
proof (induction s rule: rev_induct)
  case (snoc d s)
  have "digits_val (c # s @ [d]) = 10 * digits_val (c # s) + digit_val d"
    using digits_val_append [of "c # s" d] by simp
  then show ?case using snoc by (simp add: algebra_simps)
qed (simp add: digits_val_def)

lemma digits_val_bounds: "list_all is_digit s \<Longrightarrow> 0 \<le> digits_val s \<and> digits_val s < 10 ^ length s"
proof (induction s)
  case (Cons c s)
  then have c: "0 \<le> digit_val c" "digit_val c \<le> 9" using digit_val_bounds [of c] by auto
  have "digit_val c * 10 ^ length s \<le> 9 * 10 ^ length s" using c(2) by (rule mult_right_mono) simp
  moreover have "0 \<le> digit_val c * 10 ^ length s" using c(1) by simp
  moreover have "0 \<le> digits_val s" "digits_val s < 10 ^ length s" using Cons by simp_all
  ultimately show ?case unfolding digits_val_Cons by (simp only: list.size power_Suc power_add power_one_right One_nat_def add_0_right add_Suc_right) linarith
qed (simp add: digits_val_def)

lemma digits_val_leading:
  assumes "list_all is_digit (c # s)" and "c \<noteq> CHR ''0''"
  shows "10 ^ length s \<le> digits_val (c # s)"
proof -
  have "of_char c \<noteq> (of_char (CHR ''0'') :: nat)" using assms(2) by (simp only: of_char_eq_iff not_False_eq_True)
  then have "1 \<le> digit_val c" using assms(1) by (auto simp: is_digit_def digit_val_def)
  then have "1 * 10 ^ length s \<le> digit_val c * 10 ^ length s" by (rule mult_right_mono) simp
  moreover have "0 \<le> digits_val s" using digits_val_bounds [of s] assms(1) by simp
  ultimately show ?thesis unfolding digits_val_Cons by linarith
qed

lemma digits_val_strip: "digits_val (dropWhile (\<lambda>c. c = CHR ''0'') s) = digits_val s"
  by (induction s) (simp_all add: digits_val_Cons, simp add: digit_val_def)

lemma strip_digits: "list_all is_digit s \<Longrightarrow> list_all is_digit (dropWhile P s)"
  by (auto simp: list_all_iff dest: set_dropWhileD)

lemma shorter_is_smaller:
  assumes "list_all is_digit s" "list_all is_digit t" and "t \<noteq> [] \<Longrightarrow> hd t \<noteq> CHR ''0''" and "length s < length t"
  shows "digits_val s < digits_val t"
proof -
  obtain c u where t: "t = c # u" using assms(4) by (cases t) auto
  have "digits_val s < 10 ^ length s" using digits_val_bounds assms(1) by blast
  also have "(10::int) ^ length s \<le> 10 ^ length u" using assms(4) t by (intro power_increasing) auto
  also have "10 ^ length u \<le> digits_val t" using digits_val_leading [of c u] assms(2,3) t by simp
  finally show ?thesis .
qed

lemma digit_order: "is_digit c \<Longrightarrow> is_digit d \<Longrightarrow> c < d \<longleftrightarrow> digit_val c < digit_val d"
  by (auto simp: is_digit_def digit_val_def less_char_def)

lemma digit_val_inj: "is_digit c \<Longrightarrow> is_digit d \<Longrightarrow> digit_val c = digit_val d \<Longrightarrow> c = d"
  using digit_order [of c d] digit_order [of d c] by (cases c d rule: linorder_cases) auto

lemma same_length_by_text:
  "list_all is_digit s \<Longrightarrow> list_all is_digit t \<Longrightarrow> length s = length t \<Longrightarrow>
     (s < t \<longleftrightarrow> digits_val s < digits_val t) \<and> (digits_val s = digits_val t \<longrightarrow> s = t)"
proof (induction s arbitrary: t)
  case (Cons c s)
  obtain d u where t: "t = d # u" using Cons.prems(3) by (cases t) auto
  have IH: "(s < u \<longleftrightarrow> digits_val s < digits_val u) \<and> (digits_val s = digits_val u \<longrightarrow> s = u)"
    using Cons t by simp
  have dig: "is_digit c" "is_digit d" "length u = length s" using Cons.prems t by auto
  have b: "0 \<le> digits_val s" "digits_val s < 10 ^ length s" "0 \<le> digits_val u" "digits_val u < 10 ^ length s"
    using digits_val_bounds [of s] digits_val_bounds [of u] Cons.prems t by auto
  have up: "digits_val (x # s) < digits_val (y # u) \<and> digits_val (x # u) < digits_val (y # s)"
    if "digit_val x < digit_val y" for x y
  proof -
    have "(digit_val x + 1) * 10 ^ length s \<le> digit_val y * 10 ^ length s" using that by (intro mult_right_mono) auto
    then show ?thesis using b dig(3) by (simp add: digits_val_Cons algebra_simps)
  qed
  consider "c < d" | "d < c" | "c = d" using less_linear by blast
  then show ?case
  proof cases
    case 1
    then show ?thesis using up [of c d] digit_order dig t by simp
  next
    case 2
    then have "digits_val (d # u) < digits_val (c # s)" using up [of d c] digit_order dig by blast
    then show ?thesis using 2 t by auto
  next
    case 3
    then show ?thesis using IH dig(3) t by (simp add: digits_val_Cons)
  qed
qed simp

text \<open>The code compares digits without their leading zeros by length and then as text; that is their value.\<close>

lemma by_value:
  assumes "list_all is_digit s" "list_all is_digit t"
  shows "(let sn = dropWhile (\<lambda>c. c = CHR ''0'') s; tn = dropWhile (\<lambda>c. c = CHR ''0'') t in
     (if length sn \<noteq> length tn then length sn < length tn else sn \<noteq> tn \<and> CompareStr sn tn < 0)
       \<longleftrightarrow> digits_val s < digits_val t)
   \<and> (dropWhile (\<lambda>c. c = CHR ''0'') s = dropWhile (\<lambda>c. c = CHR ''0'') t \<longleftrightarrow> digits_val s = digits_val t)"
proof -
  define sn tn where n: "sn = dropWhile (\<lambda>c. c = CHR ''0'') s" "tn = dropWhile (\<lambda>c. c = CHR ''0'') t"
  have val: "digits_val sn = digits_val s" "digits_val tn = digits_val t" unfolding n by (rule digits_val_strip)+
  have dig: "list_all is_digit sn" "list_all is_digit tn" unfolding n using strip_digits assms by blast+
  have lead: "sn \<noteq> [] \<Longrightarrow> hd sn \<noteq> CHR ''0''" "tn \<noteq> [] \<Longrightarrow> hd tn \<noteq> CHR ''0''"
    unfolding n using hd_dropWhile [of "\<lambda>c. c = CHR ''0''"] by blast+
  consider "length sn < length tn" | "length tn < length sn" | "length sn = length tn" by linarith
  then have "(if length sn \<noteq> length tn then length sn < length tn else sn \<noteq> tn \<and> CompareStr sn tn < 0) = (digits_val sn < digits_val tn)
      \<and> (sn = tn) = (digits_val sn = digits_val tn)"
  proof cases
    case 1
    then show ?thesis using shorter_is_smaller [OF dig lead(2) 1] by auto
  next
    case 2
    then show ?thesis using shorter_is_smaller [OF dig(2,1) lead(1) 2] by auto
  next
    case 3
    then show ?thesis using same_length_by_text [OF dig 3] by (auto simp: CompareStr_def)
  qed
  then show ?thesis unfolding Let_def n [symmetric] val .
qed

subsection \<open>Natural order is the order of the runs\<close>

lemma runs_Nil [simp]: "runs [] = []"
  by (simp add: runs.simps)

lemma run_shape:
  assumes "s \<noteq> []" and "splitRun (is_digit (hd s)) s = (r, t)"
  shows "runs s = r # runs t" and "s = r @ t" and "r \<noteq> []" and "hd r = hd s"
    and "list_all is_digit r \<longleftrightarrow> is_digit (hd s)" and "a_run r"
proof -
  have r: "r = takeWhile (\<lambda>c. is_digit c = is_digit (hd s)) s" "t = dropWhile (\<lambda>c. is_digit c = is_digit (hd s)) s"
    using assms(2) by auto
  show "runs s = r # runs t" using assms by (subst runs.simps) simp
  show "s = r @ t" unfolding r by simp
  show ne: "r \<noteq> []" "hd r = hd s" unfolding r using assms(1) by (cases s; simp)+
  have all: "is_digit c = is_digit (hd s)" if "c \<in> set r" for c
    using that set_takeWhileD unfolding r by metis
  show "list_all is_digit r \<longleftrightarrow> is_digit (hd s)"
    using all ne(1) by (metis hd_in_set list_all_iff)
  show "a_run r" unfolding a_run_def list_all_iff using all ne(1) by blast
qed

lemma runs_are_runs: "list_all a_run (runs s)"
proof (induction s rule: runs.induct)
  case (1 s)
  show ?case
  proof (cases "s = []")
    case False
    obtain r t where rt: "splitRun (is_digit (hd s)) s = (r, t)" by fastforce
    have "list_all a_run (runs t)" using 1 [OF False rt [symmetric]] by blast
    then show ?thesis using run_shape [OF False rt] by simp
  qed simp
qed

lemma concat_runs: "concat (runs s) = s"
proof (induction s rule: runs.induct)
  case (1 s)
  show ?case
  proof (cases "s = []")
    case False
    obtain r t where rt: "splitRun (is_digit (hd s)) s = (r, t)" by fastforce
    have "concat (runs t) = t" using 1 [OF False rt [symmetric]] by blast
    then show ?thesis using run_shape(1,2) [OF False rt] by simp
  qed simp
qed

lemma runs_eq_Nil: "runs s = [] \<longleftrightarrow> s = []"
  using concat_runs [of s] by (cases "runs s") auto

lemma run_cmp_0: "run_cmp r t = 0 \<longleftrightarrow> r = t"
proof (cases "list_all is_digit r \<and> list_all is_digit t")
  case True
  then show ?thesis using same_length_by_text [of r t] by (auto simp: run_cmp_def sign_of_def)
qed (auto simp: run_cmp_def)

lemma CompareStr_hd: "a \<noteq> [] \<Longrightarrow> b \<noteq> [] \<Longrightarrow> hd a \<noteq> hd b \<Longrightarrow> CompareStr a b = (if hd a < hd b then -1 else 1)"
  by (cases a; cases b) (auto simp: CompareStr_def)

lemma naturalLess_same_class:
  assumes ne: "a \<noteq> []" "b \<noteq> []" and cls: "is_digit (hd a) = is_digit (hd b)"
    and ar: "splitRun (is_digit (hd a)) a = (ar, a')" and br: "splitRun (is_digit (hd b)) b = (br, b')"
  shows "naturalLess a b = (if ar = br then naturalLess a' b'
          else if \<not> is_digit (hd a) then CompareStr ar br < 0
          else let an = dropWhile (\<lambda>c. c = CHR ''0'') ar; bn = dropWhile (\<lambda>c. c = CHR ''0'') br in
            if length an \<noteq> length bn then length an < length bn
            else if an \<noteq> bn then CompareStr an bn < 0 else length ar < length br)"
  by (rule trans [OF naturalLess.simps], unfold Let_def)
    (simp only: ne cls ar [unfolded cls] br simp_thms if_False prod.case)

lemma naturalLess_runs: "naturalLess a b \<longleftrightarrow> lex_cmp run_cmp (runs a) (runs b) < 0"
proof (induction a b rule: naturalLess.induct)
  case (1 a b)
  show ?case
  proof (cases "a = [] \<or> b = []")
    case True
    have less: "naturalLess a b \<longleftrightarrow> length a < length b" using True by (subst naturalLess.simps) (simp only: if_True)
    show ?thesis
    proof (cases "a = []")
      case a: True
      show ?thesis unfolding less using a runs_eq_Nil [of b] by (cases "runs b") auto
    next
      case False
      then have b: "b = []" using True by simp
      show ?thesis unfolding less using b runs_eq_Nil [of a] False by (cases "runs a") auto
    qed
  next
    case False
    obtain ar a' where ar: "splitRun (is_digit (hd a)) a = (ar, a')" by fastforce
    obtain br b' where br: "splitRun (is_digit (hd b)) b = (br, b')" by fastforce
    have ne: "a \<noteq> []" "b \<noteq> []" using False by auto
    note a = run_shape [OF ne(1) ar] and b = run_shape [OF ne(2) br]
    have lex: "lex_cmp run_cmp (runs a) (runs b) = (if run_cmp ar br \<noteq> 0 then run_cmp ar br else lex_cmp run_cmp (runs a') (runs b'))"
      unfolding a(1) b(1) by simp
    show ?thesis
    proof (cases "is_digit (hd a) = is_digit (hd b)")
      case False
      then have hd: "hd a \<noteq> hd b" by auto
      have "run_cmp ar br = CompareStr ar br" using False a(5) b(5) by (auto simp: run_cmp_def)
      then have "run_cmp ar br = CompareStr a b" "run_cmp ar br \<noteq> 0"
        using hd ne a(3,4) b(3,4) by (auto simp: CompareStr_hd)
      then show ?thesis using False ne lex by (subst naturalLess.simps) (simp add: Let_def)
    next
      case True
      note step = naturalLess_same_class [OF ne True ar br]
      show ?thesis
      proof (cases "ar = br")
        case eq: True
        have "naturalLess a' b' \<longleftrightarrow> lex_cmp run_cmp (runs a') (runs b') < 0"
          using 1 [OF False refl refl _ ar [symmetric] refl _ refl eq] True br by simp
        then show ?thesis unfolding step lex using eq run_cmp_0 [of ar br] by simp
      next
        case ne_run: False
        then have lex2: "lex_cmp run_cmp (runs a) (runs b) = run_cmp ar br" unfolding lex run_cmp_0 by simp
        show ?thesis
        proof (cases "is_digit (hd a)")
          case dig: True
          then have "list_all is_digit ar" "list_all is_digit br" using True a(5) b(5) by auto
          then show ?thesis using by_value [of ar br] ne_run dig
            unfolding lex2 step by (auto simp: Let_def run_cmp_def sign_of_def split: if_split_asm)
        next
          case False
          then have "\<not> list_all is_digit ar" using a(5) by simp
          then show ?thesis using False ne_run unfolding lex2 step by (simp add: run_cmp_def)
        qed
      qed
    qed
  qed
qed

subsection \<open>A total order, newest first\<close>

definition run_rank :: "string \<Rightarrow> int" where
  "run_rank r = (if list_all is_digit r then 1 else if hd r < CHR ''0'' then 0 else 2)"

lemma digit_between: "is_digit c \<longleftrightarrow> CHR ''0'' \<le> c \<and> c \<le> CHR ''9''"
  by (simp add: is_digit_def less_eq_char_def)

lemma run_cmp_rank:
  assumes "a_run r" "a_run t" and "run_rank r \<noteq> run_rank t"
  shows "run_cmp r t = sign_of (run_rank r - run_rank t)"
proof -
  have cls: "list_all is_digit x \<longleftrightarrow> is_digit (hd x)" "x \<noteq> []" if "a_run x" for x
    using that by (cases x; auto simp: a_run_def)+
  have rk: "run_rank x = (if is_digit (hd x) then 1 else if hd x < CHR ''0'' then 0 else 2)" if "a_run x" for x
    unfolding run_rank_def cls(1) [OF that] ..
  have "hd r \<noteq> hd t" "hd r < hd t \<longleftrightarrow> run_rank r < run_rank t"
    using assms(3) unfolding rk [OF assms(1)] rk [OF assms(2)] digit_between by (auto split: if_split_asm)
  moreover have "run_cmp r t = CompareStr r t"
    using assms(3) by (auto simp: run_cmp_def run_rank_def)
  ultimately show ?thesis
    using CompareStr_hd [of r t] cls(2) [OF assms(1)] cls(2) [OF assms(2)] assms(3) by (auto simp: sign_of_def)
qed

interpretation run_order: three_way run_cmp a_run
proof unfold_locales
  fix r t assume "a_run r" "a_run t"
  show "run_cmp t r = - run_cmp r t"
    using str_order.cmp_anti [of r t] by (auto simp: run_cmp_def sign_of_def)
next
  fix r t u assume runs: "a_run r" "a_run t" "a_run u" and le: "run_cmp r t \<le> 0" "run_cmp t u \<le> 0"
  have rank: "run_rank r \<le> run_rank t" "run_rank t \<le> run_rank u"
    using le run_cmp_rank runs by (fastforce simp: sign_of_def split: if_split_asm)+
  show "run_cmp r u \<le> 0"
  proof (cases "run_rank r = run_rank u")
    case False
    then show ?thesis using run_cmp_rank [OF runs(1,3)] rank by (simp add: sign_of_def)
  next
    case True
    then have "run_rank r = run_rank t" "run_rank t = run_rank u" using rank by auto
    then have "list_all is_digit r \<longleftrightarrow> list_all is_digit t" "list_all is_digit t \<longleftrightarrow> list_all is_digit u"
      by (auto simp: run_rank_def split: if_split_asm)
    then show ?thesis
      using le str_order.cmp_trans [of r t u] by (auto simp: run_cmp_def sign_of_def split: if_split_asm)
  qed
qed

interpretation natural: three_way "\<lambda>a b. lex_cmp run_cmp (runs a) (runs b)" "\<lambda>_. True"
proof unfold_locales
  show "lex_cmp run_cmp (runs y) (runs x) = - lex_cmp run_cmp (runs x) (runs y)" for x y
    by (rule run_order.lex_cmp_anti) (rule runs_are_runs)+
  show "lex_cmp run_cmp (runs x) (runs z) \<le> 0"
    if "lex_cmp run_cmp (runs x) (runs y) \<le> 0" "lex_cmp run_cmp (runs y) (runs z) \<le> 0" for x y z
    using run_order.lex_cmp_trans [OF runs_are_runs runs_are_runs runs_are_runs that] .
qed

lemma lex_run_0: "lex_cmp run_cmp xs ys = 0 \<longleftrightarrow> xs = ys"
proof (induction xs arbitrary: ys)
  case Nil
  then show ?case by (cases ys) auto
next
  case (Cons x xs)
  then show ?case using run_cmp_0 by (cases ys) auto
qed

lemma runs_inj: "runs a = runs b \<longleftrightarrow> a = b"
  by (metis concat_runs)

lemma natural_total: "\<not> naturalLess a b \<Longrightarrow> \<not> naturalLess b a \<Longrightarrow> a = b"
  using natural.cmp_anti [of a b] lex_run_0 [of "runs a" "runs b"] unfolding naturalLess_runs runs_inj by simp

interpretation tags: strict_weak tag_less "\<lambda>_. True"
proof unfold_locales
  show "\<not> tag_less x x" for x
    using natural.asc.irrefl [of x] by (simp add: tag_less_def naturalLess_runs)
  show "tag_less x z" if "tag_less x y" "tag_less y z" for x y z
    using that natural.asc.trans [of z y x] by (auto simp: tag_less_def naturalLess_runs split: if_split_asm)
  show "tag_less x y \<or> tag_less y z" if "tag_less x z" for x y z
    using that natural.asc.cotrans [of z x y] by (auto simp: tag_less_def naturalLess_runs split: if_split_asm)
qed

lemma tags_total: "\<not> tag_less a b \<Longrightarrow> \<not> tag_less b a \<Longrightarrow> a = b"
  using natural_total [of a b] by (auto simp: tag_less_def split: if_split_asm)

text \<open>
  C36: tags are listed newest first. \<open>latest\<close> comes before all others; the others stand in descending order of their
  runs, runs of digits compared by the number they write, so that \<open>v10\<close> comes before \<open>v9\<close>. The order is total,
  so the result is the only sorted arrangement of the tags, whichever algorithm \<^verbatim>\<open>sort.Slice\<close> uses, and stable or not.
\<close>

theorem tags_newest_first:
  "mset (SortTags tags) = mset tags \<and> sorted_wrt (\<lambda>a b. \<not> tag_less b a) (SortTags tags) \<and>
   (\<forall>ys. mset ys = mset tags \<and> sorted_wrt (\<lambda>a b. \<not> tag_less b a) ys \<longrightarrow> ys = SortTags tags) \<and>
   (''latest'' \<in> set tags \<longrightarrow> hd (SortTags tags) = ''latest'') \<and>
   (\<forall>a b. tag_less a b \<longleftrightarrow>
      (if (a = ''latest'') \<noteq> (b = ''latest'') then a = ''latest'' else lex_cmp run_cmp (runs b) (runs a) < 0))"
proof -
  have sorted: "sorted_wrt (\<lambda>a b. \<not> tag_less b a) (SortTags tags)"
    unfolding SortTags_def by (rule tags.SliceStable_sorted) simp
  have mset: "mset (SortTags tags) = mset tags" by (simp add: SortTags_def)
  have "ys = SortTags tags" if "mset ys = mset tags" "sorted_wrt (\<lambda>a b. \<not> tag_less b a) ys" for ys
    by (rule sorted_mset_unique [of "\<lambda>a b. \<not> tag_less b a"]) (use that sorted mset tags_total in auto)
  moreover have "hd (SortTags tags) = ''latest''" if latest: "''latest'' \<in> set tags"
  proof (cases "SortTags tags")
    case Nil
    then show ?thesis using mset latest by simp
  next
    case (Cons t ts)
    then have "''latest'' \<in> set (t # ts)" using mset_eq_setD [OF mset] latest by simp
    moreover have "tag_less ''latest'' t" if "t \<noteq> ''latest''" using that by (simp add: tag_less_def)
    ultimately show ?thesis using sorted Cons by auto
  qed
  moreover have "\<forall>a b. tag_less a b \<longleftrightarrow>
      (if (a = ''latest'') \<noteq> (b = ''latest'') then a = ''latest'' else lex_cmp run_cmp (runs b) (runs a) < 0)"
    by (simp add: tag_less_def naturalLess_runs)
  ultimately show ?thesis using sorted mset by blast
qed

theorem tags_newest_first_witness:
  "SortTags [''v9'', ''v10'', ''latest'', ''v2''] = [''latest'', ''v10'', ''v9'', ''v2'']"
proof -
  have "sorted_wrt (\<lambda>a b. \<not> tag_less b a) [''latest'', ''v10'', ''v9'', ''v2'']" by code_simp
  moreover have "mset [''latest'', ''v10'', ''v9'', ''v2''] = mset [''v9'', ''v10'', ''latest'', ''v2'']"
    by (simp add: add_mset_commute)
  ultimately show ?thesis
    using tags_newest_first [of "[''v9'', ''v10'', ''latest'', ''v2'']", THEN conjunct2, THEN conjunct2, THEN conjunct1] by metis
qed

definition stocked :: RegistryClient where
  "stocked = \<lparr>rc_Catalog = Some [''ws_4/web'', ''ws_5/web'', ''ws_4/api''], rc_Tags = (\<lambda>_. Some (Some [''v9'', ''v10''])),
     rc_ManifestDigest = (\<lambda>_ _. Some ''d1''), rc_Protected = Some (Some [''d2''])\<rparr>"

theorem deletions_stay_home_witness:
  "\<exists>parts. ''ws_4/web'' = JoinStr (Namespace 4 # parts) ''/'' \<and> path_segments (''/v2/'' @ ''ws_4/web'') = ''v2'' # Namespace 4 # parts"
proof -
  have "DeleteTag stocked 4 ''/web/'' ''v9'' = Inr (''ws_4/web'', ''d1'')" by code_simp
  from deletions_stay_home [OF this] show ?thesis by blast
qed

theorem listing_is_the_namespace_witness:
  "\<exists>out. ListRepositories stocked 4 = Some out \<and>
     mset (map (\<lambda>r. Namespace 4 @ ''/'' @ rp_Name r) out) = {#''ws_4/web'', ''ws_4/api''#}"
proof -
  have "ListRepositories stocked 4 \<noteq> None" by code_simp
  then obtain out where out: "ListRepositories stocked 4 = Some out" by blast
  have "filter (\<lambda>r. HasPrefix r (Namespace 4 @ ''/'')) [''ws_4/web'', ''ws_5/web'', ''ws_4/api''] = [''ws_4/web'', ''ws_4/api'']" by code_simp
  then show ?thesis using listing_is_the_namespace [OF out, of "[''ws_4/web'', ''ws_5/web'', ''ws_4/api'']"] out
    by (simp add: stocked_def)
qed

end
