(* ===== verification/Spec2Isabelle.thy ===== *)
theory Spec2Isabelle
  imports Go_Prelude Semver Version_Planner Version_Ledger Container_Grants Resource_Model
    Apply_Planner Resource_Edges Go_Regexp Manifest_Validation Manifest_Parse Config_Files
    Netalloc Runner_Scheduler Placement Go_Float Plan_Quota Workspace_Restriction
    Leader_Election Control_Manager Security_Policy Admin_Unlock Host_Ports Go_Url
    Registry_Access Registry_Images
begin

text \<open>
  A verification library for Miabi, a self-hosted platform that builds, deploys and connects
  container applications on Docker hosts and swarms (Go, under \<^verbatim>\<open>src/\<close>).

  \<^bold>\<open>Parts of the program and the theories that model them.\<close> Paths are below \<^verbatim>\<open>src/internal/\<close>.

  \<^item> \<open>Go_Prelude\<close>: the Go standard functions the code calls (strings, Atoi, Itoa, stable sort), 64-bit
    wrap-around, and the two contracts shared by several components as locales: \<open>strict_weak\<close> (a Go
    \<open>less\<close> function, with the stable sort and the keep-the-best loop as its clients) and \<open>three_way\<close>
    (a comparison function).
  \<^item> \<open>Semver\<close>: versions, series, bumps, tag templates (\<^verbatim>\<open>services/versioning/semver.go\<close>, \<^verbatim>\<open>render.go\<close>).
  \<^item> \<open>Version_Planner\<close>: which version a run receives (\<^verbatim>\<open>services/versioning/next.go\<close>) and how the
    settings of a policy are normalised (\<^verbatim>\<open>settings.go\<close>).
  \<^item> \<open>Version_Ledger\<close>: the table of allocated versions, its transactions and the life of an
    allocation from reservation to publication (\<^verbatim>\<open>services/versioning/service.go\<close>,
    \<^verbatim>\<open>storage/repositories/version_repo.go\<close>), as a step relation.
  \<^item> \<open>Container_Grants\<close>: capabilities, devices and run-as accounts (\<^verbatim>\<open>models/capabilities.go\<close>,
    \<^verbatim>\<open>models/runas.go\<close>).
  \<^item> \<open>Resource_Model\<close>: the declarative resources and the ordered resource set
    (\<^verbatim>\<open>declarative/schema.go\<close>, \<^verbatim>\<open>accessors.go\<close>, \<^verbatim>\<open>resourceset.go\<close>).
  \<^item> \<open>Apply_Planner\<close>: the plan that turns the live set into the desired one
    (\<^verbatim>\<open>declarative/plan.go\<close>, \<^verbatim>\<open>jobs.go\<close>).
  \<^item> \<open>Resource_Edges\<close>: the reference graph and the reference check
    (\<^verbatim>\<open>declarative/edges.go\<close>, \<^verbatim>\<open>validate.go\<close>).
  \<^item> \<open>Go_Regexp\<close>: the regular expressions of the Go library, matched by derivatives, with the inductive
    meaning of a match.
  \<^item> \<open>Manifest_Validation\<close>: the defaults and the checks a declared resource goes through
    (\<^verbatim>\<open>declarative/validate.go\<close>, \<^verbatim>\<open>jobs.go\<close>, and \<open>Parse\<close> of \<^verbatim>\<open>pkg/sealed\<close>).
  \<^item> \<open>Manifest_Parse\<close>: from decoded documents and directories to a resource set
    (\<^verbatim>\<open>declarative/parse.go\<close>).
  \<^item> \<open>Config_Files\<close>: configuration files: storage, references, digests, projection into containers, and
    what the planner's snapshot sees of them (\<^verbatim>\<open>services/config\<close>,
    \<^verbatim>\<open>storage/repositories/config_repo.go\<close>).
  \<^item> \<open>Netalloc\<close>: subnets of managed networks on 32-bit words (\<^verbatim>\<open>services/netalloc\<close>).
  \<^item> \<open>Runner_Scheduler\<close>: which build runner takes a job, and the lease table
    (\<^verbatim>\<open>services/runner/scheduler.go\<close>, \<^verbatim>\<open>storage/repositories/runner_lease_repo.go\<close>).
  \<^item> \<open>Placement\<close>: in which location and on which node a resource lands, and what a workspace is shown
    of the locations (\<^verbatim>\<open>services/placement/placement.go\<close>, \<^verbatim>\<open>reach.go\<close>), over reads that may fail.
  \<^item> \<open>Go_Float\<close>: the binary64 numbers the code computes with: rounding to nearest even, the infinities
    and the not-a-number, and when a comparison of sums is exact.
  \<^item> \<open>Plan_Quota\<close>: plans, their per-workspace overrides and every quota check
    (\<^verbatim>\<open>services/plan/quota.go\<close>), composed with the operations on applications and volumes that they gate.
  \<^item> \<open>Workspace_Restriction\<close>: the service states of a workspace, the cached gate every mutating request
    passes, and the billing levels that set them (\<^verbatim>\<open>services/restriction\<close>, \<^verbatim>\<open>services/billing\<close>).
  \<^item> \<open>Leader_Election\<close>: leases on a shared Redis server, the elector built on them and the deploy lock
    (\<^verbatim>\<open>leader/lease.go\<close>, \<^verbatim>\<open>leader/leader.go\<close>, \<^verbatim>\<open>worker/deploylock.go\<close>), as step relations in which every
    process has a clock of its own and a failed call may still have run.
  \<^item> \<open>Control_Manager\<close>: the sweep that compares what should run with what the engines show, confirms what is
    missing, blocks what lost its data and restores within budgets (\<^verbatim>\<open>services/controlmanager\<close>, \<^verbatim>\<open>drift\<close>,
    \<^verbatim>\<open>datavolume/guard.go\<close>).
  \<^item> \<open>Security_Policy\<close>: the platform's rules by scope, for host ports and for the admin console
    (\<^verbatim>\<open>services/secpolicy\<close>).
  \<^item> \<open>Admin_Unlock\<close>: unlocks of the admin console, wrong codes and lockouts, and the gates on a request
    (\<^verbatim>\<open>services/elevation\<close>, \<^verbatim>\<open>middlewares/admin.go\<close>, \<^verbatim>\<open>handlers/elevation_handler.go\<close>).
  \<^item> \<open>Host_Ports\<close>: host-port requests and their review, the search for a free port, the overview of a node and
    what a deploy publishes (\<^verbatim>\<open>services/portbinding\<close>, \<^verbatim>\<open>storage/repositories/port_repo.go\<close>, \<^verbatim>\<open>worker/deploy.go\<close>).
  \<^item> \<open>Go_Url\<close>: clean paths, percent decoding, queries, base64 and case folding of the Go library.
  \<^item> \<open>Registry_Access\<close>: who may pull from and push to which namespace of the platform's image registry, and which
    image references a workspace may use (\<^verbatim>\<open>services/registryserver/auth.go\<close>, \<^verbatim>\<open>ref.go\<close>, \<^verbatim>\<open>quota.go\<close>,
    \<^verbatim>\<open>services/auth/api_key.go\<close>, \<^verbatim>\<open>models/api_key.go\<close>).
  \<^item> \<open>Registry_Images\<close>: the names, tags and deletions of a workspace's images
    (\<^verbatim>\<open>services/registryserver/name.go\<close>, \<^verbatim>\<open>repos.go\<close>).

  \<^bold>\<open>How they interact.\<close> A pipeline run asks the ledger for a version, the ledger asks the planner, the
  planner works on semantic versions; the run is then claimed by a runner. Manifests are parsed,
  normalised and validated into a resource set; its graph and its plan decide what is created, updated and deleted, in which order; grants are
  normalised on both sides of the plan's comparison; configs are stored by their service and come back
  to the plan through the snapshot; a plan's quotas and the state of its workspace admit an application
  or refuse it; placement picks the node it runs on; networks of deployed applications get their
  subnets from the allocator. Of the processes that share the database one leads and runs the control
  manager, whose restores are deploys and pass the deploy lock and the volume guard; a deploy publishes the host
  ports the security policies let through, and an admin who changes those passes the console's unlock, whose
  settings are themselves a policy. The images that deploys pull and runners push are kept in the registry, where a
  request is decided from the namespace, the key and the membership behind it.

  \<^bold>\<open>Conventions.\<close> A Go string is a list of bytes (\<open>string\<close>), a Go \<open>int\<close> an \<open>int\<close> with \<open>wrap64\<close> where an
  operation can leave the 64-bit range, a \<open>uint32\<close> a 32-bit word, a nil-able pointer an \<open>option\<close>, a Go
  map an association list or a function, an error a value of an error datatype in a sum. Database tables
  are lists of rows with their unique keys checked by the insert, a transaction is one function;
  statements that other processes can interleave with are separate steps of an \<open>inductive\<close> relation.
  Messages of errors that only a person reads are dropped or replaced by constructors.

  \<^bold>\<open>What the lemmas show.\<close> For the versions: the order is total, printing and parsing are inverse, a
  planned release advances its series and is never reused, a published version is permanent, a failed
  run gives its version back, a floating tag never moves back. For the manifests: a plan is complete,
  ordered by dependency, deletes only what it owns, is empty on a converged workspace and independent
  of secret values; parsing is all or nothing, an accepted resource is unchanged by normalising it again
  and hides no error from the planner; configuration files stay beneath their mount, an update redeploys
  on a change only, stored rows stay consistent. For the grants: only listed capabilities and devices are granted and stored lists are
  fixed points. For the networks: no two rows of the ledger ever overlap. For the runners: the choice is
  the specified one, a job is claimed at most once, and a waiting job is told the reason. For the locations: nothing is
  placed outside the organization, a hidden location looks like a missing one, what is listed is what
  resolves, the least loaded node is chosen. For the quotas: the budgets of a plan hold after any
  sequence of admitted operations, within stated ranges of the machine numbers. For the restrictions:
  suspending and releasing a workspace restores what ran, a cached state is stale for a bounded time
  only, billing never lifts a hold of the operator and its enforcement converges. For the leases: at most
  one process leads at any time, under a bound on the clocks' speeds, a standby takes over, two deploys of an
  app exclude each other as long as the lock is refreshed in time. For the control manager: a finding is exactly
  a streak of sweeps, a restore follows confirmation and respects blocks, budgets and the breaker. For the
  policies: a narrow rule never loosens the platform's, a saved rule is what takes effect. For the console: nobody
  passes without a second factor given in this session, an ended unlock stays ended, wrong codes lock out until
  the end of the lockout. For the host ports: one approved binding per port of a node, the search finds the first
  free port, a conflict names only the asking workspace's own containers, a rejected port is not published. For the
  registry: a grant needs standing in the workspace, what it reaches lies in the workspace's namespace, references and
  deletions stay there, and tags are ordered as their numbers are. Some theorems
  state limits of the code, each at the place its text says so.

  \<^bold>\<open>Bounds and fuel.\<close> \<open>trim_left_fuel\<close>, \<open>collapse_dashes\<close>, \<open>replacer\<close>, \<open>path_match_fuel\<close>, \<open>class_ranges\<close>,
  \<open>tmpl_scan\<close> and \<open>cut_refs\<close> recurse on the length of their input, which each round shortens; the retry loops use
  the code's own bounds (\<open>maxReserveAttempts\<close>, \<open>maxTagSkips\<close>, \<open>maxAttempts\<close>).

  \<^bold>\<open>Parameters.\<close> Code outside \<^verbatim>\<open>src/\<close> is an argument: floating-point parsing and hashing (\<open>GoStd\<close>), the
  module \<^verbatim>\<open>x/mod/semver\<close> (\<open>ModSemver\<close>), the schedule parser \<^verbatim>\<open>robfig/cron\<close>, the sealing of stored data
  (\<open>ConfigLib\<close>), the reading of addresses and durations (\<open>AccessLib\<close>), what decoding a YAML document gives (\<open>Node\<close>), the container registry, the engine and
  which reads or writes of the storage fail.

  \<^bold>\<open>Not modelled.\<close> HTTP handlers and wiring, the ORM and the container engine client, YAML decoding
  and template rendering by third-party libraries, the console, and the services that only move data
  between them. Candidates for extension: safe rollout, route and certificate rules.
\<close>

end
